(* ===== verification/Prelude.thy ===== *)
theory Prelude
  imports Main "HOL-Library.Word"
begin

text \<open>
  What every component of the development shares: machine integers, the status codes of
  \<^verbatim>\<open>amqp.h\<close>, the outcome of running a C function, and the small state-and-error
  calculus in which the functions of librabbitmq are written.

  A C function that updates memory and returns a status is a computation
  \<open>'s \<Rightarrow> 'a outcome \<times> 's\<close> on an explicit state.  An early return (\<^verbatim>\<open>return
  AMQP_STATUS_...\<close>, \<^verbatim>\<open>goto out\<close>) is the outcome \<open>Err\<close>; the state reached so far is
  kept, as it is in C.  \<open>Undef\<close> is undefined behaviour: an access outside the block a pointer
  belongs to, a struct read through the wrong type, a block freed twice.  \<open>Abort\<close> is a call of
  \<^verbatim>\<open>amqp_abort\<close>.  \<open>OutOfFuel\<close> is the artefact of a loop bounded by fuel; each such loop has a
  lemma that excludes it.
\<close>

section \<open>Machine integers\<close>

type_synonym u8 = "8 word"
type_synonym u16 = "16 word"
type_synonym u32 = "32 word"
type_synonym u64 = "64 word"
type_synonym bytes = "u8 list"

text \<open>The bytes of a string literal, without the terminator.\<close>

definition ascii :: "string \<Rightarrow> bytes" where
  "ascii s = map of_char s"

section \<open>Status codes\<close>

datatype amqp_status_enum =
    AMQP_STATUS_OK
  | AMQP_STATUS_NO_MEMORY
  | AMQP_STATUS_BAD_AMQP_DATA
  | AMQP_STATUS_UNKNOWN_CLASS
  | AMQP_STATUS_UNKNOWN_METHOD
  | AMQP_STATUS_HOSTNAME_RESOLUTION_FAILED
  | AMQP_STATUS_INCOMPATIBLE_AMQP_VERSION
  | AMQP_STATUS_CONNECTION_CLOSED
  | AMQP_STATUS_BAD_URL
  | AMQP_STATUS_SOCKET_ERROR
  | AMQP_STATUS_INVALID_PARAMETER
  | AMQP_STATUS_TABLE_TOO_BIG
  | AMQP_STATUS_WRONG_METHOD
  | AMQP_STATUS_TIMEOUT
  | AMQP_STATUS_TIMER_FAILURE
  | AMQP_STATUS_HEARTBEAT_TIMEOUT
  | AMQP_STATUS_TCP_ERROR
  | AMQP_STATUS_TCP_SOCKETLIB_INIT_ERROR
  | AMQP_STATUS_SSL_ERROR
  | AMQP_STATUS_SSL_HOSTNAME_VERIFY_FAILED
  | AMQP_STATUS_SSL_PEER_VERIFY_FAILED
  | AMQP_STATUS_SSL_CONNECTION_FAILED

section \<open>Outcomes and computations\<close>

datatype 'a outcome = Ok 'a | Err amqp_status_enum | Abort | Undef | OutOfFuel

type_synonym ('s, 'a) cm = "'s \<Rightarrow> 'a outcome \<times> 's"

definition ret :: "'a \<Rightarrow> ('s, 'a) cm" where
  "ret a = (\<lambda>s. (Ok a, s))"

definition raise :: "amqp_status_enum \<Rightarrow> ('s, 'a) cm" where
  "raise e = (\<lambda>s. (Err e, s))"

definition undef :: "('s, 'a) cm" where
  "undef = (\<lambda>s. (Undef, s))"

definition amqp_abort :: "('s, 'a) cm" where
  "amqp_abort = (\<lambda>s. (Abort, s))"

definition out_of_fuel :: "('s, 'a) cm" where
  "out_of_fuel = (\<lambda>s. (OutOfFuel, s))"

definition get :: "('s, 's) cm" where
  "get = (\<lambda>s. (Ok s, s))"

definition modify :: "('s \<Rightarrow> 's) \<Rightarrow> ('s, unit) cm" where
  "modify f = (\<lambda>s. (Ok (), f s))"

fun pass_error :: "'a outcome \<Rightarrow> 'b outcome" where
  "pass_error (Err e) = Err e"
| "pass_error Abort = Abort"
| "pass_error OutOfFuel = OutOfFuel"
| "pass_error _ = Undef"

definition and_then :: "('s, 'a) cm \<Rightarrow> ('a \<Rightarrow> ('s, 'b) cm) \<Rightarrow> ('s, 'b) cm" where
  "and_then m f = (\<lambda>s. case m s of (r, s') \<Rightarrow>
     (case r of Ok a \<Rightarrow> f a s' | _ \<Rightarrow> (pass_error r, s')))"

text \<open>
  The primitives of the C code return 1 or 0; \<open>None\<close> is the 0.  \<open>or_return e m\<close> is
  \<^verbatim>\<open>if (!m) return e;\<close>.
\<close>

definition or_return :: "amqp_status_enum \<Rightarrow> ('s, 'a option) cm \<Rightarrow> ('s, 'a) cm" where
  "or_return e m = and_then m (\<lambda>r. case r of None \<Rightarrow> raise e | Some a \<Rightarrow> ret a)"

text \<open>\<open>cleaning_up\<close> runs the clean-up code at an \<^verbatim>\<open>out:\<close> label, whatever the outcome was.\<close>

definition cleaning_up :: "('s, 'a) cm \<Rightarrow> ('s, unit) cm \<Rightarrow> ('s, 'a) cm" where
  "cleaning_up m c = (\<lambda>s. case m s of (r, s') \<Rightarrow>
     (case r of Ok _ \<Rightarrow> (case c s' of (Ok _, s'') \<Rightarrow> (r, s'') | (q, s'') \<Rightarrow> (pass_error q, s''))
      | Err _ \<Rightarrow> (case c s' of (Ok _, s'') \<Rightarrow> (r, s'') | (q, s'') \<Rightarrow> (pass_error q, s''))
      | _ \<Rightarrow> (r, s')))"

named_theorems run "equations that run a computation on a state"

lemma run_ret [run, simp]: "ret a s = (Ok a, s)"
  by (simp add: ret_def)

lemma run_raise [run, simp]: "raise e s = (Err e, s)"
  by (simp add: raise_def)

lemma run_undef [run, simp]: "undef s = (Undef, s)"
  by (simp add: undef_def)

lemma run_abort [run, simp]: "amqp_abort s = (Abort, s)"
  by (simp add: amqp_abort_def)

lemma run_out_of_fuel [run, simp]: "out_of_fuel s = (OutOfFuel, s)"
  by (simp add: out_of_fuel_def)

lemma run_and_then: "and_then m f s =
    (case m s of (Ok a, s') \<Rightarrow> f a s' | (r, s') \<Rightarrow> (pass_error r, s'))"
  by (auto simp: and_then_def split: prod.splits outcome.splits)

lemma and_then_Ok [run]: "m s = (Ok a, s') \<Longrightarrow> and_then m f s = f a s'"
  by (simp add: and_then_def)

lemma and_then_Err [run]: "m s = (Err e, s') \<Longrightarrow> and_then m f s = (Err e, s')"
  by (simp add: and_then_def)

lemma and_then_ret [simp]: "and_then (ret a) f = f a"
  by (simp add: and_then_def fun_eq_iff)

lemma and_then_raise [simp]: "and_then (raise e) f = raise e"
  by (simp add: and_then_def fun_eq_iff raise_def)

lemma and_then_undef [simp]: "and_then undef f = undef"
  by (simp add: and_then_def fun_eq_iff undef_def)

lemma run_get [run, simp]: "get s = (Ok s, s)"
  by (simp add: get_def)

lemma run_modify [run, simp]: "modify f s = (Ok (), f s)"
  by (simp add: modify_def)

lemma and_then_get [simp]: "and_then get f s = f s s"
  by (simp add: and_then_def)

lemma and_then_modify [simp]: "and_then (modify g) f s = f () (g s)"
  by (simp add: and_then_def)

lemma and_then_assoc: "and_then (and_then m f) g = and_then m (\<lambda>a. and_then (f a) g)"
  by (auto simp: fun_eq_iff and_then_def split: prod.splits outcome.splits)

lemma and_then_OkE:
  assumes "and_then m f s = (Ok b, s'')"
  obtains a s' where "m s = (Ok a, s')" and "f a s' = (Ok b, s'')"
  using assms by (auto simp: run_and_then split: prod.splits outcome.splits)

lemma or_return_Some [run]: "m s = (Ok (Some a), s') \<Longrightarrow> or_return e m s = (Ok a, s')"
  by (simp add: or_return_def and_then_def)

lemma or_return_None [run]: "m s = (Ok None, s') \<Longrightarrow> or_return e m s = (Err e, s')"
  by (simp add: or_return_def and_then_def)

lemma pass_error_not_Ok [simp]: "pass_error r \<noteq> Ok a"
  by (cases r) auto

text \<open>Recursive computations: what is run first is needed only at the state it is run from.\<close>

lemma and_then_cong [fundef_cong]:
  assumes "m s = m' s" and "\<And>a s'. m' s = (Ok a, s') \<Longrightarrow> f a s' = f' a s'" and "s = t"
  shows "and_then m f s = and_then m' f' t"
  using assms by (auto simp: and_then_def split: prod.splits outcome.splits)

section \<open>Frames: what a computation leaves alone\<close>

text \<open>
  \<open>steps R m\<close>: every run of \<open>m\<close>, whatever its outcome, relates the first state to the last
  by \<open>R\<close>.  For a reflexive and transitive \<open>R\<close> the relation passes through the whole calculus,
  which the locale proves once for all the relations of the components.
\<close>

definition steps :: "('s \<Rightarrow> 's \<Rightarrow> bool) \<Rightarrow> ('s, 'a) cm \<Rightarrow> bool" where
  "steps R m \<longleftrightarrow> (\<forall>s. R s (snd (m s)))"

lemma stepsI: "(\<And>s r s'. m s = (r, s') \<Longrightarrow> R s s') \<Longrightarrow> steps R m"
  by (metis steps_def prod.collapse)

lemma stepsD: "steps R m \<Longrightarrow> m s = (r, s') \<Longrightarrow> R s s'"
  by (metis steps_def snd_conv)

locale frame_relation =
  fixes R :: "'s \<Rightarrow> 's \<Rightarrow> bool"
  assumes refl: "R s s"
    and trans: "R s t \<Longrightarrow> R t u \<Longrightarrow> R s u"
begin

lemma steps_ret: "steps R (ret a)"
  by (simp add: steps_def refl)

lemma steps_raise: "steps R (raise e)"
  by (simp add: steps_def refl)

lemma steps_undef: "steps R undef"
  by (simp add: steps_def refl)

lemma steps_abort: "steps R amqp_abort"
  by (simp add: steps_def refl)

lemma steps_out_of_fuel: "steps R out_of_fuel"
  by (simp add: steps_def refl)

lemma steps_and_then:
  assumes "steps R m" and "\<And>a. steps R (f a)"
  shows "steps R (and_then m f)"
proof (rule stepsI)
  fix s r s''
  assume run: "and_then m f s = (r, s'')"
  obtain q s' where m: "m s = (q, s')" by (cases "m s")
  with assms(1) have "R s s'" by (auto dest: stepsD)
  moreover have "R s' s''"
  proof (cases q)
    case (Ok a)
    with run m have "f a s' = (r, s'')" by (simp add: and_then_def)
    with assms(2) show ?thesis by (auto dest: stepsD)
  qed (use run m in \<open>auto simp: and_then_def refl\<close>)
  ultimately show "R s s''" by (rule trans)
qed

lemma steps_or_return: "steps R m \<Longrightarrow> steps R (or_return e m)"
  unfolding or_return_def
  by (rule steps_and_then) (auto split: option.split intro: steps_ret steps_raise)

lemma steps_cleaning_up:
  assumes "steps R m" and "steps R c"
  shows "steps R (cleaning_up m c)"
proof (rule stepsI)
  fix s r s''
  assume run: "cleaning_up m c s = (r, s'')"
  obtain q s' where m: "m s = (q, s')" by (cases "m s")
  obtain p t where c: "c s' = (p, t)" by (cases "c s'")
  from assms m c have "R s s'" "R s' t" by (auto dest: stepsD)
  moreover from run m c have "s'' = s' \<or> s'' = t"
    by (auto simp: cleaning_up_def split: outcome.splits)
  ultimately show "R s s''" by (auto intro: trans)
qed

lemmas frame_intros = steps_ret steps_raise steps_undef steps_abort steps_out_of_fuel
  steps_and_then steps_or_return steps_cleaning_up

end

section \<open>Safety: what every run of a computation guarantees\<close>

text \<open>
  \<open>safe I R m\<close>: from a state that satisfies the invariant \<open>I\<close>, \<open>m\<close> returns (with a value or an error
  code, never with undefined behaviour, an abort or a loop that does not end), re-establishes \<open>I\<close>
  and relates the two states by \<open>R\<close>.
\<close>

fun returns :: "'a outcome \<Rightarrow> bool" where
  "returns (Ok _) = True"
| "returns (Err _) = True"
| "returns _ = False"

definition safe :: "('s \<Rightarrow> bool) \<Rightarrow> ('s \<Rightarrow> 's \<Rightarrow> bool) \<Rightarrow> ('s, 'a) cm \<Rightarrow> bool" where
  "safe I R m \<longleftrightarrow> (\<forall>s. I s \<longrightarrow> returns (fst (m s)) \<and> I (snd (m s)) \<and> R s (snd (m s)))"

lemma safeI: "(\<And>s r s'. I s \<Longrightarrow> m s = (r, s') \<Longrightarrow> returns r \<and> I s' \<and> R s s') \<Longrightarrow> safe I R m"
  by (metis safe_def prod.collapse)

lemma safeD: "safe I R m \<Longrightarrow> I s \<Longrightarrow> m s = (r, s') \<Longrightarrow> returns r \<and> I s' \<and> R s s'"
  by (metis safe_def fst_conv snd_conv)

lemma safe_steps: "safe I R m \<Longrightarrow> I s \<Longrightarrow> R s (snd (m s))"
  by (simp add: safe_def)

locale safety = frame_relation R for R :: "'s \<Rightarrow> 's \<Rightarrow> bool" +
  fixes I :: "'s \<Rightarrow> bool"
begin

lemma safe_ret: "safe I R (ret a)"
  by (simp add: safe_def refl)

lemma safe_raise: "safe I R (raise e)"
  by (simp add: safe_def refl)

lemma safe_and_then:
  assumes "safe I R m" and "\<And>a. safe I R (f a)"
  shows "safe I R (and_then m f)"
proof (rule safeI)
  fix s r s''
  assume s: "I s" and run: "and_then m f s = (r, s'')"
  obtain q s' where m: "m s = (q, s')" by (cases "m s")
  with assms(1) s have q: "returns q" "I s'" "R s s'" by (auto dest: safeD)
  show "returns r \<and> I s'' \<and> R s s''"
  proof (cases q)
    case (Ok a)
    with run m have "f a s' = (r, s'')" by (simp add: and_then_Ok)
    with assms(2) q show ?thesis by (auto dest: safeD intro: trans)
  qed (use run m q in \<open>auto simp: and_then_Err\<close>)
qed

lemma safe_or_return: "safe I R m \<Longrightarrow> safe I R (or_return e m)"
  unfolding or_return_def
  by (rule safe_and_then) (auto split: option.split intro: safe_ret safe_raise)

lemmas safe_intros = safe_ret safe_raise safe_and_then safe_or_return

end

section \<open>Overwriting a stretch of a buffer\<close>

text \<open>\<open>splice xs i ys\<close> is the buffer \<open>xs\<close> after \<^verbatim>\<open>memcpy(xs + i, ys, length ys)\<close>.\<close>

definition splice :: "'a list \<Rightarrow> nat \<Rightarrow> 'a list \<Rightarrow> 'a list" where
  "splice xs i ys = take i xs @ ys @ drop (i + length ys) xs"

lemma length_splice [simp]: "i + length ys \<le> length xs \<Longrightarrow> length (splice xs i ys) = length xs"
  by (simp add: splice_def)

lemma splice_Nil [simp]: "splice xs i [] = xs"
  by (simp add: splice_def)

lemma take_splice [simp]: "j \<le> i \<Longrightarrow> i \<le> length xs \<Longrightarrow> take j (splice xs i ys) = take j xs"
  by (simp add: splice_def)

lemma drop_splice [simp]:
  "i + length ys \<le> j \<Longrightarrow> i + length ys \<le> length xs \<Longrightarrow> drop j (splice xs i ys) = drop j xs"
  by (simp add: splice_def drop_eq_Nil algebra_simps)

lemma splice_splice_append:
  "i + length ys \<le> length xs \<Longrightarrow>
   splice (splice xs i ys) (i + length ys) zs = splice xs i (ys @ zs)"
  by (simp add: splice_def ac_simps)

lemma splice_before:
  "length ys = k \<Longrightarrow> i + k + length zs \<le> length xs \<Longrightarrow>
   splice (splice xs (i + k) zs) i ys = splice xs i (ys @ zs)"
  by (simp add: splice_def take_add add.assoc drop_eq_Nil)

text \<open>\<open>slice xs i n\<close> is what a pointer to \<open>xs + i\<close> with length \<open>n\<close> denotes.\<close>

definition slice :: "'a list \<Rightarrow> nat \<Rightarrow> nat \<Rightarrow> 'a list" where
  "slice xs i n = take n (drop i xs)"

lemma length_slice [simp]: "i + n \<le> length xs \<Longrightarrow> length (slice xs i n) = n"
  by (simp add: slice_def)

lemma slice_splice [simp]: "i + length ys \<le> length xs \<Longrightarrow> slice (splice xs i ys) i (length ys) = ys"
  by (simp add: slice_def splice_def)

lemma slice_append_split:
  "slice xs i (m + n) = slice xs i m @ slice xs (i + m) n"
  by (simp add: slice_def take_add add.commute)

section \<open>Numbers in decimal\<close>

text \<open>What \<^verbatim>\<open>%d\<close>, or \<^verbatim>\<open><<\<close> of a stream, makes of an \<^verbatim>\<open>int\<close>.\<close>

fun decimal_nat :: "nat \<Rightarrow> bytes" where
  "decimal_nat n = (if n < 10 then [of_nat (48 + n)] else decimal_nat (n div 10) @ [of_nat (48 + n mod 10)])"

declare decimal_nat.simps [simp del]

definition decimal :: "int \<Rightarrow> bytes" where
  "decimal i = (if i < 0 then 45 # decimal_nat (nat (- i)) else decimal_nat (nat i))"

text \<open>The limits of \<^verbatim>\<open>long\<close> on LP64.\<close>

definition LONG_MIN :: int where "LONG_MIN = - (2 ^ 63)"
definition LONG_MAX :: int where "LONG_MAX = 2 ^ 63 - 1"

end
