(* ===== verification/Mem.thy ===== *)
theory Mem
  imports Prelude
begin

text \<open>
  \<^verbatim>\<open>amqp_mem.c\<close>: the C heap as its callers see it, memory pools, the table of per-channel
  pools, and the byte-string helpers.

  The C allocator is the platform's.  \<open>heap\<close> records the blocks that are allocated (\<open>live\<close>:
  block number to size) and which requests the platform grants (\<open>grants\<close>: any function, so
  every theorem holds for every pattern of allocation failures).  Freeing or reallocating a block
  that is not allocated is \<open>Undef\<close>.
\<close>

unbundle bit_operations_syntax

section \<open>The C heap\<close>

record heap =
  next_id :: nat
  grants :: "nat \<Rightarrow> bool"
  live :: "nat \<Rightarrow> nat option"

definition c_malloc :: "nat \<Rightarrow> ('a heap_scheme, nat option) cm" where
  "c_malloc sz = (\<lambda>s. let i = next_id s in
     if grants s i then (Ok (Some i), s\<lparr>next_id := Suc i, live := (live s)(i \<mapsto> sz)\<rparr>)
     else (Ok None, s\<lparr>next_id := Suc i\<rparr>))"

definition c_free :: "nat option \<Rightarrow> ('a heap_scheme, unit) cm" where
  "c_free p = (case p of None \<Rightarrow> ret ()
     | Some i \<Rightarrow> (\<lambda>s. if live s i = None then (Undef, s) else (Ok (), s\<lparr>live := (live s)(i := None)\<rparr>)))"

definition c_realloc :: "nat option \<Rightarrow> nat \<Rightarrow> ('a heap_scheme, nat option) cm" where
  "c_realloc p sz = (case p of None \<Rightarrow> c_malloc sz
     | Some i \<Rightarrow> (\<lambda>s. if live s i = None then (Undef, s)
         else let j = next_id s in
           if grants s j then (Ok (Some j), s\<lparr>next_id := Suc j, live := (live s)(i := None, j \<mapsto> sz)\<rparr>)
           else (Ok None, s\<lparr>next_id := Suc j\<rparr>)))"

section \<open>Pools\<close>

text \<open>
  \<open>blocks\<close> are the \<^verbatim>\<open>num_blocks\<close> entries of \<^verbatim>\<open>blocklist\<close>, and \<open>block_array\<close> is the heap block
  that holds that array (\<open>None\<close> for \<^verbatim>\<open>NULL\<close>).
\<close>

record amqp_pool_blocklist =
  block_array :: "nat option"
  blocks :: "nat list"

definition num_blocks :: "amqp_pool_blocklist \<Rightarrow> nat" where
  "num_blocks x = length (blocks x)"

record amqp_pool =
  pagesize :: nat
  pages :: amqp_pool_blocklist
  large_blocks :: amqp_pool_blocklist
  next_page :: nat
  alloc_block :: "nat option"
  alloc_used :: nat

record pool_state = heap +
  the_pool :: amqp_pool

type_synonym address = "nat \<times> nat"

definition empty_blocklist_value :: amqp_pool_blocklist where
  "empty_blocklist_value = \<lparr>block_array = None, blocks = []\<rparr>"

definition init_amqp_pool :: "nat \<Rightarrow> amqp_pool" where
  "init_amqp_pool pagesz = \<lparr>pagesize = (if pagesz \<noteq> 0 then pagesz else 4096),
     pages = empty_blocklist_value, large_blocks = empty_blocklist_value,
     next_page = 0, alloc_block = None, alloc_used = 0\<rparr>"

primrec free_blocks :: "nat list \<Rightarrow> ('a heap_scheme, unit) cm" where
  "free_blocks [] = ret ()"
| "free_blocks (b # bs) = and_then (c_free (Some b)) (\<lambda>_. free_blocks bs)"

definition empty_blocklist ::
    "amqp_pool_blocklist \<Rightarrow> ('a heap_scheme, amqp_pool_blocklist) cm" where
  "empty_blocklist x =
     and_then (free_blocks (blocks x)) (\<lambda>_.
     and_then (c_free (block_array x)) (\<lambda>_.
     ret empty_blocklist_value))"

definition get_pool :: "('a pool_state_scheme, amqp_pool) cm" where
  "get_pool = (\<lambda>s. (Ok (the_pool s), s))"

definition put_pool :: "amqp_pool \<Rightarrow> ('a pool_state_scheme, unit) cm" where
  "put_pool p = (\<lambda>s. (Ok (), s\<lparr>the_pool := p\<rparr>))"

definition recycle_amqp_pool :: "('a pool_state_scheme, unit) cm" where
  "recycle_amqp_pool =
     and_then get_pool (\<lambda>p.
     and_then (empty_blocklist (large_blocks p)) (\<lambda>bl.
     put_pool (p\<lparr>large_blocks := bl, next_page := 0, alloc_block := None, alloc_used := 0\<rparr>)))"

definition empty_amqp_pool :: "('a pool_state_scheme, unit) cm" where
  "empty_amqp_pool =
     and_then recycle_amqp_pool (\<lambda>_.
     and_then get_pool (\<lambda>p.
     and_then (empty_blocklist (pages p)) (\<lambda>bl.
     put_pool (p\<lparr>pages := bl\<rparr>))))"

definition sizeof_pointer :: nat where
  "sizeof_pointer = 8"

text \<open>\<open>None\<close> is the return value 0; the list is then unchanged.\<close>

definition record_pool_block ::
    "amqp_pool_blocklist \<Rightarrow> nat \<Rightarrow> ('a heap_scheme, amqp_pool_blocklist option) cm" where
  "record_pool_block x block =
     (let blocklistlength = sizeof_pointer * (num_blocks x + 1) in
      and_then (if block_array x = None then c_malloc blocklistlength
                else c_realloc (block_array x) blocklistlength)
        (\<lambda>r. case r of
           None \<Rightarrow> ret None
         | Some a \<Rightarrow> ret (Some \<lparr>block_array = Some a, blocks = blocks x @ [block]\<rparr>)))"

definition round_up :: "nat \<Rightarrow> nat" where
  "round_up amount = unat ((word_of_nat amount + 7 :: u64) AND NOT 7)"

definition pool_alloc_large :: "nat \<Rightarrow> ('a pool_state_scheme, address option) cm" where
  "pool_alloc_large amount =
     and_then (c_malloc amount) (\<lambda>r. case r of
       None \<Rightarrow> ret None
     | Some result \<Rightarrow>
         and_then get_pool (\<lambda>p.
         and_then (record_pool_block (large_blocks p) result) (\<lambda>bl. case bl of
           None \<Rightarrow> ret None
         | Some x \<Rightarrow> and_then (put_pool (p\<lparr>large_blocks := x\<rparr>)) (\<lambda>_. ret (Some (result, 0))))))"

definition pool_alloc_page :: "nat \<Rightarrow> ('a pool_state_scheme, address option) cm" where
  "pool_alloc_page amount =
     and_then get_pool (\<lambda>p.
       if next_page p \<ge> num_blocks (pages p) then
         and_then (c_malloc (pagesize p)) (\<lambda>r.
         and_then (put_pool (p\<lparr>alloc_block := r\<rparr>)) (\<lambda>_. case r of
           None \<Rightarrow> ret None
         | Some page \<Rightarrow>
             and_then (record_pool_block (pages p) page) (\<lambda>bl. case bl of
               None \<Rightarrow> ret None
             | Some x \<Rightarrow>
                 and_then (put_pool (p\<lparr>alloc_block := r, pages := x, next_page := num_blocks x,
                                       alloc_used := amount\<rparr>)) (\<lambda>_.
                 ret (Some (page, 0))))))
       else let page = blocks (pages p) ! next_page p in
         and_then (put_pool (p\<lparr>alloc_block := Some page, next_page := next_page p + 1,
                               alloc_used := amount\<rparr>)) (\<lambda>_.
         ret (Some (page, 0))))"

definition amqp_pool_alloc :: "nat \<Rightarrow> ('a pool_state_scheme, address option) cm" where
  "amqp_pool_alloc amount0 =
     (if amount0 = 0 then ret None
      else let amount = round_up amount0 in
        and_then get_pool (\<lambda>p.
          if amount > pagesize p then pool_alloc_large amount
          else case alloc_block p of
              None \<Rightarrow> pool_alloc_page amount
            | Some b \<Rightarrow>
                if \<not> alloc_used p \<le> pagesize p then amqp_abort
                else if alloc_used p + amount \<le> pagesize p then
                  and_then (put_pool (p\<lparr>alloc_used := alloc_used p + amount\<rparr>)) (\<lambda>_.
                  ret (Some (b, alloc_used p)))
                else pool_alloc_page amount))"

section \<open>Byte strings\<close>

text \<open>
  A C string is its characters before the terminating 0, so \<^verbatim>\<open>strlen\<close> is the length.  A copy
  whose allocation failed has the length of the source and no bytes (\<open>None\<close>).
\<close>

definition amqp_cstring_bytes :: "bytes \<Rightarrow> bytes" where
  "amqp_cstring_bytes cstr = takeWhile (\<lambda>c. c \<noteq> 0) cstr"

record malloced_bytes =
  mb_len :: nat
  mb_block :: "nat option"
  mb_bytes :: bytes

definition amqp_bytes_malloc_dup :: "bytes \<Rightarrow> ('a heap_scheme, malloced_bytes) cm" where
  "amqp_bytes_malloc_dup src =
     and_then (c_malloc (length src)) (\<lambda>r. case r of
       None \<Rightarrow> ret \<lparr>mb_len = length src, mb_block = None, mb_bytes = []\<rparr>
     | Some b \<Rightarrow> ret \<lparr>mb_len = length src, mb_block = Some b, mb_bytes = src\<rparr>)"

definition amqp_bytes_malloc :: "nat \<Rightarrow> ('a heap_scheme, nat \<times> nat option) cm" where
  "amqp_bytes_malloc amount = and_then (c_malloc amount) (\<lambda>r. ret (amount, r))"

definition amqp_pool_alloc_bytes :: "nat \<Rightarrow> ('a pool_state_scheme, nat \<times> address option) cm" where
  "amqp_pool_alloc_bytes amount = and_then (amqp_pool_alloc amount) (\<lambda>r. ret (amount, r))"

definition amqp_bytes_free :: "malloced_bytes \<Rightarrow> ('a heap_scheme, unit) cm" where
  "amqp_bytes_free b = c_free (mb_block b)"

section \<open>Rounding\<close>

lemma run_get_pool [run, simp]: "get_pool s = (Ok (the_pool s), s)"
  by (simp add: get_pool_def)
lemma run_put_pool [run, simp]: "put_pool p s = (Ok (), s\<lparr>the_pool := p\<rparr>)"
  by (simp add: put_pool_def)

lemma and_mask_3: "w AND NOT (mask 3) = push_bit 3 (drop_bit 3 (w :: u64))"
  by (rule bit_word_eqI) (auto simp: bit_simps)

lemma round_up_alt: "round_up n = take_bit 64 (8 * (unat (word_of_nat n + 7 :: u64) div 8))"
proof -
  have "round_up n = unat (push_bit 3 (drop_bit 3 (word_of_nat n + 7 :: u64)))"
    unfolding round_up_def by (subst and_mask_3 [symmetric]) (simp add: mask_eq_exp_minus_1)
  also have "\<dots> = take_bit 64 (8 * (unat (word_of_nat n + 7 :: u64) div 8))"
    by (simp add: push_bit_eq_mult unat_word_ariths take_bit_eq_mod unat_drop_bit_eq drop_bit_eq_div mult.commute)
  finally show ?thesis .
qed

lemma round_up_eq: "n < 2 ^ 64 - 7 \<Longrightarrow> round_up n = (n + 7) div 8 * 8"
proof -
  assume n: "n < 2 ^ 64 - 7"
  then have "unat (word_of_nat n + 7 :: u64) = n + 7"
    by (simp add: unat_word_ariths unat_of_nat take_bit_eq_mod)
  moreover have "(n + 7) div 8 * 8 < 2 ^ 64" using n by simp
  ultimately show ?thesis by (simp add: round_up_alt take_bit_eq_mod mult.commute)
qed

lemma round_up_ge: "n < 2 ^ 64 - 7 \<Longrightarrow> n \<le> round_up n"
  by (simp add: round_up_eq)
lemma round_up_dvd: "8 dvd round_up n"
  by (simp add: round_up_alt take_bit_eq_mod dvd_mod)


section \<open>The pool invariant\<close>

definition array_blocks :: "amqp_pool_blocklist \<Rightarrow> nat list" where
  "array_blocks x = (case block_array x of None \<Rightarrow> [] | Some a \<Rightarrow> [a])"

definition owned :: "amqp_pool_blocklist \<Rightarrow> amqp_pool_blocklist \<Rightarrow> nat list" where
  "owned P G = blocks P @ blocks G @ array_blocks P @ array_blocks G"

definition owner_ok :: "(nat \<Rightarrow> nat option) \<Rightarrow> amqp_pool_blocklist \<Rightarrow> amqp_pool_blocklist \<Rightarrow> bool" where
  "owner_ok L P G \<longleftrightarrow> distinct (owned P G) \<and> (\<forall>b\<in>set (owned P G). L b \<noteq> None)"

definition unused_pages :: "amqp_pool \<Rightarrow> nat list" where
  "unused_pages p = drop (next_page p) (blocks (pages p))"

text \<open>The blocks a pool will hand out or free later, other than the page in use.\<close>

definition reserved :: "amqp_pool \<Rightarrow> nat set" where
  "reserved p = set (unused_pages p) \<union> set (array_blocks (pages p)) \<union> set (array_blocks (large_blocks p))"

definition pool_ok :: "(nat \<Rightarrow> nat option) \<Rightarrow> amqp_pool \<Rightarrow> bool" where
  "pool_ok L p \<longleftrightarrow> owner_ok L (pages p) (large_blocks p) \<and>
     (\<forall>b\<in>set (blocks (pages p)). L b = Some (pagesize p)) \<and>
     next_page p \<le> num_blocks (pages p) \<and> alloc_used p \<le> pagesize p \<and> 8 dvd alloc_used p \<and>
     (\<forall>b. alloc_block p = Some b \<longrightarrow> L b = Some (pagesize p) \<and> b \<notin> reserved p \<and>
        b \<notin> set (blocks (large_blocks p)))"

definition handed_ok :: "(nat \<Rightarrow> nat option) \<Rightarrow> amqp_pool \<Rightarrow> address set \<Rightarrow> bool" where
  "handed_ok L p H \<longleftrightarrow> pool_ok L p \<and>
     (\<forall>b i. (b, i) \<in> H \<longrightarrow> b \<notin> reserved p \<and> (\<exists>n. L b = Some n \<and> i < n) \<and>
        (alloc_block p = Some b \<longrightarrow> i < alloc_used p))"

definition region :: "address \<Rightarrow> nat \<Rightarrow> address set" where
  "region a n = {fst a} \<times> {snd a ..< snd a + n}"

lemma owner_ok_sym: "owner_ok L P G \<Longrightarrow> owner_ok L G P"
  unfolding owner_ok_def owned_def by auto

lemma owner_ok_ext: "owner_ok L P G \<Longrightarrow> (\<And>b. L b \<noteq> None \<Longrightarrow> L' b = L b) \<Longrightarrow> owner_ok L' P G"
  unfolding owner_ok_def by metis

lemma owner_ok_add:
  assumes "owner_ok L P G" and "i \<notin> set (owned P G)" and "j \<notin> set (owned P G)" and "i \<noteq> j"
    and "\<And>b. b \<noteq> i \<Longrightarrow> b \<noteq> j \<Longrightarrow> b \<notin> set (array_blocks G) \<Longrightarrow> L' b = L b"
    and "L' i \<noteq> None" and "L' j \<noteq> None"
  shows "owner_ok L' P \<lparr>block_array = Some j, blocks = blocks G @ [i]\<rparr>" (is "owner_ok _ _ ?G")
proof -
  have new: "array_blocks ?G = [j]" by (simp add: array_blocks_def)
  have "L' b \<noteq> None" if "b \<in> set (blocks P) \<union> set (blocks G) \<union> set (array_blocks P)" for b
  proof -
    have "L' b = L b"
      using that assms(1-3) by (intro assms(5)) (auto simp: owner_ok_def owned_def)
    with that assms(1) show ?thesis by (auto simp: owner_ok_def owned_def)
  qed
  with assms(6,7) have "\<forall>b\<in>set (owned P ?G). L' b \<noteq> None" by (auto simp: owned_def new)
  moreover have "distinct (owned P ?G)"
    using assms(1-4) by (auto simp: owner_ok_def owned_def new)
  ultimately show ?thesis by (simp add: owner_ok_def)
qed

lemma pool_ok_ext: "pool_ok L p \<Longrightarrow> (\<And>b. L b \<noteq> None \<Longrightarrow> L' b = L b) \<Longrightarrow> pool_ok L' p"
  unfolding pool_ok_def by (auto intro: owner_ok_ext)

lemma handed_ok_ext: "handed_ok L p H \<Longrightarrow> (\<And>b. L b \<noteq> None \<Longrightarrow> L' b = L b) \<Longrightarrow> handed_ok L' p H"
  unfolding handed_ok_def by (metis option.distinct(1) pool_ok_ext)

lemma fresh_block:
  assumes "handed_ok L p H" and "L i = None"
  shows "i \<notin> set (owned (pages p) (large_blocks p))" "alloc_block p \<noteq> Some i" "(i, k) \<notin> H"
    "i \<notin> reserved p"
proof -
  show a: "i \<notin> set (owned (pages p) (large_blocks p))"
    using assms unfolding handed_ok_def pool_ok_def owner_ok_def by blast
  show "alloc_block p \<noteq> Some i" "(i, k) \<notin> H"
    using assms unfolding handed_ok_def pool_ok_def by fastforce+
  show "i \<notin> reserved p"
    using a by (auto simp: reserved_def unused_pages_def owned_def dest: in_set_dropD)
qed

lemma handed_add:
  assumes "handed_ok L p H" and "pool_ok L' p'" 
    and "\<And>b i. (b, i) \<in> H \<Longrightarrow> b \<notin> reserved p' \<and> L' b = L b \<and> (alloc_block p' = Some b \<longrightarrow> i < alloc_used p')"
    and "fst a \<notin> reserved p'" and "L' (fst a) = Some m" and "snd a + n \<le> m"
    and "alloc_block p' = Some (fst a) \<Longrightarrow> snd a + n \<le> alloc_used p'"
  shows "handed_ok L' p' (H \<union> region a n)"
  using assms unfolding handed_ok_def by (auto simp: region_def)

lemma record_large_ok:
  assumes H: "handed_ok L p H" and i: "L i = None" and j: "L j = None" and ij: "i \<noteq> j"
    and L': "\<And>b. b \<noteq> i \<Longrightarrow> b \<noteq> j \<Longrightarrow> b \<notin> set (array_blocks (large_blocks p)) \<Longrightarrow> L' b = L b"
      "L' i = Some n" "L' j = Some m"
  shows "handed_ok L' (p\<lparr>large_blocks := \<lparr>block_array = Some j, blocks = blocks (large_blocks p) @ [i]\<rparr>\<rparr>)
    (H \<union> region (i, 0) n)" (is "handed_ok L' ?p _")
proof (rule handed_add [OF H])
  note fi = fresh_block [OF H i] and fj = fresh_block [OF H j]
  have P: "pool_ok L p" using H by (simp add: handed_ok_def)
  have res: "reserved ?p \<subseteq> insert j (reserved p)"
    by (auto simp: reserved_def unused_pages_def array_blocks_def)
  have keep: "L' b = L b" if "b \<noteq> i" "b \<noteq> j" "b \<notin> reserved p" for b
    using that by (intro L') (auto simp: reserved_def)
  have pg: "L' b = L b" if b: "b \<in> set (blocks (pages p))" for b
  proof (rule L'(1))
    show "b \<noteq> i" "b \<noteq> j" using b fi(1) fj(1) by (auto simp: owned_def)
    show "b \<notin> set (array_blocks (large_blocks p))"
      using P b unfolding pool_ok_def owner_ok_def owned_def by auto
  qed
  show "pool_ok L' ?p"
    unfolding pool_ok_def
  proof (intro conjI allI impI ballI)
    show "owner_ok L' (pages ?p) (large_blocks ?p)"
      using P fi(1) fj(1) ij L' unfolding pool_ok_def by (auto intro!: owner_ok_add)
    fix b assume b: "alloc_block ?p = Some b"
    then have "b \<noteq> i" "b \<noteq> j" "b \<notin> reserved p" "L b = Some (pagesize p)" "b \<notin> set (blocks (large_blocks p))"
      using fi(2) fj(2) P unfolding pool_ok_def by auto
    then show "L' b = Some (pagesize ?p)" "b \<notin> reserved ?p" "b \<notin> set (blocks (large_blocks ?p))"
      using keep res by auto
  qed (use P pg in \<open>auto simp: pool_ok_def\<close>)
  show "b \<notin> reserved ?p \<and> L' b = L b \<and> (alloc_block ?p = Some b \<longrightarrow> k < alloc_used ?p)"
    if b: "(b, k) \<in> H" for b k
  proof -
    have "b \<noteq> i" "b \<noteq> j" using b fi(3) fj(3) by blast+
    then show ?thesis using H b keep res unfolding handed_ok_def by fastforce
  qed
qed (use fresh_block [OF H i] ij L' in \<open>auto simp: reserved_def array_blocks_def unused_pages_def\<close>)

lemma record_page_ok:
  assumes H: "handed_ok L p H" and i: "L i = None" and j: "L j = None" and ij: "i \<noteq> j"
    and L': "\<And>b. b \<noteq> i \<Longrightarrow> b \<noteq> j \<Longrightarrow> b \<notin> set (array_blocks (pages p)) \<Longrightarrow> L' b = L b"
      "L' i = Some (pagesize p)" "L' j = Some m"
    and n: "n \<le> pagesize p" "8 dvd n"
  shows "handed_ok L' (p\<lparr>alloc_block := Some i,
     pages := \<lparr>block_array = Some j, blocks = blocks (pages p) @ [i]\<rparr>,
     next_page := num_blocks (pages p) + 1, alloc_used := n\<rparr>)
    (H \<union> region (i, 0) n)" (is "handed_ok L' ?p _")
proof (rule handed_add [OF H])
  note fi = fresh_block [OF H i] and fj = fresh_block [OF H j]
  have P: "pool_ok L p" using H by (simp add: handed_ok_def)
  have res: "reserved ?p \<subseteq> insert j (reserved p)"
    by (auto simp: reserved_def unused_pages_def array_blocks_def num_blocks_def)
  have keep: "L' b = L b" if "b \<noteq> i" "b \<noteq> j" "b \<notin> reserved p" for b
    using that by (intro L') (auto simp: reserved_def)
  have pg: "L' b = L b" if b: "b \<in> set (blocks (pages p))" for b
  proof (rule L'(1))
    show "b \<noteq> i" "b \<noteq> j" using b fi(1) fj(1) by (auto simp: owned_def)
    show "b \<notin> set (array_blocks (pages p))"
      using P b unfolding pool_ok_def owner_ok_def owned_def by auto
  qed
  show inew: "fst (i, 0) \<notin> reserved ?p" using fi(4) ij res by auto
  show "pool_ok L' ?p"
    unfolding pool_ok_def
  proof (intro conjI allI impI ballI)
    have "owner_ok L (large_blocks p) (pages p)"
      using P unfolding pool_ok_def by (simp add: owner_ok_sym)
    moreover have "i \<notin> set (owned (large_blocks p) (pages p))" "j \<notin> set (owned (large_blocks p) (pages p))"
      using fi(1) fj(1) by (auto simp: owned_def)
    ultimately have "owner_ok L' (large_blocks p) (pages ?p)"
      using ij L' by (auto intro!: owner_ok_add)
    then show "owner_ok L' (pages ?p) (large_blocks ?p)" by (simp add: owner_ok_sym)
    fix b assume b: "alloc_block ?p = Some b"
    then show "L' b = Some (pagesize ?p)" "b \<notin> reserved ?p" "b \<notin> set (blocks (large_blocks ?p))"
      using L' inew fi(1) by (auto simp: owned_def)
  qed (use P pg n L' in \<open>auto simp: pool_ok_def num_blocks_def\<close>)
  show "b \<notin> reserved ?p \<and> L' b = L b \<and> (alloc_block ?p = Some b \<longrightarrow> k < alloc_used ?p)"
    if b: "(b, k) \<in> H" for b k
  proof -
    have "b \<noteq> i" "b \<noteq> j" using b fi(3) fj(3) by blast+
    moreover have "b \<notin> reserved p" using H b unfolding handed_ok_def by blast
    ultimately show ?thesis using keep res by auto
  qed
qed (use n L' in auto)

lemma new_page_unrecorded_ok:
  assumes H: "handed_ok L p H" and i: "L i = None"
  shows "handed_ok (L(i \<mapsto> pagesize p)) (p\<lparr>alloc_block := Some i\<rparr>) H"
proof -
  note fi = fresh_block [OF H i]
  have ext: "handed_ok (L(i \<mapsto> pagesize p)) p H"
    using H by (rule handed_ok_ext) (use i in auto)
  have "reserved (p\<lparr>alloc_block := Some i\<rparr>) = reserved p"
    by (simp add: reserved_def unused_pages_def)
  with ext fi show ?thesis
    unfolding handed_ok_def pool_ok_def by (auto simp: owned_def)
qed

lemma no_page_ok: "handed_ok L p H \<Longrightarrow> handed_ok L (p\<lparr>alloc_block := None\<rparr>) H"
  by (simp add: handed_ok_def pool_ok_def reserved_def unused_pages_def)

lemma reuse_page_ok:
  assumes H: "handed_ok L p H" and np: "next_page p < num_blocks (pages p)"
    and n: "n \<le> pagesize p" "8 dvd n"
  shows "handed_ok L (p\<lparr>alloc_block := Some (blocks (pages p) ! next_page p),
     next_page := next_page p + 1, alloc_used := n\<rparr>)
    (H \<union> region (blocks (pages p) ! next_page p, 0) n)" (is "handed_ok L ?p _")
    and "region (blocks (pages p) ! next_page p, 0) n \<inter> H = {}"
proof -
  let ?b = "blocks (pages p) ! next_page p"
  have P: "pool_ok L p" using H by (simp add: handed_ok_def)
  have un: "unused_pages p = ?b # unused_pages ?p"
    using np by (simp add: unused_pages_def num_blocks_def Cons_nth_drop_Suc)
  have b: "?b \<in> set (blocks (pages p))" using np by (simp add: num_blocks_def)
  have dist: "distinct (unused_pages p)"
    using P unfolding pool_ok_def owner_ok_def owned_def unused_pages_def by auto
  have nres: "?b \<notin> reserved ?p"
    using dist b P unfolding un pool_ok_def owner_ok_def owned_def reserved_def by auto
  have res: "reserved p = insert ?b (reserved ?p)" by (simp add: reserved_def un)
  show dis: "region (?b, 0) n \<inter> H = {}"
    using H res unfolding handed_ok_def region_def by fastforce
  show "handed_ok L ?p (H \<union> region (?b, 0) n)"
  proof (rule handed_add [OF H])
    show "pool_ok L ?p"
      using P b nres n np unfolding pool_ok_def owner_ok_def owned_def by auto
    show "c \<notin> reserved ?p \<and> L c = L c \<and> (alloc_block ?p = Some c \<longrightarrow> k < alloc_used ?p)"
      if "(c, k) \<in> H" for c k
      using H that res unfolding handed_ok_def by fastforce
    show "L (fst (?b, 0)) = Some (pagesize p)" using P b unfolding pool_ok_def by simp
  qed (use n nres in auto)
qed

lemma bump_ok:
  assumes H: "handed_ok L p H" and b: "alloc_block p = Some b"
    and n: "alloc_used p + n \<le> pagesize p" "8 dvd n"
  shows "handed_ok L (p\<lparr>alloc_used := alloc_used p + n\<rparr>) (H \<union> region (b, alloc_used p) n)"
    (is "handed_ok L ?p _") and "region (b, alloc_used p) n \<inter> H = {}"
proof -
  have P: "pool_ok L p" using H by (simp add: handed_ok_def)
  have res: "reserved ?p = reserved p" by (simp add: reserved_def unused_pages_def)
  show "region (b, alloc_used p) n \<inter> H = {}"
    using H b unfolding handed_ok_def region_def by fastforce
  show "handed_ok L ?p (H \<union> region (b, alloc_used p) n)"
  proof (rule handed_add [OF H])
    show "pool_ok L ?p" using P n res unfolding pool_ok_def by auto
    show "L (fst (b, alloc_used p)) = Some (pagesize p)" using P b unfolding pool_ok_def by simp
    show "fst (b, alloc_used p) \<notin> reserved ?p" using P b unfolding pool_ok_def res by simp
    show "c \<notin> reserved ?p \<and> L c = L c \<and> (alloc_block ?p = Some c \<longrightarrow> k < alloc_used ?p)"
      if "(c, k) \<in> H" for c k
      using H that res unfolding handed_ok_def by fastforce
  qed (use n b in auto)
qed

definition heap_fresh :: "'a heap_scheme \<Rightarrow> bool" where
  "heap_fresh s \<longleftrightarrow> (\<forall>i. live s i \<noteq> None \<longrightarrow> i < next_id s)"

definition handed :: "'a pool_state_scheme \<Rightarrow> address set \<Rightarrow> bool" where
  "handed s H \<longleftrightarrow> heap_fresh s \<and> handed_ok (live s) (the_pool s) H"

definition pool_inv :: "'a pool_state_scheme \<Rightarrow> bool" where
  "pool_inv s \<longleftrightarrow> heap_fresh s \<and> pool_ok (live s) (the_pool s)"

definition foreign :: "'a pool_state_scheme \<Rightarrow> nat \<Rightarrow> bool" where
  "foreign s b \<longleftrightarrow> live s b \<noteq> None \<and> b \<notin> set (owned (pages (the_pool s)) (large_blocks (the_pool s))) \<and>
     alloc_block (the_pool s) \<noteq> Some b"

definition unowned :: "'a pool_state_scheme \<Rightarrow> nat \<Rightarrow> bool" where
  "unowned s b \<longleftrightarrow> live s b \<noteq> None \<and> b \<notin> set (owned (pages (the_pool s)) (large_blocks (the_pool s)))"

definition alloc_step :: "'a pool_state_scheme \<Rightarrow> address set \<Rightarrow> nat \<Rightarrow> address option outcome \<Rightarrow>
    'a pool_state_scheme \<Rightarrow> bool" where
  "alloc_step s H n r s' \<longleftrightarrow>
     grants s' = grants s \<and> next_id s \<le> next_id s' \<and> pagesize (the_pool s') = pagesize (the_pool s) \<and>
     (\<forall>b. foreign s b \<longrightarrow> foreign s' b \<and> live s' b = live s b) \<and>
     ((\<forall>i. grants s i) \<longrightarrow> (\<forall>b. unowned s' b \<longrightarrow> unowned s b)) \<and>
     (case r of
       Ok None \<Rightarrow> handed s' H
     | Ok (Some a) \<Rightarrow> region a n \<inter> H = {} \<and> 8 dvd snd a \<and> handed s' (H \<union> region a n)
     | _ \<Rightarrow> False)"

lemma fresh_next: "heap_fresh s \<Longrightarrow> next_id s \<le> i \<Longrightarrow> live s i = None"
  by (force simp: heap_fresh_def)

lemma handed_fresh: "handed s H \<Longrightarrow> next_id s \<le> i \<Longrightarrow> live s i = None"
  unfolding handed_def by (blast dest: fresh_next)

lemma array_live:
  "handed_ok L p H \<Longrightarrow> a \<in> set (array_blocks (pages p)) \<or> a \<in> set (array_blocks (large_blocks p)) \<Longrightarrow> L a \<noteq> None"
  unfolding handed_ok_def pool_ok_def owner_ok_def owned_def by auto

lemma heap_fresh_Suc [simp]: "heap_fresh s \<Longrightarrow> heap_fresh (s\<lparr>next_id := Suc (next_id s)\<rparr>)"
  by (auto simp: heap_fresh_def intro: less_SucI)

lemma heap_fresh_the_pool [simp]: "heap_fresh (s\<lparr>the_pool := p\<rparr>) = heap_fresh s"
  by (simp add: heap_fresh_def)

lemma heap_fresh_malloc: "heap_fresh s \<Longrightarrow> i = next_id s \<Longrightarrow>
    heap_fresh (s\<lparr>next_id := Suc i, live := (live s)(i \<mapsto> n)\<rparr>)"
  by (auto simp: heap_fresh_def less_Suc_eq)

lemma record_pool_block_cases:
  assumes "record_pool_block x b s = (r, s')" and "\<forall>a\<in>set (array_blocks x). live s a \<noteq> None"
  obtains "r = Ok None" "s' = s\<lparr>next_id := Suc (next_id s)\<rparr>" "\<not> grants s (next_id s)"
  | m L' where "r = Ok (Some \<lparr>block_array = Some (next_id s), blocks = blocks x @ [b]\<rparr>)"
    "s' = s\<lparr>next_id := Suc (next_id s), live := L'\<rparr>" "L' (next_id s) = Some m"
    "\<And>c. c \<noteq> next_id s \<Longrightarrow> c \<notin> set (array_blocks x) \<Longrightarrow> L' c = live s c"
    "heap_fresh s \<Longrightarrow> heap_fresh s'"
    "\<And>c. c \<in> set (array_blocks x) \<Longrightarrow> c \<noteq> next_id s \<Longrightarrow> L' c = None"
proof (cases "grants s (next_id s)")
  case False
  with assms that(1) show ?thesis
    by (auto simp: record_pool_block_def run_and_then c_malloc_def c_realloc_def array_blocks_def Let_def
        split: option.splits if_splits)
next
  case True
  let ?L = "(case block_array x of None \<Rightarrow> live s | Some a \<Rightarrow> (live s)(a := None))
      (next_id s \<mapsto> sizeof_pointer * (num_blocks x + 1))"
  have eqs: "r = Ok (Some \<lparr>block_array = Some (next_id s), blocks = blocks x @ [b]\<rparr>)"
    "s' = s\<lparr>next_id := Suc (next_id s), live := ?L\<rparr>"
    using True assms
    by (auto simp: record_pool_block_def run_and_then c_malloc_def c_realloc_def array_blocks_def Let_def
        split: option.splits if_splits)
  show ?thesis
    by (rule that(2) [OF eqs])
      (auto simp: eqs array_blocks_def heap_fresh_def less_Suc_eq split: option.splits if_splits)
qed

lemma pool_alloc_large_step:
  assumes H: "handed s H" and run: "pool_alloc_large n s = (r, s')"
  shows "alloc_step s H n r s'"
proof (cases "grants s (next_id s)")
  case False
  then show ?thesis using run H
    by (auto simp: pool_alloc_large_def run_and_then c_malloc_def Let_def alloc_step_def foreign_def
        handed_def)
next
  case True
  define i where "i = next_id s"
  define s1 where "s1 = s\<lparr>next_id := Suc i, live := (live s)(i \<mapsto> n)\<rparr>"
  let ?p = "the_pool s"
  have i: "live s i = None" "live s (Suc i) = None" using H by (auto simp: i_def handed_fresh)
  have ok: "handed_ok (live s) ?p H" and fresh: "heap_fresh s" using H by (auto simp: handed_def)
  note fi = fresh_block [OF ok i(1)]
  have m: "c_malloc n s = (Ok (Some i), s1)" using True by (simp add: c_malloc_def Let_def i_def s1_def)
  obtain q s2 where rec: "record_pool_block (large_blocks ?p) i s1 = (q, s2)" by fastforce
  have arr: "\<And>a. a \<in> set (array_blocks (large_blocks ?p)) \<Longrightarrow> live s a \<noteq> None \<and> a \<noteq> i"
    using array_live [OF ok] i by blast
  have "\<forall>a\<in>set (array_blocks (large_blocks ?p)). live s1 a \<noteq> None"
    using arr by (simp add: s1_def)
  with rec show ?thesis
  proof (cases rule: record_pool_block_cases)
    case 1
    then have "r = Ok None" "s' = s1\<lparr>next_id := Suc (next_id s1)\<rparr>"
      using run rec by (simp_all add: pool_alloc_large_def run_and_then m s1_def)
    moreover have "handed_ok ((live s)(i \<mapsto> n)) ?p H" using ok by (rule handed_ok_ext) (use i in auto)
    ultimately show ?thesis using fresh i 1(3)
      by (auto simp: alloc_step_def handed_def heap_fresh_def s1_def i_def foreign_def less_SucI)
  next
    case (2 m L')
    have j: "next_id s1 = Suc i" by (simp add: s1_def)
    have s': "r = Ok (Some (i, 0))" "s' = s2\<lparr>the_pool := ?p\<lparr>large_blocks := \<lparr>block_array = Some (Suc i),
        blocks = blocks (large_blocks ?p) @ [i]\<rparr>\<rparr>\<rparr>"
      using run rec 2(1) j by (simp_all add: pool_alloc_large_def run_and_then m s1_def 2(2))
    have L': "L' c = live s c" if "c \<noteq> i" "c \<noteq> Suc i" "c \<notin> set (array_blocks (large_blocks ?p))" for c
      using 2(4) [of c] that j by (simp add: s1_def)
    have L'i: "L' i = Some n" using 2(4) [of i] arr j by (auto simp: s1_def)
    have "handed_ok L' (?p\<lparr>large_blocks := \<lparr>block_array = Some (Suc i), blocks = blocks (large_blocks ?p) @ [i]\<rparr>\<rparr>)
        (H \<union> region (i, 0) n)"
      by (rule record_large_ok [OF ok i]) (use L' L'i 2(3) j in auto)
    moreover have "region (i, 0) n \<inter> H = {}" using fi(3) by (auto simp: region_def)
    moreover have "heap_fresh s'"
      using heap_fresh_malloc [OF fresh i_def] 2(5) unfolding s' s1_def by simp
    moreover have "foreign s' b \<and> live s' b = live s b" if "foreign s b" for b
    proof -
      have "b \<noteq> i" "b \<noteq> Suc i" "b \<notin> set (array_blocks (large_blocks ?p))"
        using that i by (auto simp: foreign_def owned_def)
      then show ?thesis using that L' unfolding s' 2(2) foreign_def owned_def array_blocks_def s1_def by auto
    qed
    moreover have "unowned s b" if u: "unowned s' b" for b
    proof -
      have b: "b \<noteq> i" "b \<noteq> Suc i" "L' b \<noteq> None"
        using u unfolding s' 2(2) by (auto simp: unowned_def owned_def array_blocks_def)
      then have n: "b \<notin> set (array_blocks (large_blocks ?p))"
        using 2(6) [of b] j by auto
      from b n have "L' b = live s b" by (intro L')
      with u b n show ?thesis unfolding s' 2(2) by (auto simp: unowned_def owned_def)
    qed
    ultimately show ?thesis unfolding alloc_step_def handed_def s' 2(2) by (simp add: s1_def i_def)
  qed
qed

lemma pool_alloc_page_step:
  assumes H: "handed s H" and n: "n \<le> pagesize (the_pool s)" "8 dvd n"
    and run: "pool_alloc_page n s = (r, s')"
  shows "alloc_step s H n r s'"
proof -
  let ?p = "the_pool s"
  have ok: "handed_ok (live s) ?p H" and fresh: "heap_fresh s" using H by (auto simp: handed_def)
  consider (reuse) "next_page ?p < num_blocks (pages ?p)"
    | (nomem) "next_page ?p \<ge> num_blocks (pages ?p)" "\<not> grants s (next_id s)"
    | (new) "next_page ?p \<ge> num_blocks (pages ?p)" "grants s (next_id s)" by fastforce
  then show ?thesis
  proof cases
    case reuse
    then have "r = Ok (Some (blocks (pages ?p) ! next_page ?p, 0))"
      "s' = s\<lparr>the_pool := ?p\<lparr>alloc_block := Some (blocks (pages ?p) ! next_page ?p),
         next_page := next_page ?p + 1, alloc_used := n\<rparr>\<rparr>"
      using run by (simp_all add: pool_alloc_page_def run_and_then Let_def)
    moreover have "blocks (pages ?p) ! next_page ?p \<in> set (owned (pages ?p) (large_blocks ?p))"
      using reuse by (simp add: owned_def num_blocks_def)
    ultimately show ?thesis
      using reuse_page_ok [OF ok reuse n] fresh
      by (auto simp: alloc_step_def handed_def heap_fresh_def foreign_def unowned_def)
  next
    case nomem
    then have "r = Ok None" "s' = s\<lparr>next_id := Suc (next_id s), the_pool := ?p\<lparr>alloc_block := None\<rparr>\<rparr>"
      using run by (auto simp: pool_alloc_page_def run_and_then c_malloc_def Let_def)
    then show ?thesis
      using no_page_ok [OF ok] heap_fresh_Suc [OF fresh]
      by (auto simp: alloc_step_def handed_def foreign_def heap_fresh_def unowned_def)
  next
    case new
    define i where "i = next_id s"
    define s1 where "s1 = s\<lparr>next_id := Suc i, live := (live s)(i \<mapsto> pagesize ?p), the_pool := ?p\<lparr>alloc_block := Some i\<rparr>\<rparr>"
    have i: "live s i = None" "live s (Suc i) = None" using H by (auto simp: i_def handed_fresh)
    note fi = fresh_block [OF ok i(1)]
    obtain q s2 where rec: "record_pool_block (pages ?p) i s1 = (q, s2)" by fastforce
    have run': "pool_alloc_page n s = (case (q, s2) of
        (Ok (Some x), t) \<Rightarrow> (Ok (Some (i, 0)), t\<lparr>the_pool := ?p\<lparr>alloc_block := Some i, pages := x,
            next_page := num_blocks x, alloc_used := n\<rparr>\<rparr>)
      | (Ok None, t) \<Rightarrow> (Ok None, t) | (e, t) \<Rightarrow> (pass_error e, t))"
      using new rec by (simp add: pool_alloc_page_def run_and_then c_malloc_def Let_def i_def s1_def
          split: outcome.splits option.splits)
    have arr: "\<And>a. a \<in> set (array_blocks (pages ?p)) \<Longrightarrow> live s a \<noteq> None \<and> a \<noteq> i"
      using array_live [OF ok] i by blast
    have "\<forall>a\<in>set (array_blocks (pages ?p)). live s1 a \<noteq> None"
      using arr by (simp add: s1_def)
    with rec show ?thesis
    proof (cases rule: record_pool_block_cases)
      case 1
      then have "r = Ok None" "s' = s1\<lparr>next_id := Suc (next_id s1)\<rparr>"
        using run run' by simp_all
      moreover have "handed_ok ((live s)(i \<mapsto> pagesize ?p)) (?p\<lparr>alloc_block := Some i\<rparr>) H"
        using ok i(1) by (rule new_page_unrecorded_ok)
      moreover have "heap_fresh (s1\<lparr>next_id := Suc (next_id s1)\<rparr>)"
        using fresh by (auto simp: heap_fresh_def s1_def i_def less_SucI)
      ultimately show ?thesis using i
        using 1(3) by (auto simp: alloc_step_def handed_def s1_def i_def foreign_def)
    next
      case (2 m L')
      let ?p' = "?p\<lparr>alloc_block := Some i, pages := \<lparr>block_array = Some (Suc i), blocks = blocks (pages ?p) @ [i]\<rparr>,
         next_page := num_blocks (pages ?p) + 1, alloc_used := n\<rparr>"
      have j: "next_id s1 = Suc i" by (simp add: s1_def)
      have s': "r = Ok (Some (i, 0))" "s' = s2\<lparr>the_pool := ?p'\<rparr>"
        using run run' 2(1) j by (simp_all add: num_blocks_def)
      have L': "L' c = live s c" if "c \<noteq> i" "c \<noteq> Suc i" "c \<notin> set (array_blocks (pages ?p))" for c
        using 2(4) [of c] that j by (simp add: s1_def)
      have L'i: "L' i = Some (pagesize ?p)" using 2(4) [of i] arr j by (auto simp: s1_def)
      have "handed_ok L' ?p' (H \<union> region (i, 0) n)"
        by (rule record_page_ok [OF ok i]) (use L' L'i 2(3) j n in auto)
      moreover have "region (i, 0) n \<inter> H = {}" using fi(3) by (auto simp: region_def)
      moreover have "heap_fresh s'"
        using heap_fresh_malloc [OF fresh i_def] 2(5) unfolding s' s1_def by simp
      moreover have "foreign s' b \<and> live s' b = live s b" if "foreign s b" for b
      proof -
        have "b \<noteq> i" "b \<noteq> Suc i" "b \<notin> set (array_blocks (pages ?p))"
          using that i by (auto simp: foreign_def owned_def)
        then show ?thesis using that L' unfolding s' 2(2) foreign_def owned_def array_blocks_def s1_def by auto
      qed
      moreover have "unowned s b" if u: "unowned s' b" for b
      proof -
        have b: "b \<noteq> i" "b \<noteq> Suc i" "L' b \<noteq> None"
          using u unfolding s' 2(2) by (auto simp: unowned_def owned_def array_blocks_def)
        then have n: "b \<notin> set (array_blocks (pages ?p))"
          using 2(6) [of b] j by auto
        from b n have "L' b = live s b" by (intro L')
        with u b n show ?thesis unfolding s' 2(2) by (auto simp: unowned_def owned_def)
      qed
      ultimately show ?thesis unfolding alloc_step_def handed_def s' 2(2) by (simp add: s1_def i_def)
    qed
  qed
qed

lemma amqp_pool_alloc_step:
  assumes H: "handed s H" and run: "amqp_pool_alloc n s = (r, s')"
  shows "alloc_step s H (round_up n) r s' \<and> (n = 0 \<longrightarrow> r = Ok None)"
proof (cases "n = 0")
  case True
  then have "r = Ok None" "s' = s" using run by (auto simp: amqp_pool_alloc_def)
  with True H show ?thesis by (simp add: alloc_step_def)
next
  case False
  let ?p = "the_pool s" and ?n = "round_up n"
  have ok: "handed_ok (live s) ?p H" and fresh: "heap_fresh s" using H by (auto simp: handed_def)
  then have used: "alloc_used ?p \<le> pagesize ?p" by (simp add: handed_ok_def pool_ok_def)
  consider (large) "?n > pagesize ?p"
    | (bump) b where "?n \<le> pagesize ?p" "alloc_block ?p = Some b" "alloc_used ?p + ?n \<le> pagesize ?p"
    | (page) "?n \<le> pagesize ?p" "amqp_pool_alloc n s = pool_alloc_page ?n s"
    using False used
    by (cases "alloc_block ?p") (force simp: amqp_pool_alloc_def run_and_then Let_def)+
  then show ?thesis
  proof cases
    case large
    then have "pool_alloc_large ?n s = (r, s')"
      using run False by (simp add: amqp_pool_alloc_def run_and_then Let_def)
    with H False show ?thesis by (simp add: pool_alloc_large_step)
  next
    case (bump b)
    then have "r = Ok (Some (b, alloc_used ?p))" "s' = s\<lparr>the_pool := ?p\<lparr>alloc_used := alloc_used ?p + ?n\<rparr>\<rparr>"
      using run False used by (auto simp add: amqp_pool_alloc_def run_and_then Let_def)
    moreover have "8 dvd alloc_used ?p" using ok by (simp add: handed_ok_def pool_ok_def)
    ultimately show ?thesis
      using bump_ok [OF ok bump(2) bump(3) round_up_dvd] fresh False
      by (auto simp: alloc_step_def handed_def foreign_def heap_fresh_def unowned_def)
  next
    case page
    with H run False show ?thesis by (simp add: pool_alloc_page_step round_up_dvd)
  qed
qed

lemma pool_inv_handed: "pool_inv s \<longleftrightarrow> handed s {}"
  by (simp add: pool_inv_def handed_def handed_ok_def)

lemma handed_inv: "handed s H \<Longrightarrow> pool_inv s"
  by (simp add: pool_inv_def handed_def handed_ok_def)

section \<open>An allocator of disjoint regions\<close>

primrec alloc_all :: "(nat \<Rightarrow> ('s, address option) cm) \<Rightarrow> nat list \<Rightarrow> ('s, (address option \<times> nat) list) cm" where
  "alloc_all alloc [] = ret []"
| "alloc_all alloc (n # ns) = and_then (alloc n) (\<lambda>a. and_then (alloc_all alloc ns) (\<lambda>as. ret ((a, n) # as)))"

fun disjoint_regions :: "(address option \<times> nat) list \<Rightarrow> bool" where
  "disjoint_regions [] = True"
| "disjoint_regions ((None, n) # as) = disjoint_regions as"
| "disjoint_regions ((Some a, n) # as) =
     (disjoint_regions as \<and> (\<forall>(q, m)\<in>set as. case q of None \<Rightarrow> True | Some b \<Rightarrow> region a n \<inter> region b m = {}))"

locale region_allocator =
  fixes inv :: "'s \<Rightarrow> address set \<Rightarrow> bool"
    and alloc :: "nat \<Rightarrow> ('s, address option) cm"
    and fits :: "nat \<Rightarrow> bool"
  assumes alloc_returns: "inv s H \<Longrightarrow> fits n \<Longrightarrow> \<exists>a. fst (alloc n s) = Ok a"
    and alloc_None: "inv s H \<Longrightarrow> fits n \<Longrightarrow> alloc n s = (Ok None, s') \<Longrightarrow> inv s' H"
    and alloc_Some: "inv s H \<Longrightarrow> fits n \<Longrightarrow> alloc n s = (Ok (Some a), s') \<Longrightarrow>
      region a n \<inter> H = {} \<and> inv s' (H \<union> region a n)"
begin

lemma alloc_all_spec:
  assumes "inv s H" and "list_all fits ns"
  shows "\<exists>as s' H'. alloc_all alloc ns s = (Ok as, s') \<and> map snd as = ns \<and> disjoint_regions as \<and>
    (\<forall>a n. (Some a, n) \<in> set as \<longrightarrow> region a n \<inter> H = {} \<and> region a n \<subseteq> H') \<and> H \<subseteq> H' \<and> inv s' H'"
  using assms
proof (induction ns arbitrary: s H)
  case Nil
  then show ?case by auto
next
  case (Cons n ns)
  then obtain q s1 where a: "alloc n s = (Ok q, s1)"
    using alloc_returns [of s H n] by (cases "alloc n s") auto
  define H1 where "H1 = (case q of None \<Rightarrow> H | Some a \<Rightarrow> H \<union> region a n)"
  have "inv s1 H1" and dis: "\<And>a. q = Some a \<Longrightarrow> region a n \<inter> H = {}"
    using alloc_None [of s H n] alloc_Some [of s H n] Cons.prems a
    by (auto simp: H1_def split: option.splits)
  then have "\<exists>as s' H'. alloc_all alloc ns s1 = (Ok as, s') \<and> map snd as = ns \<and> disjoint_regions as \<and>
      (\<forall>a n. (Some a, n) \<in> set as \<longrightarrow> region a n \<inter> H1 = {} \<and> region a n \<subseteq> H') \<and> H1 \<subseteq> H' \<and> inv s' H'"
    using Cons.IH [of s1 H1] Cons.prems(2) by simp
  then obtain as s' H' where as: "alloc_all alloc ns s1 = (Ok as, s')" "map snd as = ns"
    "disjoint_regions as" "\<forall>a n. (Some a, n) \<in> set as \<longrightarrow> region a n \<inter> H1 = {} \<and> region a n \<subseteq> H'"
    "H1 \<subseteq> H'" "inv s' H'" by blast
  have HH1: "H \<subseteq> H1" by (auto simp: H1_def split: option.splits)
  have new: "region a n \<subseteq> H1" if "q = Some a" for a using that by (simp add: H1_def)
  have "disjoint_regions ((q, n) # as)"
  proof (cases q)
    case (Some a)
    have "region a n \<inter> region b m = {}" if "(Some b, m) \<in> set as" for b m
      using that as(4) new [OF Some] by blast
    then show ?thesis using as(3) Some by (auto split: option.split)
  qed (use as(3) in simp)
  moreover have "region b m \<inter> H = {} \<and> region b m \<subseteq> H'" if "(Some b, m) \<in> set ((q, n) # as)" for b m
  proof (cases "(Some b, m) \<in> set as")
    case True
    then show ?thesis using as(4) HH1 by blast
  next
    case False
    then have "q = Some b" "m = n" using that by auto
    then show ?thesis using dis new as(5) by auto
  qed
  ultimately show ?case
    using a as HH1 by (intro exI [of _ "(q, n) # as"] exI [of _ s'] exI [of _ H']) (auto simp: run_and_then)
qed

end

lemma alloc_stepD:
  assumes "handed s H" and "amqp_pool_alloc n s = (r, s')"
  shows "alloc_step s H (round_up n) r s'"
  using amqp_pool_alloc_step [OF assms] by blast

definition pool_request :: "nat \<Rightarrow> bool" where
  "pool_request n \<longleftrightarrow> n < 2 ^ 64 - 7"

lemma region_mono: "m \<le> n \<Longrightarrow> region a m \<subseteq> region a n"
  by (auto simp: region_def)

lemma handed_mono: "handed s H \<Longrightarrow> G \<subseteq> H \<Longrightarrow> handed s G"
  unfolding handed_def handed_ok_def by blast

interpretation pool_regions: region_allocator handed amqp_pool_alloc pool_request
proof
  fix s :: "'a pool_state_scheme" and H n s' a
  assume H: "handed s H" and n: "pool_request n"
  obtain r t where run: "amqp_pool_alloc n s = (r, t)" by fastforce
  note step = alloc_stepD [OF H run]
  from step run show "\<exists>a. fst (amqp_pool_alloc n s) = Ok a"
    by (auto simp: alloc_step_def split: outcome.splits)
  show "handed s' H" if "amqp_pool_alloc n s = (Ok None, s')"
    using step run that by (auto simp add: alloc_step_def)
  show "region a n \<inter> H = {} \<and> handed s' (H \<union> region a n)" if "amqp_pool_alloc n s = (Ok (Some a), s')"
  proof -
    have "region a n \<subseteq> region a (round_up n)"
      using n by (intro region_mono round_up_ge) (simp add: pool_request_def)
    moreover have "region a (round_up n) \<inter> H = {}" "handed s' (H \<union> region a (round_up n))"
      using step run that by (auto simp: alloc_step_def)
    ultimately show ?thesis by (meson Un_mono disjoint_iff handed_mono subset_iff subset_refl)
  qed
qed


section \<open>Freeing\<close>

definition release :: "nat set \<Rightarrow> 'a heap_scheme \<Rightarrow> 'a heap_scheme" where
  "release B s = s\<lparr>live := live s |` (- B)\<rparr>"

lemma live_release [simp]: "live (release B s) b = (if b \<in> B then None else live s b)"
  by (simp add: release_def restrict_map_def)

lemma restrict_UNIV [simp]: "m |` UNIV = m"
  by (simp add: restrict_map_def)

lemma release_simps [simp]:
  "next_id (release B s) = next_id s" "grants (release B s) = grants s"
  "release {} s = s" "release A (release B s) = release (A \<union> B) s"
  by (simp_all add: release_def Int_commute)

lemma release_pool [simp]:
  "the_pool (release B s) = the_pool s" "release B (s\<lparr>the_pool := p\<rparr>) = (release B s)\<lparr>the_pool := p\<rparr>"
  by (simp_all add: release_def)

lemma free_blocks_run:
  assumes "distinct bs" and "\<forall>b\<in>set bs. live s b \<noteq> None"
  shows "free_blocks bs s = (Ok (), release (set bs) s)"
  using assms
proof (induction bs arbitrary: s)
  case Nil
  then show ?case by simp
next
  case (Cons b bs)
  have "c_free (Some b) s = (Ok (), release {b} s)"
    using Cons.prems by (auto simp: c_free_def release_def restrict_complement_singleton_eq)
  moreover have "\<forall>c\<in>set bs. live (release {b} s) c \<noteq> None" using Cons.prems by auto
  with Cons have "free_blocks bs (release {b} s) = (Ok (), release (set bs) (release {b} s))"
    by simp
  ultimately show ?case by (simp add: run_and_then)
qed

lemma empty_blocklist_run:
  assumes "distinct (blocks x @ array_blocks x)" and "\<forall>b\<in>set (blocks x @ array_blocks x). live s b \<noteq> None"
  shows "empty_blocklist x s = (Ok empty_blocklist_value, release (set (blocks x @ array_blocks x)) s)"
proof -
  have "c_free (block_array x) t = free_blocks (array_blocks x) t" for t :: "'a heap_scheme"
    by (simp add: array_blocks_def c_free_def run_and_then split: option.split)
  moreover have "free_blocks (blocks x) s = (Ok (), release (set (blocks x)) s)"
    using assms by (intro free_blocks_run) auto
  moreover have "free_blocks (array_blocks x) (release (set (blocks x)) s) =
      (Ok (), release (set (array_blocks x)) (release (set (blocks x)) s))"
    using assms by (intro free_blocks_run) auto
  ultimately show ?thesis
    by (simp add: empty_blocklist_def run_and_then Un_commute)
qed

definition emptied :: "amqp_pool \<Rightarrow> amqp_pool" where
  "emptied p = p\<lparr>pages := empty_blocklist_value, large_blocks := empty_blocklist_value,
     next_page := 0, alloc_block := None, alloc_used := 0\<rparr>"

lemma pool_inv_owned:
  assumes "pool_inv s"
  shows "distinct (owned (pages (the_pool s)) (large_blocks (the_pool s)))"
    "\<forall>b\<in>set (owned (pages (the_pool s)) (large_blocks (the_pool s))). live s b \<noteq> None"
  using assms unfolding pool_inv_def pool_ok_def owner_ok_def by blast+

lemma recycle_amqp_pool_run:
  assumes "pool_inv s"
  shows "recycle_amqp_pool s = (Ok (), (release (set (blocks (large_blocks (the_pool s)) @
      array_blocks (large_blocks (the_pool s)))) s)\<lparr>the_pool := (the_pool s)\<lparr>
        large_blocks := empty_blocklist_value, next_page := 0, alloc_block := None, alloc_used := 0\<rparr>\<rparr>)"
proof -
  have "empty_blocklist (large_blocks (the_pool s)) s = (Ok empty_blocklist_value,
      release (set (blocks (large_blocks (the_pool s)) @ array_blocks (large_blocks (the_pool s)))) s)"
    by (rule empty_blocklist_run) (use pool_inv_owned [OF assms] in \<open>auto simp: owned_def\<close>)
  then show ?thesis by (simp add: recycle_amqp_pool_def run_and_then)
qed

lemma recycle_amqp_pool_inv:
  assumes "pool_inv s" and "recycle_amqp_pool s = (r, s')"
  shows "r = Ok () \<and> pool_inv s' \<and> unused_pages (the_pool s') = blocks (pages (the_pool s))"
proof -
  have "pool_inv s'"
    using assms recycle_amqp_pool_run [OF assms(1)]
    unfolding pool_inv_def pool_ok_def owner_ok_def heap_fresh_def
    by (auto simp: owned_def empty_blocklist_value_def array_blocks_def split: if_splits)
  with assms recycle_amqp_pool_run [OF assms(1)] show ?thesis
    by (auto simp: unused_pages_def)
qed

lemma empty_amqp_pool_run:
  assumes "pool_inv s"
  shows "empty_amqp_pool s = (Ok (), (release (set (owned (pages (the_pool s)) (large_blocks (the_pool s)))) s)
    \<lparr>the_pool := emptied (the_pool s)\<rparr>)"
proof -
  let ?p = "the_pool s"
  let ?s = "(release (set (blocks (large_blocks ?p) @ array_blocks (large_blocks ?p))) s)\<lparr>the_pool :=
     ?p\<lparr>large_blocks := empty_blocklist_value, next_page := 0, alloc_block := None, alloc_used := 0\<rparr>\<rparr>"
  have "empty_blocklist (pages ?p) ?s = (Ok empty_blocklist_value,
      release (set (blocks (pages ?p) @ array_blocks (pages ?p))) ?s)"
    by (rule empty_blocklist_run) (use pool_inv_owned [OF assms] in \<open>auto simp: owned_def\<close>)
  moreover have "set (blocks (pages ?p) @ array_blocks (pages ?p)) \<union>
      set (blocks (large_blocks ?p) @ array_blocks (large_blocks ?p)) =
      set (owned (pages ?p) (large_blocks ?p))"
    by (auto simp: owned_def)
  ultimately show ?thesis
    by (simp add: empty_amqp_pool_def run_and_then recycle_amqp_pool_run [OF assms] emptied_def)
qed

section \<open>What the functions that allocate from a pool leave alone\<close>

definition mem_step_minus :: "nat set \<Rightarrow> 'a pool_state_scheme \<Rightarrow> 'a pool_state_scheme \<Rightarrow> bool" where
  "mem_step_minus T s s' \<longleftrightarrow> grants s' = grants s \<and> (pool_inv s \<longrightarrow>
     next_id s \<le> next_id s' \<and>
     (\<forall>H. handed s H \<longrightarrow> H \<inter> T \<times> UNIV = {} \<longrightarrow> handed s' H) \<and>
     (\<forall>b. b \<notin> T \<longrightarrow> foreign s b \<longrightarrow> foreign s' b \<and> live s' b = live s b) \<and>
     ((\<forall>i. grants s i) \<longrightarrow> (\<forall>b. unowned s' b \<longrightarrow> unowned s b \<and> b \<notin> T)))"

definition mem_step :: "'a pool_state_scheme \<Rightarrow> 'a pool_state_scheme \<Rightarrow> bool" where
  "mem_step = mem_step_minus {}"

lemma mem_step_minus_inv: "mem_step_minus T s s' \<Longrightarrow> pool_inv s \<Longrightarrow> pool_inv s'"
  unfolding mem_step_minus_def pool_inv_handed by blast

lemma mem_step_inv: "mem_step s s' \<Longrightarrow> pool_inv s \<Longrightarrow> pool_inv s'"
  unfolding mem_step_def by (rule mem_step_minus_inv)

lemma mem_step_refl [simp]: "mem_step s s"
  by (simp add: mem_step_def mem_step_minus_def)

lemma mem_step_then_minus:
  assumes 1: "mem_step s t" and 2: "mem_step_minus T t u"
  shows "mem_step_minus T s u"
proof -
  have "pool_inv t" if "pool_inv s" using 1 that by (rule mem_step_inv)
  with 1 2 show ?thesis unfolding mem_step_def mem_step_minus_def by auto
qed

lemma mem_step_trans: "mem_step s t \<Longrightarrow> mem_step t u \<Longrightarrow> mem_step s u"
  unfolding mem_step_def using mem_step_then_minus mem_step_def by metis

interpretation mem_frame: frame_relation mem_step
  by unfold_locales (auto intro: mem_step_trans)

lemma mem_step_foreign: "mem_step s s' \<Longrightarrow> pool_inv s \<Longrightarrow> foreign s b \<Longrightarrow> foreign s' b"
  unfolding mem_step_def mem_step_minus_def by blast

lemma steps_pool_alloc: "steps mem_step (amqp_pool_alloc n)"
proof (rule stepsI)
  fix s r and s' :: "'a pool_state_scheme"
  assume run: "amqp_pool_alloc n s = (r, s')"
  have gr: "grants s' = grants s"
    using run
    by (auto simp: amqp_pool_alloc_def pool_alloc_large_def pool_alloc_page_def record_pool_block_def run_and_then
        c_malloc_def c_realloc_def Let_def split: if_splits option.splits)
  have "handed s' H" if "handed s H" for H
    using alloc_stepD [OF that run]
    by (auto simp: alloc_step_def split: outcome.splits option.splits intro: handed_mono)
  moreover have "alloc_step s {} (round_up n) r s'" if "pool_inv s"
    using that run by (auto simp: pool_inv_handed intro: alloc_stepD)
  ultimately show "mem_step s s'"
    using gr unfolding mem_step_def mem_step_minus_def by (auto simp: alloc_step_def)
qed

text \<open>A scratch block: allocated, grown, and freed before the function returns.\<close>

lemma foreign_unowned: "foreign s b \<Longrightarrow> unowned s b"
  by (simp add: foreign_def unowned_def)

lemma pool_ok_foreign:
  assumes "handed s H" and "\<And>i. (t, i) \<notin> H" and "foreign s t" and "\<And>b. b \<noteq> t \<Longrightarrow> live s b \<noteq> None \<Longrightarrow> L' b = live s b"
    shows "handed_ok L' (the_pool s) H"
proof -
  let ?p = "the_pool s"
  have ok: "pool_ok (live s) ?p" using assms(1) by (simp add: handed_def handed_ok_def)
  have "L' b = live s b" if "b \<in> set (owned (pages ?p) (large_blocks ?p))" for b
  proof (rule assms(4))
    show "b \<noteq> t" using that assms(3) by (auto simp: foreign_def)
    show "live s b \<noteq> None" using ok that unfolding pool_ok_def owner_ok_def by blast
  qed
  moreover have "L' b = live s b" if "alloc_block ?p = Some b" for b
    using ok that assms(3,4) by (auto simp: pool_ok_def foreign_def)
  ultimately have "pool_ok L' ?p"
    using ok unfolding pool_ok_def owner_ok_def by (auto simp: owned_def)
  moreover have "L' b = live s b" if "(b, i) \<in> H" for b i
  proof -
    have "live s b \<noteq> None" using assms(1) that unfolding handed_def handed_ok_def by fastforce
    moreover have "b \<noteq> t" using that assms(2) by blast
    ultimately show ?thesis by (simp add: assms(4))
  qed
  ultimately show ?thesis using assms(1) unfolding handed_def handed_ok_def by auto
qed

lemma c_malloc_scratch:
  assumes "pool_inv s" and "c_malloc n s = (Ok (Some t), s1)"
  shows "foreign s1 t" "pool_inv s1" "\<not> unowned s t"
    "mem_step_minus {t} s1 s' \<Longrightarrow> mem_step s s'"
proof -
  have t: "t = next_id s" "s1 = s\<lparr>next_id := Suc t, live := (live s)(t \<mapsto> n)\<rparr>"
    using assms(2) by (auto simp: c_malloc_def Let_def split: if_splits)
  have fr: "live s t = None" using assms(1) t by (simp add: pool_inv_handed handed_fresh)
  have ext: "handed s1 H" if "handed s H" for H
  proof -
    have "handed_ok ((live s)(t \<mapsto> n)) (the_pool s) H"
      by (rule handed_ok_ext [of "live s"]) (use that fr in \<open>auto simp: handed_def\<close>)
    then show ?thesis using that t(1) heap_fresh_malloc [of s t n] unfolding t(2) handed_def by simp
  qed
  show inv: "pool_inv s1" using assms(1) ext by (simp add: pool_inv_handed)
  have ok: "handed_ok (live s) (the_pool s) {}" using assms(1) by (simp add: pool_inv_handed handed_def)
  show "foreign s1 t" using fresh_block [OF ok fr] unfolding t(2) foreign_def by simp
  show "\<not> unowned s t" using fr by (simp add: unowned_def)
  assume step: "mem_step_minus {t} s1 s'"
  have H: "H \<inter> {t} \<times> UNIV = {}" if "handed s H" for H
    using that fresh_block(3) [of "live s" "the_pool s" H t] fr by (auto simp: handed_def)
  have fo: "foreign s b \<Longrightarrow> b \<noteq> t \<and> foreign s1 b \<and> live s1 b = live s b" for b
    using fr unfolding t(2) by (auto simp: foreign_def)
  have un: "unowned s1 b \<Longrightarrow> b \<noteq> t \<Longrightarrow> unowned s b" for b
    unfolding t(2) by (auto simp: unowned_def)
  have ne: "next_id s \<le> next_id s1" "grants s1 = grants s" by (simp_all add: t(2) t(1))
  show "mem_step s s'"
    using step inv ext H fo un ne unfolding mem_step_def mem_step_minus_def by auto
qed

lemma c_realloc_scratch:
  assumes "pool_inv s" and "foreign s t" and run: "c_realloc (Some t) n s = (r, s1)"
  shows "r = Ok None \<and> mem_step s s1 \<and> foreign s1 t \<or>
    (\<exists>j. r = Ok (Some j) \<and> pool_inv s1 \<and> foreign s1 j \<and> (\<forall>s'. mem_step_minus {j} s1 s' \<longrightarrow> mem_step_minus {t} s s'))"
proof (cases "grants s (next_id s)")
  case False
  then have "r = Ok None" "s1 = s\<lparr>next_id := Suc (next_id s)\<rparr>"
    using assms(2) run by (auto simp: c_realloc_def foreign_def Let_def)
  then show ?thesis using assms(2)
    by (auto simp: mem_step_def mem_step_minus_def handed_def foreign_def unowned_def)
next
  case True
  define j where "j = next_id s"
  have t: "live s t \<noteq> None" "t \<noteq> j" 
    using assms(1,2) by (auto simp: foreign_def j_def pool_inv_handed handed_fresh)
  have eqs: "r = Ok (Some j)" "s1 = s\<lparr>next_id := Suc j, live := (live s)(t := None, j \<mapsto> n)\<rparr>"
    using True t run by (auto simp: c_realloc_def Let_def j_def)
  have fr: "live s j = None" using assms(1) by (simp add: pool_inv_handed handed_fresh j_def)
  have ext: "handed s1 H" if "handed s H" "H \<inter> {t} \<times> UNIV = {}" for H
  proof -
    have "handed_ok ((live s)(t := None, j \<mapsto> n)) (the_pool s) H"
      by (rule pool_ok_foreign [OF that(1) _ assms(2)]) (use that(2) fr in auto)
    moreover have "heap_fresh s1"
      using that(1) unfolding eqs(2) handed_def heap_fresh_def by (auto simp: j_def less_Suc_eq)
    ultimately show ?thesis unfolding eqs(2) handed_def by simp
  qed
  then have inv: "pool_inv s1" using assms(1) by (simp add: pool_inv_handed)
  have ok: "handed_ok (live s) (the_pool s) {}" using assms(1) by (simp add: pool_inv_handed handed_def)
  have fj: "foreign s1 j" using fresh_block [OF ok fr] unfolding eqs(2) foreign_def by simp
  have H: "H \<inter> {j} \<times> UNIV = {}" if "handed s H" for H
    using that fresh_block(3) [of "live s" "the_pool s" H j] fr by (auto simp: handed_def)
  have fo: "foreign s b \<Longrightarrow> b \<noteq> t \<Longrightarrow> b \<noteq> j \<and> foreign s1 b \<and> live s1 b = live s b" for b
    using fr unfolding eqs(2) by (auto simp: foreign_def)
  have un: "unowned s1 b \<Longrightarrow> b \<noteq> j \<Longrightarrow> unowned s b \<and> b \<noteq> t" for b
    unfolding eqs(2) by (auto simp: unowned_def split: if_splits)
  have ne: "next_id s \<le> next_id s1" "grants s1 = grants s" by (simp_all add: eqs(2) j_def)
  have "mem_step_minus {t} s s'" if step: "mem_step_minus {j} s1 s'" for s'
    using step inv ext H fo un ne unfolding mem_step_minus_def by auto
  with eqs inv fj show ?thesis by blast
qed

lemma c_free_scratch:
  assumes "pool_inv s" and "foreign s t"
  shows "\<exists>s'. c_free (Some t) s = (Ok (), s') \<and> mem_step_minus {t} s s'"
proof -
  let ?s = "s\<lparr>live := (live s)(t := None)\<rparr>"
  have "c_free (Some t) s = (Ok (), ?s)" using assms(2) by (simp add: c_free_def foreign_def)
  moreover have "handed ?s H" if "handed s H" "H \<inter> {t} \<times> UNIV = {}" for H
  proof -
    have "handed_ok ((live s)(t := None)) (the_pool s) H"
      by (rule pool_ok_foreign [OF that(1) _ assms(2)]) (use that(2) in auto)
    then show ?thesis using that(1) by (auto simp: handed_def heap_fresh_def)
  qed
  then have "mem_step_minus {t} s ?s"
    unfolding mem_step_minus_def by (auto simp: foreign_def unowned_def)
  ultimately show ?thesis by blast
qed

section \<open>Allocation as the other components use it\<close>

lemma safe_amqp_pool_alloc: "safe pool_inv mem_step (amqp_pool_alloc n)"
proof (rule safeI)
  fix s :: "'a pool_state_scheme" and r s'
  assume s: "pool_inv s" and run: "amqp_pool_alloc n s = (r, s')"
  from run have m: "mem_step s s'" using stepsD [OF steps_pool_alloc] by blast
  have "alloc_step s {} (round_up n) r s'"
    using s run by (simp add: pool_inv_handed alloc_stepD)
  then have "returns r" by (auto simp: alloc_step_def split: outcome.splits)
  with m mem_step_inv [OF m s] show "returns r \<and> pool_inv s' \<and> mem_step s s'" by blast
qed

lemma pool_alloc_granting:
  assumes s: "pool_inv s" and g: "\<forall>i. grants s i" and n: "0 < n"
  shows "\<exists>a s'. amqp_pool_alloc n s = (Ok (Some a), s') \<and> pool_inv s' \<and> (\<forall>i. grants s' i)"
proof -
  obtain r s' where run: "amqp_pool_alloc n s = (r, s')" by fastforce
  have step: "returns r \<and> pool_inv s' \<and> mem_step s s'"
    using safeD [OF safe_amqp_pool_alloc s run] .
  moreover have "r \<noteq> Ok None"
    using run g n
    by (auto simp: amqp_pool_alloc_def pool_alloc_large_def pool_alloc_page_def record_pool_block_def run_and_then
        c_malloc_def c_realloc_def Let_def split: if_splits option.splits)
  moreover have "r \<noteq> Err e" for e
    using run 
    by (auto simp: amqp_pool_alloc_def pool_alloc_large_def pool_alloc_page_def record_pool_block_def run_and_then
        c_malloc_def c_realloc_def Let_def split: if_splits option.splits)
  moreover have "\<forall>i. grants s' i" using step g by (simp add: mem_step_def mem_step_minus_def)
  ultimately show ?thesis using run by (cases r) auto
qed
lemma pool_inv_init:
  "heap_fresh s \<Longrightarrow> the_pool s = init_amqp_pool n \<Longrightarrow> pool_inv s"
  by (simp add: pool_inv_def pool_ok_def owner_ok_def owned_def init_amqp_pool_def
      empty_blocklist_value_def array_blocks_def num_blocks_def)

text \<open>A heap with nothing allocated and an empty pool, for the examples.\<close>

definition start_state :: "(nat \<Rightarrow> bool) \<Rightarrow> nat \<Rightarrow> pool_state" where
  "start_state g n = \<lparr>next_id = 0, grants = g, live = (\<lambda>_. None), the_pool = init_amqp_pool n\<rparr>"

lemma start_state_inv [simp]: "pool_inv (start_state g n)"
  by (rule pool_inv_init [of _ n]) (simp_all add: start_state_def heap_fresh_def)

section \<open>Properties\<close>



text \<open>
  C5: \<^verbatim>\<open>amqp_pool_alloc\<close> keeps the pool well formed for every request size and every pattern of
  allocation failures, never reaches its assertion, leaves every block of the heap that is not the
  pool's as it was, and leaks nothing as long as the platform grants its requests.
\<close>

theorem pool_alloc_keeps_invariant: "safe pool_inv mem_step (amqp_pool_alloc n)"
  by (rule safe_amqp_pool_alloc)

text \<open>
  When memory is available a non-zero request succeeds, and the block returned is 8-byte
  aligned and lies inside one allocated heap block.
\<close>

theorem pool_alloc_succeeds:
  assumes "pool_inv s" and "\<forall>i. grants s i" and "0 < n" and "pool_request n"
  shows "\<exists>a s' m. amqp_pool_alloc n s = (Ok (Some a), s') \<and> 8 dvd snd a \<and>
    live s' (fst a) = Some m \<and> snd a + n \<le> m"
proof -
  obtain a s' where run: "amqp_pool_alloc n s = (Ok (Some a), s')"
    using pool_alloc_granting [OF assms(1-3)] by blast
  have step: "alloc_step s {} (round_up n) (Ok (Some a)) s'"
    using assms(1) run by (simp add: pool_inv_handed alloc_stepD)
  have le: "0 < round_up n" "n \<le> round_up n"
    using assms(3,4) round_up_ge [of n] by (simp_all add: pool_request_def)
  from step have "handed s' (region a (round_up n))" "8 dvd snd a" by (simp_all add: alloc_step_def)
  moreover have "(fst a, snd a + round_up n - 1) \<in> region a (round_up n)"
    using le by (auto simp: region_def)
  ultimately obtain m where "live s' (fst a) = Some m" "snd a + round_up n - 1 < m"
    unfolding handed_def handed_ok_def by blast
  with run le \<open>8 dvd snd a\<close> show ?thesis by force
qed

theorem pool_alloc_succeeds_witness:
  "\<exists>a s' m. amqp_pool_alloc 100 (start_state (\<lambda>_. True) 0) = (Ok (Some a), s') \<and> 8 dvd snd a \<and>
    live s' (fst a) = Some m \<and> snd a + 100 \<le> m"
  by (rule pool_alloc_succeeds) (simp_all add: pool_request_def start_state_def [of "\<lambda>_. True" 0],
      simp add: start_state_def [symmetric])

text \<open>
  C6: \<^verbatim>\<open>empty_amqp_pool\<close> frees every block the pool owns (pages, large blocks and the two arrays that
  list them), exactly once, frees nothing else, and leaves the pool empty.
\<close>

theorem empty_amqp_pool_frees_owned:
  assumes "pool_inv s"
  shows "\<exists>s'. empty_amqp_pool s = (Ok (), s') \<and> pool_inv s' \<and>
    pages (the_pool s') = empty_blocklist_value \<and> large_blocks (the_pool s') = empty_blocklist_value \<and>
    (\<forall>b. live s' b = (if b \<in> set (owned (pages (the_pool s)) (large_blocks (the_pool s)))
       then None else live s b))"
proof -
  let ?s = "(release (set (owned (pages (the_pool s)) (large_blocks (the_pool s)))) s)
    \<lparr>the_pool := emptied (the_pool s)\<rparr>"
  have "pool_inv ?s"
    using assms unfolding pool_inv_def pool_ok_def owner_ok_def heap_fresh_def
    by (auto simp: emptied_def owned_def empty_blocklist_value_def array_blocks_def num_blocks_def
        simp del: release_pool split: if_splits)
  then show ?thesis
    using empty_amqp_pool_run [OF assms] by (auto simp: emptied_def)
qed

theorem empty_amqp_pool_frees_owned_witness:
  "\<exists>s'. empty_amqp_pool (start_state (\<lambda>_. True) 0) = (Ok (), s') \<and> pool_inv s' \<and>
    pages (the_pool s') = empty_blocklist_value \<and> large_blocks (the_pool s') = empty_blocklist_value \<and>
    (\<forall>b. live s' b = (if b \<in> set (owned (pages (the_pool (start_state (\<lambda>_. True) 0)))
         (large_blocks (the_pool (start_state (\<lambda>_. True) 0)))) then None else live (start_state (\<lambda>_. True) 0) b))"
  by (rule empty_amqp_pool_frees_owned) simp

text \<open>
  When the list of large blocks cannot grow, the block just allocated is lost: the call reports
  failure, yet the block stays allocated and neither the pool nor the caller refers to it.
\<close>

theorem large_block_leak:
  assumes "pool_inv s" and "pagesize (the_pool s) < round_up n" and "n \<noteq> 0"
    and "grants s (next_id s)" and "\<not> grants s (Suc (next_id s))"
  shows "\<exists>s'. amqp_pool_alloc n s = (Ok None, s') \<and> foreign s' (next_id s) \<and> \<not> foreign s (next_id s)"
proof -
  let ?i = "next_id s"
  have fresh: "live s ?i = None" using assms(1) by (simp add: pool_inv_handed handed_fresh)
  note f = fresh_block [of "live s" "the_pool s" "{}" ?i]
  have H: "handed_ok (live s) (the_pool s) {}" using assms(1) by (simp add: pool_inv_handed handed_def)
  have arr: "block_array (large_blocks (the_pool s)) \<noteq> Some ?i"
    using f(1) [OF H fresh] by (auto simp: owned_def array_blocks_def)
  have arr_live: "live s a \<noteq> None" if "block_array (large_blocks (the_pool s)) = Some a" for a
    using array_live [OF H, of a] that by (simp add: array_blocks_def)
  have "amqp_pool_alloc n s =
      (Ok None, s\<lparr>next_id := Suc (Suc ?i), live := (live s)(?i \<mapsto> round_up n)\<rparr>)"
    using assms(2-5) arr arr_live
    by (auto simp: amqp_pool_alloc_def Let_def pool_alloc_large_def record_pool_block_def run_and_then
        c_malloc_def c_realloc_def split: option.split)
  with f [OF H fresh] fresh show ?thesis by (simp add: foreign_def)
qed

definition one_grant :: "nat \<Rightarrow> bool" where
  "one_grant i \<longleftrightarrow> i = 0"

theorem large_block_leak_witness:
  "\<exists>s'. amqp_pool_alloc 5000 (start_state one_grant 0) = (Ok None, s') \<and>
    foreign s' (next_id (start_state one_grant 0)) \<and> \<not> foreign (start_state one_grant 0) (next_id (start_state one_grant 0))"
  by (rule large_block_leak)
    (simp_all add: round_up_eq, simp_all add: start_state_def init_amqp_pool_def one_grant_def)

end
