(* ===== verification/Codec.thy ===== *)
theory Codec
  imports Mem
begin

text \<open>
  The codec primitives of \<^verbatim>\<open>amqp_private.h\<close>: byte order, the \<^verbatim>\<open>amqp_e\<close>/\<^verbatim>\<open>amqp_d\<close> accessors, and
  the bounds-checked \<^verbatim>\<open>amqp_encode_N\<close>, \<^verbatim>\<open>amqp_decode_N\<close>, \<^verbatim>\<open>amqp_encode_bytes\<close> and
  \<^verbatim>\<open>amqp_decode_bytes\<close>; then the two contracts every codec of the library is proved against:
  \<open>emits m bs\<close> (the writer \<open>m\<close> puts exactly \<open>bs\<close> at the offset, or fails without touching anything
  before it) and \<open>parses v m bs x\<close> (the reader \<open>m\<close> turns \<open>bs\<close> into \<open>x\<close>).
\<close>

section \<open>Byte order\<close>

text \<open>The bytes of an integer, most significant first, and back.\<close>

definition of_be :: "bytes \<Rightarrow> 'a::len word" where
  "of_be bs = foldl (\<lambda>acc b. push_bit 8 acc OR ucast b) 0 bs"

definition be8 :: "u8 \<Rightarrow> bytes" where
  "be8 w = [w]"

definition be16 :: "u16 \<Rightarrow> bytes" where
  "be16 w = [ucast (drop_bit 8 w), ucast w]"

definition be32 :: "u32 \<Rightarrow> bytes" where
  "be32 w = [ucast (drop_bit 24 w), ucast (drop_bit 16 w), ucast (drop_bit 8 w), ucast w]"

definition be64 :: "u64 \<Rightarrow> bytes" where
  "be64 w = [ucast (drop_bit 56 w), ucast (drop_bit 48 w), ucast (drop_bit 40 w), ucast (drop_bit 32 w),
     ucast (drop_bit 24 w), ucast (drop_bit 16 w), ucast (drop_bit 8 w), ucast w]"

lemma length_be [simp]:
  "length (be8 a) = 1" "length (be16 b) = 2" "length (be32 c) = 4" "length (be64 d) = 8"
  by (simp_all add: be8_def be16_def be32_def be64_def)

lemma be_step: "push_bit 8 (drop_bit (8 + k) w) OR ucast (ucast (drop_bit k w) :: u8) =
    drop_bit k (w :: 'a::len word)"
proof (rule bit_word_eqI)
  fix n assume "n < LENGTH('a)"
  then show "bit (push_bit 8 (drop_bit (8 + k) w) OR ucast (ucast (drop_bit k w) :: u8)) n =
      bit (drop_bit k w) n"
    by (cases "n < 8") (auto simp: bit_simps not_less)
qed

lemma be_first: "ucast (ucast (drop_bit k w) :: u8) = drop_bit k (w :: 'a::len word)"
  if "LENGTH('a) = 8 + k"
  using that by (intro bit_word_eqI) (auto simp: bit_simps dest: bit_imp_le_length)

lemma of_be8 [simp]: "of_be (be8 w) = w"
  by (simp add: of_be_def be8_def)

lemma of_be16 [simp]: "of_be (be16 w) = w"
  using be_first [of 8 w] be_step [of 0 w] by (simp add: of_be_def be16_def)

lemma of_be32 [simp]: "of_be (be32 w) = w"
  using be_first [of 24 w] be_step [of 16 w] be_step [of 8 w] be_step [of 0 w]
  by (simp add: of_be_def be32_def)

lemma of_be64 [simp]: "of_be (be64 w) = w"
  using be_first [of 56 w] be_step [of 48 w] be_step [of 40 w] be_step [of 32 w]
    be_step [of 24 w] be_step [of 16 w] be_step [of 8 w] be_step [of 0 w]
  by (simp add: of_be_def be64_def)

text \<open>
  The machine stores an integer in its own byte order; the C library's \<^verbatim>\<open>htons\<close> and \<^verbatim>\<open>htonl\<close> swap
  the bytes on a little-endian machine and do nothing on a big-endian one.  \<^verbatim>\<open>htonll\<close> is the
  header's own: it swaps the two halves through a union, whose \<^verbatim>\<open>halves[0]\<close> is the half at the
  lower address.
\<close>

datatype byte_order = AMQP_LITTLE_ENDIAN | AMQP_BIG_ENDIAN

definition native :: "byte_order \<Rightarrow> bytes \<Rightarrow> bytes" where
  "native e bs = (case e of AMQP_BIG_ENDIAN \<Rightarrow> bs | AMQP_LITTLE_ENDIAN \<Rightarrow> rev bs)"

definition htons :: "byte_order \<Rightarrow> u16 \<Rightarrow> u16" where
  "htons e w = of_be (native e (be16 w))"

definition htonl :: "byte_order \<Rightarrow> u32 \<Rightarrow> u32" where
  "htonl e w = of_be (native e (be32 w))"

definition high_half :: "u64 \<Rightarrow> u32" where
  "high_half w = ucast (drop_bit 32 w)"

definition low_half :: "u64 \<Rightarrow> u32" where
  "low_half w = ucast w"

definition whole :: "u32 \<Rightarrow> u32 \<Rightarrow> u64" where
  "whole hi lo = push_bit 32 (ucast hi) OR ucast lo"

definition htonll :: "byte_order \<Rightarrow> u64 \<Rightarrow> u64" where
  "htonll e val = (case e of
     AMQP_LITTLE_ENDIAN \<Rightarrow>
       (let halves0 = low_half val; halves1 = high_half val; t = halves0;
            halves0 = htonl e halves1; halves1 = htonl e t in whole halves1 halves0)
   | AMQP_BIG_ENDIAN \<Rightarrow>
       (let halves0 = htonl e (high_half val); halves1 = htonl e (low_half val) in whole halves0 halves1))"

definition amqp_e8 :: "byte_order \<Rightarrow> u8 \<Rightarrow> bytes" where
  "amqp_e8 e w = be8 w"

definition amqp_e16 :: "byte_order \<Rightarrow> u16 \<Rightarrow> bytes" where
  "amqp_e16 e w = native e (be16 (htons e w))"

definition amqp_e32 :: "byte_order \<Rightarrow> u32 \<Rightarrow> bytes" where
  "amqp_e32 e w = native e (be32 (htonl e w))"

definition amqp_e64 :: "byte_order \<Rightarrow> u64 \<Rightarrow> bytes" where
  "amqp_e64 e w = native e (be64 (htonll e w))"

definition amqp_d8 :: "byte_order \<Rightarrow> bytes \<Rightarrow> u8" where
  "amqp_d8 e bs = of_be bs"

definition amqp_d16 :: "byte_order \<Rightarrow> bytes \<Rightarrow> u16" where
  "amqp_d16 e bs = htons e (of_be (native e bs))"

definition amqp_d32 :: "byte_order \<Rightarrow> bytes \<Rightarrow> u32" where
  "amqp_d32 e bs = htonl e (of_be (native e bs))"

definition amqp_d64 :: "byte_order \<Rightarrow> bytes \<Rightarrow> u64" where
  "amqp_d64 e bs = htonll e (of_be (native e bs))"

lemma bit_u8: "8 \<le> n \<Longrightarrow> \<not> bit (b :: u8) n"
  by (auto dest: bit_imp_le_length)

lemma be16_of_be [simp]: "be16 (of_be [a, b]) = [a, b]"
  by (simp add: of_be_def be16_def) (intro conjI; rule bit_word_eqI; simp add: bit_simps bit_u8)

lemma be32_of_be [simp]: "be32 (of_be [a, b, c, d]) = [a, b, c, d]"
  by (simp add: of_be_def be32_def) (intro conjI; rule bit_word_eqI; simp add: bit_simps bit_u8)

lemma be64_of_be [simp]: "be64 (of_be [a, b, c, d, e, f, g, h]) = [a, b, c, d, e, f, g, h]"
  by (simp add: of_be_def be64_def) (intro conjI; rule bit_word_eqI; simp add: bit_simps bit_u8)

lemma be64_whole: "be64 (whole hi lo) = be32 hi @ be32 lo"
proof -
  have "ucast (drop_bit k (whole hi lo)) = (ucast (drop_bit k lo) :: u8)" if "k + 8 \<le> 32" for k
    unfolding whole_def using that by (intro bit_word_eqI) (auto simp: bit_simps)
  moreover have "ucast (drop_bit (k + 32) (whole hi lo)) = (ucast (drop_bit k hi) :: u8)"
    if "k + 8 \<le> 32" for k
    unfolding whole_def using that
    by (intro bit_word_eqI) (auto simp: bit_simps dest: bit_imp_le_length)
  from this [of 24] this [of 16] this [of 8] this [of 0]
  have "ucast (drop_bit 56 (whole hi lo)) = (ucast (drop_bit 24 hi) :: u8)"
    "ucast (drop_bit 48 (whole hi lo)) = (ucast (drop_bit 16 hi) :: u8)"
    "ucast (drop_bit 40 (whole hi lo)) = (ucast (drop_bit 8 hi) :: u8)"
    "ucast (drop_bit 32 (whole hi lo)) = (ucast hi :: u8)" by simp_all
  moreover have "ucast (drop_bit 0 (whole hi lo)) = (ucast (drop_bit 0 lo) :: u8)"
    using calculation(1) [of 0] by simp
  ultimately show ?thesis by (simp add: be64_def be32_def)
qed

lemma be64_halves: "be64 w = be32 (high_half w) @ be32 (low_half w)"
proof -
  have "ucast (drop_bit k (low_half w)) = (ucast (drop_bit k w) :: u8)" if "k + 8 \<le> 32" for k
    unfolding low_half_def using that by (intro bit_word_eqI) (auto simp: bit_simps)
  moreover have "ucast (low_half w) = (ucast w :: u8)"
    unfolding low_half_def by (intro bit_word_eqI) (auto simp: bit_simps)
  moreover have "ucast (drop_bit k (high_half w)) = (ucast (drop_bit (k + 32) w) :: u8)" if "k + 8 \<le> 32" for k
    unfolding high_half_def using that by (intro bit_word_eqI) (auto simp: bit_simps add.assoc add.left_commute)
  moreover have "ucast (high_half w) = (ucast (drop_bit 32 w) :: u8)"
    unfolding high_half_def by (intro bit_word_eqI) (auto simp: bit_simps)
  ultimately show ?thesis by (simp add: be64_def be32_def)
qed

text \<open>On a machine of either byte order the accessors read and write most significant byte first.\<close>

lemma amqp_e8_be: "amqp_e8 e w = be8 w"
  by (simp add: amqp_e8_def)

lemma amqp_e16_be: "amqp_e16 e w = be16 w"
  by (cases e) (simp_all add: amqp_e16_def htons_def native_def be16_def [of w])

lemma amqp_e32_be: "amqp_e32 e w = be32 w"
  by (cases e) (simp_all add: amqp_e32_def htonl_def native_def be32_def [of w])

lemma be32_htonl: "be32 (htonl AMQP_LITTLE_ENDIAN w) = rev (be32 w)"
  by (simp add: htonl_def native_def be32_def [of w])

lemma be64_htonll: "be64 (htonll AMQP_LITTLE_ENDIAN w) = rev (be64 w)"
  by (simp add: htonll_def Let_def be64_whole be32_htonl be64_halves [of w])

lemma htonll_big: "htonll AMQP_BIG_ENDIAN w = w"
proof -
  have "be64 (htonll AMQP_BIG_ENDIAN w) = be64 w"
    by (simp add: htonll_def Let_def be64_whole be64_halves [of w] htonl_def native_def)
  then show ?thesis by (metis of_be64)
qed

lemma amqp_e64_be: "amqp_e64 e w = be64 w"
  by (cases e) (simp_all add: amqp_e64_def be64_htonll htonll_big, simp_all add: native_def)

lemma amqp_d8_be: "amqp_d8 e (be8 w) = w"
  by (simp add: amqp_d8_def)

lemma amqp_d16_be: "amqp_d16 e (be16 w) = w"
  using of_be16 [of w] by (cases e) (simp_all add: amqp_d16_def htons_def native_def be16_def [of w])

lemma amqp_d32_be: "amqp_d32 e (be32 w) = w"
  using of_be32 [of w] by (cases e) (simp_all add: amqp_d32_def htonl_def native_def be32_def [of w])

lemma amqp_d64_be: "amqp_d64 e (be64 w) = w"
proof (cases e)
  case AMQP_LITTLE_ENDIAN
  have "be64 (of_be (rev (be64 w))) = rev (be64 w)" by (simp add: be64_def [of w])
  then have "be64 (htonll AMQP_LITTLE_ENDIAN (of_be (rev (be64 w)))) = be64 w" by (simp add: be64_htonll)
  then show ?thesis unfolding AMQP_LITTLE_ENDIAN amqp_d64_def by (metis native_def byte_order.case(1) of_be64)
next
  case AMQP_BIG_ENDIAN
  then show ?thesis by (simp add: amqp_d64_def htonll_big native_def)
qed

section \<open>Writing\<close>

text \<open>
  \<open>wr_buf\<close> is the memory behind \<^verbatim>\<open>encoded.bytes\<close>, \<open>wr_len\<close> is \<^verbatim>\<open>encoded.len\<close> and \<open>wr_off\<close> is
  \<^verbatim>\<open>*offset\<close>.  The two lengths are kept apart because the code trusts the second.  The host is
  little-endian (\<^verbatim>\<open>__x86_64__\<close>, \<^verbatim>\<open>__arm__\<close> in the header's list).
\<close>

record wr =
  wr_buf :: bytes
  wr_len :: nat
  wr_off :: nat

definition host :: byte_order where
  "host = AMQP_LITTLE_ENDIAN"

definition put_bytes :: "bytes \<Rightarrow> (wr, unit option) cm" where
  "put_bytes bs = (\<lambda>s. let o' = wr_off s; s' = s\<lparr>wr_off := o' + length bs\<rparr> in
     if o' + length bs \<le> wr_len s then
       (if o' + length bs \<le> length (wr_buf s)
        then (Ok (Some ()), s'\<lparr>wr_buf := splice (wr_buf s) o' bs\<rparr>) else (Undef, s'))
     else (Ok None, s'))"

definition amqp_encode_8 :: "u8 \<Rightarrow> (wr, unit option) cm" where
  "amqp_encode_8 input = put_bytes (amqp_e8 host input)"

definition amqp_encode_16 :: "u16 \<Rightarrow> (wr, unit option) cm" where
  "amqp_encode_16 input = put_bytes (amqp_e16 host input)"

definition amqp_encode_32 :: "u32 \<Rightarrow> (wr, unit option) cm" where
  "amqp_encode_32 input = put_bytes (amqp_e32 host input)"

definition amqp_encode_64 :: "u64 \<Rightarrow> (wr, unit option) cm" where
  "amqp_encode_64 input = put_bytes (amqp_e64 host input)"

definition amqp_encode_bytes :: "bytes \<Rightarrow> (wr, unit option) cm" where
  "amqp_encode_bytes input = put_bytes input"

definition get_offset :: "(wr, nat) cm" where
  "get_offset = (\<lambda>s. (Ok (wr_off s), s))"

definition set_offset :: "nat \<Rightarrow> (wr, unit) cm" where
  "set_offset i = (\<lambda>s. (Ok (), s\<lparr>wr_off := i\<rparr>))"

text \<open>A call that is given the address of a local offset variable instead of \<^verbatim>\<open>offset\<close>.\<close>

definition at_offset :: "nat \<Rightarrow> (wr, 'a) cm \<Rightarrow> (wr, 'a) cm" where
  "at_offset i m = (\<lambda>s. case m (s\<lparr>wr_off := i\<rparr>) of (r, s') \<Rightarrow> (r, s'\<lparr>wr_off := wr_off s\<rparr>))"

section \<open>Reading\<close>

text \<open>
  A view is an \<^verbatim>\<open>amqp_bytes_t\<close>: the length it claims and the memory its pointer can reach.  The
  reader's state is the heap, the pool decoded structures are allocated from, and \<^verbatim>\<open>*offset\<close>.
\<close>

record view =
  view_len :: nat
  view_mem :: bytes

definition bytes_view :: "bytes \<Rightarrow> view" where
  "bytes_view bs = \<lparr>view_len = length bs, view_mem = bs\<rparr>"

record rd = pool_state +
  rd_off :: nat

definition take_bytes :: "view \<Rightarrow> nat \<Rightarrow> (bytes \<Rightarrow> 'a) \<Rightarrow> (rd, 'a option) cm" where
  "take_bytes v n f = (\<lambda>s. let o' = rd_off s; s' = s\<lparr>rd_off := o' + n\<rparr> in
     if o' + n \<le> view_len v then
       (if o' + n \<le> length (view_mem v) then (Ok (Some (f (slice (view_mem v) o' n))), s') else (Undef, s'))
     else (Ok None, s'))"

definition amqp_decode_8 :: "view \<Rightarrow> (rd, u8 option) cm" where
  "amqp_decode_8 v = take_bytes v 1 (amqp_d8 host)"

definition amqp_decode_16 :: "view \<Rightarrow> (rd, u16 option) cm" where
  "amqp_decode_16 v = take_bytes v 2 (amqp_d16 host)"

definition amqp_decode_32 :: "view \<Rightarrow> (rd, u32 option) cm" where
  "amqp_decode_32 v = take_bytes v 4 (amqp_d32 host)"

definition amqp_decode_64 :: "view \<Rightarrow> (rd, u64 option) cm" where
  "amqp_decode_64 v = take_bytes v 8 (amqp_d64 host)"

text \<open>
  The result of \<^verbatim>\<open>amqp_decode_bytes\<close> is a pointer into the frame and a length, here the bytes
  they denote; a pointer beyond the memory it was computed from is undefined.
\<close>

definition amqp_decode_bytes :: "view \<Rightarrow> nat \<Rightarrow> (rd, bytes option) cm" where
  "amqp_decode_bytes v len = take_bytes v len id"

section \<open>The writer's contract\<close>

text \<open>The limit is inside the buffer; \<open>wr_at\<close>: and so is the offset.\<close>

definition wr_ok :: "wr \<Rightarrow> bool" where
  "wr_ok s \<longleftrightarrow> wr_len s \<le> length (wr_buf s)"

definition wr_at :: "wr \<Rightarrow> bool" where
  "wr_at s \<longleftrightarrow> wr_ok s \<and> wr_off s \<le> wr_len s"

text \<open>What every writer leaves alone: the bytes before its offset and those past the limit.\<close>

definition wr_step :: "wr \<Rightarrow> wr \<Rightarrow> bool" where
  "wr_step s s' \<longleftrightarrow> wr_len s' = wr_len s \<and> length (wr_buf s') = length (wr_buf s) \<and> wr_off s \<le> wr_off s' \<and>
     take (wr_off s) (wr_buf s') = take (wr_off s) (wr_buf s) \<and>
     drop (wr_len s) (wr_buf s') = drop (wr_len s) (wr_buf s)"

definition overflow_errors :: "amqp_status_enum set" where
  "overflow_errors = {AMQP_STATUS_BAD_AMQP_DATA, AMQP_STATUS_TABLE_TOO_BIG}"

definition written :: "wr \<Rightarrow> bytes \<Rightarrow> wr" where
  "written s bs = s\<lparr>wr_buf := splice (wr_buf s) (wr_off s) bs, wr_off := wr_off s + length bs\<rparr>"

definition emits :: "(wr, unit) cm \<Rightarrow> bytes \<Rightarrow> bool" where
  "emits m bs \<longleftrightarrow> (\<forall>s. wr_at s \<longrightarrow>
     (if wr_off s + length bs \<le> wr_len s then m s = (Ok (), written s bs)
      else \<exists>e s'. m s = (Err e, s') \<and> e \<in> overflow_errors \<and> wr_step s s'))"

lemma wr_at_ok [simp]: "wr_at s \<Longrightarrow> wr_ok s"
  by (simp add: wr_at_def)

lemma wr_at_off: "wr_at s \<Longrightarrow> wr_off s \<le> wr_len s"
  by (simp add: wr_at_def)

lemma wr_ok_written [simp]: "wr_ok s \<Longrightarrow> wr_off s + length bs \<le> wr_len s \<Longrightarrow> wr_ok (written s bs)"
  by (simp add: wr_ok_def written_def)

lemma wr_at_written [simp]: "wr_at s \<Longrightarrow> wr_off s + length bs \<le> wr_len s \<Longrightarrow> wr_at (written s bs)"
  by (simp add: wr_at_def) (simp add: written_def)

lemma written_simps [simp]:
  "wr_len (written s bs) = wr_len s" "wr_off (written s bs) = wr_off s + length bs"
  by (simp_all add: written_def)

lemma written_Nil [simp]: "written s [] = s"
  by (simp add: written_def)

lemma written_append:
  "wr_ok s \<Longrightarrow> wr_off s + length xs \<le> wr_len s \<Longrightarrow>
   written (written s xs) ys = written s (xs @ ys)"
  by (simp add: written_def wr_ok_def splice_splice_append)

lemma wr_step_refl [simp]: "wr_step s s"
  by (simp add: wr_step_def)

lemma take_prefix_eq: "take n xs = take n ys \<Longrightarrow> m \<le> n \<Longrightarrow> take m xs = take m ys"
  by (metis min.absorb1 take_take)

lemma wr_step_trans: "wr_step s t \<Longrightarrow> wr_step t u \<Longrightarrow> wr_step s u"
  unfolding wr_step_def by (auto dest: take_prefix_eq [where m = "wr_off s"])

interpretation wr_frame: frame_relation wr_step
  by unfold_locales (auto intro: wr_step_trans)

lemma wr_step_ok: "wr_step s s' \<Longrightarrow> wr_ok s \<Longrightarrow> wr_ok s'"
  by (simp add: wr_step_def wr_ok_def)

lemma wr_step_written: "wr_ok s \<Longrightarrow> wr_off s + length bs \<le> wr_len s \<Longrightarrow> wr_step s (written s bs)"
  by (simp add: wr_step_def wr_ok_def written_def)

lemma emitsI:
  assumes "\<And>s. wr_at s \<Longrightarrow> wr_off s + length bs \<le> wr_len s \<Longrightarrow> m s = (Ok (), written s bs)"
    and "\<And>s. wr_at s \<Longrightarrow> wr_len s < wr_off s + length bs \<Longrightarrow>
      \<exists>e s'. m s = (Err e, s') \<and> e \<in> overflow_errors \<and> wr_step s s'"
  shows "emits m bs"
  using assms by (simp add: emits_def not_le)

lemma emits_fits [run]:
  "emits m bs \<Longrightarrow> wr_at s \<Longrightarrow> wr_off s + length bs \<le> wr_len s \<Longrightarrow> m s = (Ok (), written s bs)"
  by (simp add: emits_def)

lemma emits_overflow:
  assumes "emits m bs" and "wr_at s" and "wr_len s < wr_off s + length bs"
  obtains e s' where "m s = (Err e, s')" and "e \<in> overflow_errors" and "wr_step s s'"
  using assms unfolding emits_def by (metis not_le)

lemma emits_ret: "emits (ret ()) []"
  by (rule emitsI) (simp_all add: wr_at_def)

lemma emits_and_then:
  assumes m: "emits m xs" and f: "emits (f ()) ys"
  shows "emits (and_then m f) (xs @ ys)"
proof (rule emitsI)
  fix s assume s: "wr_at s"
  show "and_then m f s = (Ok (), written s (xs @ ys))" if "wr_off s + length (xs @ ys) \<le> wr_len s"
    using that s emits_fits [OF m s] emits_fits [OF f, of "written s xs"]
    by (simp add: and_then_Ok written_append)
  show "\<exists>e s'. and_then m f s = (Err e, s') \<and> e \<in> overflow_errors \<and> wr_step s s'"
    if big: "wr_len s < wr_off s + length (xs @ ys)"
  proof (cases "wr_off s + length xs \<le> wr_len s")
    case True
    with s have "wr_at (written s xs)" by simp
    with f obtain e s' where "f () (written s xs) = (Err e, s')" "e \<in> overflow_errors" "wr_step (written s xs) s'"
      by (rule emits_overflow) (use big in simp)
    with True s show ?thesis
      by (auto simp: emits_fits [OF m s] and_then_Ok intro: wr_step_trans [OF wr_step_written])
  next
    case False
    then have "wr_len s < wr_off s + length xs" by simp
    with m s show ?thesis by (elim emits_overflow) (auto simp: and_then_Err)
  qed
qed

lemma put_bytes_over:
  "wr_len s < wr_off s + length bs \<Longrightarrow> put_bytes bs s = (Ok None, s\<lparr>wr_off := wr_off s + length bs\<rparr>)"
  by (simp add: put_bytes_def Let_def)

lemma put_bytes_fits:
  "wr_ok s \<Longrightarrow> wr_off s + length bs \<le> wr_len s \<Longrightarrow> put_bytes bs s = (Ok (Some ()), written s bs)"
  by (simp add: put_bytes_def Let_def wr_ok_def written_def)

lemma wr_step_bump [simp]: "wr_step s (s\<lparr>wr_off := wr_off s + n\<rparr>)"
  by (simp add: wr_step_def)

lemma emits_put_bytes: "e \<in> overflow_errors \<Longrightarrow> emits (or_return e (put_bytes bs)) bs"
  by (rule emitsI) (auto simp: or_return_Some put_bytes_fits or_return_None put_bytes_over)

lemma emits_primitives:
  assumes "e \<in> overflow_errors"
  shows "emits (or_return e (amqp_encode_8 a)) (be8 a)" "emits (or_return e (amqp_encode_16 b)) (be16 b)"
    "emits (or_return e (amqp_encode_32 c)) (be32 c)" "emits (or_return e (amqp_encode_64 d)) (be64 d)"
    "emits (or_return e (amqp_encode_bytes bs)) bs"
  using assms by (simp_all add: amqp_encode_8_def amqp_encode_16_def amqp_encode_32_def amqp_encode_64_def
      amqp_encode_bytes_def emits_put_bytes amqp_e8_be amqp_e16_be amqp_e32_be amqp_e64_be)


text \<open>For any input at all, a writer stays inside its buffer.\<close>

interpretation writers: safety wr_step wr_ok
  by unfold_locales

lemma safe_put_bytes: "safe wr_ok wr_step (put_bytes bs)"
  by (rule safeI) (auto simp: put_bytes_def Let_def wr_ok_def wr_step_def split: if_splits)

lemma safe_encode_primitives:
  "safe wr_ok wr_step (amqp_encode_8 a)" "safe wr_ok wr_step (amqp_encode_16 b)"
  "safe wr_ok wr_step (amqp_encode_32 c)" "safe wr_ok wr_step (amqp_encode_64 d)"
  "safe wr_ok wr_step (amqp_encode_bytes bs)"
  by (simp_all add: amqp_encode_8_def amqp_encode_16_def amqp_encode_32_def amqp_encode_64_def
      amqp_encode_bytes_def safe_put_bytes)

section \<open>The reader's contract\<close>

definition view_ok :: "view \<Rightarrow> bool" where
  "view_ok v \<longleftrightarrow> view_len v \<le> length (view_mem v)"

definition rd_step :: "rd \<Rightarrow> rd \<Rightarrow> bool" where
  "rd_step s s' \<longleftrightarrow> mem_step s s' \<and> rd_off s \<le> rd_off s'"

lemma rd_step_refl [simp]: "rd_step s s"
  by (simp add: rd_step_def)

lemma rd_step_trans: "rd_step s t \<Longrightarrow> rd_step t u \<Longrightarrow> rd_step s u"
  unfolding rd_step_def by (auto intro: mem_step_trans)

lemma rd_step_inv: "rd_step s s' \<Longrightarrow> pool_inv s \<Longrightarrow> pool_inv s'"
  unfolding rd_step_def by (blast dest: mem_step_inv)

lemma pool_inv_off [simp]: "pool_inv (s\<lparr>rd_off := i\<rparr>) = pool_inv s"
  by (simp add: pool_inv_def heap_fresh_def)

lemma mem_step_off [simp]: "mem_step s (s\<lparr>rd_off := i\<rparr>)"
  by (simp add: mem_step_def mem_step_minus_def handed_def heap_fresh_def foreign_def unowned_def)

text \<open>
  \<open>reads v k n m\<close>: from any state with the pool well formed and at most \<open>k\<close> bytes of the view left,
  whatever those bytes are, \<open>m\<close> returns, allocates only from the pool, and when it succeeds has
  consumed at least \<open>n\<close> bytes and none past the end.
\<close>

definition reads :: "view \<Rightarrow> nat \<Rightarrow> nat \<Rightarrow> (rd, 'a) cm \<Rightarrow> bool" where
  "reads v k n m \<longleftrightarrow> (\<forall>s. pool_inv s \<longrightarrow> rd_off s \<le> view_len v \<longrightarrow> view_len v - rd_off s \<le> k \<longrightarrow>
     returns (fst (m s)) \<and> rd_step s (snd (m s)) \<and>
     (\<forall>a. fst (m s) = Ok a \<longrightarrow> rd_off s + n \<le> rd_off (snd (m s)) \<and> rd_off (snd (m s)) \<le> view_len v))"

lemma readsI:
  assumes "\<And>s r s'. pool_inv s \<Longrightarrow> rd_off s \<le> view_len v \<Longrightarrow> view_len v - rd_off s \<le> k \<Longrightarrow> m s = (r, s') \<Longrightarrow>
    returns r \<and> rd_step s s' \<and> (\<forall>a. r = Ok a \<longrightarrow> rd_off s + n \<le> rd_off s' \<and> rd_off s' \<le> view_len v)"
  shows "reads v k n m"
  unfolding reads_def by (metis assms prod.collapse)

lemma readsD:
  assumes "reads v k n m" and "pool_inv s" and "rd_off s \<le> view_len v" and "view_len v - rd_off s \<le> k"
    and "m s = (r, s')"
  shows "returns r" "rd_step s s'" "pool_inv s'"
    "r = Ok a \<Longrightarrow> rd_off s + n \<le> rd_off s'" "r = Ok a \<Longrightarrow> rd_off s' \<le> view_len v"
proof -
  show "returns r" "rd_step s s'" "r = Ok a \<Longrightarrow> rd_off s + n \<le> rd_off s'"
    "r = Ok a \<Longrightarrow> rd_off s' \<le> view_len v"
    using assms unfolding reads_def by (metis fst_conv snd_conv)+
  then show "pool_inv s'" using assms(2) by (blast intro: rd_step_inv)
qed

lemma reads_ret: "reads v k 0 (ret x)"
  by (rule readsI) auto

lemma reads_raise: "reads v k n (raise e)"
  by (rule readsI) auto

lemma reads_weaken: "reads v k n m \<Longrightarrow> j \<le> k \<Longrightarrow> i \<le> n \<Longrightarrow> reads v j i m"
  unfolding reads_def by (meson add_le_mono le_refl le_trans)

lemma reads_and_then:
  assumes m: "reads v k n m" and f: "\<And>a. n \<le> k \<Longrightarrow> reads v (k - n) j (f a)"
  shows "reads v k (n + j) (and_then m f)"
proof (rule readsI)
  fix s r s''
  assume s: "pool_inv s" "rd_off s \<le> view_len v" "view_len v - rd_off s \<le> k" and run: "and_then m f s = (r, s'')"
  obtain q s' where q: "m s = (q, s')" by fastforce
  note 1 = readsD [OF m s q]
  show "returns r \<and> rd_step s s'' \<and> (\<forall>a. r = Ok a \<longrightarrow> rd_off s + (n + j) \<le> rd_off s'' \<and> rd_off s'' \<le> view_len v)"
  proof (cases q)
    case (Ok a)
    with q run have fa: "f a s' = (r, s'')" by (simp add: and_then_Ok)
    have "n \<le> k" "view_len v - rd_off s' \<le> k - n" using 1(4,5) [OF Ok] s by linarith+
    from readsD [OF f [OF this(1)] 1(3) 1(5) [OF Ok] this(2) fa] 1(2) 1(4) [OF Ok]
    show ?thesis by (auto intro: rd_step_trans)
  next
    case (Err e)
    with q run 1 show ?thesis by (auto simp: and_then_Err)
  qed (use 1 in auto)
qed

lemma reads_and_then_loose:
  assumes "reads v k n m" and "\<And>a. reads v k j (f a)"
  shows "reads v k (n + j) (and_then m f)"
  using assms(1) by (rule reads_and_then) (use assms(2) in \<open>auto intro: reads_weaken [of v k j]\<close>)

lemma reads_take_bytes:
  assumes "view_ok v" shows "reads v k n (or_return e (take_bytes v n f))"
proof (rule readsI)
  fix s r s'
  assume "or_return e (take_bytes v n f) s = (r, s')"
  with assms show "returns r \<and> rd_step s s' \<and> (\<forall>a. r = Ok a \<longrightarrow> rd_off s + n \<le> rd_off s' \<and> rd_off s' \<le> view_len v)"
    by (auto simp: or_return_def run_and_then take_bytes_def Let_def view_ok_def rd_step_def split: if_splits)
qed

lemma reads_primitives:
  assumes "view_ok v"
  shows "reads v k 1 (or_return e (amqp_decode_8 v))" "reads v k 2 (or_return e (amqp_decode_16 v))"
    "reads v k 4 (or_return e (amqp_decode_32 v))" "reads v k 8 (or_return e (amqp_decode_64 v))"
    "reads v k n (or_return e (amqp_decode_bytes v n))"
  using assms by (simp_all add: amqp_decode_8_def amqp_decode_16_def amqp_decode_32_def amqp_decode_64_def
      amqp_decode_bytes_def reads_take_bytes)

definition granting :: "'a heap_scheme \<Rightarrow> bool" where
  "granting s \<longleftrightarrow> (\<forall>i. grants s i)"

text \<open>The bytes at the reader's offset.\<close>

definition holds :: "view \<Rightarrow> nat \<Rightarrow> bytes \<Rightarrow> bool" where
  "holds v i bs \<longleftrightarrow> i + length bs \<le> view_len v \<and> i + length bs \<le> length (view_mem v) \<and>
     slice (view_mem v) i (length bs) = bs"

definition parses :: "view \<Rightarrow> (rd, 'a) cm \<Rightarrow> bytes \<Rightarrow> 'a \<Rightarrow> bool" where
  "parses v m bs x \<longleftrightarrow> (\<forall>s. pool_inv s \<and> granting s \<and> holds v (rd_off s) bs \<longrightarrow>
     (\<exists>s'. m s = (Ok x, s') \<and> rd_off s' = rd_off s + length bs \<and> mem_step s s'))"

lemma holds_append: "holds v i (xs @ ys) \<longleftrightarrow> holds v i xs \<and> holds v (i + length xs) ys"
proof
  assume "holds v i (xs @ ys)"
  then have len: "i + (length xs + length ys) \<le> view_len v" "i + (length xs + length ys) \<le> length (view_mem v)"
    and "slice (view_mem v) i (length xs) @ slice (view_mem v) (i + length xs) (length ys) = xs @ ys"
    by (auto simp: holds_def slice_append_split)
  moreover from len have "length (slice (view_mem v) i (length xs)) = length xs" by simp
  ultimately show "holds v i xs \<and> holds v (i + length xs) ys" unfolding holds_def by auto
next
  assume "holds v i xs \<and> holds v (i + length xs) ys"
  then show "holds v i (xs @ ys)" by (simp add: holds_def slice_append_split)
qed

lemma holds_Nil: "holds v i [] \<longleftrightarrow> i \<le> view_len v \<and> i \<le> length (view_mem v)"
  by (simp add: holds_def slice_def)

lemma mem_step_granting: "mem_step s s' \<Longrightarrow> granting s \<Longrightarrow> granting s'"
  by (simp add: granting_def mem_step_def mem_step_minus_def)

lemma parsesI:
  assumes "\<And>s. pool_inv s \<Longrightarrow> granting s \<Longrightarrow> holds v (rd_off s) bs \<Longrightarrow>
    \<exists>s'. m s = (Ok x, s') \<and> rd_off s' = rd_off s + length bs \<and> mem_step s s'"
  shows "parses v m bs x"
  using assms by (simp add: parses_def)

lemma parsesE:
  assumes "parses v m bs x" and "pool_inv s" and "granting s" and "holds v (rd_off s) bs"
  obtains s' where "m s = (Ok x, s')" "rd_off s' = rd_off s + length bs" "mem_step s s'"
    "pool_inv s'" "granting s'"
  using assms unfolding parses_def by (metis mem_step_granting mem_step_inv)

lemma parses_ret: "parses v (ret x) [] x"
  by (simp add: parses_def)

lemma parses_and_then:
  assumes "parses v m xs a" and "parses v (f a) ys b"
  shows "parses v (and_then m f) (xs @ ys) b"
proof (rule parsesI)
  fix s :: rd assume s: "pool_inv s" "granting s" "holds v (rd_off s) (xs @ ys)"
  then obtain s' where 1: "m s = (Ok a, s')" "rd_off s' = rd_off s + length xs" "mem_step s s'"
    "pool_inv s'" "granting s'"
    using assms(1) by (metis holds_append parsesE)
  with s have "holds v (rd_off s') ys" by (simp add: holds_append)
  with 1 obtain t where 2: "f a s' = (Ok b, t)" "rd_off t = rd_off s' + length ys" "mem_step s' t"
    using assms(2) by (metis parsesE)
  with 1 show "\<exists>s'. and_then m f s = (Ok b, s') \<and> rd_off s' = rd_off s + length (xs @ ys) \<and> mem_step s s'"
    by (auto simp: and_then_Ok intro: mem_step_trans)
qed

lemma parses_take_bytes: "parses v (or_return e (take_bytes v (length bs) f)) bs (f bs)"
proof (rule parsesI)
  fix s :: rd assume "pool_inv s" "granting s" "holds v (rd_off s) bs"
  then show "\<exists>s'. or_return e (take_bytes v (length bs) f) s = (Ok (f bs), s') \<and>
      rd_off s' = rd_off s + length bs \<and> mem_step s s'"
    by (auto simp: holds_def take_bytes_def Let_def or_return_def run_and_then)
qed

lemma parses_primitives:
  "parses v (or_return e (amqp_decode_8 v)) (be8 a) a" "parses v (or_return e (amqp_decode_16 v)) (be16 b) b"
  "parses v (or_return e (amqp_decode_32 v)) (be32 c) c" "parses v (or_return e (amqp_decode_64 v)) (be64 d) d"
  "n = length bs \<Longrightarrow> parses v (or_return e (amqp_decode_bytes v n)) bs bs"
  using parses_take_bytes [of v e "be8 a" "amqp_d8 host"] parses_take_bytes [of v e "be16 b" "amqp_d16 host"]
    parses_take_bytes [of v e "be32 c" "amqp_d32 host"] parses_take_bytes [of v e "be64 d" "amqp_d64 host"]
    parses_take_bytes [of v e bs id]
  by (simp_all add: amqp_decode_8_def amqp_decode_16_def amqp_decode_32_def amqp_decode_64_def
      amqp_decode_bytes_def amqp_d8_be amqp_d16_be amqp_d32_be amqp_d64_be)

section \<open>Codecs\<close>

text \<open>
  A wire codec: a writer and a reader of the same bytes.  Every encoder/decoder pair of the library
  is an instance, from the integers to the methods.
\<close>

locale wire_codec =
  fixes encode :: "'a \<Rightarrow> (wr, unit) cm"
    and decode :: "view \<Rightarrow> (rd, 'a) cm"
    and wire :: "'a \<Rightarrow> bytes"
    and wf :: "'a \<Rightarrow> bool"
  assumes encode_emits: "wf x \<Longrightarrow> emits (encode x) (wire x)"
    and decode_parses: "wf x \<Longrightarrow> parses v (decode v) (wire x) x"
begin

lemma encode_Ok:
  assumes "wf x" and "wr_at s"
  shows "(\<exists>s'. encode x s = (Ok (), s')) \<longleftrightarrow> wr_off s + length (wire x) \<le> wr_len s"
  using encode_emits [OF assms(1)] assms(2)
  by (cases "wr_off s + length (wire x) \<le> wr_len s") (auto simp: emits_fits not_le elim: emits_overflow)

lemma round_trip:
  assumes wf: "wf x" and s: "wr_at s" and fits: "wr_off s + length (wire x) \<le> wr_len s"
    and t: "pool_inv t" "granting t" "rd_off t = wr_off s"
  shows "\<exists>s' t'. encode x s = (Ok (), s') \<and> wr_step s s' \<and> wr_off s' = wr_off s + length (wire x) \<and>
    decode \<lparr>view_len = wr_len s', view_mem = wr_buf s'\<rparr> t = (Ok x, t') \<and> rd_off t' = wr_off s' \<and> mem_step t t'"
proof -
  let ?s = "written s (wire x)" let ?v = "\<lparr>view_len = wr_len ?s, view_mem = wr_buf ?s\<rparr>"
  have "holds ?v (rd_off t) (wire x)"
    using fits s t by (simp add: holds_def written_def wr_at_def wr_ok_def)
  with t obtain t' where "decode ?v t = (Ok x, t')" "rd_off t' = rd_off t + length (wire x)" "mem_step t t'"
    using parsesE [OF decode_parses [OF wf]] by metis
  moreover have "encode x s = (Ok (), ?s)" using wf s fits by (intro emits_fits encode_emits)
  moreover have "wr_step s ?s" using s fits by (simp add: wr_step_written)
  ultimately show ?thesis using t(3) by (intro exI [of _ ?s] exI [of _ t']) simp
qed

lemma rejects_short_buffer:
  assumes "wf x" and "wr_at s" and "wr_len s < wr_off s + length (wire x)"
  shows "\<exists>e s'. encode x s = (Err e, s') \<and> e \<in> overflow_errors \<and> wr_step s s'"
  using encode_emits [OF assms(1)] assms(2,3) by (elim emits_overflow) auto

end

definition any :: "'a \<Rightarrow> bool" where
  "any x \<longleftrightarrow> True"

interpretation u8_codec: wire_codec "\<lambda>a. or_return AMQP_STATUS_BAD_AMQP_DATA (amqp_encode_8 a)"
    "\<lambda>v. or_return AMQP_STATUS_BAD_AMQP_DATA (amqp_decode_8 v)" be8 any
  by unfold_locales (simp_all add: emits_primitives parses_primitives overflow_errors_def)

interpretation u16_codec: wire_codec "\<lambda>a. or_return AMQP_STATUS_BAD_AMQP_DATA (amqp_encode_16 a)"
    "\<lambda>v. or_return AMQP_STATUS_BAD_AMQP_DATA (amqp_decode_16 v)" be16 any
  by unfold_locales (simp_all add: emits_primitives parses_primitives overflow_errors_def)

interpretation u32_codec: wire_codec "\<lambda>a. or_return AMQP_STATUS_BAD_AMQP_DATA (amqp_encode_32 a)"
    "\<lambda>v. or_return AMQP_STATUS_BAD_AMQP_DATA (amqp_decode_32 v)" be32 any
  by unfold_locales (simp_all add: emits_primitives parses_primitives overflow_errors_def)

interpretation u64_codec: wire_codec "\<lambda>a. or_return AMQP_STATUS_BAD_AMQP_DATA (amqp_encode_64 a)"
    "\<lambda>v. or_return AMQP_STATUS_BAD_AMQP_DATA (amqp_decode_64 v)" be64 any
  by unfold_locales (simp_all add: emits_primitives parses_primitives overflow_errors_def)



text \<open>A reader's state with an empty heap and pool, for the examples.\<close>

definition start_rd :: rd where
  "start_rd = \<lparr>next_id = 0, grants = (\<lambda>_. True), live = (\<lambda>_. None), the_pool = init_amqp_pool 0, rd_off = 0\<rparr>"

lemma start_rd [simp]: "pool_inv start_rd" "granting start_rd" "rd_off start_rd = 0"
proof -
  show "pool_inv start_rd" by (rule pool_inv_init [of _ 0]) (simp_all add: start_rd_def heap_fresh_def)
qed (simp_all add: start_rd_def granting_def)

section \<open>Properties\<close>

text \<open>
  On a machine of either byte order, and through the library's own 64-bit swap, the accessors
  \<^verbatim>\<open>amqp_e64\<close> and \<^verbatim>\<open>amqp_d64\<close> (and their narrower siblings) write and read integers most
  significant byte first.
\<close>

theorem accessors_are_big_endian:
  "amqp_e16 e a = be16 a \<and> amqp_d16 e (be16 a) = a \<and> amqp_e32 e b = be32 b \<and> amqp_d32 e (be32 b) = b \<and>
   amqp_e64 e c = be64 c \<and> amqp_d64 e (be64 c) = c"
  by (simp add: amqp_e16_be amqp_d16_be amqp_e32_be amqp_d32_be amqp_e64_be amqp_d64_be)

end
