(* ===== verification/Table.thy ===== *)
theory Table
  imports Codec
begin

text \<open>
  \<^verbatim>\<open>amqp_table.c\<close>: field values, arrays and tables, their decoders (which build the entries in a
  scratch array that grows, and copy it to the pool), their encoders (which leave room for the size
  and fill it in afterwards) and the order on keys used to sort entries.

  The decoders recurse on data from the network.  Both bounds, on nesting and on the number of
  rounds of a loop, are one more than the length of the view: a value takes at least one byte.
\<close>

section \<open>Data\<close>

datatype amqp_field_value =
    Field_boolean bool
  | Field_i8 u8 | Field_u8 u8
  | Field_i16 u16 | Field_u16 u16
  | Field_i32 u32 | Field_u32 u32
  | Field_i64 u64 | Field_u64 u64
  | Field_f32 u32 | Field_f64 u64
  | Field_decimal u8 u32
  | Field_utf8 bytes | Field_bytes bytes
  | Field_array "amqp_field_value list"
  | Field_timestamp u64
  | Field_table "amqp_table_entry list"
  | Field_void
  | Field_other u8
and amqp_table_entry = Entry (entry_key: bytes) (entry_value: amqp_field_value)

type_synonym amqp_table = "amqp_table_entry list"

definition AMQP_FIELD_KIND_BOOLEAN :: u8 where "AMQP_FIELD_KIND_BOOLEAN = 0x74"
definition AMQP_FIELD_KIND_I8 :: u8 where "AMQP_FIELD_KIND_I8 = 0x62"
definition AMQP_FIELD_KIND_U8 :: u8 where "AMQP_FIELD_KIND_U8 = 0x42"
definition AMQP_FIELD_KIND_I16 :: u8 where "AMQP_FIELD_KIND_I16 = 0x73"
definition AMQP_FIELD_KIND_U16 :: u8 where "AMQP_FIELD_KIND_U16 = 0x75"
definition AMQP_FIELD_KIND_I32 :: u8 where "AMQP_FIELD_KIND_I32 = 0x49"
definition AMQP_FIELD_KIND_U32 :: u8 where "AMQP_FIELD_KIND_U32 = 0x69"
definition AMQP_FIELD_KIND_I64 :: u8 where "AMQP_FIELD_KIND_I64 = 0x6c"
definition AMQP_FIELD_KIND_U64 :: u8 where "AMQP_FIELD_KIND_U64 = 0x4c"
definition AMQP_FIELD_KIND_F32 :: u8 where "AMQP_FIELD_KIND_F32 = 0x66"
definition AMQP_FIELD_KIND_F64 :: u8 where "AMQP_FIELD_KIND_F64 = 0x64"
definition AMQP_FIELD_KIND_DECIMAL :: u8 where "AMQP_FIELD_KIND_DECIMAL = 0x44"
definition AMQP_FIELD_KIND_UTF8 :: u8 where "AMQP_FIELD_KIND_UTF8 = 0x53"
definition AMQP_FIELD_KIND_ARRAY :: u8 where "AMQP_FIELD_KIND_ARRAY = 0x41"
definition AMQP_FIELD_KIND_TIMESTAMP :: u8 where "AMQP_FIELD_KIND_TIMESTAMP = 0x54"
definition AMQP_FIELD_KIND_TABLE :: u8 where "AMQP_FIELD_KIND_TABLE = 0x46"
definition AMQP_FIELD_KIND_VOID :: u8 where "AMQP_FIELD_KIND_VOID = 0x56"
definition AMQP_FIELD_KIND_BYTES :: u8 where "AMQP_FIELD_KIND_BYTES = 0x78"

lemmas kind_defs = AMQP_FIELD_KIND_BOOLEAN_def AMQP_FIELD_KIND_I8_def AMQP_FIELD_KIND_U8_def
  AMQP_FIELD_KIND_I16_def AMQP_FIELD_KIND_U16_def AMQP_FIELD_KIND_I32_def AMQP_FIELD_KIND_U32_def
  AMQP_FIELD_KIND_I64_def AMQP_FIELD_KIND_U64_def AMQP_FIELD_KIND_F32_def AMQP_FIELD_KIND_F64_def
  AMQP_FIELD_KIND_DECIMAL_def AMQP_FIELD_KIND_UTF8_def AMQP_FIELD_KIND_ARRAY_def
  AMQP_FIELD_KIND_TIMESTAMP_def AMQP_FIELD_KIND_TABLE_def AMQP_FIELD_KIND_VOID_def
  AMQP_FIELD_KIND_BYTES_def

definition known_kinds :: "u8 list" where
  "known_kinds = [AMQP_FIELD_KIND_BOOLEAN, AMQP_FIELD_KIND_I8, AMQP_FIELD_KIND_U8, AMQP_FIELD_KIND_I16,
     AMQP_FIELD_KIND_U16, AMQP_FIELD_KIND_I32, AMQP_FIELD_KIND_U32, AMQP_FIELD_KIND_I64,
     AMQP_FIELD_KIND_U64, AMQP_FIELD_KIND_F32, AMQP_FIELD_KIND_F64, AMQP_FIELD_KIND_DECIMAL,
     AMQP_FIELD_KIND_UTF8, AMQP_FIELD_KIND_ARRAY, AMQP_FIELD_KIND_TIMESTAMP, AMQP_FIELD_KIND_TABLE,
     AMQP_FIELD_KIND_VOID, AMQP_FIELD_KIND_BYTES]"

text \<open>The \<^verbatim>\<open>kind\<close> field.\<close>

fun kind :: "amqp_field_value \<Rightarrow> u8" where
  "kind (Field_boolean _) = AMQP_FIELD_KIND_BOOLEAN"
| "kind (Field_i8 _) = AMQP_FIELD_KIND_I8"
| "kind (Field_u8 _) = AMQP_FIELD_KIND_U8"
| "kind (Field_i16 _) = AMQP_FIELD_KIND_I16"
| "kind (Field_u16 _) = AMQP_FIELD_KIND_U16"
| "kind (Field_i32 _) = AMQP_FIELD_KIND_I32"
| "kind (Field_u32 _) = AMQP_FIELD_KIND_U32"
| "kind (Field_i64 _) = AMQP_FIELD_KIND_I64"
| "kind (Field_u64 _) = AMQP_FIELD_KIND_U64"
| "kind (Field_f32 _) = AMQP_FIELD_KIND_F32"
| "kind (Field_f64 _) = AMQP_FIELD_KIND_F64"
| "kind (Field_decimal _ _) = AMQP_FIELD_KIND_DECIMAL"
| "kind (Field_utf8 _) = AMQP_FIELD_KIND_UTF8"
| "kind (Field_bytes _) = AMQP_FIELD_KIND_BYTES"
| "kind (Field_array _) = AMQP_FIELD_KIND_ARRAY"
| "kind (Field_timestamp _) = AMQP_FIELD_KIND_TIMESTAMP"
| "kind (Field_table _) = AMQP_FIELD_KIND_TABLE"
| "kind Field_void = AMQP_FIELD_KIND_VOID"
| "kind (Field_other k) = k"

section \<open>Decoding\<close>

definition INITIAL_ARRAY_SIZE :: nat where "INITIAL_ARRAY_SIZE = 16"
definition INITIAL_TABLE_SIZE :: nat where "INITIAL_TABLE_SIZE = 16"

text \<open>On an LP64 platform.\<close>

definition sizeof_field_value :: nat where "sizeof_field_value = 24"
definition sizeof_table_entry :: nat where "sizeof_table_entry = 40"

definition rd_offset :: "(rd, nat) cm" where
  "rd_offset = (\<lambda>s. (Ok (rd_off s), s))"

text \<open>\<^verbatim>\<open>goto out\<close> on error, where the label frees the scratch array and returns the error.\<close>

definition freeing :: "nat \<Rightarrow> (rd, 'a) cm \<Rightarrow> (rd, 'a) cm" where
  "freeing entries m = (\<lambda>s. case m s of
     (Err e, s') \<Rightarrow> and_then (c_free (Some entries)) (\<lambda>_. raise e) s'
   | (r, s') \<Rightarrow> (r, s'))"

text \<open>Grow the scratch array when it is full; the result is its capacity and its address.\<close>

definition grow_entries :: "nat \<Rightarrow> nat \<Rightarrow> nat \<Rightarrow> nat \<Rightarrow> (rd, nat \<times> nat) cm" where
  "grow_entries sz num_entries allocated_entries entries =
     (if num_entries \<ge> allocated_entries then
        and_then (freeing entries (or_return AMQP_STATUS_NO_MEMORY
          (c_realloc (Some entries) (allocated_entries * 2 * sz)))) (\<lambda>newentries.
        ret (allocated_entries * 2, newentries))
      else ret (allocated_entries, entries))"

definition copy_to_pool :: "nat \<Rightarrow> nat \<Rightarrow> (rd, unit) cm" where
  "copy_to_pool sz num_entries = and_then (amqp_pool_alloc (num_entries * sz)) (\<lambda>p.
     if p = None \<and> num_entries > 0 then raise AMQP_STATUS_NO_MEMORY else ret ())"

text \<open>
  The loop of \<^verbatim>\<open>amqp_decode_array\<close> and of \<^verbatim>\<open>amqp_decode_table\<close>.  \<open>pre\<close> is what a round reads before
  the array may grow (the key length of a table entry, nothing for an array), \<open>body\<close> what it reads
  into the new entry.
\<close>

primrec decode_entries :: "nat \<Rightarrow> nat \<Rightarrow> (rd, 'p) cm \<Rightarrow> ('p \<Rightarrow> (rd, 'e) cm) \<Rightarrow> nat \<Rightarrow> nat \<Rightarrow> nat \<Rightarrow>
    'e list \<Rightarrow> (rd, 'e list) cm" where
  "decode_entries 0 sz pre body limit allocated entries es = out_of_fuel"
| "decode_entries (Suc n) sz pre body limit allocated entries es =
     and_then rd_offset (\<lambda>offset.
     if offset < limit then
       and_then (freeing entries pre) (\<lambda>p.
       and_then (grow_entries sz (length es) allocated entries) (\<lambda>(allocated, entries).
       and_then (freeing entries (body p)) (\<lambda>e.
       decode_entries n sz pre body limit allocated entries (es @ [e]))))
     else
       and_then (freeing entries (copy_to_pool sz (length es))) (\<lambda>_.
       and_then (c_free (Some entries)) (\<lambda>_.
       ret es)))"

definition decode_array :: "(rd, amqp_field_value) cm \<Rightarrow> view \<Rightarrow> (rd, amqp_field_value list) cm" where
  "decode_array field_decoder v =
     and_then (or_return AMQP_STATUS_BAD_AMQP_DATA (amqp_decode_32 v)) (\<lambda>arraysize.
     and_then (or_return AMQP_STATUS_NO_MEMORY (c_malloc (INITIAL_ARRAY_SIZE * sizeof_field_value))) (\<lambda>entries.
     and_then rd_offset (\<lambda>offset.
     decode_entries (Suc (view_len v)) sizeof_field_value (ret ()) (\<lambda>_. field_decoder)
       (offset + unat arraysize) INITIAL_ARRAY_SIZE entries [])))"

definition decode_table :: "(rd, amqp_field_value) cm \<Rightarrow> view \<Rightarrow> (rd, amqp_table) cm" where
  "decode_table field_decoder v =
     and_then (or_return AMQP_STATUS_BAD_AMQP_DATA (amqp_decode_32 v)) (\<lambda>tablesize.
     and_then (or_return AMQP_STATUS_NO_MEMORY (c_malloc (INITIAL_TABLE_SIZE * sizeof_table_entry))) (\<lambda>entries.
     and_then rd_offset (\<lambda>offset.
     decode_entries (Suc (view_len v)) sizeof_table_entry
       (or_return AMQP_STATUS_BAD_AMQP_DATA (amqp_decode_8 v))
       (\<lambda>keylen.
          and_then (or_return AMQP_STATUS_BAD_AMQP_DATA (amqp_decode_bytes v (unat keylen))) (\<lambda>key.
          and_then field_decoder (\<lambda>value.
          ret (Entry key value))))
       (offset + unat tablesize) INITIAL_TABLE_SIZE entries [])))"

text \<open>The cases of the \<^verbatim>\<open>switch\<close> that do not recurse.\<close>

definition decode_scalar :: "view \<Rightarrow> u8 \<Rightarrow> (rd, amqp_field_value) cm" where
  "decode_scalar v k =
     (let d8 = or_return AMQP_STATUS_BAD_AMQP_DATA (amqp_decode_8 v);
          d16 = or_return AMQP_STATUS_BAD_AMQP_DATA (amqp_decode_16 v);
          d32 = or_return AMQP_STATUS_BAD_AMQP_DATA (amqp_decode_32 v);
          d64 = or_return AMQP_STATUS_BAD_AMQP_DATA (amqp_decode_64 v);
          dbytes = and_then d32 (\<lambda>len. or_return AMQP_STATUS_BAD_AMQP_DATA (amqp_decode_bytes v (unat len)))
      in
        if k = AMQP_FIELD_KIND_BOOLEAN then and_then d8 (\<lambda>x. ret (Field_boolean (x \<noteq> 0)))
        else if k = AMQP_FIELD_KIND_I8 then and_then d8 (\<lambda>x. ret (Field_i8 x))
        else if k = AMQP_FIELD_KIND_U8 then and_then d8 (\<lambda>x. ret (Field_u8 x))
        else if k = AMQP_FIELD_KIND_I16 then and_then d16 (\<lambda>x. ret (Field_i16 x))
        else if k = AMQP_FIELD_KIND_U16 then and_then d16 (\<lambda>x. ret (Field_u16 x))
        else if k = AMQP_FIELD_KIND_I32 then and_then d32 (\<lambda>x. ret (Field_i32 x))
        else if k = AMQP_FIELD_KIND_U32 then and_then d32 (\<lambda>x. ret (Field_u32 x))
        else if k = AMQP_FIELD_KIND_I64 then and_then d64 (\<lambda>x. ret (Field_i64 x))
        else if k = AMQP_FIELD_KIND_U64 then and_then d64 (\<lambda>x. ret (Field_u64 x))
        else if k = AMQP_FIELD_KIND_F32 then and_then d32 (\<lambda>x. ret (Field_f32 x))
        else if k = AMQP_FIELD_KIND_F64 then and_then d64 (\<lambda>x. ret (Field_f64 x))
        else if k = AMQP_FIELD_KIND_DECIMAL then
          and_then d8 (\<lambda>decimals. and_then d32 (\<lambda>x. ret (Field_decimal decimals x)))
        else if k = AMQP_FIELD_KIND_UTF8 then and_then dbytes (\<lambda>b. ret (Field_utf8 b))
        else if k = AMQP_FIELD_KIND_BYTES then and_then dbytes (\<lambda>b. ret (Field_bytes b))
        else if k = AMQP_FIELD_KIND_TIMESTAMP then and_then d64 (\<lambda>x. ret (Field_timestamp x))
        else if k = AMQP_FIELD_KIND_VOID then ret Field_void
        else raise AMQP_STATUS_BAD_AMQP_DATA)"

primrec decode_field_value :: "nat \<Rightarrow> view \<Rightarrow> (rd, amqp_field_value) cm" where
  "decode_field_value 0 v = out_of_fuel"
| "decode_field_value (Suc depth) v =
     and_then (or_return AMQP_STATUS_BAD_AMQP_DATA (amqp_decode_8 v)) (\<lambda>k.
       if k = AMQP_FIELD_KIND_ARRAY then
         and_then (decode_array (decode_field_value depth v) v) (\<lambda>es. ret (Field_array es))
       else if k = AMQP_FIELD_KIND_TABLE then
         and_then (decode_table (decode_field_value depth v) v) (\<lambda>es. ret (Field_table es))
       else decode_scalar v k)"

definition amqp_decode_field_value :: "view \<Rightarrow> (rd, amqp_field_value) cm" where
  "amqp_decode_field_value v = decode_field_value (Suc (view_len v)) v"

definition amqp_decode_array :: "view \<Rightarrow> (rd, amqp_field_value list) cm" where
  "amqp_decode_array v = decode_array (amqp_decode_field_value v) v"

definition amqp_decode_table :: "view \<Rightarrow> (rd, amqp_table) cm" where
  "amqp_decode_table v = decode_table (amqp_decode_field_value v) v"

section \<open>Encoding\<close>

text \<open>
  An array or a table: skip the four bytes of the size, run the loop, and write the size at \<^verbatim>\<open>start\<close>,
  which is a local copy of the offset.
\<close>

definition with_size :: "(wr, unit) cm \<Rightarrow> (wr, unit) cm" where
  "with_size entries =
     and_then get_offset (\<lambda>start.
     and_then (set_offset (start + 4)) (\<lambda>_.
     and_then entries (\<lambda>_.
     and_then get_offset (\<lambda>offset.
     or_return AMQP_STATUS_TABLE_TOO_BIG
       (at_offset start (amqp_encode_32 (word_of_nat (offset - start - 4))))))))"

definition too_big :: "(wr, 'a option) cm \<Rightarrow> (wr, 'a) cm" where
  "too_big m = or_return AMQP_STATUS_TABLE_TOO_BIG m"

definition encode_long_bytes :: "bytes \<Rightarrow> (wr, unit) cm" where
  "encode_long_bytes b = and_then (too_big (amqp_encode_32 (word_of_nat (length b)))) (\<lambda>_.
     too_big (amqp_encode_bytes b))"

fun amqp_encode_field_value :: "amqp_field_value \<Rightarrow> (wr, unit) cm"
and encode_value :: "amqp_field_value \<Rightarrow> (wr, unit) cm"
and encode_array_entries :: "amqp_field_value list \<Rightarrow> (wr, unit) cm"
and encode_table_entries :: "amqp_table \<Rightarrow> (wr, unit) cm" where
  "amqp_encode_field_value e =
     and_then (or_return AMQP_STATUS_BAD_AMQP_DATA (amqp_encode_8 (kind e))) (\<lambda>_. encode_value e)"
| "encode_value (Field_boolean b) = too_big (amqp_encode_8 (if b then 1 else 0))"
| "encode_value (Field_i8 x) = too_big (amqp_encode_8 x)"
| "encode_value (Field_u8 x) = too_big (amqp_encode_8 x)"
| "encode_value (Field_i16 x) = too_big (amqp_encode_16 x)"
| "encode_value (Field_u16 x) = too_big (amqp_encode_16 x)"
| "encode_value (Field_i32 x) = too_big (amqp_encode_32 x)"
| "encode_value (Field_u32 x) = too_big (amqp_encode_32 x)"
| "encode_value (Field_i64 x) = too_big (amqp_encode_64 x)"
| "encode_value (Field_u64 x) = too_big (amqp_encode_64 x)"
| "encode_value (Field_f32 x) = too_big (amqp_encode_32 x)"
| "encode_value (Field_f64 x) = too_big (amqp_encode_64 x)"
| "encode_value (Field_decimal d x) =
     and_then (too_big (amqp_encode_8 d)) (\<lambda>_. too_big (amqp_encode_32 x))"
| "encode_value (Field_utf8 b) = encode_long_bytes b"
| "encode_value (Field_bytes b) = encode_long_bytes b"
| "encode_value (Field_array es) = with_size (encode_array_entries es)"
| "encode_value (Field_timestamp x) = too_big (amqp_encode_64 x)"
| "encode_value (Field_table es) = with_size (encode_table_entries es)"
| "encode_value Field_void = ret ()"
| "encode_value (Field_other k) = raise AMQP_STATUS_INVALID_PARAMETER"
| "encode_array_entries [] = ret ()"
| "encode_array_entries (e # es) =
     and_then (amqp_encode_field_value e) (\<lambda>_. encode_array_entries es)"
| "encode_table_entries [] = ret ()"
| "encode_table_entries (Entry key value # es) =
     and_then (too_big (amqp_encode_8 (word_of_nat (length key)))) (\<lambda>_.
     and_then (too_big (amqp_encode_bytes key)) (\<lambda>_.
     and_then (amqp_encode_field_value value) (\<lambda>_.
     encode_table_entries es)))"

definition amqp_encode_array :: "amqp_field_value list \<Rightarrow> (wr, unit) cm" where
  "amqp_encode_array es = with_size (encode_array_entries es)"

definition amqp_encode_table :: "amqp_table \<Rightarrow> (wr, unit) cm" where
  "amqp_encode_table es = with_size (encode_table_entries es)"
section \<open>The wire format\<close>

definition sized :: "bytes \<Rightarrow> bytes" where
  "sized bs = be32 (word_of_nat (length bs)) @ bs"

fun field_bytes :: "amqp_field_value \<Rightarrow> bytes"
and value_bytes :: "amqp_field_value \<Rightarrow> bytes"
and array_bytes :: "amqp_field_value list \<Rightarrow> bytes"
and table_bytes :: "amqp_table \<Rightarrow> bytes" where
  "field_bytes e = be8 (kind e) @ value_bytes e"
| "value_bytes (Field_boolean b) = be8 (if b then 1 else 0)"
| "value_bytes (Field_i8 x) = be8 x"
| "value_bytes (Field_u8 x) = be8 x"
| "value_bytes (Field_i16 x) = be16 x"
| "value_bytes (Field_u16 x) = be16 x"
| "value_bytes (Field_i32 x) = be32 x"
| "value_bytes (Field_u32 x) = be32 x"
| "value_bytes (Field_i64 x) = be64 x"
| "value_bytes (Field_u64 x) = be64 x"
| "value_bytes (Field_f32 x) = be32 x"
| "value_bytes (Field_f64 x) = be64 x"
| "value_bytes (Field_decimal d x) = be8 d @ be32 x"
| "value_bytes (Field_utf8 b) = sized b"
| "value_bytes (Field_bytes b) = sized b"
| "value_bytes (Field_array es) = sized (array_bytes es)"
| "value_bytes (Field_timestamp x) = be64 x"
| "value_bytes (Field_table es) = sized (table_bytes es)"
| "value_bytes Field_void = []"
| "value_bytes (Field_other k) = []"
| "array_bytes [] = []"
| "array_bytes (e # es) = field_bytes e @ array_bytes es"
| "table_bytes [] = []"
| "table_bytes (Entry key value # es) =
     be8 (word_of_nat (length key)) @ key @ field_bytes value @ table_bytes es"

text \<open>What the encoder accepts: every value whose kind it knows.\<close>

fun encodable :: "amqp_field_value \<Rightarrow> bool"
and encodable_entry :: "amqp_table_entry \<Rightarrow> bool" where
  "encodable (Field_array es) = (\<forall>e\<in>set es. encodable e)"
| "encodable (Field_table es) = (\<forall>e\<in>set es. encodable_entry e)"
| "encodable (Field_other k) = False"
| "encodable _ = True"
| "encodable_entry (Entry key value) = encodable value"

definition full_fails :: "(wr, unit) cm \<Rightarrow> bool" where
  "full_fails m \<longleftrightarrow> (\<forall>s. wr_ok s \<longrightarrow> wr_len s < wr_off s \<longrightarrow>
     m s = (Ok (), s) \<or> (\<exists>e s'. m s = (Err e, s') \<and> e \<in> overflow_errors \<and> wr_step s s'))"

lemma run_offset [simp]: "get_offset s = (Ok (wr_off s), s)" "set_offset i s = (Ok (), s\<lparr>wr_off := i\<rparr>)"
  by (simp_all add: get_offset_def set_offset_def)

lemma wr_step_bump_then: "wr_step (s\<lparr>wr_off := wr_off s + n\<rparr>) t \<Longrightarrow> wr_step s t"
  using wr_step_trans wr_step_bump by blast

lemma size_overflow:
  assumes "wr_len s < start + 4" and "start \<le> wr_off s"
  shows "or_return e (at_offset start (amqp_encode_32 x)) s = (Err e, s)"
  using assms by (simp add: at_offset_def amqp_encode_32_def amqp_e32_be put_bytes_over or_return_None)

lemma emits_with_size:
  assumes m: "emits m bs" and full: "full_fails m"
  shows "emits (with_size m) (sized bs)"
proof (rule emitsI)
  fix s assume s: "wr_at s"
  let ?s4 = "s\<lparr>wr_off := wr_off s + 4\<rparr>"
  show "with_size m s = (Ok (), written s (sized bs))" if "wr_off s + length (sized bs) \<le> wr_len s"
  proof -
    have fit: "wr_off s + 4 + length bs \<le> wr_len s" using that by (simp add: sized_def)
    then have "wr_at ?s4" using s by (simp add: wr_at_def wr_ok_def)
    with m fit have "m ?s4 = (Ok (), written ?s4 bs)" by (simp add: emits_fits)
    moreover have "amqp_encode_32 x ((written ?s4 bs)\<lparr>wr_off := wr_off s\<rparr>) =
        (Ok (Some ()), written ((written ?s4 bs)\<lparr>wr_off := wr_off s\<rparr>) (be32 x))" for x
      unfolding amqp_encode_32_def amqp_e32_be using fit s
      by (intro put_bytes_fits) (simp_all add: written_def wr_ok_def wr_at_def)
    moreover have "splice (splice (wr_buf s) (wr_off s + 4) bs) (wr_off s) (be32 x) =
        splice (wr_buf s) (wr_off s) (be32 x @ bs)" for x
      using fit s by (intro splice_before) (simp_all add: wr_at_def wr_ok_def)
    ultimately show ?thesis
      by (simp add: with_size_def and_then_Ok or_return_def run_and_then at_offset_def sized_def written_def)
  qed
  show "\<exists>e s'. with_size m s = (Err e, s') \<and> e \<in> overflow_errors \<and> wr_step s s'"
    if big: "wr_len s < wr_off s + length (sized bs)"
  proof (cases "wr_off s + 4 \<le> wr_len s")
    case True
    then have "wr_at ?s4" using s by (simp add: wr_at_def wr_ok_def)
    moreover have "wr_len ?s4 < wr_off ?s4 + length bs" using big by (simp add: sized_def)
    ultimately obtain e s' where "m ?s4 = (Err e, s')" "e \<in> overflow_errors" "wr_step ?s4 s'"
      using m by (metis emits_overflow)
    then show ?thesis by (auto simp: with_size_def and_then_Ok and_then_Err intro: wr_step_bump_then)
  next
    case False
    then have "wr_ok ?s4" "wr_len ?s4 < wr_off ?s4" using s by (simp_all add: wr_at_def wr_ok_def)
    with full consider "m ?s4 = (Ok (), ?s4)"
      | e s' where "m ?s4 = (Err e, s')" "e \<in> overflow_errors" "wr_step ?s4 s'"
      unfolding full_fails_def by blast
    then show ?thesis
    proof cases
      case 1
      with False show ?thesis
        by (auto simp: with_size_def and_then_Ok size_overflow overflow_errors_def)
    next
      case 2
      then show ?thesis by (auto simp: with_size_def and_then_Ok and_then_Err intro: wr_step_bump_then)
    qed
  qed
qed

lemma full_fails_first:
  assumes "e \<in> overflow_errors" and "bs \<noteq> []"
  shows "full_fails (and_then (or_return e (put_bytes bs)) f)"
  unfolding full_fails_def
  using assms by (auto simp: and_then_Err or_return_None put_bytes_over)

lemma overflow_errors [simp]:
  "AMQP_STATUS_BAD_AMQP_DATA \<in> overflow_errors" "AMQP_STATUS_TABLE_TOO_BIG \<in> overflow_errors"
  by (simp_all add: overflow_errors_def)

lemma full_fails_ret: "full_fails (ret ())"
  by (simp add: full_fails_def)

lemma full_fails_array: "full_fails (encode_array_entries es)"
  by (cases es) (simp_all add: full_fails_ret amqp_encode_8_def amqp_e8_be be8_def full_fails_first and_then_assoc)

lemma full_fails_table: "full_fails (encode_table_entries es)"
proof (cases es)
  case (Cons e es')
  then show ?thesis
    by (cases e) (simp add: amqp_encode_8_def amqp_e8_be be8_def full_fails_first too_big_def)
qed (simp add: full_fails_ret)

lemma emits_long_bytes: "emits (encode_long_bytes b) (sized b)"
  unfolding encode_long_bytes_def too_big_def sized_def
  by (intro emits_and_then emits_primitives) simp_all

lemma emits_field:
  shows "encodable e \<Longrightarrow> emits (amqp_encode_field_value e) (field_bytes e)"
    and "encodable e \<Longrightarrow> emits (encode_value e) (value_bytes e)"
    and "list_all encodable fs \<Longrightarrow> emits (encode_array_entries fs) (array_bytes fs)"
    and "list_all encodable_entry es \<Longrightarrow> emits (encode_table_entries es) (table_bytes es)"
proof (induction e and e and fs and es
    rule: amqp_encode_field_value_encode_value_encode_array_entries_encode_table_entries.induct)
  case (1 e)
  then show ?case by (simp add: emits_primitives emits_and_then)
next
  case (22 e es)
  then show ?case
    unfolding encode_array_entries.simps array_bytes.simps by (intro emits_and_then) simp_all
next
  case (24 key x es)
  then show ?case
    unfolding encode_table_entries.simps table_bytes.simps too_big_def
    by (intro emits_and_then emits_primitives) simp_all
qed (simp_all add: too_big_def emits_primitives emits_ret emits_and_then emits_long_bytes emits_with_size
    full_fails_array full_fails_table list_all_iff del: amqp_encode_field_value.simps field_bytes.simps)

lemma safe_too_big: "safe wr_ok wr_step m \<Longrightarrow> safe wr_ok wr_step (too_big m)"
  unfolding too_big_def by (rule writers.safe_or_return)

lemma size_written:
  assumes "wr_ok s" and "start + 4 \<le> wr_len s"
  shows "or_return e (at_offset start (amqp_encode_32 x)) s =
    (Ok (), s\<lparr>wr_buf := splice (wr_buf s) start (be32 x)\<rparr>)"
  using assms unfolding amqp_encode_32_def amqp_e32_be
  by (simp add: or_return_def run_and_then at_offset_def put_bytes_fits wr_ok_def written_def)

lemma safe_with_size:
  assumes "safe wr_ok wr_step m"
  shows "safe wr_ok wr_step (with_size m)"
proof (rule safeI)
  fix s :: wr and r s''
  let ?s4 = "s\<lparr>wr_off := wr_off s + 4\<rparr>"
  assume s: "wr_ok s" and run: "with_size m s = (r, s'')"
  obtain q t where m: "m ?s4 = (q, t)" by fastforce
  have "wr_ok ?s4" using s by (simp add: wr_ok_def)
  note 1 = safeD [OF assms this m]
  then have "wr_step s t" by (blast intro: wr_step_bump_then)
  with 1 have t: "returns q" "wr_ok t" "wr_step s t" "wr_off s + 4 \<le> wr_off t" "wr_len t = wr_len s"
    by (simp_all add: wr_step_def)
  show "returns r \<and> wr_ok s'' \<and> wr_step s s''"
  proof (cases q)
    case (Ok u)
    let ?x = "word_of_nat (wr_off t - wr_off s - 4)"
    have run': "or_return AMQP_STATUS_TABLE_TOO_BIG (at_offset (wr_off s) (amqp_encode_32 ?x)) t = (r, s'')"
      using run m Ok by (simp add: with_size_def and_then_Ok)
    show ?thesis
    proof (cases "wr_off s + 4 \<le> wr_len t")
      case True
      with t run' have "r = Ok ()" "s'' = t\<lparr>wr_buf := splice (wr_buf t) (wr_off s) (be32 ?x)\<rparr>"
        by (simp_all add: size_written)
      with t True s show ?thesis by (simp add: wr_step_def wr_ok_def)
    next
      case False
      with t run' have "r = Err AMQP_STATUS_TABLE_TOO_BIG" "s'' = t" by (simp_all add: size_overflow)
      with t show ?thesis by simp
    qed
  qed (use t run m in \<open>auto simp: with_size_def and_then_Ok and_then_Err\<close>)
qed

lemma safe_encode_field:
  shows "safe wr_ok wr_step (amqp_encode_field_value e)"
    and "safe wr_ok wr_step (encode_value e)"
    and "safe wr_ok wr_step (encode_array_entries fs)"
    and "safe wr_ok wr_step (encode_table_entries es)"
proof (induction e and e and fs and es
    rule: amqp_encode_field_value_encode_value_encode_array_entries_encode_table_entries.induct)
  case (1 e)
  then show ?case by (simp add: writers.safe_intros safe_encode_primitives)
next
  case (22 e es)
  then show ?case unfolding encode_array_entries.simps by (intro writers.safe_and_then) simp_all
next
  case (24 key x es)
  then show ?case
    unfolding encode_table_entries.simps
    by (intro writers.safe_and_then safe_too_big safe_encode_primitives) simp_all
qed (simp_all add: safe_too_big writers.safe_intros safe_encode_primitives safe_with_size encode_long_bytes_def
    del: amqp_encode_field_value.simps run_ret run_raise)

section \<open>Decoding arbitrary bytes\<close>

lemma run_rd_offset [simp]: "rd_offset s = (Ok (rd_off s), s)"
  by (simp add: rd_offset_def)

lemma pool_alloc_off: "amqp_pool_alloc n s = (r, s') \<Longrightarrow> rd_off s' = rd_off s"
  by (auto simp: amqp_pool_alloc_def pool_alloc_large_def pool_alloc_page_def record_pool_block_def run_and_then
      c_malloc_def c_realloc_def Let_def split: if_splits option.splits)

lemma c_free_off: "c_free p s = (r, s') \<Longrightarrow> rd_off s' = rd_off s"
  by (auto simp: c_free_def split: if_splits option.splits)

lemma c_malloc_off: "c_malloc n s = (r, s') \<Longrightarrow> rd_off s' = rd_off s"
  by (auto simp: c_malloc_def Let_def split: if_splits)

lemma c_realloc_off: "c_realloc p n s = (r, s') \<Longrightarrow> rd_off s' = rd_off s"
  by (auto simp: c_realloc_def c_malloc_def Let_def split: if_splits option.splits)

definition scratch_step :: "nat \<Rightarrow> rd \<Rightarrow> rd \<Rightarrow> bool" where
  "scratch_step b s s' \<longleftrightarrow> mem_step_minus {b} s s' \<and> rd_off s \<le> rd_off s'"

lemma rd_scratch: "rd_step s t \<Longrightarrow> scratch_step b t u \<Longrightarrow> scratch_step b s u"
  unfolding rd_step_def scratch_step_def by (auto intro: mem_step_then_minus)

lemma free_scratch:
  assumes "pool_inv s" and "foreign s b"
  obtains s' where "c_free (Some b) s = (Ok (), s')" "scratch_step b s s'" "rd_off s' = rd_off s"
proof -
  from c_free_scratch [OF assms] obtain s' where "c_free (Some b) s = (Ok (), s')" "mem_step_minus {b} s s'"
    by blast
  with c_free_off [OF this(1)] show ?thesis by (intro that [of s']) (simp_all add: scratch_step_def)
qed

lemma reads_copy_to_pool: "reads v k 0 (copy_to_pool sz n)"
proof (rule readsI)
  fix s r s'
  assume s: "pool_inv s" "rd_off s \<le> view_len v" and run: "copy_to_pool sz n s = (r, s')"
  obtain q t where q: "amqp_pool_alloc (n * sz) s = (q, t)" by fastforce
  from safeD [OF safe_amqp_pool_alloc s(1) q] pool_alloc_off [OF q] run q s
  show "returns r \<and> rd_step s s' \<and> (\<forall>a. r = Ok a \<longrightarrow> rd_off s + 0 \<le> rd_off s' \<and> rd_off s' \<le> view_len v)"
    by (cases q) (auto simp: copy_to_pool_def run_and_then rd_step_def split: if_splits)
qed

lemma freeing_cases:
  assumes m: "reads v k n m" and s: "pool_inv s" "foreign s b" "rd_off s \<le> view_len v" "view_len v - rd_off s \<le> k"
    and run: "freeing b m s = (r, s')"
  obtains (Ok) a where "r = Ok a" "m s = (Ok a, s')" "pool_inv s'" "foreign s' b" "rd_step s s'"
      "rd_off s + n \<le> rd_off s'" "rd_off s' \<le> view_len v"
  | (Err) e where "r = Err e" "scratch_step b s s'"
proof -
  obtain q t where q: "m s = (q, t)" by fastforce
  note 1 = readsD [OF m s(1,3,4) q]
  have f: "foreign t b" using 1(2) s(1,2) unfolding rd_step_def by (blast dest: mem_step_foreign)
  show thesis
  proof (cases q)
    case (Ok a)
    with q run have "r = Ok a" "s' = t" by (simp_all add: freeing_def)
    with that(1) 1 f q Ok show ?thesis by blast
  next
    case (Err e)
    obtain u where u: "c_free (Some b) t = (outcome.Ok (), u)" "scratch_step b t u"
      using 1(3) f by (rule free_scratch)
    with q run Err have "r = outcome.Err e" "s' = u" by (simp_all add: freeing_def and_then_Ok)
    with u(2) 1(2) that(2) show ?thesis by (blast intro: rd_scratch)
  qed (use 1 in auto)
qed

lemma grow_entries_cases:
  assumes s: "pool_inv s" "foreign s b" and run: "grow_entries sz n al b s = (r, s')"
  obtains (Ok) al' b' where "r = Ok (al', b')" "pool_inv s'" "foreign s' b'" "rd_off s' = rd_off s"
      "\<And>u. scratch_step b' s' u \<Longrightarrow> scratch_step b s u"
  | (Err) e where "r = Err e" "scratch_step b s s'"
proof (cases "n \<ge> al")
  case False
  with run have "r = outcome.Ok (al, b)" "s' = s" by (auto simp: grow_entries_def)
  with s that(1) show ?thesis by blast
next
  case True
  obtain q t where q: "c_realloc (Some b) (al * 2 * sz) s = (q, t)" by fastforce
  note off = c_realloc_off [OF q]
  from c_realloc_scratch [OF s q] consider
      (no) "q = outcome.Ok None" "mem_step s t" "foreign t b"
    | (yes) j where "q = outcome.Ok (Some j)" "pool_inv t" "foreign t j"
        "\<And>u. mem_step_minus {j} t u \<Longrightarrow> mem_step_minus {b} s u" by blast
  then show ?thesis
  proof cases
    case no
    have "pool_inv t" using no(2) s(1) by (rule mem_step_inv)
    then obtain u where u: "c_free (Some b) t = (outcome.Ok (), u)" "scratch_step b t u"
      using no(3) by (rule free_scratch)
    with True run q no(1) have "r = outcome.Err AMQP_STATUS_NO_MEMORY" "s' = u"
      by (auto simp: grow_entries_def freeing_def run_and_then or_return_def)
    moreover have "rd_step s t" using no(2) off by (simp add: rd_step_def)
    ultimately show ?thesis using that(2) u(2) by (blast intro: rd_scratch)
  next
    case yes
    with True run q have "r = outcome.Ok (al * 2, j)" "s' = t"
      by (auto simp: grow_entries_def freeing_def run_and_then or_return_def)
    with yes off show ?thesis by (intro that(1) [of "al * 2" j]) (auto simp: scratch_step_def)
  qed
qed

lemma decode_entries_finish:
  assumes s: "pool_inv s" "foreign s b" "rd_off s \<le> view_len (v :: view)"
    and run: "and_then (freeing b (copy_to_pool sz (length es))) (\<lambda>_.
       and_then (c_free (Some b)) (\<lambda>_. ret es)) s = (r, s')"
  shows "returns r \<and> scratch_step b s s' \<and> (\<forall>a. r = Ok a \<longrightarrow> rd_off s \<le> rd_off s' \<and> rd_off s' \<le> view_len v)"
proof -
  obtain q t where q: "freeing b (copy_to_pool sz (length es)) s = (q, t)" by fastforce
  have k: "reads v (view_len v) 0 (copy_to_pool sz (length es))" "view_len v - rd_off s \<le> view_len v"
    by (simp_all add: reads_copy_to_pool)
  from k(1) s k(2) q show ?thesis
  proof (cases rule: freeing_cases)
    case a: (Ok a)
    obtain u where u: "c_free (Some b) t = (outcome.Ok (), u)" "scratch_step b t u" "rd_off u = rd_off t"
      using a(3,4) by (rule free_scratch)
    with q a run have "r = outcome.Ok es" "s' = u" by (simp_all add: and_then_Ok)
    with a u show ?thesis by (auto intro: rd_scratch)
  next
    case (Err e)
    with q run show ?thesis by (auto simp: and_then_Err)
  qed
qed

lemma decode_entries_reads:
  assumes pre: "reads v k i pre" and body: "\<And>p. reads v k 1 (body p)"
  shows "pool_inv s \<Longrightarrow> foreign s b \<Longrightarrow> rd_off s \<le> view_len v \<Longrightarrow> view_len v - rd_off s \<le> k \<Longrightarrow>
    view_len v - rd_off s < n \<Longrightarrow> decode_entries n sz pre body limit al b es s = (r, s') \<Longrightarrow>
    returns r \<and> scratch_step b s s' \<and> (\<forall>a. r = Ok a \<longrightarrow> rd_off s \<le> rd_off s' \<and> rd_off s' \<le> view_len v)"
proof (induction n arbitrary: s al b es)
  case (Suc n)
  note s = Suc.prems(1-4)
  show ?case
  proof (cases "rd_off s < limit")
    case False
    with Suc.prems show ?thesis
      by (intro decode_entries_finish [OF s(1-3)]) (simp add: and_then_Ok)
  next
    case True
    obtain q t where q: "freeing b pre s = (q, t)" by fastforce
    from pre s q show ?thesis
    proof (cases rule: freeing_cases)
      case (Err e)
      with Suc.prems(6) True q show ?thesis by (auto simp: and_then_Ok and_then_Err)
    next
      case (Ok p)
      note t = this
      obtain q2 t2 where q2: "grow_entries sz (length es) al b t = (q2, t2)" by fastforce
      from t(3,4) q2 show ?thesis
      proof (cases rule: grow_entries_cases)
        case (Err e)
        with Suc.prems(6) True q t q2 show ?thesis by (auto simp: and_then_Ok and_then_Err intro: rd_scratch)
      next
        case (Ok al2 b2)
        note t2 = this
        obtain q3 t3 where q3: "freeing b2 (body p) t2 = (q3, t3)" by fastforce
        have "rd_off t2 \<le> view_len v" "view_len v - rd_off t2 \<le> k"
          using t(6,7) t2(4) s(4) by linarith+
        from body t2(2,3) this q3 show ?thesis
        proof (cases rule: freeing_cases)
          case (Err e)
          with Suc.prems(6) True q t(1) q2 t2(1) q3 have "r = outcome.Err e" "s' = t3"
            by (simp_all add: and_then_Ok and_then_Err)
          with Err t(5) t2(5) show ?thesis by (auto intro: rd_scratch)
        next
          case (Ok x)
          note t3 = this
          have "view_len v - rd_off t3 \<le> k" "view_len v - rd_off t3 < n"
            using t3(6,7) t2(4) t(6,7) s(3,4) Suc.prems(5) by linarith+
          moreover have "decode_entries n sz pre body limit al2 b2 (es @ [x]) t3 = (r, s')"
            using Suc.prems(6) True q t(1) q2 t2(1) q3 t3(1) by (simp add: and_then_Ok)
          ultimately have "returns r \<and> scratch_step b2 t3 s' \<and>
              (\<forall>a. r = outcome.Ok a \<longrightarrow> rd_off t3 \<le> rd_off s' \<and> rd_off s' \<le> view_len v)"
            using t3(3,4,7) by (intro Suc.IH)
          moreover from this have "scratch_step b s s'"
            using t(5) t2(5) t3(5) by (blast intro: rd_scratch)
          ultimately show ?thesis by (auto simp: scratch_step_def)
        qed
      qed
    qed
  qed
qed simp


lemma reads_decode_list:
  assumes v: "view_ok v" and pre: "reads v k i pre" and body: "\<And>p. reads v k 1 (body p)"
  shows "reads v (k + 4) 4 (and_then (or_return AMQP_STATUS_BAD_AMQP_DATA (amqp_decode_32 v)) (\<lambda>size.
     and_then (or_return AMQP_STATUS_NO_MEMORY (c_malloc c)) (\<lambda>entries.
     and_then rd_offset (\<lambda>offset.
     decode_entries (Suc (view_len v)) sz pre body (offset + unat size) al entries []))))"
    (is "reads v _ _ (and_then _ (\<lambda>size. ?loop size))")
proof -
  have "reads v k 0 (?loop size)" for size
  proof (rule readsI)
    fix s r s'
    assume s: "pool_inv s" "rd_off s \<le> view_len v" "view_len v - rd_off s \<le> k"
      and run: "?loop size s = (r, s')"
    obtain q t where q: "c_malloc c s = (q, t)" by fastforce
    note off = c_malloc_off [OF q]
    have gr: "q = Ok None \<and> t = s\<lparr>next_id := Suc (next_id s)\<rparr> \<or> (\<exists>b. q = Ok (Some b))"
      using q by (auto simp: c_malloc_def Let_def split: if_splits)
    then show "returns r \<and> rd_step s s' \<and> (\<forall>a. r = Ok a \<longrightarrow> rd_off s + 0 \<le> rd_off s' \<and> rd_off s' \<le> view_len v)"
    proof (elim disjE exE conjE)
      assume "q = Ok None" and t: "t = s\<lparr>next_id := Suc (next_id s)\<rparr>"
      with q run have "r = Err AMQP_STATUS_NO_MEMORY" "s' = t" by (auto simp: or_return_def run_and_then)
      moreover have "mem_step s t"
        using t by (simp add: mem_step_def mem_step_minus_def handed_def foreign_def unowned_def)
      ultimately show ?thesis using off by (simp add: rd_step_def)
    next
      fix b assume b: "q = Ok (Some b)"
      note 1 = c_malloc_scratch [OF s(1) q [unfolded b]]
      from q run b have loop: "decode_entries (Suc (view_len v)) sz pre body (rd_off t + unat size) al b [] t = (r, s')"
        by (simp add: or_return_def run_and_then)
      have "returns r \<and> scratch_step b t s' \<and> (\<forall>a. r = Ok a \<longrightarrow> rd_off t \<le> rd_off s' \<and> rd_off s' \<le> view_len v)"
        using s off by (intro decode_entries_reads [OF pre body 1(2,1) _ _ _ loop]) simp_all
      with 1(4) off show ?thesis by (auto simp: scratch_step_def rd_step_def)
    qed
  qed
  then show ?thesis
    using reads_and_then [OF reads_primitives(3) [OF v], of "k + 4" 0 "?loop" AMQP_STATUS_BAD_AMQP_DATA] by simp
qed

lemma reads_if: "reads v k n a \<Longrightarrow> reads v k n b \<Longrightarrow> reads v k n (if c then a else b)"
  by simp

lemma reads_primitive_then:
  assumes v: "view_ok v" and f: "\<And>a. reads v k 0 (f a)"
  shows "reads v k 0 (and_then (or_return e (amqp_decode_8 v)) f)"
  using reads_and_then_loose [OF reads_primitives(1) [OF v] f] by (rule reads_weaken) simp_all

lemma reads_primitive_then16:
  assumes v: "view_ok v" and f: "\<And>a. reads v k 0 (f a)"
  shows "reads v k 0 (and_then (or_return e (amqp_decode_16 v)) f)"
  using reads_and_then_loose [OF reads_primitives(2) [OF v] f] by (rule reads_weaken) simp_all

lemma reads_primitive_then32:
  assumes v: "view_ok v" and f: "\<And>a. reads v k 0 (f a)"
  shows "reads v k 0 (and_then (or_return e (amqp_decode_32 v)) f)"
  using reads_and_then_loose [OF reads_primitives(3) [OF v] f] by (rule reads_weaken) simp_all

lemma reads_primitive_then64:
  assumes v: "view_ok v" and f: "\<And>a. reads v k 0 (f a)"
  shows "reads v k 0 (and_then (or_return e (amqp_decode_64 v)) f)"
  using reads_and_then_loose [OF reads_primitives(4) [OF v] f] by (rule reads_weaken) simp_all

lemma reads_bytes_then:
  assumes v: "view_ok v" and f: "\<And>a. reads v k 0 (f a)"
  shows "reads v k 0 (and_then (or_return e (amqp_decode_bytes v n)) f)"
  using reads_and_then_loose [OF reads_primitives(5) [OF v] f] by (rule reads_weaken) simp_all

lemmas reads_intros = reads_if reads_primitive_then reads_primitive_then16 reads_primitive_then32
  reads_primitive_then64 reads_bytes_then reads_ret reads_raise

lemma reads_decode_scalar: "view_ok v \<Longrightarrow> reads v k 0 (decode_scalar v kd)"
  unfolding decode_scalar_def Let_def and_then_assoc by (intro reads_intros)

lemma reads_decode_field_value: "view_ok v \<Longrightarrow> k < d \<Longrightarrow> reads v k 1 (decode_field_value d v)"
proof (induction d arbitrary: k)
  case (Suc d)
  have arr: "reads v j 0 (decode_array (decode_field_value d v) v)" if "j < d" for j
    unfolding decode_array_def
    by (rule reads_weaken [OF reads_decode_list [OF Suc.prems(1) reads_ret Suc.IH [OF Suc.prems(1) that]]]) simp_all
  have entry: "reads v j 1 (and_then (or_return AMQP_STATUS_BAD_AMQP_DATA (amqp_decode_bytes v n))
      (\<lambda>key. and_then (decode_field_value d v) (\<lambda>x. ret (Entry key x))))" if "j < d" for j n
    using reads_and_then_loose [OF reads_primitives(5) [OF Suc.prems(1)]
      reads_and_then_loose [OF Suc.IH [OF Suc.prems(1) that] reads_ret]] by (rule reads_weaken) simp_all
  have tab: "reads v j 0 (decode_table (decode_field_value d v) v)" if "j < d" for j
    unfolding decode_table_def
    by (rule reads_weaken [OF reads_decode_list [OF Suc.prems(1) reads_primitives(1) [OF Suc.prems(1)] entry [OF that]]])
      simp_all
  have "reads v (k - 1) 0 (if kd = AMQP_FIELD_KIND_ARRAY then
         and_then (decode_array (decode_field_value d v) v) (\<lambda>es. ret (Field_array es))
       else if kd = AMQP_FIELD_KIND_TABLE then
         and_then (decode_table (decode_field_value d v) v) (\<lambda>es. ret (Field_table es))
       else decode_scalar v kd)" if "1 \<le> k" for kd
  proof -
    have j: "k - 1 < d" using that Suc.prems(2) by simp
    have "reads v (k - 1) 0 (and_then (decode_array (decode_field_value d v) v) (\<lambda>es. ret (Field_array es)))"
      "reads v (k - 1) 0 (and_then (decode_table (decode_field_value d v) v) (\<lambda>es. ret (Field_table es)))"
      using reads_and_then_loose [OF arr [OF j] reads_ret [where x = "Field_array es" for es]]
        reads_and_then_loose [OF tab [OF j] reads_ret [where x = "Field_table es" for es]] by simp_all
    then show ?thesis using reads_decode_scalar [OF Suc.prems(1)] by simp
  qed
  then show ?case
    using reads_and_then [OF reads_primitives(1) [OF Suc.prems(1)]] by fastforce
qed simp

lemma reads_amqp_decode_field_value:
  "view_ok v \<Longrightarrow> reads v (view_len v) 1 (amqp_decode_field_value v)"
  unfolding amqp_decode_field_value_def by (rule reads_decode_field_value) simp_all

lemma reads_amqp_decode_table:
  assumes v: "view_ok v" shows "reads v (view_len v) 4 (amqp_decode_table v)"
proof -
  have "reads v (view_len v) 1 (and_then (or_return AMQP_STATUS_BAD_AMQP_DATA (amqp_decode_bytes v n))
      (\<lambda>key. and_then (amqp_decode_field_value v) (\<lambda>x. ret (Entry key x))))" for n
    using reads_and_then_loose [OF reads_primitives(5) [OF v]
      reads_and_then_loose [OF reads_amqp_decode_field_value [OF v] reads_ret]] by (rule reads_weaken) simp_all
  from reads_decode_list [OF v reads_primitives(1) [OF v] this] show ?thesis
    unfolding amqp_decode_table_def decode_table_def by (rule reads_weaken) simp_all
qed


section \<open>Decoding what was encoded\<close>

lemma freeing_Ok: "m s = (Ok a, s') \<Longrightarrow> freeing b m s = (Ok a, s')"
  by (simp add: freeing_def)

lemma granting_minus: "scratch_step b s s' \<Longrightarrow> granting s \<Longrightarrow> granting s'"
  by (simp add: scratch_step_def mem_step_minus_def granting_def)

lemma grow_granting:
  assumes s: "pool_inv s" "foreign s b" "granting s"
  obtains al' b' s' where "grow_entries sz n al b s = (Ok (al', b'), s')" "pool_inv s'" "foreign s' b'"
    "granting s'" "rd_off s' = rd_off s" "\<forall>u. scratch_step b' s' u \<longrightarrow> scratch_step b s u"
proof -
  obtain r s' where run: "grow_entries sz n al b s = (r, s')" by fastforce
  have gr: "granting s'" and no: "r \<noteq> Err e" for e
    using run s by (auto simp: grow_entries_def freeing_def or_return_def run_and_then c_realloc_def Let_def
        granting_def foreign_def c_free_def split: if_splits prod.splits)
  from s(1,2) run show thesis
  proof (cases rule: grow_entries_cases)
    case (Ok al' b')
    with gr run that show ?thesis by blast
  qed (use no in blast)
qed

lemma copy_granting:
  assumes "pool_inv s" and "granting s" and "0 < sz"
  obtains s' where "copy_to_pool sz n s = (Ok (), s')" "rd_off s' = rd_off s" "mem_step s s'"
proof -
  obtain r s' where run: "amqp_pool_alloc (n * sz) s = (r, s')" by fastforce
  have m: "mem_step s s'" using safeD [OF safe_amqp_pool_alloc assms(1) run] by blast
  show thesis
  proof (cases "n * sz = 0")
    case True
    then have "r = Ok None" "s' = s" using run by (auto simp: amqp_pool_alloc_def)
    with True run that assms(3) show ?thesis by (simp add: copy_to_pool_def run_and_then)
  next
    case False
    then obtain a where "r = Ok (Some a)"
      using pool_alloc_granting [of s "n * sz"] assms run by (auto simp: granting_def)
    with run m that [of s'] pool_alloc_off [OF run] show ?thesis by (simp add: copy_to_pool_def run_and_then)
  qed
qed

lemma decode_entries_parses:
  assumes each: "\<And>x. x \<in> set xs \<Longrightarrow> \<exists>p pb bb. eb x = pb @ bb \<and> bb \<noteq> [] \<and> parses v pre pb p \<and> parses v (body p) bb x"
    and sz: "0 < sz"
  shows "pool_inv s \<Longrightarrow> granting s \<Longrightarrow> foreign s b \<Longrightarrow> holds v (rd_off s) (concat (map eb xs)) \<Longrightarrow>
    length xs < n \<Longrightarrow>
    \<exists>s'. decode_entries n sz pre body (rd_off s + length (concat (map eb xs))) al b es s = (Ok (es @ xs), s') \<and>
      rd_off s' = rd_off s + length (concat (map eb xs)) \<and> scratch_step b s s'"
  using each
proof (induction xs arbitrary: s n al b es)
  case Nil
  then obtain m where n: "n = Suc m" by (cases n) auto
  obtain t where t: "copy_to_pool sz (length es) s = (Ok (), t)" "rd_off t = rd_off s" "mem_step s t"
    using Nil.prems(1,2) sz by (rule copy_granting)
  have "pool_inv t" "foreign t b" using Nil.prems t(3) by (auto dest: mem_step_inv mem_step_foreign)
  then obtain u where "c_free (Some b) t = (Ok (), u)" "scratch_step b t u" "rd_off u = rd_off t"
    by (rule free_scratch)
  moreover have "rd_step s t" using t by (simp add: rd_step_def)
  ultimately show ?case
    using n t by (auto simp: and_then_Ok freeing_Ok intro: rd_scratch)
next
  case (Cons x xs)
  then obtain m where n: "n = Suc m" by (cases n) auto
  obtain p pb bb where eb: "eb x = pb @ bb" "bb \<noteq> []" and pre: "parses v pre pb p" and body: "parses v (body p) bb x"
    using Cons.prems(6) [of x] by auto
  let ?rest = "concat (map eb xs)"
  let ?limit = "rd_off s + length (concat (map eb (x # xs)))"
  have "rd_off s < ?limit" using eb by simp
  have h: "holds v (rd_off s) pb" "holds v (rd_off s + length pb) bb" "holds v (rd_off s + length pb + length bb) ?rest"
    using Cons.prems(4) by (simp_all add: eb holds_append add.assoc)
  obtain t where t: "pre s = (Ok p, t)" "rd_off t = rd_off s + length pb" "mem_step s t" "pool_inv t" "granting t"
    using pre Cons.prems(1,2) h(1) by (rule parsesE)
  have ft: "foreign t b" "rd_step s t" using t Cons.prems by (auto dest: mem_step_foreign simp: rd_step_def)
  obtain al2 b2 t2 where t2: "grow_entries sz (length es) al b t = (Ok (al2, b2), t2)" "pool_inv t2"
    "foreign t2 b2" "granting t2" "rd_off t2 = rd_off t" "\<forall>u. scratch_step b2 t2 u \<longrightarrow> scratch_step b t u"
    using t(4) ft(1) t(5) by (rule grow_granting [where sz = sz and n = "length es" and al = al])
  have "holds v (rd_off t2) bb" using h(2) t(2) t2(5) by simp
  with body t2(2,4) obtain t3 where t3: "body p t2 = (Ok x, t3)" "rd_off t3 = rd_off t2 + length bb" "mem_step t2 t3"
    "pool_inv t3" "granting t3" by (rule parsesE)
  have ft3: "foreign t3 b2" "rd_step t2 t3" using t3 t2 by (auto dest: mem_step_foreign simp: rd_step_def)
  have "holds v (rd_off t3) ?rest" "rd_off t3 + length ?rest = ?limit"
    using h(3) t(2) t2(5) t3(2) eb by (simp_all add: add.assoc)
  with Cons.IH [of t3 b2 m al2 "es @ [x]"] Cons.prems(5,6) n t3(4,5) ft3(1)
  obtain s' where s': "decode_entries m sz pre body ?limit al2 b2 (es @ [x]) t3 = (Ok (es @ x # xs), s')"
    "rd_off s' = ?limit" "scratch_step b2 t3 s'" by auto
  have "scratch_step b s s'" using s'(3) ft3(2) t2(6) ft(2) by (blast intro: rd_scratch)
  moreover have "decode_entries n sz pre body ?limit al b es s = (Ok (es @ x # xs), s')"
    using n \<open>rd_off s < ?limit\<close> t(1) t2(1) t3(1) s'(1) by (simp add: and_then_Ok freeing_Ok)
  ultimately show ?case using s'(2) by blast
qed

lemma unat_length: "length bs < 2 ^ 32 \<Longrightarrow> unat (word_of_nat (length bs) :: u32) = length bs"
  by (simp add: unat_of_nat take_bit_eq_mod)

lemma unat_length8: "length bs < 256 \<Longrightarrow> unat (word_of_nat (length bs) :: u8) = length bs"
  by (simp add: unat_of_nat take_bit_eq_mod)

lemma length_concat_ge: "(\<And>x. x \<in> set xs \<Longrightarrow> eb x \<noteq> []) \<Longrightarrow> length xs \<le> length (concat (map eb xs))"
proof (induction xs)
  case (Cons x xs)
  then have "1 \<le> length (eb x)" by (cases "eb x") auto
  with Cons show ?case by fastforce
qed simp

lemma parses_decode_list:
  assumes each: "\<And>x. x \<in> set xs \<Longrightarrow> \<exists>p pb bb. eb x = pb @ bb \<and> bb \<noteq> [] \<and> parses v pre pb p \<and> parses v (body p) bb x"
    and sz: "0 < sz" and len: "length (concat (map eb xs)) < 2 ^ 32"
  shows "parses v (and_then (or_return AMQP_STATUS_BAD_AMQP_DATA (amqp_decode_32 v)) (\<lambda>size.
     and_then (or_return AMQP_STATUS_NO_MEMORY (c_malloc c)) (\<lambda>entries.
     and_then rd_offset (\<lambda>offset.
     decode_entries (Suc (view_len v)) sz pre body (offset + unat size) al entries []))))
     (sized (concat (map eb xs))) xs"
  unfolding sized_def
proof (rule parses_and_then [OF parses_primitives(3)], rule parsesI)
  let ?bs = "concat (map eb xs)"
  fix s :: rd assume s: "pool_inv s" "granting s" "holds v (rd_off s) ?bs"
  obtain b t where q: "c_malloc c s = (Ok (Some b), t)"
    using s(2) by (auto simp: c_malloc_def granting_def Let_def)
  have off: "rd_off t = rd_off s" using q by (rule c_malloc_off)
  have gr: "granting t" using q s(2) by (auto simp: c_malloc_def granting_def Let_def split: if_splits)
  note 1 = c_malloc_scratch [OF s(1) q]
  have "length xs \<le> length ?bs" using each by (intro length_concat_ge) fastforce
  also have "\<dots> \<le> view_len v" using s(3) by (simp add: holds_def)
  finally have n: "length xs < Suc (view_len v)" by simp
  have h: "holds v (rd_off t) ?bs" using s(3) off by simp
  obtain s' where "decode_entries (Suc (view_len v)) sz pre body (rd_off t + length ?bs) al b [] t = (Ok xs, s')"
    "rd_off s' = rd_off t + length ?bs" "scratch_step b t s'"
    using decode_entries_parses [where n = "Suc (view_len v)" and es = "[]" and al = al, OF each sz 1(2) gr 1(1) h n] by auto
  then show "\<exists>s'. and_then (or_return AMQP_STATUS_NO_MEMORY (c_malloc c)) (\<lambda>entries. and_then rd_offset (\<lambda>offset.
       decode_entries (Suc (view_len v)) sz pre body (offset + unat (word_of_nat (length ?bs) :: u32)) al entries [])) s =
       (Ok xs, s') \<and> rd_off s' = rd_off s + length ?bs \<and> mem_step s s'"
    using q off 1(4) len by (auto simp: unat_length or_return_def run_and_then scratch_step_def simp del: decode_entries.simps)
qed

text \<open>The values that survive the trip: strings, arrays and keys whose length fits its field.\<close>

fun wf_value :: "amqp_field_value \<Rightarrow> bool"
and wf_entry :: "amqp_table_entry \<Rightarrow> bool" where
  "wf_value (Field_utf8 b) = (length b < 2 ^ 32)"
| "wf_value (Field_bytes b) = (length b < 2 ^ 32)"
| "wf_value (Field_array es) = ((\<forall>e\<in>set es. wf_value e) \<and> length (array_bytes es) < 2 ^ 32)"
| "wf_value (Field_table es) = ((\<forall>e\<in>set es. wf_entry e) \<and> length (table_bytes es) < 2 ^ 32)"
| "wf_value (Field_other k) = False"
| "wf_value _ = True"
| "wf_entry (Entry key x) = (length key < 256 \<and> wf_value x)"

definition wf_table :: "amqp_table \<Rightarrow> bool" where
  "wf_table es \<longleftrightarrow> list_all wf_entry es \<and> length (table_bytes es) < 2 ^ 32"

fun entry_bytes :: "amqp_table_entry \<Rightarrow> bytes" where
  "entry_bytes (Entry key x) = be8 (word_of_nat (length key)) @ key @ field_bytes x"

lemma array_bytes_concat: "array_bytes es = concat (map field_bytes es)"
  by (induction es) simp_all

lemma table_bytes_concat: "table_bytes es = concat (map entry_bytes es)"
proof (induction es)
  case (Cons e es)
  then show ?case by (cases e) simp
qed simp

lemma wf_encodable:
  shows "wf_value e \<Longrightarrow> encodable e" and "wf_entry t \<Longrightarrow> encodable_entry t"
  by (induction e and t rule: encodable_encodable_entry.induct) auto

lemma parses_eq: "parses v m bs x \<Longrightarrow> bs = cs \<Longrightarrow> parses v m cs x"
  by simp

lemma parses_then_ret: "parses v m bs a \<Longrightarrow> x = f a \<Longrightarrow> parses v (and_then m (\<lambda>y. ret (f y))) bs x"
  using parses_and_then [OF _ parses_ret, of v m bs a f] by (simp del: run_ret)

lemma parses_long_bytes:
  "length b < 2 ^ 32 \<Longrightarrow> parses v (and_then (or_return e (amqp_decode_32 v))
     (\<lambda>len. or_return e (amqp_decode_bytes v (unat len)))) (sized b) b"
  unfolding sized_def
  by (rule parses_and_then [OF parses_primitives(3)]) (simp add: parses_primitives unat_length)

lemma kinds_distinct [simp]: "distinct known_kinds"
  by (simp add: known_kinds_def kind_defs)

lemma parses_scalar:
  assumes "wf_value e" and "\<nexists>es. e = Field_array es" and "\<nexists>es. e = Field_table es"
  shows "parses v (decode_scalar v (kind e)) (value_bytes e) e"
  using assms
  by (cases e) (auto simp: decode_scalar_def kind_defs parses_ret simp del: run_ret
      intro!: parses_then_ret [OF parses_primitives(1)] parses_then_ret [OF parses_primitives(2)]
        parses_then_ret [OF parses_primitives(3)] parses_then_ret [OF parses_primitives(4)]
        parses_then_ret [OF parses_long_bytes]
        parses_and_then [OF parses_primitives(1) parses_then_ret [OF parses_primitives(3)]])

lemma field_bytes_not_Nil [simp]: "field_bytes x \<noteq> []"
  by (simp add: be8_def)

lemma parses_decode_array:
  assumes dec: "\<And>x. wf_value x \<Longrightarrow> length (field_bytes x) \<le> length (array_bytes es) \<Longrightarrow> parses v dec (field_bytes x) x"
    and wf: "\<forall>e\<in>set es. wf_value e" "length (array_bytes es) < 2 ^ 32"
  shows "parses v (decode_array dec v) (sized (array_bytes es)) es"
proof -
  have "\<exists>p pb bb. field_bytes x = pb @ bb \<and> bb \<noteq> [] \<and> parses v (ret ()) pb p \<and> parses v dec bb x"
    if x: "x \<in> set es" for x
  proof -
    have "length (field_bytes x) \<le> length (array_bytes es)"
      using x by (auto simp: array_bytes_concat length_concat comp_def intro!: member_le_sum_list)
    then have "parses v dec (field_bytes x) x" using x wf(1) dec by blast
    then show ?thesis using parses_ret field_bytes_not_Nil by (metis append_Nil)
  qed
  then show ?thesis
    unfolding decode_array_def array_bytes_concat using wf(2)
    by (intro parses_decode_list) (simp_all add: sizeof_field_value_def array_bytes_concat)
qed

lemma parses_decode_table:
  assumes dec: "\<And>x. wf_value x \<Longrightarrow> length (field_bytes x) \<le> length (table_bytes es) \<Longrightarrow> parses v dec (field_bytes x) x"
    and wf: "\<forall>e\<in>set es. wf_entry e" "length (table_bytes es) < 2 ^ 32"
  shows "parses v (decode_table dec v) (sized (table_bytes es)) es"
proof -
  have "\<exists>p pb bb. entry_bytes x = pb @ bb \<and> bb \<noteq> [] \<and>
      parses v (or_return AMQP_STATUS_BAD_AMQP_DATA (amqp_decode_8 v)) pb p \<and>
      parses v (and_then (or_return AMQP_STATUS_BAD_AMQP_DATA (amqp_decode_bytes v (unat p)))
        (\<lambda>key. and_then dec (\<lambda>y. ret (Entry key y)))) bb x" if x: "x \<in> set es" for x
  proof -
    obtain key y where e: "x = Entry key y" by (cases x)
    have k: "length key < 256" "wf_value y" using x e wf(1) by auto
    have "length (field_bytes y) \<le> length (entry_bytes x)" by (simp add: e)
    also have "\<dots> \<le> length (table_bytes es)"
      using x by (auto simp: table_bytes_concat length_concat comp_def intro!: member_le_sum_list)
    finally have "parses v dec (field_bytes y) y" using k dec by blast
    then have "parses v (and_then (or_return AMQP_STATUS_BAD_AMQP_DATA (amqp_decode_bytes v (length key)))
        (\<lambda>key. and_then dec (\<lambda>y. ret (Entry key y)))) (key @ field_bytes y) x"
      by (intro parses_and_then [where a = key] parses_primitives parses_then_ret) (simp_all add: e)
    then have "entry_bytes x = be8 (word_of_nat (length key)) @ (key @ field_bytes y) \<and>
        key @ field_bytes y \<noteq> [] \<and>
        parses v (or_return AMQP_STATUS_BAD_AMQP_DATA (amqp_decode_8 v)) (be8 (word_of_nat (length key)))
          (word_of_nat (length key)) \<and>
        parses v (and_then (or_return AMQP_STATUS_BAD_AMQP_DATA (amqp_decode_bytes v
            (unat (word_of_nat (length key) :: u8))))
          (\<lambda>key. and_then dec (\<lambda>y. ret (Entry key y)))) (key @ field_bytes y) x"
      using k(1) by (simp add: e parses_primitives unat_length8 be8_def [of "kind y"] del: run_ret)
    then show ?thesis by blast
  qed
  then show ?thesis
    unfolding decode_table_def table_bytes_concat using wf(2)
    by (intro parses_decode_list) (simp_all add: sizeof_table_entry_def table_bytes_concat)
qed

lemma parses_decode_field_value:
  "wf_value e \<Longrightarrow> length (field_bytes e) \<le> d \<Longrightarrow> parses v (decode_field_value d v) (field_bytes e) e"
proof (induction d arbitrary: e)
  case 0
  then show ?case by simp
next
  case (Suc d)
  have kinds: "AMQP_FIELD_KIND_TABLE \<noteq> AMQP_FIELD_KIND_ARRAY" by (simp add: kind_defs)
  have len: "length (value_bytes e) \<le> d" using Suc.prems(2) by simp
  show ?case
    unfolding field_bytes.simps decode_field_value.simps
  proof (rule parses_and_then [OF parses_primitives(1)])
    consider (arr) es where "e = Field_array es" | (tab) es where "e = Field_table es"
      | (scalar) "\<nexists>es. e = Field_array es" "\<nexists>es. e = Field_table es" by blast
    then show "parses v (if kind e = AMQP_FIELD_KIND_ARRAY then
         and_then (decode_array (decode_field_value d v) v) (\<lambda>es. ret (Field_array es))
       else if kind e = AMQP_FIELD_KIND_TABLE then
         and_then (decode_table (decode_field_value d v) v) (\<lambda>es. ret (Field_table es))
       else decode_scalar v (kind e)) (value_bytes e) e"
    proof cases
      case arr
      have "parses v (decode_array (decode_field_value d v) v) (sized (array_bytes es)) es"
        using Suc.prems(1) len arr by (intro parses_decode_array Suc.IH) (auto simp: sized_def)
      with arr show ?thesis by (simp add: parses_then_ret)
    next
      case tab
      have "parses v (decode_table (decode_field_value d v) v) (sized (table_bytes es)) es"
        using Suc.prems(1) len tab by (intro parses_decode_table Suc.IH) (auto simp: sized_def)
      with tab kinds show ?thesis by (simp add: parses_then_ret)
    next
      case scalar
      have "kind e \<noteq> AMQP_FIELD_KIND_ARRAY" "kind e \<noteq> AMQP_FIELD_KIND_TABLE"
        using scalar Suc.prems(1) by (cases e; simp add: kind_defs)+
      with scalar Suc.prems(1) show ?thesis by (simp add: parses_scalar)
    qed
  qed
qed

lemma parses_if_holds:
  assumes "length bs \<le> view_len v \<Longrightarrow> parses v m bs x"
  shows "parses v m bs x"
proof (cases "length bs \<le> view_len v")
  case False
  then show ?thesis by (simp add: parses_def holds_def)
qed (rule assms)

lemma parses_amqp_decode_table: "wf_table es \<Longrightarrow> parses v (amqp_decode_table v) (sized (table_bytes es)) es"
proof (rule parses_if_holds)
  assume wf: "wf_table es" and len: "length (sized (table_bytes es)) \<le> view_len v"
  then show "parses v (amqp_decode_table v) (sized (table_bytes es)) es"
    unfolding amqp_decode_table_def amqp_decode_field_value_def
    by (intro parses_decode_table parses_decode_field_value) (auto simp: wf_table_def list_all_iff sized_def)
qed

lemma emits_amqp_encode_table:
  "list_all encodable_entry es \<Longrightarrow> emits (amqp_encode_table es) (sized (table_bytes es))"
  unfolding amqp_encode_table_def by (intro emits_with_size emits_field full_fails_table)

lemma wf_table_encodable: "wf_table es \<Longrightarrow> list_all encodable_entry es"
  by (auto simp: wf_table_def list_all_iff intro: wf_encodable)

interpretation table_codec: wire_codec amqp_encode_table amqp_decode_table "\<lambda>es. sized (table_bytes es)" wf_table
  by unfold_locales (simp_all add: emits_amqp_encode_table wf_table_encodable parses_amqp_decode_table)

interpretation field_codec: wire_codec amqp_encode_field_value amqp_decode_field_value field_bytes wf_value
proof
  fix x v assume wf: "wf_value x"
  then show "emits (amqp_encode_field_value x) (field_bytes x)"
    by (intro emits_field wf_encodable)
  show "parses v (amqp_decode_field_value v) (field_bytes x) x"
    unfolding amqp_decode_field_value_def
    by (rule parses_if_holds, rule parses_decode_field_value [OF wf]) simp
qed

section \<open>The order on keys\<close>

text \<open>
  \<^verbatim>\<open>memcmp\<close> compares bytes as unsigned.  The difference of the lengths is computed in 64 bits and
  returned as an \<^verbatim>\<open>int\<close>.
\<close>

fun memcmp :: "bytes \<Rightarrow> bytes \<Rightarrow> nat \<Rightarrow> int" where
  "memcmp (a # as) (b # bs) (Suc n) = (if a = b then memcmp as bs n else uint a - uint b)"
| "memcmp _ _ _ = 0"

definition amqp_table_entry_cmp :: "amqp_table_entry \<Rightarrow> amqp_table_entry \<Rightarrow> int" where
  "amqp_table_entry_cmp p1 p2 =
     (let minlen = length (entry_key p1);
          minlen = (if length (entry_key p2) < minlen then length (entry_key p2) else minlen);
          d = memcmp (entry_key p1) (entry_key p2) minlen
      in if d \<noteq> 0 then d
         else sint (ucast (word_of_nat (length (entry_key p1)) - word_of_nat (length (entry_key p2)) :: u64) :: u32))"

lemma int_of_difference:
  assumes "m < 2 ^ 31" and "n < 2 ^ 31"
  shows "sint (ucast (word_of_nat m - word_of_nat n :: u64) :: u32) = int m - int n"
proof -
  have "(word_of_nat m - word_of_nat n :: u64) = word_of_int (int m - int n)" by simp
  moreover have "(ucast (word_of_int k :: u64) :: u32) = word_of_int k" for k
    by transfer simp
  moreover have "sint (word_of_int (int m - int n) :: u32) = int m - int n"
    using assms by (simp add: signed_of_int signed_take_bit_int_eq_self_iff del: of_int_diff)
  ultimately show ?thesis by metis
qed

lemma memcmp_min:
  "memcmp xs ys (min (length xs) (length ys)) < 0 \<or>
   memcmp xs ys (min (length xs) (length ys)) = 0 \<and> length xs < length ys \<longleftrightarrow> ord_class.lexordp xs ys"
proof (induction xs ys rule: list_induct2')
  case (4 x xs y ys)
  then show ?case
    by (cases "x = y") (auto simp: word_less_def word_uint_eq_iff)
qed simp_all

lemma memcmp_eq:
  "memcmp xs ys (min (length xs) (length ys)) = 0 \<and> length xs = length ys \<longleftrightarrow> xs = ys"
proof (induction xs ys rule: list_induct2')
  case (4 x xs y ys)
  then show ?case
    by (cases "x = y") (auto simp: word_uint_eq_iff)
qed simp_all

lemma amqp_table_entry_cmp_eq:
  assumes "length (entry_key a) < 2 ^ 31" and "length (entry_key b) < 2 ^ 31"
  shows "amqp_table_entry_cmp a b =
    (let d = memcmp (entry_key a) (entry_key b) (min (length (entry_key a)) (length (entry_key b)))
     in if d \<noteq> 0 then d else int (length (entry_key a)) - int (length (entry_key b)))"
  using assms by (simp add: amqp_table_entry_cmp_def Let_def int_of_difference min_def)

section \<open>Properties\<close>

text \<open>
  C3: a table that was encoded is decoded to the same table, at the same offset, whatever its
  values and nesting, provided its keys and strings fit their length fields; the decoder frees its
  scratch arrays and changes nothing in the heap but the pool.
\<close>

theorem table_round_trip:
  assumes "wf_table es" and "wr_at s" and "wr_off s + (4 + length (table_bytes es)) \<le> wr_len s"
    and "pool_inv t" and "granting t" and "rd_off t = wr_off s"
  shows "\<exists>s' t'. amqp_encode_table es s = (Ok (), s') \<and>
    amqp_decode_table \<lparr>view_len = wr_len s', view_mem = wr_buf s'\<rparr> t = (Ok es, t') \<and>
    rd_off t' = wr_off s' \<and> mem_step t t'"
  using table_codec.round_trip [OF assms(1,2) _ assms(4-6)] assms(3) by (auto simp: sized_def)

definition sample_table :: amqp_table where
  "sample_table = [Entry [0x61] (Field_u8 5), Entry [] (Field_table [Entry [0x62, 0x63] (Field_utf8 [1, 2, 3])])]"

definition sample_wr :: wr where
  "sample_wr = \<lparr>wr_buf = replicate 64 0, wr_len = 60, wr_off = 3\<rparr>"

theorem table_round_trip_witness:
  "\<exists>s' t'. amqp_encode_table sample_table sample_wr = (Ok (), s') \<and>
    amqp_decode_table \<lparr>view_len = wr_len s', view_mem = wr_buf s'\<rparr> (start_rd\<lparr>rd_off := 3\<rparr>) = (Ok sample_table, t') \<and>
    rd_off t' = wr_off s' \<and> mem_step (start_rd\<lparr>rd_off := 3\<rparr>) t'"
  by (rule table_round_trip)
    (simp_all add: sample_table_def wf_table_def sample_wr_def wr_at_def wr_ok_def sized_def granting_def start_rd_def [THEN arg_cong, of grants])

text \<open>
  Decoding a table from any bytes whatsoever (truncated, oversized, with wrong length fields,
  nested without end) returns: with a table and an offset inside the view, or with an error.  It
  never reads outside the view, and on every path it frees what it allocated.
\<close>

theorem decode_table_any_bytes:
  assumes "view_ok v"
  shows "reads v (view_len v) 4 (amqp_decode_table v)"
  using assms by (rule reads_amqp_decode_table)

theorem decode_table_any_bytes_witness:
  "reads \<lparr>view_len = 6, view_mem = [0, 0, 1, 0, 5, 0x41]\<rparr> 6 4 (amqp_decode_table \<lparr>view_len = 6, view_mem = [0, 0, 1, 0, 5, 0x41]\<rparr>)"
  using decode_table_any_bytes [of "\<lparr>view_len = 6, view_mem = [0, 0, 1, 0, 5, 0x41]\<rparr>"] by (simp add: view_ok_def)

text \<open>
  C7: encoding a table of known kinds writes its size, then its entries in order, each as key
  length, key, kind and value; when the buffer is too short it fails with an error and leaves the
  bytes before the offset alone.
\<close>

theorem encode_table_wire_format:
  assumes "list_all encodable_entry es"
  shows "emits (amqp_encode_table es) (sized (table_bytes es))"
  using assms by (rule emits_amqp_encode_table)

theorem encode_table_wire_format_witness:
  "emits (amqp_encode_table sample_table) (sized (table_bytes sample_table))"
  by (rule encode_table_wire_format) (simp add: sample_table_def)

text \<open>
  Whatever the value to encode, a table entry of an unknown kind included, the encoder stays
  within its buffer and returns.
\<close>

theorem encode_field_value_safe: "safe wr_ok wr_step (amqp_encode_field_value e)"
  by (rule safe_encode_field)

text \<open>
  On keys shorter than 2 GB \<^verbatim>\<open>amqp_table_entry_cmp\<close> is the lexicographic order of the key
  bytes: negative exactly when the first key is smaller, zero exactly when the keys are equal.
\<close>

theorem table_entry_cmp_order:
  assumes "length (entry_key a) < 2 ^ 31" and "length (entry_key b) < 2 ^ 31"
  shows "(amqp_table_entry_cmp a b < 0 \<longleftrightarrow> ord_class.lexordp (entry_key a) (entry_key b)) \<and>
    (amqp_table_entry_cmp a b = 0 \<longleftrightarrow> entry_key a = entry_key b)"
  using memcmp_min [of "entry_key a" "entry_key b"] memcmp_eq [of "entry_key a" "entry_key b"]
  by (auto simp: amqp_table_entry_cmp_eq [OF assms] Let_def)

theorem table_entry_cmp_order_witness:
  "(amqp_table_entry_cmp (Entry [1, 2] Field_void) (Entry [1, 2, 0] Field_void) < 0 \<longleftrightarrow>
      ord_class.lexordp (entry_key (Entry [1, 2] Field_void)) (entry_key (Entry [1, 2, 0] Field_void))) \<and>
   (amqp_table_entry_cmp (Entry [1, 2] Field_void) (Entry [1, 2, 0] Field_void) = 0 \<longleftrightarrow>
      entry_key (Entry [1, 2] Field_void) = entry_key (Entry [1, 2, 0] Field_void))"
  by (rule table_entry_cmp_order) simp_all

text \<open>
  A key of 256 bytes is accepted by the encoder but written with length byte 0, so the peer
  reads an empty key and takes the key's bytes for a value.
\<close>

theorem overlong_key_is_truncated:
  assumes "length key = 256" and "wr_at s" and "wr_off s + 262 \<le> wr_len s"
  shows "amqp_encode_table [Entry key Field_void] s =
    (Ok (), written s (be32 258 @ [0] @ key @ [AMQP_FIELD_KIND_VOID]))"
proof -
  have "emits (amqp_encode_table [Entry key Field_void]) (sized (table_bytes [Entry key Field_void]))"
    by (rule emits_amqp_encode_table) simp
  moreover have "sized (table_bytes [Entry key Field_void]) = be32 258 @ [0] @ key @ [AMQP_FIELD_KIND_VOID]"
    using assms(1) by (simp add: sized_def be8_def)
  ultimately show ?thesis using assms by (intro emits_fits) simp_all
qed

theorem overlong_key_is_truncated_witness:
  "amqp_encode_table [Entry (replicate 256 0x61) Field_void] \<lparr>wr_buf = replicate 300 0, wr_len = 300, wr_off = 0\<rparr> =
    (Ok (), written \<lparr>wr_buf = replicate 300 0, wr_len = 300, wr_off = 0\<rparr>
      (be32 258 @ [0] @ replicate 256 0x61 @ [AMQP_FIELD_KIND_VOID]))"
  by (rule overlong_key_is_truncated) (simp_all add: wr_at_def wr_ok_def)

end
