(* ===== verification/Framing.thy ===== *)
theory Framing
  imports Table
begin

text \<open>
  The methods of \<^verbatim>\<open>amqp_framing.c\<close> and \<^verbatim>\<open>amqp_framing.h\<close>: method numbers, one struct per
  method that has fields, the decoder and the encoder of each, and the two \<^verbatim>\<open>switch\<close> statements.

  \<^verbatim>\<open>amqp_decode_method\<close> stores a pointer to a struct through a \<^verbatim>\<open>void **\<close>: \<^verbatim>\<open>NULL\<close> for the methods
  without fields, here \<open>None\<close>.  A struct type is a constructor of \<open>amqp_method_struct\<close> with the
  fields in the order of the C declaration.  \<^verbatim>\<open>amqp_encode_method\<close> casts its \<^verbatim>\<open>void *\<close> to the struct
  the method number calls for; a pointer to anything else, or \<^verbatim>\<open>NULL\<close>, is undefined.
\<close>

unbundle bit_operations_syntax

section \<open>Method numbers\<close>

definition AMQP_CONNECTION_START_METHOD :: u32 where "AMQP_CONNECTION_START_METHOD = 0x000A000A"
definition AMQP_CONNECTION_START_OK_METHOD :: u32 where "AMQP_CONNECTION_START_OK_METHOD = 0x000A000B"
definition AMQP_CONNECTION_SECURE_METHOD :: u32 where "AMQP_CONNECTION_SECURE_METHOD = 0x000A0014"
definition AMQP_CONNECTION_SECURE_OK_METHOD :: u32 where "AMQP_CONNECTION_SECURE_OK_METHOD = 0x000A0015"
definition AMQP_CONNECTION_TUNE_METHOD :: u32 where "AMQP_CONNECTION_TUNE_METHOD = 0x000A001E"
definition AMQP_CONNECTION_TUNE_OK_METHOD :: u32 where "AMQP_CONNECTION_TUNE_OK_METHOD = 0x000A001F"
definition AMQP_CONNECTION_OPEN_METHOD :: u32 where "AMQP_CONNECTION_OPEN_METHOD = 0x000A0028"
definition AMQP_CONNECTION_OPEN_OK_METHOD :: u32 where "AMQP_CONNECTION_OPEN_OK_METHOD = 0x000A0029"
definition AMQP_CONNECTION_CLOSE_METHOD :: u32 where "AMQP_CONNECTION_CLOSE_METHOD = 0x000A0032"
definition AMQP_CONNECTION_CLOSE_OK_METHOD :: u32 where "AMQP_CONNECTION_CLOSE_OK_METHOD = 0x000A0033"
definition AMQP_CHANNEL_OPEN_METHOD :: u32 where "AMQP_CHANNEL_OPEN_METHOD = 0x0014000A"
definition AMQP_CHANNEL_OPEN_OK_METHOD :: u32 where "AMQP_CHANNEL_OPEN_OK_METHOD = 0x0014000B"
definition AMQP_CHANNEL_FLOW_METHOD :: u32 where "AMQP_CHANNEL_FLOW_METHOD = 0x00140014"
definition AMQP_CHANNEL_FLOW_OK_METHOD :: u32 where "AMQP_CHANNEL_FLOW_OK_METHOD = 0x00140015"
definition AMQP_CHANNEL_CLOSE_METHOD :: u32 where "AMQP_CHANNEL_CLOSE_METHOD = 0x00140028"
definition AMQP_CHANNEL_CLOSE_OK_METHOD :: u32 where "AMQP_CHANNEL_CLOSE_OK_METHOD = 0x00140029"
definition AMQP_ACCESS_REQUEST_METHOD :: u32 where "AMQP_ACCESS_REQUEST_METHOD = 0x001E000A"
definition AMQP_ACCESS_REQUEST_OK_METHOD :: u32 where "AMQP_ACCESS_REQUEST_OK_METHOD = 0x001E000B"
definition AMQP_EXCHANGE_DECLARE_METHOD :: u32 where "AMQP_EXCHANGE_DECLARE_METHOD = 0x0028000A"
definition AMQP_EXCHANGE_DECLARE_OK_METHOD :: u32 where "AMQP_EXCHANGE_DECLARE_OK_METHOD = 0x0028000B"
definition AMQP_EXCHANGE_DELETE_METHOD :: u32 where "AMQP_EXCHANGE_DELETE_METHOD = 0x00280014"
definition AMQP_EXCHANGE_DELETE_OK_METHOD :: u32 where "AMQP_EXCHANGE_DELETE_OK_METHOD = 0x00280015"
definition AMQP_EXCHANGE_BIND_METHOD :: u32 where "AMQP_EXCHANGE_BIND_METHOD = 0x0028001E"
definition AMQP_EXCHANGE_BIND_OK_METHOD :: u32 where "AMQP_EXCHANGE_BIND_OK_METHOD = 0x0028001F"
definition AMQP_EXCHANGE_UNBIND_METHOD :: u32 where "AMQP_EXCHANGE_UNBIND_METHOD = 0x00280028"
definition AMQP_EXCHANGE_UNBIND_OK_METHOD :: u32 where "AMQP_EXCHANGE_UNBIND_OK_METHOD = 0x00280033"
definition AMQP_QUEUE_DECLARE_METHOD :: u32 where "AMQP_QUEUE_DECLARE_METHOD = 0x0032000A"
definition AMQP_QUEUE_DECLARE_OK_METHOD :: u32 where "AMQP_QUEUE_DECLARE_OK_METHOD = 0x0032000B"
definition AMQP_QUEUE_BIND_METHOD :: u32 where "AMQP_QUEUE_BIND_METHOD = 0x00320014"
definition AMQP_QUEUE_BIND_OK_METHOD :: u32 where "AMQP_QUEUE_BIND_OK_METHOD = 0x00320015"
definition AMQP_QUEUE_PURGE_METHOD :: u32 where "AMQP_QUEUE_PURGE_METHOD = 0x0032001E"
definition AMQP_QUEUE_PURGE_OK_METHOD :: u32 where "AMQP_QUEUE_PURGE_OK_METHOD = 0x0032001F"
definition AMQP_QUEUE_DELETE_METHOD :: u32 where "AMQP_QUEUE_DELETE_METHOD = 0x00320028"
definition AMQP_QUEUE_DELETE_OK_METHOD :: u32 where "AMQP_QUEUE_DELETE_OK_METHOD = 0x00320029"
definition AMQP_QUEUE_UNBIND_METHOD :: u32 where "AMQP_QUEUE_UNBIND_METHOD = 0x00320032"
definition AMQP_QUEUE_UNBIND_OK_METHOD :: u32 where "AMQP_QUEUE_UNBIND_OK_METHOD = 0x00320033"
definition AMQP_BASIC_QOS_METHOD :: u32 where "AMQP_BASIC_QOS_METHOD = 0x003C000A"
definition AMQP_BASIC_QOS_OK_METHOD :: u32 where "AMQP_BASIC_QOS_OK_METHOD = 0x003C000B"
definition AMQP_BASIC_CONSUME_METHOD :: u32 where "AMQP_BASIC_CONSUME_METHOD = 0x003C0014"
definition AMQP_BASIC_CONSUME_OK_METHOD :: u32 where "AMQP_BASIC_CONSUME_OK_METHOD = 0x003C0015"
definition AMQP_BASIC_CANCEL_METHOD :: u32 where "AMQP_BASIC_CANCEL_METHOD = 0x003C001E"
definition AMQP_BASIC_CANCEL_OK_METHOD :: u32 where "AMQP_BASIC_CANCEL_OK_METHOD = 0x003C001F"
definition AMQP_BASIC_PUBLISH_METHOD :: u32 where "AMQP_BASIC_PUBLISH_METHOD = 0x003C0028"
definition AMQP_BASIC_RETURN_METHOD :: u32 where "AMQP_BASIC_RETURN_METHOD = 0x003C0032"
definition AMQP_BASIC_DELIVER_METHOD :: u32 where "AMQP_BASIC_DELIVER_METHOD = 0x003C003C"
definition AMQP_BASIC_GET_METHOD :: u32 where "AMQP_BASIC_GET_METHOD = 0x003C0046"
definition AMQP_BASIC_GET_OK_METHOD :: u32 where "AMQP_BASIC_GET_OK_METHOD = 0x003C0047"
definition AMQP_BASIC_GET_EMPTY_METHOD :: u32 where "AMQP_BASIC_GET_EMPTY_METHOD = 0x003C0048"
definition AMQP_BASIC_ACK_METHOD :: u32 where "AMQP_BASIC_ACK_METHOD = 0x003C0050"
definition AMQP_BASIC_REJECT_METHOD :: u32 where "AMQP_BASIC_REJECT_METHOD = 0x003C005A"
definition AMQP_BASIC_RECOVER_ASYNC_METHOD :: u32 where "AMQP_BASIC_RECOVER_ASYNC_METHOD = 0x003C0064"
definition AMQP_BASIC_RECOVER_METHOD :: u32 where "AMQP_BASIC_RECOVER_METHOD = 0x003C006E"
definition AMQP_BASIC_RECOVER_OK_METHOD :: u32 where "AMQP_BASIC_RECOVER_OK_METHOD = 0x003C006F"
definition AMQP_BASIC_NACK_METHOD :: u32 where "AMQP_BASIC_NACK_METHOD = 0x003C0078"
definition AMQP_TX_SELECT_METHOD :: u32 where "AMQP_TX_SELECT_METHOD = 0x005A000A"
definition AMQP_TX_SELECT_OK_METHOD :: u32 where "AMQP_TX_SELECT_OK_METHOD = 0x005A000B"
definition AMQP_TX_COMMIT_METHOD :: u32 where "AMQP_TX_COMMIT_METHOD = 0x005A0014"
definition AMQP_TX_COMMIT_OK_METHOD :: u32 where "AMQP_TX_COMMIT_OK_METHOD = 0x005A0015"
definition AMQP_TX_ROLLBACK_METHOD :: u32 where "AMQP_TX_ROLLBACK_METHOD = 0x005A001E"
definition AMQP_TX_ROLLBACK_OK_METHOD :: u32 where "AMQP_TX_ROLLBACK_OK_METHOD = 0x005A001F"
definition AMQP_CONFIRM_SELECT_METHOD :: u32 where "AMQP_CONFIRM_SELECT_METHOD = 0x0055000A"
definition AMQP_CONFIRM_SELECT_OK_METHOD :: u32 where "AMQP_CONFIRM_SELECT_OK_METHOD = 0x0055000B"

lemmas method_number_defs =
  AMQP_CONNECTION_START_METHOD_def AMQP_CONNECTION_START_OK_METHOD_def
  AMQP_CONNECTION_SECURE_METHOD_def AMQP_CONNECTION_SECURE_OK_METHOD_def
  AMQP_CONNECTION_TUNE_METHOD_def AMQP_CONNECTION_TUNE_OK_METHOD_def
  AMQP_CONNECTION_OPEN_METHOD_def AMQP_CONNECTION_OPEN_OK_METHOD_def
  AMQP_CONNECTION_CLOSE_METHOD_def AMQP_CONNECTION_CLOSE_OK_METHOD_def
  AMQP_CHANNEL_OPEN_METHOD_def AMQP_CHANNEL_OPEN_OK_METHOD_def AMQP_CHANNEL_FLOW_METHOD_def
  AMQP_CHANNEL_FLOW_OK_METHOD_def AMQP_CHANNEL_CLOSE_METHOD_def AMQP_CHANNEL_CLOSE_OK_METHOD_def
  AMQP_ACCESS_REQUEST_METHOD_def AMQP_ACCESS_REQUEST_OK_METHOD_def
  AMQP_EXCHANGE_DECLARE_METHOD_def AMQP_EXCHANGE_DECLARE_OK_METHOD_def
  AMQP_EXCHANGE_DELETE_METHOD_def AMQP_EXCHANGE_DELETE_OK_METHOD_def
  AMQP_EXCHANGE_BIND_METHOD_def AMQP_EXCHANGE_BIND_OK_METHOD_def AMQP_EXCHANGE_UNBIND_METHOD_def
  AMQP_EXCHANGE_UNBIND_OK_METHOD_def AMQP_QUEUE_DECLARE_METHOD_def
  AMQP_QUEUE_DECLARE_OK_METHOD_def AMQP_QUEUE_BIND_METHOD_def AMQP_QUEUE_BIND_OK_METHOD_def
  AMQP_QUEUE_PURGE_METHOD_def AMQP_QUEUE_PURGE_OK_METHOD_def AMQP_QUEUE_DELETE_METHOD_def
  AMQP_QUEUE_DELETE_OK_METHOD_def AMQP_QUEUE_UNBIND_METHOD_def AMQP_QUEUE_UNBIND_OK_METHOD_def
  AMQP_BASIC_QOS_METHOD_def AMQP_BASIC_QOS_OK_METHOD_def AMQP_BASIC_CONSUME_METHOD_def
  AMQP_BASIC_CONSUME_OK_METHOD_def AMQP_BASIC_CANCEL_METHOD_def AMQP_BASIC_CANCEL_OK_METHOD_def
  AMQP_BASIC_PUBLISH_METHOD_def AMQP_BASIC_RETURN_METHOD_def AMQP_BASIC_DELIVER_METHOD_def
  AMQP_BASIC_GET_METHOD_def AMQP_BASIC_GET_OK_METHOD_def AMQP_BASIC_GET_EMPTY_METHOD_def
  AMQP_BASIC_ACK_METHOD_def AMQP_BASIC_REJECT_METHOD_def AMQP_BASIC_RECOVER_ASYNC_METHOD_def
  AMQP_BASIC_RECOVER_METHOD_def AMQP_BASIC_RECOVER_OK_METHOD_def AMQP_BASIC_NACK_METHOD_def
  AMQP_TX_SELECT_METHOD_def AMQP_TX_SELECT_OK_METHOD_def AMQP_TX_COMMIT_METHOD_def
  AMQP_TX_COMMIT_OK_METHOD_def AMQP_TX_ROLLBACK_METHOD_def AMQP_TX_ROLLBACK_OK_METHOD_def
  AMQP_CONFIRM_SELECT_METHOD_def AMQP_CONFIRM_SELECT_OK_METHOD_def

section \<open>Method structs\<close>

datatype (plugins only: size) amqp_method_struct =
    amqp_connection_start_t u8 u8 amqp_table bytes bytes
  | amqp_connection_start_ok_t amqp_table bytes bytes bytes
  | amqp_connection_secure_t bytes
  | amqp_connection_secure_ok_t bytes
  | amqp_connection_tune_t u16 u32 u16
  | amqp_connection_tune_ok_t u16 u32 u16
  | amqp_connection_open_t bytes bytes bool
  | amqp_connection_open_ok_t bytes
  | amqp_connection_close_t u16 bytes u16 u16
  | amqp_channel_open_t bytes
  | amqp_channel_open_ok_t bytes
  | amqp_channel_flow_t bool
  | amqp_channel_flow_ok_t bool
  | amqp_channel_close_t u16 bytes u16 u16
  | amqp_access_request_t bytes bool bool bool bool bool
  | amqp_access_request_ok_t u16
  | amqp_exchange_declare_t u16 bytes bytes bool bool bool bool bool amqp_table
  | amqp_exchange_delete_t u16 bytes bool bool
  | amqp_exchange_bind_t u16 bytes bytes bytes bool amqp_table
  | amqp_exchange_unbind_t u16 bytes bytes bytes bool amqp_table
  | amqp_queue_declare_t u16 bytes bool bool bool bool bool amqp_table
  | amqp_queue_declare_ok_t bytes u32 u32
  | amqp_queue_bind_t u16 bytes bytes bytes bool amqp_table
  | amqp_queue_purge_t u16 bytes bool
  | amqp_queue_purge_ok_t u32
  | amqp_queue_delete_t u16 bytes bool bool bool
  | amqp_queue_delete_ok_t u32
  | amqp_queue_unbind_t u16 bytes bytes bytes amqp_table
  | amqp_basic_qos_t u32 u16 bool
  | amqp_basic_consume_t u16 bytes bytes bool bool bool bool amqp_table
  | amqp_basic_consume_ok_t bytes
  | amqp_basic_cancel_t bytes bool
  | amqp_basic_cancel_ok_t bytes
  | amqp_basic_publish_t u16 bytes bytes bool bool
  | amqp_basic_return_t u16 bytes bytes bytes
  | amqp_basic_deliver_t bytes u64 bool bytes bytes
  | amqp_basic_get_t u16 bytes bool
  | amqp_basic_get_ok_t u64 bool bytes bytes u32
  | amqp_basic_get_empty_t bytes
  | amqp_basic_ack_t u64 bool
  | amqp_basic_reject_t u64 bool
  | amqp_basic_recover_async_t bool
  | amqp_basic_recover_t bool
  | amqp_basic_nack_t u64 bool bool
  | amqp_confirm_select_t bool

text \<open>The method number whose decoder builds the struct.\<close>

primrec struct_number :: "amqp_method_struct \<Rightarrow> u32" where
  "struct_number (amqp_connection_start_t _ _ _ _ _) = AMQP_CONNECTION_START_METHOD"
| "struct_number (amqp_connection_start_ok_t _ _ _ _) = AMQP_CONNECTION_START_OK_METHOD"
| "struct_number (amqp_connection_secure_t _) = AMQP_CONNECTION_SECURE_METHOD"
| "struct_number (amqp_connection_secure_ok_t _) = AMQP_CONNECTION_SECURE_OK_METHOD"
| "struct_number (amqp_connection_tune_t _ _ _) = AMQP_CONNECTION_TUNE_METHOD"
| "struct_number (amqp_connection_tune_ok_t _ _ _) = AMQP_CONNECTION_TUNE_OK_METHOD"
| "struct_number (amqp_connection_open_t _ _ _) = AMQP_CONNECTION_OPEN_METHOD"
| "struct_number (amqp_connection_open_ok_t _) = AMQP_CONNECTION_OPEN_OK_METHOD"
| "struct_number (amqp_connection_close_t _ _ _ _) = AMQP_CONNECTION_CLOSE_METHOD"
| "struct_number (amqp_channel_open_t _) = AMQP_CHANNEL_OPEN_METHOD"
| "struct_number (amqp_channel_open_ok_t _) = AMQP_CHANNEL_OPEN_OK_METHOD"
| "struct_number (amqp_channel_flow_t _) = AMQP_CHANNEL_FLOW_METHOD"
| "struct_number (amqp_channel_flow_ok_t _) = AMQP_CHANNEL_FLOW_OK_METHOD"
| "struct_number (amqp_channel_close_t _ _ _ _) = AMQP_CHANNEL_CLOSE_METHOD"
| "struct_number (amqp_access_request_t _ _ _ _ _ _) = AMQP_ACCESS_REQUEST_METHOD"
| "struct_number (amqp_access_request_ok_t _) = AMQP_ACCESS_REQUEST_OK_METHOD"
| "struct_number (amqp_exchange_declare_t _ _ _ _ _ _ _ _ _) = AMQP_EXCHANGE_DECLARE_METHOD"
| "struct_number (amqp_exchange_delete_t _ _ _ _) = AMQP_EXCHANGE_DELETE_METHOD"
| "struct_number (amqp_exchange_bind_t _ _ _ _ _ _) = AMQP_EXCHANGE_BIND_METHOD"
| "struct_number (amqp_exchange_unbind_t _ _ _ _ _ _) = AMQP_EXCHANGE_UNBIND_METHOD"
| "struct_number (amqp_queue_declare_t _ _ _ _ _ _ _ _) = AMQP_QUEUE_DECLARE_METHOD"
| "struct_number (amqp_queue_declare_ok_t _ _ _) = AMQP_QUEUE_DECLARE_OK_METHOD"
| "struct_number (amqp_queue_bind_t _ _ _ _ _ _) = AMQP_QUEUE_BIND_METHOD"
| "struct_number (amqp_queue_purge_t _ _ _) = AMQP_QUEUE_PURGE_METHOD"
| "struct_number (amqp_queue_purge_ok_t _) = AMQP_QUEUE_PURGE_OK_METHOD"
| "struct_number (amqp_queue_delete_t _ _ _ _ _) = AMQP_QUEUE_DELETE_METHOD"
| "struct_number (amqp_queue_delete_ok_t _) = AMQP_QUEUE_DELETE_OK_METHOD"
| "struct_number (amqp_queue_unbind_t _ _ _ _ _) = AMQP_QUEUE_UNBIND_METHOD"
| "struct_number (amqp_basic_qos_t _ _ _) = AMQP_BASIC_QOS_METHOD"
| "struct_number (amqp_basic_consume_t _ _ _ _ _ _ _ _) = AMQP_BASIC_CONSUME_METHOD"
| "struct_number (amqp_basic_consume_ok_t _) = AMQP_BASIC_CONSUME_OK_METHOD"
| "struct_number (amqp_basic_cancel_t _ _) = AMQP_BASIC_CANCEL_METHOD"
| "struct_number (amqp_basic_cancel_ok_t _) = AMQP_BASIC_CANCEL_OK_METHOD"
| "struct_number (amqp_basic_publish_t _ _ _ _ _) = AMQP_BASIC_PUBLISH_METHOD"
| "struct_number (amqp_basic_return_t _ _ _ _) = AMQP_BASIC_RETURN_METHOD"
| "struct_number (amqp_basic_deliver_t _ _ _ _ _) = AMQP_BASIC_DELIVER_METHOD"
| "struct_number (amqp_basic_get_t _ _ _) = AMQP_BASIC_GET_METHOD"
| "struct_number (amqp_basic_get_ok_t _ _ _ _ _) = AMQP_BASIC_GET_OK_METHOD"
| "struct_number (amqp_basic_get_empty_t _) = AMQP_BASIC_GET_EMPTY_METHOD"
| "struct_number (amqp_basic_ack_t _ _) = AMQP_BASIC_ACK_METHOD"
| "struct_number (amqp_basic_reject_t _ _) = AMQP_BASIC_REJECT_METHOD"
| "struct_number (amqp_basic_recover_async_t _) = AMQP_BASIC_RECOVER_ASYNC_METHOD"
| "struct_number (amqp_basic_recover_t _) = AMQP_BASIC_RECOVER_METHOD"
| "struct_number (amqp_basic_nack_t _ _ _) = AMQP_BASIC_NACK_METHOD"
| "struct_number (amqp_confirm_select_t _) = AMQP_CONFIRM_SELECT_METHOD"

section \<open>Parts of a method\<close>

definition bad :: "('s, 'a option) cm \<Rightarrow> ('s, 'a) cm" where
  "bad m = or_return AMQP_STATUS_BAD_AMQP_DATA m"

definition pool_struct :: "nat \<Rightarrow> (rd, address) cm" where
  "pool_struct size_of = or_return AMQP_STATUS_NO_MEMORY (amqp_pool_alloc size_of)"

definition decode_shortstr :: "view \<Rightarrow> (rd, bytes) cm" where
  "decode_shortstr v = and_then (bad (amqp_decode_8 v)) (\<lambda>len. bad (amqp_decode_bytes v (unat len)))"

definition decode_longstr :: "view \<Rightarrow> (rd, bytes) cm" where
  "decode_longstr v = and_then (bad (amqp_decode_32 v)) (\<lambda>len. bad (amqp_decode_bytes v (unat len)))"

definition encode_shortstr :: "bytes \<Rightarrow> (wr, unit) cm" where
  "encode_shortstr b = and_then (bad (amqp_encode_8 (word_of_nat (length b)))) (\<lambda>_. bad (amqp_encode_bytes b))"

definition encode_longstr :: "bytes \<Rightarrow> (wr, unit) cm" where
  "encode_longstr b = and_then (bad (amqp_encode_32 (word_of_nat (length b)))) (\<lambda>_. bad (amqp_encode_bytes b))"

text \<open>\<^verbatim>\<open>(bit_buffer & (1 << i)) ? 1 : 0\<close>, and \<^verbatim>\<open>if (flag) bit_buffer |= (1 << i)\<close> for each flag.\<close>

definition flag_bit :: "u8 \<Rightarrow> nat \<Rightarrow> bool" where
  "flag_bit bit_buffer i \<longleftrightarrow> bit_buffer AND push_bit i 1 \<noteq> 0"

definition pack_bits :: "bool list \<Rightarrow> u8" where
  "pack_bits flags = foldl (\<lambda>bit_buffer (i, flag). if flag then bit_buffer OR push_bit i 1 else bit_buffer)
     0 (enumerate 0 flags)"

section \<open>Decoders\<close>

definition decode_connection_start :: "view \<Rightarrow> (rd, amqp_method_struct) cm" where
  "decode_connection_start v =
     and_then (pool_struct 56) (\<lambda>_.
     and_then (bad (amqp_decode_8 v)) (\<lambda>version_major.
     and_then (bad (amqp_decode_8 v)) (\<lambda>version_minor.
     and_then (amqp_decode_table v) (\<lambda>server_properties.
     and_then (decode_longstr v) (\<lambda>mechanisms.
     and_then (decode_longstr v) (\<lambda>locales.
     ret (amqp_connection_start_t version_major version_minor server_properties mechanisms
     locales)))))))"

definition decode_connection_start_ok :: "view \<Rightarrow> (rd, amqp_method_struct) cm" where
  "decode_connection_start_ok v =
     and_then (pool_struct 64) (\<lambda>_.
     and_then (amqp_decode_table v) (\<lambda>client_properties.
     and_then (decode_shortstr v) (\<lambda>mechanism.
     and_then (decode_longstr v) (\<lambda>response.
     and_then (decode_shortstr v) (\<lambda>locale.
     ret (amqp_connection_start_ok_t client_properties mechanism response locale))))))"

definition decode_connection_secure :: "view \<Rightarrow> (rd, amqp_method_struct) cm" where
  "decode_connection_secure v =
     and_then (pool_struct 16) (\<lambda>_.
     and_then (decode_longstr v) (\<lambda>challenge.
     ret (amqp_connection_secure_t challenge)))"

definition decode_connection_secure_ok :: "view \<Rightarrow> (rd, amqp_method_struct) cm" where
  "decode_connection_secure_ok v =
     and_then (pool_struct 16) (\<lambda>_.
     and_then (decode_longstr v) (\<lambda>response.
     ret (amqp_connection_secure_ok_t response)))"

definition decode_connection_tune :: "view \<Rightarrow> (rd, amqp_method_struct) cm" where
  "decode_connection_tune v =
     and_then (pool_struct 12) (\<lambda>_.
     and_then (bad (amqp_decode_16 v)) (\<lambda>channel_max.
     and_then (bad (amqp_decode_32 v)) (\<lambda>frame_max.
     and_then (bad (amqp_decode_16 v)) (\<lambda>heartbeat.
     ret (amqp_connection_tune_t channel_max frame_max heartbeat)))))"

definition decode_connection_tune_ok :: "view \<Rightarrow> (rd, amqp_method_struct) cm" where
  "decode_connection_tune_ok v =
     and_then (pool_struct 12) (\<lambda>_.
     and_then (bad (amqp_decode_16 v)) (\<lambda>channel_max.
     and_then (bad (amqp_decode_32 v)) (\<lambda>frame_max.
     and_then (bad (amqp_decode_16 v)) (\<lambda>heartbeat.
     ret (amqp_connection_tune_ok_t channel_max frame_max heartbeat)))))"

definition decode_connection_open :: "view \<Rightarrow> (rd, amqp_method_struct) cm" where
  "decode_connection_open v =
     and_then (pool_struct 40) (\<lambda>_.
     and_then (decode_shortstr v) (\<lambda>virtual_host.
     and_then (decode_shortstr v) (\<lambda>capabilities.
     and_then (bad (amqp_decode_8 v)) (\<lambda>bit_buffer.
     ret (amqp_connection_open_t virtual_host capabilities (flag_bit bit_buffer 0))))))"

definition decode_connection_open_ok :: "view \<Rightarrow> (rd, amqp_method_struct) cm" where
  "decode_connection_open_ok v =
     and_then (pool_struct 16) (\<lambda>_.
     and_then (decode_shortstr v) (\<lambda>known_hosts.
     ret (amqp_connection_open_ok_t known_hosts)))"

definition decode_connection_close :: "view \<Rightarrow> (rd, amqp_method_struct) cm" where
  "decode_connection_close v =
     and_then (pool_struct 32) (\<lambda>_.
     and_then (bad (amqp_decode_16 v)) (\<lambda>reply_code.
     and_then (decode_shortstr v) (\<lambda>reply_text.
     and_then (bad (amqp_decode_16 v)) (\<lambda>class_id.
     and_then (bad (amqp_decode_16 v)) (\<lambda>method_id.
     ret (amqp_connection_close_t reply_code reply_text class_id method_id))))))"

definition decode_channel_open :: "view \<Rightarrow> (rd, amqp_method_struct) cm" where
  "decode_channel_open v =
     and_then (pool_struct 16) (\<lambda>_.
     and_then (decode_shortstr v) (\<lambda>out_of_band.
     ret (amqp_channel_open_t out_of_band)))"

definition decode_channel_open_ok :: "view \<Rightarrow> (rd, amqp_method_struct) cm" where
  "decode_channel_open_ok v =
     and_then (pool_struct 16) (\<lambda>_.
     and_then (decode_longstr v) (\<lambda>channel_id.
     ret (amqp_channel_open_ok_t channel_id)))"

definition decode_channel_flow :: "view \<Rightarrow> (rd, amqp_method_struct) cm" where
  "decode_channel_flow v =
     and_then (pool_struct 4) (\<lambda>_.
     and_then (bad (amqp_decode_8 v)) (\<lambda>bit_buffer.
     ret (amqp_channel_flow_t (flag_bit bit_buffer 0))))"

definition decode_channel_flow_ok :: "view \<Rightarrow> (rd, amqp_method_struct) cm" where
  "decode_channel_flow_ok v =
     and_then (pool_struct 4) (\<lambda>_.
     and_then (bad (amqp_decode_8 v)) (\<lambda>bit_buffer.
     ret (amqp_channel_flow_ok_t (flag_bit bit_buffer 0))))"

definition decode_channel_close :: "view \<Rightarrow> (rd, amqp_method_struct) cm" where
  "decode_channel_close v =
     and_then (pool_struct 32) (\<lambda>_.
     and_then (bad (amqp_decode_16 v)) (\<lambda>reply_code.
     and_then (decode_shortstr v) (\<lambda>reply_text.
     and_then (bad (amqp_decode_16 v)) (\<lambda>class_id.
     and_then (bad (amqp_decode_16 v)) (\<lambda>method_id.
     ret (amqp_channel_close_t reply_code reply_text class_id method_id))))))"

definition decode_access_request :: "view \<Rightarrow> (rd, amqp_method_struct) cm" where
  "decode_access_request v =
     and_then (pool_struct 40) (\<lambda>_.
     and_then (decode_shortstr v) (\<lambda>realm.
     and_then (bad (amqp_decode_8 v)) (\<lambda>bit_buffer.
     ret (amqp_access_request_t realm (flag_bit bit_buffer 0) (flag_bit bit_buffer 1)
     (flag_bit bit_buffer 2) (flag_bit bit_buffer 3) (flag_bit bit_buffer 4)))))"

definition decode_access_request_ok :: "view \<Rightarrow> (rd, amqp_method_struct) cm" where
  "decode_access_request_ok v =
     and_then (pool_struct 2) (\<lambda>_.
     and_then (bad (amqp_decode_16 v)) (\<lambda>ticket.
     ret (amqp_access_request_ok_t ticket)))"

definition decode_exchange_declare :: "view \<Rightarrow> (rd, amqp_method_struct) cm" where
  "decode_exchange_declare v =
     and_then (pool_struct 80) (\<lambda>_.
     and_then (bad (amqp_decode_16 v)) (\<lambda>ticket.
     and_then (decode_shortstr v) (\<lambda>exchange.
     and_then (decode_shortstr v) (\<lambda>type.
     and_then (bad (amqp_decode_8 v)) (\<lambda>bit_buffer.
     and_then (amqp_decode_table v) (\<lambda>arguments.
     ret (amqp_exchange_declare_t ticket exchange type (flag_bit bit_buffer 0)
     (flag_bit bit_buffer 1) (flag_bit bit_buffer 2) (flag_bit bit_buffer 3)
     (flag_bit bit_buffer 4) arguments)))))))"

definition decode_exchange_delete :: "view \<Rightarrow> (rd, amqp_method_struct) cm" where
  "decode_exchange_delete v =
     and_then (pool_struct 32) (\<lambda>_.
     and_then (bad (amqp_decode_16 v)) (\<lambda>ticket.
     and_then (decode_shortstr v) (\<lambda>exchange.
     and_then (bad (amqp_decode_8 v)) (\<lambda>bit_buffer.
     ret (amqp_exchange_delete_t ticket exchange (flag_bit bit_buffer 0) (flag_bit bit_buffer 1))))))"

definition decode_exchange_bind :: "view \<Rightarrow> (rd, amqp_method_struct) cm" where
  "decode_exchange_bind v =
     and_then (pool_struct 80) (\<lambda>_.
     and_then (bad (amqp_decode_16 v)) (\<lambda>ticket.
     and_then (decode_shortstr v) (\<lambda>destination.
     and_then (decode_shortstr v) (\<lambda>source.
     and_then (decode_shortstr v) (\<lambda>routing_key.
     and_then (bad (amqp_decode_8 v)) (\<lambda>bit_buffer.
     and_then (amqp_decode_table v) (\<lambda>arguments.
     ret (amqp_exchange_bind_t ticket destination source routing_key (flag_bit bit_buffer 0)
     arguments))))))))"

definition decode_exchange_unbind :: "view \<Rightarrow> (rd, amqp_method_struct) cm" where
  "decode_exchange_unbind v =
     and_then (pool_struct 80) (\<lambda>_.
     and_then (bad (amqp_decode_16 v)) (\<lambda>ticket.
     and_then (decode_shortstr v) (\<lambda>destination.
     and_then (decode_shortstr v) (\<lambda>source.
     and_then (decode_shortstr v) (\<lambda>routing_key.
     and_then (bad (amqp_decode_8 v)) (\<lambda>bit_buffer.
     and_then (amqp_decode_table v) (\<lambda>arguments.
     ret (amqp_exchange_unbind_t ticket destination source routing_key (flag_bit bit_buffer 0)
     arguments))))))))"

definition decode_queue_declare :: "view \<Rightarrow> (rd, amqp_method_struct) cm" where
  "decode_queue_declare v =
     and_then (pool_struct 64) (\<lambda>_.
     and_then (bad (amqp_decode_16 v)) (\<lambda>ticket.
     and_then (decode_shortstr v) (\<lambda>queue.
     and_then (bad (amqp_decode_8 v)) (\<lambda>bit_buffer.
     and_then (amqp_decode_table v) (\<lambda>arguments.
     ret (amqp_queue_declare_t ticket queue (flag_bit bit_buffer 0) (flag_bit bit_buffer 1)
     (flag_bit bit_buffer 2) (flag_bit bit_buffer 3) (flag_bit bit_buffer 4) arguments))))))"

definition decode_queue_declare_ok :: "view \<Rightarrow> (rd, amqp_method_struct) cm" where
  "decode_queue_declare_ok v =
     and_then (pool_struct 24) (\<lambda>_.
     and_then (decode_shortstr v) (\<lambda>queue.
     and_then (bad (amqp_decode_32 v)) (\<lambda>message_count.
     and_then (bad (amqp_decode_32 v)) (\<lambda>consumer_count.
     ret (amqp_queue_declare_ok_t queue message_count consumer_count)))))"

definition decode_queue_bind :: "view \<Rightarrow> (rd, amqp_method_struct) cm" where
  "decode_queue_bind v =
     and_then (pool_struct 80) (\<lambda>_.
     and_then (bad (amqp_decode_16 v)) (\<lambda>ticket.
     and_then (decode_shortstr v) (\<lambda>queue.
     and_then (decode_shortstr v) (\<lambda>exchange.
     and_then (decode_shortstr v) (\<lambda>routing_key.
     and_then (bad (amqp_decode_8 v)) (\<lambda>bit_buffer.
     and_then (amqp_decode_table v) (\<lambda>arguments.
     ret (amqp_queue_bind_t ticket queue exchange routing_key (flag_bit bit_buffer 0) arguments))))))))"

definition decode_queue_purge :: "view \<Rightarrow> (rd, amqp_method_struct) cm" where
  "decode_queue_purge v =
     and_then (pool_struct 32) (\<lambda>_.
     and_then (bad (amqp_decode_16 v)) (\<lambda>ticket.
     and_then (decode_shortstr v) (\<lambda>queue.
     and_then (bad (amqp_decode_8 v)) (\<lambda>bit_buffer.
     ret (amqp_queue_purge_t ticket queue (flag_bit bit_buffer 0))))))"

definition decode_queue_purge_ok :: "view \<Rightarrow> (rd, amqp_method_struct) cm" where
  "decode_queue_purge_ok v =
     and_then (pool_struct 4) (\<lambda>_.
     and_then (bad (amqp_decode_32 v)) (\<lambda>message_count.
     ret (amqp_queue_purge_ok_t message_count)))"

definition decode_queue_delete :: "view \<Rightarrow> (rd, amqp_method_struct) cm" where
  "decode_queue_delete v =
     and_then (pool_struct 40) (\<lambda>_.
     and_then (bad (amqp_decode_16 v)) (\<lambda>ticket.
     and_then (decode_shortstr v) (\<lambda>queue.
     and_then (bad (amqp_decode_8 v)) (\<lambda>bit_buffer.
     ret (amqp_queue_delete_t ticket queue (flag_bit bit_buffer 0) (flag_bit bit_buffer 1)
     (flag_bit bit_buffer 2))))))"

definition decode_queue_delete_ok :: "view \<Rightarrow> (rd, amqp_method_struct) cm" where
  "decode_queue_delete_ok v =
     and_then (pool_struct 4) (\<lambda>_.
     and_then (bad (amqp_decode_32 v)) (\<lambda>message_count.
     ret (amqp_queue_delete_ok_t message_count)))"

definition decode_queue_unbind :: "view \<Rightarrow> (rd, amqp_method_struct) cm" where
  "decode_queue_unbind v =
     and_then (pool_struct 72) (\<lambda>_.
     and_then (bad (amqp_decode_16 v)) (\<lambda>ticket.
     and_then (decode_shortstr v) (\<lambda>queue.
     and_then (decode_shortstr v) (\<lambda>exchange.
     and_then (decode_shortstr v) (\<lambda>routing_key.
     and_then (amqp_decode_table v) (\<lambda>arguments.
     ret (amqp_queue_unbind_t ticket queue exchange routing_key arguments)))))))"

definition decode_basic_qos :: "view \<Rightarrow> (rd, amqp_method_struct) cm" where
  "decode_basic_qos v =
     and_then (pool_struct 12) (\<lambda>_.
     and_then (bad (amqp_decode_32 v)) (\<lambda>prefetch_size.
     and_then (bad (amqp_decode_16 v)) (\<lambda>prefetch_count.
     and_then (bad (amqp_decode_8 v)) (\<lambda>bit_buffer.
     ret (amqp_basic_qos_t prefetch_size prefetch_count (flag_bit bit_buffer 0))))))"

definition decode_basic_consume :: "view \<Rightarrow> (rd, amqp_method_struct) cm" where
  "decode_basic_consume v =
     and_then (pool_struct 72) (\<lambda>_.
     and_then (bad (amqp_decode_16 v)) (\<lambda>ticket.
     and_then (decode_shortstr v) (\<lambda>queue.
     and_then (decode_shortstr v) (\<lambda>consumer_tag.
     and_then (bad (amqp_decode_8 v)) (\<lambda>bit_buffer.
     and_then (amqp_decode_table v) (\<lambda>arguments.
     ret (amqp_basic_consume_t ticket queue consumer_tag (flag_bit bit_buffer 0)
     (flag_bit bit_buffer 1) (flag_bit bit_buffer 2) (flag_bit bit_buffer 3) arguments)))))))"

definition decode_basic_consume_ok :: "view \<Rightarrow> (rd, amqp_method_struct) cm" where
  "decode_basic_consume_ok v =
     and_then (pool_struct 16) (\<lambda>_.
     and_then (decode_shortstr v) (\<lambda>consumer_tag.
     ret (amqp_basic_consume_ok_t consumer_tag)))"

definition decode_basic_cancel :: "view \<Rightarrow> (rd, amqp_method_struct) cm" where
  "decode_basic_cancel v =
     and_then (pool_struct 24) (\<lambda>_.
     and_then (decode_shortstr v) (\<lambda>consumer_tag.
     and_then (bad (amqp_decode_8 v)) (\<lambda>bit_buffer.
     ret (amqp_basic_cancel_t consumer_tag (flag_bit bit_buffer 0)))))"

definition decode_basic_cancel_ok :: "view \<Rightarrow> (rd, amqp_method_struct) cm" where
  "decode_basic_cancel_ok v =
     and_then (pool_struct 16) (\<lambda>_.
     and_then (decode_shortstr v) (\<lambda>consumer_tag.
     ret (amqp_basic_cancel_ok_t consumer_tag)))"

definition decode_basic_publish :: "view \<Rightarrow> (rd, amqp_method_struct) cm" where
  "decode_basic_publish v =
     and_then (pool_struct 48) (\<lambda>_.
     and_then (bad (amqp_decode_16 v)) (\<lambda>ticket.
     and_then (decode_shortstr v) (\<lambda>exchange.
     and_then (decode_shortstr v) (\<lambda>routing_key.
     and_then (bad (amqp_decode_8 v)) (\<lambda>bit_buffer.
     ret (amqp_basic_publish_t ticket exchange routing_key (flag_bit bit_buffer 0)
     (flag_bit bit_buffer 1)))))))"

definition decode_basic_return :: "view \<Rightarrow> (rd, amqp_method_struct) cm" where
  "decode_basic_return v =
     and_then (pool_struct 56) (\<lambda>_.
     and_then (bad (amqp_decode_16 v)) (\<lambda>reply_code.
     and_then (decode_shortstr v) (\<lambda>reply_text.
     and_then (decode_shortstr v) (\<lambda>exchange.
     and_then (decode_shortstr v) (\<lambda>routing_key.
     ret (amqp_basic_return_t reply_code reply_text exchange routing_key))))))"

definition decode_basic_deliver :: "view \<Rightarrow> (rd, amqp_method_struct) cm" where
  "decode_basic_deliver v =
     and_then (pool_struct 64) (\<lambda>_.
     and_then (decode_shortstr v) (\<lambda>consumer_tag.
     and_then (bad (amqp_decode_64 v)) (\<lambda>delivery_tag.
     and_then (bad (amqp_decode_8 v)) (\<lambda>bit_buffer.
     and_then (decode_shortstr v) (\<lambda>exchange.
     and_then (decode_shortstr v) (\<lambda>routing_key.
     ret (amqp_basic_deliver_t consumer_tag delivery_tag (flag_bit bit_buffer 0) exchange
     routing_key)))))))"

definition decode_basic_get :: "view \<Rightarrow> (rd, amqp_method_struct) cm" where
  "decode_basic_get v =
     and_then (pool_struct 32) (\<lambda>_.
     and_then (bad (amqp_decode_16 v)) (\<lambda>ticket.
     and_then (decode_shortstr v) (\<lambda>queue.
     and_then (bad (amqp_decode_8 v)) (\<lambda>bit_buffer.
     ret (amqp_basic_get_t ticket queue (flag_bit bit_buffer 0))))))"

definition decode_basic_get_ok :: "view \<Rightarrow> (rd, amqp_method_struct) cm" where
  "decode_basic_get_ok v =
     and_then (pool_struct 56) (\<lambda>_.
     and_then (bad (amqp_decode_64 v)) (\<lambda>delivery_tag.
     and_then (bad (amqp_decode_8 v)) (\<lambda>bit_buffer.
     and_then (decode_shortstr v) (\<lambda>exchange.
     and_then (decode_shortstr v) (\<lambda>routing_key.
     and_then (bad (amqp_decode_32 v)) (\<lambda>message_count.
     ret (amqp_basic_get_ok_t delivery_tag (flag_bit bit_buffer 0) exchange routing_key
     message_count)))))))"

definition decode_basic_get_empty :: "view \<Rightarrow> (rd, amqp_method_struct) cm" where
  "decode_basic_get_empty v =
     and_then (pool_struct 16) (\<lambda>_.
     and_then (decode_shortstr v) (\<lambda>cluster_id.
     ret (amqp_basic_get_empty_t cluster_id)))"

definition decode_basic_ack :: "view \<Rightarrow> (rd, amqp_method_struct) cm" where
  "decode_basic_ack v =
     and_then (pool_struct 16) (\<lambda>_.
     and_then (bad (amqp_decode_64 v)) (\<lambda>delivery_tag.
     and_then (bad (amqp_decode_8 v)) (\<lambda>bit_buffer.
     ret (amqp_basic_ack_t delivery_tag (flag_bit bit_buffer 0)))))"

definition decode_basic_reject :: "view \<Rightarrow> (rd, amqp_method_struct) cm" where
  "decode_basic_reject v =
     and_then (pool_struct 16) (\<lambda>_.
     and_then (bad (amqp_decode_64 v)) (\<lambda>delivery_tag.
     and_then (bad (amqp_decode_8 v)) (\<lambda>bit_buffer.
     ret (amqp_basic_reject_t delivery_tag (flag_bit bit_buffer 0)))))"

definition decode_basic_recover_async :: "view \<Rightarrow> (rd, amqp_method_struct) cm" where
  "decode_basic_recover_async v =
     and_then (pool_struct 4) (\<lambda>_.
     and_then (bad (amqp_decode_8 v)) (\<lambda>bit_buffer.
     ret (amqp_basic_recover_async_t (flag_bit bit_buffer 0))))"

definition decode_basic_recover :: "view \<Rightarrow> (rd, amqp_method_struct) cm" where
  "decode_basic_recover v =
     and_then (pool_struct 4) (\<lambda>_.
     and_then (bad (amqp_decode_8 v)) (\<lambda>bit_buffer.
     ret (amqp_basic_recover_t (flag_bit bit_buffer 0))))"

definition decode_basic_nack :: "view \<Rightarrow> (rd, amqp_method_struct) cm" where
  "decode_basic_nack v =
     and_then (pool_struct 16) (\<lambda>_.
     and_then (bad (amqp_decode_64 v)) (\<lambda>delivery_tag.
     and_then (bad (amqp_decode_8 v)) (\<lambda>bit_buffer.
     ret (amqp_basic_nack_t delivery_tag (flag_bit bit_buffer 0) (flag_bit bit_buffer 1)))))"

definition decode_confirm_select :: "view \<Rightarrow> (rd, amqp_method_struct) cm" where
  "decode_confirm_select v =
     and_then (pool_struct 4) (\<lambda>_.
     and_then (bad (amqp_decode_8 v)) (\<lambda>bit_buffer.
     ret (amqp_confirm_select_t (flag_bit bit_buffer 0))))"

lemmas decode_defs =
  decode_connection_start_def decode_connection_start_ok_def decode_connection_secure_def
  decode_connection_secure_ok_def decode_connection_tune_def decode_connection_tune_ok_def
  decode_connection_open_def decode_connection_open_ok_def decode_connection_close_def
  decode_channel_open_def decode_channel_open_ok_def decode_channel_flow_def
  decode_channel_flow_ok_def decode_channel_close_def decode_access_request_def
  decode_access_request_ok_def decode_exchange_declare_def decode_exchange_delete_def
  decode_exchange_bind_def decode_exchange_unbind_def decode_queue_declare_def
  decode_queue_declare_ok_def decode_queue_bind_def decode_queue_purge_def
  decode_queue_purge_ok_def decode_queue_delete_def decode_queue_delete_ok_def
  decode_queue_unbind_def decode_basic_qos_def decode_basic_consume_def
  decode_basic_consume_ok_def decode_basic_cancel_def decode_basic_cancel_ok_def
  decode_basic_publish_def decode_basic_return_def decode_basic_deliver_def decode_basic_get_def
  decode_basic_get_ok_def decode_basic_get_empty_def decode_basic_ack_def
  decode_basic_reject_def decode_basic_recover_async_def decode_basic_recover_def
  decode_basic_nack_def decode_confirm_select_def

section \<open>Encoders\<close>

definition encode_connection_start :: "u8 \<Rightarrow> u8 \<Rightarrow> amqp_table \<Rightarrow> bytes \<Rightarrow> bytes \<Rightarrow> (wr, unit) cm" where
  "encode_connection_start version_major version_minor server_properties mechanisms locales =
     and_then (bad (amqp_encode_8 version_major)) (\<lambda>_.
     and_then (bad (amqp_encode_8 version_minor)) (\<lambda>_.
     and_then (amqp_encode_table server_properties) (\<lambda>_.
     and_then (encode_longstr mechanisms) (\<lambda>_.
     encode_longstr locales))))"

definition encode_connection_start_ok :: "amqp_table \<Rightarrow> bytes \<Rightarrow> bytes \<Rightarrow> bytes \<Rightarrow> (wr, unit) cm" where
  "encode_connection_start_ok client_properties mechanism response locale =
     and_then (amqp_encode_table client_properties) (\<lambda>_.
     and_then (encode_shortstr mechanism) (\<lambda>_.
     and_then (encode_longstr response) (\<lambda>_.
     encode_shortstr locale)))"

definition encode_connection_secure :: "bytes \<Rightarrow> (wr, unit) cm" where
  "encode_connection_secure challenge =
     (encode_longstr challenge)"

definition encode_connection_secure_ok :: "bytes \<Rightarrow> (wr, unit) cm" where
  "encode_connection_secure_ok response =
     (encode_longstr response)"

definition encode_connection_tune :: "u16 \<Rightarrow> u32 \<Rightarrow> u16 \<Rightarrow> (wr, unit) cm" where
  "encode_connection_tune channel_max frame_max heartbeat =
     and_then (bad (amqp_encode_16 channel_max)) (\<lambda>_.
     and_then (bad (amqp_encode_32 frame_max)) (\<lambda>_.
     bad (amqp_encode_16 heartbeat)))"

definition encode_connection_tune_ok :: "u16 \<Rightarrow> u32 \<Rightarrow> u16 \<Rightarrow> (wr, unit) cm" where
  "encode_connection_tune_ok channel_max frame_max heartbeat =
     and_then (bad (amqp_encode_16 channel_max)) (\<lambda>_.
     and_then (bad (amqp_encode_32 frame_max)) (\<lambda>_.
     bad (amqp_encode_16 heartbeat)))"

definition encode_connection_open :: "bytes \<Rightarrow> bytes \<Rightarrow> bool \<Rightarrow> (wr, unit) cm" where
  "encode_connection_open virtual_host capabilities insist =
     and_then (encode_shortstr virtual_host) (\<lambda>_.
     and_then (encode_shortstr capabilities) (\<lambda>_.
     bad (amqp_encode_8 (pack_bits [insist]))))"

definition encode_connection_open_ok :: "bytes \<Rightarrow> (wr, unit) cm" where
  "encode_connection_open_ok known_hosts =
     (encode_shortstr known_hosts)"

definition encode_connection_close :: "u16 \<Rightarrow> bytes \<Rightarrow> u16 \<Rightarrow> u16 \<Rightarrow> (wr, unit) cm" where
  "encode_connection_close reply_code reply_text class_id method_id =
     and_then (bad (amqp_encode_16 reply_code)) (\<lambda>_.
     and_then (encode_shortstr reply_text) (\<lambda>_.
     and_then (bad (amqp_encode_16 class_id)) (\<lambda>_.
     bad (amqp_encode_16 method_id))))"

definition encode_channel_open :: "bytes \<Rightarrow> (wr, unit) cm" where
  "encode_channel_open out_of_band =
     (encode_shortstr out_of_band)"

definition encode_channel_open_ok :: "bytes \<Rightarrow> (wr, unit) cm" where
  "encode_channel_open_ok channel_id =
     (encode_longstr channel_id)"

definition encode_channel_flow :: "bool \<Rightarrow> (wr, unit) cm" where
  "encode_channel_flow active =
     (bad (amqp_encode_8 (pack_bits [active])))"

definition encode_channel_flow_ok :: "bool \<Rightarrow> (wr, unit) cm" where
  "encode_channel_flow_ok active =
     (bad (amqp_encode_8 (pack_bits [active])))"

definition encode_channel_close :: "u16 \<Rightarrow> bytes \<Rightarrow> u16 \<Rightarrow> u16 \<Rightarrow> (wr, unit) cm" where
  "encode_channel_close reply_code reply_text class_id method_id =
     and_then (bad (amqp_encode_16 reply_code)) (\<lambda>_.
     and_then (encode_shortstr reply_text) (\<lambda>_.
     and_then (bad (amqp_encode_16 class_id)) (\<lambda>_.
     bad (amqp_encode_16 method_id))))"

definition encode_access_request :: "bytes \<Rightarrow> bool \<Rightarrow> bool \<Rightarrow> bool \<Rightarrow> bool \<Rightarrow> bool \<Rightarrow> (wr, unit) cm" where
  "encode_access_request realm exclusive passive active write read =
     and_then (encode_shortstr realm) (\<lambda>_.
     bad (amqp_encode_8 (pack_bits [exclusive, passive, active, write, read])))"

definition encode_access_request_ok :: "u16 \<Rightarrow> (wr, unit) cm" where
  "encode_access_request_ok ticket =
     (bad (amqp_encode_16 ticket))"

definition encode_exchange_declare :: "u16 \<Rightarrow> bytes \<Rightarrow> bytes \<Rightarrow> bool \<Rightarrow> bool \<Rightarrow> bool \<Rightarrow> bool \<Rightarrow> bool \<Rightarrow> amqp_table \<Rightarrow> (wr, unit) cm" where
  "encode_exchange_declare ticket exchange type passive durable auto_delete internal nowait
  arguments =
     and_then (bad (amqp_encode_16 ticket)) (\<lambda>_.
     and_then (encode_shortstr exchange) (\<lambda>_.
     and_then (encode_shortstr type) (\<lambda>_.
     and_then (bad (amqp_encode_8 (pack_bits [passive, durable, auto_delete, internal, nowait]))) (\<lambda>_.
     amqp_encode_table arguments))))"

definition encode_exchange_delete :: "u16 \<Rightarrow> bytes \<Rightarrow> bool \<Rightarrow> bool \<Rightarrow> (wr, unit) cm" where
  "encode_exchange_delete ticket exchange if_unused nowait =
     and_then (bad (amqp_encode_16 ticket)) (\<lambda>_.
     and_then (encode_shortstr exchange) (\<lambda>_.
     bad (amqp_encode_8 (pack_bits [if_unused, nowait]))))"

definition encode_exchange_bind :: "u16 \<Rightarrow> bytes \<Rightarrow> bytes \<Rightarrow> bytes \<Rightarrow> bool \<Rightarrow> amqp_table \<Rightarrow> (wr, unit) cm" where
  "encode_exchange_bind ticket destination source routing_key nowait arguments =
     and_then (bad (amqp_encode_16 ticket)) (\<lambda>_.
     and_then (encode_shortstr destination) (\<lambda>_.
     and_then (encode_shortstr source) (\<lambda>_.
     and_then (encode_shortstr routing_key) (\<lambda>_.
     and_then (bad (amqp_encode_8 (pack_bits [nowait]))) (\<lambda>_.
     amqp_encode_table arguments)))))"

definition encode_exchange_unbind :: "u16 \<Rightarrow> bytes \<Rightarrow> bytes \<Rightarrow> bytes \<Rightarrow> bool \<Rightarrow> amqp_table \<Rightarrow> (wr, unit) cm" where
  "encode_exchange_unbind ticket destination source routing_key nowait arguments =
     and_then (bad (amqp_encode_16 ticket)) (\<lambda>_.
     and_then (encode_shortstr destination) (\<lambda>_.
     and_then (encode_shortstr source) (\<lambda>_.
     and_then (encode_shortstr routing_key) (\<lambda>_.
     and_then (bad (amqp_encode_8 (pack_bits [nowait]))) (\<lambda>_.
     amqp_encode_table arguments)))))"

definition encode_queue_declare :: "u16 \<Rightarrow> bytes \<Rightarrow> bool \<Rightarrow> bool \<Rightarrow> bool \<Rightarrow> bool \<Rightarrow> bool \<Rightarrow> amqp_table \<Rightarrow> (wr, unit) cm" where
  "encode_queue_declare ticket queue passive durable exclusive auto_delete nowait arguments =
     and_then (bad (amqp_encode_16 ticket)) (\<lambda>_.
     and_then (encode_shortstr queue) (\<lambda>_.
     and_then (bad (amqp_encode_8 (pack_bits [passive, durable, exclusive, auto_delete, nowait]))) (\<lambda>_.
     amqp_encode_table arguments)))"

definition encode_queue_declare_ok :: "bytes \<Rightarrow> u32 \<Rightarrow> u32 \<Rightarrow> (wr, unit) cm" where
  "encode_queue_declare_ok queue message_count consumer_count =
     and_then (encode_shortstr queue) (\<lambda>_.
     and_then (bad (amqp_encode_32 message_count)) (\<lambda>_.
     bad (amqp_encode_32 consumer_count)))"

definition encode_queue_bind :: "u16 \<Rightarrow> bytes \<Rightarrow> bytes \<Rightarrow> bytes \<Rightarrow> bool \<Rightarrow> amqp_table \<Rightarrow> (wr, unit) cm" where
  "encode_queue_bind ticket queue exchange routing_key nowait arguments =
     and_then (bad (amqp_encode_16 ticket)) (\<lambda>_.
     and_then (encode_shortstr queue) (\<lambda>_.
     and_then (encode_shortstr exchange) (\<lambda>_.
     and_then (encode_shortstr routing_key) (\<lambda>_.
     and_then (bad (amqp_encode_8 (pack_bits [nowait]))) (\<lambda>_.
     amqp_encode_table arguments)))))"

definition encode_queue_purge :: "u16 \<Rightarrow> bytes \<Rightarrow> bool \<Rightarrow> (wr, unit) cm" where
  "encode_queue_purge ticket queue nowait =
     and_then (bad (amqp_encode_16 ticket)) (\<lambda>_.
     and_then (encode_shortstr queue) (\<lambda>_.
     bad (amqp_encode_8 (pack_bits [nowait]))))"

definition encode_queue_purge_ok :: "u32 \<Rightarrow> (wr, unit) cm" where
  "encode_queue_purge_ok message_count =
     (bad (amqp_encode_32 message_count))"

definition encode_queue_delete :: "u16 \<Rightarrow> bytes \<Rightarrow> bool \<Rightarrow> bool \<Rightarrow> bool \<Rightarrow> (wr, unit) cm" where
  "encode_queue_delete ticket queue if_unused if_empty nowait =
     and_then (bad (amqp_encode_16 ticket)) (\<lambda>_.
     and_then (encode_shortstr queue) (\<lambda>_.
     bad (amqp_encode_8 (pack_bits [if_unused, if_empty, nowait]))))"

definition encode_queue_delete_ok :: "u32 \<Rightarrow> (wr, unit) cm" where
  "encode_queue_delete_ok message_count =
     (bad (amqp_encode_32 message_count))"

definition encode_queue_unbind :: "u16 \<Rightarrow> bytes \<Rightarrow> bytes \<Rightarrow> bytes \<Rightarrow> amqp_table \<Rightarrow> (wr, unit) cm" where
  "encode_queue_unbind ticket queue exchange routing_key arguments =
     and_then (bad (amqp_encode_16 ticket)) (\<lambda>_.
     and_then (encode_shortstr queue) (\<lambda>_.
     and_then (encode_shortstr exchange) (\<lambda>_.
     and_then (encode_shortstr routing_key) (\<lambda>_.
     amqp_encode_table arguments))))"

definition encode_basic_qos :: "u32 \<Rightarrow> u16 \<Rightarrow> bool \<Rightarrow> (wr, unit) cm" where
  "encode_basic_qos prefetch_size prefetch_count global =
     and_then (bad (amqp_encode_32 prefetch_size)) (\<lambda>_.
     and_then (bad (amqp_encode_16 prefetch_count)) (\<lambda>_.
     bad (amqp_encode_8 (pack_bits [global]))))"

definition encode_basic_consume :: "u16 \<Rightarrow> bytes \<Rightarrow> bytes \<Rightarrow> bool \<Rightarrow> bool \<Rightarrow> bool \<Rightarrow> bool \<Rightarrow> amqp_table \<Rightarrow> (wr, unit) cm" where
  "encode_basic_consume ticket queue consumer_tag no_local no_ack exclusive nowait arguments =
     and_then (bad (amqp_encode_16 ticket)) (\<lambda>_.
     and_then (encode_shortstr queue) (\<lambda>_.
     and_then (encode_shortstr consumer_tag) (\<lambda>_.
     and_then (bad (amqp_encode_8 (pack_bits [no_local, no_ack, exclusive, nowait]))) (\<lambda>_.
     amqp_encode_table arguments))))"

definition encode_basic_consume_ok :: "bytes \<Rightarrow> (wr, unit) cm" where
  "encode_basic_consume_ok consumer_tag =
     (encode_shortstr consumer_tag)"

definition encode_basic_cancel :: "bytes \<Rightarrow> bool \<Rightarrow> (wr, unit) cm" where
  "encode_basic_cancel consumer_tag nowait =
     and_then (encode_shortstr consumer_tag) (\<lambda>_.
     bad (amqp_encode_8 (pack_bits [nowait])))"

definition encode_basic_cancel_ok :: "bytes \<Rightarrow> (wr, unit) cm" where
  "encode_basic_cancel_ok consumer_tag =
     (encode_shortstr consumer_tag)"

definition encode_basic_publish :: "u16 \<Rightarrow> bytes \<Rightarrow> bytes \<Rightarrow> bool \<Rightarrow> bool \<Rightarrow> (wr, unit) cm" where
  "encode_basic_publish ticket exchange routing_key mandatory immediate =
     and_then (bad (amqp_encode_16 ticket)) (\<lambda>_.
     and_then (encode_shortstr exchange) (\<lambda>_.
     and_then (encode_shortstr routing_key) (\<lambda>_.
     bad (amqp_encode_8 (pack_bits [mandatory, immediate])))))"

definition encode_basic_return :: "u16 \<Rightarrow> bytes \<Rightarrow> bytes \<Rightarrow> bytes \<Rightarrow> (wr, unit) cm" where
  "encode_basic_return reply_code reply_text exchange routing_key =
     and_then (bad (amqp_encode_16 reply_code)) (\<lambda>_.
     and_then (encode_shortstr reply_text) (\<lambda>_.
     and_then (encode_shortstr exchange) (\<lambda>_.
     encode_shortstr routing_key)))"

definition encode_basic_deliver :: "bytes \<Rightarrow> u64 \<Rightarrow> bool \<Rightarrow> bytes \<Rightarrow> bytes \<Rightarrow> (wr, unit) cm" where
  "encode_basic_deliver consumer_tag delivery_tag redelivered exchange routing_key =
     and_then (encode_shortstr consumer_tag) (\<lambda>_.
     and_then (bad (amqp_encode_64 delivery_tag)) (\<lambda>_.
     and_then (bad (amqp_encode_8 (pack_bits [redelivered]))) (\<lambda>_.
     and_then (encode_shortstr exchange) (\<lambda>_.
     encode_shortstr routing_key))))"

definition encode_basic_get :: "u16 \<Rightarrow> bytes \<Rightarrow> bool \<Rightarrow> (wr, unit) cm" where
  "encode_basic_get ticket queue no_ack =
     and_then (bad (amqp_encode_16 ticket)) (\<lambda>_.
     and_then (encode_shortstr queue) (\<lambda>_.
     bad (amqp_encode_8 (pack_bits [no_ack]))))"

definition encode_basic_get_ok :: "u64 \<Rightarrow> bool \<Rightarrow> bytes \<Rightarrow> bytes \<Rightarrow> u32 \<Rightarrow> (wr, unit) cm" where
  "encode_basic_get_ok delivery_tag redelivered exchange routing_key message_count =
     and_then (bad (amqp_encode_64 delivery_tag)) (\<lambda>_.
     and_then (bad (amqp_encode_8 (pack_bits [redelivered]))) (\<lambda>_.
     and_then (encode_shortstr exchange) (\<lambda>_.
     and_then (encode_shortstr routing_key) (\<lambda>_.
     bad (amqp_encode_32 message_count)))))"

definition encode_basic_get_empty :: "bytes \<Rightarrow> (wr, unit) cm" where
  "encode_basic_get_empty cluster_id =
     (encode_shortstr cluster_id)"

definition encode_basic_ack :: "u64 \<Rightarrow> bool \<Rightarrow> (wr, unit) cm" where
  "encode_basic_ack delivery_tag multiple =
     and_then (bad (amqp_encode_64 delivery_tag)) (\<lambda>_.
     bad (amqp_encode_8 (pack_bits [multiple])))"

definition encode_basic_reject :: "u64 \<Rightarrow> bool \<Rightarrow> (wr, unit) cm" where
  "encode_basic_reject delivery_tag requeue =
     and_then (bad (amqp_encode_64 delivery_tag)) (\<lambda>_.
     bad (amqp_encode_8 (pack_bits [requeue])))"

definition encode_basic_recover_async :: "bool \<Rightarrow> (wr, unit) cm" where
  "encode_basic_recover_async requeue =
     (bad (amqp_encode_8 (pack_bits [requeue])))"

definition encode_basic_recover :: "bool \<Rightarrow> (wr, unit) cm" where
  "encode_basic_recover requeue =
     (bad (amqp_encode_8 (pack_bits [requeue])))"

definition encode_basic_nack :: "u64 \<Rightarrow> bool \<Rightarrow> bool \<Rightarrow> (wr, unit) cm" where
  "encode_basic_nack delivery_tag multiple requeue =
     and_then (bad (amqp_encode_64 delivery_tag)) (\<lambda>_.
     bad (amqp_encode_8 (pack_bits [multiple, requeue])))"

definition encode_confirm_select :: "bool \<Rightarrow> (wr, unit) cm" where
  "encode_confirm_select nowait =
     (bad (amqp_encode_8 (pack_bits [nowait])))"

lemmas encode_defs =
  encode_connection_start_def encode_connection_start_ok_def encode_connection_secure_def
  encode_connection_secure_ok_def encode_connection_tune_def encode_connection_tune_ok_def
  encode_connection_open_def encode_connection_open_ok_def encode_connection_close_def
  encode_channel_open_def encode_channel_open_ok_def encode_channel_flow_def
  encode_channel_flow_ok_def encode_channel_close_def encode_access_request_def
  encode_access_request_ok_def encode_exchange_declare_def encode_exchange_delete_def
  encode_exchange_bind_def encode_exchange_unbind_def encode_queue_declare_def
  encode_queue_declare_ok_def encode_queue_bind_def encode_queue_purge_def
  encode_queue_purge_ok_def encode_queue_delete_def encode_queue_delete_ok_def
  encode_queue_unbind_def encode_basic_qos_def encode_basic_consume_def
  encode_basic_consume_ok_def encode_basic_cancel_def encode_basic_cancel_ok_def
  encode_basic_publish_def encode_basic_return_def encode_basic_deliver_def encode_basic_get_def
  encode_basic_get_ok_def encode_basic_get_empty_def encode_basic_ack_def
  encode_basic_reject_def encode_basic_recover_async_def encode_basic_recover_def
  encode_basic_nack_def encode_confirm_select_def

primrec encode_struct :: "amqp_method_struct \<Rightarrow> (wr, unit) cm" where
  "encode_struct (amqp_connection_start_t version_major version_minor server_properties mechanisms locales) =
     encode_connection_start version_major version_minor server_properties mechanisms locales"
| "encode_struct (amqp_connection_start_ok_t client_properties mechanism response locale) =
     encode_connection_start_ok client_properties mechanism response locale"
| "encode_struct (amqp_connection_secure_t challenge) =
     encode_connection_secure challenge"
| "encode_struct (amqp_connection_secure_ok_t response) =
     encode_connection_secure_ok response"
| "encode_struct (amqp_connection_tune_t channel_max frame_max heartbeat) =
     encode_connection_tune channel_max frame_max heartbeat"
| "encode_struct (amqp_connection_tune_ok_t channel_max frame_max heartbeat) =
     encode_connection_tune_ok channel_max frame_max heartbeat"
| "encode_struct (amqp_connection_open_t virtual_host capabilities insist) =
     encode_connection_open virtual_host capabilities insist"
| "encode_struct (amqp_connection_open_ok_t known_hosts) =
     encode_connection_open_ok known_hosts"
| "encode_struct (amqp_connection_close_t reply_code reply_text class_id method_id) =
     encode_connection_close reply_code reply_text class_id method_id"
| "encode_struct (amqp_channel_open_t out_of_band) =
     encode_channel_open out_of_band"
| "encode_struct (amqp_channel_open_ok_t channel_id) =
     encode_channel_open_ok channel_id"
| "encode_struct (amqp_channel_flow_t active) =
     encode_channel_flow active"
| "encode_struct (amqp_channel_flow_ok_t active) =
     encode_channel_flow_ok active"
| "encode_struct (amqp_channel_close_t reply_code reply_text class_id method_id) =
     encode_channel_close reply_code reply_text class_id method_id"
| "encode_struct (amqp_access_request_t realm exclusive passive active write read) =
     encode_access_request realm exclusive passive active write read"
| "encode_struct (amqp_access_request_ok_t ticket) =
     encode_access_request_ok ticket"
| "encode_struct (amqp_exchange_declare_t ticket exchange type passive durable auto_delete internal nowait arguments) =
     encode_exchange_declare ticket exchange type passive durable auto_delete internal nowait arguments"
| "encode_struct (amqp_exchange_delete_t ticket exchange if_unused nowait) =
     encode_exchange_delete ticket exchange if_unused nowait"
| "encode_struct (amqp_exchange_bind_t ticket destination source routing_key nowait arguments) =
     encode_exchange_bind ticket destination source routing_key nowait arguments"
| "encode_struct (amqp_exchange_unbind_t ticket destination source routing_key nowait arguments) =
     encode_exchange_unbind ticket destination source routing_key nowait arguments"
| "encode_struct (amqp_queue_declare_t ticket queue passive durable exclusive auto_delete nowait arguments) =
     encode_queue_declare ticket queue passive durable exclusive auto_delete nowait arguments"
| "encode_struct (amqp_queue_declare_ok_t queue message_count consumer_count) =
     encode_queue_declare_ok queue message_count consumer_count"
| "encode_struct (amqp_queue_bind_t ticket queue exchange routing_key nowait arguments) =
     encode_queue_bind ticket queue exchange routing_key nowait arguments"
| "encode_struct (amqp_queue_purge_t ticket queue nowait) =
     encode_queue_purge ticket queue nowait"
| "encode_struct (amqp_queue_purge_ok_t message_count) =
     encode_queue_purge_ok message_count"
| "encode_struct (amqp_queue_delete_t ticket queue if_unused if_empty nowait) =
     encode_queue_delete ticket queue if_unused if_empty nowait"
| "encode_struct (amqp_queue_delete_ok_t message_count) =
     encode_queue_delete_ok message_count"
| "encode_struct (amqp_queue_unbind_t ticket queue exchange routing_key arguments) =
     encode_queue_unbind ticket queue exchange routing_key arguments"
| "encode_struct (amqp_basic_qos_t prefetch_size prefetch_count global) =
     encode_basic_qos prefetch_size prefetch_count global"
| "encode_struct (amqp_basic_consume_t ticket queue consumer_tag no_local no_ack exclusive nowait arguments) =
     encode_basic_consume ticket queue consumer_tag no_local no_ack exclusive nowait arguments"
| "encode_struct (amqp_basic_consume_ok_t consumer_tag) =
     encode_basic_consume_ok consumer_tag"
| "encode_struct (amqp_basic_cancel_t consumer_tag nowait) =
     encode_basic_cancel consumer_tag nowait"
| "encode_struct (amqp_basic_cancel_ok_t consumer_tag) =
     encode_basic_cancel_ok consumer_tag"
| "encode_struct (amqp_basic_publish_t ticket exchange routing_key mandatory immediate) =
     encode_basic_publish ticket exchange routing_key mandatory immediate"
| "encode_struct (amqp_basic_return_t reply_code reply_text exchange routing_key) =
     encode_basic_return reply_code reply_text exchange routing_key"
| "encode_struct (amqp_basic_deliver_t consumer_tag delivery_tag redelivered exchange routing_key) =
     encode_basic_deliver consumer_tag delivery_tag redelivered exchange routing_key"
| "encode_struct (amqp_basic_get_t ticket queue no_ack) =
     encode_basic_get ticket queue no_ack"
| "encode_struct (amqp_basic_get_ok_t delivery_tag redelivered exchange routing_key message_count) =
     encode_basic_get_ok delivery_tag redelivered exchange routing_key message_count"
| "encode_struct (amqp_basic_get_empty_t cluster_id) =
     encode_basic_get_empty cluster_id"
| "encode_struct (amqp_basic_ack_t delivery_tag multiple) =
     encode_basic_ack delivery_tag multiple"
| "encode_struct (amqp_basic_reject_t delivery_tag requeue) =
     encode_basic_reject delivery_tag requeue"
| "encode_struct (amqp_basic_recover_async_t requeue) =
     encode_basic_recover_async requeue"
| "encode_struct (amqp_basic_recover_t requeue) =
     encode_basic_recover requeue"
| "encode_struct (amqp_basic_nack_t delivery_tag multiple requeue) =
     encode_basic_nack delivery_tag multiple requeue"
| "encode_struct (amqp_confirm_select_t nowait) =
     encode_confirm_select nowait"

section \<open>The two switches\<close>

definition some_struct :: "(view \<Rightarrow> (rd, amqp_method_struct) cm) \<Rightarrow> view \<Rightarrow> (rd, amqp_method_struct option) cm" where
  "some_struct d v = and_then (d v) (\<lambda>m. ret (Some m))"

definition no_fields :: "view \<Rightarrow> (rd, amqp_method_struct option) cm" where
  "no_fields v = ret None"

definition decode_cases :: "(u32 \<times> (view \<Rightarrow> (rd, amqp_method_struct option) cm)) list" where
  "decode_cases =
    [
     (AMQP_CONNECTION_START_METHOD, some_struct decode_connection_start),
     (AMQP_CONNECTION_START_OK_METHOD, some_struct decode_connection_start_ok),
     (AMQP_CONNECTION_SECURE_METHOD, some_struct decode_connection_secure),
     (AMQP_CONNECTION_SECURE_OK_METHOD, some_struct decode_connection_secure_ok),
     (AMQP_CONNECTION_TUNE_METHOD, some_struct decode_connection_tune),
     (AMQP_CONNECTION_TUNE_OK_METHOD, some_struct decode_connection_tune_ok),
     (AMQP_CONNECTION_OPEN_METHOD, some_struct decode_connection_open),
     (AMQP_CONNECTION_OPEN_OK_METHOD, some_struct decode_connection_open_ok),
     (AMQP_CONNECTION_CLOSE_METHOD, some_struct decode_connection_close),
     (AMQP_CONNECTION_CLOSE_OK_METHOD, no_fields),
     (AMQP_CHANNEL_OPEN_METHOD, some_struct decode_channel_open),
     (AMQP_CHANNEL_OPEN_OK_METHOD, some_struct decode_channel_open_ok),
     (AMQP_CHANNEL_FLOW_METHOD, some_struct decode_channel_flow),
     (AMQP_CHANNEL_FLOW_OK_METHOD, some_struct decode_channel_flow_ok),
     (AMQP_CHANNEL_CLOSE_METHOD, some_struct decode_channel_close),
     (AMQP_CHANNEL_CLOSE_OK_METHOD, no_fields),
     (AMQP_ACCESS_REQUEST_METHOD, some_struct decode_access_request),
     (AMQP_ACCESS_REQUEST_OK_METHOD, some_struct decode_access_request_ok),
     (AMQP_EXCHANGE_DECLARE_METHOD, some_struct decode_exchange_declare),
     (AMQP_EXCHANGE_DECLARE_OK_METHOD, no_fields),
     (AMQP_EXCHANGE_DELETE_METHOD, some_struct decode_exchange_delete),
     (AMQP_EXCHANGE_DELETE_OK_METHOD, no_fields),
     (AMQP_EXCHANGE_BIND_METHOD, some_struct decode_exchange_bind),
     (AMQP_EXCHANGE_BIND_OK_METHOD, no_fields),
     (AMQP_EXCHANGE_UNBIND_METHOD, some_struct decode_exchange_unbind),
     (AMQP_EXCHANGE_UNBIND_OK_METHOD, no_fields),
     (AMQP_QUEUE_DECLARE_METHOD, some_struct decode_queue_declare),
     (AMQP_QUEUE_DECLARE_OK_METHOD, some_struct decode_queue_declare_ok),
     (AMQP_QUEUE_BIND_METHOD, some_struct decode_queue_bind),
     (AMQP_QUEUE_BIND_OK_METHOD, no_fields),
     (AMQP_QUEUE_PURGE_METHOD, some_struct decode_queue_purge),
     (AMQP_QUEUE_PURGE_OK_METHOD, some_struct decode_queue_purge_ok),
     (AMQP_QUEUE_DELETE_METHOD, some_struct decode_queue_delete),
     (AMQP_QUEUE_DELETE_OK_METHOD, some_struct decode_queue_delete_ok),
     (AMQP_QUEUE_UNBIND_METHOD, some_struct decode_queue_unbind),
     (AMQP_QUEUE_UNBIND_OK_METHOD, no_fields),
     (AMQP_BASIC_QOS_METHOD, some_struct decode_basic_qos),
     (AMQP_BASIC_QOS_OK_METHOD, no_fields),
     (AMQP_BASIC_CONSUME_METHOD, some_struct decode_basic_consume),
     (AMQP_BASIC_CONSUME_OK_METHOD, some_struct decode_basic_consume_ok),
     (AMQP_BASIC_CANCEL_METHOD, some_struct decode_basic_cancel),
     (AMQP_BASIC_CANCEL_OK_METHOD, some_struct decode_basic_cancel_ok),
     (AMQP_BASIC_PUBLISH_METHOD, some_struct decode_basic_publish),
     (AMQP_BASIC_RETURN_METHOD, some_struct decode_basic_return),
     (AMQP_BASIC_DELIVER_METHOD, some_struct decode_basic_deliver),
     (AMQP_BASIC_GET_METHOD, some_struct decode_basic_get),
     (AMQP_BASIC_GET_OK_METHOD, some_struct decode_basic_get_ok),
     (AMQP_BASIC_GET_EMPTY_METHOD, some_struct decode_basic_get_empty),
     (AMQP_BASIC_ACK_METHOD, some_struct decode_basic_ack),
     (AMQP_BASIC_REJECT_METHOD, some_struct decode_basic_reject),
     (AMQP_BASIC_RECOVER_ASYNC_METHOD, some_struct decode_basic_recover_async),
     (AMQP_BASIC_RECOVER_METHOD, some_struct decode_basic_recover),
     (AMQP_BASIC_RECOVER_OK_METHOD, no_fields),
     (AMQP_BASIC_NACK_METHOD, some_struct decode_basic_nack),
     (AMQP_TX_SELECT_METHOD, no_fields),
     (AMQP_TX_SELECT_OK_METHOD, no_fields),
     (AMQP_TX_COMMIT_METHOD, no_fields),
     (AMQP_TX_COMMIT_OK_METHOD, no_fields),
     (AMQP_TX_ROLLBACK_METHOD, no_fields),
     (AMQP_TX_ROLLBACK_OK_METHOD, no_fields),
     (AMQP_CONFIRM_SELECT_METHOD, some_struct decode_confirm_select),
     (AMQP_CONFIRM_SELECT_OK_METHOD, no_fields)]"

definition decode_method :: "u32 \<Rightarrow> view \<Rightarrow> (rd, amqp_method_struct option) cm" where
  "decode_method methodNumber v = (case map_of decode_cases methodNumber of
     None \<Rightarrow> raise AMQP_STATUS_UNKNOWN_METHOD
   | Some d \<Rightarrow> d v)"

text \<open>\<^verbatim>\<open>size_t offset = 0\<close>: the reader's offset is local to the call.\<close>

definition from_start :: "(rd, 'a) cm \<Rightarrow> (pool_state, 'a) cm" where
  "from_start m = (\<lambda>s. case m (pool_state.extend s (rd.fields 0)) of (r, t) \<Rightarrow> (r, pool_state.truncate t))"

definition amqp_decode_method :: "u32 \<Rightarrow> view \<Rightarrow> (pool_state, amqp_method_struct option) cm" where
  "amqp_decode_method methodNumber v = from_start (decode_method methodNumber v)"

text \<open>
  The struct behind the pointer given to \<^verbatim>\<open>amqp_encode_method\<close>, read as the struct of the method
  number.  \<^verbatim>\<open>amqp_channel_close_t\<close> has the members of \<^verbatim>\<open>amqp_connection_close_t\<close> at the same
  offsets, and \<^verbatim>\<open>amqp_connection_close\<close> relies on it.
\<close>

definition view_as :: "u32 \<Rightarrow> amqp_method_struct \<Rightarrow> amqp_method_struct option" where
  "view_as methodNumber m =
     (if struct_number m = methodNumber then Some m
      else if methodNumber = AMQP_CONNECTION_CLOSE_METHOD then
        (case m of amqp_channel_close_t reply_code reply_text class_id method_id \<Rightarrow>
             Some (amqp_connection_close_t reply_code reply_text class_id method_id)
         | _ \<Rightarrow> None)
      else None)"

definition methods_without_fields :: "u32 list" where
  "methods_without_fields =
    [
     AMQP_CONNECTION_CLOSE_OK_METHOD, AMQP_CHANNEL_CLOSE_OK_METHOD,
     AMQP_EXCHANGE_DECLARE_OK_METHOD, AMQP_EXCHANGE_DELETE_OK_METHOD,
     AMQP_EXCHANGE_BIND_OK_METHOD, AMQP_EXCHANGE_UNBIND_OK_METHOD, AMQP_QUEUE_BIND_OK_METHOD,
     AMQP_QUEUE_UNBIND_OK_METHOD, AMQP_BASIC_QOS_OK_METHOD, AMQP_BASIC_RECOVER_OK_METHOD,
     AMQP_TX_SELECT_METHOD, AMQP_TX_SELECT_OK_METHOD, AMQP_TX_COMMIT_METHOD,
     AMQP_TX_COMMIT_OK_METHOD, AMQP_TX_ROLLBACK_METHOD, AMQP_TX_ROLLBACK_OK_METHOD,
     AMQP_CONFIRM_SELECT_OK_METHOD]"

definition methods_with_fields :: "u32 list" where
  "methods_with_fields =
    [
     AMQP_CONNECTION_START_METHOD, AMQP_CONNECTION_START_OK_METHOD,
     AMQP_CONNECTION_SECURE_METHOD, AMQP_CONNECTION_SECURE_OK_METHOD,
     AMQP_CONNECTION_TUNE_METHOD, AMQP_CONNECTION_TUNE_OK_METHOD, AMQP_CONNECTION_OPEN_METHOD,
     AMQP_CONNECTION_OPEN_OK_METHOD, AMQP_CONNECTION_CLOSE_METHOD, AMQP_CHANNEL_OPEN_METHOD,
     AMQP_CHANNEL_OPEN_OK_METHOD, AMQP_CHANNEL_FLOW_METHOD, AMQP_CHANNEL_FLOW_OK_METHOD,
     AMQP_CHANNEL_CLOSE_METHOD, AMQP_ACCESS_REQUEST_METHOD, AMQP_ACCESS_REQUEST_OK_METHOD,
     AMQP_EXCHANGE_DECLARE_METHOD, AMQP_EXCHANGE_DELETE_METHOD, AMQP_EXCHANGE_BIND_METHOD,
     AMQP_EXCHANGE_UNBIND_METHOD, AMQP_QUEUE_DECLARE_METHOD, AMQP_QUEUE_DECLARE_OK_METHOD,
     AMQP_QUEUE_BIND_METHOD, AMQP_QUEUE_PURGE_METHOD, AMQP_QUEUE_PURGE_OK_METHOD,
     AMQP_QUEUE_DELETE_METHOD, AMQP_QUEUE_DELETE_OK_METHOD, AMQP_QUEUE_UNBIND_METHOD,
     AMQP_BASIC_QOS_METHOD, AMQP_BASIC_CONSUME_METHOD, AMQP_BASIC_CONSUME_OK_METHOD,
     AMQP_BASIC_CANCEL_METHOD, AMQP_BASIC_CANCEL_OK_METHOD, AMQP_BASIC_PUBLISH_METHOD,
     AMQP_BASIC_RETURN_METHOD, AMQP_BASIC_DELIVER_METHOD, AMQP_BASIC_GET_METHOD,
     AMQP_BASIC_GET_OK_METHOD, AMQP_BASIC_GET_EMPTY_METHOD, AMQP_BASIC_ACK_METHOD,
     AMQP_BASIC_REJECT_METHOD, AMQP_BASIC_RECOVER_ASYNC_METHOD, AMQP_BASIC_RECOVER_METHOD,
     AMQP_BASIC_NACK_METHOD, AMQP_CONFIRM_SELECT_METHOD]"

definition encode_method :: "u32 \<Rightarrow> amqp_method_struct option \<Rightarrow> (wr, nat) cm" where
  "encode_method methodNumber decoded =
     (if methodNumber \<in> set methods_without_fields then get_offset
      else if methodNumber \<in> set methods_with_fields then
        (case Option.bind decoded (view_as methodNumber) of
           None \<Rightarrow> undef
         | Some m \<Rightarrow> and_then (encode_struct m) (\<lambda>_. get_offset))
      else raise AMQP_STATUS_UNKNOWN_METHOD)"

definition amqp_encode_method :: "u32 \<Rightarrow> amqp_method_struct option \<Rightarrow> (wr, nat) cm" where
  "amqp_encode_method methodNumber decoded =
     and_then (set_offset 0) (\<lambda>_. encode_method methodNumber decoded)"

section \<open>Names and classifications\<close>

definition AMQP_FRAME_METHOD :: int where "AMQP_FRAME_METHOD = 1"
definition AMQP_FRAME_HEADER :: int where "AMQP_FRAME_HEADER = 2"
definition AMQP_FRAME_BODY :: int where "AMQP_FRAME_BODY = 3"
definition AMQP_FRAME_HEARTBEAT :: int where "AMQP_FRAME_HEARTBEAT = 8"
definition AMQP_FRAME_MIN_SIZE :: int where "AMQP_FRAME_MIN_SIZE = 4096"
definition AMQP_FRAME_END :: int where "AMQP_FRAME_END = 206"
definition AMQP_REPLY_SUCCESS :: int where "AMQP_REPLY_SUCCESS = 200"
definition AMQP_CONTENT_TOO_LARGE :: int where "AMQP_CONTENT_TOO_LARGE = 311"
definition AMQP_NO_ROUTE :: int where "AMQP_NO_ROUTE = 312"
definition AMQP_NO_CONSUMERS :: int where "AMQP_NO_CONSUMERS = 313"
definition AMQP_ACCESS_REFUSED :: int where "AMQP_ACCESS_REFUSED = 403"
definition AMQP_NOT_FOUND :: int where "AMQP_NOT_FOUND = 404"
definition AMQP_RESOURCE_LOCKED :: int where "AMQP_RESOURCE_LOCKED = 405"
definition AMQP_PRECONDITION_FAILED :: int where "AMQP_PRECONDITION_FAILED = 406"
definition AMQP_CONNECTION_FORCED :: int where "AMQP_CONNECTION_FORCED = 320"
definition AMQP_INVALID_PATH :: int where "AMQP_INVALID_PATH = 402"
definition AMQP_FRAME_ERROR :: int where "AMQP_FRAME_ERROR = 501"
definition AMQP_SYNTAX_ERROR :: int where "AMQP_SYNTAX_ERROR = 502"
definition AMQP_COMMAND_INVALID :: int where "AMQP_COMMAND_INVALID = 503"
definition AMQP_CHANNEL_ERROR :: int where "AMQP_CHANNEL_ERROR = 504"
definition AMQP_UNEXPECTED_FRAME :: int where "AMQP_UNEXPECTED_FRAME = 505"
definition AMQP_RESOURCE_ERROR :: int where "AMQP_RESOURCE_ERROR = 506"
definition AMQP_NOT_ALLOWED :: int where "AMQP_NOT_ALLOWED = 530"
definition AMQP_NOT_IMPLEMENTED :: int where "AMQP_NOT_IMPLEMENTED = 540"
definition AMQP_INTERNAL_ERROR :: int where "AMQP_INTERNAL_ERROR = 541"

lemmas constant_defs =
  AMQP_FRAME_METHOD_def AMQP_FRAME_HEADER_def AMQP_FRAME_BODY_def AMQP_FRAME_HEARTBEAT_def
  AMQP_FRAME_MIN_SIZE_def AMQP_FRAME_END_def AMQP_REPLY_SUCCESS_def AMQP_CONTENT_TOO_LARGE_def
  AMQP_NO_ROUTE_def AMQP_NO_CONSUMERS_def AMQP_ACCESS_REFUSED_def AMQP_NOT_FOUND_def
  AMQP_RESOURCE_LOCKED_def AMQP_PRECONDITION_FAILED_def AMQP_CONNECTION_FORCED_def
  AMQP_INVALID_PATH_def AMQP_FRAME_ERROR_def AMQP_SYNTAX_ERROR_def AMQP_COMMAND_INVALID_def
  AMQP_CHANNEL_ERROR_def AMQP_UNEXPECTED_FRAME_def AMQP_RESOURCE_ERROR_def AMQP_NOT_ALLOWED_def
  AMQP_NOT_IMPLEMENTED_def AMQP_INTERNAL_ERROR_def

definition constant_names :: "(int \<times> string) list" where
  "constant_names =
    [
     (AMQP_FRAME_METHOD, ''AMQP_FRAME_METHOD''),
     (AMQP_FRAME_HEADER, ''AMQP_FRAME_HEADER''),
     (AMQP_FRAME_BODY, ''AMQP_FRAME_BODY''),
     (AMQP_FRAME_HEARTBEAT, ''AMQP_FRAME_HEARTBEAT''),
     (AMQP_FRAME_MIN_SIZE, ''AMQP_FRAME_MIN_SIZE''),
     (AMQP_FRAME_END, ''AMQP_FRAME_END''),
     (AMQP_REPLY_SUCCESS, ''AMQP_REPLY_SUCCESS''),
     (AMQP_CONTENT_TOO_LARGE, ''AMQP_CONTENT_TOO_LARGE''),
     (AMQP_NO_ROUTE, ''AMQP_NO_ROUTE''),
     (AMQP_NO_CONSUMERS, ''AMQP_NO_CONSUMERS''),
     (AMQP_ACCESS_REFUSED, ''AMQP_ACCESS_REFUSED''),
     (AMQP_NOT_FOUND, ''AMQP_NOT_FOUND''),
     (AMQP_RESOURCE_LOCKED, ''AMQP_RESOURCE_LOCKED''),
     (AMQP_PRECONDITION_FAILED, ''AMQP_PRECONDITION_FAILED''),
     (AMQP_CONNECTION_FORCED, ''AMQP_CONNECTION_FORCED''),
     (AMQP_INVALID_PATH, ''AMQP_INVALID_PATH''),
     (AMQP_FRAME_ERROR, ''AMQP_FRAME_ERROR''),
     (AMQP_SYNTAX_ERROR, ''AMQP_SYNTAX_ERROR''),
     (AMQP_COMMAND_INVALID, ''AMQP_COMMAND_INVALID''),
     (AMQP_CHANNEL_ERROR, ''AMQP_CHANNEL_ERROR''),
     (AMQP_UNEXPECTED_FRAME, ''AMQP_UNEXPECTED_FRAME''),
     (AMQP_RESOURCE_ERROR, ''AMQP_RESOURCE_ERROR''),
     (AMQP_NOT_ALLOWED, ''AMQP_NOT_ALLOWED''),
     (AMQP_NOT_IMPLEMENTED, ''AMQP_NOT_IMPLEMENTED''),
     (AMQP_INTERNAL_ERROR, ''AMQP_INTERNAL_ERROR'')]"

definition amqp_constant_name :: "int \<Rightarrow> string" where
  "amqp_constant_name constantNumber = (case map_of constant_names constantNumber of
     None \<Rightarrow> ''(unknown)'' | Some name \<Rightarrow> name)"

definition amqp_constant_is_hard_error :: "int \<Rightarrow> bool" where
  "amqp_constant_is_hard_error constantNumber \<longleftrightarrow> constantNumber \<in> set
    [
     AMQP_CONNECTION_FORCED, AMQP_INVALID_PATH, AMQP_FRAME_ERROR, AMQP_SYNTAX_ERROR,
     AMQP_COMMAND_INVALID, AMQP_CHANNEL_ERROR, AMQP_UNEXPECTED_FRAME, AMQP_RESOURCE_ERROR,
     AMQP_NOT_ALLOWED, AMQP_NOT_IMPLEMENTED, AMQP_INTERNAL_ERROR]"

definition method_names :: "(u32 \<times> string) list" where
  "method_names =
    [
     (AMQP_CONNECTION_START_METHOD, ''AMQP_CONNECTION_START_METHOD''),
     (AMQP_CONNECTION_START_OK_METHOD, ''AMQP_CONNECTION_START_OK_METHOD''),
     (AMQP_CONNECTION_SECURE_METHOD, ''AMQP_CONNECTION_SECURE_METHOD''),
     (AMQP_CONNECTION_SECURE_OK_METHOD, ''AMQP_CONNECTION_SECURE_OK_METHOD''),
     (AMQP_CONNECTION_TUNE_METHOD, ''AMQP_CONNECTION_TUNE_METHOD''),
     (AMQP_CONNECTION_TUNE_OK_METHOD, ''AMQP_CONNECTION_TUNE_OK_METHOD''),
     (AMQP_CONNECTION_OPEN_METHOD, ''AMQP_CONNECTION_OPEN_METHOD''),
     (AMQP_CONNECTION_OPEN_OK_METHOD, ''AMQP_CONNECTION_OPEN_OK_METHOD''),
     (AMQP_CONNECTION_CLOSE_METHOD, ''AMQP_CONNECTION_CLOSE_METHOD''),
     (AMQP_CONNECTION_CLOSE_OK_METHOD, ''AMQP_CONNECTION_CLOSE_OK_METHOD''),
     (AMQP_CHANNEL_OPEN_METHOD, ''AMQP_CHANNEL_OPEN_METHOD''),
     (AMQP_CHANNEL_OPEN_OK_METHOD, ''AMQP_CHANNEL_OPEN_OK_METHOD''),
     (AMQP_CHANNEL_FLOW_METHOD, ''AMQP_CHANNEL_FLOW_METHOD''),
     (AMQP_CHANNEL_FLOW_OK_METHOD, ''AMQP_CHANNEL_FLOW_OK_METHOD''),
     (AMQP_CHANNEL_CLOSE_METHOD, ''AMQP_CHANNEL_CLOSE_METHOD''),
     (AMQP_CHANNEL_CLOSE_OK_METHOD, ''AMQP_CHANNEL_CLOSE_OK_METHOD''),
     (AMQP_ACCESS_REQUEST_METHOD, ''AMQP_ACCESS_REQUEST_METHOD''),
     (AMQP_ACCESS_REQUEST_OK_METHOD, ''AMQP_ACCESS_REQUEST_OK_METHOD''),
     (AMQP_EXCHANGE_DECLARE_METHOD, ''AMQP_EXCHANGE_DECLARE_METHOD''),
     (AMQP_EXCHANGE_DECLARE_OK_METHOD, ''AMQP_EXCHANGE_DECLARE_OK_METHOD''),
     (AMQP_EXCHANGE_DELETE_METHOD, ''AMQP_EXCHANGE_DELETE_METHOD''),
     (AMQP_EXCHANGE_DELETE_OK_METHOD, ''AMQP_EXCHANGE_DELETE_OK_METHOD''),
     (AMQP_EXCHANGE_BIND_METHOD, ''AMQP_EXCHANGE_BIND_METHOD''),
     (AMQP_EXCHANGE_BIND_OK_METHOD, ''AMQP_EXCHANGE_BIND_OK_METHOD''),
     (AMQP_EXCHANGE_UNBIND_METHOD, ''AMQP_EXCHANGE_UNBIND_METHOD''),
     (AMQP_EXCHANGE_UNBIND_OK_METHOD, ''AMQP_EXCHANGE_UNBIND_OK_METHOD''),
     (AMQP_QUEUE_DECLARE_METHOD, ''AMQP_QUEUE_DECLARE_METHOD''),
     (AMQP_QUEUE_DECLARE_OK_METHOD, ''AMQP_QUEUE_DECLARE_OK_METHOD''),
     (AMQP_QUEUE_BIND_METHOD, ''AMQP_QUEUE_BIND_METHOD''),
     (AMQP_QUEUE_BIND_OK_METHOD, ''AMQP_QUEUE_BIND_OK_METHOD''),
     (AMQP_QUEUE_PURGE_METHOD, ''AMQP_QUEUE_PURGE_METHOD''),
     (AMQP_QUEUE_PURGE_OK_METHOD, ''AMQP_QUEUE_PURGE_OK_METHOD''),
     (AMQP_QUEUE_DELETE_METHOD, ''AMQP_QUEUE_DELETE_METHOD''),
     (AMQP_QUEUE_DELETE_OK_METHOD, ''AMQP_QUEUE_DELETE_OK_METHOD''),
     (AMQP_QUEUE_UNBIND_METHOD, ''AMQP_QUEUE_UNBIND_METHOD''),
     (AMQP_QUEUE_UNBIND_OK_METHOD, ''AMQP_QUEUE_UNBIND_OK_METHOD''),
     (AMQP_BASIC_QOS_METHOD, ''AMQP_BASIC_QOS_METHOD''),
     (AMQP_BASIC_QOS_OK_METHOD, ''AMQP_BASIC_QOS_OK_METHOD''),
     (AMQP_BASIC_CONSUME_METHOD, ''AMQP_BASIC_CONSUME_METHOD''),
     (AMQP_BASIC_CONSUME_OK_METHOD, ''AMQP_BASIC_CONSUME_OK_METHOD''),
     (AMQP_BASIC_CANCEL_METHOD, ''AMQP_BASIC_CANCEL_METHOD''),
     (AMQP_BASIC_CANCEL_OK_METHOD, ''AMQP_BASIC_CANCEL_OK_METHOD''),
     (AMQP_BASIC_PUBLISH_METHOD, ''AMQP_BASIC_PUBLISH_METHOD''),
     (AMQP_BASIC_RETURN_METHOD, ''AMQP_BASIC_RETURN_METHOD''),
     (AMQP_BASIC_DELIVER_METHOD, ''AMQP_BASIC_DELIVER_METHOD''),
     (AMQP_BASIC_GET_METHOD, ''AMQP_BASIC_GET_METHOD''),
     (AMQP_BASIC_GET_OK_METHOD, ''AMQP_BASIC_GET_OK_METHOD''),
     (AMQP_BASIC_GET_EMPTY_METHOD, ''AMQP_BASIC_GET_EMPTY_METHOD''),
     (AMQP_BASIC_ACK_METHOD, ''AMQP_BASIC_ACK_METHOD''),
     (AMQP_BASIC_REJECT_METHOD, ''AMQP_BASIC_REJECT_METHOD''),
     (AMQP_BASIC_RECOVER_ASYNC_METHOD, ''AMQP_BASIC_RECOVER_ASYNC_METHOD''),
     (AMQP_BASIC_RECOVER_METHOD, ''AMQP_BASIC_RECOVER_METHOD''),
     (AMQP_BASIC_RECOVER_OK_METHOD, ''AMQP_BASIC_RECOVER_OK_METHOD''),
     (AMQP_BASIC_NACK_METHOD, ''AMQP_BASIC_NACK_METHOD''),
     (AMQP_TX_SELECT_METHOD, ''AMQP_TX_SELECT_METHOD''),
     (AMQP_TX_SELECT_OK_METHOD, ''AMQP_TX_SELECT_OK_METHOD''),
     (AMQP_TX_COMMIT_METHOD, ''AMQP_TX_COMMIT_METHOD''),
     (AMQP_TX_COMMIT_OK_METHOD, ''AMQP_TX_COMMIT_OK_METHOD''),
     (AMQP_TX_ROLLBACK_METHOD, ''AMQP_TX_ROLLBACK_METHOD''),
     (AMQP_TX_ROLLBACK_OK_METHOD, ''AMQP_TX_ROLLBACK_OK_METHOD''),
     (AMQP_CONFIRM_SELECT_METHOD, ''AMQP_CONFIRM_SELECT_METHOD''),
     (AMQP_CONFIRM_SELECT_OK_METHOD, ''AMQP_CONFIRM_SELECT_OK_METHOD'')]"

definition amqp_method_name :: "u32 \<Rightarrow> string option" where
  "amqp_method_name methodNumber = map_of method_names methodNumber"

definition amqp_method_has_content :: "u32 \<Rightarrow> bool" where
  "amqp_method_has_content methodNumber \<longleftrightarrow> methodNumber \<in> set
    [AMQP_BASIC_PUBLISH_METHOD, AMQP_BASIC_RETURN_METHOD, AMQP_BASIC_DELIVER_METHOD, AMQP_BASIC_GET_OK_METHOD]"

section \<open>The wire format\<close>

definition short_bytes :: "bytes \<Rightarrow> bytes" where
  "short_bytes b = be8 (word_of_nat (length b)) @ b"

primrec method_bytes :: "amqp_method_struct \<Rightarrow> bytes" where
  "method_bytes (amqp_connection_start_t version_major version_minor server_properties mechanisms locales) =
     be8 version_major @ be8 version_minor @ sized (table_bytes server_properties) @
     sized mechanisms @ sized locales"
| "method_bytes (amqp_connection_start_ok_t client_properties mechanism response locale) =
     sized (table_bytes client_properties) @ short_bytes mechanism @ sized response @
     short_bytes locale"
| "method_bytes (amqp_connection_secure_t challenge) =
     sized challenge"
| "method_bytes (amqp_connection_secure_ok_t response) =
     sized response"
| "method_bytes (amqp_connection_tune_t channel_max frame_max heartbeat) =
     be16 channel_max @ be32 frame_max @ be16 heartbeat"
| "method_bytes (amqp_connection_tune_ok_t channel_max frame_max heartbeat) =
     be16 channel_max @ be32 frame_max @ be16 heartbeat"
| "method_bytes (amqp_connection_open_t virtual_host capabilities insist) =
     short_bytes virtual_host @ short_bytes capabilities @ be8 (pack_bits [insist])"
| "method_bytes (amqp_connection_open_ok_t known_hosts) =
     short_bytes known_hosts"
| "method_bytes (amqp_connection_close_t reply_code reply_text class_id method_id) =
     be16 reply_code @ short_bytes reply_text @ be16 class_id @ be16 method_id"
| "method_bytes (amqp_channel_open_t out_of_band) =
     short_bytes out_of_band"
| "method_bytes (amqp_channel_open_ok_t channel_id) =
     sized channel_id"
| "method_bytes (amqp_channel_flow_t active) =
     be8 (pack_bits [active])"
| "method_bytes (amqp_channel_flow_ok_t active) =
     be8 (pack_bits [active])"
| "method_bytes (amqp_channel_close_t reply_code reply_text class_id method_id) =
     be16 reply_code @ short_bytes reply_text @ be16 class_id @ be16 method_id"
| "method_bytes (amqp_access_request_t realm exclusive passive active write read) =
     short_bytes realm @ be8 (pack_bits [exclusive, passive, active, write, read])"
| "method_bytes (amqp_access_request_ok_t ticket) =
     be16 ticket"
| "method_bytes (amqp_exchange_declare_t ticket exchange type passive durable auto_delete internal nowait arguments) =
     be16 ticket @ short_bytes exchange @ short_bytes type @
     be8 (pack_bits [passive, durable, auto_delete, internal, nowait]) @
     sized (table_bytes arguments)"
| "method_bytes (amqp_exchange_delete_t ticket exchange if_unused nowait) =
     be16 ticket @ short_bytes exchange @ be8 (pack_bits [if_unused, nowait])"
| "method_bytes (amqp_exchange_bind_t ticket destination source routing_key nowait arguments) =
     be16 ticket @ short_bytes destination @ short_bytes source @ short_bytes routing_key @
     be8 (pack_bits [nowait]) @ sized (table_bytes arguments)"
| "method_bytes (amqp_exchange_unbind_t ticket destination source routing_key nowait arguments) =
     be16 ticket @ short_bytes destination @ short_bytes source @ short_bytes routing_key @
     be8 (pack_bits [nowait]) @ sized (table_bytes arguments)"
| "method_bytes (amqp_queue_declare_t ticket queue passive durable exclusive auto_delete nowait arguments) =
     be16 ticket @ short_bytes queue @
     be8 (pack_bits [passive, durable, exclusive, auto_delete, nowait]) @
     sized (table_bytes arguments)"
| "method_bytes (amqp_queue_declare_ok_t queue message_count consumer_count) =
     short_bytes queue @ be32 message_count @ be32 consumer_count"
| "method_bytes (amqp_queue_bind_t ticket queue exchange routing_key nowait arguments) =
     be16 ticket @ short_bytes queue @ short_bytes exchange @ short_bytes routing_key @
     be8 (pack_bits [nowait]) @ sized (table_bytes arguments)"
| "method_bytes (amqp_queue_purge_t ticket queue nowait) =
     be16 ticket @ short_bytes queue @ be8 (pack_bits [nowait])"
| "method_bytes (amqp_queue_purge_ok_t message_count) =
     be32 message_count"
| "method_bytes (amqp_queue_delete_t ticket queue if_unused if_empty nowait) =
     be16 ticket @ short_bytes queue @ be8 (pack_bits [if_unused, if_empty, nowait])"
| "method_bytes (amqp_queue_delete_ok_t message_count) =
     be32 message_count"
| "method_bytes (amqp_queue_unbind_t ticket queue exchange routing_key arguments) =
     be16 ticket @ short_bytes queue @ short_bytes exchange @ short_bytes routing_key @
     sized (table_bytes arguments)"
| "method_bytes (amqp_basic_qos_t prefetch_size prefetch_count global) =
     be32 prefetch_size @ be16 prefetch_count @ be8 (pack_bits [global])"
| "method_bytes (amqp_basic_consume_t ticket queue consumer_tag no_local no_ack exclusive nowait arguments) =
     be16 ticket @ short_bytes queue @ short_bytes consumer_tag @
     be8 (pack_bits [no_local, no_ack, exclusive, nowait]) @ sized (table_bytes arguments)"
| "method_bytes (amqp_basic_consume_ok_t consumer_tag) =
     short_bytes consumer_tag"
| "method_bytes (amqp_basic_cancel_t consumer_tag nowait) =
     short_bytes consumer_tag @ be8 (pack_bits [nowait])"
| "method_bytes (amqp_basic_cancel_ok_t consumer_tag) =
     short_bytes consumer_tag"
| "method_bytes (amqp_basic_publish_t ticket exchange routing_key mandatory immediate) =
     be16 ticket @ short_bytes exchange @ short_bytes routing_key @
     be8 (pack_bits [mandatory, immediate])"
| "method_bytes (amqp_basic_return_t reply_code reply_text exchange routing_key) =
     be16 reply_code @ short_bytes reply_text @ short_bytes exchange @ short_bytes routing_key"
| "method_bytes (amqp_basic_deliver_t consumer_tag delivery_tag redelivered exchange routing_key) =
     short_bytes consumer_tag @ be64 delivery_tag @ be8 (pack_bits [redelivered]) @
     short_bytes exchange @ short_bytes routing_key"
| "method_bytes (amqp_basic_get_t ticket queue no_ack) =
     be16 ticket @ short_bytes queue @ be8 (pack_bits [no_ack])"
| "method_bytes (amqp_basic_get_ok_t delivery_tag redelivered exchange routing_key message_count) =
     be64 delivery_tag @ be8 (pack_bits [redelivered]) @ short_bytes exchange @
     short_bytes routing_key @ be32 message_count"
| "method_bytes (amqp_basic_get_empty_t cluster_id) =
     short_bytes cluster_id"
| "method_bytes (amqp_basic_ack_t delivery_tag multiple) =
     be64 delivery_tag @ be8 (pack_bits [multiple])"
| "method_bytes (amqp_basic_reject_t delivery_tag requeue) =
     be64 delivery_tag @ be8 (pack_bits [requeue])"
| "method_bytes (amqp_basic_recover_async_t requeue) =
     be8 (pack_bits [requeue])"
| "method_bytes (amqp_basic_recover_t requeue) =
     be8 (pack_bits [requeue])"
| "method_bytes (amqp_basic_nack_t delivery_tag multiple requeue) =
     be64 delivery_tag @ be8 (pack_bits [multiple, requeue])"
| "method_bytes (amqp_confirm_select_t nowait) =
     be8 (pack_bits [nowait])"

text \<open>The fields fit their length fields.\<close>

primrec method_wf :: "amqp_method_struct \<Rightarrow> bool" where
  "method_wf (amqp_connection_start_t _ _ server_properties mechanisms locales) = (wf_table server_properties \<and> length mechanisms < 2 ^ 32 \<and> length locales < 2 ^ 32)"
| "method_wf (amqp_connection_start_ok_t client_properties mechanism response locale) = (wf_table client_properties \<and> length mechanism < 256 \<and> length response < 2 ^ 32 \<and> length locale < 256)"
| "method_wf (amqp_connection_secure_t challenge) = (length challenge < 2 ^ 32)"
| "method_wf (amqp_connection_secure_ok_t response) = (length response < 2 ^ 32)"
| "method_wf (amqp_connection_tune_t _ _ _) = True"
| "method_wf (amqp_connection_tune_ok_t _ _ _) = True"
| "method_wf (amqp_connection_open_t virtual_host capabilities _) = (length virtual_host < 256 \<and> length capabilities < 256)"
| "method_wf (amqp_connection_open_ok_t known_hosts) = (length known_hosts < 256)"
| "method_wf (amqp_connection_close_t _ reply_text _ _) = (length reply_text < 256)"
| "method_wf (amqp_channel_open_t out_of_band) = (length out_of_band < 256)"
| "method_wf (amqp_channel_open_ok_t channel_id) = (length channel_id < 2 ^ 32)"
| "method_wf (amqp_channel_flow_t _) = True"
| "method_wf (amqp_channel_flow_ok_t _) = True"
| "method_wf (amqp_channel_close_t _ reply_text _ _) = (length reply_text < 256)"
| "method_wf (amqp_access_request_t realm _ _ _ _ _) = (length realm < 256)"
| "method_wf (amqp_access_request_ok_t _) = True"
| "method_wf (amqp_exchange_declare_t _ exchange type _ _ _ _ _ arguments) = (length exchange < 256 \<and> length type < 256 \<and> wf_table arguments)"
| "method_wf (amqp_exchange_delete_t _ exchange _ _) = (length exchange < 256)"
| "method_wf (amqp_exchange_bind_t _ destination source routing_key _ arguments) = (length destination < 256 \<and> length source < 256 \<and> length routing_key < 256 \<and> wf_table arguments)"
| "method_wf (amqp_exchange_unbind_t _ destination source routing_key _ arguments) = (length destination < 256 \<and> length source < 256 \<and> length routing_key < 256 \<and> wf_table arguments)"
| "method_wf (amqp_queue_declare_t _ queue _ _ _ _ _ arguments) = (length queue < 256 \<and> wf_table arguments)"
| "method_wf (amqp_queue_declare_ok_t queue _ _) = (length queue < 256)"
| "method_wf (amqp_queue_bind_t _ queue exchange routing_key _ arguments) = (length queue < 256 \<and> length exchange < 256 \<and> length routing_key < 256 \<and> wf_table arguments)"
| "method_wf (amqp_queue_purge_t _ queue _) = (length queue < 256)"
| "method_wf (amqp_queue_purge_ok_t _) = True"
| "method_wf (amqp_queue_delete_t _ queue _ _ _) = (length queue < 256)"
| "method_wf (amqp_queue_delete_ok_t _) = True"
| "method_wf (amqp_queue_unbind_t _ queue exchange routing_key arguments) = (length queue < 256 \<and> length exchange < 256 \<and> length routing_key < 256 \<and> wf_table arguments)"
| "method_wf (amqp_basic_qos_t _ _ _) = True"
| "method_wf (amqp_basic_consume_t _ queue consumer_tag _ _ _ _ arguments) = (length queue < 256 \<and> length consumer_tag < 256 \<and> wf_table arguments)"
| "method_wf (amqp_basic_consume_ok_t consumer_tag) = (length consumer_tag < 256)"
| "method_wf (amqp_basic_cancel_t consumer_tag _) = (length consumer_tag < 256)"
| "method_wf (amqp_basic_cancel_ok_t consumer_tag) = (length consumer_tag < 256)"
| "method_wf (amqp_basic_publish_t _ exchange routing_key _ _) = (length exchange < 256 \<and> length routing_key < 256)"
| "method_wf (amqp_basic_return_t _ reply_text exchange routing_key) = (length reply_text < 256 \<and> length exchange < 256 \<and> length routing_key < 256)"
| "method_wf (amqp_basic_deliver_t consumer_tag _ _ exchange routing_key) = (length consumer_tag < 256 \<and> length exchange < 256 \<and> length routing_key < 256)"
| "method_wf (amqp_basic_get_t _ queue _) = (length queue < 256)"
| "method_wf (amqp_basic_get_ok_t _ _ exchange routing_key _) = (length exchange < 256 \<and> length routing_key < 256)"
| "method_wf (amqp_basic_get_empty_t cluster_id) = (length cluster_id < 256)"
| "method_wf (amqp_basic_ack_t _ _) = True"
| "method_wf (amqp_basic_reject_t _ _) = True"
| "method_wf (amqp_basic_recover_async_t _) = True"
| "method_wf (amqp_basic_recover_t _) = True"
| "method_wf (amqp_basic_nack_t _ _ _) = True"
| "method_wf (amqp_confirm_select_t _) = True"

section \<open>The encoders\<close>

lemma emits_bad:
  "emits (bad (amqp_encode_8 a)) (be8 a)" "emits (bad (amqp_encode_16 b)) (be16 b)"
  "emits (bad (amqp_encode_32 c)) (be32 c)" "emits (bad (amqp_encode_64 d)) (be64 d)"
  "emits (bad (amqp_encode_bytes bs)) bs"
  unfolding bad_def by (simp_all add: emits_primitives)

lemma emits_shortstr: "emits (encode_shortstr b) (short_bytes b)"
  unfolding encode_shortstr_def short_bytes_def by (intro emits_and_then emits_bad)

lemma emits_longstr: "emits (encode_longstr b) (sized b)"
  unfolding encode_longstr_def sized_def by (intro emits_and_then emits_bad)

lemma emits_table: "wf_table es \<Longrightarrow> emits (amqp_encode_table es) (sized (table_bytes es))"
  by (simp add: emits_amqp_encode_table wf_table_encodable)

lemmas emits_intros = emits_and_then emits_bad emits_shortstr emits_longstr emits_table

lemma emits_encode_struct: "method_wf m \<Longrightarrow> emits (encode_struct m) (method_bytes m)"
  by (cases m; simp only: encode_struct.simps method_bytes.simps method_wf.simps encode_defs; intro emits_intros; simp)

lemma safe_bad:
  "safe wr_ok wr_step (bad (amqp_encode_8 a))" "safe wr_ok wr_step (bad (amqp_encode_16 b))"
  "safe wr_ok wr_step (bad (amqp_encode_32 c))" "safe wr_ok wr_step (bad (amqp_encode_64 d))"
  "safe wr_ok wr_step (bad (amqp_encode_bytes bs))"
  unfolding bad_def by (simp_all add: writers.safe_or_return safe_encode_primitives)

lemma safe_strings: "safe wr_ok wr_step (encode_shortstr b)" "safe wr_ok wr_step (encode_longstr b)"
  unfolding encode_shortstr_def encode_longstr_def by (intro writers.safe_and_then safe_bad)+

lemma safe_table: "safe wr_ok wr_step (amqp_encode_table es)"
  unfolding amqp_encode_table_def by (rule safe_with_size [OF safe_encode_field(4)])

lemma safe_encode_struct: "safe wr_ok wr_step (encode_struct m)"
  by (cases m; simp only: encode_struct.simps encode_defs;
      intro writers.safe_and_then safe_bad safe_strings safe_table)

section \<open>The decoders\<close>

lemma parses_bad:
  "parses v (bad (amqp_decode_8 v)) (be8 a) a" "parses v (bad (amqp_decode_16 v)) (be16 b) b"
  "parses v (bad (amqp_decode_32 v)) (be32 c) c" "parses v (bad (amqp_decode_64 v)) (be64 d) d"
  "n = length bs \<Longrightarrow> parses v (bad (amqp_decode_bytes v n)) bs bs"
  unfolding bad_def by (simp_all add: parses_primitives)

lemma parses_shortstr: "length b < 256 \<Longrightarrow> parses v (decode_shortstr v) (short_bytes b) b"
  unfolding decode_shortstr_def short_bytes_def
  by (rule parses_and_then [OF parses_bad(1)]) (simp add: parses_bad unat_length8)

lemma parses_longstr: "length b < 2 ^ 32 \<Longrightarrow> parses v (decode_longstr v) (sized b) b"
  unfolding decode_longstr_def sized_def
  by (rule parses_and_then [OF parses_bad(3)]) (simp add: parses_bad unat_length)

lemma parses_pool_struct:
  assumes n: "0 < n" and f: "\<And>a. parses v (f a) bs x"
  shows "parses v (and_then (pool_struct n) f) bs x"
proof (rule parsesI)
  fix s :: rd assume s: "pool_inv s" "granting s" "holds v (rd_off s) bs"
  then obtain a t where run: "amqp_pool_alloc n s = (Ok (Some a), t)"
    using pool_alloc_granting [of s n] n by (auto simp: granting_def)
  have m: "mem_step s t" using safeD [OF safe_amqp_pool_alloc s(1) run] by blast
  have off: "rd_off t = rd_off s" using run by (rule pool_alloc_off)
  with s m have "pool_inv t" "granting t" "holds v (rd_off t) bs"
    by (auto dest: mem_step_inv mem_step_granting)
  with f [of a] obtain u where "f a t = (Ok x, u)" "rd_off u = rd_off t + length bs" "mem_step t u"
    by (rule parsesE)
  with run off m show "\<exists>s'. and_then (pool_struct n) f s = (Ok x, s') \<and> rd_off s' = rd_off s + length bs \<and> mem_step s s'"
    by (auto simp: pool_struct_def or_return_def run_and_then intro: mem_step_trans)
qed

lemma flag_bits [simp]:
  "flag_bit (pack_bits [a]) 0 = a"
  "flag_bit (pack_bits [a, b]) 0 = a" "flag_bit (pack_bits [a, b]) (Suc 0) = b"
  "flag_bit (pack_bits [a, b, c]) 0 = a" "flag_bit (pack_bits [a, b, c]) (Suc 0) = b" "flag_bit (pack_bits [a, b, c]) 2 = c"
  "flag_bit (pack_bits [a, b, c, d]) 0 = a" "flag_bit (pack_bits [a, b, c, d]) (Suc 0) = b"
  "flag_bit (pack_bits [a, b, c, d]) 2 = c" "flag_bit (pack_bits [a, b, c, d]) 3 = d"
  "flag_bit (pack_bits [a, b, c, d, e]) 0 = a" "flag_bit (pack_bits [a, b, c, d, e]) (Suc 0) = b"
  "flag_bit (pack_bits [a, b, c, d, e]) 2 = c" "flag_bit (pack_bits [a, b, c, d, e]) 3 = d"
  "flag_bit (pack_bits [a, b, c, d, e]) 4 = e"
  by (simp_all add: flag_bit_def pack_bits_def)

lemma parses_last: "parses v m bs a \<Longrightarrow> f a = x \<Longrightarrow> parses v (and_then m (\<lambda>a. ret (f a))) bs x"
  by (simp add: parses_then_ret)

lemmas parses_parts = parses_bad(1-4) parses_shortstr parses_longstr parses_amqp_decode_table

lemma decode_cases_distinct: "distinct (map fst decode_cases)"
  by (simp add: decode_cases_def method_number_defs)

lemma decode_cases_lookup: "(n, d) \<in> set decode_cases \<Longrightarrow> decode_method n v = d v"
  unfolding decode_method_def by (simp add: decode_cases_distinct)

lemma parses_some_struct: "parses v (d v) bs m \<Longrightarrow> parses v (some_struct d v) bs (Some m)"
  unfolding some_struct_def by (rule parses_then_ret) simp_all

lemma decode_method_all: "list_all (\<lambda>(n, d). decode_method n v = d v) decode_cases"
  by (auto simp: list_all_iff decode_cases_lookup)

lemmas decode_method_cases = decode_method_all [unfolded decode_cases_def list.pred_inject prod.case simp_thms]

lemmas parses_end = parses_last [OF parses_bad(1)] parses_last [OF parses_bad(2)] parses_last [OF parses_bad(3)]
  parses_last [OF parses_bad(4)] parses_last [OF parses_shortstr] parses_last [OF parses_longstr]
  parses_last [OF parses_amqp_decode_table]

lemmas parses_then = parses_and_then [OF parses_bad(1)] parses_and_then [OF parses_bad(2)]
  parses_and_then [OF parses_bad(3)] parses_and_then [OF parses_bad(4)] parses_and_then [OF parses_shortstr]
  parses_and_then [OF parses_longstr] parses_and_then [OF parses_amqp_decode_table]

lemma parses_decode_method:
  "method_wf m \<Longrightarrow> parses v (decode_method (struct_number m) v) (method_bytes m) (Some m)"
  by (cases m; hypsubst; simp only: struct_number.simps method_bytes.simps method_wf.simps decode_method_cases;
      rule parses_some_struct; simp only: decode_defs; rule parses_pool_struct, simp; intro parses_end parses_then; simp)

lemma reads_pool_struct: "reads v k 0 (pool_struct n)"
proof (rule readsI)
  fix s r s'
  assume s: "pool_inv s" "rd_off s \<le> view_len v" and run: "pool_struct n s = (r, s')"
  obtain q t where q: "amqp_pool_alloc n s = (q, t)" by fastforce
  from safeD [OF safe_amqp_pool_alloc s(1) q] pool_alloc_off [OF q] run q s
  show "returns r \<and> rd_step s s' \<and> (\<forall>a. r = Ok a \<longrightarrow> rd_off s + 0 \<le> rd_off s' \<and> rd_off s' \<le> view_len v)"
    by (cases q) (auto simp: pool_struct_def or_return_def run_and_then rd_step_def split: option.splits)
qed

lemma reads_bad_then:
  assumes v: "view_ok v" and f: "\<And>a. reads v k 0 (f a)"
  shows "reads v k 0 (and_then (bad (amqp_decode_8 v)) f)"
  unfolding bad_def by (intro reads_primitive_then v f)

lemma reads_bad_then16:
  assumes v: "view_ok v" and f: "\<And>a. reads v k 0 (f a)"
  shows "reads v k 0 (and_then (bad (amqp_decode_16 v)) f)"
  unfolding bad_def by (intro reads_primitive_then16 v f)

lemma reads_bad_then32:
  assumes v: "view_ok v" and f: "\<And>a. reads v k 0 (f a)"
  shows "reads v k 0 (and_then (bad (amqp_decode_32 v)) f)"
  unfolding bad_def by (intro reads_primitive_then32 v f)

lemma reads_bad_then64:
  assumes v: "view_ok v" and f: "\<And>a. reads v k 0 (f a)"
  shows "reads v k 0 (and_then (bad (amqp_decode_64 v)) f)"
  unfolding bad_def by (intro reads_primitive_then64 v f)

lemma reads_shortstr_then:
  assumes v: "view_ok v" and f: "\<And>a. reads v k 0 (f a)"
  shows "reads v k 0 (and_then (decode_shortstr v) f)"
  unfolding decode_shortstr_def bad_def and_then_assoc by (intro reads_primitive_then reads_bytes_then v f)

lemma reads_longstr_then:
  assumes v: "view_ok v" and f: "\<And>a. reads v k 0 (f a)"
  shows "reads v k 0 (and_then (decode_longstr v) f)"
  unfolding decode_longstr_def bad_def and_then_assoc by (intro reads_primitive_then32 reads_bytes_then v f)

lemma reads_table_then:
  assumes v: "view_ok v" and f: "\<And>a. reads v (view_len v) 0 (f a)"
  shows "reads v (view_len v) 0 (and_then (amqp_decode_table v) f)"
  using reads_and_then_loose [OF reads_amqp_decode_table [OF v] f] by (rule reads_weaken) simp_all

lemma reads_pool_struct_then:
  assumes f: "\<And>a. reads v k 0 (f a)"
  shows "reads v k 0 (and_then (pool_struct n) f)"
  using reads_and_then_loose [OF reads_pool_struct f] by simp

lemmas method_reads = reads_pool_struct_then reads_bad_then reads_bad_then16 reads_bad_then32 reads_bad_then64
  reads_shortstr_then reads_longstr_then reads_table_then reads_ret

lemma reads_decode_cases:
  assumes v: "view_ok v"
  shows "list_all (\<lambda>(n, d). reads v (view_len v) 0 (d v)) decode_cases"
  unfolding decode_cases_def some_struct_def no_fields_def decode_defs list.pred_inject prod.case and_then_assoc and_then_ret
  by (intro conjI TrueI list.pred_inject(1) method_reads v)

lemma reads_decode_method: "view_ok v \<Longrightarrow> reads v (view_len v) 0 (decode_method n v)"
  using reads_decode_cases [of v]
  by (auto simp: decode_method_def list_all_iff reads_raise split: option.split dest!: map_of_SomeD)

section \<open>The switches\<close>

lemma struct_number_known:
  "struct_number m \<in> set methods_with_fields" "struct_number m \<notin> set methods_without_fields"
  by (cases m; simp add: methods_with_fields_def methods_without_fields_def method_number_defs)+

lemma view_as_self [simp]: "view_as (struct_number m) m = Some m"
  by (simp add: view_as_def)

lemma encode_method_struct:
  "encode_method (struct_number m) (Some m) = and_then (encode_struct m) (\<lambda>_. get_offset)"
  by (simp add: encode_method_def struct_number_known)

lemma decode_no_fields: "n \<in> set methods_without_fields \<Longrightarrow> decode_method n v = ret None"
  unfolding methods_without_fields_def using decode_method_cases [of v] by (auto simp: no_fields_def)

lemma decode_cases_keys: "set (map fst decode_cases) = set methods_with_fields \<union> set methods_without_fields"
  by (auto simp: decode_cases_def methods_with_fields_def methods_without_fields_def)

lemma unknown_method:
  assumes "n \<notin> set methods_with_fields" and "n \<notin> set methods_without_fields"
  shows "decode_method n v = raise AMQP_STATUS_UNKNOWN_METHOD" "encode_method n d = raise AMQP_STATUS_UNKNOWN_METHOD"
proof -
  have "map_of decode_cases n = None"
    using assms decode_cases_keys by (simp add: map_of_eq_None_iff)
  then show "decode_method n v = raise AMQP_STATUS_UNKNOWN_METHOD" by (simp add: decode_method_def)
qed (use assms in \<open>simp add: encode_method_def\<close>)

definition method_wire :: "amqp_method_struct option \<Rightarrow> bytes" where
  "method_wire d = (case d of None \<Rightarrow> [] | Some m \<Rightarrow> method_bytes m)"

definition wf_method :: "u32 \<Rightarrow> amqp_method_struct option \<Rightarrow> bool" where
  "wf_method n d = (case d of None \<Rightarrow> n \<in> set methods_without_fields
     | Some m \<Rightarrow> struct_number m = n \<and> method_wf m)"

lemma emits_then_unit:
  assumes "emits m bs" shows "emits (and_then (and_then m (\<lambda>_. get_offset)) (\<lambda>_. ret ())) bs"
proof -
  have "and_then get_offset (\<lambda>_. ret ()) = ret ()" by (simp add: fun_eq_iff run_and_then)
  then show ?thesis using emits_and_then [OF assms, of "\<lambda>_. ret ()" "[]"] emits_ret by (simp add: and_then_assoc del: run_ret)
qed

interpretation method_codec: wire_codec "\<lambda>d. and_then (encode_method n d) (\<lambda>_. ret ())" "decode_method n"
    method_wire "wf_method n" for n
proof
  fix d :: "amqp_method_struct option" and v
  assume wf: "wf_method n d"
  show "emits (and_then (encode_method n d) (\<lambda>_. ret ())) (method_wire d)"
  proof (cases d)
    case None
    with wf have "encode_method n d = and_then (ret ()) (\<lambda>_. get_offset)"
      by (simp add: wf_method_def encode_method_def del: run_ret run_offset)
    with None show ?thesis using emits_then_unit [OF emits_ret] by (simp add: method_wire_def del: run_ret)
  next
    case (Some m)
    with wf have "encode_method n d = and_then (encode_struct m) (\<lambda>_. get_offset)" "method_wf m"
      by (auto simp: wf_method_def encode_method_struct)
    with Some show ?thesis using emits_then_unit [OF emits_encode_struct] by (simp add: method_wire_def del: run_ret)
  qed
  show "parses v (decode_method n v) (method_wire d) d"
    using wf by (cases d) (auto simp: wf_method_def method_wire_def decode_no_fields parses_decode_method parses_ret simp del: run_ret)
qed

lemma pool_inv_extend [simp]: "pool_inv (pool_state.extend s f) = pool_inv s"
  "pool_inv (pool_state.truncate t) = pool_inv t"
  by (simp_all add: pool_inv_def heap_fresh_def pool_state.defs)

lemma granting_extend [simp]: "granting (pool_state.extend s f) = granting s"
  by (simp add: granting_def pool_state.defs)

lemma extend_simps:
  "grants (pool_state.extend s f) = grants s" "next_id (pool_state.extend s f) = next_id s"
  "live (pool_state.extend s f) = live s" "the_pool (pool_state.extend s f) = the_pool s"
  "grants (pool_state.truncate t) = grants t" "next_id (pool_state.truncate t) = next_id t"
  "live (pool_state.truncate t) = live t" "the_pool (pool_state.truncate t) = the_pool t"
  by (simp_all add: pool_state.defs)

lemma extend_predicates:
  "handed (pool_state.extend s f) = handed s" "foreign (pool_state.extend s f) = foreign s"
  "unowned (pool_state.extend s f) = unowned s"
  "handed (pool_state.truncate t) = handed t" "foreign (pool_state.truncate t) = foreign t"
  "unowned (pool_state.truncate t) = unowned t"
  by (rule ext, simp only: handed_def foreign_def unowned_def heap_fresh_def extend_simps)+

lemma mem_step_extend: "mem_step (pool_state.extend s f) t = mem_step s (pool_state.truncate t)"
  unfolding mem_step_def mem_step_minus_def by (simp only: extend_predicates extend_simps pool_inv_extend)

lemma rd_off_start [simp]: "rd_off (pool_state.extend s (rd.fields i)) = i"
  by (simp add: pool_state.defs rd.defs)

lemma from_start_safe:
  assumes "reads v (view_len v) 0 m" shows "safe pool_inv mem_step (from_start m)"
proof (rule safeI)
  fix s r s'
  assume s: "pool_inv s" and run: "from_start m s = (r, s')"
  obtain q t where q: "m (pool_state.extend s (rd.fields 0)) = (q, t)" by fastforce
  have "returns q" "rd_step (pool_state.extend s (rd.fields 0)) t" "pool_inv t"
    using readsD [OF assms _ _ _ q] s by simp_all
  with q run show "returns r \<and> pool_inv s' \<and> mem_step s s'"
    by (auto simp: from_start_def rd_step_def mem_step_extend)
qed

lemma from_start_parses:
  assumes m: "parses (bytes_view bs) m bs x" and s: "pool_inv s" "granting s"
  shows "\<exists>s'. from_start m s = (Ok x, s') \<and> mem_step s s'"
proof -
  have "holds (bytes_view bs) (rd_off (pool_state.extend s (rd.fields 0))) bs"
    by (simp add: holds_def bytes_view_def slice_def)
  with m s obtain t where "m (pool_state.extend s (rd.fields 0)) = (Ok x, t)"
    "mem_step (pool_state.extend s (rd.fields 0)) t"
    by (metis parsesE granting_extend pool_inv_extend(1))
  then show ?thesis by (auto simp: from_start_def mem_step_extend)
qed

lemma encode_method_wire:
  assumes "wf_method n d" and "wr_at s" and "wr_off s + length (method_wire d) \<le> wr_len s"
  shows "encode_method n d s = (Ok (wr_off s + length (method_wire d)), written s (method_wire d))"
proof (cases d)
  case None
  then show ?thesis using assms by (simp add: wf_method_def encode_method_def method_wire_def)
next
  case (Some m)
  with assms have "encode_struct m s = (Ok (), written s (method_bytes m))"
    by (intro emits_fits emits_encode_struct) (auto simp: wf_method_def method_wire_def)
  with Some assms show ?thesis
    by (auto simp: wf_method_def encode_method_struct and_then_Ok method_wire_def)
qed

lemma safe_decode_method:
  assumes "view_ok v"
  shows "safe pool_inv mem_step (amqp_decode_method n v)"
  unfolding amqp_decode_method_def by (rule from_start_safe [OF reads_decode_method [OF assms]])

section \<open>Properties\<close>

text \<open>
  C1: for each of the 62 methods, \<^verbatim>\<open>amqp_decode_method\<close> undoes \<^verbatim>\<open>amqp_encode_method\<close>: encoding
  returns the number of bytes written, those bytes are the method's wire format, and decoding them
  under the same method number gives back every field.
\<close>

theorem method_round_trip:
  assumes "wf_method n d" and "wr_ok s" and "length (method_wire d) \<le> wr_len s"
    and "pool_inv t" and "granting t"
  shows "\<exists>s' t'. amqp_encode_method n d s = (Ok (length (method_wire d)), s') \<and>
    take (length (method_wire d)) (wr_buf s') = method_wire d \<and>
    amqp_decode_method n (bytes_view (take (length (method_wire d)) (wr_buf s'))) t = (Ok d, t') \<and> mem_step t t'"
proof -
  let ?s = "s\<lparr>wr_off := 0\<rparr>" let ?s' = "written ?s (method_wire d)"
  have "wr_at ?s" using assms(2) by (simp add: wr_at_def wr_ok_def)
  then have "amqp_encode_method n d s = (Ok (length (method_wire d)), ?s')"
    using encode_method_wire [OF assms(1)] assms(3) by (simp add: amqp_encode_method_def and_then_Ok)
  moreover have "take (length (method_wire d)) (wr_buf ?s') = method_wire d"
    using assms(2,3) by (simp add: written_def splice_def wr_ok_def)
  moreover have "\<exists>t'. amqp_decode_method n (bytes_view (method_wire d)) t = (Ok d, t') \<and> mem_step t t'"
    unfolding amqp_decode_method_def
    by (rule from_start_parses [OF method_codec.decode_parses [OF assms(1)] assms(4,5)])
  ultimately show ?thesis by (intro exI [of _ ?s']) simp
qed

theorem method_round_trip_witness:
  "\<exists>s' t'. amqp_encode_method AMQP_BASIC_ACK_METHOD (Some (amqp_basic_ack_t 7 True)) sample_wr = (Ok (length (method_wire (Some (amqp_basic_ack_t 7 True)))), s') \<and>
    take (length (method_wire (Some (amqp_basic_ack_t 7 True)))) (wr_buf s') = method_wire (Some (amqp_basic_ack_t 7 True)) \<and>
    amqp_decode_method AMQP_BASIC_ACK_METHOD (bytes_view (take (length (method_wire (Some (amqp_basic_ack_t 7 True)))) (wr_buf s')))
      (start_state (\<lambda>_. True) 0) = (Ok (Some (amqp_basic_ack_t 7 True)), t') \<and> mem_step (start_state (\<lambda>_. True) 0) t'"
  by (rule method_round_trip)
    (simp_all add: wf_method_def sample_wr_def wr_ok_def method_wire_def granting_def start_state_def [THEN arg_cong, of grants])

text \<open>
  Decoding a method, whatever the method number and the bytes, returns: with a struct, or with
  an error.  It never reads outside the bytes it was given, keeps the pool well formed, and
  touches nothing else in the heap.
\<close>

theorem decode_method_any_bytes:
  assumes "view_ok v"
  shows "safe pool_inv mem_step (amqp_decode_method n v)"
  using assms by (rule safe_decode_method)

theorem decode_method_any_bytes_witness:
  "safe pool_inv mem_step (amqp_decode_method AMQP_QUEUE_BIND_METHOD (bytes_view [0, 0, 200]))"
  by (rule decode_method_any_bytes) (simp add: view_ok_def bytes_view_def)

text \<open>
  Encoding a struct under its own method number stays within the buffer and returns, also when
  strings are too long for their length fields or the buffer is too short.
\<close>

theorem encode_method_safe: "safe wr_ok wr_step (encode_method (struct_number m) (Some m))"
proof -
  have "safe wr_ok wr_step get_offset" by (rule safeI) (auto simp: get_offset_def)
  then show ?thesis unfolding encode_method_struct by (intro writers.safe_and_then safe_encode_struct)
qed

text \<open>
  The switches agree on which method numbers exist: a number without a name is in no case of
  the decoder or the encoder, and both reject it with \<^verbatim>\<open>AMQP_STATUS_UNKNOWN_METHOD\<close>, whatever
  the bytes or the struct.
\<close>

theorem method_switches_agree:
  assumes "amqp_method_name n = None"
  shows "n \<notin> set methods_with_fields \<union> set methods_without_fields \<and>
   decode_method n v = raise AMQP_STATUS_UNKNOWN_METHOD \<and> encode_method n d = raise AMQP_STATUS_UNKNOWN_METHOD"
proof -
  have "fst ` set method_names = set methods_with_fields \<union> set methods_without_fields"
    by (auto simp: method_names_def methods_with_fields_def methods_without_fields_def)
  then show ?thesis
    using assms unknown_method [of n] by (auto simp: amqp_method_name_def map_of_eq_None_iff)
qed

theorem method_switches_agree_witness:
  "0x000A0001 \<notin> set methods_with_fields \<union> set methods_without_fields \<and>
   decode_method 0x000A0001 (bytes_view []) = raise AMQP_STATUS_UNKNOWN_METHOD \<and>
   encode_method 0x000A0001 None = raise AMQP_STATUS_UNKNOWN_METHOD"
  by (rule method_switches_agree) (simp add: amqp_method_name_def method_names_def method_number_defs)

end
