(* ===== verification/Content.thy ===== *)
theory Content
  imports Framing
begin

text \<open>
  Content headers: \<^verbatim>\<open>amqp_decode_properties\<close> and \<^verbatim>\<open>amqp_encode_properties\<close> of
  \<^verbatim>\<open>amqp_framing.c\<close>.  The property list starts with its flag words, 15 flags and a continuation bit
  each; a field is on the wire when its flag is set.

  A decoded struct lies in a block of the pool, and the decoder writes only the fields whose flags
  are set.  The others keep what the block held, which is the parameter \<open>block\<close>.
\<close>

unbundle bit_operations_syntax

section \<open>Data\<close>

type_synonym amqp_flags = u32

definition AMQP_BASIC_CONTENT_TYPE_FLAG :: amqp_flags where "AMQP_BASIC_CONTENT_TYPE_FLAG = push_bit 15 1"
definition AMQP_BASIC_CONTENT_ENCODING_FLAG :: amqp_flags where "AMQP_BASIC_CONTENT_ENCODING_FLAG = push_bit 14 1"
definition AMQP_BASIC_HEADERS_FLAG :: amqp_flags where "AMQP_BASIC_HEADERS_FLAG = push_bit 13 1"
definition AMQP_BASIC_DELIVERY_MODE_FLAG :: amqp_flags where "AMQP_BASIC_DELIVERY_MODE_FLAG = push_bit 12 1"
definition AMQP_BASIC_PRIORITY_FLAG :: amqp_flags where "AMQP_BASIC_PRIORITY_FLAG = push_bit 11 1"
definition AMQP_BASIC_CORRELATION_ID_FLAG :: amqp_flags where "AMQP_BASIC_CORRELATION_ID_FLAG = push_bit 10 1"
definition AMQP_BASIC_REPLY_TO_FLAG :: amqp_flags where "AMQP_BASIC_REPLY_TO_FLAG = push_bit 9 1"
definition AMQP_BASIC_EXPIRATION_FLAG :: amqp_flags where "AMQP_BASIC_EXPIRATION_FLAG = push_bit 8 1"
definition AMQP_BASIC_MESSAGE_ID_FLAG :: amqp_flags where "AMQP_BASIC_MESSAGE_ID_FLAG = push_bit 7 1"
definition AMQP_BASIC_TIMESTAMP_FLAG :: amqp_flags where "AMQP_BASIC_TIMESTAMP_FLAG = push_bit 6 1"
definition AMQP_BASIC_TYPE_FLAG :: amqp_flags where "AMQP_BASIC_TYPE_FLAG = push_bit 5 1"
definition AMQP_BASIC_USER_ID_FLAG :: amqp_flags where "AMQP_BASIC_USER_ID_FLAG = push_bit 4 1"
definition AMQP_BASIC_APP_ID_FLAG :: amqp_flags where "AMQP_BASIC_APP_ID_FLAG = push_bit 3 1"
definition AMQP_BASIC_CLUSTER_ID_FLAG :: amqp_flags where "AMQP_BASIC_CLUSTER_ID_FLAG = push_bit 2 1"

lemmas flag_defs =
  AMQP_BASIC_CONTENT_TYPE_FLAG_def AMQP_BASIC_CONTENT_ENCODING_FLAG_def
  AMQP_BASIC_HEADERS_FLAG_def AMQP_BASIC_DELIVERY_MODE_FLAG_def
  AMQP_BASIC_PRIORITY_FLAG_def AMQP_BASIC_CORRELATION_ID_FLAG_def
  AMQP_BASIC_REPLY_TO_FLAG_def AMQP_BASIC_EXPIRATION_FLAG_def
  AMQP_BASIC_MESSAGE_ID_FLAG_def AMQP_BASIC_TIMESTAMP_FLAG_def
  AMQP_BASIC_TYPE_FLAG_def AMQP_BASIC_USER_ID_FLAG_def
  AMQP_BASIC_APP_ID_FLAG_def AMQP_BASIC_CLUSTER_ID_FLAG_def

record amqp_basic_properties =
  p_flags :: amqp_flags
  p_content_type :: bytes
  p_content_encoding :: bytes
  p_headers :: amqp_table
  p_delivery_mode :: u8
  p_priority :: u8
  p_correlation_id :: bytes
  p_reply_to :: bytes
  p_expiration :: bytes
  p_message_id :: bytes
  p_timestamp :: u64
  p_type :: bytes
  p_user_id :: bytes
  p_app_id :: bytes
  p_cluster_id :: bytes

text \<open>The property structs of the classes other than basic hold the flags only.\<close>

datatype amqp_properties =
    Class_properties amqp_flags
  | Basic_properties amqp_basic_properties

fun properties_flags :: "amqp_properties \<Rightarrow> amqp_flags" where
  "properties_flags (Class_properties flags) = flags"
| "properties_flags (Basic_properties p) = p_flags p"

definition AMQP_BASIC_CLASS :: u16 where "AMQP_BASIC_CLASS = 60"

definition other_classes :: "u16 list" where
  "other_classes = [10, 20, 30, 40, 50, 90, 85]"

section \<open>Flag words\<close>

text \<open>
  The decoder's loop.  \<^verbatim>\<open>partial_flags << (flagword_index * 16)\<close> shifts a 32-bit \<^verbatim>\<open>int\<close>: from
  the third word on the distance is 32 or more, which is undefined.
\<close>

primrec decode_flags :: "nat \<Rightarrow> view \<Rightarrow> amqp_flags \<Rightarrow> nat \<Rightarrow> (rd, amqp_flags) cm" where
  "decode_flags 0 v flags flagword_index = out_of_fuel"
| "decode_flags (Suc n) v flags flagword_index =
     and_then (bad (amqp_decode_16 v)) (\<lambda>partial_flags.
     if 32 \<le> flagword_index * 16 then undef
     else let flags = flags OR push_bit (flagword_index * 16) (ucast partial_flags) in
       if partial_flags AND 1 \<noteq> 0 then decode_flags n v flags (flagword_index + 1) else ret flags)"

lemma drop_bit_smaller: "drop_bit 16 w \<noteq> 0 \<Longrightarrow> unat (drop_bit 16 (w :: u32)) < unat w"
proof -
  assume "drop_bit 16 w \<noteq> 0"
  then have "w \<noteq> 0" by auto
  then have "0 < unat w" by (simp add: unat_gt_0)
  then show ?thesis by (subst unat_drop_bit_eq) (simp add: drop_bit_eq_div)
qed

function encode_flags :: "amqp_flags \<Rightarrow> (wr, unit) cm" where
  "encode_flags remaining_flags =
     (let remainder = drop_bit 16 remaining_flags;
          partial_flags = ucast (remaining_flags AND 0xFFFE) :: u16;
          partial_flags = (if remainder \<noteq> 0 then partial_flags OR 1 else partial_flags)
      in and_then (bad (amqp_encode_16 partial_flags)) (\<lambda>_.
         if remainder \<noteq> 0 then encode_flags remainder else ret ()))"
  by pat_completeness auto

termination by (relation "measure unat") (auto simp: drop_bit_smaller)

declare encode_flags.simps [simp del]

section \<open>Decoding\<close>

definition if_flag :: "amqp_flags \<Rightarrow> amqp_flags \<Rightarrow> (rd, 'a) cm \<Rightarrow>
    (('a \<Rightarrow> 'a) \<Rightarrow> amqp_basic_properties \<Rightarrow> amqp_basic_properties) \<Rightarrow> amqp_basic_properties \<Rightarrow>
    (rd, amqp_basic_properties) cm" where
  "if_flag flags f m upd p =
     (if flags AND f \<noteq> 0 then and_then m (\<lambda>x. ret (upd (\<lambda>_. x) p)) else ret p)"

definition decode_basic_properties :: "view \<Rightarrow> amqp_flags \<Rightarrow> amqp_basic_properties \<Rightarrow>
    (rd, amqp_basic_properties) cm" where
  "decode_basic_properties v flags p =
     and_then (if_flag flags AMQP_BASIC_CONTENT_TYPE_FLAG (decode_shortstr v) p_content_type_update p) (\<lambda>p.
     and_then (if_flag flags AMQP_BASIC_CONTENT_ENCODING_FLAG (decode_shortstr v) p_content_encoding_update p) (\<lambda>p.
     and_then (if_flag flags AMQP_BASIC_HEADERS_FLAG (amqp_decode_table v) p_headers_update p) (\<lambda>p.
     and_then (if_flag flags AMQP_BASIC_DELIVERY_MODE_FLAG (bad (amqp_decode_8 v)) p_delivery_mode_update p) (\<lambda>p.
     and_then (if_flag flags AMQP_BASIC_PRIORITY_FLAG (bad (amqp_decode_8 v)) p_priority_update p) (\<lambda>p.
     and_then (if_flag flags AMQP_BASIC_CORRELATION_ID_FLAG (decode_shortstr v) p_correlation_id_update p) (\<lambda>p.
     and_then (if_flag flags AMQP_BASIC_REPLY_TO_FLAG (decode_shortstr v) p_reply_to_update p) (\<lambda>p.
     and_then (if_flag flags AMQP_BASIC_EXPIRATION_FLAG (decode_shortstr v) p_expiration_update p) (\<lambda>p.
     and_then (if_flag flags AMQP_BASIC_MESSAGE_ID_FLAG (decode_shortstr v) p_message_id_update p) (\<lambda>p.
     and_then (if_flag flags AMQP_BASIC_TIMESTAMP_FLAG (bad (amqp_decode_64 v)) p_timestamp_update p) (\<lambda>p.
     and_then (if_flag flags AMQP_BASIC_TYPE_FLAG (decode_shortstr v) p_type_update p) (\<lambda>p.
     and_then (if_flag flags AMQP_BASIC_USER_ID_FLAG (decode_shortstr v) p_user_id_update p) (\<lambda>p.
     and_then (if_flag flags AMQP_BASIC_APP_ID_FLAG (decode_shortstr v) p_app_id_update p) (\<lambda>p.
     if_flag flags AMQP_BASIC_CLUSTER_ID_FLAG (decode_shortstr v) p_cluster_id_update p)))))))))))))"

definition decode_properties :: "u16 \<Rightarrow> amqp_basic_properties \<Rightarrow> view \<Rightarrow> (rd, amqp_properties) cm" where
  "decode_properties class_id block v =
     and_then (decode_flags (Suc (view_len v)) v 0 0) (\<lambda>flags.
     if class_id \<in> set other_classes then
       and_then (pool_struct 8) (\<lambda>_. ret (Class_properties flags))
     else if class_id = AMQP_BASIC_CLASS then
       and_then (pool_struct 200) (\<lambda>_.
       and_then (decode_basic_properties v flags (block\<lparr>p_flags := flags\<rparr>)) (\<lambda>p.
       ret (Basic_properties p)))
     else raise AMQP_STATUS_UNKNOWN_CLASS)"

definition amqp_decode_properties :: "u16 \<Rightarrow> amqp_basic_properties \<Rightarrow> view \<Rightarrow> (pool_state, amqp_properties) cm" where
  "amqp_decode_properties class_id block v = from_start (decode_properties class_id block v)"

section \<open>Encoding\<close>

definition when_flag :: "amqp_flags \<Rightarrow> amqp_flags \<Rightarrow> (wr, unit) cm \<Rightarrow> (wr, unit) cm" where
  "when_flag flags f m = (if flags AND f \<noteq> 0 then m else ret ())"

definition encode_basic_properties :: "amqp_basic_properties \<Rightarrow> (wr, unit) cm" where
  "encode_basic_properties p =
     and_then (when_flag (p_flags p) AMQP_BASIC_CONTENT_TYPE_FLAG (encode_shortstr (p_content_type p))) (\<lambda>_.
     and_then (when_flag (p_flags p) AMQP_BASIC_CONTENT_ENCODING_FLAG (encode_shortstr (p_content_encoding p))) (\<lambda>_.
     and_then (when_flag (p_flags p) AMQP_BASIC_HEADERS_FLAG (amqp_encode_table (p_headers p))) (\<lambda>_.
     and_then (when_flag (p_flags p) AMQP_BASIC_DELIVERY_MODE_FLAG (bad (amqp_encode_8 (p_delivery_mode p)))) (\<lambda>_.
     and_then (when_flag (p_flags p) AMQP_BASIC_PRIORITY_FLAG (bad (amqp_encode_8 (p_priority p)))) (\<lambda>_.
     and_then (when_flag (p_flags p) AMQP_BASIC_CORRELATION_ID_FLAG (encode_shortstr (p_correlation_id p))) (\<lambda>_.
     and_then (when_flag (p_flags p) AMQP_BASIC_REPLY_TO_FLAG (encode_shortstr (p_reply_to p))) (\<lambda>_.
     and_then (when_flag (p_flags p) AMQP_BASIC_EXPIRATION_FLAG (encode_shortstr (p_expiration p))) (\<lambda>_.
     and_then (when_flag (p_flags p) AMQP_BASIC_MESSAGE_ID_FLAG (encode_shortstr (p_message_id p))) (\<lambda>_.
     and_then (when_flag (p_flags p) AMQP_BASIC_TIMESTAMP_FLAG (bad (amqp_encode_64 (p_timestamp p)))) (\<lambda>_.
     and_then (when_flag (p_flags p) AMQP_BASIC_TYPE_FLAG (encode_shortstr (p_type p))) (\<lambda>_.
     and_then (when_flag (p_flags p) AMQP_BASIC_USER_ID_FLAG (encode_shortstr (p_user_id p))) (\<lambda>_.
     and_then (when_flag (p_flags p) AMQP_BASIC_APP_ID_FLAG (encode_shortstr (p_app_id p))) (\<lambda>_.
     when_flag (p_flags p) AMQP_BASIC_CLUSTER_ID_FLAG (encode_shortstr (p_cluster_id p)))))))))))))))"

definition encode_properties :: "u16 \<Rightarrow> amqp_properties \<Rightarrow> (wr, nat) cm" where
  "encode_properties class_id decoded =
     and_then (encode_flags (properties_flags decoded)) (\<lambda>_.
     if class_id \<in> set other_classes then get_offset
     else if class_id = AMQP_BASIC_CLASS then
       (case decoded of Class_properties _ \<Rightarrow> undef
        | Basic_properties p \<Rightarrow> and_then (encode_basic_properties p) (\<lambda>_. get_offset))
     else raise AMQP_STATUS_UNKNOWN_CLASS)"

definition amqp_encode_properties :: "u16 \<Rightarrow> amqp_properties \<Rightarrow> (wr, nat) cm" where
  "amqp_encode_properties class_id decoded =
     and_then (set_offset 0) (\<lambda>_. encode_properties class_id decoded)"

section \<open>The wire format\<close>

definition flag_bytes :: "amqp_flags \<Rightarrow> bytes" where
  "flag_bytes flags = (if drop_bit 16 flags = 0 then be16 (ucast flags)
     else be16 (ucast flags) @ be16 (ucast (drop_bit 16 flags)))"

text \<open>The continuation bits say how many words there are.\<close>

definition wf_flags :: "amqp_flags \<Rightarrow> bool" where
  "wf_flags flags \<longleftrightarrow> (bit flags 0 \<longleftrightarrow> drop_bit 16 flags \<noteq> 0) \<and> \<not> bit flags 16"

definition when_set :: "amqp_flags \<Rightarrow> amqp_flags \<Rightarrow> 'a list \<Rightarrow> 'a list" where
  "when_set flags f bs = (if flags AND f \<noteq> 0 then bs else [])"

definition basic_bytes :: "amqp_basic_properties \<Rightarrow> bytes" where
  "basic_bytes p =
     when_set (p_flags p) AMQP_BASIC_CONTENT_TYPE_FLAG (short_bytes (p_content_type p)) @
     when_set (p_flags p) AMQP_BASIC_CONTENT_ENCODING_FLAG (short_bytes (p_content_encoding p)) @
     when_set (p_flags p) AMQP_BASIC_HEADERS_FLAG (sized (table_bytes (p_headers p))) @
     when_set (p_flags p) AMQP_BASIC_DELIVERY_MODE_FLAG (be8 (p_delivery_mode p)) @
     when_set (p_flags p) AMQP_BASIC_PRIORITY_FLAG (be8 (p_priority p)) @
     when_set (p_flags p) AMQP_BASIC_CORRELATION_ID_FLAG (short_bytes (p_correlation_id p)) @
     when_set (p_flags p) AMQP_BASIC_REPLY_TO_FLAG (short_bytes (p_reply_to p)) @
     when_set (p_flags p) AMQP_BASIC_EXPIRATION_FLAG (short_bytes (p_expiration p)) @
     when_set (p_flags p) AMQP_BASIC_MESSAGE_ID_FLAG (short_bytes (p_message_id p)) @
     when_set (p_flags p) AMQP_BASIC_TIMESTAMP_FLAG (be64 (p_timestamp p)) @
     when_set (p_flags p) AMQP_BASIC_TYPE_FLAG (short_bytes (p_type p)) @
     when_set (p_flags p) AMQP_BASIC_USER_ID_FLAG (short_bytes (p_user_id p)) @
     when_set (p_flags p) AMQP_BASIC_APP_ID_FLAG (short_bytes (p_app_id p)) @
     when_set (p_flags p) AMQP_BASIC_CLUSTER_ID_FLAG (short_bytes (p_cluster_id p))"

definition properties_bytes :: "amqp_properties \<Rightarrow> bytes" where
  "properties_bytes d = flag_bytes (properties_flags d) @
     (case d of Class_properties _ \<Rightarrow> [] | Basic_properties p \<Rightarrow> basic_bytes p)"

definition wf_basic :: "amqp_basic_properties \<Rightarrow> bool" where
  "wf_basic p \<longleftrightarrow> wf_flags (p_flags p) \<and> wf_table (p_headers p) \<and>
     length (p_content_type p) < 256 \<and>
     length (p_content_encoding p) < 256 \<and>
     length (p_correlation_id p) < 256 \<and>
     length (p_reply_to p) < 256 \<and>
     length (p_expiration p) < 256 \<and>
     length (p_message_id p) < 256 \<and>
     length (p_type p) < 256 \<and>
     length (p_user_id p) < 256 \<and>
     length (p_app_id p) < 256 \<and>
     length (p_cluster_id p) < 256"

definition wf_properties :: "u16 \<Rightarrow> amqp_properties \<Rightarrow> bool" where
  "wf_properties class_id d \<longleftrightarrow> (case d of
     Class_properties flags \<Rightarrow> class_id \<in> set other_classes \<and> wf_flags flags
   | Basic_properties p \<Rightarrow> class_id = AMQP_BASIC_CLASS \<and> wf_basic p)"

text \<open>What is in the struct after decoding: the fields that were sent, on top of the old block.\<close>

definition set_if :: "amqp_flags \<Rightarrow> amqp_flags \<Rightarrow> (('a \<Rightarrow> 'a) \<Rightarrow> amqp_basic_properties \<Rightarrow> amqp_basic_properties) \<Rightarrow>
    'a \<Rightarrow> amqp_basic_properties \<Rightarrow> amqp_basic_properties" where
  "set_if flags f upd x q = (if flags AND f \<noteq> 0 then upd (\<lambda>_. x) q else q)"

definition overlay :: "amqp_basic_properties \<Rightarrow> amqp_basic_properties \<Rightarrow> amqp_basic_properties" where
  "overlay p block =
     set_if (p_flags p) AMQP_BASIC_CLUSTER_ID_FLAG p_cluster_id_update (p_cluster_id p) (
     set_if (p_flags p) AMQP_BASIC_APP_ID_FLAG p_app_id_update (p_app_id p) (
     set_if (p_flags p) AMQP_BASIC_USER_ID_FLAG p_user_id_update (p_user_id p) (
     set_if (p_flags p) AMQP_BASIC_TYPE_FLAG p_type_update (p_type p) (
     set_if (p_flags p) AMQP_BASIC_TIMESTAMP_FLAG p_timestamp_update (p_timestamp p) (
     set_if (p_flags p) AMQP_BASIC_MESSAGE_ID_FLAG p_message_id_update (p_message_id p) (
     set_if (p_flags p) AMQP_BASIC_EXPIRATION_FLAG p_expiration_update (p_expiration p) (
     set_if (p_flags p) AMQP_BASIC_REPLY_TO_FLAG p_reply_to_update (p_reply_to p) (
     set_if (p_flags p) AMQP_BASIC_CORRELATION_ID_FLAG p_correlation_id_update (p_correlation_id p) (
     set_if (p_flags p) AMQP_BASIC_PRIORITY_FLAG p_priority_update (p_priority p) (
     set_if (p_flags p) AMQP_BASIC_DELIVERY_MODE_FLAG p_delivery_mode_update (p_delivery_mode p) (
     set_if (p_flags p) AMQP_BASIC_HEADERS_FLAG p_headers_update (p_headers p) (
     set_if (p_flags p) AMQP_BASIC_CONTENT_ENCODING_FLAG p_content_encoding_update (p_content_encoding p) (
     set_if (p_flags p) AMQP_BASIC_CONTENT_TYPE_FLAG p_content_type_update (p_content_type p) (
     block\<lparr>p_flags := p_flags p\<rparr>))))))))))))))"

fun overlaid :: "amqp_properties \<Rightarrow> amqp_basic_properties \<Rightarrow> amqp_properties" where
  "overlaid (Class_properties flags) block = Class_properties flags"
| "overlaid (Basic_properties p) block = Basic_properties (overlay p block)"

lemma flag_set: "w AND push_bit n 1 \<noteq> 0 \<longleftrightarrow> bit w n" for w :: "'a::len word"
  by (simp add: push_bit_eq_mult and_exp_eq_0_iff_not_bit)

section \<open>Proofs: the flag words\<close>

lemma bit_FFFE: "bit (0xFFFE :: int) n \<longleftrightarrow> 0 < n \<and> n < 16"
proof -
  have "(0xFFFE :: int) = push_bit 1 (mask 15)" by (simp add: mask_eq_exp_minus_1)
  moreover have "bit (push_bit 1 (mask 15) :: int) n \<longleftrightarrow> 0 < n \<and> n < 16"
    by (simp only: bit_push_bit_iff bit_mask_iff possible_bit_def) auto
  ultimately show ?thesis by metis
qed

lemma first_word:
  assumes "wf_flags w"
  shows "(if drop_bit 16 w \<noteq> 0 then (ucast (w AND 0xFFFE) :: u16) OR 1 else ucast (w AND 0xFFFE)) = ucast w"
proof (rule bit_word_eqI)
  fix n assume "n < LENGTH(16)"
  with assms show "bit (if drop_bit 16 w \<noteq> 0 then (ucast (w AND 0xFFFE) :: u16) OR 1 else ucast (w AND 0xFFFE)) n =
      bit (ucast w :: u16) n"
    by (cases "n = 0") (auto simp: wf_flags_def bit_simps bit_FFFE)
qed

lemma second_word:
  assumes "wf_flags w"
  shows "(ucast (drop_bit 16 w AND 0xFFFE) :: u16) = ucast (drop_bit 16 w)"
proof (rule bit_word_eqI)
  fix n assume "n < LENGTH(16)"
  with assms show "bit (ucast (drop_bit 16 w AND 0xFFFE) :: u16) n = bit (ucast (drop_bit 16 w) :: u16) n"
    by (cases "n = 0") (auto simp: wf_flags_def bit_simps bit_FFFE)
qed

lemma drop_drop: "drop_bit 16 (drop_bit 16 w) = (0 :: u32)"
  by (rule bit_word_eqI) (auto simp: bit_simps dest: bit_imp_le_length)

lemma emits_encode_flags:
  assumes "wf_flags w" shows "emits (encode_flags w) (flag_bytes w)"
proof (cases "drop_bit 16 w = 0")
  case True
  then show ?thesis
    using first_word [OF assms] emits_and_then [OF emits_bad(2), of "\<lambda>_. ret ()" "[]" "ucast w"] emits_ret
    by (subst encode_flags.simps) (simp add: flag_bytes_def del: run_ret)
next
  case False
  have "encode_flags (drop_bit 16 w) = and_then (bad (amqp_encode_16 (ucast (drop_bit 16 w)))) (\<lambda>_. ret ())"
    using second_word [OF assms] by (subst encode_flags.simps) (simp only: drop_drop Let_def simp_thms if_False)
  then have "emits (encode_flags (drop_bit 16 w)) (be16 (ucast (drop_bit 16 w)) @ [])"
    using emits_and_then [OF emits_bad(2), of "\<lambda>_. ret ()" "[]" "ucast (drop_bit 16 w)"] emits_ret by simp
  then show ?thesis
    using False first_word [OF assms]
      emits_and_then [OF emits_bad(2), of "\<lambda>_. encode_flags (drop_bit 16 w)" _ "ucast w"]
    by (subst encode_flags.simps) (simp add: flag_bytes_def del: run_ret)
qed

lemma and_1: "w AND 1 = 0 \<longleftrightarrow> \<not> bit w 0" for w :: "'a::len word"
  using flag_set [of w 0] by (simp only: push_bit_0_id id_apply) blast

text \<open>The last word of a property list, and a word that is followed by another.\<close>

lemma parses_last_flags:
  assumes "\<not> bit x 0" and "i * 16 < 32"
  shows "parses v (decode_flags (Suc n) v flags i) (be16 x) (flags OR push_bit (i * 16) (ucast x))"
proof -
  have "parses v (and_then (bad (amqp_decode_16 v)) (\<lambda>partial_flags.
     if 32 \<le> i * 16 then undef
     else let flags = flags OR push_bit (i * 16) (ucast partial_flags) in
       if partial_flags AND 1 \<noteq> 0 then decode_flags n v flags (i + 1) else ret flags)) (be16 x @ [])
     (flags OR push_bit (i * 16) (ucast x))"
    using assms by (intro parses_and_then [OF parses_bad(2)]) (simp add: and_1 parses_ret Let_def del: run_ret)
  then show ?thesis by simp
qed

lemma parses_more_flags:
  assumes "bit x 0" and "i * 16 < 32"
    and "parses v (decode_flags n v (flags OR push_bit (i * 16) (ucast x)) (i + 1)) bs w"
  shows "parses v (decode_flags (Suc n) v flags i) (be16 x @ bs) w"
  unfolding decode_flags.simps
  by (rule parses_and_then [OF parses_bad(2)]) (use assms in \<open>simp add: and_1 Let_def\<close>)

lemma parses_decode_flags:
  assumes wf: "wf_flags w" shows "parses v (decode_flags (Suc (Suc n)) v 0 0) (flag_bytes w) w"
proof (cases "drop_bit 16 w = 0")
  case True
  have "ucast (ucast w :: u16) = w"
  proof (rule bit_word_eqI)
    fix n assume "n < LENGTH(32)"
    moreover have "\<not> bit w n" if "16 \<le> n"
    proof -
      have "bit (drop_bit 16 w) (n - 16) = bit w n" using that by (simp add: bit_simps)
      then show ?thesis using True by simp
    qed
    ultimately show "bit (ucast (ucast w :: u16) :: u32) n = bit w n"
      by (cases "n < 16") (auto simp: bit_simps)
  qed
  moreover have "\<not> bit (ucast w :: u16) 0" using True wf by (simp add: wf_flags_def bit_simps)
  ultimately show ?thesis
    using True parses_last_flags [of "ucast w" 0 v "Suc n" 0] by (simp add: flag_bytes_def)
next
  case False
  let ?hi = "ucast (drop_bit 16 w) :: u16"
  have "ucast (ucast w :: u16) OR push_bit 16 (ucast ?hi) = w"
  proof (rule bit_word_eqI)
    fix n assume "n < LENGTH(32)"
    then show "bit (ucast (ucast w :: u16) OR push_bit 16 (ucast ?hi) :: u32) n = bit w n"
      by (cases "n < 16") (auto simp: bit_simps)
  qed
  moreover have "bit (ucast w :: u16) 0" using False wf by (simp add: wf_flags_def bit_simps)
  moreover have "\<not> bit ?hi 0" using wf by (simp add: wf_flags_def bit_simps)
  ultimately have "parses v (decode_flags (Suc n) v (0 OR push_bit (0 * 16) (ucast (ucast w :: u16))) (0 + 1)) (be16 ?hi) w"
    "bit (ucast w :: u16) 0"
    using parses_last_flags [of ?hi 1 v n "ucast (ucast w :: u16)"] by simp_all
  then show ?thesis
    using False parses_more_flags [of "ucast w" 0 v "Suc n" 0] by (simp add: flag_bytes_def)
qed

section \<open>Proofs: the fields\<close>

lemma parses_if_flag:
  assumes "parses v m bs x"
  shows "parses v (if_flag flags f m upd p) (when_set flags f bs) (set_if flags f upd x p)"
  using assms by (simp add: if_flag_def when_set_def set_if_def parses_last parses_ret del: run_ret)

lemmas parses_field = parses_if_flag [OF parses_bad(1)] parses_if_flag [OF parses_bad(4)]
  parses_if_flag [OF parses_shortstr] parses_if_flag [OF parses_amqp_decode_table]

lemma parses_decode_basic:
  assumes "wf_basic p"
  shows "parses v (decode_basic_properties v (p_flags p) (block\<lparr>p_flags := p_flags p\<rparr>)) (basic_bytes p) (overlay p block)"
  unfolding decode_basic_properties_def basic_bytes_def overlay_def
  by (intro parses_and_then [OF parses_field(1)] parses_and_then [OF parses_field(2)]
      parses_and_then [OF parses_field(3)] parses_and_then [OF parses_field(4)] parses_field)
    (use assms in \<open>simp_all add: wf_basic_def\<close>)

lemma emits_when_flag: "emits m bs \<Longrightarrow> emits (when_flag flags f m) (when_set flags f bs)"
  by (simp add: when_flag_def when_set_def emits_ret del: run_ret)

lemma emits_encode_basic:
  assumes "wf_basic p" shows "emits (encode_basic_properties p) (basic_bytes p)"
  unfolding encode_basic_properties_def basic_bytes_def
  by (intro emits_and_then emits_when_flag emits_bad emits_shortstr emits_table)
    (use assms in \<open>simp_all add: wf_basic_def\<close>)

lemma emits_encode_properties:
  assumes "wf_properties n d"
  shows "emits (and_then (encode_properties n d) (\<lambda>_. ret ())) (properties_bytes d)"
proof -
  have c: "AMQP_BASIC_CLASS \<notin> set other_classes" by (simp add: other_classes_def AMQP_BASIC_CLASS_def)
  have o: "and_then get_offset (\<lambda>_. ret ()) = ret ()" by (simp add: fun_eq_iff run_and_then)
  show ?thesis
  proof (cases d)
    case (Class_properties flags)
    then have wf: "n \<in> set other_classes" "wf_flags flags" using assms by (auto simp: wf_properties_def)
    have "emits (and_then (encode_flags flags) (\<lambda>_. ret ())) (flag_bytes flags @ [])"
      by (intro emits_and_then emits_encode_flags wf emits_ret)
    then show ?thesis using wf Class_properties
      by (simp add: encode_properties_def properties_bytes_def and_then_assoc o del: run_ret)
  next
    case (Basic_properties p)
    then have wf: "n = AMQP_BASIC_CLASS" "wf_basic p" using assms by (auto simp: wf_properties_def)
    have "emits (and_then (encode_flags (p_flags p)) (\<lambda>_. and_then (encode_basic_properties p) (\<lambda>_. ret ())))
        (flag_bytes (p_flags p) @ basic_bytes p @ [])"
      using wf by (intro emits_and_then emits_encode_flags emits_encode_basic emits_ret) (simp_all add: wf_basic_def)
    then show ?thesis using wf c Basic_properties
      by (simp add: encode_properties_def properties_bytes_def and_then_assoc o del: run_ret)
  qed
qed

lemma parses_decode_properties:
  assumes "wf_properties n d"
  shows "parses v (decode_properties n block v) (properties_bytes d) (overlaid d block)"
proof (rule parses_if_holds)
  assume len: "length (properties_bytes d) \<le> view_len v"
  have "flag_bytes w \<noteq> []" for w by (simp add: flag_bytes_def be16_def)
  then have "0 < length (properties_bytes d)" by (simp add: properties_bytes_def)
  with len obtain m where m: "view_len v = Suc m" by (cases "view_len v") auto
  have c: "AMQP_BASIC_CLASS \<notin> set other_classes" by (simp add: other_classes_def AMQP_BASIC_CLASS_def)
  show "parses v (decode_properties n block v) (properties_bytes d) (overlaid d block)"
  proof (cases d)
    case (Class_properties flags)
    then have wf: "n \<in> set other_classes" "wf_flags flags" using assms by (auto simp: wf_properties_def)
    show ?thesis
      unfolding decode_properties_def properties_bytes_def m Class_properties properties_flags.simps
      by (rule parses_and_then [OF parses_decode_flags [OF wf(2)]])
        (simp add: wf parses_pool_struct parses_ret del: run_ret)
  next
    case (Basic_properties p)
    then have wf: "n = AMQP_BASIC_CLASS" "wf_basic p" "wf_flags (p_flags p)"
      using assms by (auto simp: wf_properties_def wf_basic_def)
    show ?thesis
      unfolding decode_properties_def properties_bytes_def m Basic_properties properties_flags.simps
      by (rule parses_and_then [OF parses_decode_flags [OF wf(3)]])
        (simp add: wf c parses_pool_struct parses_last [OF parses_decode_basic])
  qed
qed

interpretation properties_codec: wire_codec "\<lambda>d. and_then (encode_properties n d) (\<lambda>_. ret ())"
    "decode_properties n b" properties_bytes
    "\<lambda>d. wf_properties n d \<and> overlaid d b = d" for n b
proof
  fix d v assume wf: "wf_properties n d \<and> overlaid d b = d"
  then show "emits (and_then (encode_properties n d) (\<lambda>_. ret ())) (properties_bytes d)"
    by (simp add: emits_encode_properties)
  show "parses v (decode_properties n b v) (properties_bytes d) d"
    using wf parses_decode_properties [of n d v b] by simp
qed

section \<open>Proofs: arbitrary bytes\<close>

lemma reads_if_flag:
  assumes v: "view_ok v"
  shows "reads v k 0 (if_flag flags f (bad (amqp_decode_8 v)) upd p)"
    "reads v k 0 (if_flag flags f (bad (amqp_decode_64 v)) upd2 p)"
    "reads v k 0 (if_flag flags f (decode_shortstr v) upd3 p)"
    "reads v (view_len v) 0 (if_flag flags f (amqp_decode_table v) upd4 p)"
  unfolding if_flag_def by (intro reads_if method_reads v)+

lemma reads_zero_then: "reads v k 0 m \<Longrightarrow> (\<And>a. reads v k 0 (f a)) \<Longrightarrow> reads v k 0 (and_then m f)"
  using reads_and_then_loose [of v k 0 m 0 f] by simp

lemma reads_decode_basic: "view_ok v \<Longrightarrow> reads v (view_len v) 0 (decode_basic_properties v flags p)"
  unfolding decode_basic_properties_def by (intro reads_zero_then reads_if_flag)

definition decode_class :: "u16 \<Rightarrow> amqp_basic_properties \<Rightarrow> view \<Rightarrow> amqp_flags \<Rightarrow> (rd, amqp_properties) cm" where
  "decode_class class_id block v flags =
     (if class_id \<in> set other_classes then
       and_then (pool_struct 8) (\<lambda>_. ret (Class_properties flags))
     else if class_id = AMQP_BASIC_CLASS then
       and_then (pool_struct 200) (\<lambda>_.
       and_then (decode_basic_properties v flags (block\<lparr>p_flags := flags\<rparr>)) (\<lambda>p.
       ret (Basic_properties p)))
     else raise AMQP_STATUS_UNKNOWN_CLASS)"

lemma decode_properties_class:
  "decode_properties n b v = and_then (decode_flags (Suc (view_len v)) v 0 0) (decode_class n b v)"
  unfolding decode_properties_def decode_class_def ..

lemma reads_decode_class: "view_ok v \<Longrightarrow> reads v (view_len v) 0 (decode_class n b v flags)"
  unfolding decode_class_def
  by (intro reads_if reads_zero_then reads_pool_struct reads_decode_basic reads_ret reads_raise)

text \<open>At most two words: the second has no continuation bit.\<close>

definition few_flag_words :: "bytes \<Rightarrow> bool" where
  "few_flag_words bs \<longleftrightarrow> length bs < 4 \<or> \<not> bit (bs ! 1) 0 \<or> \<not> bit (bs ! 3) 0"

lemma d16_bit0: "(amqp_d16 host [a, b]) AND 1 \<noteq> 0 \<longleftrightarrow> bit b 0"
proof -
  have "amqp_d16 host [a, b] = of_be [a, b]" using amqp_d16_be [of host "of_be [a, b]"] by simp
  moreover have "bit (of_be [a, b] :: u16) 0 = bit b 0" by (simp add: of_be_def bit_simps)
  ultimately show ?thesis using and_1 [of "of_be [a, b] :: u16"] by simp
qed

lemma slice_two: "i + 2 \<le> length bs \<Longrightarrow> slice bs i 2 = [bs ! i, bs ! Suc i]"
  by (simp add: slice_def numeral_2_eq_2 Cons_nth_drop_Suc [symmetric])

lemma decode_16_run:
  assumes "view_ok v"
  shows "bad (amqp_decode_16 v) s =
    (if rd_off s + 2 \<le> view_len v
     then (Ok (amqp_d16 host [view_mem v ! rd_off s, view_mem v ! Suc (rd_off s)]), s\<lparr>rd_off := rd_off s + 2\<rparr>)
     else (Err AMQP_STATUS_BAD_AMQP_DATA, s\<lparr>rd_off := rd_off s + 2\<rparr>))"
  using assms by (simp add: bad_def or_return_def run_and_then amqp_decode_16_def take_bytes_def Let_def view_ok_def slice_two)

definition add_flags :: "view \<Rightarrow> amqp_flags \<Rightarrow> nat \<Rightarrow> nat \<Rightarrow> amqp_flags" where
  "add_flags v flags i off =
     flags OR push_bit (i * 16) (ucast (amqp_d16 host [view_mem v ! off, view_mem v ! Suc off]))"

lemma decode_flags_step:
  assumes "view_ok v"
  shows "decode_flags (Suc n) v flags i s =
    (let s' = s\<lparr>rd_off := rd_off s + 2\<rparr> in
     if view_len v < rd_off s + 2 then (Err AMQP_STATUS_BAD_AMQP_DATA, s')
     else if 32 \<le> i * 16 then (Undef, s')
     else if bit (view_mem v ! Suc (rd_off s)) 0 then decode_flags n v (add_flags v flags i (rd_off s)) (i + 1) s'
     else (Ok (add_flags v flags i (rd_off s)), s'))"
  unfolding decode_flags.simps run_and_then decode_16_run [OF assms]
  by (simp add: d16_bit0 [simplified] Let_def add_flags_def del: decode_flags.simps)

lemma decode_flags_run:
  assumes v: "view_ok v" and few: "few_flag_words (take (view_len v) (view_mem v))" and off: "rd_off s = 0"
    and run: "decode_flags (Suc (view_len v)) v 0 0 s = (r, s')"
  shows "returns r \<and> rd_step s s' \<and> (\<forall>a. r = Ok a \<longrightarrow> rd_off s' \<le> view_len v)"
proof -
  have 3: "\<not> bit (view_mem v ! 3) 0" if "4 \<le> view_len v" "bit (view_mem v ! 1) 0"
    using that few v by (simp add: few_flag_words_def view_ok_def)
  show ?thesis
  proof (cases "view_len v < 2 \<or> \<not> bit (view_mem v ! 1) 0")
    case True
    with run off show ?thesis
      by (auto simp: decode_flags_step [OF v] Let_def rd_step_def simp del: decode_flags.simps split: if_splits)
  next
    case False
    then obtain n where n: "view_len v = Suc n" by (cases "view_len v") auto
    with run off False have "decode_flags (Suc n) v (add_flags v 0 0 0) 1 (s\<lparr>rd_off := 2\<rparr>) = (r, s')"
      by (simp add: decode_flags_step [OF v, of "Suc n"] numeral_2_eq_2 del: decode_flags.simps)
    with off 3 False show ?thesis
      by (auto simp: decode_flags_step [OF v] Let_def rd_step_def numeral_3_eq_3 numeral_2_eq_2
          simp del: decode_flags.simps split: if_splits)
  qed
qed

lemma decode_properties_start:
  assumes v: "view_ok v" and few: "few_flag_words (take (view_len v) (view_mem v))"
    and s: "pool_inv s" "rd_off s = 0" and run: "decode_properties n b v s = (r, s')"
  shows "returns r \<and> pool_inv s' \<and> rd_step s s'"
proof -
  obtain q t where q: "decode_flags (Suc (view_len v)) v 0 0 s = (q, t)" by fastforce
  note 1 = decode_flags_run [OF v few s(2) q]
  then have t: "pool_inv t" "rd_step s t" using s(1) by (auto dest: rd_step_inv)
  show ?thesis
  proof (cases q)
    case (Ok flags)
    with run q have c: "decode_class n b v flags t = (r, s')" by (simp add: decode_properties_class and_then_Ok)
    have "rd_off t \<le> view_len v" using 1 Ok by simp
    from readsD [OF reads_decode_class [OF v] t(1) this _ c] t(2) show ?thesis by (auto intro: rd_step_trans)
  next
    case (Err e)
    with run q t show ?thesis by (auto simp: decode_properties_class and_then_Err)
  qed (use 1 in auto)
qed

lemma bytes_view_simps [simp]: "view_len (bytes_view bs) = length bs" "view_mem (bytes_view bs) = bs"
  by (simp_all add: bytes_view_def)

lemma amqp_encode_properties_run:
  assumes "wf_properties n d" and "wr_ok s" and "length (properties_bytes d) \<le> wr_len s"
  shows "amqp_encode_properties n d s =
    (Ok (length (properties_bytes d)), written (s\<lparr>wr_off := 0\<rparr>) (properties_bytes d))"
proof -
  let ?s = "s\<lparr>wr_off := 0\<rparr>" let ?s' = "written ?s (properties_bytes d)"
  have "wr_at ?s" using assms(2) by (simp add: wr_at_def wr_ok_def)
  with emits_encode_properties [OF assms(1)] assms(3)
  have run: "and_then (encode_properties n d) (\<lambda>_. ret ()) ?s = (Ok (), ?s')"
    by (intro emits_fits) (simp_all del: run_ret)
  then obtain k where k: "encode_properties n d ?s = (Ok k, ?s')" by (auto elim: and_then_OkE)
  have "k = wr_off ?s'"
    using k by (auto simp: encode_properties_def get_offset_def elim!: and_then_OkE split: if_splits amqp_properties.splits)
  with k show ?thesis by (simp add: amqp_encode_properties_def and_then_Ok)
qed

lemma amqp_encode_properties_short:
  assumes "wf_properties n d" and "wr_ok s" and "wr_len s < length (properties_bytes d)"
  shows "\<exists>e s'. amqp_encode_properties n d s = (Err e, s') \<and> e \<in> overflow_errors \<and> wr_step (s\<lparr>wr_off := 0\<rparr>) s'"
proof -
  have "wr_at (s\<lparr>wr_off := 0\<rparr>)" using assms(2) by (simp add: wr_at_def wr_ok_def)
  with emits_encode_properties [OF assms(1)] obtain e s' where
    "and_then (encode_properties n d) (\<lambda>_. ret ()) (s\<lparr>wr_off := 0\<rparr>) = (Err e, s')" "e \<in> overflow_errors"
    "wr_step (s\<lparr>wr_off := 0\<rparr>) s'"
    by (rule emits_overflow) (use assms(3) in simp)
  then show ?thesis
    by (auto simp: amqp_encode_properties_def run_and_then split: prod.splits outcome.splits)
qed

lemma safe_decode_properties:
  assumes "view_ok v" and "few_flag_words (take (view_len v) (view_mem v))"
  shows "safe pool_inv mem_step (amqp_decode_properties n block v)"
proof (rule safeI)
  fix s r s'
  assume s: "pool_inv s" and run: "amqp_decode_properties n block v s = (r, s')"
  let ?s = "pool_state.extend s (rd.fields 0)"
  obtain q t where q: "decode_properties n block v ?s = (q, t)" by fastforce
  have "returns q \<and> pool_inv t \<and> rd_step ?s t"
    using decode_properties_start [OF assms _ _ q] s by simp
  with q run show "returns r \<and> pool_inv s' \<and> mem_step s s'"
    by (auto simp: amqp_decode_properties_def from_start_def rd_step_def mem_step_extend)
qed

section \<open>Properties\<close>

text \<open>
  C2: \<^verbatim>\<open>amqp_decode_properties\<close> undoes \<^verbatim>\<open>amqp_encode_properties\<close> for every class: the flags come
  back, with the continuation bits of the two flag words right, and exactly the fields whose flags
  are set are overwritten in the decoded struct.
\<close>

theorem properties_round_trip:
  assumes "wf_properties n d" and "wr_ok s" and "length (properties_bytes d) \<le> wr_len s"
    and "pool_inv t" and "granting t"
  shows "\<exists>s' t'. amqp_encode_properties n d s = (Ok (length (properties_bytes d)), s') \<and>
    take (length (properties_bytes d)) (wr_buf s') = properties_bytes d \<and>
    amqp_decode_properties n block (bytes_view (take (length (properties_bytes d)) (wr_buf s'))) t =
      (Ok (overlaid d block), t') \<and> mem_step t t'"
proof -
  let ?s' = "written (s\<lparr>wr_off := 0\<rparr>) (properties_bytes d)"
  have "amqp_encode_properties n d s = (Ok (length (properties_bytes d)), ?s')"
    using assms(1-3) by (rule amqp_encode_properties_run)
  moreover have "take (length (properties_bytes d)) (wr_buf ?s') = properties_bytes d"
    using assms(2,3) by (simp add: written_def splice_def wr_ok_def)
  moreover have "\<exists>t'. amqp_decode_properties n block (bytes_view (properties_bytes d)) t = (Ok (overlaid d block), t') \<and> mem_step t t'"
    unfolding amqp_decode_properties_def
    by (rule from_start_parses [OF parses_decode_properties [OF assms(1)] assms(4,5)])
  ultimately show ?thesis by (intro exI [of _ ?s']) simp
qed

definition sample_properties :: amqp_basic_properties where
  "sample_properties = \<lparr>p_flags = AMQP_BASIC_CONTENT_TYPE_FLAG OR AMQP_BASIC_DELIVERY_MODE_FLAG,
     p_content_type = [0x74, 0x78], p_content_encoding = [], p_headers = [], p_delivery_mode = 2,
     p_priority = 0, p_correlation_id = [], p_reply_to = [], p_expiration = [], p_message_id = [],
     p_timestamp = 0, p_type = [], p_user_id = [], p_app_id = [], p_cluster_id = []\<rparr>"

lemma sample_properties_wf: "wf_properties AMQP_BASIC_CLASS (Basic_properties sample_properties)"
proof -
  have "drop_bit 16 (0x9000 :: u32) = 0" "\<not> bit (0x9000 :: u32) 0" "\<not> bit (0x9000 :: u32) 16" by simp_all
  moreover have "p_flags sample_properties = 0x9000" by (simp add: sample_properties_def flag_defs)
  ultimately have "wf_flags (p_flags sample_properties)" by (simp add: wf_flags_def)
  then show ?thesis
    by (simp add: wf_properties_def wf_basic_def wf_table_def) (simp add: sample_properties_def)
qed

lemma sample_properties_length: "length (properties_bytes (Basic_properties sample_properties)) = 6"
  by (simp add: properties_bytes_def flag_bytes_def basic_bytes_def when_set_def short_bytes_def
      sample_properties_def flag_defs)

theorem properties_round_trip_witness:
  "\<exists>s' t'. amqp_encode_properties AMQP_BASIC_CLASS (Basic_properties sample_properties) sample_wr =
      (Ok (length (properties_bytes (Basic_properties sample_properties))), s') \<and>
    take (length (properties_bytes (Basic_properties sample_properties))) (wr_buf s') =
      properties_bytes (Basic_properties sample_properties) \<and>
    amqp_decode_properties AMQP_BASIC_CLASS sample_properties
      (bytes_view (take (length (properties_bytes (Basic_properties sample_properties))) (wr_buf s')))
      (start_state (\<lambda>_. True) 0) = (Ok (overlaid (Basic_properties sample_properties) sample_properties), t') \<and>
    mem_step (start_state (\<lambda>_. True) 0) t'"
  by (rule properties_round_trip)
    (simp_all add: sample_properties_wf sample_properties_length sample_wr_def wr_ok_def granting_def
      start_state_def [THEN arg_cong, of grants])

text \<open>
  Decoding a property list from any bytes returns, with properties or with an error, and keeps
  the pool well formed, provided the list has at most two flag words.
\<close>

theorem decode_properties_any_bytes:
  assumes "view_ok v" and "few_flag_words (take (view_len v) (view_mem v))"
  shows "safe pool_inv mem_step (amqp_decode_properties n block v)"
  using assms by (rule safe_decode_properties)

theorem decode_properties_any_bytes_witness:
  "safe pool_inv mem_step (amqp_decode_properties AMQP_BASIC_CLASS sample_properties (bytes_view [0xff, 0xff, 0, 0, 3]))"
  by (rule decode_properties_any_bytes) (simp_all add: view_ok_def bytes_view_def few_flag_words_def)

text \<open>
  A property list with three flag words makes the decoder shift by 32 bits, which C leaves
  undefined, and nothing checks for it.
\<close>

theorem third_flag_word_undefined:
  assumes "6 \<le> length bs" and "bit (bs ! 1) 0" and "bit (bs ! 3) 0"
  shows "fst (amqp_decode_properties n block (bytes_view bs) t) = Undef"
proof -
  have v: "view_ok (bytes_view bs)" by (simp add: view_ok_def bytes_view_def)
  obtain m where m: "length bs = Suc (Suc (Suc m))"
    using assms(1) le_Suc_ex [of 3 "length bs"] by (auto simp: eval_nat_numeral)
  let ?s = "pool_state.extend t (rd.fields 0)"
  have "fst (decode_flags (Suc (view_len (bytes_view bs))) (bytes_view bs) 0 0 ?s) = Undef"
    using assms m
    by (simp add: decode_flags_step [OF v] Let_def numeral_3_eq_3 numeral_2_eq_2 del: decode_flags.simps)
  then show ?thesis
    by (auto simp: amqp_decode_properties_def from_start_def decode_properties_class run_and_then split: prod.splits)
qed

theorem third_flag_word_undefined_witness:
  "fst (amqp_decode_properties AMQP_BASIC_CLASS sample_properties (bytes_view [0, 1, 0, 1, 0, 0]) (start_state (\<lambda>_. True) 0)) = Undef"
  by (rule third_flag_word_undefined) simp_all

end
