(* ===== verification/Connection.thy ===== *)
theory Connection
  imports Content
begin

text \<open>
  The connection object of \<^verbatim>\<open>amqp_private.h\<close>, its channel pools (\<^verbatim>\<open>amqp_mem.c\<close>), and the
  operations of \<^verbatim>\<open>amqp_connection.c\<close> on it other than frame input and output: creation, tuning,
  release of buffers, destruction, heartbeat times, and the clock of \<^verbatim>\<open>amqp_timer.c\<close>.

  A connection is the heap together with the members of \<^verbatim>\<open>struct amqp_connection_state_t_\<close>.  A
  pool operation works on the heap and one pool: \<open>on_pool\<close> runs it on the pool of a channel.  The
  invariant \<open>conn_inv\<close> says that all pools are well formed and that no two of them, nor the
  connection itself, hold the same heap block.
\<close>

unbundle bit_operations_syntax

section \<open>Data\<close>

record pool_table_entry =
  entry_block :: nat
  entry_channel :: u16
  entry_pool :: amqp_pool

type_synonym pool_table = "pool_table_entry list list"

datatype amqp_connection_state_enum =
    CONNECTION_STATE_IDLE | CONNECTION_STATE_INITIAL | CONNECTION_STATE_HEADER | CONNECTION_STATE_BODY

text \<open>
  The union of \<^verbatim>\<open>amqp_frame_t\<close>: \<open>Method_payload\<close> has the method number and the decoded struct,
  \<open>Properties_payload\<close> the class, the body size and the decoded properties.
\<close>

datatype amqp_frame_payload =
    No_payload
  | Method_payload u32 "amqp_method_struct option"
  | Properties_payload u16 u64 amqp_properties
  | Body_payload bytes
  | Protocol_header u8 u8 u8 u8

record amqp_frame =
  frame_type :: u8
  frame_channel :: u16
  frame_payload :: amqp_frame_payload

datatype amqp_response_type_enum =
    AMQP_RESPONSE_NONE | AMQP_RESPONSE_NORMAL | AMQP_RESPONSE_LIBRARY_EXCEPTION | AMQP_RESPONSE_SERVER_EXCEPTION

record amqp_rpc_reply =
  reply_type :: amqp_response_type_enum
  reply_id :: u32
  reply_decoded :: "amqp_method_struct option"
  library_error :: amqp_status_enum

definition HEADER_SIZE :: nat where "HEADER_SIZE = 7"
definition FOOTER_SIZE :: nat where "FOOTER_SIZE = 1"
definition POOL_TABLE_SIZE :: nat where "POOL_TABLE_SIZE = 16"
definition INITIAL_FRAME_POOL_PAGE_SIZE :: int where "INITIAL_FRAME_POOL_PAGE_SIZE = 65536"
definition INITIAL_INBOUND_SOCK_BUFFER_SIZE :: nat where "INITIAL_INBOUND_SOCK_BUFFER_SIZE = 131072"

lemmas size_defs = HEADER_SIZE_def FOOTER_SIZE_def POOL_TABLE_SIZE_def

text \<open>\<^verbatim>\<open>sizeof\<close> the pool table entry and the connection on LP64.\<close>

definition sizeof_pool_table_entry :: nat where "sizeof_pool_table_entry = 80"
definition sizeof_connection_state :: nat where "sizeof_connection_state = 304"

text \<open>
  \<^verbatim>\<open>inbound_buffer.bytes\<close> points to \<^verbatim>\<open>header_buffer\<close>, or to a block of the channel's pool with
  the given contents, or is \<^verbatim>\<open>NULL\<close> after a failed allocation.
\<close>

datatype inbound_target = Header_buffer | Frame_block bytes | Null_buffer

text \<open>
  The three blocks are those of the struct itself, of \<^verbatim>\<open>outbound_buffer\<close> and of
  \<^verbatim>\<open>sock_inbound_buffer\<close>.  \<open>stale\<close> and \<open>stale_properties\<close> are what newly allocated memory
  holds: any bytes at all.  The two pointers \<^verbatim>\<open>first_queued_frame\<close> and \<^verbatim>\<open>last_queued_frame\<close> are
  the list of queued frames.
\<close>

record conn = heap +
  pool_table :: pool_table
  conn_state :: amqp_connection_state_enum
  channel_max :: int
  frame_max :: int
  heartbeat :: int
  header_buffer :: bytes
  inbound_buffer :: inbound_target
  inbound_offset :: nat
  target_size :: nat
  outbound_block :: "nat option"
  outbound_buffer :: bytes
  outbound_len :: nat
  sock_inbound_block :: "nat option"
  sock_inbound_buffer :: bytes
  sock_inbound_offset :: nat
  sock_inbound_limit :: nat
  queued_frames :: "amqp_frame list"
  most_recent_api_result :: amqp_rpc_reply
  next_recv_heartbeat :: u64
  next_send_heartbeat :: u64
  state_block :: nat
  stale :: "nat \<Rightarrow> u8"
  stale_properties :: amqp_basic_properties

text \<open>An \<^verbatim>\<open>int\<close> converted to \<^verbatim>\<open>size_t\<close>, and the difference of two \<^verbatim>\<open>size_t\<close> values.\<close>

definition size_of_int :: "int \<Rightarrow> nat" where
  "size_of_int i = nat (i mod 2 ^ 64)"

definition size_minus :: "nat \<Rightarrow> nat \<Rightarrow> nat" where
  "size_minus a b = (if b \<le> a then a - b else a + 2 ^ 64 - b)"

section \<open>Sockets and the clock\<close>

text \<open>
  The virtual table of \<^verbatim>\<open>amqp_socket.h\<close>, and the operating system's monotonic clock (seconds and
  nanoseconds).  \<open>None\<close> for the socket is the null pointer, on which the asserts fail.
  \<open>os_select\<close> waits until a descriptor is readable: its results are the value of \<^verbatim>\<open>select\<close>, whether
  \<^verbatim>\<open>errno\<close> is \<^verbatim>\<open>EINTR\<close>, and what it leaves in the timeout.  \<open>ndebug\<close> says whether the library is
  compiled with \<^verbatim>\<open>NDEBUG\<close>.
\<close>

record 's amqp_socket_class =
  klass_writev :: "bytes list \<Rightarrow> ('s, unit) cm"
  klass_send :: "bytes \<Rightarrow> ('s, unit) cm"
  klass_recv :: "nat \<Rightarrow> ('s, bytes) cm"
  klass_open :: "bytes \<Rightarrow> int \<Rightarrow> ('s, int) cm"
  klass_close :: "('s, unit) cm"
  klass_get_sockfd :: "('s, int) cm"
  klass_delete :: "('s, unit) cm"

record timeval =
  tv_sec :: int
  tv_usec :: int

record 's platform =
  socket :: "'s amqp_socket_class option"
  clock_gettime :: "('s, (int \<times> int) option) cm"
  os_select :: "int \<Rightarrow> timeval \<Rightarrow> ('s, int \<times> bool \<times> timeval) cm"
  ndebug :: bool

definition amqp_socket_writev :: "'s amqp_socket_class option \<Rightarrow> bytes list \<Rightarrow> ('s, unit) cm" where
  "amqp_socket_writev self iov = (case self of None \<Rightarrow> amqp_abort | Some k \<Rightarrow> klass_writev k iov)"

definition amqp_socket_send :: "'s amqp_socket_class option \<Rightarrow> bytes \<Rightarrow> ('s, unit) cm" where
  "amqp_socket_send self buf = (case self of None \<Rightarrow> amqp_abort | Some k \<Rightarrow> klass_send k buf)"

definition amqp_socket_recv :: "'s amqp_socket_class option \<Rightarrow> nat \<Rightarrow> ('s, bytes) cm" where
  "amqp_socket_recv self len = (case self of None \<Rightarrow> amqp_abort | Some k \<Rightarrow> klass_recv k len)"

definition amqp_socket_open :: "'s amqp_socket_class option \<Rightarrow> bytes \<Rightarrow> int \<Rightarrow> ('s, int) cm" where
  "amqp_socket_open self hostname port = (case self of None \<Rightarrow> amqp_abort | Some k \<Rightarrow> klass_open k hostname port)"

definition amqp_socket_close :: "'s amqp_socket_class option \<Rightarrow> ('s, unit) cm" where
  "amqp_socket_close self = (case self of None \<Rightarrow> amqp_abort | Some k \<Rightarrow> klass_close k)"

definition amqp_socket_get_sockfd :: "'s amqp_socket_class option \<Rightarrow> ('s, int) cm" where
  "amqp_socket_get_sockfd self = (case self of None \<Rightarrow> amqp_abort | Some k \<Rightarrow> klass_get_sockfd k)"

definition amqp_socket_delete :: "'s amqp_socket_class option \<Rightarrow> ('s, unit) cm" where
  "amqp_socket_delete self = (case self of None \<Rightarrow> ret () | Some k \<Rightarrow> klass_delete k)"

definition amqp_get_sockfd :: "'s platform \<Rightarrow> ('s, int) cm" where
  "amqp_get_sockfd P = (case socket P of None \<Rightarrow> ret (- 1) | Some k \<Rightarrow> amqp_socket_get_sockfd (Some k))"

definition AMQP_NS_PER_S :: u64 where "AMQP_NS_PER_S = 1000000000"
definition AMQP_NS_PER_US :: u64 where "AMQP_NS_PER_US = 1000"

text \<open>0 is the failure of the timer.\<close>

definition timestamp_of :: "(int \<times> int) option \<Rightarrow> u64" where
  "timestamp_of tp = (case tp of None \<Rightarrow> 0
     | Some (sec, nsec) \<Rightarrow> word_of_int sec * AMQP_NS_PER_S + word_of_int nsec)"

definition amqp_get_monotonic_timestamp :: "'s platform \<Rightarrow> ('s, u64) cm" where
  "amqp_get_monotonic_timestamp P = and_then (clock_gettime P) (\<lambda>tp. ret (timestamp_of tp))"

definition amqp_heartbeat_enabled :: "'a conn_scheme \<Rightarrow> bool" where
  "amqp_heartbeat_enabled c \<longleftrightarrow> 0 < heartbeat c"

definition amqp_calc_next_send_heartbeat :: "'a conn_scheme \<Rightarrow> u64 \<Rightarrow> u64" where
  "amqp_calc_next_send_heartbeat c cur = cur + word_of_int (heartbeat c) * AMQP_NS_PER_S"

definition amqp_calc_next_recv_heartbeat :: "'a conn_scheme \<Rightarrow> u64 \<Rightarrow> u64" where
  "amqp_calc_next_recv_heartbeat c cur = cur + word_of_int (heartbeat c) * 2 * AMQP_NS_PER_S"

section \<open>Channel pools\<close>

definition bucket :: "u16 \<Rightarrow> nat" where
  "bucket channel = unat channel mod POOL_TABLE_SIZE"

fun find_entry :: "u16 \<Rightarrow> pool_table_entry list \<Rightarrow> pool_table_entry option" where
  "find_entry channel [] = None"
| "find_entry channel (e # es) = (if channel = entry_channel e then Some e else find_entry channel es)"

definition find_pool :: "pool_table \<Rightarrow> u16 \<Rightarrow> pool_table_entry option" where
  "find_pool t channel = find_entry channel (t ! bucket channel)"

definition amqp_get_channel_pool :: "u16 \<Rightarrow> ('a conn_scheme, pool_table_entry option) cm" where
  "amqp_get_channel_pool channel = (\<lambda>c. (Ok (find_pool (pool_table c) channel), c))"

definition push_entry :: "u16 \<Rightarrow> pool_table_entry \<Rightarrow> pool_table \<Rightarrow> pool_table" where
  "push_entry channel e t = t[bucket channel := e # t ! bucket channel]"

text \<open>\<open>None\<close> is \<^verbatim>\<open>NULL\<close>; otherwise the channel has a pool in the new state.\<close>

definition amqp_get_or_create_channel_pool :: "u16 \<Rightarrow> ('a conn_scheme, unit option) cm" where
  "amqp_get_or_create_channel_pool channel =
     and_then (amqp_get_channel_pool channel) (\<lambda>found. case found of
       Some _ \<Rightarrow> ret (Some ())
     | None \<Rightarrow> and_then (c_malloc sizeof_pool_table_entry) (\<lambda>r. case r of
         None \<Rightarrow> ret None
       | Some b \<Rightarrow>
           and_then (modify (\<lambda>c. c\<lparr>pool_table := push_entry channel
             \<lparr>entry_block = b, entry_channel = channel, entry_pool = init_amqp_pool (size_of_int (frame_max c))\<rparr>
             (pool_table c)\<rparr>)) (\<lambda>_.
           ret (Some ()))))"

text \<open>A pool operation through the pointer to the pool of a channel.\<close>

fun set_entry :: "u16 \<Rightarrow> amqp_pool \<Rightarrow> pool_table_entry list \<Rightarrow> pool_table_entry list" where
  "set_entry channel p [] = []"
| "set_entry channel p (e # es) =
     (if channel = entry_channel e then e\<lparr>entry_pool := p\<rparr> # es else e # set_entry channel p es)"

definition set_pool :: "u16 \<Rightarrow> amqp_pool \<Rightarrow> pool_table \<Rightarrow> pool_table" where
  "set_pool channel p t = t[bucket channel := set_entry channel p (t ! bucket channel)]"

definition pool_view :: "'a heap_scheme \<Rightarrow> amqp_pool \<Rightarrow> pool_state" where
  "pool_view c p = \<lparr>next_id = next_id c, grants = grants c, live = live c, the_pool = p\<rparr>"

definition heap_back :: "pool_state \<Rightarrow> 'a conn_scheme \<Rightarrow> 'a conn_scheme" where
  "heap_back s c = c\<lparr>next_id := next_id s, grants := grants s, live := live s\<rparr>"

definition put_back :: "u16 \<Rightarrow> pool_state \<Rightarrow> 'a conn_scheme \<Rightarrow> 'a conn_scheme" where
  "put_back channel s c = (heap_back s c)\<lparr>pool_table := set_pool channel (the_pool s) (pool_table c)\<rparr>"

definition on_pool :: "u16 \<Rightarrow> (pool_state, 'b) cm \<Rightarrow> ('a conn_scheme, 'b) cm" where
  "on_pool channel m = (\<lambda>c. case find_pool (pool_table c) channel of
     None \<Rightarrow> (Undef, c)
   | Some e \<Rightarrow> (case m (pool_view c (entry_pool e)) of (r, s) \<Rightarrow> (r, put_back channel s c)))"

section \<open>Creation, tuning, release and destruction\<close>

definition ENFORCE_STATE :: "amqp_connection_state_enum \<Rightarrow> ('a conn_scheme, unit) cm" where
  "ENFORCE_STATE wanted = (\<lambda>c. if conn_state c \<noteq> wanted then (Abort, c) else (Ok (), c))"

text \<open>The contents of a block after \<^verbatim>\<open>realloc\<close>.\<close>

definition resized :: "(nat \<Rightarrow> u8) \<Rightarrow> nat \<Rightarrow> bytes \<Rightarrow> bytes" where
  "resized fresh n bs = take n bs @ map fresh [length bs..<n]"

definition set_heartbeat_times :: "'a conn_scheme platform \<Rightarrow> ('a conn_scheme, unit) cm" where
  "set_heartbeat_times P = and_then get (\<lambda>c.
     if amqp_heartbeat_enabled c then
       and_then (amqp_get_monotonic_timestamp P) (\<lambda>current_time.
       if current_time = 0 then raise AMQP_STATUS_TIMER_FAILURE
       else modify (\<lambda>c. c\<lparr>next_send_heartbeat := amqp_calc_next_send_heartbeat c current_time,
              next_recv_heartbeat := amqp_calc_next_recv_heartbeat c current_time\<rparr>))
     else ret ())"

definition amqp_tune_connection ::
    "'a conn_scheme platform \<Rightarrow> int \<Rightarrow> int \<Rightarrow> int \<Rightarrow> ('a conn_scheme, unit) cm" where
  "amqp_tune_connection P channel_max0 frame_max0 heartbeat0 =
     and_then (ENFORCE_STATE CONNECTION_STATE_IDLE) (\<lambda>_.
     and_then (modify (\<lambda>c. c\<lparr>channel_max := channel_max0, frame_max := frame_max0, heartbeat := heartbeat0\<rparr>)) (\<lambda>_.
     and_then (set_heartbeat_times P) (\<lambda>_.
     and_then (modify (\<lambda>c. c\<lparr>outbound_len := size_of_int frame_max0\<rparr>)) (\<lambda>_.
     and_then get (\<lambda>c.
     and_then (or_return AMQP_STATUS_NO_MEMORY (c_realloc (outbound_block c) (size_of_int frame_max0))) (\<lambda>newbuf.
     modify (\<lambda>c. c\<lparr>outbound_block := Some newbuf,
       outbound_buffer := resized (stale c) (size_of_int frame_max0) (outbound_buffer c)\<rparr>)))))))"

definition amqp_get_channel_max :: "('a conn_scheme, int) cm" where
  "amqp_get_channel_max = and_then get (\<lambda>c. ret (channel_max c))"

text \<open>
  \<open>amqp_new_connection\<close>: \<open>zeroed\<close> is the struct as \<^verbatim>\<open>calloc\<close> leaves it; the enum value 0 is
  \<^verbatim>\<open>CONNECTION_STATE_IDLE\<close>, so the call of \<^verbatim>\<open>amqp_tune_connection\<close> passes its check.  Without a
  heartbeat that call does not read the clock.
\<close>

definition zeroed :: "nat \<Rightarrow> (nat \<Rightarrow> u8) \<Rightarrow> amqp_basic_properties \<Rightarrow> heap \<Rightarrow> conn" where
  "zeroed b st stp h = heap.extend h
     \<lparr>pool_table = replicate POOL_TABLE_SIZE [], conn_state = CONNECTION_STATE_IDLE,
       channel_max = 0, frame_max = 0, heartbeat = 0, header_buffer = replicate (HEADER_SIZE + 1) 0,
       inbound_buffer = Null_buffer, inbound_offset = 0, target_size = 0,
       outbound_block = None, outbound_buffer = [], outbound_len = 0,
       sock_inbound_block = None, sock_inbound_buffer = [], sock_inbound_offset = 0, sock_inbound_limit = 0,
       queued_frames = [],
       most_recent_api_result = \<lparr>reply_type = AMQP_RESPONSE_NONE, reply_id = 0, reply_decoded = None,
         library_error = AMQP_STATUS_OK\<rparr>,
       next_recv_heartbeat = 0, next_send_heartbeat = 0, state_block = b, stale = st, stale_properties = stp\<rparr>"

definition no_platform :: "'s platform" where
  "no_platform = \<lparr>socket = None, clock_gettime = ret None, os_select = (\<lambda>_ tv. ret (0, False, tv)), ndebug = False\<rparr>"

definition initialise :: "(conn, unit) cm" where
  "initialise =
     and_then (amqp_tune_connection no_platform 0 INITIAL_FRAME_POOL_PAGE_SIZE 0) (\<lambda>_.
     and_then (modify (\<lambda>c. c\<lparr>inbound_buffer := Header_buffer, conn_state := CONNECTION_STATE_INITIAL,
       target_size := 8\<rparr>)) (\<lambda>_.
     and_then (or_return AMQP_STATUS_NO_MEMORY (c_malloc INITIAL_INBOUND_SOCK_BUFFER_SIZE)) (\<lambda>b.
     modify (\<lambda>c. c\<lparr>sock_inbound_block := Some b,
       sock_inbound_buffer := map (stale c) [0..<INITIAL_INBOUND_SOCK_BUFFER_SIZE]\<rparr>))))"

definition discard :: "(conn, unit) cm" where
  "discard = and_then get (\<lambda>c.
     and_then (c_free (sock_inbound_block c)) (\<lambda>_. c_free (Some (state_block c))))"

definition amqp_new_connection :: "(nat \<Rightarrow> u8) \<Rightarrow> amqp_basic_properties \<Rightarrow> (heap, conn option) cm" where
  "amqp_new_connection st stp = and_then (c_malloc sizeof_connection_state) (\<lambda>r. case r of
     None \<Rightarrow> ret None
   | Some b \<Rightarrow> (\<lambda>h. case initialise (zeroed b st stp h) of
       (Ok _, c) \<Rightarrow> (Ok (Some c), heap.truncate c)
     | (Err _, c) \<Rightarrow> (case discard c of (Ok _, c') \<Rightarrow> (Ok None, heap.truncate c')
         | (q, c') \<Rightarrow> (pass_error q, heap.truncate c'))
     | (q, c) \<Rightarrow> (pass_error q, heap.truncate c)))"

definition amqp_release_buffers_ok :: "'a conn_scheme \<Rightarrow> bool" where
  "amqp_release_buffers_ok c \<longleftrightarrow> conn_state c = CONNECTION_STATE_IDLE"

definition amqp_maybe_release_buffers_on_channel :: "u16 \<Rightarrow> ('a conn_scheme, unit) cm" where
  "amqp_maybe_release_buffers_on_channel channel = and_then get (\<lambda>c.
     if conn_state c \<noteq> CONNECTION_STATE_IDLE then ret ()
     else if list_ex (\<lambda>frame. channel = frame_channel frame) (queued_frames c) then ret ()
     else and_then (amqp_get_channel_pool channel) (\<lambda>pool. case pool of
         None \<Rightarrow> ret ()
       | Some _ \<Rightarrow> on_pool channel recycle_amqp_pool))"

fun release_channels :: "u16 list \<Rightarrow> ('a conn_scheme, unit) cm" where
  "release_channels [] = ret ()"
| "release_channels (ch # chs) =
     and_then (amqp_maybe_release_buffers_on_channel ch) (\<lambda>_. release_channels chs)"

definition amqp_release_buffers :: "('a conn_scheme, unit) cm" where
  "amqp_release_buffers =
     and_then (ENFORCE_STATE CONNECTION_STATE_IDLE) (\<lambda>_.
     and_then get (\<lambda>c. release_channels (map entry_channel (concat (pool_table c)))))"

definition amqp_maybe_release_buffers :: "('a conn_scheme, unit) cm" where
  "amqp_maybe_release_buffers = and_then get (\<lambda>c.
     if amqp_release_buffers_ok c then amqp_release_buffers else ret ())"

text \<open>The entry is freed right after its pool is emptied, so only the heap's change is kept.\<close>

definition on_entry :: "pool_table_entry \<Rightarrow> (pool_state, 'b) cm \<Rightarrow> ('a conn_scheme, 'b) cm" where
  "on_entry e m = (\<lambda>c. case m (pool_view c (entry_pool e)) of (r, s) \<Rightarrow> (r, heap_back s c))"

fun destroy_entries :: "pool_table_entry list \<Rightarrow> ('a conn_scheme, unit) cm" where
  "destroy_entries [] = ret ()"
| "destroy_entries (e # es) =
     and_then (on_entry e empty_amqp_pool) (\<lambda>_.
     and_then (c_free (Some (entry_block e))) (\<lambda>_.
     destroy_entries es))"

definition amqp_destroy_connection :: "'a conn_scheme platform \<Rightarrow> ('a conn_scheme, unit) cm" where
  "amqp_destroy_connection P = and_then get (\<lambda>c.
     and_then (destroy_entries (concat (pool_table c))) (\<lambda>_.
     and_then (c_free (outbound_block c)) (\<lambda>_.
     and_then (c_free (sock_inbound_block c)) (\<lambda>_.
     and_then (amqp_socket_delete (socket P)) (\<lambda>_.
     c_free (Some (state_block c)))))))"

section \<open>The table of pools\<close>

definition wf_bucket :: "nat \<Rightarrow> pool_table_entry list \<Rightarrow> bool" where
  "wf_bucket i es \<longleftrightarrow> (\<forall>e\<in>set es. bucket (entry_channel e) = i) \<and> distinct (map entry_channel es)"

definition wf_pool_table :: "pool_table \<Rightarrow> bool" where
  "wf_pool_table t \<longleftrightarrow> length t = POOL_TABLE_SIZE \<and> (\<forall>i<POOL_TABLE_SIZE. wf_bucket i (t ! i))"

lemma bucket_less [simp]: "bucket ch < POOL_TABLE_SIZE"
  by (simp add: bucket_def size_defs)

lemma wf_pool_table_bucket: "wf_pool_table t \<Longrightarrow> wf_bucket (bucket ch) (t ! bucket ch)"
  by (simp add: wf_pool_table_def)

lemma find_entry_Some: "find_entry ch es = Some e \<Longrightarrow> e \<in> set es \<and> entry_channel e = ch"
  by (induction es) (auto split: if_splits)

lemma find_entry_in:
  "distinct (map entry_channel es) \<Longrightarrow> e \<in> set es \<Longrightarrow> find_entry (entry_channel e) es = Some e"
  by (induction es) (auto simp: rev_image_eqI)

lemma find_entry_None: "find_entry ch es = None \<longleftrightarrow> ch \<notin> entry_channel ` set es"
  by (induction es) auto

lemma entry_channel_set_pool [simp]: "entry_channel (e\<lparr>entry_pool := p\<rparr>) = entry_channel e"
  by simp

lemma channels_set_entry [simp]: "map entry_channel (set_entry ch p es) = map entry_channel es"
  by (induction es) auto

lemma find_set_entry: "find_entry ch (set_entry ch' p es) =
    (if ch = ch' then map_option (\<lambda>e. e\<lparr>entry_pool := p\<rparr>) (find_entry ch es) else find_entry ch es)"
  by (induction es) auto

lemma set_entry_channel: "e \<in> set (set_entry ch p es) \<Longrightarrow> entry_channel e \<in> entry_channel ` set es"
  by (metis channels_set_entry image_eqI set_map)

lemma wf_bucket_set_entry: "wf_bucket i es \<Longrightarrow> wf_bucket i (set_entry ch p es)"
  unfolding wf_bucket_def channels_set_entry by (auto dest: set_entry_channel)

text \<open>
  What the connection relies on: a directory of entries by channel.  The laws are those of a
  finite map; \<open>separate\<close> says that the blocks claimed by different channels are disjoint.
\<close>

definition separate :: "('e \<Rightarrow> nat set) \<Rightarrow> (u16 \<Rightarrow> 'e option) \<Rightarrow> bool" where
  "separate claims m \<longleftrightarrow> (\<forall>ch ch' e e'. ch \<noteq> ch' \<longrightarrow> m ch = Some e \<longrightarrow> m ch' = Some e' \<longrightarrow>
     claims e \<inter> claims e' = {})"

lemma separateD: "separate claims m \<Longrightarrow> m ch = Some e \<Longrightarrow> m ch' = Some e' \<Longrightarrow> ch \<noteq> ch' \<Longrightarrow>
    b \<in> claims e \<Longrightarrow> b \<notin> claims e'"
  unfolding separate_def by blast

lemma separate_upd:
  assumes m: "separate claims m" and e: "\<And>ch' e'. ch' \<noteq> ch \<Longrightarrow> m ch' = Some e' \<Longrightarrow> claims e \<inter> claims e' = {}"
  shows "separate claims (m(ch \<mapsto> e))"
  unfolding separate_def
proof (intro allI impI)
  fix c c' x x' assume *: "c \<noteq> c'" "(m(ch \<mapsto> e)) c = Some x" "(m(ch \<mapsto> e)) c' = Some x'"
  show "claims x \<inter> claims x' = {}"
  proof (cases "c = ch")
    case True with * e [of c' x'] show ?thesis by simp
  next
    case False
    show ?thesis
    proof (cases "c' = ch")
      case True with * False e [of c x] show ?thesis by (auto simp: Int_commute)
    next
      case False with * \<open>c \<noteq> ch\<close> m show ?thesis unfolding separate_def by simp
    qed
  qed
qed

locale channel_directory =
  fixes wf :: "'t \<Rightarrow> bool" and lookup :: "'t \<Rightarrow> u16 \<Rightarrow> 'e option"
    and add :: "u16 \<Rightarrow> 'e \<Rightarrow> 't \<Rightarrow> 't" and replace :: "u16 \<Rightarrow> 'p \<Rightarrow> 't \<Rightarrow> 't"
    and put :: "'p \<Rightarrow> 'e \<Rightarrow> 'e" and key :: "'e \<Rightarrow> u16"
  assumes add_wf: "wf t \<Longrightarrow> lookup t ch = None \<Longrightarrow> key e = ch \<Longrightarrow> wf (add ch e t)"
    and lookup_add: "wf t \<Longrightarrow> lookup t ch = None \<Longrightarrow> key e = ch \<Longrightarrow> lookup (add ch e t) = (lookup t)(ch \<mapsto> e)"
    and replace_wf: "wf t \<Longrightarrow> wf (replace ch p t)"
    and lookup_replace: "wf t \<Longrightarrow> lookup t ch = Some e \<Longrightarrow>
      lookup (replace ch p t) = (lookup t)(ch \<mapsto> put p e)"
begin

lemma separate_add:
  assumes "wf t" and "separate claims (lookup t)" and "lookup t ch = None" and "key e = ch"
    and "\<And>ch' e'. lookup t ch' = Some e' \<Longrightarrow> claims e \<inter> claims e' = {}"
  shows "separate claims (lookup (add ch e t))"
  unfolding lookup_add [OF assms(1,3,4)] by (rule separate_upd) (use assms(2,5) in auto)

lemma separate_replace:
  assumes "wf t" and "separate claims (lookup t)" and "lookup t ch = Some e"
    and "\<And>ch' e'. ch' \<noteq> ch \<Longrightarrow> lookup t ch' = Some e' \<Longrightarrow> claims (put p e) \<inter> claims e' = {}"
  shows "separate claims (lookup (replace ch p t))"
  unfolding lookup_replace [OF assms(1,3)] by (rule separate_upd) (use assms(2,4) in auto)

end

interpretation pools: channel_directory wf_pool_table find_pool push_entry set_pool
    "\<lambda>p e. e\<lparr>entry_pool := p\<rparr>" entry_channel
proof
  fix t ch and e :: pool_table_entry assume t: "wf_pool_table t" and n: "find_pool t ch = None" and k: "entry_channel e = ch"
  have len: "length t = POOL_TABLE_SIZE" using t by (simp add: wf_pool_table_def)
  show "wf_pool_table (push_entry ch e t)"
    using t n k wf_pool_table_bucket [OF t, of ch]
    by (auto simp: wf_pool_table_def push_entry_def nth_list_update find_pool_def find_entry_None wf_bucket_def)
  show "find_pool (push_entry ch e t) = (find_pool t)(ch \<mapsto> e)"
    using len k by (auto simp: fun_eq_iff find_pool_def push_entry_def nth_list_update)
next
  fix t ch p assume t: "wf_pool_table t"
  then show wf: "wf_pool_table (set_pool ch p t)"
    by (auto simp: wf_pool_table_def set_pool_def nth_list_update wf_bucket_set_entry)
  fix e assume "find_pool t ch = Some e"
  with t show "find_pool (set_pool ch p t) = (find_pool t)(ch \<mapsto> e\<lparr>entry_pool := p\<rparr>)"
    by (auto simp: wf_pool_table_def fun_eq_iff find_pool_def set_pool_def nth_list_update find_set_entry)
qed

lemma find_pool_channel: "find_pool t ch = Some e \<Longrightarrow> entry_channel e = ch"
  unfolding find_pool_def by (blast dest: find_entry_Some)

lemma entry_in_table:
  assumes "wf_pool_table t"
  shows "e \<in> set (concat t) \<longleftrightarrow> find_pool t (entry_channel e) = Some e"
proof
  assume "e \<in> set (concat t)"
  then obtain es where "es \<in> set t" "e \<in> set es" by auto
  then obtain i where i: "i < POOL_TABLE_SIZE" "e \<in> set (t ! i)"
    using assms unfolding wf_pool_table_def by (metis in_set_conv_nth)
  with assms have "wf_bucket i (t ! i)" by (simp add: wf_pool_table_def)
  with i show "find_pool t (entry_channel e) = Some e"
    by (auto simp: wf_bucket_def find_pool_def find_entry_in)
next
  assume "find_pool t (entry_channel e) = Some e"
  then have "e \<in> set (t ! bucket (entry_channel e))" unfolding find_pool_def by (blast dest: find_entry_Some)
  with assms show "e \<in> set (concat t)" using bucket_less [of "entry_channel e"]
    by (auto simp: wf_pool_table_def)
qed

section \<open>The invariant of a connection\<close>

text \<open>The blocks a pool uses, the blocks an entry claims, and those of the connection itself.\<close>

definition pool_blocks :: "amqp_pool \<Rightarrow> nat set" where
  "pool_blocks p = set (owned (pages p) (large_blocks p)) \<union> set_option (alloc_block p)"

definition claims :: "pool_table_entry \<Rightarrow> nat set" where
  "claims e = insert (entry_block e) (pool_blocks (entry_pool e))"

definition conn_blocks :: "'a conn_scheme \<Rightarrow> nat list" where
  "conn_blocks c = state_block c # (case outbound_block c of None \<Rightarrow> [] | Some b \<Rightarrow> [b]) @
     (case sock_inbound_block c of None \<Rightarrow> [] | Some b \<Rightarrow> [b])"

definition entry_ok :: "(nat \<Rightarrow> nat option) \<Rightarrow> pool_table_entry \<Rightarrow> bool" where
  "entry_ok L e \<longleftrightarrow> pool_ok L (entry_pool e) \<and> L (entry_block e) \<noteq> None \<and>
     entry_block e \<notin> pool_blocks (entry_pool e)"

definition conn_inv :: "'a conn_scheme \<Rightarrow> bool" where
  "conn_inv c \<longleftrightarrow> heap_fresh c \<and> wf_pool_table (pool_table c) \<and>
     (\<forall>ch e. find_pool (pool_table c) ch = Some e \<longrightarrow>
        entry_ok (live c) e \<and> claims e \<inter> set (conn_blocks c) = {}) \<and>
     separate claims (find_pool (pool_table c)) \<and>
     distinct (conn_blocks c) \<and> (\<forall>b\<in>set (conn_blocks c). live c b \<noteq> None)"

lemma pool_blocks_live: "pool_ok L p \<Longrightarrow> b \<in> pool_blocks p \<Longrightarrow> L b \<noteq> None"
  by (auto simp: pool_blocks_def pool_ok_def owner_ok_def)

lemma entry_live: "entry_ok L e \<Longrightarrow> b \<in> claims e \<Longrightarrow> L b \<noteq> None"
  unfolding entry_ok_def claims_def by (auto dest: pool_blocks_live)

lemma pool_ok_local:
  assumes "pool_ok L p" and "\<And>b. b \<in> pool_blocks p \<Longrightarrow> L' b = L b"
  shows "pool_ok L' p"
proof -
  have "L' b = L b" if "b \<in> set (owned (pages p) (large_blocks p))" for b
    using assms(2) that by (simp add: pool_blocks_def)
  moreover have "L' b = L b" if "alloc_block p = Some b" for b
    using assms(2) that by (simp add: pool_blocks_def)
  moreover have "set (blocks (pages p)) \<subseteq> set (owned (pages p) (large_blocks p))" by (auto simp: owned_def)
  ultimately show ?thesis
    using assms(1) unfolding pool_ok_def owner_ok_def by (metis subsetD)
qed

lemma entry_ok_local: "entry_ok L e \<Longrightarrow> (\<And>b. b \<in> claims e \<Longrightarrow> L' b = L b) \<Longrightarrow> entry_ok L' e"
  unfolding entry_ok_def claims_def using pool_ok_local [of L "entry_pool e" L'] by auto

text \<open>
  \<open>within_pool s s'\<close>: a pool operation that keeps its pool well formed and works on no block that
  is not the pool's.
\<close>

definition within_pool :: "pool_state \<Rightarrow> pool_state \<Rightarrow> bool" where
  "within_pool s s' \<longleftrightarrow> grants s' = grants s \<and> (pool_inv s \<longrightarrow> pool_inv s' \<and>
     (\<forall>b. foreign s b \<longrightarrow> foreign s' b \<and> live s' b = live s b))"

lemma mem_step_within: "mem_step s s' \<Longrightarrow> within_pool s s'"
  unfolding within_pool_def using mem_step_inv [of s s'] by (auto simp: mem_step_def mem_step_minus_def)

lemma foreign_pool_view [simp]: "foreign (pool_view c p) b \<longleftrightarrow> live c b \<noteq> None \<and> b \<notin> pool_blocks p"
  by (auto simp: foreign_def pool_view_def pool_blocks_def)

lemma foreign_blocks: "foreign s b \<longleftrightarrow> live s b \<noteq> None \<and> b \<notin> pool_blocks (the_pool s)"
  by (auto simp: foreign_def pool_blocks_def)

lemma pool_inv_view: "conn_inv c \<Longrightarrow> find_pool (pool_table c) ch = Some e \<Longrightarrow> pool_inv (pool_view c (entry_pool e))"
  by (auto simp: conn_inv_def entry_ok_def pool_inv_def pool_view_def heap_fresh_def)

lemma put_back_simps [simp]:
  "next_id (put_back ch s c) = next_id s" "grants (put_back ch s c) = grants s" "live (put_back ch s c) = live s"
  "pool_table (put_back ch s c) = set_pool ch (the_pool s) (pool_table c)"
  "conn_blocks (put_back ch s c) = conn_blocks c"
  by (simp_all add: put_back_def heap_back_def conn_blocks_def)

text \<open>What is not the pool's own survives such an operation on it.\<close>

lemma within_pool_keeps:
  assumes c: "conn_inv c" and e: "find_pool (pool_table c) ch = Some e"
    and s: "within_pool (pool_view c (entry_pool e)) s"
    and b: "live c b \<noteq> None" "b \<notin> pool_blocks (entry_pool e)"
  shows "live s b = live c b" "b \<notin> pool_blocks (the_pool s)"
  using s pool_inv_view [OF c e] b unfolding within_pool_def by (auto simp: pool_view_def foreign_blocks)

lemma put_back_inv:
  assumes c: "conn_inv c" and e: "find_pool (pool_table c) ch = Some e"
    and s: "within_pool (pool_view c (entry_pool e)) s"
  shows "conn_inv (put_back ch s c)"
proof -
  let ?e = "e\<lparr>entry_pool := the_pool s\<rparr>"
  have inv: "pool_inv s" using s pool_inv_view [OF c e] by (simp add: within_pool_def)
  have wf: "wf_pool_table (pool_table c)" using c by (simp add: conn_inv_def)
  note tab = pools.lookup_replace [OF wf e, of "the_pool s"]
  note keep = within_pool_keeps [OF c e s]
  have own: "entry_ok (live c) e" "claims e \<inter> set (conn_blocks c) = {}" using c e by (auto simp: conn_inv_def)
  have other: "live s b = live c b \<and> b \<notin> claims ?e"
    if "live c b \<noteq> None" "b \<notin> claims e" for b
    using keep [of b] that by (auto simp: claims_def)
  have others: "b \<notin> claims e \<and> live c b \<noteq> None"
    if "ch' \<noteq> ch" "find_pool (pool_table c) ch' = Some e'" "b \<in> claims e'" for ch' e' b
    using c e that unfolding conn_inv_def by (meson entry_live separateD)
  have mine: "entry_ok (live s) ?e"
    using keep [of "entry_block e"] own(1) inv unfolding entry_ok_def pool_inv_def by simp
  have blk: "live s b = live c b" "b \<notin> claims ?e" if "b \<in> set (conn_blocks c)" for b
    using other [of b] c own(2) that by (auto simp: conn_inv_def)
  show ?thesis
    unfolding conn_inv_def put_back_simps tab
  proof (intro conjI allI impI)
    show "heap_fresh (put_back ch s c)" using inv by (simp add: pool_inv_def heap_fresh_def)
    show "wf_pool_table (set_pool ch (the_pool s) (pool_table c))" by (rule pools.replace_wf [OF wf])
    show "separate claims ((find_pool (pool_table c))(ch \<mapsto> ?e))"
      by (rule separate_upd) (use c others other in \<open>auto simp: conn_inv_def\<close>)
    show "distinct (conn_blocks c)" using c by (simp add: conn_inv_def)
    show "\<forall>b\<in>set (conn_blocks c). live s b \<noteq> None" using c blk by (auto simp: conn_inv_def)
    fix ch' e' assume l: "((find_pool (pool_table c))(ch \<mapsto> ?e)) ch' = Some e'"
    show "entry_ok (live s) e'"
    proof (cases "ch' = ch")
      case False
      with l have l': "find_pool (pool_table c) ch' = Some e'" by simp
      have "entry_ok (live c) e'" using c l' by (auto simp: conn_inv_def)
      then show ?thesis by (rule entry_ok_local) (use others [OF False l'] other in auto)
    qed (use l mine in simp)
    show "claims e' \<inter> set (conn_blocks c) = {}"
    proof (cases "ch' = ch")
      case False
      with l c show ?thesis by (auto simp: conn_inv_def)
    qed (use l blk in auto)
  qed
qed

text \<open>Changes outside the pools.\<close>

lemma conn_inv_change:
  assumes c: "conn_inv c" and h: "heap_fresh c'" and t: "pool_table c' = pool_table c"
    and l: "\<And>ch e b. find_pool (pool_table c) ch = Some e \<Longrightarrow> b \<in> claims e \<Longrightarrow> live c' b = live c b"
    and d: "distinct (conn_blocks c')"
    and b: "\<And>b. b \<in> set (conn_blocks c') \<Longrightarrow> live c' b \<noteq> None \<and> (b \<in> set (conn_blocks c) \<or> live c b = None)"
  shows "conn_inv c'"
  unfolding conn_inv_def t
proof (intro conjI allI impI)
  fix ch e assume e: "find_pool (pool_table c) ch = Some e"
  have ok: "entry_ok (live c) e" "claims e \<inter> set (conn_blocks c) = {}" using c e by (auto simp: conn_inv_def)
  from ok(1) show "entry_ok (live c') e" by (rule entry_ok_local) (rule l [OF e])
  have "x \<notin> claims e" if "x \<in> set (conn_blocks c')" for x
    using b [OF that] ok entry_live [OF ok(1), of x] by auto
  then show "claims e \<inter> set (conn_blocks c') = {}" by auto
qed (use c h d b in \<open>auto simp: conn_inv_def\<close>)

text \<open>\<open>only_memory\<close>: nothing but the heap and the pools changes.\<close>

definition only_memory :: "'a conn_scheme \<Rightarrow> 'a conn_scheme \<Rightarrow> bool" where
  "only_memory c c' \<longleftrightarrow> grants c' = grants c \<and>
     c' = c\<lparr>next_id := next_id c', live := live c', pool_table := pool_table c'\<rparr>"

lemma only_memory_refl [simp]: "only_memory c c"
  by (simp add: only_memory_def)

lemma only_memory_trans: "only_memory c d \<Longrightarrow> only_memory d e \<Longrightarrow> only_memory c e"
  unfolding only_memory_def by (cases c, cases d, cases e) auto

interpretation memory_only: frame_relation only_memory
  by unfold_locales (auto intro: only_memory_trans)

lemma only_memoryD:
  assumes "only_memory c c'"
  shows "grants c' = grants c" "conn_state c' = conn_state c" "channel_max c' = channel_max c"
    "frame_max c' = frame_max c" "heartbeat c' = heartbeat c" "header_buffer c' = header_buffer c"
    "inbound_buffer c' = inbound_buffer c" "inbound_offset c' = inbound_offset c"
    "target_size c' = target_size c" "outbound_buffer c' = outbound_buffer c" "outbound_len c' = outbound_len c"
    "queued_frames c' = queued_frames c" "stale c' = stale c" "stale_properties c' = stale_properties c"
    "conn_blocks c' = conn_blocks c" "sock_inbound_buffer c' = sock_inbound_buffer c"
    "sock_inbound_offset c' = sock_inbound_offset c" "sock_inbound_limit c' = sock_inbound_limit c"
  using assms unfolding only_memory_def conn_blocks_def by (cases c; cases c'; simp)+

lemma only_memory_put_back: "grants s = grants c \<Longrightarrow> only_memory c (put_back ch s c)"
  by (simp add: only_memory_def put_back_def heap_back_def)

text \<open>A private pool operation, run on the pool of a channel that has one.\<close>

lemma on_pool_run:
  assumes c: "conn_inv c" and e: "find_pool (pool_table c) ch = Some e"
    and m: "m (pool_view c (entry_pool e)) = (r, s)" and s: "within_pool (pool_view c (entry_pool e)) s"
  shows "on_pool ch m c = (r, put_back ch s c) \<and> conn_inv (put_back ch s c) \<and> only_memory c (put_back ch s c) \<and>
    find_pool (pool_table (put_back ch s c)) = (find_pool (pool_table c))(ch \<mapsto> e\<lparr>entry_pool := the_pool s\<rparr>)"
proof -
  have "grants s = grants c" using s by (simp add: within_pool_def pool_view_def)
  moreover have "wf_pool_table (pool_table c)" using c by (simp add: conn_inv_def)
  ultimately show ?thesis
    using e m put_back_inv [OF c e s] pools.lookup_replace [of "pool_table c" ch e]
    by (simp add: on_pool_def only_memory_put_back)
qed

lemma on_pool_safe:
  assumes c: "conn_inv c" and e: "find_pool (pool_table c) ch = Some e"
    and m: "safe pool_inv mem_step m" and run: "on_pool ch m c = (r, c')"
  shows "returns r" "conn_inv c'" "only_memory c c'" "dom (find_pool (pool_table c')) = dom (find_pool (pool_table c))"
proof -
  obtain q s where q: "m (pool_view c (entry_pool e)) = (q, s)" by fastforce
  have step: "returns q \<and> pool_inv s \<and> mem_step (pool_view c (entry_pool e)) s"
    using safeD [OF m pool_inv_view [OF c e] q] .
  then have "within_pool (pool_view c (entry_pool e)) s" by (simp add: mem_step_within)
  from on_pool_run [where m = m and r = q and s = s, OF c e q this] run step e
  show "returns r" "conn_inv c'" "only_memory c c'" "dom (find_pool (pool_table c')) = dom (find_pool (pool_table c))"
    by auto
qed

lemma conn_inv_malloc:
  assumes c: "conn_inv c" and run: "c_malloc n c = (r, c')"
  shows "conn_inv c'" "only_memory c c'" "pool_table c' = pool_table c"
    "r = Ok (if grants c (next_id c) then Some (next_id c) else None)"
    "r = Ok (Some b) \<Longrightarrow> live c b = None \<and> live c' b = Some n"
proof -
  have fr: "live c (next_id c) = None" using c by (auto simp: conn_inv_def heap_fresh_def)
  show om: "only_memory c c'" "pool_table c' = pool_table c"
    "r = Ok (if grants c (next_id c) then Some (next_id c) else None)"
    "r = Ok (Some b) \<Longrightarrow> live c b = None \<and> live c' b = Some n"
    using run fr by (auto simp: c_malloc_def Let_def only_memory_def split: if_splits)
  have live: "live c' = live c \<or> live c' = (live c)(next_id c \<mapsto> n)"
    using run by (auto simp: c_malloc_def Let_def split: if_splits)
  have same: "live c' b = live c b" if "live c b \<noteq> None" for b
    using live that fr by auto
  show "conn_inv c'"
  proof (rule conn_inv_change [OF c])
    show "heap_fresh c'" using c run
      by (auto simp: conn_inv_def heap_fresh_def c_malloc_def Let_def less_Suc_eq split: if_splits)
    fix ch e b assume "find_pool (pool_table c) ch = Some e" "b \<in> claims e"
    with c show "live c' b = live c b" by (intro same entry_live [of _ e]) (auto simp: conn_inv_def)
  qed (use c same om only_memoryD(15) [OF om(1)] in \<open>auto simp: conn_inv_def\<close>)
qed

lemma get_or_create_run:
  assumes c: "conn_inv c"
  obtains r c' where "amqp_get_or_create_channel_pool ch c = (Ok r, c')" "conn_inv c'" "only_memory c c'"
    "\<And>ch' e. find_pool (pool_table c) ch' = Some e \<Longrightarrow> find_pool (pool_table c') ch' = Some e"
    "r = Some () \<Longrightarrow> find_pool (pool_table c') ch \<noteq> None"
    "(\<forall>i. grants c i) \<Longrightarrow> r = Some ()"
proof (cases "find_pool (pool_table c) ch")
  case (Some e)
  then show ?thesis using c
    by (intro that [of "Some ()" c])
      (simp_all add: amqp_get_or_create_channel_pool_def amqp_get_channel_pool_def and_then_Ok)
next
  case None
  obtain q c1 where m: "c_malloc sizeof_pool_table_entry c = (q, c1)" by fastforce
  note 1 = conn_inv_malloc [OF c m]
  have run: "amqp_get_or_create_channel_pool ch c =
    and_then (c_malloc sizeof_pool_table_entry) (\<lambda>r. case r of
         None \<Rightarrow> ret None
       | Some b \<Rightarrow>
           and_then (modify (\<lambda>c. c\<lparr>pool_table := push_entry ch
             \<lparr>entry_block = b, entry_channel = ch, entry_pool = init_amqp_pool (size_of_int (frame_max c))\<rparr>
             (pool_table c)\<rparr>)) (\<lambda>_. ret (Some ()))) c"
    using None by (simp add: amqp_get_or_create_channel_pool_def amqp_get_channel_pool_def and_then_Ok)
  show ?thesis
  proof (cases "grants c (next_id c)")
    case False
    with 1(4) have "q = Ok None" by simp
    with run m 1 False show ?thesis by (intro that [of None c1]) (auto simp: and_then_Ok)
  next
    case True
    define b where "b = next_id c"
    from True 1(4) have q: "q = Ok (Some b)" by (simp add: b_def)
    let ?e = "\<lparr>entry_block = b, entry_channel = ch, entry_pool = init_amqp_pool (size_of_int (frame_max c1))\<rparr>"
    let ?c = "c1\<lparr>pool_table := push_entry ch ?e (pool_table c)\<rparr>"
    have run': "amqp_get_or_create_channel_pool ch c = (Ok (Some ()), ?c)"
      using run m q 1(3) by (simp add: and_then_Ok)
    have wf: "wf_pool_table (pool_table c)" using c by (simp add: conn_inv_def)
    have tab: "find_pool (push_entry ch ?e (pool_table c)) = (find_pool (pool_table c))(ch \<mapsto> ?e)"
      using wf None by (intro pools.lookup_add) simp_all
    have fresh: "live c b = None" "live c1 b \<noteq> None" using 1(5) [OF q] by auto
    have cl: "claims ?e = {b}"
      by (simp add: claims_def pool_blocks_def init_amqp_pool_def owned_def empty_blocklist_value_def array_blocks_def)
    have ok: "entry_ok (live c1) ?e" using fresh
      by (simp add: entry_ok_def pool_ok_def owner_ok_def pool_blocks_def owned_def init_amqp_pool_def
          empty_blocklist_value_def array_blocks_def num_blocks_def)
    have unclaimed: "b \<notin> claims e'" "b \<notin> set (conn_blocks c)" if "find_pool (pool_table c) ch' = Some e'" for ch' e'
      using c that fresh(1) by (auto simp: conn_inv_def dest: entry_live)
    have unclaimed2: "b \<notin> set (conn_blocks c)" using c fresh(1) by (auto simp: conn_inv_def)
    have blocks: "conn_blocks c1 = conn_blocks c" using only_memoryD(15) [OF 1(2)] .
    have sep: "separate claims (find_pool (push_entry ch ?e (pool_table c)))"
      using c unclaimed by (intro pools.separate_add [OF wf _ None]) (auto simp: cl conn_inv_def)
    have cb: "conn_blocks ?c = conn_blocks c" using blocks by (simp add: conn_blocks_def)
    have "conn_inv ?c"
      unfolding conn_inv_def cb
    proof (intro conjI allI impI)
      show "wf_pool_table (pool_table ?c)" using wf None by (simp add: pools.add_wf)
      fix ch' e' assume "find_pool (pool_table ?c) ch' = Some e'"
      then have "e' = ?e \<or> find_pool (pool_table c1) ch' = Some e'"
        using 1(3) by (auto simp: tab split: if_splits)
      then show "entry_ok (live ?c) e'" "claims e' \<inter> set (conn_blocks c) = {}"
        using ok cl 1(1) unclaimed2 blocks by (auto simp: conn_inv_def)
    qed (use sep 1(1) blocks in \<open>auto simp: conn_inv_def heap_fresh_def\<close>)
    moreover have "only_memory c ?c" using 1(2) by (cases c; cases c1) (simp add: only_memory_def)
    ultimately show ?thesis using run' None tab
      by (intro that [of "Some ()" ?c]) auto
  qed
qed

section \<open>Releasing buffers\<close>

definition recycled :: "amqp_pool \<Rightarrow> amqp_pool" where
  "recycled p = p\<lparr>large_blocks := empty_blocklist_value, next_page := 0, alloc_block := None, alloc_used := 0\<rparr>"

definition queued_on :: "'a conn_scheme \<Rightarrow> u16 \<Rightarrow> bool" where
  "queued_on c ch \<longleftrightarrow> (\<exists>f\<in>set (queued_frames c). frame_channel f = ch)"

lemma recycled_twice [simp]: "recycled (recycled p) = recycled p"
  by (simp add: recycled_def)

lemma recycle_within:
  assumes "pool_inv s"
  shows "\<exists>s'. recycle_amqp_pool s = (Ok (), s') \<and> within_pool s s' \<and> the_pool s' = recycled (the_pool s) \<and>
    (\<forall>b. b \<notin> pool_blocks (the_pool s) \<longrightarrow> live s' b = live s b)"
proof -
  note run = recycle_amqp_pool_run [OF assms]
  let ?s = "(release (set (blocks (large_blocks (the_pool s)) @ array_blocks (large_blocks (the_pool s)))) s)
    \<lparr>the_pool := recycled (the_pool s)\<rparr>"
  have eq: "recycle_amqp_pool s = (Ok (), ?s)" using run by (simp add: recycled_def)
  then have "pool_inv ?s" using recycle_amqp_pool_inv [OF assms] by blast
  moreover have "set (owned (pages (the_pool ?s)) (large_blocks (the_pool ?s))) \<subseteq>
      set (owned (pages (the_pool s)) (large_blocks (the_pool s)))"
    by (auto simp: recycled_def owned_def empty_blocklist_value_def array_blocks_def)
  then have "foreign s b \<Longrightarrow> foreign ?s b \<and> live ?s b = live s b" for b
    by (auto simp: foreign_def recycled_def owned_def)
  ultimately have "within_pool s ?s" by (simp add: within_pool_def)
  with eq show ?thesis by (intro exI [of _ ?s]) (auto simp: pool_blocks_def owned_def)
qed

lemma maybe_release_run:
  assumes c: "conn_inv c" and idle: "conn_state c = CONNECTION_STATE_IDLE"
  shows "\<exists>c'. amqp_maybe_release_buffers_on_channel ch c = (Ok (), c') \<and> conn_inv c' \<and> only_memory c c' \<and>
    find_pool (pool_table c') = (\<lambda>x. if x = ch \<and> \<not> queued_on c ch
      then map_option (\<lambda>e. e\<lparr>entry_pool := recycled (entry_pool e)\<rparr>) (find_pool (pool_table c) ch)
      else find_pool (pool_table c) x) \<and>
    (\<forall>x e b. find_pool (pool_table c) x = Some e \<longrightarrow> b \<in> claims e \<longrightarrow> x \<noteq> ch \<or> queued_on c ch \<longrightarrow> live c' b = live c b)"
proof (cases "queued_on c ch \<or> find_pool (pool_table c) ch = None")
  case True
  then have "amqp_maybe_release_buffers_on_channel ch c = (Ok (), c)"
    using idle by (auto simp: amqp_maybe_release_buffers_on_channel_def queued_on_def list_ex_iff
        amqp_get_channel_pool_def run_and_then)
  with c True show ?thesis by (intro exI [of _ c]) (auto simp: fun_eq_iff)
next
  case False
  then obtain e where e: "find_pool (pool_table c) ch = Some e" by blast
  obtain s where s: "recycle_amqp_pool (pool_view c (entry_pool e)) = (Ok (), s)"
    "within_pool (pool_view c (entry_pool e)) s" "the_pool s = recycled (entry_pool e)"
    "\<forall>b. b \<notin> pool_blocks (entry_pool e) \<longrightarrow> live s b = live c b"
    using recycle_within [OF pool_inv_view [OF c e]] by (auto simp: pool_view_def)
  note 1 = on_pool_run [where m = recycle_amqp_pool, OF c e s(1,2)]
  have run: "amqp_maybe_release_buffers_on_channel ch c = on_pool ch recycle_amqp_pool c"
    using idle False by (auto simp: amqp_maybe_release_buffers_on_channel_def queued_on_def list_ex_iff
        amqp_get_channel_pool_def and_then_Ok)
  have "live s b = live c b" if "find_pool (pool_table c) x = Some e'" "b \<in> claims e'" "x \<noteq> ch" for x e' b
  proof -
    have "b \<notin> claims e" using c e that unfolding conn_inv_def by (meson separateD)
    with s(4) show ?thesis by (simp add: claims_def)
  qed
  with 1 run e s(3) False show ?thesis
    by (intro exI [of _ "put_back ch s c"]) (auto simp: fun_eq_iff)
qed

lemma queued_on_only_memory [simp]: "only_memory c c' \<Longrightarrow> queued_on c' ch = queued_on c ch"
  by (simp add: queued_on_def only_memoryD)

lemma release_channels_run:
  assumes "conn_inv c" and "conn_state c = CONNECTION_STATE_IDLE"
  shows "\<exists>c'. release_channels chs c = (Ok (), c') \<and> conn_inv c' \<and> only_memory c c' \<and>
    find_pool (pool_table c') = (\<lambda>x. if x \<in> set chs \<and> \<not> queued_on c x
      then map_option (\<lambda>e. e\<lparr>entry_pool := recycled (entry_pool e)\<rparr>) (find_pool (pool_table c) x)
      else find_pool (pool_table c) x) \<and>
    (\<forall>x e b. find_pool (pool_table c) x = Some e \<longrightarrow> b \<in> claims e \<longrightarrow> queued_on c x \<longrightarrow> live c' b = live c b)"
  using assms
proof (induction chs arbitrary: c)
  case Nil
  then show ?case by (intro exI [of _ c]) (simp add: fun_eq_iff)
next
  case (Cons ch chs)
  from maybe_release_run [OF Cons.prems, of ch] obtain c1 where
    1: "amqp_maybe_release_buffers_on_channel ch c = (Ok (), c1)" "conn_inv c1" "only_memory c c1"
    "find_pool (pool_table c1) = (\<lambda>x. if x = ch \<and> \<not> queued_on c ch
      then map_option (\<lambda>e. e\<lparr>entry_pool := recycled (entry_pool e)\<rparr>) (find_pool (pool_table c) ch)
      else find_pool (pool_table c) x)"
    "\<And>x e b. find_pool (pool_table c) x = Some e \<Longrightarrow> b \<in> claims e \<Longrightarrow> x \<noteq> ch \<or> queued_on c ch \<Longrightarrow> live c1 b = live c b"
    by blast
  have q: "queued_on c1 x = queued_on c x" for x using 1(3) by simp
  have "conn_state c1 = CONNECTION_STATE_IDLE" using Cons.prems(2) 1(3) by (simp add: only_memoryD)
  from Cons.IH [OF 1(2) this] obtain c2 where
    2: "release_channels chs c1 = (Ok (), c2)" "conn_inv c2" "only_memory c1 c2"
    "find_pool (pool_table c2) = (\<lambda>x. if x \<in> set chs \<and> \<not> queued_on c x
      then map_option (\<lambda>e. e\<lparr>entry_pool := recycled (entry_pool e)\<rparr>) (find_pool (pool_table c1) x)
      else find_pool (pool_table c1) x)"
    "\<And>x e b. find_pool (pool_table c1) x = Some e \<Longrightarrow> b \<in> claims e \<Longrightarrow> queued_on c x \<Longrightarrow> live c2 b = live c1 b"
    unfolding q by blast
  have "release_channels (ch # chs) c = (Ok (), c2)" using 1(1) 2(1) by (simp add: and_then_Ok)
  moreover have "only_memory c c2" using 1(3) 2(3) by (rule only_memory_trans)
  moreover have "find_pool (pool_table c2) = (\<lambda>x. if x \<in> set (ch # chs) \<and> \<not> queued_on c x
      then map_option (\<lambda>e. e\<lparr>entry_pool := recycled (entry_pool e)\<rparr>) (find_pool (pool_table c) x)
      else find_pool (pool_table c) x)"
    unfolding 2(4) 1(4) by (auto simp: fun_eq_iff option.map_comp comp_def)
  moreover have "live c2 b = live c b" if "find_pool (pool_table c) x = Some e" "b \<in> claims e" "queued_on c x" for x e b
  proof -
    have "x \<noteq> ch \<or> queued_on c ch" using that(3) by blast
    with that have "live c1 b = live c b" by (rule_tac 1(5))
    moreover have "find_pool (pool_table c1) x = Some e" using that 1(4) by auto
    ultimately show ?thesis using 2(5) that by simp
  qed
  ultimately show ?case using 2(2) by blast
qed

section \<open>Destruction\<close>

definition freed :: "pool_table_entry \<Rightarrow> nat set" where
  "freed e = insert (entry_block e) (set (owned (pages (entry_pool e)) (large_blocks (entry_pool e))))"

lemma freed_claims: "freed e \<subseteq> claims e"
  by (auto simp: freed_def claims_def pool_blocks_def)

lemma table_channels_distinct:
  assumes "\<And>i. i < length t \<Longrightarrow> wf_bucket (k + i) (t ! i)"
  shows "distinct (map entry_channel (concat t)) \<and> (\<forall>e\<in>set (concat t). k \<le> bucket (entry_channel e))"
  using assms
proof (induction t arbitrary: k)
  case (Cons es t)
  have es: "wf_bucket k es" using Cons.prems [of 0] by simp
  have "wf_bucket (Suc k + i) (t ! i)" if "i < length t" for i
    using Cons.prems [of "Suc i"] that by simp
  from Cons.IH [OF this] have t: "distinct (map entry_channel (concat t))"
    "\<forall>e\<in>set (concat t). Suc k \<le> bucket (entry_channel e)" by auto
  have "entry_channel a \<noteq> entry_channel b" if "a \<in> set es" "b \<in> set (concat t)" for a b
  proof
    assume "entry_channel a = entry_channel b"
    moreover have "bucket (entry_channel a) = k" using es that(1) by (simp add: wf_bucket_def)
    moreover have "Suc k \<le> bucket (entry_channel b)" using t(2) that(2) by blast
    ultimately show False by simp
  qed
  then have "entry_channel ` set es \<inter> entry_channel ` set (concat t) = {}" by blast
  with es t show ?case unfolding wf_bucket_def by (auto simp: less_eq_Suc_le [symmetric] dest: less_imp_le)
qed simp

lemma free_live: "live c b \<noteq> None \<Longrightarrow> c_free (Some b) c = (Ok (), release {b} c)"
  by (auto simp: c_free_def release_def restrict_complement_singleton_eq)

lemma free_option:
  "(\<And>b. p = Some b \<Longrightarrow> live c b \<noteq> None) \<Longrightarrow> c_free p c = (Ok (), release (set_option p) c)"
  by (cases p) (simp_all add: free_live, simp add: c_free_def)

lemma on_entry_empty:
  assumes "heap_fresh c" and "entry_ok (live c) e"
  shows "on_entry e empty_amqp_pool c =
    (Ok (), release (set (owned (pages (entry_pool e)) (large_blocks (entry_pool e)))) c)"
proof -
  have "pool_inv (pool_view c (entry_pool e))"
    using assms by (simp add: pool_inv_def pool_view_def heap_fresh_def entry_ok_def)
  note run = empty_amqp_pool_run [OF this]
  have "heap_back s' c = release B c" if "s' = (release B (pool_view c p))\<lparr>the_pool := q\<rparr>" for s' B p q
    using that by (simp add: heap_back_def release_def pool_view_def)
  with run show ?thesis by (simp add: on_entry_def) (simp add: pool_view_def)
qed

lemma heap_fresh_release [simp]: "heap_fresh c \<Longrightarrow> heap_fresh (release B c)"
  by (auto simp: heap_fresh_def)

lemma destroy_entries_run:
  assumes "heap_fresh c" and "distinct (map entry_channel es)" and "\<forall>e\<in>set es. entry_ok (live c) e"
    and "\<forall>e\<in>set es. \<forall>e'\<in>set es. entry_channel e \<noteq> entry_channel e' \<longrightarrow> claims e \<inter> claims e' = {}"
  shows "destroy_entries es c = (Ok (), release (\<Union>e\<in>set es. freed e) c)"
  using assms
proof (induction es arbitrary: c)
  case (Cons e es)
  let ?B = "set (owned (pages (entry_pool e)) (large_blocks (entry_pool e)))"
  let ?c = "release {entry_block e} (release ?B c)"
  have e: "entry_ok (live c) e" using Cons.prems by simp
  have 1: "on_entry e empty_amqp_pool c = (Ok (), release ?B c)"
    using on_entry_empty Cons.prems(1) e by blast
  have "live (release ?B c) (entry_block e) \<noteq> None"
    using e by (auto simp: entry_ok_def pool_blocks_def)
  then have 2: "c_free (Some (entry_block e)) (release ?B c) = (Ok (), ?c)" by (rule free_live)
  have rest: "entry_ok (live ?c) e'" if e': "e' \<in> set es" for e'
  proof -
    have "entry_ok (live c) e'" using Cons.prems e' by simp
    moreover have "entry_channel e \<noteq> entry_channel e'" using Cons.prems(2) e' by (metis distinct.simps(2) image_eqI list.simps(9) set_map)
    then have "claims e \<inter> claims e' = {}" using Cons.prems(4) e' by simp
    then have "live ?c b = live c b" if "b \<in> claims e'" for b
      using that freed_claims [of e] by (auto simp: freed_def)
    ultimately show ?thesis by (rule entry_ok_local)
  qed
  have "destroy_entries es ?c = (Ok (), release (\<Union>e\<in>set es. freed e) ?c)"
  proof (rule Cons.IH)
    show "\<forall>e'\<in>set es. entry_ok (live ?c) e'" using rest by blast
  qed (use Cons.prems in \<open>simp_all del: release_simps\<close>)
  then show ?case using 1 2 by (simp add: and_then_Ok freed_def Un_ac)
qed simp

section \<open>The environment\<close>

text \<open>
  What the operating system does to the model's state: \<open>environment m\<close> says that \<open>m\<close> returns and
  changes nothing of the heap and the connection (a larger state may have more fields).
\<close>

definition same_conn :: "'a conn_scheme \<Rightarrow> 'a conn_scheme \<Rightarrow> bool" where
  "same_conn c c' \<longleftrightarrow> conn.truncate c' = conn.truncate c"

definition environment :: "('a conn_scheme, 'b) cm \<Rightarrow> bool" where
  "environment m \<longleftrightarrow> safe (\<lambda>_. True) same_conn m"

lemma same_connD:
  assumes "same_conn c c'"
  shows "next_id c' = next_id c" "grants c' = grants c" "live c' = live c" "pool_table c' = pool_table c"
    "conn_state c' = conn_state c" "channel_max c' = channel_max c" "frame_max c' = frame_max c"
    "heartbeat c' = heartbeat c" "header_buffer c' = header_buffer c" "inbound_buffer c' = inbound_buffer c"
    "inbound_offset c' = inbound_offset c" "target_size c' = target_size c" "outbound_block c' = outbound_block c"
    "outbound_buffer c' = outbound_buffer c" "outbound_len c' = outbound_len c" "queued_frames c' = queued_frames c"
    "sock_inbound_block c' = sock_inbound_block c" "state_block c' = state_block c" "stale c' = stale c"
    "next_send_heartbeat c' = next_send_heartbeat c" "next_recv_heartbeat c' = next_recv_heartbeat c"
    "conn_blocks c' = conn_blocks c"
  using assms unfolding same_conn_def conn_blocks_def by (cases c; cases c'; simp add: conn.defs)+

lemma same_conn_refl [simp]: "same_conn c c"
  by (simp add: same_conn_def)

lemma same_conn_inv: "same_conn c c' \<Longrightarrow> conn_inv c' = conn_inv c"
  by (simp add: conn_inv_def heap_fresh_def same_connD)

lemma environmentD: "environment m \<Longrightarrow> m c = (r, c') \<Longrightarrow> returns r \<and> same_conn c c'"
  unfolding environment_def by (blast dest: safeD)

lemma timestamp_environment:
  assumes "environment (clock_gettime P)"
  shows "environment (amqp_get_monotonic_timestamp P)"
  unfolding environment_def
proof (rule safeI)
  fix c r c' assume "amqp_get_monotonic_timestamp P c = (r, c')"
  moreover obtain q d where "clock_gettime P c = (q, d)" by fastforce
  ultimately show "returns r \<and> True \<and> same_conn c c'"
    using environmentD [OF assms, of c q d]
    by (cases q) (auto simp: amqp_get_monotonic_timestamp_def run_and_then)
qed

section \<open>Tuning\<close>

lemma length_resized [simp]: "length (resized f n bs) = n"
  by (simp add: resized_def)

lemma conn_inv_realloc:
  assumes c: "conn_inv c" and run: "c_realloc (outbound_block c) n c = (r, c1)"
  shows "r = Ok None \<and> conn_inv c1 \<and> only_memory c c1 \<or>
    (\<exists>b. r = Ok (Some b) \<and> conn_inv (c1\<lparr>outbound_block := Some b, outbound_buffer := x\<rparr>) \<and> only_memory c c1)"
proof (cases "grants c (next_id c)")
  case False
  then have "r = Ok None \<and> c1 = c\<lparr>next_id := Suc (next_id c)\<rparr>"
    using c run by (auto simp: c_realloc_def c_malloc_def Let_def conn_inv_def conn_blocks_def split: option.splits)
  moreover have "conn_inv (c\<lparr>next_id := Suc (next_id c)\<rparr>)"
    by (rule conn_inv_change [OF c]) (use c in \<open>auto simp: conn_inv_def heap_fresh_def conn_blocks_def less_Suc_eq\<close>)
  ultimately show ?thesis by (simp add: only_memory_def)
next
  case True
  define b where "b = next_id c"
  have fr: "live c b = None" using c by (auto simp: conn_inv_def heap_fresh_def b_def)
  have old: "live c o' \<noteq> None" "o' \<in> set (conn_blocks c)" if "outbound_block c = Some o'" for o'
    using c that by (auto simp: conn_inv_def conn_blocks_def)
  define L where "L = (case outbound_block c of None \<Rightarrow> live c | Some o' \<Rightarrow> (live c)(o' := None))(b \<mapsto> n)"
  have c1: "r = Ok (Some b)" "c1 = c\<lparr>next_id := Suc b, live := L\<rparr>"
    using True run old by (auto simp: c_realloc_def c_malloc_def Let_def b_def L_def split: option.splits)
  have L: "L x = live c x" if "x \<noteq> b" "outbound_block c \<noteq> Some x" for x
    using that by (simp add: L_def split: option.split)
  let ?c = "c1\<lparr>outbound_block := Some b, outbound_buffer := x\<rparr>"
  have blocks: "set (conn_blocks ?c) \<subseteq> insert b (set (conn_blocks c) - set_option (outbound_block c))"
    using c by (auto simp: c1 conn_inv_def conn_blocks_def split: option.splits)
  have "conn_inv ?c"
  proof (rule conn_inv_change [OF c])
    show "heap_fresh ?c" using c L
      by (auto simp: c1 conn_inv_def heap_fresh_def less_Suc_eq b_def L_def split: option.splits if_splits)
    fix ch e x assume e: "find_pool (pool_table c) ch = Some e" "x \<in> claims e"
    have "live c x \<noteq> None" "x \<notin> set (conn_blocks c)"
      using c e unfolding conn_inv_def by (meson entry_live, fastforce)
    with fr old show "live ?c x = live c x" by (auto simp: c1 intro!: L)
  next
    show "distinct (conn_blocks ?c)" using c fr
      by (auto simp: c1 conn_inv_def conn_blocks_def split: option.splits)
    fix y assume "y \<in> set (conn_blocks ?c)"
    then have "y = b \<or> y \<in> set (conn_blocks c) \<and> outbound_block c \<noteq> Some y" using blocks by auto
    then show "live ?c y \<noteq> None \<and> (y \<in> set (conn_blocks c) \<or> live c y = None)"
      using c fr L [of y] by (cases "y = b") (auto simp: c1 conn_inv_def L_def)
  qed (simp add: c1)
  then show ?thesis using c1 by (auto simp: only_memory_def)
qed

definition tuned :: "int \<Rightarrow> int \<Rightarrow> int \<Rightarrow> 'a conn_scheme \<Rightarrow> bool" where
  "tuned chm fm hb c \<longleftrightarrow> channel_max c = chm \<and> frame_max c = fm \<and> heartbeat c = hb \<and>
     outbound_len c = size_of_int fm \<and> length (outbound_buffer c) = size_of_int fm"

lemma set_heartbeat_times_run:
  assumes P: "environment (clock_gettime P)"
  shows "\<exists>r c' t u. set_heartbeat_times P c = (r, c'\<lparr>next_send_heartbeat := t, next_recv_heartbeat := u\<rparr>) \<and>
    returns r \<and> same_conn c c'"
proof (cases "amqp_heartbeat_enabled c")
  case False
  then have "set_heartbeat_times P c =
    (Ok (), c\<lparr>next_send_heartbeat := next_send_heartbeat c, next_recv_heartbeat := next_recv_heartbeat c\<rparr>)"
    by (simp add: set_heartbeat_times_def)
  then show ?thesis by (metis returns.simps(1) same_conn_refl)
next
  case True
  obtain r d where clk: "amqp_get_monotonic_timestamp P c = (r, d)" by fastforce
  have d: "returns r" "same_conn c d" using environmentD [OF timestamp_environment [OF P] clk] by auto
  have "\<exists>q t u. set_heartbeat_times P c = (q, d\<lparr>next_send_heartbeat := t, next_recv_heartbeat := u\<rparr>) \<and> returns q"
  proof (cases r)
    case (Ok now)
    with True clk have "set_heartbeat_times P c = (if now = 0 then (Err AMQP_STATUS_TIMER_FAILURE, d)
       else (Ok (), d\<lparr>next_send_heartbeat := amqp_calc_next_send_heartbeat d now,
              next_recv_heartbeat := amqp_calc_next_recv_heartbeat d now\<rparr>))"
      by (simp add: set_heartbeat_times_def and_then_Ok)
    then show ?thesis
    proof (cases "now = 0")
      case True
      with \<open>set_heartbeat_times P c = _\<close> show ?thesis
        by (intro exI [of _ "Err AMQP_STATUS_TIMER_FAILURE"] exI [of _ "next_send_heartbeat d"]
            exI [of _ "next_recv_heartbeat d"]) simp
    next
      case False
      with \<open>set_heartbeat_times P c = _\<close> show ?thesis
        by (intro exI [of _ "Ok ()"] exI [of _ "amqp_calc_next_send_heartbeat d now"]
            exI [of _ "amqp_calc_next_recv_heartbeat d now"]) simp
    qed
  next
    case (Err e)
    with True clk have "set_heartbeat_times P c = (Err e, d)"
      by (simp add: set_heartbeat_times_def and_then_Err)
    then show ?thesis by (intro exI [of _ "Err e"] exI [of _ "next_send_heartbeat d"] exI [of _ "next_recv_heartbeat d"]) simp
  qed (use d in auto)
  with d show ?thesis by blast
qed

lemma conn_inv_same:
  "conn_inv c \<Longrightarrow> next_id c' = next_id c \<Longrightarrow> live c' = live c \<Longrightarrow> pool_table c' = pool_table c \<Longrightarrow>
   conn_blocks c' = conn_blocks c \<Longrightarrow> conn_inv c'"
  by (simp add: conn_inv_def heap_fresh_def)

lemma tune_run:
  assumes c: "conn_inv c" and idle: "conn_state c = CONNECTION_STATE_IDLE" and P: "environment (clock_gettime P)"
  shows "\<exists>r c'. amqp_tune_connection P chm fm hb c = (r, c') \<and> returns r \<and> conn_inv c' \<and>
    conn_state c' = CONNECTION_STATE_IDLE \<and> pool_table c' = pool_table c \<and>
    queued_frames c' = queued_frames c \<and> (r = Ok () \<longrightarrow> tuned chm fm hb c')"
proof -
  let ?c = "c\<lparr>channel_max := chm, frame_max := fm, heartbeat := hb\<rparr>"
  from set_heartbeat_times_run [OF P, of ?c] obtain q d t u where
    h: "set_heartbeat_times P ?c = (q, d\<lparr>next_send_heartbeat := t, next_recv_heartbeat := u\<rparr>)" "returns q" "same_conn ?c d"
    by blast
  let ?d = "d\<lparr>next_send_heartbeat := t, next_recv_heartbeat := u\<rparr>"
  let ?e = "?d\<lparr>outbound_len := size_of_int fm\<rparr>"
  have d: "conn_blocks d = conn_blocks c" "live d = live c" "next_id d = next_id c" "pool_table d = pool_table c"
    "conn_state d = CONNECTION_STATE_IDLE" "queued_frames d = queued_frames c"
    "channel_max d = chm" "frame_max d = fm" "heartbeat d = hb" "outbound_block d = outbound_block c"
    "sock_inbound_block d = sock_inbound_block c" "state_block d = state_block c"
    using same_connD [OF h(3)] idle by (simp_all add: conn_blocks_def)
  have inv: "conn_inv ?e" "conn_inv ?d"
    by (rule conn_inv_same [OF c]; simp add: d conn_blocks_def)+
  have run: "amqp_tune_connection P chm fm hb c =
    and_then (set_heartbeat_times P) (\<lambda>_.
     and_then (modify (\<lambda>c. c\<lparr>outbound_len := size_of_int fm\<rparr>)) (\<lambda>_.
     and_then get (\<lambda>c.
     and_then (or_return AMQP_STATUS_NO_MEMORY (c_realloc (outbound_block c) (size_of_int fm))) (\<lambda>newbuf.
     modify (\<lambda>c. c\<lparr>outbound_block := Some newbuf,
       outbound_buffer := resized (stale c) (size_of_int fm) (outbound_buffer c)\<rparr>))))) ?c"
    using idle by (simp add: amqp_tune_connection_def ENFORCE_STATE_def and_then_Ok)
  show ?thesis
  proof (cases q)
    case (Ok x)
    obtain p e where re: "c_realloc (outbound_block ?e) (size_of_int fm) ?e = (p, e)" by fastforce
    have run': "amqp_tune_connection P chm fm hb c =
      and_then (or_return AMQP_STATUS_NO_MEMORY (c_realloc (outbound_block ?e) (size_of_int fm))) (\<lambda>newbuf.
      modify (\<lambda>c. c\<lparr>outbound_block := Some newbuf,
        outbound_buffer := resized (stale c) (size_of_int fm) (outbound_buffer c)\<rparr>)) ?e"
      unfolding run using h(1) Ok by (simp add: and_then_Ok)
    let ?x = "resized (stale e) (size_of_int fm) (outbound_buffer e)"
    from conn_inv_realloc [OF inv(1) re, of ?x] show ?thesis
    proof
      assume *: "p = Ok None \<and> conn_inv e \<and> only_memory ?e e"
      with re have "or_return AMQP_STATUS_NO_MEMORY (c_realloc (outbound_block ?e) (size_of_int fm)) ?e =
        (Err AMQP_STATUS_NO_MEMORY, e)" by (simp add: or_return_None)
      moreover have "pool_table e = pool_table ?e"
        using re by (auto simp: c_realloc_def c_malloc_def Let_def split: option.splits if_splits)
      ultimately show ?thesis using run' * d by (auto simp: and_then_Err dest: only_memoryD)
    next
      assume "\<exists>b. p = Ok (Some b) \<and> conn_inv (e\<lparr>outbound_block := Some b, outbound_buffer := ?x\<rparr>) \<and> only_memory ?e e"
      then obtain b where b: "p = Ok (Some b)" "conn_inv (e\<lparr>outbound_block := Some b, outbound_buffer := ?x\<rparr>)"
        "only_memory ?e e" by blast
      with re have "or_return AMQP_STATUS_NO_MEMORY (c_realloc (outbound_block ?e) (size_of_int fm)) ?e = (Ok b, e)"
        by (simp add: or_return_Some)
      moreover have "pool_table e = pool_table ?e"
        using re by (auto simp: c_realloc_def c_malloc_def Let_def split: option.splits if_splits)
      ultimately show ?thesis using run' b(2) only_memoryD [OF b(3)] d
        by (simp add: and_then_Ok tuned_def)
    qed
  next
    case (Err err)
    then show ?thesis using run h(1) inv(2) d by (simp add: and_then_Err)
  qed (use h in auto)
qed

section \<open>Properties\<close>

text \<open>A connection with buffers of 64 bytes and no pools yet, and the same with a pool for channel 1.\<close>

definition sample_conn :: conn where
  "sample_conn = (zeroed 0 (\<lambda>_. 0) sample_properties
      \<lparr>next_id = 3, grants = \<lambda>_. True, live = [0 \<mapsto> 304, 1 \<mapsto> 64, 2 \<mapsto> 64]\<rparr>)
    \<lparr>frame_max := 64, inbound_buffer := Header_buffer, target_size := 7,
     outbound_block := Some 1, outbound_buffer := replicate 64 0, outbound_len := 64,
     sock_inbound_block := Some 2, sock_inbound_buffer := replicate 64 0\<rparr>"

lemma sample_conn_inv [simp]: "conn_inv sample_conn"
  by (auto simp: conn_inv_def sample_conn_def zeroed_def heap.defs heap_fresh_def wf_pool_table_def
      find_pool_def conn_blocks_def separate_def wf_bucket_def)

lemma sample_conn_simps [simp]:
  "conn_state sample_conn = CONNECTION_STATE_IDLE" "grants sample_conn i" "queued_frames sample_conn = []"
  "pool_table sample_conn = replicate 16 []"
  by (simp_all add: sample_conn_def zeroed_def heap.defs POOL_TABLE_SIZE_def)

definition sample_conn1 :: conn where
  "sample_conn1 = snd (amqp_get_or_create_channel_pool 1 sample_conn)"

lemma sample_conn1_inv [simp]: "conn_inv sample_conn1" "find_pool (pool_table sample_conn1) 1 \<noteq> None"
  "conn_state sample_conn1 = CONNECTION_STATE_IDLE"
  by (rule get_or_create_run [OF sample_conn_inv, of 1], simp add: sample_conn1_def only_memoryD)+

text \<open>
  C8: \<^verbatim>\<open>amqp_get_or_create_channel_pool\<close> keeps the connection well formed: the pools of all channels
  stay well formed and hold disjoint blocks, the pools that exist are not touched, and a pool for
  the channel exists afterwards unless memory ran out.
\<close>

theorem get_or_create_channel_pool_sound:
  assumes "conn_inv c"
  shows "\<exists>r c'. amqp_get_or_create_channel_pool ch c = (Ok r, c') \<and> conn_inv c' \<and> only_memory c c' \<and>
    find_pool (pool_table c) \<subseteq>\<^sub>m find_pool (pool_table c') \<and>
    (r = None \<or> find_pool (pool_table c') ch \<noteq> None) \<and> (r = None \<longrightarrow> \<not> granting c)"
  using get_or_create_run [OF assms, of ch]
  by (smt (verit, best) domIff granting_def map_le_def not_None_eq unit.exhaust)

theorem get_or_create_channel_pool_sound_witness:
  "\<exists>r c'. amqp_get_or_create_channel_pool 7 sample_conn = (Ok r, c') \<and> conn_inv c' \<and> only_memory sample_conn c' \<and>
    find_pool (pool_table sample_conn) \<subseteq>\<^sub>m find_pool (pool_table c') \<and>
    (r = None \<or> find_pool (pool_table c') 7 \<noteq> None) \<and> (r = None \<longrightarrow> \<not> granting sample_conn)"
  by (rule get_or_create_channel_pool_sound) simp

text \<open>
  What runs on the pool of one channel stays there: an allocation, or the decoding of a frame,
  for one channel returns, leaves the pool of every other channel as it was, with all its blocks
  allocated at their sizes, and keeps the invariant of the connection.
\<close>

theorem channel_isolation:
  assumes "conn_inv c" and "find_pool (pool_table c) ch = Some e" and "safe pool_inv mem_step m"
  shows "\<exists>r c'. on_pool ch m c = (r, c') \<and> returns r \<and> conn_inv c' \<and>
    (\<forall>ch' e'. ch' \<noteq> ch \<and> find_pool (pool_table c) ch' = Some e' \<longrightarrow>
       find_pool (pool_table c') ch' = Some e' \<and> (\<forall>b\<in>claims e'. live c' b = live c b))"
proof -
  obtain q s where q: "m (pool_view c (entry_pool e)) = (q, s)" by fastforce
  have step: "returns q \<and> pool_inv s \<and> mem_step (pool_view c (entry_pool e)) s"
    using safeD [OF assms(3) pool_inv_view [OF assms(1,2)] q] .
  then have w: "within_pool (pool_view c (entry_pool e)) s" by (simp add: mem_step_within)
  note run = on_pool_run [where m = m and r = q and s = s, OF assms(1,2) q w]
  have "live s b = live c b" if "ch' \<noteq> ch" "find_pool (pool_table c) ch' = Some e'" "b \<in> claims e'" for ch' e' b
  proof -
    have "live c b \<noteq> None" "b \<notin> claims e"
      using assms(1,2) that unfolding conn_inv_def by (meson entry_live, meson separateD)
    then show ?thesis by (intro within_pool_keeps(1) [OF assms(1,2) w]) (auto simp: claims_def)
  qed
  with run step show ?thesis by (intro exI [of _ q] exI [of _ "put_back ch s c"]) auto
qed

theorem channel_isolation_witness:
  "\<exists>r c'. on_pool 1 (amqp_pool_alloc 40) sample_conn1 = (r, c') \<and> returns r \<and> conn_inv c' \<and>
    (\<forall>ch' e'. ch' \<noteq> 1 \<and> find_pool (pool_table sample_conn1) ch' = Some e' \<longrightarrow>
       find_pool (pool_table c') ch' = Some e' \<and> (\<forall>b\<in>claims e'. live c' b = live sample_conn1 b))"
proof -
  obtain e where "find_pool (pool_table sample_conn1) 1 = Some e" using sample_conn1_inv(2) by blast
  from channel_isolation [OF sample_conn1_inv(1) this safe_amqp_pool_alloc] show ?thesis .
qed

text \<open>
  \<^verbatim>\<open>amqp_release_buffers\<close> on an idle connection recycles the pool of every channel on which no
  frame is queued, and of no other: a channel with a queued frame keeps its pool and all its blocks.
  In any other state it aborts.
\<close>

theorem release_buffers_spares_queued_channels:
  assumes "conn_inv c"
  shows "if conn_state c = CONNECTION_STATE_IDLE
    then \<exists>c'. amqp_release_buffers c = (Ok (), c') \<and> conn_inv c' \<and> only_memory c c' \<and>
      (\<forall>ch e. find_pool (pool_table c) ch = Some e \<longrightarrow>
        (if queued_on c ch then find_pool (pool_table c') ch = Some e \<and> (\<forall>b\<in>claims e. live c' b = live c b)
         else find_pool (pool_table c') ch = Some (e\<lparr>entry_pool := recycled (entry_pool e)\<rparr>)))
    else amqp_release_buffers c = (Abort, c)"
proof (cases "conn_state c = CONNECTION_STATE_IDLE")
  case True
  let ?chs = "map entry_channel (concat (pool_table c))"
  from release_channels_run [OF assms True, of ?chs] obtain c' where
    run: "release_channels ?chs c = (Ok (), c')" "conn_inv c'" "only_memory c c'"
    "find_pool (pool_table c') = (\<lambda>x. if x \<in> set ?chs \<and> \<not> queued_on c x
      then map_option (\<lambda>e. e\<lparr>entry_pool := recycled (entry_pool e)\<rparr>) (find_pool (pool_table c) x)
      else find_pool (pool_table c) x)"
    "\<forall>x e b. find_pool (pool_table c) x = Some e \<longrightarrow> b \<in> claims e \<longrightarrow> queued_on c x \<longrightarrow> live c' b = live c b"
    by blast
  have "ch \<in> set ?chs" if "find_pool (pool_table c) ch = Some e" for ch e
  proof -
    have "e \<in> set (concat (pool_table c))" "entry_channel e = ch"
      using that find_pool_channel [OF that] assms entry_in_table by (auto simp: conn_inv_def)
    then show ?thesis by (metis image_eqI set_map)
  qed
  moreover have "amqp_release_buffers c = (Ok (), c')"
    using True run(1) by (simp add: amqp_release_buffers_def ENFORCE_STATE_def and_then_Ok)
  ultimately show ?thesis using True run by auto
qed (simp add: amqp_release_buffers_def ENFORCE_STATE_def run_and_then)

theorem release_buffers_spares_queued_channels_witness:
  "if conn_state sample_conn1 = CONNECTION_STATE_IDLE
    then \<exists>c'. amqp_release_buffers sample_conn1 = (Ok (), c') \<and> conn_inv c' \<and> only_memory sample_conn1 c' \<and>
      (\<forall>ch e. find_pool (pool_table sample_conn1) ch = Some e \<longrightarrow>
        (if queued_on sample_conn1 ch then find_pool (pool_table c') ch = Some e \<and>
           (\<forall>b\<in>claims e. live c' b = live sample_conn1 b)
         else find_pool (pool_table c') ch = Some (e\<lparr>entry_pool := recycled (entry_pool e)\<rparr>)))
    else amqp_release_buffers sample_conn1 = (Abort, sample_conn1)"
  by (rule release_buffers_spares_queued_channels) simp



text \<open>
  On an idle connection \<^verbatim>\<open>amqp_tune_connection\<close> returns and keeps the connection well formed for
  any parameters, and when it succeeds the parameters are in force and the outbound buffer has
  exactly \<^verbatim>\<open>frame_max\<close> bytes, as its recorded length says.
\<close>

theorem tune_connection_sound:
  assumes "conn_inv c" and "conn_state c = CONNECTION_STATE_IDLE" and "environment (clock_gettime P)"
  shows "\<exists>r c'. amqp_tune_connection P chm fm hb c = (r, c') \<and> returns r \<and> conn_inv c' \<and>
    conn_state c' = CONNECTION_STATE_IDLE \<and> pool_table c' = pool_table c \<and>
    queued_frames c' = queued_frames c \<and> (r = Ok () \<longrightarrow> tuned chm fm hb c')"
  using assms by (rule tune_run)

definition fixed_clock :: "'s platform" where
  "fixed_clock = \<lparr>socket = None, clock_gettime = ret (Some (7, 0)),
     os_select = (\<lambda>_ tv. ret (1, False, tv)), ndebug = False\<rparr>"

theorem tune_connection_sound_witness:
  "\<exists>r c'. amqp_tune_connection fixed_clock 10 4096 30 sample_conn = (r, c') \<and> returns r \<and> conn_inv c' \<and>
    conn_state c' = CONNECTION_STATE_IDLE \<and> pool_table c' = pool_table sample_conn \<and>
    queued_frames c' = queued_frames sample_conn \<and> (r = Ok () \<longrightarrow> tuned 10 4096 30 c')"
  by (rule tune_connection_sound) (simp_all add: fixed_clock_def environment_def safe_def)

text \<open>
  When the outbound buffer cannot be resized, \<^verbatim>\<open>amqp_tune_connection\<close> reports it but leaves the new
  length with the old buffer: the length it records then exceeds the block whenever
  \<^verbatim>\<open>frame_max\<close> grew.
\<close>

theorem failed_tune_overstates_buffer:
  assumes "conn_inv c" and "conn_state c = CONNECTION_STATE_IDLE" and "hb \<le> 0"
    and "\<not> grants c (next_id c)"
  shows "\<exists>c'. amqp_tune_connection P chm fm hb c = (Err AMQP_STATUS_NO_MEMORY, c') \<and>
    outbound_buffer c' = outbound_buffer c \<and> outbound_len c' = size_of_int fm \<and> frame_max c' = fm"
proof -
  have "outbound_block c = Some b \<Longrightarrow> live c b \<noteq> None" for b
    using assms(1) by (auto simp: conn_inv_def conn_blocks_def)
  with assms(2-) show ?thesis
    by (auto simp: amqp_tune_connection_def ENFORCE_STATE_def set_heartbeat_times_def amqp_heartbeat_enabled_def
        run_and_then or_return_def c_realloc_def c_malloc_def Let_def split: option.split)
qed

theorem failed_tune_overstates_buffer_witness:
  "\<exists>c'. amqp_tune_connection no_platform 0 131072 0 (sample_conn\<lparr>grants := \<lambda>_. False\<rparr>) =
      (Err AMQP_STATUS_NO_MEMORY, c') \<and>
    outbound_buffer c' = outbound_buffer (sample_conn\<lparr>grants := \<lambda>_. False\<rparr>) \<and>
    outbound_len c' = size_of_int 131072 \<and> frame_max c' = 131072"
  by (rule failed_tune_overstates_buffer)
    (simp_all add: conn_inv_same [OF sample_conn_inv] conn_blocks_def)

lemma zeroed_inv:
  assumes "heap_fresh h" and "live h b \<noteq> None"
  shows "conn_inv (zeroed b st stp h)"
  using assms
  by (auto simp: conn_inv_def zeroed_def heap.defs heap_fresh_def wf_pool_table_def POOL_TABLE_SIZE_def
      find_pool_def bucket_def conn_blocks_def separate_def wf_bucket_def)

lemma zeroed_simps [simp]:
  "conn_state (zeroed b st stp h) = CONNECTION_STATE_IDLE" "grants (zeroed b st stp h) = grants h"
  "next_id (zeroed b st stp h) = next_id h" "live (zeroed b st stp h) = live h"
  "outbound_block (zeroed b st stp h) = None" "sock_inbound_block (zeroed b st stp h) = None"
  "state_block (zeroed b st stp h) = b"
  by (simp_all add: zeroed_def heap.defs)

text \<open>
  \<^verbatim>\<open>amqp_new_connection\<close> returns a well formed connection in state
  \<^verbatim>\<open>CONNECTION_STATE_INITIAL\<close>, waiting for the 8 bytes of a protocol header, with an outbound buffer of the
  initial frame size, when its three allocations are granted.
\<close>

theorem new_connection_sound:
  assumes "heap_fresh h" and "\<forall>i. grants h i"
  shows "\<exists>c h'. amqp_new_connection st stp h = (Ok (Some c), h') \<and> conn_inv c \<and>
    conn_state c = CONNECTION_STATE_INITIAL \<and> inbound_buffer c = Header_buffer \<and> inbound_offset c = 0 \<and>
    target_size c = 8 \<and> length (header_buffer c) = 8 \<and> tuned 0 INITIAL_FRAME_POOL_PAGE_SIZE 0 c \<and>
    length (sock_inbound_buffer c) = INITIAL_INBOUND_SOCK_BUFFER_SIZE \<and> queued_frames c = [] \<and>
    (\<forall>ch. find_pool (pool_table c) ch = None)"
proof -
  define b where "b = next_id h"
  define h1 where "h1 = h\<lparr>next_id := Suc b, live := (live h)(b \<mapsto> sizeof_connection_state)\<rparr>"
  define z where "z = zeroed b st stp h1"
  have z: "conn_inv z" unfolding z_def
    by (rule zeroed_inv) (use assms(1) in \<open>auto simp: h1_def heap_fresh_def b_def less_Suc_eq\<close>)
  have mal: "c_malloc sizeof_connection_state h = (Ok (Some b), h1)"
    using assms(2) by (simp add: c_malloc_def Let_def b_def h1_def)
  define c1 where "c1 = snd (amqp_tune_connection no_platform 0 INITIAL_FRAME_POOL_PAGE_SIZE 0 z)"
  have env: "environment (clock_gettime (no_platform :: conn platform))"
    by (simp add: environment_def safe_def no_platform_def)
  have zs: "conn_state z = CONNECTION_STATE_IDLE" "outbound_block z = None" "grants z = grants h"
    "inbound_offset z = 0" "length (header_buffer z) = 8" "queued_frames z = []"
    "find_pool (pool_table z) ch = None" for ch
    by (simp_all add: z_def h1_def) (simp_all add: zeroed_def heap.defs HEADER_SIZE_def find_pool_def)
  have run1: "amqp_tune_connection no_platform 0 INITIAL_FRAME_POOL_PAGE_SIZE 0 z = (Ok (), c1)"
    and same: "grants c1 = grants h" "inbound_offset c1 = 0" "length (header_buffer c1) = 8" 
    using assms(2) zs(1-6) unfolding c1_def
    by (simp_all add: amqp_tune_connection_def ENFORCE_STATE_def set_heartbeat_times_def amqp_heartbeat_enabled_def
        run_and_then or_return_def c_realloc_def c_malloc_def Let_def)
  have c1: "conn_inv c1" "pool_table c1 = pool_table z" "queued_frames c1 = []" "tuned 0 INITIAL_FRAME_POOL_PAGE_SIZE 0 c1"
    using tune_run [OF z zs(1) env, of 0 INITIAL_FRAME_POOL_PAGE_SIZE 0] run1 zs by auto
  have none: "sock_inbound_block c1 = None"
    unfolding c1_def
    using assms(2) zs(1-6)
    by (simp add: amqp_tune_connection_def ENFORCE_STATE_def set_heartbeat_times_def amqp_heartbeat_enabled_def
        run_and_then or_return_def c_realloc_def c_malloc_def Let_def) (simp add: z_def)
  define c2 where "c2 = c1\<lparr>inbound_buffer := Header_buffer, conn_state := CONNECTION_STATE_INITIAL, target_size := 8\<rparr>"
  have c2: "conn_inv c2" by (rule conn_inv_same [OF c1(1)]) (simp_all add: c2_def conn_blocks_def)
  define d where "d = next_id c2"
  obtain c3 where m: "c_malloc INITIAL_INBOUND_SOCK_BUFFER_SIZE c2 = (Ok (Some d), c3)"
    and c3: "c3 = c2\<lparr>next_id := Suc d, live := (live c2)(d \<mapsto> INITIAL_INBOUND_SOCK_BUFFER_SIZE)\<rparr>"
    using assms(2) same by (simp add: c_malloc_def Let_def d_def c2_def)
  note 3 = conn_inv_malloc [OF c2 m]
  let ?c = "c3\<lparr>sock_inbound_block := Some d, sock_inbound_buffer := map (stale c3) [0..<INITIAL_INBOUND_SOCK_BUFFER_SIZE]\<rparr>"
  have "conn_inv ?c"
  proof (rule conn_inv_change [OF c2])
    show "heap_fresh ?c" using 3(1) by (simp add: conn_inv_def heap_fresh_def)
    fix ch e x assume "find_pool (pool_table c2) ch = Some e" "x \<in> claims e"
    then show "live ?c x = live c2 x" using c1(2) zs(7) by (simp add: c2_def)
  next
    have old: "conn_blocks ?c = conn_blocks c2 @ [d]" using none by (simp add: c3 c2_def conn_blocks_def)
    have "live c2 d = None" using 3(5) by simp
    then show "distinct (conn_blocks ?c)" unfolding old using c2 by (auto simp: conn_inv_def)
    fix x assume "x \<in> set (conn_blocks ?c)"
    then show "live ?c x \<noteq> None \<and> (x \<in> set (conn_blocks c2) \<or> live c2 x = None)"
      unfolding old using c2 \<open>live c2 d = None\<close> by (auto simp: c3 conn_inv_def)
  qed (simp add: c3)
  moreover have "amqp_new_connection st stp h = (Ok (Some ?c), heap.truncate ?c)"
    using mal run1 m
    by (simp add: amqp_new_connection_def and_then_Ok initialise_def or_return_Some flip: z_def c2_def)
  ultimately show ?thesis using c1 same zs(7) by (simp add: c3 c2_def tuned_def)
qed

theorem new_connection_sound_witness:
  "\<exists>c h'. amqp_new_connection (\<lambda>_. 0) sample_properties \<lparr>next_id = 0, grants = \<lambda>_. True, live = \<lambda>_. None\<rparr> =
      (Ok (Some c), h') \<and> conn_inv c \<and>
    conn_state c = CONNECTION_STATE_INITIAL \<and> inbound_buffer c = Header_buffer \<and> inbound_offset c = 0 \<and>
    target_size c = 8 \<and> length (header_buffer c) = 8 \<and> tuned 0 INITIAL_FRAME_POOL_PAGE_SIZE 0 c \<and>
    length (sock_inbound_buffer c) = INITIAL_INBOUND_SOCK_BUFFER_SIZE \<and> queued_frames c = [] \<and>
    (\<forall>ch. find_pool (pool_table c) ch = None)"
  by (rule new_connection_sound) (simp_all add: heap_fresh_def)

text \<open>
  When the last of its allocations fails, \<^verbatim>\<open>amqp_new_connection\<close> frees the connection but not the
  outbound buffer that \<^verbatim>\<open>amqp_tune_connection\<close> allocated for it.
\<close>

theorem new_connection_leak:
  assumes "heap_fresh h" and "grants h (next_id h)" and "grants h (next_id h + 1)" and "\<not> grants h (next_id h + 2)"
  shows "\<exists>h'. amqp_new_connection st stp h = (Ok None, h') \<and> live h' (next_id h) = None \<and>
    live h' (next_id h + 1) = Some (size_of_int INITIAL_FRAME_POOL_PAGE_SIZE)"
  using assms(2-)
  by (simp add: amqp_new_connection_def initialise_def discard_def amqp_tune_connection_def ENFORCE_STATE_def
      set_heartbeat_times_def amqp_heartbeat_enabled_def run_and_then or_return_def c_realloc_def
      c_malloc_def c_free_def Let_def heap.defs)

theorem new_connection_leak_witness:
  "\<exists>h'. amqp_new_connection (\<lambda>_. 0) sample_properties \<lparr>next_id = 0, grants = \<lambda>i. i < 2, live = \<lambda>_. None\<rparr> =
      (Ok None, h') \<and> live h' (next_id \<lparr>next_id = 0, grants = \<lambda>i. i < 2, live = \<lambda>_. None\<rparr>) = None \<and>
    live h' (next_id \<lparr>next_id = 0, grants = \<lambda>i. i < (2::nat), live = \<lambda>_. None\<rparr> + 1) =
      Some (size_of_int INITIAL_FRAME_POOL_PAGE_SIZE)"
  by (rule new_connection_leak) (simp_all add: heap_fresh_def)

end
