(* ===== verification/Frames.thy ===== *)
theory Frames
  imports Connection
begin

text \<open>
  Frames on the wire: \<^verbatim>\<open>amqp_handle_input\<close> and \<^verbatim>\<open>amqp_send_frame\<close> of
  \<^verbatim>\<open>amqp_connection.c\<close>.  The input side is the state machine of \<^verbatim>\<open>amqp_connection_state_enum\<close>: it is
  given data as it arrives, in pieces of any size, and hands out a frame when its last byte is in.

  \<open>frame_bytes\<close> is the wire format of a frame.  The lemmas on input follow one frame through the
  states (\<open>midway\<close>), those on output show that exactly the wire format is handed to the socket.
\<close>

unbundle bit_operations_syntax

section \<open>Reading frames\<close>

definition AMQP_FRAME_METHOD8 :: u8 where "AMQP_FRAME_METHOD8 = word_of_int AMQP_FRAME_METHOD"
definition AMQP_FRAME_HEADER8 :: u8 where "AMQP_FRAME_HEADER8 = word_of_int AMQP_FRAME_HEADER"
definition AMQP_FRAME_BODY8 :: u8 where "AMQP_FRAME_BODY8 = word_of_int AMQP_FRAME_BODY"
definition AMQP_FRAME_HEARTBEAT8 :: u8 where "AMQP_FRAME_HEARTBEAT8 = word_of_int AMQP_FRAME_HEARTBEAT"
definition AMQP_FRAME_END8 :: u8 where "AMQP_FRAME_END8 = word_of_int AMQP_FRAME_END"
definition AMQP_PSEUDOFRAME_PROTOCOL_HEADER :: u8 where "AMQP_PSEUDOFRAME_PROTOCOL_HEADER = 0x41"

lemma frame_type_values [simp]:
  "AMQP_FRAME_METHOD8 = 1" "AMQP_FRAME_HEADER8 = 2" "AMQP_FRAME_BODY8 = 3" "AMQP_FRAME_HEARTBEAT8 = 8"
  "AMQP_FRAME_END8 = 0xCE" "AMQP_PSEUDOFRAME_PROTOCOL_HEADER = 0x41"
  by (simp_all add: AMQP_FRAME_METHOD8_def AMQP_FRAME_METHOD_def AMQP_FRAME_HEADER8_def AMQP_FRAME_HEADER_def
      AMQP_FRAME_BODY8_def AMQP_FRAME_BODY_def AMQP_FRAME_HEARTBEAT8_def AMQP_FRAME_HEARTBEAT_def
      AMQP_FRAME_END8_def AMQP_FRAME_END_def AMQP_PSEUDOFRAME_PROTOCOL_HEADER_def)

text \<open>The frame of type 0: no complete frame yet, or one that is ignored.\<close>

definition no_frame :: amqp_frame where
  "no_frame = \<lparr>frame_type = 0, frame_channel = 0, frame_payload = No_payload\<rparr>"

definition return_to_idle :: "'a conn_scheme \<Rightarrow> 'a conn_scheme" where
  "return_to_idle c = c\<lparr>inbound_buffer := Header_buffer, inbound_offset := 0,
     target_size := HEADER_SIZE, conn_state := CONNECTION_STATE_IDLE\<rparr>"

text \<open>\<^verbatim>\<open>memcpy\<close> to \<^verbatim>\<open>inbound_buffer.bytes\<close> at an offset; past the end of the block is undefined.\<close>

definition copy_inbound :: "nat \<Rightarrow> bytes \<Rightarrow> ('a conn_scheme, unit) cm" where
  "copy_inbound i bs = (\<lambda>c. case inbound_buffer c of
     Header_buffer \<Rightarrow> if i + length bs \<le> length (header_buffer c)
       then (Ok (), c\<lparr>header_buffer := splice (header_buffer c) i bs\<rparr>) else (Undef, c)
   | Frame_block buf \<Rightarrow> if i + length bs \<le> length buf
       then (Ok (), c\<lparr>inbound_buffer := Frame_block (splice buf i bs)\<rparr>) else (Undef, c)
   | Null_buffer \<Rightarrow> if bs = [] then (Ok (), c) else (Undef, c))"

text \<open>The result is the number of bytes consumed and the data that is left.\<close>

definition consume_data :: "bytes \<Rightarrow> ('a conn_scheme, nat \<times> bytes) cm" where
  "consume_data received_data = and_then get (\<lambda>c.
     let bytes_consumed = size_minus (target_size c) (inbound_offset c);
         bytes_consumed = (if length received_data < bytes_consumed then length received_data else bytes_consumed)
     in and_then (copy_inbound (inbound_offset c) (take bytes_consumed received_data)) (\<lambda>_.
        and_then (modify (\<lambda>c. c\<lparr>inbound_offset := inbound_offset c + bytes_consumed\<rparr>)) (\<lambda>_.
        ret (bytes_consumed, drop bytes_consumed received_data))))"

text \<open>\<^verbatim>\<open>raw_frame\<close>: the memory \<^verbatim>\<open>inbound_buffer.bytes\<close> points to, and the accessors on it.\<close>

definition raw_frame :: "'a conn_scheme \<Rightarrow> bytes" where
  "raw_frame c = (case inbound_buffer c of Header_buffer \<Rightarrow> header_buffer c | Frame_block buf \<Rightarrow> buf
     | Null_buffer \<Rightarrow> [])"

definition peek :: "nat \<Rightarrow> nat \<Rightarrow> (bytes \<Rightarrow> 'b) \<Rightarrow> ('a conn_scheme, 'b) cm" where
  "peek i n f = and_then get (\<lambda>c.
     if i + n \<le> length (raw_frame c) then ret (f (slice (raw_frame c) i n)) else undef)"

definition raw_8 :: "nat \<Rightarrow> ('a conn_scheme, u8) cm" where "raw_8 i = peek i 1 (amqp_d8 host)"
definition raw_16 :: "nat \<Rightarrow> ('a conn_scheme, u16) cm" where "raw_16 i = peek i 2 (amqp_d16 host)"
definition raw_32 :: "nat \<Rightarrow> ('a conn_scheme, u32) cm" where "raw_32 i = peek i 4 (amqp_d32 host)"
definition raw_64 :: "nat \<Rightarrow> ('a conn_scheme, u64) cm" where "raw_64 i = peek i 8 (amqp_d64 host)"

text \<open>The view of what follows the first \<open>skip\<close> bytes of the frame, up to its end marker.\<close>

definition encoded_view :: "'a conn_scheme \<Rightarrow> nat \<Rightarrow> view" where
  "encoded_view c skip = \<lparr>view_len = size_minus (target_size c) (skip + FOOTER_SIZE),
     view_mem = drop skip (raw_frame c)\<rparr>"

text \<open>The switch on the frame type, which also decides the type reported.\<close>

definition decode_payload :: "u8 \<Rightarrow> u16 \<Rightarrow> ('a conn_scheme, u8 \<times> amqp_frame_payload) cm" where
  "decode_payload ty channel =
     (if ty = AMQP_FRAME_METHOD8 then
        and_then (raw_32 HEADER_SIZE) (\<lambda>method_id.
        and_then get (\<lambda>c.
        and_then (on_pool channel (amqp_decode_method method_id (encoded_view c (HEADER_SIZE + 4)))) (\<lambda>decoded.
        ret (ty, Method_payload method_id decoded))))
      else if ty = AMQP_FRAME_HEADER8 then
        and_then (raw_16 HEADER_SIZE) (\<lambda>class_id.
        and_then (raw_64 (HEADER_SIZE + 4)) (\<lambda>body_size.
        and_then get (\<lambda>c.
        and_then (on_pool channel (amqp_decode_properties class_id (stale_properties c)
            (encoded_view c (HEADER_SIZE + 12)))) (\<lambda>decoded.
        ret (ty, Properties_payload class_id body_size decoded)))))
      else if ty = AMQP_FRAME_BODY8 then
        and_then get (\<lambda>c.
        and_then (peek HEADER_SIZE (size_minus (target_size c) (HEADER_SIZE + FOOTER_SIZE)) id) (\<lambda>body.
        ret (ty, Body_payload body)))
      else if ty = AMQP_FRAME_HEARTBEAT8 then ret (ty, No_payload)
      else ret (0, No_payload))"

text \<open>\<^verbatim>\<open>case CONNECTION_STATE_BODY\<close>\<close>

definition handle_body :: "nat \<Rightarrow> ('a conn_scheme, nat \<times> amqp_frame) cm" where
  "handle_body bytes_consumed = and_then get (\<lambda>c.
     and_then (raw_8 (size_minus (target_size c) 1)) (\<lambda>frame_end.
     if frame_end \<noteq> AMQP_FRAME_END8 then raise AMQP_STATUS_BAD_AMQP_DATA
     else
       and_then (raw_8 0) (\<lambda>ty.
       and_then (raw_16 1) (\<lambda>channel.
       and_then (or_return AMQP_STATUS_NO_MEMORY (amqp_get_or_create_channel_pool channel)) (\<lambda>_.
       and_then (decode_payload ty channel) (\<lambda>(ty', payload).
       and_then (modify return_to_idle) (\<lambda>_.
       ret (bytes_consumed, \<lparr>frame_type = ty', frame_channel = channel, frame_payload = payload\<rparr>))))))))"

text \<open>\<^verbatim>\<open>case CONNECTION_STATE_HEADER\<close>; the size of the frame is computed in 32 bits.\<close>

definition announced_size :: "u32 \<Rightarrow> nat" where
  "announced_size len = unat (len + of_nat HEADER_SIZE + of_nat FOOTER_SIZE)"

definition start_frame :: "nat \<Rightarrow> ('a conn_scheme, unit) cm" where
  "start_frame n = modify (\<lambda>c. c\<lparr>inbound_buffer := Frame_block (map (stale c) [0..<round_up n])\<rparr>)"

definition handle_header :: "nat \<Rightarrow> bytes \<Rightarrow> ('a conn_scheme, nat \<times> amqp_frame) cm" where
  "handle_header bytes_consumed received_data =
     and_then (raw_16 1) (\<lambda>channel.
     and_then (or_return AMQP_STATUS_NO_MEMORY (amqp_get_or_create_channel_pool channel)) (\<lambda>_.
     and_then (raw_32 3) (\<lambda>len.
     and_then (modify (\<lambda>c. c\<lparr>target_size := announced_size len\<rparr>)) (\<lambda>_.
     and_then (on_pool channel (amqp_pool_alloc (announced_size len))) (\<lambda>block.
     if block = None then
       and_then (modify (\<lambda>c. c\<lparr>inbound_buffer := Null_buffer\<rparr>)) (\<lambda>_. raise AMQP_STATUS_NO_MEMORY)
     else
       and_then (start_frame (announced_size len)) (\<lambda>_.
       and_then get (\<lambda>c.
       and_then (copy_inbound 0 (take HEADER_SIZE (header_buffer c))) (\<lambda>_.
       and_then (modify (\<lambda>c. c\<lparr>conn_state := CONNECTION_STATE_BODY\<rparr>)) (\<lambda>_.
       and_then (consume_data received_data) (\<lambda>(n, _).
       and_then get (\<lambda>c.
       if inbound_offset c < target_size c then ret (bytes_consumed + n, no_frame)
       else handle_body (bytes_consumed + n))))))))))))"

definition protocol_header :: "bytes \<Rightarrow> amqp_frame" where
  "protocol_header raw = \<lparr>frame_type = AMQP_PSEUDOFRAME_PROTOCOL_HEADER, frame_channel = 0,
     frame_payload = Protocol_header (raw ! 4) (raw ! 5) (raw ! 6) (raw ! 7)\<rparr>"

definition amqp_handle_input :: "bytes \<Rightarrow> ('a conn_scheme, nat \<times> amqp_frame) cm" where
  "amqp_handle_input received_data =
     (if received_data = [] then ret (0, no_frame)
      else
        and_then (modify (\<lambda>c. if conn_state c = CONNECTION_STATE_IDLE
            then c\<lparr>conn_state := CONNECTION_STATE_HEADER\<rparr> else c)) (\<lambda>_.
        and_then (consume_data received_data) (\<lambda>(bytes_consumed, rest).
        and_then get (\<lambda>c.
        if inbound_offset c < target_size c then ret (bytes_consumed, no_frame)
        else (case conn_state c of
            CONNECTION_STATE_INITIAL \<Rightarrow>
              if take 4 (raw_frame c) = [0x41, 0x4d, 0x51, 0x50] then
                and_then (modify return_to_idle) (\<lambda>_. ret (bytes_consumed, protocol_header (raw_frame c)))
              else handle_header bytes_consumed rest
          | CONNECTION_STATE_HEADER \<Rightarrow> handle_header bytes_consumed rest
          | CONNECTION_STATE_BODY \<Rightarrow> handle_body bytes_consumed
          | CONNECTION_STATE_IDLE \<Rightarrow> amqp_abort)))))"

section \<open>Writing frames\<close>

text \<open>Writing to \<^verbatim>\<open>outbound_buffer.bytes\<close> at an offset, without a check; and an encoder run on the
  part of it after the first \<open>skip\<close> bytes.\<close>

definition put_out :: "nat \<Rightarrow> bytes \<Rightarrow> ('a conn_scheme, unit) cm" where
  "put_out i bs = (\<lambda>c. if i + length bs \<le> length (outbound_buffer c)
     then (Ok (), c\<lparr>outbound_buffer := splice (outbound_buffer c) i bs\<rparr>) else (Undef, c))"

definition encode_out :: "nat \<Rightarrow> (wr, 'b) cm \<Rightarrow> ('a conn_scheme, 'b) cm" where
  "encode_out skip m = (\<lambda>c.
     case m \<lparr>wr_buf = drop skip (outbound_buffer c),
             wr_len = size_minus (outbound_len c) (skip + FOOTER_SIZE), wr_off = 0\<rparr> of
       (r, w) \<Rightarrow> (r, c\<lparr>outbound_buffer := take skip (outbound_buffer c) @ wr_buf w\<rparr>))"

text \<open>
  The result of the call is kept while the heartbeat time is updated.
\<close>

definition attempt :: "('s, unit) cm \<Rightarrow> ('s, amqp_status_enum) cm" where
  "attempt m = (\<lambda>s. case m s of (Ok _, s') \<Rightarrow> (Ok AMQP_STATUS_OK, s')
     | (Err e, s') \<Rightarrow> (Ok e, s') | (r, s') \<Rightarrow> (pass_error r, s'))"

definition as_status :: "amqp_status_enum \<Rightarrow> ('s, unit) cm" where
  "as_status res = (if res = AMQP_STATUS_OK then ret () else raise res)"

definition after_send :: "'a conn_scheme platform \<Rightarrow> amqp_status_enum \<Rightarrow> ('a conn_scheme, unit) cm" where
  "after_send P res = and_then get (\<lambda>c.
     if 0 < heartbeat c then
       and_then (amqp_get_monotonic_timestamp P) (\<lambda>current_time.
       if current_time = 0 then raise AMQP_STATUS_TIMER_FAILURE
       else and_then (modify (\<lambda>c. c\<lparr>next_send_heartbeat := amqp_calc_next_send_heartbeat c current_time\<rparr>)) (\<lambda>_.
         as_status res))
     else as_status res)"

text \<open>The length of the payload of a frame that is not a body frame.\<close>

definition encode_payload :: "amqp_frame \<Rightarrow> ('a conn_scheme, nat) cm" where
  "encode_payload frame =
     (if frame_type frame = AMQP_FRAME_METHOD8 then
        (case frame_payload frame of
           Method_payload method_id decoded \<Rightarrow>
             and_then (put_out HEADER_SIZE (amqp_e32 host method_id)) (\<lambda>_.
             and_then (encode_out (HEADER_SIZE + 4) (amqp_encode_method method_id decoded)) (\<lambda>res.
             ret (res + 4)))
         | _ \<Rightarrow> undef)
      else if frame_type frame = AMQP_FRAME_HEADER8 then
        (case frame_payload frame of
           Properties_payload class_id body_size decoded \<Rightarrow>
             and_then (put_out HEADER_SIZE (amqp_e16 host class_id)) (\<lambda>_.
             and_then (put_out (HEADER_SIZE + 2) (amqp_e16 host 0)) (\<lambda>_.
             and_then (put_out (HEADER_SIZE + 4) (amqp_e64 host body_size)) (\<lambda>_.
             and_then (encode_out (HEADER_SIZE + 12) (amqp_encode_properties class_id decoded)) (\<lambda>res.
             ret (res + 12)))))
         | _ \<Rightarrow> undef)
      else if frame_type frame = AMQP_FRAME_HEARTBEAT8 then ret 0
      else raise AMQP_STATUS_INVALID_PARAMETER)"

text \<open>The two ways to hand the frame to the socket.  A body is not copied to the outbound buffer.\<close>

definition send_body :: "'a conn_scheme platform \<Rightarrow> amqp_frame \<Rightarrow> ('a conn_scheme, amqp_status_enum) cm" where
  "send_body P frame = (case frame_payload frame of
     Body_payload body \<Rightarrow>
       and_then (put_out 3 (amqp_e32 host (of_nat (length body)))) (\<lambda>_.
       and_then get (\<lambda>c.
       attempt (amqp_socket_writev (socket P)
         [take HEADER_SIZE (outbound_buffer c), body, [AMQP_FRAME_END8]])))
   | _ \<Rightarrow> undef)"

definition send_other :: "'a conn_scheme platform \<Rightarrow> amqp_frame \<Rightarrow> ('a conn_scheme, amqp_status_enum) cm" where
  "send_other P frame =
     and_then (encode_payload frame) (\<lambda>out_frame_len.
     and_then (put_out 3 (amqp_e32 host (of_nat out_frame_len))) (\<lambda>_.
     and_then (put_out (out_frame_len + HEADER_SIZE) (amqp_e8 host AMQP_FRAME_END8)) (\<lambda>_.
     and_then get (\<lambda>c.
     attempt (amqp_socket_send (socket P) (take (out_frame_len + HEADER_SIZE + FOOTER_SIZE) (outbound_buffer c)))))))"

definition amqp_send_frame :: "'a conn_scheme platform \<Rightarrow> amqp_frame \<Rightarrow> ('a conn_scheme, unit) cm" where
  "amqp_send_frame P frame =
     and_then (put_out 0 (amqp_e8 host (frame_type frame))) (\<lambda>_.
     and_then (put_out 1 (amqp_e16 host (frame_channel frame))) (\<lambda>_.
     and_then (if frame_type frame = AMQP_FRAME_BODY8 then send_body P frame else send_other P frame) (\<lambda>res.
     after_send P res)))"

section \<open>The wire format of frames\<close>

definition frame_image :: "u8 \<Rightarrow> u16 \<Rightarrow> bytes \<Rightarrow> bytes" where
  "frame_image ty channel payload =
     be8 ty @ be16 channel @ be32 (of_nat (length payload)) @ payload @ [0xCE]"

definition payload_bytes :: "amqp_frame_payload \<Rightarrow> bytes" where
  "payload_bytes p = (case p of
     Method_payload method_id decoded \<Rightarrow> be32 method_id @ method_wire decoded
   | Properties_payload class_id body_size decoded \<Rightarrow>
       be16 class_id @ be16 0 @ be64 body_size @ properties_bytes decoded
   | Body_payload body \<Rightarrow> body
   | _ \<Rightarrow> [])"

definition frame_bytes :: "amqp_frame \<Rightarrow> bytes" where
  "frame_bytes f = frame_image (frame_type f) (frame_channel f) (payload_bytes (frame_payload f))"

definition wf_frame :: "amqp_frame \<Rightarrow> bool" where
  "wf_frame f \<longleftrightarrow> length (frame_bytes f) < 2 ^ 32 \<and> (case frame_payload f of
     Method_payload method_id decoded \<Rightarrow> frame_type f = 1 \<and> wf_method method_id decoded
   | Properties_payload class_id body_size decoded \<Rightarrow> frame_type f = 2 \<and> wf_properties class_id decoded
   | Body_payload body \<Rightarrow> frame_type f = 3
   | No_payload \<Rightarrow> frame_type f = 8
   | Protocol_header _ _ _ _ \<Rightarrow> False)"

text \<open>
  What the reader makes of a frame: the property struct is allocated from the pool and only the
  fields whose flags are set are written.
\<close>

definition received :: "amqp_basic_properties \<Rightarrow> amqp_frame \<Rightarrow> amqp_frame" where
  "received block f = f\<lparr>frame_payload := (case frame_payload f of
     Properties_payload class_id body_size decoded \<Rightarrow> Properties_payload class_id body_size (overlaid decoded block)
   | p \<Rightarrow> p)\<rparr>"

lemma length_frame_image [simp]: "length (frame_image ty ch payload) = length payload + 8"
  by (simp add: frame_image_def)

lemma slice_prefix:
  assumes "take k xs = take k ys" and "i + n \<le> k"
  shows "slice xs i n = slice ys i n"
proof -
  have "slice zs i n = take n (drop i (take k zs))" for zs :: "'a list"
    using assms(2) by (simp add: slice_def drop_take min_def)
  then show ?thesis using assms(1) by metis
qed

lemma frame_image_fields:
  "slice (frame_image ty ch payload) 0 1 = be8 ty"
  "slice (frame_image ty ch payload) 1 2 = be16 ch"
  "slice (frame_image ty ch payload) 3 4 = be32 (of_nat (length payload))"
  "7 + length xs + length ys = n \<Longrightarrow> payload = xs @ bs @ ys \<Longrightarrow>
   slice (frame_image ty ch payload) (7 + length xs) (length bs) = bs"
  "slice (frame_image ty ch payload) 7 (length payload) = payload"
  "slice (frame_image ty ch payload) (7 + length payload) 1 = [0xCE]"
  by (simp_all add: frame_image_def slice_def)

lemma announced_size_image:
  "length payload + 8 < 2 ^ 32 \<Longrightarrow> announced_size (of_nat (length payload)) = length payload + 8"
  by (simp add: announced_size_def size_defs unat_word_ariths unat_of_nat take_bit_eq_mod)

section \<open>The state of the reader\<close>

text \<open>Nothing but the memory and the reader's own fields changes.\<close>

definition input_step :: "'a conn_scheme \<Rightarrow> 'a conn_scheme \<Rightarrow> bool" where
  "input_step c c' \<longleftrightarrow> grants c' = grants c \<and>
     c' = c\<lparr>next_id := next_id c', live := live c', pool_table := pool_table c',
       conn_state := conn_state c', header_buffer := header_buffer c', inbound_buffer := inbound_buffer c',
       inbound_offset := inbound_offset c', target_size := target_size c'\<rparr>"

lemma input_step_refl [simp]: "input_step c c"
  by (simp add: input_step_def)

lemma input_step_trans: "input_step c d \<Longrightarrow> input_step d e \<Longrightarrow> input_step c e"
  unfolding input_step_def by (cases c, cases d, cases e) auto

interpretation reader: frame_relation input_step
  by unfold_locales (auto intro: input_step_trans)

lemma input_stepD:
  assumes "input_step c c'"
  shows "grants c' = grants c" "channel_max c' = channel_max c"
    "frame_max c' = frame_max c" "heartbeat c' = heartbeat c"
    "outbound_buffer c' = outbound_buffer c" "outbound_len c' = outbound_len c"
    "queued_frames c' = queued_frames c" "stale c' = stale c" "stale_properties c' = stale_properties c"
    "conn_blocks c' = conn_blocks c" "sock_inbound_buffer c' = sock_inbound_buffer c"
    "sock_inbound_offset c' = sock_inbound_offset c" "sock_inbound_limit c' = sock_inbound_limit c"
  using assms unfolding input_step_def conn_blocks_def by (cases c; cases c'; simp)+

lemma only_memory_input_step: "only_memory c c' \<Longrightarrow> input_step c c'"
  unfolding only_memory_def input_step_def by (cases c; cases c') simp

lemma input_step_granting: "input_step c c' \<Longrightarrow> granting c' = granting c"
  by (simp add: granting_def input_stepD)

definition ready :: "'a conn_scheme \<Rightarrow> bool" where
  "ready c \<longleftrightarrow> conn_state c = CONNECTION_STATE_IDLE \<and> inbound_buffer c = Header_buffer \<and>
     inbound_offset c = 0 \<and> target_size c = 7 \<and> length (header_buffer c) = 8"

text \<open>The first \<open>k\<close> bytes of the frame \<open>F\<close> are in the header buffer, or in the block for the frame.\<close>

definition in_header :: "bytes \<Rightarrow> nat \<Rightarrow> 'a conn_scheme \<Rightarrow> bool" where
  "in_header F k c \<longleftrightarrow> inbound_buffer c = Header_buffer \<and> inbound_offset c = k \<and> target_size c = 7 \<and>
     length (header_buffer c) = 8 \<and> take k (header_buffer c) = take k F \<and>
     (conn_state c = CONNECTION_STATE_HEADER \<or> k = 0 \<and> conn_state c = CONNECTION_STATE_IDLE)"

definition in_body :: "bytes \<Rightarrow> nat \<Rightarrow> 'a conn_scheme \<Rightarrow> bool" where
  "in_body F k c \<longleftrightarrow> conn_state c = CONNECTION_STATE_BODY \<and> inbound_offset c = k \<and> target_size c = length F \<and>
     length (header_buffer c) = 8 \<and>
     (\<exists>buf. inbound_buffer c = Frame_block buf \<and> length F \<le> length buf \<and> length buf = round_up (length F) \<and>
        take k buf = take k F)"

definition midway :: "bytes \<Rightarrow> nat \<Rightarrow> 'a conn_scheme \<Rightarrow> bool" where
  "midway F k c \<longleftrightarrow> (if k < 7 then in_header F k c else in_body F k c)"

lemma ready_midway: "ready c \<Longrightarrow> midway F 0 c"
  by (simp add: ready_def midway_def in_header_def)

lemma ready_return_to_idle: "length (header_buffer c) = 8 \<Longrightarrow> ready (return_to_idle c)"
  by (simp add: ready_def return_to_idle_def size_defs)

lemma return_to_idle_step: "input_step c (return_to_idle c)"
  by (simp add: input_step_def return_to_idle_def)

lemma conn_inv_return_to_idle: "conn_inv c \<Longrightarrow> conn_inv (return_to_idle c)"
  by (rule conn_inv_same) (simp_all add: return_to_idle_def conn_blocks_def)

section \<open>Single steps of the reader\<close>

lemma size_minus_le [simp]: "b \<le> a \<Longrightarrow> size_minus a b = a - b"
  by (simp add: size_minus_def)

lemma raw_frame_only_memory: "only_memory c c' \<Longrightarrow> raw_frame c' = raw_frame c"
  by (auto simp: raw_frame_def only_memoryD split: inbound_target.split)

lemma run_peek: "i + n \<le> length (raw_frame c) \<Longrightarrow> peek i n f c = (Ok (f (slice (raw_frame c) i n)), c)"
  by (simp add: peek_def)

lemma run_peek_prefix:
  assumes "take k (raw_frame c) = take k F" and "i + n \<le> k" and "k \<le> length (raw_frame c)"
  shows "peek i n f c = (Ok (f (slice F i n)), c)"
  using assms(2,3) slice_prefix [OF assms(1,2)] by (simp add: run_peek)

lemma run_raw:
  "take k (raw_frame c) = take k F \<Longrightarrow> i + 1 \<le> k \<Longrightarrow> k \<le> length (raw_frame c) \<Longrightarrow>
   slice F i 1 = be8 a \<Longrightarrow> raw_8 i c = (Ok a, c)"
  "take k (raw_frame c) = take k F \<Longrightarrow> i + 2 \<le> k \<Longrightarrow> k \<le> length (raw_frame c) \<Longrightarrow>
   slice F i 2 = be16 b \<Longrightarrow> raw_16 i c = (Ok b, c)"
  "take k (raw_frame c) = take k F \<Longrightarrow> i + 4 \<le> k \<Longrightarrow> k \<le> length (raw_frame c) \<Longrightarrow>
   slice F i 4 = be32 d \<Longrightarrow> raw_32 i c = (Ok d, c)"
  "take k (raw_frame c) = take k F \<Longrightarrow> i + 8 \<le> k \<Longrightarrow> k \<le> length (raw_frame c) \<Longrightarrow>
   slice F i 8 = be64 e \<Longrightarrow> raw_64 i c = (Ok e, c)"
  by (simp_all add: raw_8_def raw_16_def raw_32_def raw_64_def run_peek_prefix [of k c F]
      amqp_d8_be amqp_d16_be amqp_d32_be amqp_d64_be)

lemma consume_header:
  assumes "inbound_buffer c = Header_buffer" and "inbound_offset c \<le> target_size c"
    and "target_size c \<le> length (header_buffer c)"
    and "n = min (length data) (target_size c - inbound_offset c)"
  shows "consume_data data c = (Ok (n, drop n data),
    c\<lparr>header_buffer := splice (header_buffer c) (inbound_offset c) (take n data), inbound_offset := inbound_offset c + n\<rparr>)"
  using assms by (auto simp: consume_data_def Let_def copy_inbound_def run_and_then min_def)

lemma consume_block:
  assumes "inbound_buffer c = Frame_block buf" and "inbound_offset c \<le> target_size c"
    and "target_size c \<le> length buf"
    and "n = min (length data) (target_size c - inbound_offset c)"
  shows "consume_data data c = (Ok (n, drop n data),
    c\<lparr>inbound_buffer := Frame_block (splice buf (inbound_offset c) (take n data)), inbound_offset := inbound_offset c + n\<rparr>)"
  using assms by (auto simp: consume_data_def Let_def copy_inbound_def run_and_then min_def)

text \<open>\<open>data\<close> carries the frame on from its \<open>k\<close>-th byte, as far as both go.\<close>

definition goes_on :: "bytes \<Rightarrow> nat \<Rightarrow> bytes \<Rightarrow> bool" where
  "goes_on F k data \<longleftrightarrow> take (length F - k) data = take (length data) (drop k F)"

lemma goes_on_take:
  assumes "goes_on F k data" and "n \<le> length data" and "k + n \<le> length F"
  shows "take n data = take n (drop k F)"
proof -
  have "take n (take (length F - k) data) = take n (take (length data) (drop k F))"
    using assms(1) by (simp add: goes_on_def)
  moreover have "n \<le> length F - k" using assms(3) by simp
  ultimately show ?thesis using assms(2) by (simp add: min_absorb1)
qed

lemma goes_on_drop:
  assumes "goes_on F k data" and "n \<le> length data" and "k + n \<le> length F"
  shows "goes_on F (k + n) (drop n data)"
proof -
  have "drop n (take (length F - k) data) = drop n (take (length data) (drop k F))"
    using assms(1) by (simp add: goes_on_def)
  then show ?thesis by (simp add: goes_on_def drop_take add.commute diff_diff_add)
qed

lemma splice_goes_on:
  assumes "take k buf = take k F" and "goes_on F k data" and "n \<le> length data" and "k + n \<le> length F"
    and "k + n \<le> length buf"
  shows "take (k + n) (splice buf k (take n data)) = take (k + n) F"
proof -
  have "take (k + n) (splice buf k (take n data)) = take k buf @ take n data"
    using assms(3,5) by (simp add: splice_def)
  also have "\<dots> = take (k + n) F" using assms goes_on_take by (simp add: take_add)
  finally show ?thesis .
qed

lemma consume_in_body:
  assumes c: "in_body F k c" and k: "k \<le> length F" and d: "goes_on F k data"
    and n: "n = min (length data) (length F - k)"
  shows "\<exists>c'. consume_data data c = (Ok (n, drop n data), c') \<and> in_body F (k + n) c' \<and>
    input_step c c' \<and> (conn_inv c \<longrightarrow> conn_inv c') \<and> pool_table c' = pool_table c"
proof -
  obtain buf where b: "inbound_buffer c = Frame_block buf" "length F \<le> length buf" "take k buf = take k F"
    "length buf = round_up (length F)"
    using c by (auto simp: in_body_def)
  have o: "inbound_offset c = k" "target_size c = length F" using c by (auto simp: in_body_def)
  let ?c = "c\<lparr>inbound_buffer := Frame_block (splice buf k (take n data)), inbound_offset := k + n\<rparr>"
  have "consume_data data c = (Ok (n, drop n data), ?c)"
    using consume_block [OF b(1), of n data] b(2) k n o by simp
  moreover have "n \<le> length data" "k + n \<le> length F" using k n by auto
  then have "in_body F (k + n) ?c"
    using c b splice_goes_on [OF b(3) d] by (simp add: in_body_def)
  moreover have "input_step c ?c" by (simp add: input_step_def)
  moreover have "conn_inv c \<Longrightarrow> conn_inv ?c" by (erule conn_inv_same) (simp_all add: conn_blocks_def)
  ultimately show ?thesis by auto
qed

section \<open>From the header to the block for the frame\<close>

definition heads :: "bytes \<Rightarrow> u16 \<Rightarrow> bool" where
  "heads F channel \<longleftrightarrow> 8 \<le> length F \<and> slice F 1 2 = be16 channel \<and>
     (\<exists>len. slice F 3 4 = be32 len \<and> announced_size len = length F)"

lemma heads_frame_image: "length payload + 8 < 2 ^ 32 \<Longrightarrow> heads (frame_image ty ch payload) ch"
  using frame_image_fields(2) [of ty ch payload] frame_image_fields(3) [of ty ch payload]
    announced_size_image [of payload] by (auto simp: heads_def)

definition read_on :: "nat \<Rightarrow> bytes \<Rightarrow> ('a conn_scheme, nat \<times> amqp_frame) cm" where
  "read_on n data = and_then (consume_data data) (\<lambda>(m, _). and_then get (\<lambda>c.
     if inbound_offset c < target_size c then ret (n + m, no_frame) else handle_body (n + m)))"

lemma and_then_Undef: "fst (m s) = Undef \<Longrightarrow> fst (and_then m f s) = Undef"
  by (cases "m s") (simp add: and_then_def)

lemma pool_alloc_outcome:
  assumes c: "conn_inv c" and e: "find_pool (pool_table c) ch \<noteq> None" and n: "0 < n"
  obtains r c' where "on_pool ch (amqp_pool_alloc n) c = (Ok r, c')" "conn_inv c'" "only_memory c c'"
    "find_pool (pool_table c') ch \<noteq> None" "r = None \<Longrightarrow> \<not> granting c"
proof -
  obtain x where x: "find_pool (pool_table c) ch = Some x" using e by blast
  obtain q s where q: "amqp_pool_alloc n (pool_view c (entry_pool x)) = (q, s)" by fastforce
  have inv: "pool_inv (pool_view c (entry_pool x))" by (rule pool_inv_view [OF c x])
  have run: "on_pool ch (amqp_pool_alloc n) c = (q, put_back ch s c)" using x q by (simp add: on_pool_def)
  note safe = on_pool_safe [OF c x safe_amqp_pool_alloc run]
  have "q \<noteq> Err err" for err
    using q by (auto simp: amqp_pool_alloc_def pool_alloc_large_def pool_alloc_page_def record_pool_block_def
        run_and_then c_malloc_def c_realloc_def Let_def split: if_splits option.splits)
  then obtain r where r: "q = Ok r" using safe(1) by (cases q) auto
  have "\<not> granting c" if "r = None"
  proof
    assume "granting c"
    then have "\<forall>i. grants (pool_view c (entry_pool x)) i" by (simp add: granting_def pool_view_def)
    from pool_alloc_granting [OF inv this n] q r that show False by auto
  qed
  moreover have "find_pool (pool_table (put_back ch s c)) ch \<noteq> None" using safe(4) e by blast
  ultimately show ?thesis using run r safe(2,3) that by blast
qed

text \<open>The header of a frame, up to the point where its block is there and the rest is read into it.\<close>

definition fill_frame :: "nat \<Rightarrow> nat \<Rightarrow> bytes \<Rightarrow> ('a conn_scheme, nat \<times> amqp_frame) cm" where
  "fill_frame sz n data = and_then (start_frame sz) (\<lambda>_.
     and_then get (\<lambda>c.
     and_then (copy_inbound 0 (take HEADER_SIZE (header_buffer c))) (\<lambda>_.
     and_then (modify (\<lambda>c. c\<lparr>conn_state := CONNECTION_STATE_BODY\<rparr>)) (\<lambda>_.
     read_on n data))))"

lemma handle_header_alloc:
  assumes c: "conn_inv c" "inbound_buffer c = Header_buffer" "length (header_buffer c) = 8"
    and h: "slice (header_buffer c) 1 2 = be16 ch" "slice (header_buffer c) 3 4 = be32 len" "0 < announced_size len"
  shows "(\<exists>c'. handle_header n data c = (Err AMQP_STATUS_NO_MEMORY, c') \<and> conn_inv c' \<and> \<not> granting c) \<or>
    (\<exists>c'. handle_header n data c = fill_frame (announced_size len) n data c' \<and> conn_inv c' \<and>
       only_memory (c\<lparr>target_size := announced_size len\<rparr>) c' \<and> find_pool (pool_table c') ch \<noteq> None)"
proof -
  have raw: "raw_16 1 d = (Ok ch, d)" "raw_32 3 d = (Ok len, d)" if "only_memory c d" for d
    using c(2,3) h(1,2) only_memoryD(6,7) [OF that]
    by (intro run_raw [of 8 _ "header_buffer c"]; simp add: raw_frame_def)+
  obtain r c1 where 1: "amqp_get_or_create_channel_pool ch c = (Ok r, c1)" "conn_inv c1" "only_memory c c1"
    "r = Some () \<Longrightarrow> find_pool (pool_table c1) ch \<noteq> None" "(\<forall>i. grants c i) \<Longrightarrow> r = Some ()"
    using get_or_create_run [OF c(1), of ch] by metis
  show ?thesis
  proof (cases r)
    case None
    then have "handle_header n data c = (Err AMQP_STATUS_NO_MEMORY, c1)"
      using 1(1) raw(1) by (simp add: handle_header_def and_then_Ok and_then_Err or_return_None)
    with 1 None show ?thesis by (auto simp: granting_def)
  next
    case (Some u)
    let ?c1 = "c1\<lparr>target_size := announced_size len\<rparr>"
    have inv1: "conn_inv ?c1" by (rule conn_inv_same [OF 1(2)]) (simp_all add: conn_blocks_def)
    have ex: "find_pool (pool_table ?c1) ch \<noteq> None" using Some 1(4) by simp
    obtain b c2 where 2: "on_pool ch (amqp_pool_alloc (announced_size len)) ?c1 = (Ok b, c2)" "conn_inv c2"
      "only_memory ?c1 c2" "find_pool (pool_table c2) ch \<noteq> None" "b = None \<Longrightarrow> \<not> granting ?c1"
      using pool_alloc_outcome [OF inv1 ex h(3)] by metis
    have gr: "granting ?c1 = granting c" using only_memoryD(1) [OF 1(3)] by (simp add: granting_def)
    have "only_memory (c\<lparr>target_size := announced_size len\<rparr>) ?c1"
      using 1(3) unfolding only_memory_def by (cases c; cases c1) simp
    then have om: "only_memory (c\<lparr>target_size := announced_size len\<rparr>) c2" using 2(3) by (rule only_memory_trans)
    have run: "handle_header n data c =
      (if b = None then and_then (modify (\<lambda>c. c\<lparr>inbound_buffer := Null_buffer\<rparr>)) (\<lambda>_. raise AMQP_STATUS_NO_MEMORY)
       else fill_frame (announced_size len) n data) c2"
      using Some 1(1) 2(1) raw raw(2) [OF 1(3)]
      by (simp add: handle_header_def and_then_Ok or_return_Some read_on_def fill_frame_def)
    show ?thesis
    proof (cases b)
      case None
      have "conn_inv (c2\<lparr>inbound_buffer := Null_buffer\<rparr>)"
        by (rule conn_inv_same [OF 2(2)]) (simp_all add: conn_blocks_def)
      with run None 2(5) gr show ?thesis by auto
    next
      case Some
      with run 2(2,4) om show ?thesis by auto
    qed
  qed
qed

lemma announced_small: "announced_size len < 2 ^ 32"
  using unsigned_less [of "len + of_nat HEADER_SIZE + of_nat FOOTER_SIZE", where ?'a = nat]
  unfolding announced_size_def by simp

text \<open>
  Seven bytes of the header are copied to the block, whatever the number \<open>k\<close> received so far; the
  eighth is what the block happens to hold.
\<close>

lemma handle_header_run:
  assumes c: "conn_inv c" "inbound_buffer c = Header_buffer" "inbound_offset c = k" "length (header_buffer c) = 8"
    "take 7 (header_buffer c) = take 7 F" and F: "heads F ch" and k: "k = 7 \<or> k = 8 \<and> F ! 7 = stale c 7"
  shows "(\<exists>c'. handle_header n data c = (Err AMQP_STATUS_NO_MEMORY, c') \<and> conn_inv c' \<and> \<not> granting c) \<or>
    (\<exists>c'. handle_header n data c = read_on n data c' \<and> conn_inv c' \<and> input_step c c' \<and> in_body F k c')"
proof -
  obtain len where F': "8 \<le> length F" "slice F 1 2 = be16 ch" "slice F 3 4 = be32 len" "announced_size len = length F"
    using F by (auto simp: heads_def)
  have h: "slice (header_buffer c) 1 2 = be16 ch" "slice (header_buffer c) 3 4 = be32 len" "0 < announced_size len"
    using slice_prefix [OF c(5), of 1 2] slice_prefix [OF c(5), of 3 4] F' by auto
  from handle_header_alloc [OF c(1,2,4) h, of n data] show ?thesis
  proof (elim disjE)
    assume "\<exists>c'. handle_header n data c = fill_frame (announced_size len) n data c' \<and> conn_inv c' \<and>
       only_memory (c\<lparr>target_size := announced_size len\<rparr>) c' \<and> find_pool (pool_table c') ch \<noteq> None"
    then obtain c2 where 2: "handle_header n data c = fill_frame (length F) n data c2" "conn_inv c2"
       "only_memory (c\<lparr>target_size := length F\<rparr>) c2" unfolding F'(4) by blast
    have hb: "header_buffer c2 = header_buffer c" "target_size c2 = length F" "inbound_offset c2 = k" "stale c2 = stale c"
      using only_memoryD [OF 2(3)] c by simp_all
    let ?buf = "map (stale c2) [0..<round_up (length F)]"
    let ?hd = "take 7 (header_buffer c2)"
    let ?c3 = "c2\<lparr>inbound_buffer := Frame_block (splice ?buf 0 ?hd), conn_state := CONNECTION_STATE_BODY\<rparr>"
    have "length F \<le> round_up (length F)" using announced_small [of len] F'(4) by (intro round_up_ge) simp
    then have buf: "length F \<le> length ?buf" "8 \<le> length ?buf" using F' by simp_all
    have hd: "length ?hd = 7" using hb(1) c(4) by simp
    have "copy_inbound 0 (take HEADER_SIZE (header_buffer c2)) (c2\<lparr>inbound_buffer := Frame_block ?buf\<rparr>) =
      (Ok (), c2\<lparr>inbound_buffer := Frame_block (splice ?buf 0 ?hd)\<rparr>)"
      using buf hd by (simp add: copy_inbound_def HEADER_SIZE_def)
    then have "handle_header n data c = read_on n data ?c3"
      using 2(1) by (simp add: fill_frame_def start_frame_def and_then_Ok)
    moreover have "conn_inv ?c3" by (rule conn_inv_same [OF 2(2)]) (simp_all add: conn_blocks_def)
    moreover have "input_step c ?c3"
    proof -
      have "input_step c (c\<lparr>target_size := length F\<rparr>)" by (simp add: input_step_def)
      moreover have "input_step (c\<lparr>target_size := length F\<rparr>) c2" using 2(3) by (rule only_memory_input_step)
      moreover have "input_step c2 ?c3" by (simp add: input_step_def)
      ultimately show ?thesis by (blast intro: input_step_trans)
    qed
    moreover have "take k (splice ?buf 0 ?hd) = take k F"
    proof -
      have sp: "splice ?buf 0 ?hd = take 7 F @ drop 7 ?buf"
        using hd hb(1) c(5) by (simp add: splice_def)
      have F7: "length (take 7 F) = 7" using F'(1) by simp
      from k show ?thesis
      proof
        assume "k = 8 \<and> F ! 7 = stale c 7"
        moreover have "take 1 (drop 7 ?buf) = [stale c 7]" using buf(2) hb(4)
          by (simp add: take_Suc_conv_app_nth hd_drop_conv_nth take_Suc)
        moreover have "take 8 F = take 7 F @ [F ! 7]"
          using F'(1) take_Suc_conv_app_nth [of 7 F] by simp
        ultimately show ?thesis unfolding sp using F7 by simp
      qed (use F7 sp in simp)
    qed
    then have "in_body F k ?c3"
      using hb c(4) buf hd by (simp add: in_body_def)
    ultimately show ?thesis by auto
  qed auto
qed

lemma read_on_run:
  assumes c: "conn_inv c" "in_body F k c" and k: "k \<le> length F" and d: "goes_on F k data"
    and m: "m = min (length data) (length F - k)"
  shows "\<exists>c'. conn_inv c' \<and> input_step c c' \<and> pool_table c' = pool_table c \<and> in_body F (k + m) c' \<and>
    read_on n data c = (if k + m < length F then (Ok (n + m, no_frame), c') else handle_body (n + m) c')"
proof -
  obtain c' where 1: "consume_data data c = (Ok (m, drop m data), c')" "in_body F (k + m) c'" "input_step c c'"
    "conn_inv c'" "pool_table c' = pool_table c"
    using consume_in_body [OF c(2) k d m] c(1) by blast
  then have "inbound_offset c' = k + m" "target_size c' = length F" by (simp_all add: in_body_def)
  with 1 show ?thesis by (intro exI [of _ c']) (simp add: read_on_def and_then_Ok)
qed

text \<open>
  One call of the reader in the middle of a frame: it takes what belongs to the frame, and when that
  completes it goes on to \<open>handle_body\<close> with the whole frame in its block.
\<close>

lemma handle_input_step:
  assumes c: "conn_inv c" "midway F k c" and k: "k < length F" and F: "heads F ch" and d: "data \<noteq> []" "goes_on F k data"
    and n: "n = min (length data) (length F - k)"
  shows "(\<exists>c'. amqp_handle_input data c = (Err AMQP_STATUS_NO_MEMORY, c') \<and> conn_inv c' \<and> \<not> granting c) \<or>
    (\<exists>c'. conn_inv c' \<and> input_step c c' \<and>
      (if k + n < length F then amqp_handle_input data c = (Ok (n, no_frame), c') \<and> midway F (k + n) c'
       else in_body F (length F) c' \<and> amqp_handle_input data c = handle_body n c'))"
proof (cases "k < 7")
  case False
  then have b: "in_body F k c" using c by (simp add: midway_def)
  then obtain c' where 1: "consume_data data c = (Ok (n, drop n data), c')" "in_body F (k + n) c'"
    using consume_in_body [OF b _ d(2) n] k by auto
  have "(if conn_state c = CONNECTION_STATE_IDLE then c\<lparr>conn_state := CONNECTION_STATE_HEADER\<rparr> else c) = c"
    "conn_state c' = CONNECTION_STATE_BODY" using b 1(2) by (simp_all add: in_body_def)
  then have "amqp_handle_input data c = read_on 0 data c"
    using d(1) 1(1) by (simp add: amqp_handle_input_def read_on_def and_then_Ok)
  with read_on_run [OF c(1) b _ d(2) n, of 0] k obtain e where e: "conn_inv e" "input_step c e"
    "in_body F (k + n) e"
    "amqp_handle_input data c = (if k + n < length F then (Ok (n, no_frame), e) else handle_body n e)"
    by auto
  moreover have "k + n \<le> length F" using k n by simp
  ultimately show ?thesis using False by (intro disjI2 exI [of _ e]) (auto simp: midway_def)
next
  case True
  then have h: "in_header F k c" using c by (simp add: midway_def)
  then have h': "inbound_buffer c = Header_buffer" "inbound_offset c = k" "target_size c = 7"
    "length (header_buffer c) = 8" "take k (header_buffer c) = take k F" by (simp_all add: in_header_def)
  have F8: "8 \<le> length F" using F by (simp add: heads_def)
  let ?c = "c\<lparr>conn_state := CONNECTION_STATE_HEADER\<rparr>"
  define m where "m = min (length data) (7 - k)"
  define c1 where "c1 = ?c\<lparr>header_buffer := splice (header_buffer c) k (take m data), inbound_offset := k + m\<rparr>"
  have con: "consume_data data ?c = (Ok (m, drop m data), c1)"
    using consume_header [of ?c m data] h' True by (simp add: c1_def m_def)
  have cs: "(if conn_state c = CONNECTION_STATE_IDLE then ?c else c) = ?c"
    using h by (cases c) (auto simp: in_header_def)
  have run: "amqp_handle_input data c =
      (if k + m < 7 then (Ok (m, no_frame), c1) else handle_header m (drop m data) c1)"
    using d(1) con h' by (simp add: amqp_handle_input_def cs and_then_Ok) (simp add: c1_def h'(3))
  have m': "m \<le> length data" "k + m \<le> 7" "k + m \<le> length F" using F8 k True by (auto simp: m_def)
  have head: "take (k + m) (header_buffer c1) = take (k + m) F"
    using splice_goes_on [OF h'(5) d(2) m'(1,3)] h'(4) m'(2) by (simp add: c1_def)
  have inv1: "conn_inv c1" by (rule conn_inv_same [OF c(1)]) (simp_all add: c1_def conn_blocks_def)
  have st1: "input_step c c1" by (simp add: input_step_def c1_def)
  have len1: "length (header_buffer c1) = 8" using h'(4) m' by (simp add: c1_def)
  show ?thesis
  proof (cases "k + m < 7")
    case True
    then have "m = length data" "n = m" using F8 by (auto simp: m_def n)
    moreover have "in_header F (k + m) c1"
      using h'(1,3) len1 head by (simp add: in_header_def) (simp add: c1_def)
    ultimately show ?thesis using run True inv1 st1 F8
      by (intro disjI2 exI [of _ c1]) (simp add: midway_def)
  next
    case False
    then have km: "k + m = 7" using m' by simp
    have c1': "inbound_buffer c1 = Header_buffer" "inbound_offset c1 = 7" "take 7 (header_buffer c1) = take 7 F"
      using h'(1) head by (simp_all add: c1_def km)
    have gr: "granting c1 = granting c" using st1 by (rule input_step_granting)
    from handle_header_run [OF inv1 c1'(1,2) len1 c1'(3) F disjI1 [OF refl], of m "drop m data"] show ?thesis
    proof
      assume "\<exists>c'. handle_header m (drop m data) c1 = (Err AMQP_STATUS_NO_MEMORY, c') \<and> conn_inv c' \<and> \<not> granting c1"
      then show ?thesis using run km gr by auto
    next
      assume "\<exists>c'. handle_header m (drop m data) c1 = read_on m (drop m data) c' \<and> conn_inv c' \<and> input_step c1 c' \<and>
        in_body F 7 c'"
      then obtain c2 where 2: "handle_header m (drop m data) c1 = read_on m (drop m data) c2" "conn_inv c2"
        "input_step c1 c2" "in_body F 7 c2" by blast
      have "goes_on F 7 (drop m data)" using goes_on_drop [OF d(2) m'(1,3)] km by simp
      moreover define p where "p = min (length (drop m data)) (length F - 7)"
      moreover have "7 \<le> length F" using F8 by simp
      ultimately obtain c3 where 3: "conn_inv c3" "input_step c2 c3" "in_body F (7 + p) c3"
        "read_on m (drop m data) c2 = (if 7 + p < length F then (Ok (m + p, no_frame), c3) else handle_body (m + p) c3)"
        using read_on_run [OF 2(2,4), of "drop m data" p m] by blast
      have np: "n = m + p" "7 + p = k + n" using km m' F8 by (auto simp: n p_def m_def)
      have "input_step c c3" using st1 2(3) 3(2) by (blast intro: input_step_trans)
      moreover have "7 + p \<le> length F" using F8 by (simp add: p_def)
      ultimately show ?thesis
        using run km 2(1) 3 np by (intro disjI2 exI [of _ c3]) (auto simp: midway_def)
    qed
  qed
qed

section \<open>Decoding the payload\<close>

lemma from_start_parses_at:
  assumes m: "parses v m bs x" and v: "holds v 0 bs" and s: "pool_inv s" "granting s"
  shows "\<exists>s'. from_start m s = (Ok x, s') \<and> mem_step s s'"
proof -
  have "holds v (rd_off (pool_state.extend s (rd.fields 0))) bs" using v by simp
  with m s obtain t where "m (pool_state.extend s (rd.fields 0)) = (Ok x, t)"
    "mem_step (pool_state.extend s (rd.fields 0)) t"
    by (metis parsesE granting_extend pool_inv_extend(1))
  then show ?thesis by (auto simp: from_start_def mem_step_extend)
qed

lemma on_pool_Ok:
  assumes c: "conn_inv c" and e: "find_pool (pool_table c) ch = Some e"
    and m: "\<exists>s. m (pool_view c (entry_pool e)) = (Ok x, s) \<and> mem_step (pool_view c (entry_pool e)) s"
  shows "\<exists>c'. on_pool ch m c = (Ok x, c') \<and> conn_inv c' \<and> only_memory c c'"
proof -
  obtain s where s: "m (pool_view c (entry_pool e)) = (Ok x, s)" "mem_step (pool_view c (entry_pool e)) s"
    using m by blast
  from on_pool_run [where m = m and r = "Ok x", OF c e s(1) mem_step_within [OF s(2)]] show ?thesis by blast
qed

text \<open>What the whole frame in its block gives the accessors.\<close>

lemma in_body_raw:
  assumes "in_body F (length F) c"
  shows "take (length F) (raw_frame c) = take (length F) F" "length F \<le> length (raw_frame c)" "target_size c = length F"
  using assms by (auto simp: in_body_def raw_frame_def)

lemma holds_encoded_view:
  assumes c: "in_body F (length F) c" and F: "F = xs @ bs @ [e]" and k: "length xs = k"
  shows "holds (encoded_view c k) 0 bs"
proof -
  note raw = in_body_raw [OF c]
  have "slice (drop k (raw_frame c)) 0 (length bs) = slice (raw_frame c) k (length bs)" by (simp add: slice_def)
  also have "\<dots> = slice F k (length bs)" using raw(1) by (rule slice_prefix) (simp add: F k)
  also have "\<dots> = bs" by (simp add: F slice_def flip: k)
  finally show ?thesis
    using raw(2,3) k F by (simp add: holds_def encoded_view_def FOOTER_SIZE_def)
qed

lemma view_ok_encoded:
  "in_body F (length F) c \<Longrightarrow> k < length F \<Longrightarrow> view_ok (encoded_view c k)"
  using in_body_raw [of F c] by (simp add: view_ok_def encoded_view_def FOOTER_SIZE_def)

lemma image_split: "frame_image ty ch payload = (be8 ty @ be16 ch @ be32 (of_nat (length payload))) @ payload @ [0xCE]"
  by (simp add: frame_image_def)

lemma decode_method_frame:
  assumes c: "conn_inv c" "granting c" "find_pool (pool_table c) ch = Some x" and b: "in_body F (length F) c"
    and F: "F = frame_image ty ch (be32 n @ method_wire d)" and wf: "wf_method n d"
  shows "\<exists>c'. decode_payload 1 ch c = (Ok (1, Method_payload n d), c') \<and> conn_inv c' \<and> only_memory c c'"
proof -
  let ?pre = "be8 ty @ be16 ch @ be32 (of_nat (length (be32 n @ method_wire d))) @ be32 n"
  have F': "F = ?pre @ method_wire d @ [0xCE]" by (simp add: F frame_image_def)
  have "slice F 7 4 = be32 n" by (simp add: F' slice_def)
  then have raw: "raw_32 HEADER_SIZE c = (Ok n, c)"
    using in_body_raw [OF b] by (intro run_raw [of "length F" _ F]) (simp_all add: F' HEADER_SIZE_def)
  have "holds (encoded_view c (HEADER_SIZE + 4)) 0 (method_wire d)"
    by (rule holds_encoded_view [OF b F']) (simp add: HEADER_SIZE_def)
  then have "\<exists>s. amqp_decode_method n (encoded_view c (HEADER_SIZE + 4)) (pool_view c (entry_pool x)) = (Ok d, s) \<and>
      mem_step (pool_view c (entry_pool x)) s"
    unfolding amqp_decode_method_def
    by (rule from_start_parses_at [OF method_codec.decode_parses [OF wf]])
      (use c pool_inv_view in \<open>auto simp: granting_def pool_view_def [THEN arg_cong, of grants]\<close>)
  then obtain c' where
    "on_pool ch (amqp_decode_method n (encoded_view c (HEADER_SIZE + 4))) c = (Ok d, c')" "conn_inv c'" "only_memory c c'"
    using on_pool_Ok [OF c(1,3), of "amqp_decode_method n (encoded_view c (HEADER_SIZE + 4))"] by blast
  with raw show ?thesis by (intro exI [of _ c']) (simp add: decode_payload_def and_then_Ok)
qed

lemma decode_header_frame:
  assumes c: "conn_inv c" "granting c" "find_pool (pool_table c) ch = Some x" and b: "in_body F (length F) c"
    and F: "F = frame_image ty ch (be16 n @ be16 0 @ be64 sz @ properties_bytes d)" and wf: "wf_properties n d"
  shows "\<exists>c'. decode_payload 2 ch c = (Ok (2, Properties_payload n sz (overlaid d (stale_properties c))), c') \<and>
    conn_inv c' \<and> only_memory c c'"
proof -
  let ?pre = "be8 ty @ be16 ch @ be32 (of_nat (length (be16 n @ be16 0 @ be64 sz @ properties_bytes d))) @
    be16 n @ be16 0 @ be64 sz"
  have F': "F = ?pre @ properties_bytes d @ [0xCE]" by (simp add: F frame_image_def)
  have "slice F 7 2 = be16 n" "slice F 11 8 = be64 sz" by (simp_all add: F' slice_def)
  then have raw: "raw_16 HEADER_SIZE c = (Ok n, c)" "raw_64 (HEADER_SIZE + 4) c = (Ok sz, c)"
    using in_body_raw [OF b] by (intro run_raw [of "length F" _ F]; simp add: F' HEADER_SIZE_def)+
  have "holds (encoded_view c (HEADER_SIZE + 12)) 0 (properties_bytes d)"
    by (rule holds_encoded_view [OF b F']) (simp add: HEADER_SIZE_def)
  then have "\<exists>s. amqp_decode_properties n (stale_properties c) (encoded_view c (HEADER_SIZE + 12))
      (pool_view c (entry_pool x)) = (Ok (overlaid d (stale_properties c)), s) \<and> mem_step (pool_view c (entry_pool x)) s"
    unfolding amqp_decode_properties_def
    by (rule from_start_parses_at [OF parses_decode_properties [OF wf]])
      (use c pool_inv_view in \<open>auto simp: granting_def pool_view_def [THEN arg_cong, of grants]\<close>)
  then obtain c' where
    "on_pool ch (amqp_decode_properties n (stale_properties c) (encoded_view c (HEADER_SIZE + 12))) c =
      (Ok (overlaid d (stale_properties c)), c')" "conn_inv c'" "only_memory c c'"
    using on_pool_Ok [OF c(1,3), of "amqp_decode_properties n (stale_properties c) (encoded_view c (HEADER_SIZE + 12))"]
    by blast
  with raw show ?thesis by (intro exI [of _ c']) (simp add: decode_payload_def and_then_Ok)
qed

lemma decode_payload_run:
  assumes c: "conn_inv c" "granting c" "find_pool (pool_table c) (frame_channel f) = Some x"
    and b: "in_body F (length F) c" and F: "F = frame_bytes f" and wf: "wf_frame f"
  shows "\<exists>c'. decode_payload (frame_type f) (frame_channel f) c =
      (Ok (frame_type f, frame_payload (received (stale_properties c) f)), c') \<and> conn_inv c' \<and> only_memory c c'"
proof (cases "frame_payload f")
  case (Method_payload n d)
  with wf F have "frame_type f = 1" "wf_method n d" "F = frame_image 1 (frame_channel f) (be32 n @ method_wire d)"
    by (auto simp: wf_frame_def frame_bytes_def payload_bytes_def)
  with decode_method_frame [OF c b, of 1 n d] Method_payload show ?thesis by (simp add: received_def)
next
  case (Properties_payload n sz d)
  with wf F have "frame_type f = 2" "wf_properties n d"
    "F = frame_image 2 (frame_channel f) (be16 n @ be16 0 @ be64 sz @ properties_bytes d)"
    by (auto simp: wf_frame_def frame_bytes_def payload_bytes_def)
  with decode_header_frame [OF c b, of 2 n sz d] Properties_payload show ?thesis by (simp add: received_def)
next
  case (Body_payload body)
  with wf F have F': "frame_type f = 3" "F = frame_image 3 (frame_channel f) body"
    by (auto simp: wf_frame_def frame_bytes_def payload_bytes_def)
  have "slice (raw_frame c) 7 (length body) = slice F 7 (length body)"
    using in_body_raw(1) [OF b] by (rule slice_prefix) (simp add: F')
  also have "\<dots> = body" by (simp add: F' frame_image_fields)
  finally have "decode_payload 3 (frame_channel f) c = (Ok (3, Body_payload body), c)"
    using in_body_raw(2,3) [OF b] F'(2) by (simp add: decode_payload_def size_defs run_peek and_then_Ok)
  with Body_payload F' c(1) show ?thesis by (simp add: received_def)
next
  case No_payload
  with wf have "frame_type f = 8" by (auto simp: wf_frame_def)
  with No_payload c(1) show ?thesis by (simp add: decode_payload_def received_def)
qed (use wf in \<open>auto simp: wf_frame_def\<close>)

section \<open>The end of a frame\<close>

definition finish_frame :: "nat \<Rightarrow> u16 \<Rightarrow> u8 \<times> amqp_frame_payload \<Rightarrow> ('a conn_scheme, nat \<times> amqp_frame) cm" where
  "finish_frame n channel = (\<lambda>d. and_then (modify return_to_idle) (\<lambda>_.
     ret (n, \<lparr>frame_type = fst d, frame_channel = channel, frame_payload = snd d\<rparr>)))"

lemma handle_body_eq:
  assumes c: "in_body F (length F) c" and F: "8 \<le> length F" "slice F 0 1 = be8 ty" "slice F 1 2 = be16 ch"
    "slice F (length F - 1) 1 = be8 e"
  shows "handle_body n c = (if e \<noteq> 0xCE then raise AMQP_STATUS_BAD_AMQP_DATA
    else and_then (or_return AMQP_STATUS_NO_MEMORY (amqp_get_or_create_channel_pool ch)) (\<lambda>_.
      and_then (decode_payload ty ch) (finish_frame n ch))) c"
proof -
  note raw = in_body_raw [OF c]
  have "raw_8 (length F - 1) c = (Ok e, c)" "raw_8 0 c = (Ok ty, c)" "raw_16 1 c = (Ok ch, c)"
    using run_raw(1) [OF raw(1) _ raw(2) F(4)] run_raw(1) [OF raw(1) _ raw(2) F(2)]
      run_raw(2) [OF raw(1) _ raw(2) F(3)] F(1) by simp_all
  moreover have "1 \<le> length F" using F(1) by simp
  ultimately show ?thesis
    by (simp add: handle_body_def raw(3) and_then_Ok finish_frame_def case_prod_unfold del: One_nat_def)
qed

lemma handle_body_run:
  assumes c: "conn_inv c" "granting c" and b: "in_body F (length F) c" and F: "F = frame_bytes f" and wf: "wf_frame f"
  shows "\<exists>c'. handle_body n c = (Ok (n, received (stale_properties c) f), c') \<and> conn_inv c' \<and> ready c' \<and> input_step c c'"
proof -
  let ?p = "payload_bytes (frame_payload f)"
  have F': "F = frame_image (frame_type f) (frame_channel f) ?p" by (simp add: F frame_bytes_def)
  have eq: "handle_body n c = and_then (or_return AMQP_STATUS_NO_MEMORY (amqp_get_or_create_channel_pool (frame_channel f)))
      (\<lambda>_. and_then (decode_payload (frame_type f) (frame_channel f)) (finish_frame n (frame_channel f))) c"
    using handle_body_eq [OF b, of "frame_type f" "frame_channel f" "0xCE" n]
      frame_image_fields(1,2,6) [of "frame_type f" "frame_channel f" ?p]
    by (simp add: F' be8_def add.commute)
  obtain c1 where 1: "amqp_get_or_create_channel_pool (frame_channel f) c = (Ok (Some ()), c1)" "conn_inv c1"
    "only_memory c c1" "find_pool (pool_table c1) (frame_channel f) \<noteq> None"
    using get_or_create_run [OF c(1), of "frame_channel f"] c(2) unfolding granting_def by metis
  obtain x where x: "find_pool (pool_table c1) (frame_channel f) = Some x" using 1(4) by blast
  have b1: "in_body F (length F) c1" using b only_memoryD [OF 1(3)] by (simp add: in_body_def)
  have g1: "granting c1" using c(2) only_memoryD(1) [OF 1(3)] by (simp add: granting_def)
  obtain c2 where 2: "decode_payload (frame_type f) (frame_channel f) c1 =
      (Ok (frame_type f, frame_payload (received (stale_properties c1) f)), c2)" "conn_inv c2" "only_memory c1 c2"
    using decode_payload_run [OF 1(2) g1 x b1 F wf] by blast
  have sp: "stale_properties c1 = stale_properties c" by (rule only_memoryD [OF 1(3)])
  have "length (header_buffer c2) = 8" using b1 only_memoryD(6) [OF 2(3)] by (simp add: in_body_def)
  then have "ready (return_to_idle c2)" by (rule ready_return_to_idle)
  moreover have "input_step c (return_to_idle c2)"
    using only_memory_input_step [OF 1(3)] only_memory_input_step [OF 2(3)] return_to_idle_step [of c2]
    by (blast intro: input_step_trans)
  moreover have "handle_body n c = (Ok (n, received (stale_properties c) f), return_to_idle c2)"
    unfolding eq using 1(1) 2(1) sp
    by (simp add: and_then_Ok or_return_Some finish_frame_def received_def)
  ultimately show ?thesis using conn_inv_return_to_idle [OF 2(2)] by blast
qed

section \<open>Feeding a frame in pieces\<close>

fun feed :: "bytes list \<Rightarrow> ('a conn_scheme, (nat \<times> amqp_frame) list) cm" where
  "feed [] = ret []"
| "feed (d # ds) = and_then (amqp_handle_input d) (\<lambda>r. and_then (feed ds) (\<lambda>rs. ret (r # rs)))"

text \<open>The replies to the pieces of one frame: nothing until the last piece is in.\<close>

fun replies :: "amqp_frame \<Rightarrow> bytes list \<Rightarrow> (nat \<times> amqp_frame) list" where
  "replies f [] = []"
| "replies f (d # ds) = (length d, if ds = [] then f else no_frame) # replies f ds"

lemma heads_frame_bytes: "wf_frame f \<Longrightarrow> heads (frame_bytes f) (frame_channel f)"
  unfolding frame_bytes_def by (rule heads_frame_image) (simp add: wf_frame_def frame_bytes_def)

lemma feed_run:
  assumes "conn_inv c" and "granting c" and "midway F k c" and "F = frame_bytes f" and "wf_frame f"
    and "concat ds = drop k F" and "k < length F" and "[] \<notin> set ds"
  shows "\<exists>c'. feed ds c = (Ok (replies (received (stale_properties c) f) ds), c') \<and> conn_inv c' \<and> ready c' \<and> input_step c c'"
  using assms
proof (induction ds arbitrary: c k)
  case Nil
  then show ?case by simp
next
  case (Cons d ds)
  have heads: "heads F (frame_channel f)" using Cons.prems(4,5) by (simp add: heads_frame_bytes)
  have d: "d \<noteq> []" using Cons.prems(8) by auto
  have cat: "d @ concat ds = drop k F" using Cons.prems(6) by simp
  then have len: "length d \<le> length F - k" by (metis le_add1 length_append length_drop)
  have "take (length d) (drop k F) = d" using cat by (metis append_eq_conv_conj)
  then have go: "goes_on F k d" using len by (simp add: goes_on_def)
  have n: "length d = min (length d) (length F - k)" using len by simp
  from handle_input_step [OF Cons.prems(1,3,7) heads d go n] Cons.prems(2) obtain c1 where 1: "conn_inv c1" "input_step c c1"
    "if k + length d < length F then amqp_handle_input d c = (Ok (length d, no_frame), c1) \<and> midway F (k + length d) c1
     else in_body F (length F) c1 \<and> amqp_handle_input d c = handle_body (length d) c1" by auto
  have g1: "granting c1" using 1(2) Cons.prems(2) by (simp add: input_step_granting)
  have sp: "stale_properties c1 = stale_properties c" by (rule input_stepD [OF 1(2)])
  have "concat ds = drop (length d) (drop k F)" using cat by (metis append_eq_conv_conj)
  then have rest: "concat ds = drop (k + length d) F" by (simp add: add.commute)
  show ?case
  proof (cases "k + length d < length F")
    case True
    from rest have "ds \<noteq> []" using True by auto
    moreover obtain c2 where 2: "feed ds c1 = (Ok (replies (received (stale_properties c) f) ds), c2)" "conn_inv c2"
      "ready c2" "input_step c1 c2"
      using Cons.IH [OF 1(1) g1 _ Cons.prems(4,5) rest True] 1(3) True Cons.prems(8) sp by auto
    ultimately show ?thesis using 1 True by (intro exI [of _ c2]) (auto simp: and_then_Ok intro: input_step_trans)
  next
    case False
    then have "concat ds = []" using rest by simp
    then have "ds = []" using Cons.prems(8) by (cases ds) auto
    moreover obtain c2 where 2: "handle_body (length d) c1 = (Ok (length d, received (stale_properties c) f), c2)"
      "conn_inv c2" "ready c2" "input_step c1 c2"
      using handle_body_run [OF 1(1) g1 _ Cons.prems(4,5), of "length d"] 1(3) False sp by auto
    ultimately show ?thesis using 1 False by (intro exI [of _ c2]) (auto simp: and_then_Ok intro: input_step_trans)
  qed
qed

section \<open>Frames with any contents\<close>

text \<open>A frame whose payload is not too short for its type; its contents and its end marker are arbitrary.\<close>

definition admissible :: "bytes \<Rightarrow> bool" where
  "admissible F \<longleftrightarrow> (\<exists>ty ch payload e. F = be8 ty @ be16 ch @ be32 (of_nat (length payload)) @ payload @ [e] \<and>
     length payload + 8 < 2 ^ 32 \<and> (ty = 1 \<longrightarrow> 4 \<le> length payload) \<and>
     (ty = 2 \<longrightarrow> 12 \<le> length payload \<and> few_flag_words (drop 12 payload)))"

lemma in_body_only_memory: "in_body F k c \<Longrightarrow> only_memory c c' \<Longrightarrow> in_body F k c'"
  by (simp add: in_body_def only_memoryD)

lemma take_drop_raw:
  assumes "in_body F (length F) c" and "k + n \<le> length F"
  shows "take n (drop k (raw_frame c)) = take n (drop k F)"
  using slice_prefix [OF in_body_raw(1) [OF assms(1)] assms(2)] by (simp add: slice_def)

lemma decode_payload_safe:
  assumes c: "conn_inv c" "find_pool (pool_table c) ch = Some x" and b: "in_body F (length F) c"
    and F: "F = be8 ty @ be16 ch' @ be32 n @ payload @ [e]"
    and m: "ty = 1 \<Longrightarrow> 4 \<le> length payload" "ty = 2 \<Longrightarrow> 12 \<le> length payload \<and> few_flag_words (drop 12 payload)"
    and run: "decode_payload ty ch c = (r, c')"
  shows "returns r \<and> conn_inv c' \<and> only_memory c c'"
proof -
  note raw = in_body_raw [OF b]
  have len: "length F = length payload + 8" by (simp add: F)
  consider "ty = 1" | "ty = 2" | "ty \<noteq> 1" "ty \<noteq> 2" by blast
  then show ?thesis
  proof cases
    case 1
    then have "11 \<le> length (raw_frame c)" "11 < length F" using m raw len by simp_all
    then obtain i where "raw_32 HEADER_SIZE c = (Ok i, c)" by (simp add: raw_32_def run_peek HEADER_SIZE_def)
    moreover obtain q s where q: "on_pool ch (amqp_decode_method i (encoded_view c (HEADER_SIZE + 4))) c = (q, s)" by fastforce
    moreover have "view_ok (encoded_view c (HEADER_SIZE + 4))"
      by (rule view_ok_encoded [OF b]) (use \<open>11 < length F\<close> in \<open>simp add: HEADER_SIZE_def\<close>)
    then have "returns q \<and> conn_inv s \<and> only_memory c s"
      using on_pool_safe [OF c, of "amqp_decode_method i (encoded_view c (HEADER_SIZE + 4))" q s] q
      by (simp add: safe_decode_method)
    ultimately show ?thesis using run 1 by (cases q) (auto simp: decode_payload_def and_then_Ok and_then_Err)
  next
    case 2
    then have l: "19 \<le> length (raw_frame c)" "19 < length F" using m raw len by simp_all
    then obtain i j where ij: "raw_16 HEADER_SIZE c = (Ok i, c)" "raw_64 (HEADER_SIZE + 4) c = (Ok j, c)"
      by (simp add: raw_16_def raw_64_def run_peek HEADER_SIZE_def)
    let ?v = "encoded_view c (HEADER_SIZE + 12)"
    let ?m = "amqp_decode_properties i (stale_properties c) ?v"
    obtain q s where q: "on_pool ch ?m c = (q, s)" by fastforce
    have v: "view_ok ?v" by (rule view_ok_encoded [OF b]) (use l in \<open>simp add: HEADER_SIZE_def\<close>)
    have "take (view_len ?v) (view_mem ?v) = take (length F - 20) (drop 19 F)"
      using take_drop_raw [OF b, of 19 "length F - 20"] raw l by (simp add: encoded_view_def size_defs)
    also have "\<dots> = drop 12 payload" using m 2 by (simp add: F)
    finally have few: "few_flag_words (take (view_len ?v) (view_mem ?v))" using m(2) [OF 2] by simp
    have "safe pool_inv mem_step ?m" by (rule safe_decode_properties [OF v few])
    then have "returns q \<and> conn_inv s \<and> only_memory c s"
      using on_pool_safe [OF c, of ?m q s] q by simp
    with run 2 ij q show ?thesis by (cases q) (auto simp: decode_payload_def and_then_Ok and_then_Err)
  next
    case 3
    have "7 + size_minus (target_size c) 8 \<le> length (raw_frame c)" using raw len by simp
    with 3 run c(1) show ?thesis
      by (auto simp: decode_payload_def run_peek size_defs and_then_Ok split: if_splits)
  qed
qed

lemma handle_body_safe:
  assumes c: "conn_inv c" and b: "in_body F (length F) c" and F: "admissible F" and run: "handle_body n c = (r, c')"
  shows "returns r \<and> conn_inv c' \<and> (\<forall>m f. r = Ok (m, f) \<longrightarrow> m = n \<and> ready c')"
proof -
  obtain ty ch payload e where F': "F = be8 ty @ be16 ch @ be32 (of_nat (length payload)) @ payload @ [e]"
    "length payload + 8 < 2 ^ 32" "ty = 1 \<longrightarrow> 4 \<le> length payload"
    "ty = 2 \<longrightarrow> 12 \<le> length payload \<and> few_flag_words (drop 12 payload)"
    using F unfolding admissible_def by blast
  have eq: "handle_body n c = (if e \<noteq> 0xCE then raise AMQP_STATUS_BAD_AMQP_DATA
    else and_then (or_return AMQP_STATUS_NO_MEMORY (amqp_get_or_create_channel_pool ch)) (\<lambda>_.
      and_then (decode_payload ty ch) (finish_frame n ch))) c"
    by (rule handle_body_eq [OF b]) (simp_all add: F' slice_def be8_def [of e])
  show ?thesis
  proof (cases "e = 0xCE")
    case False
    with run eq c show ?thesis by auto
  next
    case True
    obtain q c1 where 1: "amqp_get_or_create_channel_pool ch c = (Ok q, c1)" "conn_inv c1" "only_memory c c1"
      "q = Some () \<Longrightarrow> find_pool (pool_table c1) ch \<noteq> None"
      using get_or_create_run [OF c, of ch] by metis
    show ?thesis
    proof (cases q)
      case None
      with run eq True 1 show ?thesis by (auto simp: and_then_Err or_return_None)
    next
      case (Some u)
      then obtain x where x: "find_pool (pool_table c1) ch = Some x" using 1(4) by auto
      have b1: "in_body F (length F) c1" by (rule in_body_only_memory [OF b 1(3)])
      obtain p c2 where p: "decode_payload ty ch c1 = (p, c2)" by fastforce
      have s: "returns p \<and> conn_inv c2 \<and> only_memory c1 c2"
        by (rule decode_payload_safe [OF 1(2) x b1 F'(1) _ _ p]) (use F' in auto)
      have "length (header_buffer c2) = 8" using b1 s only_memoryD(6) [of c1 c2] by (simp add: in_body_def)
      then have "ready (return_to_idle c2)" by (rule ready_return_to_idle)
      moreover have "conn_inv (return_to_idle c2)" using s conn_inv_return_to_idle by blast
      moreover have "handle_body n c = and_then (decode_payload ty ch) (finish_frame n ch) c1"
        unfolding eq using True Some 1(1) by (simp add: and_then_Ok or_return_Some)
      ultimately show ?thesis using run p s
        by (cases p) (auto simp: and_then_Ok and_then_Err finish_frame_def)
    qed
  qed
qed

lemma heads_admissible:
  assumes "admissible F" shows "\<exists>ch. heads F ch"
proof -
  obtain ty ch payload e where F: "F = be8 ty @ be16 ch @ be32 (of_nat (length payload)) @ payload @ [e]"
    "length payload + 8 < 2 ^ 32"
    using assms unfolding admissible_def by blast
  then have "slice F 1 2 = be16 ch" "slice F 3 4 = be32 (of_nat (length payload))" by (simp_all add: slice_def)
  with F announced_size_image [of payload] show ?thesis
    unfolding heads_def by (intro exI [of _ ch]) (auto simp: F(1))
qed

section \<open>Sending\<close>

definition out_with :: "'a conn_scheme \<Rightarrow> bytes \<Rightarrow> 'a conn_scheme" where
  "out_with c buf = c\<lparr>outbound_buffer := buf\<rparr>"

lemma out_with_simps [simp]:
  "outbound_buffer (out_with c b) = b" "outbound_len (out_with c b) = outbound_len c"
  "out_with (out_with c a) b = out_with c b" "out_with c (outbound_buffer c) = c"
  by (simp_all add: out_with_def)

lemma run_put_out [run]:
  "i + length bs \<le> length (outbound_buffer c) \<Longrightarrow>
   put_out i bs c = (Ok (), out_with c (splice (outbound_buffer c) i bs))"
  by (simp add: put_out_def out_with_def)

lemma run_encode_out:
  assumes m: "\<And>w. wr_ok w \<Longrightarrow> length bs \<le> wr_len w \<Longrightarrow> m w = (Ok n, written (w\<lparr>wr_off := 0\<rparr>) bs)"
    and c: "outbound_len c \<le> length (outbound_buffer c)" "skip + length bs + 1 \<le> outbound_len c"
  shows "encode_out skip m c = (Ok n, out_with c (splice (outbound_buffer c) skip bs))"
  using m [of "\<lparr>wr_buf = drop skip (outbound_buffer c), wr_len = size_minus (outbound_len c) (skip + FOOTER_SIZE), wr_off = 0\<rparr>"] c
  by (simp add: encode_out_def wr_ok_def FOOTER_SIZE_def written_def splice_def out_with_def add.commute)

lemma run_encode_short:
  assumes m: "\<And>w. wr_ok w \<Longrightarrow> wr_len w < length bs \<Longrightarrow>
      \<exists>e s'. m w = (Err e, s') \<and> e \<in> overflow_errors \<and> wr_step (w\<lparr>wr_off := 0\<rparr>) s'"
    and c: "outbound_len c \<le> length (outbound_buffer c)" "skip + 1 \<le> outbound_len c" "outbound_len c < skip + length bs + 1"
  shows "\<exists>e b. encode_out skip m c = (Err e, out_with c b) \<and> e \<in> overflow_errors \<and> length b = length (outbound_buffer c)"
proof -
  let ?w = "\<lparr>wr_buf = drop skip (outbound_buffer c), wr_len = size_minus (outbound_len c) (skip + FOOTER_SIZE), wr_off = 0\<rparr>"
  have "wr_ok ?w" "wr_len ?w < length bs" using c by (auto simp: wr_ok_def FOOTER_SIZE_def)
  from m [OF this] obtain e s' where 1: "m ?w = (Err e, s')" "e \<in> overflow_errors" "wr_step ?w s'" by auto
  then have "length (wr_buf s') = length (outbound_buffer c) - skip" by (simp add: wr_step_def)
  then have "length (take skip (outbound_buffer c) @ wr_buf s') = length (outbound_buffer c)" using c by simp
  with 1 show ?thesis
    by (intro exI [of _ e] exI [of _ "take skip (outbound_buffer c) @ wr_buf s'"]) (simp add: encode_out_def out_with_def)
qed

lemma encode_method_run:
  assumes "wf_method n d"
  shows "wr_ok s \<Longrightarrow> length (method_wire d) \<le> wr_len s \<Longrightarrow>
      amqp_encode_method n d s = (Ok (length (method_wire d)), written (s\<lparr>wr_off := 0\<rparr>) (method_wire d))"
    "wr_ok s \<Longrightarrow> wr_len s < length (method_wire d) \<Longrightarrow>
      \<exists>e s'. amqp_encode_method n d s = (Err e, s') \<and> e \<in> overflow_errors \<and> wr_step (s\<lparr>wr_off := 0\<rparr>) s'"
proof -
  assume s: "wr_ok s"
  let ?s = "s\<lparr>wr_off := 0\<rparr>"
  have at: "wr_at ?s" using s by (simp add: wr_at_def wr_ok_def)
  show "length (method_wire d) \<le> wr_len s \<Longrightarrow>
      amqp_encode_method n d s = (Ok (length (method_wire d)), written ?s (method_wire d))"
    using encode_method_wire [OF assms at] by (simp add: amqp_encode_method_def set_offset_def and_then_Ok)
  assume "wr_len s < length (method_wire d)"
  with method_codec.rejects_short_buffer [OF assms at] obtain e s' where
    "and_then (encode_method n d) (\<lambda>_. ret ()) ?s = (Err e, s')" "e \<in> overflow_errors" "wr_step ?s s'" by auto
  then show "\<exists>e s'. amqp_encode_method n d s = (Err e, s') \<and> e \<in> overflow_errors \<and> wr_step ?s s'"
    by (auto simp: amqp_encode_method_def set_offset_def run_and_then split: prod.splits outcome.splits)
qed

lemma splice_chain:
  "i + length ys = j \<Longrightarrow> j \<le> length xs \<Longrightarrow> splice (splice xs i ys) j zs = splice xs i (ys @ zs)"
  using splice_splice_append [of i ys xs zs] by simp

text \<open>The outbound buffer can hold the fixed part of every frame.\<close>

definition outbound_ok :: "'a conn_scheme \<Rightarrow> bool" where
  "outbound_ok c \<longleftrightarrow> outbound_len c \<le> length (outbound_buffer c) \<and> 20 \<le> outbound_len c"

lemma outbound_ok_with [simp]: "length b = length (outbound_buffer c) \<Longrightarrow> outbound_ok (out_with c b) = outbound_ok c"
  by (simp add: outbound_ok_def)

lemma encode_payload_run:
  assumes c: "outbound_ok c" and wf: "wf_frame f" "frame_type f \<noteq> 3"
  shows "if length (frame_bytes f) \<le> outbound_len c
    then encode_payload f c = (Ok (length (payload_bytes (frame_payload f))),
      out_with c (splice (outbound_buffer c) 7 (payload_bytes (frame_payload f))))
    else \<exists>e b. encode_payload f c = (Err e, out_with c b) \<and> e \<in> overflow_errors \<and> length b = length (outbound_buffer c)"
proof (cases "frame_payload f")
  case (Method_payload n d)
  then have ty: "frame_type f = 1" "wf_method n d" using wf by (auto simp: wf_frame_def)
  let ?b = "splice (outbound_buffer c) 7 (be32 n)"
  have b: "length ?b = length (outbound_buffer c)" using c by (simp add: outbound_ok_def)
  have run: "encode_payload f c =
      and_then (encode_out 11 (amqp_encode_method n d)) (\<lambda>res. ret (res + 4)) (out_with c ?b)"
    using c by (simp add: encode_payload_def Method_payload ty amqp_e32_be run_put_out outbound_ok_def
        HEADER_SIZE_def and_then_Ok)
  have len: "length (frame_bytes f) = length (method_wire d) + 12"
    by (simp add: frame_bytes_def Method_payload payload_bytes_def)
  show ?thesis
  proof (cases "length (frame_bytes f) \<le> outbound_len c")
    case True
    have "encode_out 11 (amqp_encode_method n d) (out_with c ?b) =
        (Ok (length (method_wire d)), out_with c (splice ?b 11 (method_wire d)))"
      using run_encode_out [where m = "amqp_encode_method n d" and c = "out_with c ?b" and skip = 11 and bs = "method_wire d",
          OF encode_method_run(1) [OF ty(2)]] c b True len by (simp add: outbound_ok_def)
    moreover have "splice ?b 11 (method_wire d) = splice (outbound_buffer c) 7 (be32 n @ method_wire d)"
      by (rule splice_chain) (use c in \<open>simp_all add: outbound_ok_def\<close>)
    ultimately show ?thesis using True run by (simp add: and_then_Ok Method_payload payload_bytes_def)
  next
    case False
    then obtain e b' where "encode_out 11 (amqp_encode_method n d) (out_with c ?b) = (Err e, out_with c b')"
      "e \<in> overflow_errors" "length b' = length (outbound_buffer c)"
      using run_encode_short [where m = "amqp_encode_method n d" and c = "out_with c ?b" and skip = 11 and bs = "method_wire d",
          OF encode_method_run(2) [OF ty(2)]] c b len by (auto simp: outbound_ok_def)
    with run False show ?thesis by (auto simp: and_then_Err)
  qed
next
  case (Properties_payload n sz d)
  then have ty: "frame_type f = 2" "wf_properties n d" using wf by (auto simp: wf_frame_def)
  let ?h = "be16 n @ be16 0 @ be64 sz"
  let ?b = "splice (outbound_buffer c) 7 ?h"
  have b: "length ?b = length (outbound_buffer c)" using c by (simp add: outbound_ok_def)
  have "splice (splice (splice (outbound_buffer c) 7 (be16 n)) 9 (be16 0)) 11 (be64 sz) = ?b"
    using c splice_chain [of 7 "be16 n" 9 "outbound_buffer c" "be16 0"]
      splice_chain [of 7 "be16 n @ be16 0" 11 "outbound_buffer c" "be64 sz"] by (simp add: outbound_ok_def)
  then have run: "encode_payload f c =
      and_then (encode_out 19 (amqp_encode_properties n d)) (\<lambda>res. ret (res + 12)) (out_with c ?b)"
    using c by (simp add: encode_payload_def Properties_payload ty amqp_e16_be amqp_e64_be run_put_out outbound_ok_def
        HEADER_SIZE_def and_then_Ok)
  have len: "length (frame_bytes f) = length (properties_bytes d) + 20"
    by (simp add: frame_bytes_def Properties_payload payload_bytes_def)
  show ?thesis
  proof (cases "length (frame_bytes f) \<le> outbound_len c")
    case True
    have "encode_out 19 (amqp_encode_properties n d) (out_with c ?b) =
        (Ok (length (properties_bytes d)), out_with c (splice ?b 19 (properties_bytes d)))"
      using run_encode_out [where m = "amqp_encode_properties n d" and c = "out_with c ?b" and skip = 19
          and bs = "properties_bytes d", OF amqp_encode_properties_run [OF ty(2)]] c b True len by (simp add: outbound_ok_def)
    moreover have "splice ?b 19 (properties_bytes d) = splice (outbound_buffer c) 7 (?h @ properties_bytes d)"
      by (rule splice_chain) (use c in \<open>simp_all add: outbound_ok_def\<close>)
    ultimately show ?thesis using True run by (simp add: and_then_Ok Properties_payload payload_bytes_def)
  next
    case False
    then obtain e b' where "encode_out 19 (amqp_encode_properties n d) (out_with c ?b) = (Err e, out_with c b')"
      "e \<in> overflow_errors" "length b' = length (outbound_buffer c)"
      using run_encode_short [where m = "amqp_encode_properties n d" and c = "out_with c ?b" and skip = 19
          and bs = "properties_bytes d", OF amqp_encode_properties_short [OF ty(2)]] c b len by (auto simp: outbound_ok_def)
    with run False show ?thesis by (auto simp: and_then_Err)
  qed
next
  case No_payload
  with wf c show ?thesis
    by (simp add: wf_frame_def encode_payload_def payload_bytes_def frame_bytes_def outbound_ok_def)
qed (use wf in \<open>auto simp: wf_frame_def\<close>)

text \<open>The call of the socket that hands over a frame.\<close>

definition hand_over :: "'a conn_scheme platform \<Rightarrow> amqp_frame \<Rightarrow> ('a conn_scheme, unit) cm" where
  "hand_over P f = (if frame_type f = 3
     then amqp_socket_writev (socket P) [take 7 (frame_bytes f), payload_bytes (frame_payload f), [0xCE]]
     else amqp_socket_send (socket P) (frame_bytes f))"

lemma send_frame_run:
  assumes c: "outbound_ok c" and wf: "wf_frame f"
  shows "\<exists>b. length b = length (outbound_buffer c) \<and>
    (if frame_type f = 3 \<or> length (frame_bytes f) \<le> outbound_len c
     then amqp_send_frame P f c = and_then (attempt (hand_over P f)) (after_send P) (out_with c b)
     else \<exists>e. amqp_send_frame P f c = (Err e, out_with c b) \<and> e \<in> overflow_errors)"
proof -
  let ?ty = "be8 (frame_type f)" and ?ch = "be16 (frame_channel f)" and ?p = "payload_bytes (frame_payload f)"
  let ?b1 = "splice (outbound_buffer c) 0 (?ty @ ?ch)" and ?len = "be32 (of_nat (length ?p))"
  have big: "20 \<le> length (outbound_buffer c)" using c by (simp add: outbound_ok_def)
  have b1: "length ?b1 = length (outbound_buffer c)" using big by simp
  have "splice (splice (outbound_buffer c) 0 ?ty) 1 ?ch = ?b1"
    by (rule splice_chain) (use big in simp_all)
  then have run: "amqp_send_frame P f c =
      and_then (if frame_type f = 3 then send_body P f else send_other P f) (after_send P) (out_with c ?b1)"
    using big by (simp add: amqp_send_frame_def amqp_e8_be amqp_e16_be run_put_out and_then_Ok)
  have head: "splice ?b1 3 ?len = splice (outbound_buffer c) 0 (?ty @ ?ch @ ?len)"
    using splice_chain [of 0 "?ty @ ?ch" 3 "outbound_buffer c" ?len] big by simp
  show ?thesis
  proof (cases "frame_type f = 3")
    case True
    let ?b = "splice (outbound_buffer c) 0 (?ty @ ?ch @ ?len)"
    obtain body where body: "frame_payload f = Body_payload body"
      using wf True by (cases "frame_payload f") (auto simp: wf_frame_def)
    have "take 7 ?b = take 7 (frame_bytes f)" using big by (simp add: splice_def frame_bytes_def frame_image_def)
    moreover have "send_body P f (out_with c ?b1) = attempt (amqp_socket_writev (socket P) [take 7 ?b, ?p, [0xCE]]) (out_with c ?b)"
      using head big by (simp add: send_body_def body payload_bytes_def amqp_e32_be run_put_out and_then_Ok HEADER_SIZE_def)
    ultimately have "amqp_send_frame P f c = and_then (attempt (hand_over P f)) (after_send P) (out_with c ?b)"
      unfolding run using True by (simp add: hand_over_def and_then_def)
    with True big show ?thesis by (intro exI [of _ ?b]) simp
  next
    case False
    note enc = encode_payload_run [of "out_with c ?b1", OF _ wf False]
    show ?thesis
    proof (cases "length (frame_bytes f) \<le> outbound_len c")
      case fits: True
      have len: "length (frame_bytes f) = length ?p + 8" by (simp add: frame_bytes_def)
      have room: "length ?p + 8 \<le> length (outbound_buffer c)" using fits c len by (simp add: outbound_ok_def)
      let ?b2 = "splice ?b1 7 ?p" let ?b3 = "splice ?b2 3 ?len" let ?b4 = "splice ?b3 (length ?p + 7) [0xCE]"
      have e: "encode_payload f (out_with c ?b1) = (Ok (length ?p), out_with c ?b2)"
        using enc c b1 fits by simp
      have l: "length ?b2 = length (outbound_buffer c)" "length ?b3 = length (outbound_buffer c)"
        "length ?b4 = length (outbound_buffer c)" using room by simp_all
      have "?b3 = splice ?b1 3 (?len @ ?p)"
        using splice_before [of ?len 4 3 ?p ?b1] room by simp
      also have "\<dots> = splice (outbound_buffer c) 0 (?ty @ ?ch @ ?len @ ?p)"
        using splice_chain [of 0 "?ty @ ?ch" 3 "outbound_buffer c" "?len @ ?p"] room by simp
      finally have "?b4 = splice (outbound_buffer c) 0 (frame_bytes f)"
        using splice_chain [of 0 "?ty @ ?ch @ ?len @ ?p" "length ?p + 7" "outbound_buffer c" "[0xCE]"] room
        by (simp add: frame_bytes_def frame_image_def add.commute)
      then have out: "take (length ?p + 8) ?b4 = frame_bytes f" using len by (simp add: splice_def)
      have e8: "amqp_e8 host 0xCE = [0xCE]" by (simp add: amqp_e8_be be8_def)
      have "send_other P f (out_with c ?b1) = attempt (amqp_socket_send (socket P) (frame_bytes f)) (out_with c ?b4)"
        using e l room e8 out [unfolded add.commute [of "length ?p" 8]]
        by (simp add: send_other_def and_then_Ok amqp_e32_be run_put_out size_defs)
      then have "amqp_send_frame P f c = and_then (attempt (hand_over P f)) (after_send P) (out_with c ?b4)"
        unfolding run using False by (simp add: hand_over_def and_then_def)
      with l(3) fits show ?thesis by (intro exI [of _ ?b4]) simp
    next
      case short: False
      then obtain err b where "encode_payload f (out_with c ?b1) = (Err err, out_with c b)" "err \<in> overflow_errors"
        "length b = length (outbound_buffer c)"
        using enc c b1 by auto
      with run False short show ?thesis by (intro exI [of _ b]) (simp add: send_other_def and_then_Err)
    qed
  qed
qed

lemma after_send_settles:
  assumes P: "environment (clock_gettime P)" and run: "after_send P res c = (r, c')"
  shows "returns r \<and> (\<exists>d t. same_conn c d \<and> c' = d\<lparr>next_send_heartbeat := t\<rparr>)"
proof (cases "0 < heartbeat c")
  case False
  then have "(r, c') = as_status res c" using run by (simp add: after_send_def)
  then have "returns r" "c' = c" by (auto simp: as_status_def split: if_splits)
  moreover have "c = c\<lparr>next_send_heartbeat := next_send_heartbeat c\<rparr>" by simp
  ultimately show ?thesis using same_conn_refl by blast
next
  case True
  obtain q d where q: "amqp_get_monotonic_timestamp P c = (q, d)" by fastforce
  have d: "returns q" "same_conn c d" using environmentD [OF timestamp_environment [OF P] q] by auto
  consider t where "q = Ok t" | err where "q = Err err" using d(1) by (cases q) auto
  then have "returns r \<and> (\<exists>u. c' = d\<lparr>next_send_heartbeat := u\<rparr>)"
  proof cases
    case (1 t)
    show ?thesis
    proof (cases "t = 0")
      case True
      with 1 run q \<open>0 < heartbeat c\<close> have "r = Err AMQP_STATUS_TIMER_FAILURE" "c' = d"
        by (simp_all add: after_send_def and_then_Ok)
      then show ?thesis by (intro conjI exI [of _ "next_send_heartbeat d"]) simp_all
    next
      case False
      let ?d = "d\<lparr>next_send_heartbeat := amqp_calc_next_send_heartbeat d t\<rparr>"
      from 1 run q False \<open>0 < heartbeat c\<close> have "as_status res ?d = (r, c')"
        by (simp add: after_send_def and_then_Ok)
      then have "returns r" "c' = ?d" by (auto simp: as_status_def split: if_splits)
      then show ?thesis by blast
    qed
  next
    case (2 err)
    with run q True have "r = Err err" "c' = d" by (simp_all add: after_send_def and_then_Err)
    then show ?thesis by (intro conjI exI [of _ "next_send_heartbeat d"]) simp_all
  qed
  with d(2) show ?thesis by blast
qed

section \<open>A connection that records what it sends\<close>

record tape = conn +
  sent :: bytes

definition record_sent :: "bytes \<Rightarrow> (tape, unit) cm" where
  "record_sent bs = modify (\<lambda>s. s\<lparr>sent := sent s @ bs\<rparr>)"

definition recorder :: "tape platform" where
  "recorder = \<lparr>socket = Some
     \<lparr>klass_writev = (\<lambda>iov. record_sent (concat iov)), klass_send = record_sent,
      klass_recv = (\<lambda>_. raise AMQP_STATUS_CONNECTION_CLOSED), klass_open = (\<lambda>_ _. ret 0), klass_close = ret (),
      klass_get_sockfd = ret 0, klass_delete = ret ()\<rparr>,
    clock_gettime = ret (Some (1, 0)), os_select = (\<lambda>_ tv. ret (1, False, tv)), ndebug = False\<rparr>"

lemma hand_over_recorder:
  assumes "wf_frame f"
  shows "hand_over recorder f c = (Ok (), c\<lparr>sent := sent c @ frame_bytes f\<rparr>)"
proof -
  have "frame_bytes f = take 7 (frame_bytes f) @ payload_bytes (frame_payload f) @ [0xCE]"
    by (simp add: frame_bytes_def frame_image_def)
  then show ?thesis
    by (simp add: hand_over_def recorder_def amqp_socket_writev_def amqp_socket_send_def record_sent_def)
qed

lemma send_recorded:
  assumes c: "outbound_ok c" and wf: "wf_frame f" and fits: "frame_type f = 3 \<or> length (frame_bytes f) \<le> outbound_len c"
  shows "\<exists>c'. amqp_send_frame recorder f c = (Ok (), c') \<and> sent c' = sent c @ frame_bytes f"
proof -
  obtain b where b: "amqp_send_frame recorder f c =
      and_then (attempt (hand_over recorder f)) (after_send recorder) (out_with c b)"
    using send_frame_run [OF c wf, of recorder] fits by auto
  let ?c = "(out_with c b)\<lparr>sent := sent c @ frame_bytes f\<rparr>"
  have "hand_over recorder f (out_with c b) = (Ok (), ?c)"
    using hand_over_recorder [OF wf] by (simp add: out_with_def)
  then have run: "amqp_send_frame recorder f c = after_send recorder AMQP_STATUS_OK ?c"
    unfolding b by (simp add: attempt_def and_then_Ok)
  have env: "environment (clock_gettime recorder)" by (simp add: recorder_def environment_def safe_def)
  have clk: "amqp_get_monotonic_timestamp recorder s = (Ok 1000000000, s)" for s
    by (simp add: amqp_get_monotonic_timestamp_def recorder_def timestamp_of_def AMQP_NS_PER_S_def and_then_Ok)
  show ?thesis
    unfolding run by (simp add: after_send_def as_status_def and_then_Ok [OF clk])
qed

section \<open>Properties\<close>

definition sample_frame :: amqp_frame where
  "sample_frame = \<lparr>frame_type = 1, frame_channel = 1,
     frame_payload = Method_payload AMQP_BASIC_ACK_METHOD (Some (amqp_basic_ack_t 7 True))\<rparr>"

lemma sample_frame_wf [simp]: "wf_frame sample_frame"
  by (simp add: wf_frame_def sample_frame_def frame_bytes_def payload_bytes_def method_wire_def wf_method_def)

lemma sample_frame_length: "length (frame_bytes sample_frame) = 21"
  by (simp add: sample_frame_def frame_bytes_def payload_bytes_def method_wire_def)

lemma sample_conn_ready [simp]: "ready sample_conn" "granting sample_conn"
  by (simp_all add: ready_def sample_conn_def zeroed_def heap.defs HEADER_SIZE_def granting_def)

lemma sample_pieces: "concat [take 3 F, take 6 (drop 3 F), drop 9 F] = F"
  using append_take_drop_id [of 6 "drop 3 F"] append_take_drop_id [of 3 F] by simp

text \<open>
  C10: however the bytes of a well formed frame are cut into pieces on their way, an idle connection
  answers every piece but the last with "no frame yet", the last with exactly that frame, consumes every
  byte, and is idle and well formed again.
\<close>

theorem frames_survive_cutting:
  assumes "conn_inv c" and "granting c" and "ready c" and "wf_frame f"
    and "concat ds = frame_bytes f" and "[] \<notin> set ds"
  shows "\<exists>c'. feed ds c = (Ok (replies (received (stale_properties c) f) ds), c') \<and> conn_inv c' \<and> ready c'"
proof -
  have "0 < length (frame_bytes f)" by (simp add: frame_bytes_def)
  with feed_run [OF assms(1,2) ready_midway [OF assms(3)] refl assms(4), of ds] assms(5,6) show ?thesis
    by auto
qed

theorem frames_survive_cutting_witness:
  "\<exists>c'. feed [take 3 (frame_bytes sample_frame), take 6 (drop 3 (frame_bytes sample_frame)),
        drop 9 (frame_bytes sample_frame)] sample_conn =
      (Ok (replies (received (stale_properties sample_conn) sample_frame)
        [take 3 (frame_bytes sample_frame), take 6 (drop 3 (frame_bytes sample_frame)),
         drop 9 (frame_bytes sample_frame)]), c') \<and> conn_inv c' \<and> ready c'"
  by (rule frames_survive_cutting)
    (simp_all add: sample_pieces sample_frame_length del: concat.simps, auto simp flip: length_greater_0_conv simp: sample_frame_length)


lemma sample_conn_outbound [simp]: "outbound_ok sample_conn" "outbound_len sample_conn = 64"
  by (simp_all add: outbound_ok_def sample_conn_def)


text \<open>
  C11: what one connection sends another receives: \<^verbatim>\<open>amqp_send_frame\<close> appends the bytes of the frame to the
  stream, and however those bytes are cut on the way, \<^verbatim>\<open>amqp_handle_input\<close> at the other end hands out
  the same frame.
\<close>

theorem sent_frames_arrive:
  assumes "outbound_ok c" and "wf_frame f" and "frame_type f = 3 \<or> length (frame_bytes f) \<le> outbound_len c"
    and "conn_inv d" and "granting d" and "ready d"
  shows "\<exists>c'. amqp_send_frame recorder f c = (Ok (), c') \<and>
    (\<forall>ds. concat ds = drop (length (sent c)) (sent c') \<and> [] \<notin> set ds \<longrightarrow>
      (\<exists>d'. feed ds d = (Ok (replies (received (stale_properties d) f) ds), d') \<and> conn_inv d' \<and> ready d'))"
proof -
  obtain c' where c': "amqp_send_frame recorder f c = (Ok (), c')" "sent c' = sent c @ frame_bytes f"
    using send_recorded [OF assms(1-3)] by blast
  have "0 < length (frame_bytes f)" by (simp add: frame_bytes_def)
  with c' feed_run [OF assms(4,5) ready_midway [OF assms(6)] refl assms(2)] show ?thesis
    by (intro exI [of _ c']) auto
qed

definition sample_tape :: tape where
  "sample_tape = conn.extend sample_conn \<lparr>sent = []\<rparr>"

theorem sent_frames_arrive_witness:
  "\<exists>c'. amqp_send_frame recorder sample_frame sample_tape = (Ok (), c') \<and>
    (\<forall>ds. concat ds = drop (length (sent sample_tape)) (sent c') \<and> [] \<notin> set ds \<longrightarrow>
      (\<exists>d'. feed ds sample_conn = (Ok (replies (received (stale_properties sample_conn) sample_frame) ds), d') \<and>
        conn_inv d' \<and> ready d'))"
  by (rule sent_frames_arrive)
    (simp_all add: sample_frame_length, simp_all add: sample_tape_def conn.defs outbound_ok_def,
     simp_all add: sample_conn_def)



text \<open>
  A connection in its initial state recognises the eight bytes of a protocol header, in any pieces
  so far, reports the version numbers in it, and becomes idle.
\<close>

theorem protocol_header_recognised:
  assumes "conn_inv c" and "conn_state c = CONNECTION_STATE_INITIAL" and "inbound_buffer c = Header_buffer"
    and "inbound_offset c = k" and "k < 8" and "target_size c = 8" and "length (header_buffer c) = 8"
    and "8 - k \<le> length data" and "take k (header_buffer c) @ take (8 - k) data = [0x41, 0x4d, 0x51, 0x50, a, b, v, w]"
  shows "\<exists>c'. amqp_handle_input data c =
      (Ok (8 - k, \<lparr>frame_type = 0x41, frame_channel = 0, frame_payload = Protocol_header a b v w\<rparr>), c') \<and>
    conn_inv c' \<and> ready c'"
proof -
  define hb where "hb = splice (header_buffer c) k (take (8 - k) data)"
  define c1 where "c1 = c\<lparr>header_buffer := hb, inbound_offset := 8\<rparr>"
  have hb: "hb = [0x41, 0x4d, 0x51, 0x50, a, b, v, w]"
    using assms(5,7-9) by (simp add: hb_def splice_def)
  have con: "consume_data data c = (Ok (8 - k, drop (8 - k) data), c1)"
    using consume_header [OF assms(3), of "8 - k" data] assms(4-8) by (simp add: c1_def hb_def)
  have ne: "data \<noteq> []" using assms(5,8) by auto
  have raw: "raw_frame c1 = hb" using assms(3) by (simp add: raw_frame_def c1_def)
  have "amqp_handle_input data c = (Ok (8 - k, protocol_header hb), return_to_idle c1)"
    using ne con assms(2,6) raw by (simp add: amqp_handle_input_def and_then_Ok) (simp add: c1_def hb)
  moreover have "protocol_header hb = \<lparr>frame_type = 0x41, frame_channel = 0, frame_payload = Protocol_header a b v w\<rparr>"
    by (simp add: protocol_header_def hb)
  moreover have "conn_inv c1" by (rule conn_inv_same [OF assms(1)]) (simp_all add: c1_def conn_blocks_def)
  then have "conn_inv (return_to_idle c1)" by (rule conn_inv_return_to_idle)
  moreover have "ready (return_to_idle c1)" by (rule ready_return_to_idle) (simp add: c1_def hb)
  ultimately show ?thesis by (intro exI [of _ "return_to_idle c1"]) simp
qed

definition initial_conn :: conn where
  "initial_conn = sample_conn\<lparr>conn_state := CONNECTION_STATE_INITIAL, target_size := 8\<rparr>"

lemma initial_conn_simps [simp]:
  "conn_inv initial_conn" "conn_state initial_conn = CONNECTION_STATE_INITIAL" "target_size initial_conn = 8"
  "inbound_buffer initial_conn = Header_buffer" "inbound_offset initial_conn = 0" "length (header_buffer initial_conn) = 8"
  "granting initial_conn"
proof -
  show "conn_inv initial_conn" by (rule conn_inv_same [OF sample_conn_inv]) (simp_all add: initial_conn_def conn_blocks_def)
qed (simp_all add: initial_conn_def granting_def, simp_all add: sample_conn_def zeroed_def heap.defs HEADER_SIZE_def)

theorem protocol_header_recognised_witness:
  "\<exists>c'. amqp_handle_input [0x41, 0x4d, 0x51, 0x50, 0, 0, 9, 1, 1] initial_conn =
      (Ok (8 - 0, \<lparr>frame_type = 0x41, frame_channel = 0, frame_payload = Protocol_header 0 0 9 1\<rparr>), c') \<and>
    conn_inv c' \<and> ready c'"
  by (rule protocol_header_recognised) simp_all

text \<open>
  When the first thing a connection receives is a frame, its first payload byte is lost: eight bytes
  have been read into the header buffer, but only seven are copied to the block of the frame, and reading
  goes on after the eighth.  A body frame comes out with whatever byte the block held before.
\<close>

theorem first_frame_loses_a_byte:
  assumes "conn_inv c" and "granting c" and "conn_state c = CONNECTION_STATE_INITIAL" and "inbound_buffer c = Header_buffer"
    and "inbound_offset c = 0" and "target_size c = 8" and "length (header_buffer c) = 8"
    and "length (b # bs) + 8 < 2 ^ 32"
  shows "\<exists>c'. amqp_handle_input (frame_image 3 ch (b # bs)) c =
    (Ok (length (b # bs) + 8, \<lparr>frame_type = 3, frame_channel = ch, frame_payload = Body_payload (stale c 7 # bs)\<rparr>), c')"
proof -
  let ?D = "frame_image 3 ch (b # bs)" let ?f = "\<lparr>frame_type = 3, frame_channel = ch, frame_payload = Body_payload (stale c 7 # bs)\<rparr>"
  let ?F = "frame_bytes ?f"
  have F: "?F = frame_image 3 ch (stale c 7 # bs)" by (simp add: frame_bytes_def payload_bytes_def)
  have wf: "wf_frame ?f" using assms(8) by (simp add: wf_frame_def F)
  have heads: "heads ?F ch" using heads_frame_bytes [OF wf] by simp
  define c1 where "c1 = c\<lparr>header_buffer := take 8 ?D, inbound_offset := 8\<rparr>"
  have "splice (header_buffer c) 0 (take 8 ?D) = take 8 ?D" using assms(7) by (simp add: splice_def)
  moreover have "8 = min (length ?D) (target_size c - inbound_offset c)" using assms(5,6) by simp
  from consume_header [OF assms(4) _ _ this]
  have "consume_data ?D c = (Ok (8, drop 8 ?D),
      c\<lparr>header_buffer := splice (header_buffer c) (inbound_offset c) (take 8 ?D), inbound_offset := inbound_offset c + 8\<rparr>)"
    using assms(5-7) by simp
  ultimately have con: "consume_data ?D c = (Ok (8, drop 8 ?D), c1)"
    unfolding c1_def using assms(5) by (simp only: add_0)
  have 1: "conn_inv c1" by (rule conn_inv_same [OF assms(1)]) (simp_all add: c1_def conn_blocks_def)
  have raw: "raw_frame c1 = take 8 ?D" using assms(4) by (simp add: raw_frame_def c1_def)
  have "take 4 (take 8 ?D) \<noteq> [0x41, 0x4d, 0x51, 0x50]" by (simp add: frame_image_def be8_def be16_def)
  moreover have "?D \<noteq> []" by (simp add: frame_image_def be8_def)
  ultimately have run: "amqp_handle_input ?D c = handle_header 8 (drop 8 ?D) c1"
    using con assms(3,6) raw by (simp add: amqp_handle_input_def and_then_Ok) (simp add: c1_def)
  have F7: "?F ! 7 = stale c 7" by (simp add: F frame_image_def nth_append be8_def be16_def be32_def)
  have head7: "take 7 (header_buffer c1) = take 7 ?F"
    by (simp add: c1_def F frame_image_def min_def)
  have g1: "granting c1" using assms(2) by (simp add: granting_def c1_def)
  have len1: "length (header_buffer c1) = 8" by (simp add: c1_def)
  from handle_header_run [OF 1 _ _ len1 head7 heads, of 8 8 "drop 8 ?D"] g1 F7 obtain c2 where
    2: "handle_header 8 (drop 8 ?D) c1 = read_on 8 (drop 8 ?D) c2" "conn_inv c2" "input_step c1 c2" "in_body ?F 8 c2"
    using assms(4) by (auto simp: c1_def)
  have go: "goes_on ?F 8 (drop 8 ?D)" by (simp add: goes_on_def F frame_image_def)
  from read_on_run [OF 2(2,4) _ go refl, of 8] obtain c3 where
    3: "conn_inv c3" "input_step c2 c3" "in_body ?F (length ?F) c3" "read_on 8 (drop 8 ?D) c2 = handle_body (length ?F) c3"
    by (auto simp: F)
  have "granting c3" "stale_properties c3 = stale_properties c"
    using g1 2(3) 3(2) by (simp_all add: input_step_granting input_stepD) (simp add: c1_def)
  from handle_body_run [OF 3(1) this(1) 3(3) refl wf, of "length ?F"] show ?thesis
    unfolding run 2(1) 3(4) by (auto simp: received_def F)
qed

theorem first_frame_loses_a_byte_witness:
  "\<exists>c'. amqp_handle_input (frame_image 3 1 [5, 6, 7]) initial_conn =
    (Ok (length [5, 6, 7 :: u8] + 8, \<lparr>frame_type = 3, frame_channel = 1,
      frame_payload = Body_payload (stale initial_conn 7 # [6, 7])\<rparr>), c')"
  by (rule first_frame_loses_a_byte) simp_all

text \<open>
  The size of a frame is computed in 32 bits.  A header that announces a payload of
  \<open>2 ^ 32 - 7\<close> to \<open>2 ^ 32 - 2\<close> bytes gives a block of 8 bytes, and the data that follows is
  written past its end, all of it.
\<close>

theorem announced_size_overflows:
  assumes "conn_inv c" and "granting c" and "ready c" and "2 ^ 32 - 7 \<le> unat len" and "unat len \<le> 2 ^ 32 - 2"
    and "2 \<le> length data"
  shows "fst (amqp_handle_input (be8 ty @ be16 ch @ be32 len @ data) c) = Undef"
proof -
  let ?h = "be8 ty @ be16 ch @ be32 len"
  have r: "inbound_buffer c = Header_buffer" "inbound_offset c = 0" "target_size c = 7"
    "length (header_buffer c) = 8" "conn_state c = CONNECTION_STATE_IDLE" using assms(3) by (simp_all add: ready_def)
  let ?c = "c\<lparr>conn_state := CONNECTION_STATE_HEADER\<rparr>"
  define c1 where "c1 = ?c\<lparr>header_buffer := splice (header_buffer c) 0 ?h, inbound_offset := 7\<rparr>"
  have "7 = min (length (?h @ data)) (target_size ?c - inbound_offset ?c)" using r by simp
  from consume_header [OF _ _ _ this] r
  have "consume_data (?h @ data) ?c = (Ok (7, drop 7 (?h @ data)),
      ?c\<lparr>header_buffer := splice (header_buffer c) 0 (take 7 (?h @ data)), inbound_offset := 7\<rparr>)" by simp
  moreover have "take 7 (?h @ data) = ?h" "drop 7 (?h @ data) = data" by simp_all
  ultimately have con: "consume_data (?h @ data) ?c = (Ok (7, data), c1)" unfolding c1_def by metis
  have run: "amqp_handle_input (?h @ data) c = handle_header 7 data c1"
    using con r by (simp add: amqp_handle_input_def and_then_Ok be8_def) (simp add: c1_def r)
  have 1: "conn_inv c1" by (rule conn_inv_same [OF assms(1)]) (simp_all add: c1_def conn_blocks_def)
  have hb: "header_buffer c1 = ?h @ drop 7 (header_buffer c)" by (simp add: c1_def splice_def)
  have l1: "length (header_buffer c1) = 8" using r(4) by (simp add: hb)
  define n where "n = announced_size len"
  have n: "0 < n" "n < 7"
    using assms(4,5) by (auto simp: n_def announced_size_def size_defs unat_word_ariths unat_of_nat take_bit_eq_mod mod_if)
  have sl: "slice (header_buffer c1) 1 2 = be16 ch" "slice (header_buffer c1) 3 4 = be32 len"
    by (simp_all add: hb slice_def)
  from handle_header_alloc [OF 1 _ l1 sl, of 7 data] n assms(2) r(1) obtain c2 where
    2: "handle_header 7 data c1 = fill_frame n 7 data c2" "only_memory (c1\<lparr>target_size := n\<rparr>) c2"
    unfolding n_def [symmetric] by (auto simp: c1_def granting_def)
  have c2: "header_buffer c2 = header_buffer c1" "inbound_offset c2 = 7" "target_size c2 = n"
    using only_memoryD [OF 2(2)] by (simp_all add: c1_def)
  have ru: "round_up n = 8" using n by (simp add: round_up_eq)
  let ?buf = "splice (map (stale c2) [0..<8]) 0 (take 7 (header_buffer c2))"
  let ?c3 = "c2\<lparr>inbound_buffer := Frame_block ?buf, conn_state := CONNECTION_STATE_BODY\<rparr>"
  have "length (take 7 (header_buffer c2)) = 7" using l1 c2 by simp
  then have "fill_frame n 7 data c2 = read_on 7 data ?c3"
    by (simp add: fill_frame_def start_frame_def ru copy_inbound_def HEADER_SIZE_def and_then_Ok)
  moreover have "fst (read_on 7 data ?c3) = Undef"
  proof -
    let ?m = "min (length data) (n + 2 ^ 64 - 7)"
    have "length ?buf = 8" using l1 c2 by simp
    moreover have "2 \<le> length (take ?m data)" using assms(6) by simp
    ultimately have "fst (consume_data data ?c3) = Undef"
      using c2 n by (auto simp: consume_data_def Let_def size_minus_def copy_inbound_def run_and_then)
    then show ?thesis unfolding read_on_def by (rule and_then_Undef)
  qed
  ultimately show ?thesis using run 2(1) by simp
qed

theorem announced_size_overflows_witness:
  "fst (amqp_handle_input (be8 3 @ be16 1 @ be32 0xFFFFFFFA @ [1, 2, 3, 4]) sample_conn) = Undef"
  by (rule announced_size_overflows) simp_all

text \<open>
  A method frame with an empty payload is read past its end: the method number is fetched
  from behind the 8 bytes of the frame.
\<close>

theorem empty_method_frame_overreads:
  assumes "conn_inv c" and "granting c" and "ready c"
  shows "fst (amqp_handle_input (frame_image 1 ch []) c) = Undef"
proof -
  let ?F = "frame_image 1 ch []"
  have heads: "heads ?F ch" by (rule heads_frame_image) simp
  have go: "goes_on ?F 0 ?F" by (simp add: goes_on_def)
  have "8 = min (length ?F) (length ?F - 0)" by simp
  from handle_input_step [OF assms(1) ready_midway [OF assms(3)] _ heads _ go this] assms(2) obtain c1 where
    1: "conn_inv c1" "input_step c c1" "in_body ?F 8 c1" "amqp_handle_input ?F c = handle_body 8 c1"
    by (auto simp: frame_image_def be8_def)
  have "in_body ?F (length ?F) c1" using 1(3) by simp
  note b = this
  have eq: "handle_body 8 c1 = and_then (or_return AMQP_STATUS_NO_MEMORY (amqp_get_or_create_channel_pool ch)) (\<lambda>_.
      and_then (decode_payload 1 ch) (finish_frame 8 ch)) c1"
    using handle_body_eq [OF b, of 1 ch "0xCE" 8] frame_image_fields(1,2,6) [of 1 ch "[]"] by (simp add: be8_def)
  obtain c2 where 2: "amqp_get_or_create_channel_pool ch c1 = (Ok (Some ()), c2)" "only_memory c1 c2"
    using get_or_create_run [OF 1(1), of ch] input_step_granting [OF 1(2)] assms(2) unfolding granting_def by metis
  obtain buf where buf: "inbound_buffer c2 = Frame_block buf" "length buf = 8"
    using 1(3) only_memoryD(7) [OF 2(2)] by (auto simp: in_body_def round_up_eq)
  have "decode_payload 1 ch c2 = (Undef, c2)"
    using buf by (simp add: decode_payload_def raw_32_def peek_def raw_frame_def HEADER_SIZE_def run_and_then)
  then show ?thesis
    unfolding 1(4) eq using 2(1) by (simp add: and_then_Ok or_return_Some run_and_then)
qed

theorem empty_method_frame_overreads_witness:
  "fst (amqp_handle_input (frame_image 1 5 []) sample_conn) = Undef"
  by (rule empty_method_frame_overreads) simp_all

end
