(* ===== verification/Wait.thy ===== *)
theory Wait
  imports Frames
begin

text \<open>
  Waiting for frames: the part of \<^verbatim>\<open>amqp_socket.c\<close> between the socket and the frame reader.
  \<^verbatim>\<open>recv_with_timeout\<close> fills the socket buffer, \<^verbatim>\<open>consume_one_frame\<close> gives its contents to the reader,
  \<^verbatim>\<open>wait_frame_inner\<close> goes on until a frame is complete, sends heartbeats when they are due and gives
  up when the peer has been silent for too long, and \<^verbatim>\<open>amqp_try_recv\<close> puts what has arrived on the
  queue of frames.

  A wait may last for ever, so its loops have fuel, which counts rounds; \<open>enough\<close> fuel is part of
  the theorems on streams, which say that the frames of the stream are delivered.
\<close>

unbundle bit_operations_syntax

section \<open>The socket buffer\<close>

definition amqp_frames_enqueued :: "'a conn_scheme \<Rightarrow> bool" where
  "amqp_frames_enqueued c \<longleftrightarrow> queued_frames c \<noteq> []"

definition amqp_data_in_buffer :: "'a conn_scheme \<Rightarrow> bool" where
  "amqp_data_in_buffer c \<longleftrightarrow> sock_inbound_offset c < sock_inbound_limit c"

definition unread :: "'a conn_scheme \<Rightarrow> bytes" where
  "unread c = slice (sock_inbound_buffer c) (sock_inbound_offset c)
     (size_minus (sock_inbound_limit c) (sock_inbound_offset c))"

definition consume_one_frame :: "('a conn_scheme, amqp_frame) cm" where
  "consume_one_frame = and_then get (\<lambda>c.
     and_then (amqp_handle_input (unread c)) (\<lambda>(res, decoded_frame).
     and_then (modify (\<lambda>c. c\<lparr>sock_inbound_offset := sock_inbound_offset c + res\<rparr>)) (\<lambda>_.
     ret decoded_frame)))"

section \<open>Receiving\<close>

text \<open>
  The nanoseconds of a \<^verbatim>\<open>timeval\<close>, in \<^verbatim>\<open>long\<close> arithmetic, whose overflow is undefined, and back.
\<close>

definition long_range :: "int \<Rightarrow> bool" where
  "long_range i \<longleftrightarrow> - (2 ^ 63) \<le> i \<and> i < 2 ^ 63"

definition nanoseconds :: "u64 \<Rightarrow> timeval \<Rightarrow> ('s, u64) cm" where
  "nanoseconds start tv =
     (if long_range (tv_sec tv * 1000000000) \<and> long_range (tv_usec tv * 1000)
      then ret (start + word_of_int (tv_sec tv) * AMQP_NS_PER_S + word_of_int (tv_usec tv) * AMQP_NS_PER_US)
      else undef)"

definition timeval_of :: "u64 \<Rightarrow> timeval" where
  "timeval_of ns = \<lparr>tv_sec = uint (ns div AMQP_NS_PER_S), tv_usec = uint ((ns mod AMQP_NS_PER_S) div AMQP_NS_PER_US)\<rparr>"

definition FD_SETSIZE :: int where "FD_SETSIZE = 1024"

text \<open>The loop around \<^verbatim>\<open>select\<close>; \<^verbatim>\<open>FD_SET\<close> is undefined for a descriptor beyond \<^verbatim>\<open>FD_SETSIZE\<close>.\<close>

primrec await_readable :: "nat \<Rightarrow> 's platform \<Rightarrow> int \<Rightarrow> u64 \<Rightarrow> timeval \<Rightarrow> ('s, unit) cm" where
  "await_readable 0 P fd start timeout = out_of_fuel"
| "await_readable (Suc n) P fd start timeout =
     (if fd < 0 \<or> FD_SETSIZE \<le> fd then undef
      else and_then (os_select P fd timeout) (\<lambda>(res, eintr, timeout).
        if 0 < res then ret ()
        else if res = 0 then raise AMQP_STATUS_TIMEOUT
        else if res = - 1 then
          (if eintr then
             and_then (amqp_get_monotonic_timestamp P) (\<lambda>current_timestamp.
             if current_timestamp = 0 then raise AMQP_STATUS_TIMER_FAILURE
             else and_then (nanoseconds start timeout) (\<lambda>end_timestamp.
               if end_timestamp < current_timestamp then raise AMQP_STATUS_TIMEOUT
               else await_readable n P fd start (timeval_of (end_timestamp - current_timestamp))))
           else raise AMQP_STATUS_SOCKET_ERROR)
        else await_readable n P fd start timeout))"

definition store_received :: "bytes \<Rightarrow> ('a conn_scheme, unit) cm" where
  "store_received bs = (\<lambda>c. if length bs \<le> length (sock_inbound_buffer c)
     then (Ok (), c\<lparr>sock_inbound_buffer := splice (sock_inbound_buffer c) 0 bs,
             sock_inbound_limit := length bs, sock_inbound_offset := 0\<rparr>)
     else (Undef, c))"

definition recv_with_timeout ::
    "nat \<Rightarrow> 'a conn_scheme platform \<Rightarrow> u64 \<Rightarrow> timeval option \<Rightarrow> ('a conn_scheme, unit) cm" where
  "recv_with_timeout n P start timeout =
     and_then (case timeout of None \<Rightarrow> ret ()
       | Some tv \<Rightarrow> and_then (amqp_get_sockfd P) (\<lambda>fd.
           if fd = - 1 then raise AMQP_STATUS_CONNECTION_CLOSED
           else await_readable n P fd start tv)) (\<lambda>_.
     and_then get (\<lambda>c.
     and_then (amqp_socket_recv (socket P) (length (sock_inbound_buffer c))) (\<lambda>bs.
     and_then (store_received bs) (\<lambda>_.
     and_then get (\<lambda>c.
     if amqp_heartbeat_enabled c then
       and_then (amqp_get_monotonic_timestamp P) (\<lambda>current_time.
       if current_time = 0 then raise AMQP_STATUS_TIMER_FAILURE
       else modify (\<lambda>c. c\<lparr>next_recv_heartbeat := amqp_calc_next_recv_heartbeat c current_time\<rparr>))
     else ret ())))))"

section \<open>The queue of frames\<close>

definition sizeof_frame :: nat where "sizeof_frame = 48"
definition sizeof_link :: nat where "sizeof_link = 16"

text \<open>A copy of the frame and its link are allocated from the pool of its channel.\<close>

definition enqueue_frame :: "amqp_frame \<Rightarrow> ('a conn_scheme, unit) cm" where
  "enqueue_frame frame =
     and_then (or_return AMQP_STATUS_NO_MEMORY (amqp_get_or_create_channel_pool (frame_channel frame))) (\<lambda>_.
     and_then (on_pool (frame_channel frame) (amqp_pool_alloc sizeof_frame)) (\<lambda>frame_copy.
     and_then (on_pool (frame_channel frame) (amqp_pool_alloc sizeof_link)) (\<lambda>link.
     if frame_copy = None \<or> link = None then raise AMQP_STATUS_NO_MEMORY
     else modify (\<lambda>c. c\<lparr>queued_frames := queued_frames c @ [frame]\<rparr>))))"

primrec queue_buffered :: "nat \<Rightarrow> ('a conn_scheme, unit) cm" where
  "queue_buffered 0 = out_of_fuel"
| "queue_buffered (Suc n) = and_then get (\<lambda>c.
     if amqp_data_in_buffer c then
       and_then consume_one_frame (\<lambda>frame.
       and_then (if frame_type frame \<noteq> 0 then enqueue_frame frame else ret ()) (\<lambda>_.
       queue_buffered n))
     else ret ())"

definition amqp_try_recv :: "nat \<Rightarrow> 'a conn_scheme platform \<Rightarrow> u64 \<Rightarrow> ('a conn_scheme, unit) cm" where
  "amqp_try_recv n P current_time =
     and_then (queue_buffered n) (\<lambda>_.
     recv_with_timeout n P current_time (Some \<lparr>tv_sec = 0, tv_usec = 0\<rparr>))"

section \<open>Waiting for a frame\<close>

text \<open>
  The loop over the data in the buffer; \<open>None\<close> when it is used up.  The assertion at its end is about
  \<^verbatim>\<open>res\<close>, which is \<^verbatim>\<open>AMQP_STATUS_OK\<close> there, that is 0: where assertions are compiled in it fails.
\<close>

primrec read_buffered :: "nat \<Rightarrow> 'a conn_scheme platform \<Rightarrow> ('a conn_scheme, amqp_frame option) cm" where
  "read_buffered 0 P = out_of_fuel"
| "read_buffered (Suc n) P = and_then get (\<lambda>c.
     if amqp_data_in_buffer c then
       and_then consume_one_frame (\<lambda>frame.
       if frame_type frame = AMQP_FRAME_HEARTBEAT8 then
         and_then (amqp_maybe_release_buffers_on_channel 0) (\<lambda>_. read_buffered n P)
       else if frame_type frame \<noteq> 0 then ret (Some frame)
       else if ndebug P then read_buffered n P
       else amqp_abort)
     else ret None)"

text \<open>The local variables of \<^verbatim>\<open>wait_frame_inner\<close> that live across the rounds of its loop.\<close>

record wait_state =
  current_timestamp :: u64
  timeout_timestamp :: u64
  next_timestamp :: u64
  tvp :: "timeval option"

definition heartbeat_frame :: amqp_frame where
  "heartbeat_frame = \<lparr>frame_type = AMQP_FRAME_HEARTBEAT8, frame_channel = 0, frame_payload = No_payload\<rparr>"

definition timestamp_or_fail :: "'a conn_scheme platform \<Rightarrow> ('a conn_scheme, u64) cm" where
  "timestamp_or_fail P = and_then (amqp_get_monotonic_timestamp P) (\<lambda>t.
     if t = 0 then raise AMQP_STATUS_TIMER_FAILURE else ret t)"

text \<open>A heartbeat is sent when it is due; the result is the time afterwards.\<close>

definition send_heartbeat_if_due :: "'a conn_scheme platform \<Rightarrow> u64 \<Rightarrow> ('a conn_scheme, u64) cm" where
  "send_heartbeat_if_due P cur = and_then get (\<lambda>c.
     if amqp_heartbeat_enabled c \<and> next_send_heartbeat c < cur then
       and_then (amqp_send_frame P heartbeat_frame) (\<lambda>_. timestamp_or_fail P)
     else ret cur)"

definition timeout_at :: "timeval option \<Rightarrow> u64 \<Rightarrow> u64 \<Rightarrow> ('s, u64) cm" where
  "timeout_at timeout cur t0 = (case timeout of None \<Rightarrow> ret t0
     | Some tv \<Rightarrow> and_then (if t0 = 0 then nanoseconds cur tv else ret t0) (\<lambda>t.
         if t < cur then raise AMQP_STATUS_TIMEOUT else ret t))"

definition next_event :: "timeval option \<Rightarrow> u64 \<Rightarrow> u64 \<Rightarrow> ('a conn_scheme, u64) cm" where
  "next_event timeout cur tt = and_then get (\<lambda>c.
     if amqp_heartbeat_enabled c then
       and_then (modify (\<lambda>c. if next_recv_heartbeat c < cur then c\<lparr>next_recv_heartbeat := cur\<rparr> else c)) (\<lambda>_.
       and_then get (\<lambda>c.
       let nxt = (if next_recv_heartbeat c < next_send_heartbeat c then next_recv_heartbeat c
                  else next_send_heartbeat c)
       in ret (if timeout \<noteq> None then (if tt < nxt then tt else nxt) else nxt)))
     else if timeout \<noteq> None then ret tt
     else amqp_abort)"

text \<open>From the label \<^verbatim>\<open>beginrecv\<close> to the call of \<^verbatim>\<open>recv_with_timeout\<close>.\<close>

definition prepare_wait ::
    "'a conn_scheme platform \<Rightarrow> timeval option \<Rightarrow> wait_state \<Rightarrow> ('a conn_scheme, wait_state) cm" where
  "prepare_wait P timeout w = and_then get (\<lambda>c.
     if timeout \<noteq> None \<or> amqp_heartbeat_enabled c then
       and_then (timestamp_or_fail P) (\<lambda>cur.
       and_then (send_heartbeat_if_due P cur) (\<lambda>cur.
       and_then (timeout_at timeout cur (timeout_timestamp w)) (\<lambda>tt.
       and_then (next_event timeout cur tt) (\<lambda>nxt.
       ret \<lparr>current_timestamp = cur, timeout_timestamp = tt, next_timestamp = nxt,
            tvp = Some (timeval_of (nxt - cur))\<rparr>))))
     else ret w)"

text \<open>
  One bound for all the loops of a call.  \<open>at_recv\<close> says that the round starts at the label
  \<^verbatim>\<open>beginrecv\<close>; the result of closing the socket is not looked at.
\<close>

primrec wait_loop ::
    "nat \<Rightarrow> 'a conn_scheme platform \<Rightarrow> timeval option \<Rightarrow> bool \<Rightarrow> wait_state \<Rightarrow> ('a conn_scheme, amqp_frame) cm" where
  "wait_loop 0 P timeout at_recv w = out_of_fuel"
| "wait_loop (Suc n) P timeout at_recv w =
     and_then (if at_recv then ret None else read_buffered n P) (\<lambda>complete. case complete of
       Some frame \<Rightarrow> ret frame
     | None \<Rightarrow>
         and_then (prepare_wait P timeout w) (\<lambda>w.
         and_then (attempt (recv_with_timeout n P (current_timestamp w) (tvp w))) (\<lambda>res.
         and_then get (\<lambda>c.
         if res = AMQP_STATUS_TIMEOUT then
           (if next_timestamp w = next_recv_heartbeat c then
              and_then (attempt (amqp_socket_close (socket P))) (\<lambda>_. raise AMQP_STATUS_HEARTBEAT_TIMEOUT)
            else if next_timestamp w = timeout_timestamp w then raise AMQP_STATUS_TIMEOUT
            else if next_timestamp w = next_send_heartbeat c then wait_loop n P timeout True w
            else amqp_abort)
         else if res \<noteq> AMQP_STATUS_OK then raise res
         else wait_loop n P timeout False w))))"

definition wait_frame_inner ::
    "nat \<Rightarrow> 'a conn_scheme platform \<Rightarrow> timeval option \<Rightarrow> ('a conn_scheme, amqp_frame) cm" where
  "wait_frame_inner n P timeout =
     (if (case timeout of None \<Rightarrow> False | Some tv \<Rightarrow> tv_sec tv < 0 \<or> tv_usec tv < 0)
      then raise AMQP_STATUS_INVALID_PARAMETER
      else wait_loop n P timeout False
        \<lparr>current_timestamp = 0, timeout_timestamp = 0, next_timestamp = 0, tvp = None\<rparr>)"

definition amqp_simple_wait_frame_noblock ::
    "nat \<Rightarrow> 'a conn_scheme platform \<Rightarrow> timeval option \<Rightarrow> ('a conn_scheme, amqp_frame) cm" where
  "amqp_simple_wait_frame_noblock n P timeout = and_then get (\<lambda>c. case queued_frames c of
     f # fs \<Rightarrow> and_then (modify (\<lambda>c. c\<lparr>queued_frames := fs\<rparr>)) (\<lambda>_. ret f)
   | [] \<Rightarrow> wait_frame_inner n P timeout)"

definition amqp_simple_wait_frame :: "nat \<Rightarrow> 'a conn_scheme platform \<Rightarrow> ('a conn_scheme, amqp_frame) cm" where
  "amqp_simple_wait_frame n P = amqp_simple_wait_frame_noblock n P None"

section \<open>The first frame of a connection\<close>

text \<open>
  A new connection reads eight bytes before it looks at them.  When they are the start of a frame, the
  eighth is replaced by what the frame's block holds there; the frame survives when that is the same
  byte.  Every method number starts with a zero byte, so it does in the zeroed pages of a new process.
\<close>

definition starting :: "bytes \<Rightarrow> nat \<Rightarrow> 'a conn_scheme \<Rightarrow> bool" where
  "starting F k c \<longleftrightarrow> conn_state c = CONNECTION_STATE_INITIAL \<and> inbound_buffer c = Header_buffer \<and>
     inbound_offset c = k \<and> target_size c = 8 \<and> length (header_buffer c) = 8 \<and> k < 8 \<and>
     take k (header_buffer c) = take k F \<and> F ! 7 = stale c 7"

definition reader_at :: "bytes \<Rightarrow> nat \<Rightarrow> 'a conn_scheme \<Rightarrow> bool" where
  "reader_at F k c \<longleftrightarrow> midway F k c \<or> starting F k c"

text \<open>One call of the reader at any point of a frame, the first of the connection or a later one.\<close>

lemma starting_step:
  assumes c: "conn_inv c" "starting F k c" and k: "k < length F" and F: "heads F ch" "F ! 0 \<noteq> 0x41"
    and d: "data \<noteq> []" "goes_on F k data" and n: "n = min (length data) (length F - k)"
  shows "(\<exists>c'. amqp_handle_input data c = (Err AMQP_STATUS_NO_MEMORY, c') \<and> conn_inv c' \<and> \<not> granting c) \<or>
    (\<exists>c'. conn_inv c' \<and> input_step c c' \<and>
      (if k + n < length F then amqp_handle_input data c = (Ok (n, no_frame), c') \<and> reader_at F (k + n) c'
       else in_body F (length F) c' \<and> amqp_handle_input data c = handle_body n c'))"
proof -
  have h: "conn_state c = CONNECTION_STATE_INITIAL" "inbound_buffer c = Header_buffer" "inbound_offset c = k"
    "target_size c = 8" "length (header_buffer c) = 8" "k < 8" "take k (header_buffer c) = take k F" "F ! 7 = stale c 7"
    using c(2) by (simp_all add: starting_def)
  have F8: "8 \<le> length F" using F by (simp add: heads_def)
  define m where "m = min (length data) (8 - k)"
  define c1 where "c1 = c\<lparr>header_buffer := splice (header_buffer c) k (take m data), inbound_offset := k + m\<rparr>"
  have con: "consume_data data c = (Ok (m, drop m data), c1)"
    using consume_header [of c m data] h by (simp add: c1_def m_def)
  have m': "m \<le> length data" "k + m \<le> 8" "k + m \<le> length F" using F8 h(6) by (auto simp: m_def)
  have head: "take (k + m) (header_buffer c1) = take (k + m) F"
    using splice_goes_on [OF h(7) d(2) m'(1,3)] h(5) m'(2) by (simp add: c1_def)
  have len1: "length (header_buffer c1) = 8" using h(5) m' by (simp add: c1_def)
  have inv1: "conn_inv c1" by (rule conn_inv_same [OF c(1)]) (simp_all add: c1_def conn_blocks_def)
  have st1: "input_step c c1" by (simp add: input_step_def c1_def)
  have c1s: "conn_state c1 = CONNECTION_STATE_INITIAL" "inbound_buffer c1 = Header_buffer" "target_size c1 = 8"
    "inbound_offset c1 = k + m" "stale c1 = stale c" using h by (simp_all add: c1_def)
  show ?thesis
  proof (cases "k + m < 8")
    case True
    then have "m = length data" "n = m" using F8 by (auto simp: m_def n)
    moreover have "amqp_handle_input data c = (Ok (m, no_frame), c1)"
      using d(1) con h(1) True c1s by (simp add: amqp_handle_input_def and_then_Ok)
    moreover have "starting F (k + m) c1" using c1s len1 head True h(8) by (simp add: starting_def)
    ultimately show ?thesis using inv1 st1 True F8
      by (intro disjI2 exI [of _ c1]) (simp add: reader_at_def)
  next
    case False
    then have km: "k + m = 8" using m' by simp
    have hb: "header_buffer c1 = take 8 F" using head len1 by (simp add: km)
    have "F \<noteq> []" using F8 by auto
    then have "take 4 (take 8 F) \<noteq> [0x41, 0x4d, 0x51, 0x50]" using F(2) by (cases F) auto
    then have run: "amqp_handle_input data c = handle_header m (drop m data) c1"
      using d(1) con h(1) c1s hb km by (simp add: amqp_handle_input_def and_then_Ok raw_frame_def)
    have gr: "granting c1 = granting c" using st1 by (rule input_step_granting)
    have h7: "take 7 (header_buffer c1) = take 7 F" by (simp add: hb min_def)
    have k8: "k + m = 7 \<or> k + m = 8 \<and> F ! 7 = stale c1 7" using km h(8) c1s by simp
    from handle_header_run [OF inv1 c1s(2,4) len1 h7 F(1) k8, of m "drop m data"] show ?thesis
    proof
      assume "\<exists>c'. handle_header m (drop m data) c1 = (Err AMQP_STATUS_NO_MEMORY, c') \<and> conn_inv c' \<and> \<not> granting c1"
      then show ?thesis using run gr by auto
    next
      assume "\<exists>c'. handle_header m (drop m data) c1 = read_on m (drop m data) c' \<and> conn_inv c' \<and> input_step c1 c' \<and>
        in_body F (k + m) c'"
      then obtain c2 where 2: "handle_header m (drop m data) c1 = read_on m (drop m data) c2" "conn_inv c2"
        "input_step c1 c2" "in_body F (k + m) c2" by blast
      have go: "goes_on F (k + m) (drop m data)" by (rule goes_on_drop [OF d(2) m'(1,3)])
      define p where "p = min (length (drop m data)) (length F - (k + m))"
      from read_on_run [OF 2(2,4) m'(3) go p_def, of m] obtain c3 where 3: "conn_inv c3" "input_step c2 c3"
        "in_body F (k + m + p) c3"
        "read_on m (drop m data) c2 = (if k + m + p < length F then (Ok (m + p, no_frame), c3) else handle_body (m + p) c3)"
        by blast
      have np: "n = m + p" "8 + p = k + n" using km m' F8 by (auto simp: n p_def m_def)
      have "input_step c c3" using st1 2(3) 3(2) by (blast intro: input_step_trans)
      moreover have "8 + p \<le> length F" using m'(3) km by (simp add: p_def)
      ultimately show ?thesis
        using run 2(1) 3 [unfolded km] np by (intro disjI2 exI [of _ c3]) (auto simp: reader_at_def midway_def)
    qed
  qed
qed

lemma reader_step:
  assumes c: "conn_inv c" "reader_at F k c" and k: "k < length F" and F: "heads F ch" "F ! 0 \<noteq> 0x41"
    and d: "data \<noteq> []" "goes_on F k data" and n: "n = min (length data) (length F - k)"
  shows "(\<exists>c'. amqp_handle_input data c = (Err AMQP_STATUS_NO_MEMORY, c') \<and> conn_inv c' \<and> \<not> granting c) \<or>
    (\<exists>c'. conn_inv c' \<and> input_step c c' \<and>
      (if k + n < length F then amqp_handle_input data c = (Ok (n, no_frame), c') \<and> reader_at F (k + n) c'
       else in_body F (length F) c' \<and> amqp_handle_input data c = handle_body n c'))"
proof (cases "midway F k c")
  case True
  from handle_input_step [OF c(1) True k F(1) d n] show ?thesis
    by (auto simp: reader_at_def split: if_splits)
next
  case False
  then show ?thesis using c k F d n by (intro starting_step) (simp_all add: reader_at_def)
qed

section \<open>The frames of a stream\<close>

text \<open>What waiting leaves alone.\<close>

definition waits :: "'a conn_scheme \<Rightarrow> 'a conn_scheme \<Rightarrow> bool" where
  "waits c c' \<longleftrightarrow> grants c' = grants c \<and> channel_max c' = channel_max c \<and> frame_max c' = frame_max c \<and>
     heartbeat c' = heartbeat c \<and> length (outbound_buffer c') = length (outbound_buffer c) \<and>
     outbound_len c' = outbound_len c \<and> stale c' = stale c \<and> stale_properties c' = stale_properties c \<and>
     conn_blocks c' = conn_blocks c \<and> length (sock_inbound_buffer c') = length (sock_inbound_buffer c) \<and>
     most_recent_api_result c' = most_recent_api_result c"

lemma waits_refl [simp]: "waits c c"
  by (simp add: waits_def)

lemma waits_trans: "waits c d \<Longrightarrow> waits d e \<Longrightarrow> waits c e"
  by (simp add: waits_def)

interpretation waiting: frame_relation waits
  by unfold_locales (auto intro: waits_trans)

lemma waitsD:
  assumes "waits c c'"
  shows "grants c' = grants c" "channel_max c' = channel_max c" "frame_max c' = frame_max c"
    "heartbeat c' = heartbeat c" "length (outbound_buffer c') = length (outbound_buffer c)"
    "outbound_len c' = outbound_len c" "stale c' = stale c" "stale_properties c' = stale_properties c"
    "conn_blocks c' = conn_blocks c" "length (sock_inbound_buffer c') = length (sock_inbound_buffer c)"
    "most_recent_api_result c' = most_recent_api_result c" "granting c' = granting c"
    "amqp_heartbeat_enabled c' = amqp_heartbeat_enabled c" "outbound_ok c' = outbound_ok c"
  using assms by (simp_all add: waits_def granting_def amqp_heartbeat_enabled_def outbound_ok_def)

lemma input_step_waits: "input_step c c' \<Longrightarrow> waits c c'"
  unfolding input_step_def waits_def conn_blocks_def by (cases c; cases c'; simp)

lemma input_step_more: "input_step c c' \<Longrightarrow> conn.more c' = conn.more c"
  unfolding input_step_def by (cases c; cases c'; simp)

lemma only_memory_waits: "only_memory c c' \<Longrightarrow> waits c c'"
  by (intro input_step_waits only_memory_input_step)

definition buffer_ok :: "'a conn_scheme \<Rightarrow> bool" where
  "buffer_ok c \<longleftrightarrow> sock_inbound_offset c \<le> sock_inbound_limit c \<and>
     sock_inbound_limit c \<le> length (sock_inbound_buffer c)"

lemma length_unread: "buffer_ok c \<Longrightarrow> length (unread c) = sock_inbound_limit c - sock_inbound_offset c"
  by (simp add: buffer_ok_def unread_def)

lemma data_in_buffer_unread: "buffer_ok c \<Longrightarrow> amqp_data_in_buffer c \<longleftrightarrow> unread c \<noteq> []"
  using length_unread [of c] by (auto simp: amqp_data_in_buffer_def simp flip: length_greater_0_conv)

text \<open>The next \<open>n\<close> bytes of the buffer have been read.\<close>

definition advance :: "nat \<Rightarrow> 'a conn_scheme \<Rightarrow> 'a conn_scheme" where
  "advance n c = c\<lparr>sock_inbound_offset := sock_inbound_offset c + n\<rparr>"

lemma advance_simps [simp]:
  "reader_at F k (advance n c) = reader_at F k c" "ready (advance n c) = ready c" "granting (advance n c) = granting c"
  "queued_frames (advance n c) = queued_frames c" "conn.more (advance n c) = conn.more c"
  "conn_state (advance n c) = conn_state c" "stale_properties (advance n c) = stale_properties c"
  by (simp_all add: advance_def reader_at_def midway_def in_header_def in_body_def starting_def ready_def granting_def)

lemma advance_inv: "conn_inv c \<Longrightarrow> conn_inv (advance n c)"
  by (erule conn_inv_same) (simp_all add: advance_def conn_blocks_def)

lemma advance_waits: "waits c (advance n c)"
  by (simp add: waits_def advance_def conn_blocks_def)

lemma advance_unread:
  assumes "buffer_ok c" and "n \<le> length (unread c)"
  shows "buffer_ok (advance n c)" "unread (advance n c) = drop n (unread c)"
  using assms by (auto simp: buffer_ok_def unread_def advance_def slice_def drop_take size_minus_def add.commute)

definition wire :: "amqp_frame list \<Rightarrow> bytes" where
  "wire fs = concat (map frame_bytes fs)"

lemma wire_simps [simp]: "wire [] = []" "wire (f # fs) = frame_bytes f @ wire fs" "wire (fs @ gs) = wire fs @ wire gs"
  by (simp_all add: wire_def)

text \<open>
  \<open>awaiting c bs fs\<close>: the connection has read a part of the first frame of \<open>fs\<close>, and the rest of the
  frames is what is left in the socket buffer followed by \<open>bs\<close>.
\<close>

definition awaiting :: "'a conn_scheme \<Rightarrow> bytes \<Rightarrow> amqp_frame list \<Rightarrow> bool" where
  "awaiting c bs fs \<longleftrightarrow> conn_inv c \<and> granting c \<and> buffer_ok c \<and> (\<forall>f\<in>set fs. wf_frame f) \<and>
     (case fs of [] \<Rightarrow> ready c \<and> unread c @ bs = []
      | f # _ \<Rightarrow> \<exists>k. reader_at (frame_bytes f) k c \<and> k < length (frame_bytes f) \<and> unread c @ bs = drop k (wire fs))"

lemma awaiting_start:
  "conn_inv c \<Longrightarrow> granting c \<Longrightarrow> buffer_ok c \<Longrightarrow> \<forall>g\<in>set (f # fs). wf_frame g \<Longrightarrow> reader_at (frame_bytes f) 0 c \<Longrightarrow>
   unread c @ bs = wire (f # fs) \<Longrightarrow> awaiting c bs (f # fs)"
  unfolding awaiting_def by (auto intro!: exI [of _ 0] simp: frame_bytes_def)

lemma goes_on_prefix:
  assumes "data @ bs = drop k F @ rest"
  shows "goes_on F k data"
proof -
  have "data = take (length data) (drop k F @ rest)" using assms by (metis append_eq_conv_conj)
  then have "take (length F - k) data = take (length F - k) (take (length data) (drop k F @ rest))" by simp
  also have "\<dots> = take (length data) (take (length (drop k F)) (drop k F @ rest))"
    by (simp add: min.commute del: take_append)
  also have "\<dots> = take (length data) (drop k F)" by simp
  finally show ?thesis by (simp add: goes_on_def)
qed

lemma frame_bytes_first: "wf_frame f \<Longrightarrow> frame_bytes f ! 0 \<noteq> 0x41"
  by (auto simp: wf_frame_def frame_bytes_def frame_image_def be8_def split: amqp_frame_payload.splits)

lemma frame_bytes_nonempty [simp]: "frame_bytes f \<noteq> []" "0 < length (frame_bytes f)"
  by (simp_all add: frame_bytes_def frame_image_def be8_def)

text \<open>One round of the reader on the socket buffer.\<close>

lemma consume_run:
  assumes c: "awaiting c bs (f # fs)" and u: "unread c \<noteq> []"
  shows "\<exists>c'. waits c c' \<and> queued_frames c' = queued_frames c \<and> conn.more c' = conn.more c \<and>
    length (unread c') < length (unread c) \<and>
    (consume_one_frame c = (Ok no_frame, c') \<and> awaiting c' bs (f # fs) \<and> unread c' = [] \<or>
     consume_one_frame c = (Ok (received (stale_properties c) f), c') \<and> awaiting c' bs fs \<and>
       conn_state c' = CONNECTION_STATE_IDLE)"
proof -
  let ?F = "frame_bytes f"
  obtain k where k: "reader_at ?F k c" "k < length ?F" "unread c @ bs = drop k ?F @ wire fs"
    using c by (auto simp: awaiting_def)
  have inv: "conn_inv c" "granting c" "buffer_ok c" and wf: "wf_frame f" "\<forall>g\<in>set fs. wf_frame g"
    using c by (simp_all add: awaiting_def)
  have heads: "heads ?F (frame_channel f)" using wf(1) by (rule heads_frame_bytes)
  have go: "goes_on ?F k (unread c)" by (rule goes_on_prefix [OF k(3)])
  define n where "n = min (length (unread c)) (length ?F - k)"
  have n: "0 < n" "n \<le> length (unread c)" "k + n \<le> length ?F" using u k(2) by (auto simp: n_def)
  have step: "consume_one_frame c = and_then (amqp_handle_input (unread c)) (\<lambda>(res, decoded_frame).
      and_then (modify (advance res)) (\<lambda>_. ret decoded_frame)) c"
    by (simp add: consume_one_frame_def advance_def [abs_def])
  from reader_step [OF inv(1) k(1,2) heads frame_bytes_first [OF wf(1)] u go n_def] inv(2) obtain d where
    d: "conn_inv d" "input_step c d" "if k + n < length ?F
      then amqp_handle_input (unread c) c = (Ok (n, no_frame), d) \<and> reader_at ?F (k + n) d
      else in_body ?F (length ?F) d \<and> amqp_handle_input (unread c) c = handle_body n d"
    by auto
  have tail: "drop n (unread c) @ bs = drop (k + n) ?F @ wire fs"
    using arg_cong [OF k(3), of "drop n"] n by (simp add: add.commute)
  have taken: ?thesis if e: "amqp_handle_input (unread c) c = (Ok (n, g), e)" "conn_inv e" "input_step c e"
    and g: "k + n < length ?F \<and> g = no_frame \<and> reader_at ?F (k + n) e \<or>
      k + n = length ?F \<and> g = received (stale_properties c) f \<and> ready e" for e g
  proof -
    have eq: "buffer_ok e" "unread e = unread c" "granting e"
      using inv input_stepD [OF e(3)] by (simp_all add: buffer_ok_def unread_def granting_def)
    let ?e = "advance n e"
    have run: "consume_one_frame c = (Ok g, ?e)" using e(1) by (simp add: step and_then_Ok)
    have un: "unread ?e = drop n (unread c)" "buffer_ok ?e" using advance_unread [of e n] n eq by simp_all
    have w: "waits c ?e" using waits_trans [OF input_step_waits [OF e(3)] advance_waits] .
    have common: "conn_inv ?e" "granting ?e" using advance_inv [OF e(2)] eq by simp_all
    have less: "length (unread ?e) < length (unread c)" using un n by simp
    have q: "queued_frames ?e = queued_frames c" "conn.more ?e = conn.more c"
      using input_stepD [OF e(3)] input_step_more [OF e(3)] by simp_all
    show ?thesis
    proof (rule exI [of _ ?e], intro conjI w q less)
      from g show "consume_one_frame c = (Ok no_frame, ?e) \<and> awaiting ?e bs (f # fs) \<and> unread ?e = [] \<or>
          consume_one_frame c = (Ok (received (stale_properties c) f), ?e) \<and> awaiting ?e bs fs \<and>
            conn_state ?e = CONNECTION_STATE_IDLE"
      proof
        assume A: "k + n < length ?F \<and> g = no_frame \<and> reader_at ?F (k + n) e"
        then have "n = length (unread c)" by (auto simp: n_def)
        moreover have "awaiting ?e bs (f # fs)"
          using common un wf A tail by (auto simp: awaiting_def intro!: exI [of _ "k + n"])
        ultimately show ?thesis using run A un by simp
      next
        assume A: "k + n = length ?F \<and> g = received (stale_properties c) f \<and> ready e"
        then have "drop n (unread c) @ bs = wire fs" using tail by simp
        then have "awaiting ?e bs fs"
          using common un wf A ready_midway [of ?e]
          by (auto simp: awaiting_def reader_at_def split: list.split intro!: exI [of _ 0])
        then show ?thesis using run A by (simp add: ready_def)
      qed
    qed
  qed
  show ?thesis
  proof (cases "k + n < length ?F")
    case True
    with d show ?thesis by (intro taken [of no_frame d]) auto
  next
    case False
    then have kn: "k + n = length ?F" using n by simp
    have gd: "granting d" using inv(2) d(2) by (simp add: input_step_granting)
    from handle_body_run [OF d(1) gd _ refl wf(1), of n] d(3) False obtain e where
      e: "handle_body n d = (Ok (n, received (stale_properties d) f), e)" "conn_inv e" "ready e" "input_step d e" by auto
    have "stale_properties d = stale_properties c" by (rule input_stepD [OF d(2)])
    moreover have "input_step c e" using d(2) e(4) by (rule input_step_trans)
    ultimately show ?thesis using d(3) False e kn by (intro taken [of "received (stale_properties c) f" e]) auto
  qed
qed

section \<open>Reading what is in the buffer\<close>

abbreviation is_heartbeat :: "amqp_frame \<Rightarrow> bool" where
  "is_heartbeat f \<equiv> frame_type f = 8"

lemma frame_type_received [simp]: "frame_type (received block f) = frame_type f"
  by (simp add: received_def)

lemma wf_frame_type: "wf_frame f \<Longrightarrow> frame_type f \<noteq> 0"
  by (auto simp: wf_frame_def split: amqp_frame_payload.splits)

text \<open>It depends on the memory being well formed and on the fields of the reader only.\<close>

definition same_reader :: "'a conn_scheme \<Rightarrow> 'b conn_scheme \<Rightarrow> bool" where
  "same_reader c c' \<longleftrightarrow> grants c' = grants c \<and> stale c' = stale c \<and> conn_state c' = conn_state c \<and>
     header_buffer c' = header_buffer c \<and> inbound_buffer c' = inbound_buffer c \<and> inbound_offset c' = inbound_offset c \<and>
     target_size c' = target_size c \<and> sock_inbound_buffer c' = sock_inbound_buffer c \<and>
     sock_inbound_offset c' = sock_inbound_offset c \<and> sock_inbound_limit c' = sock_inbound_limit c"

lemma awaiting_same:
  assumes "awaiting c bs fs" and "same_reader c c'" and "conn_inv c'"
  shows "awaiting c' bs fs"
proof -
  have "reader_at F k c' = reader_at F k c" "ready c' = ready c" for F k
    using assms(2)
    by (simp_all add: same_reader_def reader_at_def midway_def in_header_def in_body_def starting_def ready_def)
  moreover have "unread c' = unread c" using assms(2) by (simp add: unread_def same_reader_def)
  ultimately show ?thesis using assms
    by (cases fs) (simp_all add: awaiting_def granting_def buffer_ok_def same_reader_def)
qed

lemma awaiting_only_memory: "awaiting c bs fs \<Longrightarrow> only_memory c c' \<Longrightarrow> conn_inv c' \<Longrightarrow> awaiting c' bs fs"
  by (erule awaiting_same) (simp_all add: same_reader_def only_memoryD)

lemma only_memory_more: "only_memory c c' \<Longrightarrow> conn.more c' = conn.more c"
  by (intro input_step_more only_memory_input_step)

lemma release_channel_run:
  assumes "conn_inv c"
  shows "\<exists>c'. amqp_maybe_release_buffers_on_channel ch c = (Ok (), c') \<and> conn_inv c' \<and> only_memory c c'"
proof (cases "conn_state c = CONNECTION_STATE_IDLE")
  case True
  from release_channels_run [OF assms True, of "[ch]"] obtain c' where
    c': "and_then (amqp_maybe_release_buffers_on_channel ch) (\<lambda>_. ret ()) c = (Ok (), c')" "conn_inv c'" "only_memory c c'"
    by auto
  from c'(1) have "amqp_maybe_release_buffers_on_channel ch c = (Ok (), c')"
    by (elim and_then_OkE) auto
  with c' show ?thesis by blast
next
  case False
  with assms show ?thesis by (simp add: amqp_maybe_release_buffers_on_channel_def and_then_Ok)
qed

text \<open>
  The loop drops the heartbeats it meets and stops at the first other frame that is complete, or when
  the buffer is empty.
\<close>

lemma read_buffered_run:
  assumes "awaiting c bs fs" and "ndebug P" and "length (unread c) < n"
  shows "\<exists>c' hs rest. waits c c' \<and> queued_frames c' = queued_frames c \<and> conn.more c' = conn.more c \<and>
    list_all is_heartbeat hs \<and> awaiting c' bs rest \<and>
    (fs = hs @ rest \<and> read_buffered n P c = (Ok None, c') \<and> unread c' = [] \<or>
     (\<exists>f. fs = hs @ f # rest \<and> \<not> is_heartbeat f \<and> read_buffered n P c = (Ok (Some (received (stale_properties c) f)), c') \<and>
       conn_state c' = CONNECTION_STATE_IDLE))"
  using assms
proof (induction n arbitrary: c fs)
  case 0
  then show ?case by simp
next
  case (Suc n)
  have buf: "buffer_ok c" using Suc.prems(1) by (simp add: awaiting_def)
  show ?case
  proof (cases "unread c = []")
    case True
    then have "read_buffered (Suc n) P c = (Ok None, c)" using data_in_buffer_unread [OF buf] by (simp add: and_then_Ok)
    with True Suc.prems(1) show ?thesis by (intro exI [of _ c] exI [of _ "[]"] exI [of _ fs]) simp
  next
    case False
    then have "fs \<noteq> []" using Suc.prems(1) by (auto simp: awaiting_def)
    then obtain f gs where fs: "fs = f # gs" by (cases fs) auto
    have wf: "wf_frame f" using Suc.prems(1) by (simp add: awaiting_def fs)
    have d: "amqp_data_in_buffer c" using False data_in_buffer_unread [OF buf] by simp
    from consume_run [OF Suc.prems(1) [unfolded fs] False] obtain c1 where
      1: "waits c c1" "queued_frames c1 = queued_frames c" "conn.more c1 = conn.more c"
      "length (unread c1) < length (unread c)"
      "consume_one_frame c = (Ok no_frame, c1) \<and> awaiting c1 bs (f # gs) \<and> unread c1 = [] \<or>
       consume_one_frame c = (Ok (received (stale_properties c) f), c1) \<and> awaiting c1 bs gs \<and>
         conn_state c1 = CONNECTION_STATE_IDLE"
      by blast
    from 1(5) show ?thesis
    proof
      assume A: "consume_one_frame c = (Ok no_frame, c1) \<and> awaiting c1 bs (f # gs) \<and> unread c1 = []"
      then have "read_buffered (Suc n) P c = read_buffered n P c1"
        using d Suc.prems(2) by (simp add: and_then_Ok no_frame_def)
      moreover have "read_buffered n P c1 = (Ok None, c1)"
        using A Suc.prems(3) False data_in_buffer_unread [of c1] by (cases n) (auto simp: and_then_Ok awaiting_def)
      ultimately show ?thesis using A 1 fs by (intro exI [of _ c1] exI [of _ "[]"] exI [of _ fs]) simp
    next
      assume A: "consume_one_frame c = (Ok (received (stale_properties c) f), c1) \<and> awaiting c1 bs gs \<and>
         conn_state c1 = CONNECTION_STATE_IDLE"
      show ?thesis
      proof (cases "is_heartbeat f")
        case False
        then have "read_buffered (Suc n) P c = (Ok (Some (received (stale_properties c) f)), c1)"
          using d A wf_frame_type [OF wf] by (simp add: and_then_Ok)
        with A 1 False fs show ?thesis by (intro exI [of _ c1] exI [of _ "[]"] exI [of _ gs]) simp
      next
        case True
        from A have "conn_inv c1" by (simp add: awaiting_def)
        from release_channel_run [OF this, of 0] obtain c2 where
          2: "amqp_maybe_release_buffers_on_channel 0 c1 = (Ok (), c2)" "conn_inv c2" "only_memory c1 c2" by blast
        have run: "read_buffered (Suc n) P c = read_buffered n P c2"
          using d A True 2(1) by (simp add: and_then_Ok)
        have aw: "awaiting c2 bs gs" using A 2 awaiting_only_memory by blast
        have un: "unread c2 = unread c1" "stale_properties c2 = stale_properties c"
          using only_memoryD [OF 2(3)] waitsD [OF 1(1)] by (simp_all add: unread_def)
        have lt: "length (unread c2) < n" using un 1(4) Suc.prems(3) by simp
        from Suc.IH [OF aw Suc.prems(2) lt] obtain c3 hs rest where
          3: "waits c2 c3" "queued_frames c3 = queued_frames c2" "conn.more c3 = conn.more c2" "list_all is_heartbeat hs"
          "awaiting c3 bs rest"
          "gs = hs @ rest \<and> read_buffered n P c2 = (Ok None, c3) \<and> unread c3 = [] \<or>
           (\<exists>g. gs = hs @ g # rest \<and> \<not> is_heartbeat g \<and> read_buffered n P c2 = (Ok (Some (received (stale_properties c2) g)), c3) \<and>
              conn_state c3 = CONNECTION_STATE_IDLE)"
          by blast
        have "waits c c3" using 1(1) only_memory_waits [OF 2(3)] 3(1) by (blast intro: waits_trans)
        moreover have "queued_frames c3 = queued_frames c" "conn.more c3 = conn.more c"
          using 1(2,3) 3(2,3) only_memoryD [OF 2(3)] only_memory_more [OF 2(3)] by simp_all
        ultimately show ?thesis
          using 3 run True fs un by (intro exI [of _ c3] exI [of _ "f # hs"] exI [of _ rest]) auto
      qed
    qed
  qed
qed

section \<open>Streams\<close>

text \<open>
  What is relied on of the socket a connection reads from: a byte stream.  \<open>coming\<close> is what the peer
  has sent or will send, as far as it has not been received, \<open>outgoing\<close> what the connection has sent;
  \<open>recv\<close> waits until there is something and returns a piece of it, of any size that fits, and touches
  nothing of the connection.
\<close>

locale byte_stream =
  fixes P :: "'a conn_scheme platform"
    and coming :: "'a \<Rightarrow> bytes"
    and outgoing :: "'a \<Rightarrow> bytes"
  assumes delivers: "0 < n \<Longrightarrow> coming (conn.more c) \<noteq> [] \<Longrightarrow>
    \<exists>bs m. amqp_socket_recv (socket P) n c = (Ok bs, c\<lparr>conn.more := m\<rparr>) \<and> bs \<noteq> [] \<and> length bs \<le> n \<and>
      coming (conn.more c) = bs @ coming m \<and> outgoing m = outgoing (conn.more c)"
begin

lemma recv_run:
  assumes c: "awaiting c (coming (conn.more c)) fs" "unread c = []" "fs \<noteq> []"
    and h: "\<not> amqp_heartbeat_enabled c" and b: "0 < length (sock_inbound_buffer c)"
  shows "\<exists>c'. recv_with_timeout n P start None c = (Ok (), c') \<and> waits c c' \<and> queued_frames c' = queued_frames c \<and>
    awaiting c' (coming (conn.more c')) fs \<and> unread c' \<noteq> [] \<and>
    length (unread c') + length (coming (conn.more c')) = length (coming (conn.more c)) \<and>
    outgoing (conn.more c') = outgoing (conn.more c)"
proof -
  have "coming (conn.more c) \<noteq> []" using c by (auto simp: awaiting_def split: list.splits)
  from delivers [OF b this] obtain bs m where m: "amqp_socket_recv (socket P) (length (sock_inbound_buffer c)) c =
      (Ok bs, c\<lparr>conn.more := m\<rparr>)" "bs \<noteq> []" "length bs \<le> length (sock_inbound_buffer c)"
    "coming (conn.more c) = bs @ coming m" "outgoing m = outgoing (conn.more c)" by blast
  let ?c = "c\<lparr>sock_inbound_buffer := splice (sock_inbound_buffer c) 0 bs, sock_inbound_limit := length bs,
    sock_inbound_offset := 0, conn.more := m\<rparr>"
  have run: "recv_with_timeout n P start None c = (Ok (), ?c)"
    using m(1,3) h by (simp add: recv_with_timeout_def and_then_Ok store_received_def amqp_heartbeat_enabled_def)
  have un: "unread ?c = bs" "buffer_ok ?c" using m(3) by (simp_all add: unread_def size_minus_def buffer_ok_def)
  have "conn_inv ?c" if "conn_inv c" by (rule conn_inv_same [OF that]) (simp_all add: conn_blocks_def)
  moreover have "reader_at F k ?c = reader_at F k c" for F k
    by (simp add: reader_at_def midway_def in_header_def in_body_def starting_def)
  ultimately have "awaiting ?c (coming m) fs"
    using c un m(4) by (auto simp: awaiting_def granting_def split: list.splits)
  moreover have "waits c ?c" using m(3) by (simp add: waits_def conn_blocks_def)
  ultimately show ?thesis using run un m by (intro exI [of _ ?c]) simp
qed

end

text \<open>Enough rounds for everything that is still to come.\<close>

definition enough :: "'a conn_scheme \<Rightarrow> bytes \<Rightarrow> nat" where
  "enough c bs = 2 * (length (unread c) + length bs) + 2"

lemma awaiting_total:
  assumes "awaiting c bs fs"
  shows "length (unread c) + length bs \<le> length (wire fs)"
    and "fs = g # gs \<Longrightarrow> length (wire gs) < length (unread c) + length bs"
proof -
  obtain k where "unread c @ bs = drop k (wire fs)" using assms by (cases fs) (auto simp: awaiting_def)
  then have "length (unread c @ bs) \<le> length (wire fs)" by simp
  then show "length (unread c) + length bs \<le> length (wire fs)" by simp
next
  assume fs: "fs = g # gs"
  then obtain k where "k < length (frame_bytes g)" "unread c @ bs = drop k (wire fs)"
    using assms by (auto simp: awaiting_def)
  then have "length (unread c @ bs) = length (frame_bytes g) - k + length (wire gs)" by (simp add: fs)
  with \<open>k < length (frame_bytes g)\<close> show "length (wire gs) < length (unread c) + length bs" by simp
qed

lemma awaiting_less:
  assumes "awaiting c bs (hs @ f # rest)" and "awaiting c' bs' rest"
  shows "length (unread c') + length bs' < length (unread c) + length bs"
proof -
  have "length (unread c') + length bs' \<le> length (wire rest)" by (rule awaiting_total [OF assms(2)])
  also have "\<dots> \<le> length (wire (tl (hs @ f # rest)))" by (cases hs) auto
  also have "\<dots> < length (unread c) + length bs"
    by (rule awaiting_total(2) [OF assms(1), of "hd (hs @ [f])"]) (cases hs, auto)
  finally show ?thesis .
qed

context byte_stream
begin

lemma wait_loop_run:
  assumes "awaiting c (coming (conn.more c)) fs" and "ndebug P" and "\<not> amqp_heartbeat_enabled c"
    and "0 < length (sock_inbound_buffer c)" and "\<not> list_all is_heartbeat fs" and "tvp w = None"
    and "length (unread c) + 2 * length (coming (conn.more c)) + 2 \<le> n"
  shows "\<exists>c' hs f rest. fs = hs @ f # rest \<and> list_all is_heartbeat hs \<and> \<not> is_heartbeat f \<and>
    wait_loop n P None False w c = (Ok (received (stale_properties c) f), c') \<and>
    awaiting c' (coming (conn.more c')) rest \<and> waits c c' \<and> queued_frames c' = queued_frames c \<and>
    conn_state c' = CONNECTION_STATE_IDLE \<and> outgoing (conn.more c') = outgoing (conn.more c)"
  using assms
proof (induction n arbitrary: c fs)
  case 0
  then show ?case by simp
next
  case (Suc n)
  have fuel: "length (unread c) < n" using Suc.prems(7) by simp
  from read_buffered_run [OF Suc.prems(1,2) fuel] obtain c1 hs rest where
    1: "waits c c1" "queued_frames c1 = queued_frames c" "conn.more c1 = conn.more c" "list_all is_heartbeat hs"
    "awaiting c1 (coming (conn.more c)) rest"
    "fs = hs @ rest \<and> read_buffered n P c = (Ok None, c1) \<and> unread c1 = [] \<or>
     (\<exists>f. fs = hs @ f # rest \<and> \<not> is_heartbeat f \<and> read_buffered n P c = (Ok (Some (received (stale_properties c) f)), c1) \<and>
       conn_state c1 = CONNECTION_STATE_IDLE)"
    by blast
  from 1(6) show ?case
  proof
    assume "\<exists>f. fs = hs @ f # rest \<and> \<not> is_heartbeat f \<and>
      read_buffered n P c = (Ok (Some (received (stale_properties c) f)), c1) \<and> conn_state c1 = CONNECTION_STATE_IDLE"
    then obtain f where "fs = hs @ f # rest" "\<not> is_heartbeat f"
      "read_buffered n P c = (Ok (Some (received (stale_properties c) f)), c1)" "conn_state c1 = CONNECTION_STATE_IDLE" by blast
    with 1 show ?thesis
      by (intro exI [of _ c1] exI [of _ hs] exI [of _ f] exI [of _ rest]) (simp add: and_then_Ok)
  next
    assume A: "fs = hs @ rest \<and> read_buffered n P c = (Ok None, c1) \<and> unread c1 = []"
    then have ne: "rest \<noteq> []" "\<not> list_all is_heartbeat rest" using Suc.prems(5) 1(4) by auto
    note w = waitsD [OF 1(1)]
    have hb: "\<not> amqp_heartbeat_enabled c1" and b: "0 < length (sock_inbound_buffer c1)"
      using Suc.prems(3,4) w by simp_all
    have aw: "awaiting c1 (coming (conn.more c1)) rest" using 1(3,5) by simp
    from recv_run [OF aw _ ne(1) hb b, of n "current_timestamp w"] A obtain c2 where
      2: "recv_with_timeout n P (current_timestamp w) None c1 = (Ok (), c2)" "waits c1 c2"
      "queued_frames c2 = queued_frames c1" "awaiting c2 (coming (conn.more c2)) rest" "unread c2 \<noteq> []"
      "length (unread c2) + length (coming (conn.more c2)) = length (coming (conn.more c1))"
      "outgoing (conn.more c2) = outgoing (conn.more c1)" by auto
    have run: "wait_loop (Suc n) P None False w c = wait_loop n P None False w c2"
      using A 2(1) hb Suc.prems(6)
      by (simp add: and_then_Ok prepare_wait_def attempt_def)
    have "0 < length (unread c2)" using 2(5) by simp
    then have "length (unread c2) + 2 * length (coming (conn.more c2)) + 2 \<le> n"
      using 2(6) [unfolded 1(3)] Suc.prems(7) by linarith
    moreover have "\<not> amqp_heartbeat_enabled c2" "0 < length (sock_inbound_buffer c2)"
      "stale_properties c2 = stale_properties c"
      using hb b waitsD [OF 2(2)] w by simp_all
    ultimately obtain c' hs' f rest' where
      3: "rest = hs' @ f # rest'" "list_all is_heartbeat hs'" "\<not> is_heartbeat f"
      "wait_loop n P None False w c2 = (Ok (received (stale_properties c) f), c')"
      "awaiting c' (coming (conn.more c')) rest'" "waits c2 c'" "queued_frames c' = queued_frames c2"
      "conn_state c' = CONNECTION_STATE_IDLE" "outgoing (conn.more c') = outgoing (conn.more c2)"
      using Suc.IH [OF 2(4) Suc.prems(2) _ _ ne(2) Suc.prems(6)] by auto
    have "waits c c'" using 1(1) 2(2) 3(6) by (blast intro: waits_trans)
    moreover have "fs = (hs @ hs') @ f # rest'" "list_all is_heartbeat (hs @ hs')" using A 3(1,2) 1(4) by simp_all
    ultimately show ?thesis using run 3 2(3,7) 1(2,3)
      by (intro exI [of _ c'] exI [of _ "hs @ hs'"] exI [of _ f] exI [of _ rest']) simp
  qed
qed

lemma wait_frame_run:
  assumes "awaiting c (coming (conn.more c)) fs" and "ndebug P" and "\<not> amqp_heartbeat_enabled c"
    and "0 < length (sock_inbound_buffer c)" and "\<not> list_all is_heartbeat fs"
    and "enough c (coming (conn.more c)) \<le> n"
  shows "\<exists>c' hs f rest. fs = hs @ f # rest \<and> list_all is_heartbeat hs \<and> \<not> is_heartbeat f \<and>
    wait_frame_inner n P None c = (Ok (received (stale_properties c) f), c') \<and>
    awaiting c' (coming (conn.more c')) rest \<and> waits c c' \<and> queued_frames c' = queued_frames c \<and>
    conn_state c' = CONNECTION_STATE_IDLE \<and> enough c' (coming (conn.more c')) < enough c (coming (conn.more c)) \<and>
    outgoing (conn.more c') = outgoing (conn.more c)"
proof -
  let ?w = "\<lparr>current_timestamp = 0, timeout_timestamp = 0, next_timestamp = 0, tvp = None\<rparr>"
  have "length (unread c) + 2 * length (coming (conn.more c)) + 2 \<le> n" using assms(6) by (simp add: enough_def)
  from wait_loop_run [where w = ?w, OF assms(1-5) _ this] obtain c' hs f rest where
    r: "fs = hs @ f # rest" "list_all is_heartbeat hs" "\<not> is_heartbeat f"
    "wait_loop n P None False ?w c = (Ok (received (stale_properties c) f), c')"
    "awaiting c' (coming (conn.more c')) rest" "waits c c'" "queued_frames c' = queued_frames c"
    "conn_state c' = CONNECTION_STATE_IDLE" "outgoing (conn.more c') = outgoing (conn.more c)" by auto
  have "enough c' (coming (conn.more c')) < enough c (coming (conn.more c))"
    using awaiting_less [OF assms(1) [unfolded r(1)] r(5)] by (simp add: enough_def)
  with r show ?thesis
    by (intro exI [of _ c'] exI [of _ hs] exI [of _ f] exI [of _ rest]) (simp add: wait_frame_inner_def)
qed

end

text \<open>Both directions: what is sent is taken whole and does not change what is to come.\<close>

locale duplex_stream = byte_stream P coming outgoing
  for P :: "'a conn_scheme platform" and coming :: "'a \<Rightarrow> bytes" and outgoing :: "'a \<Rightarrow> bytes" +
  assumes sends: "\<exists>m. amqp_socket_send (socket P) bs c = (Ok (), c\<lparr>conn.more := m\<rparr>) \<and>
      coming m = coming (conn.more c) \<and> outgoing m = outgoing (conn.more c) @ bs"
    and writes: "iov \<noteq> [] \<Longrightarrow> \<exists>m. amqp_socket_writev (socket P) iov c = (Ok (), c\<lparr>conn.more := m\<rparr>) \<and>
      coming m = coming (conn.more c) \<and> outgoing m = outgoing (conn.more c) @ concat iov"
begin

lemma hand_over_run:
  assumes "wf_frame f"
  shows "\<exists>m. hand_over P f c = (Ok (), c\<lparr>conn.more := m\<rparr>) \<and> coming m = coming (conn.more c) \<and>
    outgoing m = outgoing (conn.more c) @ frame_bytes f"
proof (cases "frame_type f = 3")
  case True
  have "frame_bytes f = take 7 (frame_bytes f) @ payload_bytes (frame_payload f) @ [0xCE]"
    by (simp add: frame_bytes_def frame_image_def)
  then show ?thesis
    using writes [of "[take 7 (frame_bytes f), payload_bytes (frame_payload f), [0xCE]]" c] True
    by (simp add: hand_over_def)
next
  case False
  then show ?thesis using sends [of "frame_bytes f" c] by (simp add: hand_over_def)
qed

lemma send_frame_sent:
  assumes c: "outbound_ok c" "\<not> amqp_heartbeat_enabled c" and f: "wf_frame f"
    and fits: "frame_type f = 3 \<or> length (frame_bytes f) \<le> outbound_len c"
  shows "\<exists>b m. amqp_send_frame P f c = (Ok (), c\<lparr>outbound_buffer := b, conn.more := m\<rparr>) \<and>
    length b = length (outbound_buffer c) \<and> coming m = coming (conn.more c) \<and>
    outgoing m = outgoing (conn.more c) @ frame_bytes f"
proof -
  obtain b where b: "length b = length (outbound_buffer c)"
    "amqp_send_frame P f c = and_then (attempt (hand_over P f)) (after_send P) (out_with c b)"
    using send_frame_run [OF c(1) f, of P] fits by auto
  obtain m where m: "hand_over P f (out_with c b) = (Ok (), (out_with c b)\<lparr>conn.more := m\<rparr>)"
    "coming m = coming (conn.more c)" "outgoing m = outgoing (conn.more c) @ frame_bytes f"
    using hand_over_run [OF f, of "out_with c b"] by (auto simp: out_with_def)
  have "amqp_send_frame P f c = (Ok (), c\<lparr>outbound_buffer := b, conn.more := m\<rparr>)"
    using b(2) m(1) c(2)
    by (simp add: attempt_def and_then_Ok after_send_def as_status_def out_with_def amqp_heartbeat_enabled_def)
  with b(1) m(2,3) show ?thesis by blast
qed

end

section \<open>The mailbox\<close>

text \<open>
  The abstract view of a connection that waits for frames: a queue of what is to be delivered, first the
  frames put aside, then those of the stream, without the heartbeats.
\<close>

definition mailbox :: "'a conn_scheme \<Rightarrow> amqp_frame list \<Rightarrow> amqp_frame list" where
  "mailbox c fs = queued_frames c @ map (received (stale_properties c)) (filter (\<lambda>f. \<not> is_heartbeat f) fs)"

lemma conn_inv_queue [simp]: "conn_inv (c\<lparr>queued_frames := q\<rparr>) = conn_inv c"
  using conn_inv_same [of c "c\<lparr>queued_frames := q\<rparr>"] conn_inv_same [of "c\<lparr>queued_frames := q\<rparr>" c]
  by (auto simp: conn_blocks_def)

lemma awaiting_queue [simp]: "awaiting (c\<lparr>queued_frames := q\<rparr>) bs fs = awaiting c bs fs"
proof
  assume *: "awaiting (c\<lparr>queued_frames := q\<rparr>) bs fs"
  then show "awaiting c bs fs" by (rule awaiting_same) (use * in \<open>simp_all add: same_reader_def awaiting_def\<close>)
next
  assume *: "awaiting c bs fs"
  then show "awaiting (c\<lparr>queued_frames := q\<rparr>) bs fs"
    by (rule awaiting_same) (use * in \<open>simp_all add: same_reader_def awaiting_def\<close>)
qed

lemma filter_heartbeats: "list_all is_heartbeat hs \<Longrightarrow> filter (\<lambda>f. \<not> is_heartbeat f) hs = []"
  by (simp add: filter_empty_conv list_all_iff)

text \<open>So many calls of \<^verbatim>\<open>amqp_simple_wait_frame\<close> in a row.\<close>

primrec wait_frames :: "nat \<Rightarrow> nat \<Rightarrow> 'a conn_scheme platform \<Rightarrow> ('a conn_scheme, amqp_frame list) cm" where
  "wait_frames 0 n P = ret []"
| "wait_frames (Suc k) n P = and_then (amqp_simple_wait_frame n P) (\<lambda>f.
     and_then (wait_frames k n P) (\<lambda>fs. ret (f # fs)))"

context byte_stream
begin

lemma simple_wait_frame_run:
  assumes a: "awaiting c (coming (conn.more c)) fs" and P: "ndebug P" and h: "\<not> amqp_heartbeat_enabled c"
    and b: "0 < length (sock_inbound_buffer c)" and m: "mailbox c fs = f # rest"
    and n: "enough c (coming (conn.more c)) \<le> n"
  shows "\<exists>c' fs'. amqp_simple_wait_frame n P c = (Ok f, c') \<and> awaiting c' (coming (conn.more c')) fs' \<and>
    mailbox c' fs' = rest \<and> waits c c' \<and> enough c' (coming (conn.more c')) \<le> enough c (coming (conn.more c)) \<and>
    outgoing (conn.more c') = outgoing (conn.more c)"
proof (cases "queued_frames c")
  case (Cons g gs)
  let ?c = "c\<lparr>queued_frames := gs\<rparr>"
  have "amqp_simple_wait_frame n P c = (Ok f, ?c)"
    using m Cons by (simp add: amqp_simple_wait_frame_def amqp_simple_wait_frame_noblock_def mailbox_def and_then_Ok)
  moreover have "mailbox ?c fs = rest" using m Cons by (simp add: mailbox_def)
  moreover have "waits c ?c" by (simp add: waits_def conn_blocks_def)
  moreover have "enough ?c bs = enough c bs" for bs by (simp add: enough_def unread_def)
  ultimately show ?thesis using a by (intro exI [of _ ?c] exI [of _ fs]) simp
next
  case Nil
  then have "\<not> list_all is_heartbeat fs" using m filter_heartbeats [of fs] by (auto simp: mailbox_def)
  from wait_frame_run [OF a P h b this n] obtain c' hs g rest' where
    r: "fs = hs @ g # rest'" "list_all is_heartbeat hs" "\<not> is_heartbeat g"
    "wait_frame_inner n P None c = (Ok (received (stale_properties c) g), c')"
    "awaiting c' (coming (conn.more c')) rest'" "waits c c'" "queued_frames c' = queued_frames c"
    "conn_state c' = CONNECTION_STATE_IDLE" "enough c' (coming (conn.more c')) < enough c (coming (conn.more c))"
    "outgoing (conn.more c') = outgoing (conn.more c)" by blast
  have "amqp_simple_wait_frame n P c = (Ok (received (stale_properties c) g), c')"
    using Nil r(4) by (simp add: amqp_simple_wait_frame_def amqp_simple_wait_frame_noblock_def and_then_Ok)
  moreover have "f = received (stale_properties c) g \<and> mailbox c' rest' = rest"
    using m Nil r(1,3,7) filter_heartbeats [OF r(2)] waitsD(8) [OF r(6)] by (simp add: mailbox_def)
  ultimately show ?thesis using r by (intro exI [of _ c'] exI [of _ rest']) simp
qed

lemma wait_frames_run:
  assumes "awaiting c (coming (conn.more c)) fs" and "ndebug P" and "\<not> amqp_heartbeat_enabled c"
    and "0 < length (sock_inbound_buffer c)" and "k \<le> length (mailbox c fs)"
    and "enough c (coming (conn.more c)) \<le> n"
  shows "\<exists>c' fs'. wait_frames k n P c = (Ok (take k (mailbox c fs)), c') \<and>
    awaiting c' (coming (conn.more c')) fs' \<and> mailbox c' fs' = drop k (mailbox c fs) \<and> waits c c'"
  using assms
proof (induction k arbitrary: c fs)
  case 0
  then show ?case by (intro exI [of _ c] exI [of _ fs]) simp
next
  case (Suc k)
  then obtain f rest where m: "mailbox c fs = f # rest" by (cases "mailbox c fs") auto
  from simple_wait_frame_run [OF Suc.prems(1-4) m Suc.prems(6)] obtain c1 fs1 where
    1: "amqp_simple_wait_frame n P c = (Ok f, c1)" "awaiting c1 (coming (conn.more c1)) fs1" "mailbox c1 fs1 = rest"
    "waits c c1" "enough c1 (coming (conn.more c1)) \<le> enough c (coming (conn.more c))" by blast
  have "k \<le> length (mailbox c1 fs1)" "enough c1 (coming (conn.more c1)) \<le> n"
    using Suc.prems(5,6) m 1(3,5) by simp_all
  moreover have "\<not> amqp_heartbeat_enabled c1" "0 < length (sock_inbound_buffer c1)"
    using Suc.prems(3,4) waitsD [OF 1(4)] by simp_all
  ultimately obtain c2 fs2 where
    "wait_frames k n P c1 = (Ok (take k rest), c2)" "awaiting c2 (coming (conn.more c2)) fs2"
    "mailbox c2 fs2 = drop k rest" "waits c1 c2"
    using Suc.IH [OF 1(2) Suc.prems(2)] 1(3) by metis
  with 1 m show ?case
    by (intro exI [of _ c2] exI [of _ fs2]) (auto simp: and_then_Ok intro: waits_trans)
qed

end

section \<open>A scripted stream\<close>

text \<open>A connection with a script of what is to arrive, in pieces of a given size, and a record of what is sent.\<close>

record stream = conn +
  arriving :: bytes
  piece :: nat
  written :: bytes

definition script_recv :: "nat \<Rightarrow> (stream, bytes) cm" where
  "script_recv n = (\<lambda>s. let k = min n (Suc (piece s)) in
     if arriving s = [] then (Err AMQP_STATUS_CONNECTION_CLOSED, s)
     else (Ok (take k (arriving s)), s\<lparr>arriving := drop k (arriving s)\<rparr>))"

definition script_write :: "bytes \<Rightarrow> (stream, unit) cm" where
  "script_write bs = modify (\<lambda>s. s\<lparr>written := written s @ bs\<rparr>)"

definition scripted :: "stream platform" where
  "scripted = \<lparr>socket = Some
     \<lparr>klass_writev = (\<lambda>iov. script_write (concat iov)), klass_send = script_write, klass_recv = script_recv,
      klass_open = (\<lambda>_ _. ret 0), klass_close = ret (), klass_get_sockfd = ret 5, klass_delete = ret ()\<rparr>,
    clock_gettime = ret (Some (1, 0)), os_select = (\<lambda>_ tv. ret (1, False, tv)), ndebug = True\<rparr>"

definition script_coming :: "\<lparr>arriving :: bytes, piece :: nat, written :: bytes\<rparr> \<Rightarrow> bytes" where
  "script_coming m = stream.arriving (conn.extend sample_conn m)"

definition script_written :: "\<lparr>arriving :: bytes, piece :: nat, written :: bytes\<rparr> \<Rightarrow> bytes" where
  "script_written m = stream.written (conn.extend sample_conn m)"

section \<open>Putting frames aside\<close>

lemma enqueue_run:
  assumes c: "conn_inv c" "granting c"
  shows "\<exists>c'. enqueue_frame f c = (Ok (), c'\<lparr>queued_frames := queued_frames c @ [f]\<rparr>) \<and> conn_inv c' \<and> only_memory c c'"
proof -
  let ?ch = "frame_channel f"
  obtain c1 where 1: "amqp_get_or_create_channel_pool ?ch c = (Ok (Some ()), c1)" "conn_inv c1" "only_memory c c1"
    "find_pool (pool_table c1) ?ch \<noteq> None"
    using get_or_create_run [OF c(1), of ?ch] c(2) unfolding granting_def by metis
  have "0 < sizeof_frame" "0 < sizeof_link" by (simp_all add: sizeof_frame_def sizeof_link_def)
  moreover have g1: "granting c1" using c(2) only_memoryD(1) [OF 1(3)] by (simp add: granting_def)
  ultimately obtain r c2 where 2: "on_pool ?ch (amqp_pool_alloc sizeof_frame) c1 = (Ok r, c2)" "conn_inv c2"
    "only_memory c1 c2" "find_pool (pool_table c2) ?ch \<noteq> None" "r \<noteq> None"
    using pool_alloc_outcome [OF 1(2,4)] by metis
  have "granting c2" using g1 only_memoryD(1) [OF 2(3)] by (simp add: granting_def)
  with \<open>0 < sizeof_link\<close> obtain q c3 where 3: "on_pool ?ch (amqp_pool_alloc sizeof_link) c2 = (Ok q, c3)" "conn_inv c3"
    "only_memory c2 c3" "q \<noteq> None"
    using pool_alloc_outcome [OF 2(2,4)] by metis
  have om: "only_memory c c3" using 1(3) 2(3) 3(3) by (blast intro: only_memory_trans)
  have "enqueue_frame f c = (Ok (), c3\<lparr>queued_frames := queued_frames c3 @ [f]\<rparr>)"
    using 1(1) 2(1,5) 3(1,4) by (simp add: enqueue_frame_def and_then_Ok or_return_Some)
  with om 3(2) show ?thesis using only_memoryD(12) [OF om] by (intro exI [of _ c3]) simp
qed

lemma queue_buffered_run:
  assumes "awaiting c bs fs" and "length (unread c) < n"
  shows "\<exists>c' whole rest. fs = whole @ rest \<and> queue_buffered n c = (Ok (), c') \<and> awaiting c' bs rest \<and> unread c' = [] \<and>
    queued_frames c' = queued_frames c @ map (received (stale_properties c)) whole \<and> waits c c' \<and>
    conn.more c' = conn.more c"
  using assms
proof (induction n arbitrary: c fs)
  case 0
  then show ?case by simp
next
  case (Suc n)
  have buf: "buffer_ok c" using Suc.prems(1) by (simp add: awaiting_def)
  show ?case
  proof (cases "unread c = []")
    case True
    then have "queue_buffered (Suc n) c = (Ok (), c)" using data_in_buffer_unread [OF buf] by (simp add: and_then_Ok)
    with True Suc.prems(1) show ?thesis by (intro exI [of _ c] exI [of _ "[]"] exI [of _ fs]) simp
  next
    case False
    then have "fs \<noteq> []" using Suc.prems(1) by (auto simp: awaiting_def)
    then obtain f gs where fs: "fs = f # gs" by (cases fs) auto
    have wf: "wf_frame f" using Suc.prems(1) by (simp add: awaiting_def fs)
    have d: "amqp_data_in_buffer c" using False data_in_buffer_unread [OF buf] by simp
    from consume_run [OF Suc.prems(1) [unfolded fs] False] obtain c1 where
      1: "waits c c1" "queued_frames c1 = queued_frames c" "conn.more c1 = conn.more c"
      "length (unread c1) < length (unread c)"
      "consume_one_frame c = (Ok no_frame, c1) \<and> awaiting c1 bs (f # gs) \<and> unread c1 = [] \<or>
       consume_one_frame c = (Ok (received (stale_properties c) f), c1) \<and> awaiting c1 bs gs \<and>
         conn_state c1 = CONNECTION_STATE_IDLE"
      by blast
    from 1(5) show ?thesis
    proof
      assume A: "consume_one_frame c = (Ok no_frame, c1) \<and> awaiting c1 bs (f # gs) \<and> unread c1 = []"
      then have "queue_buffered (Suc n) c = queue_buffered n c1"
        using d by (simp add: and_then_Ok no_frame_def)
      moreover have "queue_buffered n c1 = (Ok (), c1)"
        using A Suc.prems(2) False data_in_buffer_unread [of c1] by (cases n) (auto simp: and_then_Ok awaiting_def)
      ultimately show ?thesis using A 1 fs by (intro exI [of _ c1] exI [of _ "[]"] exI [of _ fs]) simp
    next
      assume A: "consume_one_frame c = (Ok (received (stale_properties c) f), c1) \<and> awaiting c1 bs gs \<and>
         conn_state c1 = CONNECTION_STATE_IDLE"
      then have A': "awaiting c1 bs gs" by blast
      let ?f = "received (stale_properties c) f"
      from A' have "conn_inv c1" "granting c1" by (simp_all add: awaiting_def)
      from enqueue_run [OF this, of ?f] obtain e where
        e: "enqueue_frame ?f c1 = (Ok (), e\<lparr>queued_frames := queued_frames c1 @ [?f]\<rparr>)" "conn_inv e" "only_memory c1 e"
        by blast
      let ?c2 = "e\<lparr>queued_frames := queued_frames c1 @ [?f]\<rparr>"
      have run: "queue_buffered (Suc n) c = queue_buffered n ?c2"
        using d A e(1) wf_frame_type [OF wf] by (simp add: and_then_Ok)
      have aw: "awaiting ?c2 bs gs" using awaiting_only_memory [OF A' e(3,2)] by simp
      have un: "unread ?c2 = unread c1" "stale_properties ?c2 = stale_properties c" "conn.more ?c2 = conn.more c"
        using only_memoryD [OF e(3)] only_memory_more [OF e(3)] waitsD [OF 1(1)] 1(3) by (simp_all add: unread_def)
      have lt: "length (unread ?c2) < n" using un 1(4) Suc.prems(2) by simp
      from Suc.IH [OF aw lt] obtain c3 whole rest where
        3: "gs = whole @ rest" "queue_buffered n ?c2 = (Ok (), c3)" "awaiting c3 bs rest" "unread c3 = []"
        "queued_frames c3 = queued_frames ?c2 @ map (received (stale_properties ?c2)) whole" "waits ?c2 c3"
        "conn.more c3 = conn.more ?c2"
        by blast
      have "waits e ?c2" by (simp add: waits_def conn_blocks_def)
      then have "waits c c3" using 1(1) only_memory_waits [OF e(3)] 3(6) by (blast intro: waits_trans)
      then show ?thesis
        using 3 run fs un 1(2) by (intro exI [of _ c3] exI [of _ "f # whole"] exI [of _ rest]) simp
    qed
  qed
qed

lemma script_coming_more [simp]: "script_coming (conn.more c) = arriving c"
  by (cases c) (simp add: script_coming_def conn.defs sample_conn_def zeroed_def heap.defs)

lemma script_written_more [simp]: "script_written (conn.more c) = written c"
  by (cases c) (simp add: script_written_def conn.defs sample_conn_def zeroed_def heap.defs)

lemma script_write_run:
  "\<exists>m. script_write bs c = (Ok (), c\<lparr>conn.more := m\<rparr>) \<and> script_coming m = script_coming (conn.more c) \<and>
    script_written m = script_written (conn.more c) @ bs"
proof -
  let ?d = "c\<lparr>written := written c @ bs\<rparr>"
  have "c\<lparr>conn.more := conn.more ?d\<rparr> = ?d" by (cases c) simp
  moreover have "script_write bs c = (Ok (), ?d)" by (simp add: script_write_def)
  ultimately have "script_write bs c = (Ok (), c\<lparr>conn.more := conn.more ?d\<rparr>)" by (simp only:)
  moreover have "script_coming (conn.more ?d) = script_coming (conn.more c)"
    "script_written (conn.more ?d) = script_written (conn.more c) @ bs" by simp_all
  ultimately show ?thesis by blast
qed

interpretation script: duplex_stream scripted script_coming script_written
proof
  fix n :: nat and c :: stream
  assume n: "0 < n" and c: "script_coming (conn.more c) \<noteq> []"
  let ?k = "min n (Suc (piece c))"
  let ?d = "c\<lparr>arriving := drop ?k (arriving c)\<rparr>"
  have "c\<lparr>conn.more := conn.more ?d\<rparr> = ?d" by (cases c) simp
  moreover have "amqp_socket_recv (socket scripted) n c = (Ok (take ?k (arriving c)), ?d)"
    using c by (simp add: amqp_socket_recv_def scripted_def script_recv_def Let_def)
  ultimately have "amqp_socket_recv (socket scripted) n c = (Ok (take ?k (arriving c)), c\<lparr>conn.more := conn.more ?d\<rparr>)"
    by (simp only:)
  moreover have "take ?k (arriving c) \<noteq> []" "length (take ?k (arriving c)) \<le> n"
    using c n by (cases "arriving c"; simp add: min_def)+
  moreover have "script_coming (conn.more c) = take ?k (arriving c) @ script_coming (conn.more ?d)"
    "script_written (conn.more ?d) = script_written (conn.more c)" by simp_all
  ultimately show "\<exists>bs m. amqp_socket_recv (socket scripted) n c = (Ok bs, c\<lparr>conn.more := m\<rparr>) \<and> bs \<noteq> [] \<and>
      length bs \<le> n \<and> script_coming (conn.more c) = bs @ script_coming m \<and>
      script_written m = script_written (conn.more c)"
    by (intro exI conjI)
next
  fix bs and c :: stream
  show "\<exists>m. amqp_socket_send (socket scripted) bs c = (Ok (), c\<lparr>conn.more := m\<rparr>) \<and>
      script_coming m = script_coming (conn.more c) \<and> script_written m = script_written (conn.more c) @ bs"
    using script_write_run [of bs c] by (simp add: amqp_socket_send_def scripted_def)
next
  fix iov :: "bytes list" and c :: stream
  show "\<exists>m. amqp_socket_writev (socket scripted) iov c = (Ok (), c\<lparr>conn.more := m\<rparr>) \<and>
      script_coming m = script_coming (conn.more c) \<and> script_written m = script_written (conn.more c) @ concat iov"
    using script_write_run [of "concat iov" c] by (simp add: amqp_socket_writev_def scripted_def)
qed

section \<open>Properties\<close>

lemma sample_conn_socket [simp]:
  "sock_inbound_offset sample_conn = 0" "length (sock_inbound_buffer sample_conn) = 64" "heartbeat sample_conn = 0"
  "stale sample_conn = (\<lambda>_. 0)"
  by (simp_all add: sample_conn_def zeroed_def heap.defs)

lemma heartbeat_bytes: "frame_bytes heartbeat_frame = [8, 0, 0, 0, 0, 0, 0, 0xCE]"
  by (simp add: heartbeat_frame_def frame_bytes_def frame_image_def payload_bytes_def be8_def be16_def be32_def)

lemma sample_frame_eighth: "frame_bytes sample_frame ! 7 = 0"
  by (simp add: sample_frame_def frame_bytes_def frame_image_def payload_bytes_def be8_def be16_def be32_def
      AMQP_BASIC_ACK_METHOD_def)

definition sample_stream :: stream where
  "sample_stream = conn.extend initial_conn \<lparr>arriving = wire [sample_frame, heartbeat_frame, sample_frame], piece = 4, written = []\<rparr>"

lemma heartbeat_frame_wf [simp]: "wf_frame heartbeat_frame"
  by (simp add: wf_frame_def heartbeat_frame_def frame_bytes_def payload_bytes_def)

lemma sample_stream_simps [simp]:
  "arriving sample_stream = wire [sample_frame, heartbeat_frame, sample_frame]" "\<not> amqp_heartbeat_enabled sample_stream"
  "length (sock_inbound_buffer sample_stream) = 64" "unread sample_stream = []" "queued_frames sample_stream = []"
  "granting sample_stream" "buffer_ok sample_stream" "stale sample_stream = (\<lambda>_. 0)" "outbound_len sample_stream = 64"
  "outbound_ok sample_stream"
  by (simp_all add: sample_stream_def conn.defs amqp_heartbeat_enabled_def unread_def slice_def granting_def buffer_ok_def
      outbound_ok_def initial_conn_def, simp_all add: sample_conn_def zeroed_def heap.defs size_minus_def)

lemma sample_stream_inv [simp]: "conn_inv sample_stream"
proof -
  have "conn_inv initial_conn" by simp
  then show ?thesis
    by (simp add: conn_inv_def sample_stream_def conn.defs heap_fresh_def conn_blocks_def)
qed

lemma sample_stream_starting: "frame_bytes f ! 7 = 0 \<Longrightarrow> starting (frame_bytes f) 0 sample_stream"
  by (simp add: starting_def) (simp add: sample_stream_def conn.defs)



text \<open>
  Where assertions are compiled in, a frame that does not arrive in one piece ends the program.  The
  assertion at the end of the loop of \<^verbatim>\<open>wait_frame_inner\<close> is about the status of \<^verbatim>\<open>consume_one_frame\<close>,
  which is 0 when the frame goes on.
\<close>

theorem incomplete_frame_fails_assertion:
  assumes "awaiting c bs [f]" and "unread c \<noteq> []" and "bs \<noteq> []" and "\<not> ndebug P"
  shows "\<exists>c'. wait_frame_inner (Suc (Suc n)) P None c = (Abort, c')"
proof -
  have d: "amqp_data_in_buffer c" using assms(1,2) data_in_buffer_unread [of c] by (simp add: awaiting_def)
  from consume_run [OF assms(1,2)] obtain c' where
    "consume_one_frame c = (Ok no_frame, c') \<or> awaiting c' bs []" by blast
  then have "consume_one_frame c = (Ok no_frame, c')" using assms(3) by (simp add: awaiting_def)
  then have "read_buffered (Suc n) P c = (Abort, c')"
    using d assms(4) by (simp add: and_then_Ok no_frame_def)
  then show ?thesis by (simp add: wait_frame_inner_def run_and_then)
qed

definition cut_conn :: conn where
  "cut_conn = sample_conn\<lparr>sock_inbound_buffer := take 10 (frame_bytes sample_frame) @ replicate 54 0, sock_inbound_limit := 10\<rparr>"

lemma cut_conn_awaiting: "awaiting cut_conn (drop 10 (frame_bytes sample_frame)) [sample_frame]"
proof (rule awaiting_start)
  show "conn_inv cut_conn" by (rule conn_inv_same [OF sample_conn_inv]) (simp_all add: cut_conn_def conn_blocks_def)
  have "ready cut_conn" using sample_conn_ready(1) by (simp add: ready_def cut_conn_def)
  then show "reader_at (frame_bytes sample_frame) 0 cut_conn" by (simp add: reader_at_def ready_midway)
qed (simp_all add: cut_conn_def granting_def buffer_ok_def unread_def slice_def sample_frame_length size_minus_def)

theorem incomplete_frame_fails_assertion_witness:
  "\<exists>c'. wait_frame_inner (Suc (Suc 3)) no_platform None cut_conn = (Abort, c')"
proof (rule incomplete_frame_fails_assertion [OF cut_conn_awaiting])
  show "unread cut_conn \<noteq> []"
    using sample_frame_length by (simp add: cut_conn_def unread_def slice_def size_minus_def)
qed (simp_all add: no_platform_def sample_frame_length)

text \<open>
  \<^verbatim>\<open>amqp_try_recv\<close> puts every complete frame in the buffer at the end of the queue, in order, heartbeats
  included, and \<^verbatim>\<open>amqp_simple_wait_frame\<close> hands out what is queued as it is: a heartbeat that arrives while
  a message is published is delivered to the application, where one that arrives during a wait is not.
\<close>

theorem queued_heartbeat_is_delivered:
  assumes "awaiting c bs (h # fs)" and "is_heartbeat h" and "length bs \<le> length (wire fs)" and "queued_frames c = []"
    and "length (unread c) < n"
  shows "\<exists>c' c'' f. queue_buffered n c = (Ok (), c') \<and> amqp_simple_wait_frame m P c' = (Ok f, c'') \<and> is_heartbeat f"
proof -
  from queue_buffered_run [OF assms(1,5)] obtain c' whole rest where
    r: "h # fs = whole @ rest" "queue_buffered n c = (Ok (), c')" "awaiting c' bs rest" "unread c' = []"
    "queued_frames c' = map (received (stale_properties c)) whole"
    using assms(4) by auto
  have "whole \<noteq> []"
  proof
    assume "whole = []"
    then have "rest = h # fs" using r(1) by simp
    with awaiting_total(2) [OF r(3), of h fs] r(4) assms(3) show False by simp
  qed
  then obtain gs where "whole = h # gs" using r(1) by (cases whole) auto
  then have "amqp_simple_wait_frame m P c' =
      (Ok (received (stale_properties c) h), c'\<lparr>queued_frames := map (received (stale_properties c)) gs\<rparr>)"
    using r(5) by (simp add: amqp_simple_wait_frame_def amqp_simple_wait_frame_noblock_def and_then_Ok)
  with r(2) assms(2) show ?thesis
    by (intro exI [of _ c'] exI [of _ "c'\<lparr>queued_frames := map (received (stale_properties c)) gs\<rparr>"]
      exI [of _ "received (stale_properties c) h"]) simp
qed

definition beating_conn :: conn where
  "beating_conn = sample_conn\<lparr>sock_inbound_buffer := frame_bytes heartbeat_frame @ replicate 56 0, sock_inbound_limit := 8\<rparr>"

lemma beating_conn_unread: "unread beating_conn = frame_bytes heartbeat_frame"
  by (simp add: beating_conn_def unread_def slice_def heartbeat_bytes size_minus_def)

lemma beating_conn_awaiting: "awaiting beating_conn [] [heartbeat_frame]"
proof (rule awaiting_start)
  show "conn_inv beating_conn" by (rule conn_inv_same [OF sample_conn_inv]) (simp_all add: beating_conn_def conn_blocks_def)
  have "ready beating_conn" using sample_conn_ready(1) by (simp add: ready_def beating_conn_def)
  then show "reader_at (frame_bytes heartbeat_frame) 0 beating_conn" by (simp add: reader_at_def ready_midway)
qed (simp_all add: beating_conn_unread, simp_all add: beating_conn_def granting_def buffer_ok_def heartbeat_bytes)

theorem queued_heartbeat_is_delivered_witness:
  "\<exists>c' c'' f. queue_buffered 20 beating_conn = (Ok (), c') \<and> amqp_simple_wait_frame 3 no_platform c' = (Ok f, c'') \<and>
    is_heartbeat f"
  by (rule queued_heartbeat_is_delivered [OF beating_conn_awaiting])
    (simp_all add: beating_conn_unread heartbeat_bytes, simp_all add: heartbeat_frame_def beating_conn_def)

text \<open>The nanoseconds of a \<^verbatim>\<open>timeval\<close> made from nanoseconds are not more.\<close>

lemma unat_add_le: "unat (x + y) \<le> unat x + unat (y :: 'a::len word)"
  by (simp add: unat_word_ariths)

lemma unat_mult_le: "unat (x * y) \<le> unat x * unat (y :: 'a::len word)"
  by (simp add: unat_word_ariths)

lemma long_range_positive: "0 \<le> i \<Longrightarrow> i < 2 ^ 63 \<Longrightarrow> long_range i"
  unfolding long_range_def by linarith

lemma nanoseconds_timeval_of:
  assumes "unat r < 2 ^ 63"
  shows "\<exists>t. nanoseconds start (timeval_of r) = ret t \<and> unat t \<le> unat start + unat r"
proof -
  define x where "x = r div AMQP_NS_PER_S"
  define y where "y = (r mod AMQP_NS_PER_S) div AMQP_NS_PER_US"
  have x: "unat x = unat r div 1000000000" and y: "unat y = (unat r mod 1000000000) div 1000"
    by (simp_all add: x_def y_def unat_div unat_mod AMQP_NS_PER_S_def AMQP_NS_PER_US_def)
  have "unat y * 1000 \<le> unat r mod 1000000000" unfolding y by (rule div_times_less_eq_dividend)
  moreover have "unat r div 1000000000 * 1000000000 + unat r mod 1000000000 = unat r" by (rule div_mult_mod_eq)
  ultimately have le: "unat x * 1000000000 + unat y * 1000 \<le> unat r" unfolding x by linarith
  have "unat r < 9223372036854775808" using assms by simp
  with le have "int (unat x) * 1000000000 < 9223372036854775808" "int (unat y) * 1000 < 9223372036854775808" by linarith+
  then have range: "long_range (uint x * 1000000000)" "long_range (uint y * 1000)"
    by (intro long_range_positive; simp)+
  let ?t = "start + x * AMQP_NS_PER_S + y * AMQP_NS_PER_US"
  have "nanoseconds start (timeval_of r) = ret ?t"
    using range by (simp add: nanoseconds_def timeval_of_def x_def y_def)
  moreover have "unat ?t \<le> unat start + unat x * 1000000000 + unat y * 1000"
    using unat_add_le [of "start + x * AMQP_NS_PER_S" "y * AMQP_NS_PER_US"] unat_add_le [of start "x * AMQP_NS_PER_S"]
      unat_mult_le [of x AMQP_NS_PER_S] unat_mult_le [of y AMQP_NS_PER_US]
    by (simp add: AMQP_NS_PER_S_def AMQP_NS_PER_US_def)
  ultimately show ?thesis using le by (intro exI [of _ ?t]) simp
qed

text \<open>
  A signal in the second half of a wait ends it.  \<^verbatim>\<open>recv_with_timeout\<close> adds what \<^verbatim>\<open>select\<close> leaves in
  the timeout, on Linux the time not slept, to the time at which the wait began: when less than half of
  the wait remains the sum is in the past, and the result is \<^verbatim>\<open>AMQP_STATUS_TIMEOUT\<close> though there is
  time left.
\<close>

theorem interrupted_wait_ends_early:
  assumes "amqp_get_sockfd P c = (Ok fd, c1)" and "0 \<le> fd" and "fd < FD_SETSIZE"
    and "os_select P fd tv c1 = (Ok (- 1, True, timeval_of remaining), c2)"
    and "amqp_get_monotonic_timestamp P c2 = (Ok (start + elapsed), c3)"
    and "unat start + unat elapsed < 2 ^ 64" and "0 < remaining" and "remaining < elapsed" and "unat remaining < 2 ^ 63"
  shows "recv_with_timeout (Suc n) P start (Some tv) c = (Err AMQP_STATUS_TIMEOUT, c3)"
proof -
  obtain t where t: "nanoseconds start (timeval_of remaining) = (ret t :: ('a conn_scheme, u64) cm)"
    "unat t \<le> unat start + unat remaining"
    using nanoseconds_timeval_of [OF assms(9)] by blast
  have "unat remaining < unat elapsed" using assms(8) by (simp add: word_less_nat_alt)
  moreover have now: "unat (start + elapsed) = unat start + unat elapsed"
    using assms(6) by (simp add: unat_word_ariths)
  ultimately have late: "t < start + elapsed" using t(2) by (simp add: word_less_nat_alt)
  then have "start + elapsed \<noteq> 0" by auto
  moreover have "fd \<noteq> - 1" using assms(2) by simp
  ultimately show ?thesis
    using assms(1-5) t(1) late by (simp add: recv_with_timeout_def and_then_Ok and_then_Err)
qed

definition interrupting :: "conn platform" where
  "interrupting = \<lparr>socket = Some
     \<lparr>klass_writev = (\<lambda>_. ret ()), klass_send = (\<lambda>_. ret ()), klass_recv = (\<lambda>_. raise AMQP_STATUS_CONNECTION_CLOSED),
      klass_open = (\<lambda>_ _. ret 0), klass_close = ret (), klass_get_sockfd = ret 5, klass_delete = ret ()\<rparr>,
    clock_gettime = ret (Some (17, 0)), os_select = (\<lambda>_ _. ret (- 1, True, timeval_of 3000000000)), ndebug = True\<rparr>"

theorem interrupted_wait_ends_early_witness:
  "recv_with_timeout (Suc 0) interrupting 10000000000 (Some \<lparr>tv_sec = 10, tv_usec = 0\<rparr>) sample_conn =
    (Err AMQP_STATUS_TIMEOUT, sample_conn)"
  by (rule interrupted_wait_ends_early [where fd = 5 and remaining = 3000000000 and elapsed = 7000000000])
    (simp_all add: interrupting_def amqp_get_sockfd_def amqp_socket_get_sockfd_def FD_SETSIZE_def
      amqp_get_monotonic_timestamp_def timestamp_of_def AMQP_NS_PER_S_def and_then_Ok)

end
