(* ===== verification/Rpc.thy ===== *)
theory Rpc
  imports Wait
begin

text \<open>
  Methods, remote calls and login: the rest of \<^verbatim>\<open>amqp_socket.c\<close>.  A call sends a method and waits for
  one of the expected replies; every other frame that arrives in between is put on the queue.  Login is
  the dialogue that opens a connection: protocol header, start, tune, open.

  A function of the library that returns an \<^verbatim>\<open>amqp_rpc_reply_t\<close> does not fail, it reports the failure
  in its result; \<open>catching\<close> is the place where a status becomes part of a value.
\<close>

unbundle bit_operations_syntax

section \<open>Methods\<close>

definition amqp_send_method ::
    "'a conn_scheme platform \<Rightarrow> u16 \<Rightarrow> u32 \<Rightarrow> amqp_method_struct option \<Rightarrow> ('a conn_scheme, unit) cm" where
  "amqp_send_method P channel method_id decoded = amqp_send_frame P
     \<lparr>frame_type = AMQP_FRAME_METHOD8, frame_channel = channel, frame_payload = Method_payload method_id decoded\<rparr>"

text \<open>\<^verbatim>\<open>frame.payload.method\<close> of a frame of another type is not looked at in the C code.\<close>

definition frame_method :: "amqp_frame \<Rightarrow> ('s, u32 \<times> amqp_method_struct option) cm" where
  "frame_method frame = (case frame_payload frame of
     Method_payload method_id decoded \<Rightarrow> ret (method_id, decoded) | _ \<Rightarrow> undef)"

definition wrong_method :: "'a conn_scheme platform \<Rightarrow> ('a conn_scheme, 'b) cm" where
  "wrong_method P = and_then (attempt (amqp_socket_close (socket P))) (\<lambda>_. raise AMQP_STATUS_WRONG_METHOD)"

definition amqp_simple_wait_method ::
    "nat \<Rightarrow> 'a conn_scheme platform \<Rightarrow> u16 \<Rightarrow> u32 \<Rightarrow> ('a conn_scheme, u32 \<times> amqp_method_struct option) cm" where
  "amqp_simple_wait_method n P expected_channel expected_method =
     and_then (amqp_simple_wait_frame n P) (\<lambda>frame.
     if frame_channel frame \<noteq> expected_channel \<or> frame_type frame \<noteq> AMQP_FRAME_METHOD8 then wrong_method P
     else and_then (frame_method frame) (\<lambda>(method_id, decoded).
       if method_id \<noteq> expected_method then wrong_method P else ret (method_id, decoded)))"

section \<open>Remote calls\<close>

text \<open>A list of reply numbers ends with 0.\<close>

fun amqp_id_in_reply_list :: "u32 \<Rightarrow> u32 list \<Rightarrow> bool" where
  "amqp_id_in_reply_list expected [] = False"
| "amqp_id_in_reply_list expected (x # xs) =
     (if x \<noteq> 0 then x = expected \<or> amqp_id_in_reply_list expected xs else False)"

text \<open>The frames that end a call.\<close>

definition ends_call :: "u16 \<Rightarrow> u32 list \<Rightarrow> amqp_frame \<Rightarrow> bool" where
  "ends_call channel expected_reply_ids frame \<longleftrightarrow> frame_type frame = AMQP_FRAME_METHOD8 \<and>
     (case frame_payload frame of
        Method_payload method_id _ \<Rightarrow>
          frame_channel frame = channel \<and>
            (amqp_id_in_reply_list method_id expected_reply_ids \<or> method_id = AMQP_CHANNEL_CLOSE_METHOD) \<or>
          frame_channel frame = 0 \<and> method_id = AMQP_CONNECTION_CLOSE_METHOD
      | _ \<Rightarrow> False)"

primrec await_reply ::
    "nat \<Rightarrow> 'a conn_scheme platform \<Rightarrow> u16 \<Rightarrow> u32 list \<Rightarrow> ('a conn_scheme, u32 \<times> amqp_method_struct option) cm" where
  "await_reply 0 P channel expected_reply_ids = out_of_fuel"
| "await_reply (Suc n) P channel expected_reply_ids =
     and_then (wait_frame_inner n P None) (\<lambda>frame.
     if ends_call channel expected_reply_ids frame then frame_method frame
     else and_then (enqueue_frame frame) (\<lambda>_. await_reply n P channel expected_reply_ids))"

definition catching :: "('s, 'b) cm \<Rightarrow> ('s, amqp_status_enum + 'b) cm" where
  "catching m = (\<lambda>s. case m s of (Ok a, s') \<Rightarrow> (Ok (Inr a), s')
     | (Err e, s') \<Rightarrow> (Ok (Inl e), s') | (r, s') \<Rightarrow> (pass_error r, s'))"

definition library_exception :: "amqp_status_enum \<Rightarrow> amqp_rpc_reply" where
  "library_exception status = \<lparr>reply_type = AMQP_RESPONSE_LIBRARY_EXCEPTION, reply_id = 0, reply_decoded = None,
     library_error = status\<rparr>"

definition method_reply :: "u32 list \<Rightarrow> u32 \<times> amqp_method_struct option \<Rightarrow> amqp_rpc_reply" where
  "method_reply expected_reply_ids m = (case m of (method_id, decoded) \<Rightarrow>
     \<lparr>reply_type = (if amqp_id_in_reply_list method_id expected_reply_ids then AMQP_RESPONSE_NORMAL
        else AMQP_RESPONSE_SERVER_EXCEPTION),
      reply_id = method_id, reply_decoded = decoded, library_error = AMQP_STATUS_OK\<rparr>)"

definition amqp_simple_rpc ::
    "nat \<Rightarrow> 'a conn_scheme platform \<Rightarrow> u16 \<Rightarrow> u32 \<Rightarrow> u32 list \<Rightarrow> amqp_method_struct option \<Rightarrow>
     ('a conn_scheme, amqp_rpc_reply) cm" where
  "amqp_simple_rpc n P channel request_id expected_reply_ids decoded_request_method =
     and_then (catching (and_then (amqp_send_method P channel request_id decoded_request_method) (\<lambda>_.
       await_reply n P channel expected_reply_ids))) (\<lambda>r. case r of
       Inl status \<Rightarrow> ret (library_exception status)
     | Inr m \<Rightarrow> ret (method_reply expected_reply_ids m))"

definition amqp_simple_rpc_decoded ::
    "nat \<Rightarrow> 'a conn_scheme platform \<Rightarrow> u16 \<Rightarrow> u32 \<Rightarrow> u32 \<Rightarrow> amqp_method_struct option \<Rightarrow>
     ('a conn_scheme, amqp_method_struct option) cm" where
  "amqp_simple_rpc_decoded n P channel request_id the_reply_id decoded_request_method =
     and_then (amqp_simple_rpc n P channel request_id [the_reply_id, 0] decoded_request_method) (\<lambda>result.
     and_then (modify (\<lambda>c. c\<lparr>most_recent_api_result := result\<rparr>)) (\<lambda>_.
     ret (if reply_type result = AMQP_RESPONSE_NORMAL then reply_decoded result else None)))"

definition amqp_get_rpc_reply :: "('a conn_scheme, amqp_rpc_reply) cm" where
  "amqp_get_rpc_reply = and_then get (\<lambda>c. ret (most_recent_api_result c))"

section \<open>Login\<close>

definition AMQP_PROTOCOL_VERSION_MAJOR :: u8 where "AMQP_PROTOCOL_VERSION_MAJOR = 0"
definition AMQP_PROTOCOL_VERSION_MINOR :: u8 where "AMQP_PROTOCOL_VERSION_MINOR = 9"
definition AMQP_PROTOCOL_VERSION_REVISION :: u8 where "AMQP_PROTOCOL_VERSION_REVISION = 1"

definition client_header :: bytes where
  "client_header = ascii ''AMQP'' @ [0, AMQP_PROTOCOL_VERSION_MAJOR, AMQP_PROTOCOL_VERSION_MINOR,
     AMQP_PROTOCOL_VERSION_REVISION]"

definition amqp_send_header :: "'a conn_scheme platform \<Rightarrow> ('a conn_scheme, unit) cm" where
  "amqp_send_header P = amqp_socket_send (socket P) client_header"

datatype amqp_sasl_method_enum = AMQP_SASL_METHOD_PLAIN | Other_sasl_method int

definition sasl_method_name :: "amqp_sasl_method_enum \<Rightarrow> ('s, bytes) cm" where
  "sasl_method_name method = (case method of
     AMQP_SASL_METHOD_PLAIN \<Rightarrow> ret (ascii ''PLAIN'') | _ \<Rightarrow> amqp_abort)"

text \<open>
  \<open>args\<close> are the variable arguments, C strings; \<^verbatim>\<open>va_arg\<close> beyond the last is undefined.  The buffer
  for the response is allocated from the pool of the channel.
\<close>

definition sasl_response :: "u16 \<Rightarrow> amqp_sasl_method_enum \<Rightarrow> bytes list \<Rightarrow> ('a conn_scheme, bytes option) cm" where
  "sasl_response channel method args = (case method of
     AMQP_SASL_METHOD_PLAIN \<Rightarrow>
       (case args of
          user # pass # _ \<Rightarrow>
            let username = amqp_cstring_bytes user; password = amqp_cstring_bytes pass in
            and_then (on_pool channel (amqp_pool_alloc_bytes (length username + length password + 2))) (\<lambda>(_, block).
            ret (if block = None then None else Some ([0] @ username @ [0] @ password)))
        | _ \<Rightarrow> undef)
   | _ \<Rightarrow> amqp_abort)"

definition amqp_table_contains_entry :: "amqp_table \<Rightarrow> amqp_table_entry \<Rightarrow> bool" where
  "amqp_table_contains_entry table entry \<longleftrightarrow> list_ex (\<lambda>current_entry. amqp_table_entry_cmp current_entry entry = 0) table"

definition default_table :: amqp_table where
  "default_table =
     [Entry (ascii ''product'') (Field_utf8 (ascii ''rabbitmq-c'')),
      Entry (ascii ''information'') (Field_utf8 (ascii ''See https://github.com/alanxz/rabbitmq-c''))]"

definition merged_properties :: "amqp_table \<Rightarrow> amqp_table" where
  "merged_properties props = default_table @ filter (\<lambda>e. \<not> amqp_table_contains_entry default_table e) props"

definition login_properties :: "amqp_table \<Rightarrow> ('a conn_scheme, amqp_table) cm" where
  "login_properties props =
     (if props = [] then ret default_table
      else and_then (or_return AMQP_STATUS_NO_MEMORY (on_pool 0 (amqp_pool_alloc
          (sizeof_table_entry * (length default_table + length props))))) (\<lambda>_.
        ret (merged_properties props)))"

definition check_version :: "amqp_method_struct option \<Rightarrow> ('s, unit) cm" where
  "check_version decoded = (case decoded of
     Some (amqp_connection_start_t version_major version_minor _ _ _) \<Rightarrow>
       if version_major \<noteq> AMQP_PROTOCOL_VERSION_MAJOR \<or> version_minor \<noteq> AMQP_PROTOCOL_VERSION_MINOR
       then raise AMQP_STATUS_INCOMPATIBLE_AMQP_VERSION else ret ()
   | _ \<Rightarrow> undef)"

definition send_start_ok ::
    "'a conn_scheme platform \<Rightarrow> amqp_table \<Rightarrow> amqp_sasl_method_enum \<Rightarrow> bytes list \<Rightarrow> ('a conn_scheme, unit) cm" where
  "send_start_ok P client_properties sasl_method args =
     and_then (or_return AMQP_STATUS_NO_MEMORY (amqp_get_or_create_channel_pool 0)) (\<lambda>_.
     and_then (or_return AMQP_STATUS_NO_MEMORY (sasl_response 0 sasl_method args)) (\<lambda>response_bytes.
     and_then (login_properties client_properties) (\<lambda>props.
     and_then (sasl_method_name sasl_method) (\<lambda>mechanism.
     amqp_send_method P 0 AMQP_CONNECTION_START_OK_METHOD
       (Some (amqp_connection_start_ok_t props mechanism response_bytes (ascii ''en_US'')))))))"

text \<open>The lower of the two limits, where the server's 0 is no limit; the client's is taken as it is.\<close>

definition lower_limit :: "int \<Rightarrow> int \<Rightarrow> int" where
  "lower_limit server client = (if server \<noteq> 0 \<and> server < client then server else client)"

text \<open>\<^verbatim>\<open>server_frame_max\<close> is an \<^verbatim>\<open>int\<close>, the field of the struct a \<^verbatim>\<open>uint32_t\<close>.\<close>

definition negotiate :: "amqp_method_struct option \<Rightarrow> int \<Rightarrow> int \<Rightarrow> int \<Rightarrow> ('s, int \<times> int \<times> int) cm" where
  "negotiate decoded channel_max0 frame_max0 heartbeat0 = (case decoded of
     Some (amqp_connection_tune_t server_channel_max server_frame_max server_heartbeat) \<Rightarrow>
       ret (lower_limit (uint server_channel_max) channel_max0, lower_limit (sint server_frame_max) frame_max0,
            lower_limit (uint server_heartbeat) heartbeat0)
   | _ \<Rightarrow> undef)"

definition send_tune_ok :: "'a conn_scheme platform \<Rightarrow> int \<Rightarrow> int \<Rightarrow> int \<Rightarrow> ('a conn_scheme, unit) cm" where
  "send_tune_ok P channel_max0 frame_max0 heartbeat0 = amqp_send_method P 0 AMQP_CONNECTION_TUNE_OK_METHOD
     (Some (amqp_connection_tune_ok_t (word_of_int channel_max0) (word_of_int frame_max0) (word_of_int heartbeat0)))"

definition open_vhost :: "nat \<Rightarrow> 'a conn_scheme platform \<Rightarrow> bytes \<Rightarrow> ('a conn_scheme, amqp_rpc_reply) cm" where
  "open_vhost n P vhost =
     and_then (amqp_simple_rpc n P 0 AMQP_CONNECTION_OPEN_METHOD [AMQP_CONNECTION_OPEN_OK_METHOD, 0]
       (Some (amqp_connection_open_t (amqp_cstring_bytes vhost) [] True))) (\<lambda>result.
     if reply_type result \<noteq> AMQP_RESPONSE_NORMAL then ret result
     else ret \<lparr>reply_type = AMQP_RESPONSE_NORMAL, reply_id = 0, reply_decoded = None, library_error = AMQP_STATUS_OK\<rparr>)"

text \<open>From the start to one of the labels \<^verbatim>\<open>out\<close> and \<^verbatim>\<open>error_res\<close>.\<close>

definition login_dialogue ::
    "nat \<Rightarrow> 'a conn_scheme platform \<Rightarrow> bytes \<Rightarrow> int \<Rightarrow> int \<Rightarrow> int \<Rightarrow> amqp_table \<Rightarrow> amqp_sasl_method_enum \<Rightarrow> bytes list \<Rightarrow>
     ('a conn_scheme, amqp_rpc_reply) cm" where
  "login_dialogue n P vhost channel_max0 frame_max0 heartbeat0 client_properties sasl_method args =
     and_then (amqp_send_header P) (\<lambda>_.
     and_then (amqp_simple_wait_method n P 0 AMQP_CONNECTION_START_METHOD) (\<lambda>(_, start).
     and_then (check_version start) (\<lambda>_.
     and_then (send_start_ok P client_properties sasl_method args) (\<lambda>_.
     and_then amqp_release_buffers (\<lambda>_.
     and_then (amqp_simple_wait_method n P 0 AMQP_CONNECTION_TUNE_METHOD) (\<lambda>(_, tune).
     and_then (negotiate tune channel_max0 frame_max0 heartbeat0) (\<lambda>(chm, fm, hb).
     and_then (amqp_tune_connection P chm fm hb) (\<lambda>_.
     and_then (send_tune_ok P chm fm hb) (\<lambda>_.
     and_then amqp_release_buffers (\<lambda>_.
     open_vhost n P vhost))))))))))"

definition amqp_login_inner ::
    "nat \<Rightarrow> 'a conn_scheme platform \<Rightarrow> bytes \<Rightarrow> int \<Rightarrow> int \<Rightarrow> int \<Rightarrow> amqp_table \<Rightarrow> amqp_sasl_method_enum \<Rightarrow> bytes list \<Rightarrow>
     ('a conn_scheme, amqp_rpc_reply) cm" where
  "amqp_login_inner n P vhost channel_max0 frame_max0 heartbeat0 client_properties sasl_method args =
     and_then (catching (login_dialogue n P vhost channel_max0 frame_max0 heartbeat0 client_properties sasl_method args))
       (\<lambda>r. and_then amqp_maybe_release_buffers (\<lambda>_.
         ret (case r of Inl res \<Rightarrow> library_exception res | Inr result \<Rightarrow> result)))"

definition amqp_login ::
    "nat \<Rightarrow> 'a conn_scheme platform \<Rightarrow> bytes \<Rightarrow> int \<Rightarrow> int \<Rightarrow> int \<Rightarrow> amqp_sasl_method_enum \<Rightarrow> bytes list \<Rightarrow>
     ('a conn_scheme, amqp_rpc_reply) cm" where
  "amqp_login n P vhost channel_max0 frame_max0 heartbeat0 sasl_method args =
     amqp_login_inner n P vhost channel_max0 frame_max0 heartbeat0 [] sasl_method args"

definition amqp_login_with_properties ::
    "nat \<Rightarrow> 'a conn_scheme platform \<Rightarrow> bytes \<Rightarrow> int \<Rightarrow> int \<Rightarrow> int \<Rightarrow> amqp_table \<Rightarrow> amqp_sasl_method_enum \<Rightarrow> bytes list \<Rightarrow>
     ('a conn_scheme, amqp_rpc_reply) cm" where
  "amqp_login_with_properties n P vhost channel_max0 frame_max0 heartbeat0 client_properties sasl_method args =
     amqp_login_inner n P vhost channel_max0 frame_max0 heartbeat0 client_properties sasl_method args"

section \<open>A remote call on a stream\<close>

lemma run_catching:
  "m s = (Ok a, s') \<Longrightarrow> catching m s = (Ok (Inr a), s')"
  "m s = (Err e, s') \<Longrightarrow> catching m s = (Ok (Inl e), s')"
  by (simp_all add: catching_def)

lemma ends_call_received [simp]: "ends_call channel ids (received block f) = ends_call channel ids f"
  by (auto simp: ends_call_def received_def split: amqp_frame_payload.splits)

lemma frame_channel_received [simp]: "frame_channel (received block f) = frame_channel f"
  by (simp add: received_def)

text \<open>The number and the struct of a method frame.\<close>

definition method_part :: "amqp_frame \<Rightarrow> u32 \<times> amqp_method_struct option" where
  "method_part f = (case frame_payload f of Method_payload n d \<Rightarrow> (n, d) | _ \<Rightarrow> (0, None))"

lemma frame_method_run:
  assumes "wf_frame f" and "frame_type f = 1"
  shows "frame_method (received block f) s = (Ok (method_part f), s)"
  using assms by (auto simp: frame_method_def received_def method_part_def wf_frame_def split: amqp_frame_payload.splits)

lemma ends_call_heartbeat [simp]: "is_heartbeat f \<Longrightarrow> \<not> ends_call channel ids f"
  by (simp add: ends_call_def)

lemma list_all_not_ends: "list_all is_heartbeat hs \<Longrightarrow> list_all (\<lambda>f. \<not> ends_call channel ids f) hs"
  by (auto simp: list_all_iff)

lemma split_first:
  assumes "xs @ f # ys = hs @ g # zs" and "\<not> Q f" and "list_all Q hs"
    and "list_all (\<lambda>x. \<not> R x) xs" and "R f" and "\<not> Q g"
  shows "R g \<and> xs = hs \<and> f = g \<and> ys = zs \<or> \<not> R g \<and> (\<exists>us. xs = hs @ g # us \<and> zs = us @ f # ys)"
  using assms
proof (induction hs arbitrary: xs)
  case Nil
  then show ?case by (cases xs) auto
next
  case (Cons h hs)
  then show ?case by (cases xs) auto
qed

definition not_heartbeats :: "amqp_frame list \<Rightarrow> amqp_frame list" where
  "not_heartbeats fs = filter (\<lambda>f. \<not> is_heartbeat f) fs"

context byte_stream
begin

lemma await_reply_run:
  assumes "awaiting c (coming (conn.more c)) (skipped @ f # rest)" and "ndebug P" and "\<not> amqp_heartbeat_enabled c"
    and "0 < length (sock_inbound_buffer c)" and "list_all (\<lambda>g. \<not> ends_call channel ids g) skipped"
    and "ends_call channel ids f" and "enough c (coming (conn.more c)) < n"
  shows "\<exists>c'. await_reply n P channel ids c = (Ok (method_part f), c') \<and>
    awaiting c' (coming (conn.more c')) rest \<and> waits c c' \<and> conn_state c' = CONNECTION_STATE_IDLE \<and>
    queued_frames c' = queued_frames c @ map (received (stale_properties c)) (not_heartbeats skipped) \<and>
    outgoing (conn.more c') = outgoing (conn.more c)"
  using assms
proof (induction n arbitrary: c skipped)
  case 0
  then show ?case by simp
next
  case (Suc n)
  have f: "frame_type f = 1" "\<not> is_heartbeat f" using Suc.prems(6) by (auto simp: ends_call_def)
  then have "\<not> list_all is_heartbeat (skipped @ f # rest)" by simp
  from wait_frame_run [OF Suc.prems(1-4) this, of n] Suc.prems(7) obtain c1 hs g rest' where
    1: "skipped @ f # rest = hs @ g # rest'" "list_all is_heartbeat hs" "\<not> is_heartbeat g"
    "wait_frame_inner n P None c = (Ok (received (stale_properties c) g), c1)"
    "awaiting c1 (coming (conn.more c1)) rest'" "waits c c1" "queued_frames c1 = queued_frames c"
    "conn_state c1 = CONNECTION_STATE_IDLE" "enough c1 (coming (conn.more c1)) < enough c (coming (conn.more c))"
    "outgoing (conn.more c1) = outgoing (conn.more c)"
    by auto
  have wf: "wf_frame f" using Suc.prems(1) by (simp add: awaiting_def)
  from split_first [OF 1(1) f(2) 1(2) Suc.prems(5,6) 1(3)] show ?case
  proof (elim disjE conjE exE)
    assume A: "ends_call channel ids g" "skipped = hs" "f = g" "rest = rest'"
    then have "await_reply (Suc n) P channel ids c = (Ok (method_part f), c1)"
      using 1(4) frame_method_run [OF wf f(1), where s = c1] by (simp add: and_then_Ok)
    with A 1 filter_heartbeats [OF 1(2)] show ?thesis
      by (intro exI [of _ c1]) (simp add: not_heartbeats_def)
  next
    fix us
    assume A: "\<not> ends_call channel ids g" "skipped = hs @ g # us" "rest' = us @ f # rest"
    let ?g = "received (stale_properties c) g"
    from 1(5) have "conn_inv c1" "granting c1" by (simp_all add: awaiting_def)
    from enqueue_run [OF this, of ?g] obtain e where
      e: "enqueue_frame ?g c1 = (Ok (), e\<lparr>queued_frames := queued_frames c1 @ [?g]\<rparr>)" "conn_inv e" "only_memory c1 e"
      by blast
    let ?c2 = "e\<lparr>queued_frames := queued_frames c1 @ [?g]\<rparr>"
    have run: "await_reply (Suc n) P channel ids c = await_reply n P channel ids ?c2"
      using 1(4) A(1) e(1) by (simp add: and_then_Ok)
    have more: "conn.more ?c2 = conn.more c1" using only_memory_more [OF e(3)] by simp
    have aw: "awaiting ?c2 (coming (conn.more ?c2)) (us @ f # rest)"
      using awaiting_only_memory [OF 1(5) e(3,2)] more A(3) by simp
    have un: "unread ?c2 = unread c1" using only_memoryD [OF e(3)] by (simp add: unread_def)
    have w: "waits c ?c2"
    proof -
      have "waits e ?c2" by (simp add: waits_def conn_blocks_def)
      then show ?thesis using 1(6) only_memory_waits [OF e(3)] by (blast intro: waits_trans)
    qed
    have "list_all (\<lambda>g. \<not> ends_call channel ids g) us" using Suc.prems(5) A(2) by simp
    moreover have "enough ?c2 (coming (conn.more ?c2)) < n"
      using 1(9) Suc.prems(7) un more by (simp add: enough_def)
    moreover have "\<not> amqp_heartbeat_enabled ?c2" "0 < length (sock_inbound_buffer ?c2)"
      "stale_properties ?c2 = stale_properties c"
      using Suc.prems(3,4) waitsD [OF w] by simp_all
    ultimately obtain c3 where
      3: "await_reply n P channel ids ?c2 = (Ok (method_part f), c3)" "awaiting c3 (coming (conn.more c3)) rest"
      "waits ?c2 c3" "conn_state c3 = CONNECTION_STATE_IDLE"
      "queued_frames c3 = queued_frames ?c2 @ map (received (stale_properties c)) (not_heartbeats us)"
      "outgoing (conn.more c3) = outgoing (conn.more ?c2)"
      using Suc.IH [OF aw Suc.prems(2) _ _ _ Suc.prems(6)] by metis
    have "waits c c3" using w 3(3) by (rule waits_trans)
    moreover have "queued_frames c3 = queued_frames c @ map (received (stale_properties c)) (not_heartbeats skipped)"
      using 3(5) A(2) 1(3,7) filter_heartbeats [OF 1(2)] by (simp add: not_heartbeats_def)
    ultimately show ?thesis using run 3 more 1(10) by (intro exI [of _ c3]) simp
  qed
qed

lemma simple_rpc_run:
  assumes send: "amqp_send_method P channel request_id request c = (Ok (), d)"
    and d: "awaiting d (coming (conn.more d)) (skipped @ f # rest)" "ndebug P" "\<not> amqp_heartbeat_enabled d"
      "0 < length (sock_inbound_buffer d)" "list_all (\<lambda>g. \<not> ends_call channel ids g) skipped"
      "ends_call channel ids f" "enough d (coming (conn.more d)) < n"
  shows "\<exists>c'. amqp_simple_rpc n P channel request_id ids request c = (Ok (method_reply ids (method_part f)), c') \<and>
    awaiting c' (coming (conn.more c')) rest \<and> waits d c' \<and> conn_state c' = CONNECTION_STATE_IDLE \<and>
    queued_frames c' = queued_frames d @ map (received (stale_properties d)) (not_heartbeats skipped) \<and>
    outgoing (conn.more c') = outgoing (conn.more d)"
proof -
  obtain c' where c': "await_reply n P channel ids d = (Ok (method_part f), c')"
    "awaiting c' (coming (conn.more c')) rest" "waits d c'" "conn_state c' = CONNECTION_STATE_IDLE"
    "queued_frames c' = queued_frames d @ map (received (stale_properties d)) (not_heartbeats skipped)"
    "outgoing (conn.more c') = outgoing (conn.more d)"
    using await_reply_run [OF d] by blast
  have "and_then (amqp_send_method P channel request_id request) (\<lambda>_. await_reply n P channel ids) c =
      (Ok (method_part f), c')"
    using send c'(1) by (simp add: and_then_Ok)
  from run_catching(1) [where m = "and_then (amqp_send_method P channel request_id request) (\<lambda>_. await_reply n P channel ids)",
    OF this]
  have "amqp_simple_rpc n P channel request_id ids request c = (Ok (method_reply ids (method_part f)), c')"
    by (simp add: amqp_simple_rpc_def and_then_Ok)
  with c' show ?thesis by blast
qed

end

section \<open>The steps of the login\<close>

lemma awaiting_sent:
  assumes "awaiting c bs fs"
  shows "awaiting (c\<lparr>outbound_buffer := b, conn.more := m\<rparr>) bs fs"
proof (rule awaiting_same [OF assms])
  have "conn_inv c" using assms by (simp add: awaiting_def)
  then show "conn_inv (c\<lparr>outbound_buffer := b, conn.more := m\<rparr>)"
    by (rule conn_inv_same) (simp_all add: conn_blocks_def)
qed (simp add: same_reader_def)

lemma release_buffers_run:
  assumes "conn_inv c" and "conn_state c = CONNECTION_STATE_IDLE"
  shows "\<exists>c'. amqp_release_buffers c = (Ok (), c') \<and> conn_inv c' \<and> only_memory c c'"
  using release_channels_run [OF assms, of "map entry_channel (concat (pool_table c))"] assms(2)
  by (auto simp: amqp_release_buffers_def ENFORCE_STATE_def and_then_Ok)

lemma maybe_release_buffers_run:
  assumes "conn_inv c"
  shows "\<exists>c'. amqp_maybe_release_buffers c = (Ok (), c') \<and> conn_inv c' \<and> only_memory c c'"
proof (cases "conn_state c = CONNECTION_STATE_IDLE")
  case True
  then have "amqp_maybe_release_buffers c = amqp_release_buffers c"
    by (simp add: amqp_maybe_release_buffers_def amqp_release_buffers_ok_def and_then_Ok)
  with release_buffers_run [OF assms True] show ?thesis by simp
next
  case False
  then have "amqp_maybe_release_buffers c = (Ok (), c)"
    by (simp add: amqp_maybe_release_buffers_def amqp_release_buffers_ok_def and_then_Ok)
  with assms show ?thesis by simp
qed

text \<open>What the parts of the dialogue have in common: the reader has \<open>fs\<close> before it and nothing is queued.\<close>

definition between :: "('a \<Rightarrow> bytes) \<Rightarrow> 'a conn_scheme \<Rightarrow> amqp_frame list \<Rightarrow> bool" where
  "between coming c fs \<longleftrightarrow> awaiting c (coming (conn.more c)) fs \<and> queued_frames c = [] \<and>
     \<not> amqp_heartbeat_enabled c \<and> 0 < length (sock_inbound_buffer c)"

lemma only_memory_between:
  "between coming c fs \<Longrightarrow> only_memory c c' \<Longrightarrow> conn_inv c' \<Longrightarrow> between coming c' fs"
  using awaiting_only_memory [of c "coming (conn.more c)" fs c'] only_memory_more [of c c'] only_memoryD [of c c']
  by (simp add: between_def amqp_heartbeat_enabled_def)

lemma between_inv: "between coming c fs \<Longrightarrow> conn_inv c" "between coming c fs \<Longrightarrow> granting c"
  by (simp_all add: between_def awaiting_def)

context duplex_stream
begin

lemma send_method_between:
  assumes c: "between coming c fs" "outbound_ok c"
    and f: "wf_frame \<lparr>frame_type = 1, frame_channel = ch, frame_payload = Method_payload n d\<rparr>"
      "length (frame_bytes \<lparr>frame_type = 1, frame_channel = ch, frame_payload = Method_payload n d\<rparr>) \<le> outbound_len c"
  shows "\<exists>c'. amqp_send_method P ch n d c = (Ok (), c') \<and> between coming c' fs \<and> waits c c' \<and>
    conn_state c' = conn_state c \<and> enough c' (coming (conn.more c')) = enough c (coming (conn.more c)) \<and>
    outgoing (conn.more c') = outgoing (conn.more c) @
      frame_bytes \<lparr>frame_type = 1, frame_channel = ch, frame_payload = Method_payload n d\<rparr>"
proof -
  have "\<not> amqp_heartbeat_enabled c" using c(1) by (simp add: between_def)
  from send_frame_sent [OF c(2) this f(1) disjI2 [OF f(2)]] obtain b m where
    b: "amqp_send_method P ch n d c = (Ok (), c\<lparr>outbound_buffer := b, conn.more := m\<rparr>)"
    "length b = length (outbound_buffer c)" "coming m = coming (conn.more c)"
    "outgoing m = outgoing (conn.more c) @ frame_bytes \<lparr>frame_type = 1, frame_channel = ch, frame_payload = Method_payload n d\<rparr>"
    by (auto simp: amqp_send_method_def)
  let ?c = "c\<lparr>outbound_buffer := b, conn.more := m\<rparr>"
  have "between coming ?c fs" using c(1) b(3) by (simp add: between_def awaiting_sent amqp_heartbeat_enabled_def)
  moreover have "waits c ?c" using b(2) by (simp add: waits_def conn_blocks_def)
  moreover have "unread ?c = unread c" by (simp add: unread_def)
  ultimately show ?thesis using b by (intro exI [of _ ?c]) (simp add: enough_def)
qed

lemma wait_method_between:
  assumes c: "between coming c (f # fs)" and P: "ndebug P" and f: "frame_type f = 1" "frame_channel f = ch"
    and m: "method_part f = (k, d)" and n: "enough c (coming (conn.more c)) \<le> n"
  shows "\<exists>c'. amqp_simple_wait_method n P ch k c = (Ok (k, d), c') \<and> between coming c' fs \<and> waits c c' \<and>
    conn_state c' = CONNECTION_STATE_IDLE \<and> enough c' (coming (conn.more c')) \<le> enough c (coming (conn.more c)) \<and>
    outgoing (conn.more c') = outgoing (conn.more c)"
proof -
  have q: "queued_frames c = []" "\<not> amqp_heartbeat_enabled c" "0 < length (sock_inbound_buffer c)"
    and aw: "awaiting c (coming (conn.more c)) (f # fs)" using c by (simp_all add: between_def)
  have wf: "wf_frame f" using aw by (simp add: awaiting_def)
  have nh: "\<not> is_heartbeat f" using f by simp
  then have "\<not> list_all is_heartbeat (f # fs)" by simp
  from wait_frame_run [OF aw P q(2,3) this n] obtain c' hs g rest where
    1: "f # fs = hs @ g # rest" "list_all is_heartbeat hs" "\<not> is_heartbeat g"
    "wait_frame_inner n P None c = (Ok (received (stale_properties c) g), c')"
    "awaiting c' (coming (conn.more c')) rest" "waits c c'" "queued_frames c' = queued_frames c"
    "conn_state c' = CONNECTION_STATE_IDLE" "enough c' (coming (conn.more c')) < enough c (coming (conn.more c))"
    "outgoing (conn.more c') = outgoing (conn.more c)" by blast
  have "hs = []" using 1(1,2) nh by (cases hs) auto
  then have g: "g = f" "rest = fs" using 1(1) by simp_all
  have "amqp_simple_wait_method n P ch k c = (Ok (k, d), c')"
    using q(1) 1(4) g f m frame_method_run [OF wf f(1), where s = c']
    by (simp add: amqp_simple_wait_method_def amqp_simple_wait_frame_def amqp_simple_wait_frame_noblock_def and_then_Ok)
  moreover have "between coming c' fs" using 1(5,7) g q waitsD [OF 1(6)] by (simp add: between_def)
  ultimately show ?thesis using 1(6,8-10) by (intro exI [of _ c']) simp
qed

end
lemma on_pool_map: "on_pool ch (and_then m (\<lambda>r. ret (g r))) = and_then (on_pool ch m) (\<lambda>r. ret (g r))"
  by (rule ext) (simp add: on_pool_def run_and_then split: option.split prod.split outcome.split)

lemma only_memory_enough: "only_memory c c' \<Longrightarrow> enough c' bs = enough c bs"
  by (simp add: enough_def unread_def only_memoryD)

lemma only_memory_outbound: "only_memory c c' \<Longrightarrow> outbound_ok c' = outbound_ok c"
  by (simp add: outbound_ok_def only_memoryD)

text \<open>An allocation from the pool of channel 0, which exists.\<close>

lemma pool_0_alloc:
  assumes "between coming c fs" and "find_pool (pool_table c) 0 \<noteq> None" and "0 < n"
  obtains b c' where "on_pool 0 (amqp_pool_alloc n) c = (Ok (Some b), c')" "between coming c' fs" "only_memory c c'"
    "find_pool (pool_table c') 0 \<noteq> None"
proof -
  obtain r c' where r: "on_pool 0 (amqp_pool_alloc n) c = (Ok r, c')" "conn_inv c'" "only_memory c c'"
    "find_pool (pool_table c') 0 \<noteq> None" "r = None \<Longrightarrow> \<not> granting c"
    using pool_alloc_outcome [OF between_inv(1) [OF assms(1)] assms(2,3)] by metis
  then obtain b where "r = Some b" using between_inv(2) [OF assms(1)] by (cases r) auto
  with r only_memory_between [OF assms(1) r(3,2)] that show ?thesis by blast
qed

definition sasl_plain :: "bytes \<Rightarrow> bytes \<Rightarrow> bytes" where
  "sasl_plain user pass = [0] @ amqp_cstring_bytes user @ [0] @ amqp_cstring_bytes pass"

lemma sasl_response_between:
  assumes "between coming c fs" and "find_pool (pool_table c) 0 \<noteq> None"
  obtains c' where "sasl_response 0 AMQP_SASL_METHOD_PLAIN (user # pass # args) c = (Ok (Some (sasl_plain user pass)), c')"
    "between coming c' fs" "only_memory c c'" "find_pool (pool_table c') 0 \<noteq> None"
proof -
  let ?n = "length (amqp_cstring_bytes user) + length (amqp_cstring_bytes pass) + 2"
  obtain b c' where b: "on_pool 0 (amqp_pool_alloc ?n) c = (Ok (Some b), c')" "between coming c' fs" "only_memory c c'"
    "find_pool (pool_table c') 0 \<noteq> None"
  proof (rule pool_0_alloc [OF assms, of ?n])
    show "0 < ?n" by simp
  qed blast
  then have "on_pool 0 (amqp_pool_alloc_bytes ?n) c = (Ok (?n, Some b), c')"
    by (simp add: amqp_pool_alloc_bytes_def on_pool_map and_then_Ok)
  then have "sasl_response 0 AMQP_SASL_METHOD_PLAIN (user # pass # args) c = (Ok (Some (sasl_plain user pass)), c')"
    by (simp add: sasl_response_def sasl_plain_def Let_def and_then_Ok)
  with b that show ?thesis by blast
qed

definition client_table :: "amqp_table \<Rightarrow> amqp_table" where
  "client_table props = (if props = [] then default_table else merged_properties props)"

lemma login_properties_between:
  assumes "between coming c fs" and "find_pool (pool_table c) 0 \<noteq> None"
  obtains c' where "login_properties props c = (Ok (client_table props), c')" "between coming c' fs" "only_memory c c'"
proof (cases "props = []")
  case True
  with assms that show ?thesis by (simp add: login_properties_def client_table_def)
next
  case False
  let ?n = "sizeof_table_entry * (length default_table + length props)"
  have "0 < ?n" by (simp add: sizeof_table_entry_def default_table_def)
  from pool_0_alloc [OF assms this] obtain b c' where
    "on_pool 0 (amqp_pool_alloc ?n) c = (Ok (Some b), c')" "between coming c' fs" "only_memory c c'" by blast
  with False that show ?thesis by (simp add: login_properties_def client_table_def and_then_Ok or_return_Some)
qed

definition start_ok_frame :: "amqp_table \<Rightarrow> bytes \<Rightarrow> bytes \<Rightarrow> amqp_frame" where
  "start_ok_frame props user pass = \<lparr>frame_type = 1, frame_channel = 0,
     frame_payload = Method_payload AMQP_CONNECTION_START_OK_METHOD
       (Some (amqp_connection_start_ok_t (client_table props) (ascii ''PLAIN'') (sasl_plain user pass) (ascii ''en_US'')))\<rparr>"

definition tune_ok_frame :: "int \<Rightarrow> int \<Rightarrow> int \<Rightarrow> amqp_frame" where
  "tune_ok_frame chm fm hb = \<lparr>frame_type = 1, frame_channel = 0,
     frame_payload = Method_payload AMQP_CONNECTION_TUNE_OK_METHOD
       (Some (amqp_connection_tune_ok_t (word_of_int chm) (word_of_int fm) (word_of_int hb)))\<rparr>"

definition open_frame :: "bytes \<Rightarrow> amqp_frame" where
  "open_frame vhost = \<lparr>frame_type = 1, frame_channel = 0,
     frame_payload = Method_payload AMQP_CONNECTION_OPEN_METHOD
       (Some (amqp_connection_open_t (amqp_cstring_bytes vhost) [] True))\<rparr>"

lemma only_memory_unless: "only_memory c c' \<Longrightarrow> conn_state c' = conn_state c"
  by (rule only_memoryD)

context duplex_stream
begin

lemma send_start_ok_between:
  assumes c: "between coming c fs" "outbound_ok c"
    and f: "wf_frame (start_ok_frame props user pass)" "length (frame_bytes (start_ok_frame props user pass)) \<le> outbound_len c"
  shows "\<exists>c'. send_start_ok P props AMQP_SASL_METHOD_PLAIN (user # pass # args) c = (Ok (), c') \<and> between coming c' fs \<and>
    waits c c' \<and> conn_state c' = conn_state c \<and>
    enough c' (coming (conn.more c')) = enough c (coming (conn.more c)) \<and>
    outgoing (conn.more c') = outgoing (conn.more c) @ frame_bytes (start_ok_frame props user pass)"
proof -
  obtain c1 where 1: "amqp_get_or_create_channel_pool 0 c = (Ok (Some ()), c1)" "conn_inv c1" "only_memory c c1"
    "find_pool (pool_table c1) 0 \<noteq> None"
    using get_or_create_run [OF between_inv(1) [OF c(1)], of 0] between_inv(2) [OF c(1)] unfolding granting_def by metis
  have b1: "between coming c1 fs" by (rule only_memory_between [OF c(1) 1(3,2)])
  from sasl_response_between [OF b1 1(4)] obtain c2 where
    2: "sasl_response 0 AMQP_SASL_METHOD_PLAIN (user # pass # args) c1 = (Ok (Some (sasl_plain user pass)), c2)"
    "between coming c2 fs" "only_memory c1 c2" "find_pool (pool_table c2) 0 \<noteq> None" by blast
  from login_properties_between [OF 2(2,4)] obtain c3 where
    3: "login_properties props c2 = (Ok (client_table props), c3)" "between coming c3 fs" "only_memory c2 c3" by blast
  have om: "only_memory c c3" using 1(3) 2(3) 3(3) by (blast intro: only_memory_trans)
  have o3: "outbound_ok c3" "outbound_len c3 = outbound_len c" "conn.more c3 = conn.more c" "conn_state c3 = conn_state c"
    using om c(2) by (simp_all add: only_memory_outbound only_memoryD only_memory_more)
  from send_method_between [OF 3(2) o3(1) f(1) [unfolded start_ok_frame_def]] f(2) obtain c4 where
    4: "amqp_send_method P 0 AMQP_CONNECTION_START_OK_METHOD (Some (amqp_connection_start_ok_t (client_table props)
        (ascii ''PLAIN'') (sasl_plain user pass) (ascii ''en_US''))) c3 = (Ok (), c4)" "between coming c4 fs" "waits c3 c4"
    "conn_state c4 = conn_state c3" "enough c4 (coming (conn.more c4)) = enough c3 (coming (conn.more c3))"
    "outgoing (conn.more c4) = outgoing (conn.more c3) @ frame_bytes (start_ok_frame props user pass)"
    by (auto simp: o3 start_ok_frame_def)
  have "send_start_ok P props AMQP_SASL_METHOD_PLAIN (user # pass # args) c = (Ok (), c4)"
    using 1(1) 2(1) 3(1) 4(1) by (simp add: send_start_ok_def sasl_method_name_def and_then_Ok or_return_Some)
  moreover have "waits c c4" using only_memory_waits [OF om] 4(3) by (rule waits_trans)
  ultimately show ?thesis using 4 o3 only_memory_enough [OF om] by (intro exI [of _ c4]) simp
qed

end

text \<open>Tuning without a heartbeat.\<close>

lemma tune_between:
  assumes c: "between coming c fs" and idle: "conn_state c = CONNECTION_STATE_IDLE" and hb: "hb \<le> 0"
  shows "\<exists>c'. amqp_tune_connection P chm fm hb c = (Ok (), c') \<and> between coming c' fs \<and> tuned chm fm hb c' \<and>
    conn_state c' = CONNECTION_STATE_IDLE \<and> conn.more c' = conn.more c \<and> stale_properties c' = stale_properties c \<and>
    enough c' (coming (conn.more c')) = enough c (coming (conn.more c))"
proof -
  let ?e = "c\<lparr>channel_max := chm, frame_max := fm, heartbeat := hb, outbound_len := size_of_int fm\<rparr>"
  have inv: "conn_inv ?e" by (rule conn_inv_same [OF between_inv(1) [OF c]]) (simp_all add: conn_blocks_def)
  have g: "granting ?e" using between_inv(2) [OF c] by (simp add: granting_def)
  obtain p e where re: "c_realloc (outbound_block ?e) (size_of_int fm) ?e = (p, e)" by fastforce
  have run: "amqp_tune_connection P chm fm hb c =
    and_then (or_return AMQP_STATUS_NO_MEMORY (c_realloc (outbound_block ?e) (size_of_int fm))) (\<lambda>newbuf.
      modify (\<lambda>c. c\<lparr>outbound_block := Some newbuf,
        outbound_buffer := resized (stale c) (size_of_int fm) (outbound_buffer c)\<rparr>)) ?e"
    using idle hb
    by (simp add: amqp_tune_connection_def ENFORCE_STATE_def set_heartbeat_times_def amqp_heartbeat_enabled_def and_then_Ok)
  let ?x = "resized (stale e) (size_of_int fm) (outbound_buffer e)"
  have "p \<noteq> Ok None" using re g by (auto simp: c_realloc_def c_malloc_def granting_def Let_def split: option.splits if_splits)
  with conn_inv_realloc [OF inv re, of ?x] obtain b where b: "p = Ok (Some b)"
    "conn_inv (e\<lparr>outbound_block := Some b, outbound_buffer := ?x\<rparr>)" "only_memory ?e e" by blast
  let ?c = "e\<lparr>outbound_block := Some b, outbound_buffer := ?x\<rparr>"
  have "amqp_tune_connection P chm fm hb c = (Ok (), ?c)"
    unfolding run using re b(1) by (simp add: and_then_Ok or_return_Some)
  moreover note m = only_memoryD [OF b(3)] only_memory_more [OF b(3)]
  have "awaiting ?c (coming (conn.more c)) fs"
    using c by (intro awaiting_same [OF _ _ b(2)]) (simp_all add: between_def same_reader_def m)
  then have "between coming ?c fs" using c hb by (simp add: between_def amqp_heartbeat_enabled_def m)
  moreover have "tuned chm fm hb ?c" by (simp add: tuned_def m resized_def)
  moreover have "enough ?c bs = enough c bs" for bs by (simp add: enough_def unread_def m)
  ultimately show ?thesis using idle m by (intro exI [of _ ?c]) simp
qed

lemma tune_ok_frame_wf: "wf_frame (tune_ok_frame chm fm hb)" "length (frame_bytes (tune_ok_frame chm fm hb)) = 20"
  by (simp_all add: wf_frame_def tune_ok_frame_def frame_bytes_def payload_bytes_def wf_method_def method_wire_def)

lemma open_frame_wf:
  assumes "length (amqp_cstring_bytes vhost) < 256"
  shows "wf_frame (open_frame vhost)" "length (frame_bytes (open_frame vhost)) \<le> 4096"
  using assms
  by (simp_all add: wf_frame_def open_frame_def frame_bytes_def payload_bytes_def wf_method_def method_wire_def
      short_bytes_def)

lemma lower_limit_off: "0 \<le> server \<Longrightarrow> client \<le> 0 \<Longrightarrow> lower_limit server client = client"
  by (simp add: lower_limit_def)

lemma tuned_outbound: "tuned chm fm hb c \<Longrightarrow> 20 \<le> fm \<Longrightarrow> fm < 2 ^ 31 \<Longrightarrow> outbound_ok c \<and> outbound_len c = nat fm"
  by (simp add: tuned_def outbound_ok_def size_of_int_def)

definition logged_in :: amqp_rpc_reply where
  "logged_in = \<lparr>reply_type = AMQP_RESPONSE_NORMAL, reply_id = 0, reply_decoded = None, library_error = AMQP_STATUS_OK\<rparr>"

definition login_frames :: "amqp_frame list \<Rightarrow> bytes" where
  "login_frames fs = client_header @ wire fs"

text \<open>The frames of the server that a login expects.\<close>

definition is_method :: "u32 \<Rightarrow> amqp_method_struct option \<Rightarrow> amqp_frame \<Rightarrow> bool" where
  "is_method n d f \<longleftrightarrow> frame_type f = 1 \<and> frame_channel f = 0 \<and> method_part f = (n, d)"

lemma is_methodD: "is_method n d f \<Longrightarrow> frame_type f = 1" "is_method n d f \<Longrightarrow> frame_channel f = 0"
  "is_method n d f \<Longrightarrow> method_part f = (n, d)"
  by (simp_all add: is_method_def)

lemma open_ok_ends_call:
  "is_method AMQP_CONNECTION_OPEN_OK_METHOD d f \<Longrightarrow> ends_call 0 [AMQP_CONNECTION_OPEN_OK_METHOD, 0] f"
  by (auto simp: is_method_def ends_call_def method_part_def AMQP_CONNECTION_OPEN_OK_METHOD_def
      split: amqp_frame_payload.splits)

context duplex_stream
begin

lemma send_header_between:
  assumes "between coming c fs"
  shows "\<exists>c'. amqp_send_header P c = (Ok (), c') \<and> between coming c' fs \<and> waits c c' \<and>
    enough c' (coming (conn.more c')) = enough c (coming (conn.more c)) \<and>
    outgoing (conn.more c') = outgoing (conn.more c) @ client_header"
proof -
  obtain m where m: "amqp_send_header P c = (Ok (), c\<lparr>conn.more := m\<rparr>)" "coming m = coming (conn.more c)"
    "outgoing m = outgoing (conn.more c) @ client_header"
    using sends [of client_header c] by (auto simp: amqp_send_header_def)
  have "awaiting (c\<lparr>outbound_buffer := outbound_buffer c, conn.more := m\<rparr>) (coming m) fs"
    using assms m(2) by (intro awaiting_sent) (simp add: between_def)
  then have "between coming (c\<lparr>conn.more := m\<rparr>) fs"
    using assms by (simp add: between_def amqp_heartbeat_enabled_def)
  moreover have "waits c (c\<lparr>conn.more := m\<rparr>)" by (simp add: waits_def conn_blocks_def)
  ultimately show ?thesis using m by (intro exI [of _ "c\<lparr>conn.more := m\<rparr>"]) (simp add: enough_def unread_def)
qed

lemma release_between:
  assumes "between coming c fs" and "conn_state c = CONNECTION_STATE_IDLE"
  shows "\<exists>c'. amqp_release_buffers c = (Ok (), c') \<and> between coming c' fs \<and> only_memory c c'"
  using release_buffers_run [OF between_inv(1) [OF assms(1)] assms(2)] only_memory_between [OF assms(1)] by blast

text \<open>The dialogue up to the message that tunes the connection.\<close>

lemma login_first_half:
  assumes c: "between coming c (start # tune # fs)" and P: "ndebug P" and o: "outbound_ok c"
    and start: "is_method AMQP_CONNECTION_START_METHOD (Some (amqp_connection_start_t 0 9 sp mechs locs)) start"
    and tune: "is_method AMQP_CONNECTION_TUNE_METHOD (Some (amqp_connection_tune_t scm sfm shb)) tune"
    and f: "wf_frame (start_ok_frame props user pass)" "length (frame_bytes (start_ok_frame props user pass)) \<le> outbound_len c"
    and n: "enough c (coming (conn.more c)) \<le> n"
  shows "\<exists>c'. login_dialogue n P vhost chm fm hb props AMQP_SASL_METHOD_PLAIN [user, pass] c =
      and_then (amqp_tune_connection P (lower_limit (uint scm) chm) (lower_limit (sint sfm) fm) (lower_limit (uint shb) hb)) (\<lambda>_.
      and_then (send_tune_ok P (lower_limit (uint scm) chm) (lower_limit (sint sfm) fm) (lower_limit (uint shb) hb)) (\<lambda>_.
      and_then amqp_release_buffers (\<lambda>_. open_vhost n P vhost))) c' \<and>
    between coming c' fs \<and> waits c c' \<and> conn_state c' = CONNECTION_STATE_IDLE \<and>
    enough c' (coming (conn.more c')) \<le> n \<and>
    outgoing (conn.more c') = outgoing (conn.more c) @ client_header @ frame_bytes (start_ok_frame props user pass)"
proof -
  from send_header_between [OF c] obtain c1 where 1: "amqp_send_header P c = (Ok (), c1)"
    "between coming c1 (start # tune # fs)" "waits c c1"
    "enough c1 (coming (conn.more c1)) = enough c (coming (conn.more c))"
    "outgoing (conn.more c1) = outgoing (conn.more c) @ client_header" by blast
  have n1: "enough c1 (coming (conn.more c1)) \<le> n" using 1(4) n by simp
  from wait_method_between [OF 1(2) P is_methodD [OF start] n1] obtain c2 where
    2: "amqp_simple_wait_method n P 0 AMQP_CONNECTION_START_METHOD c1 =
        (Ok (AMQP_CONNECTION_START_METHOD, Some (amqp_connection_start_t 0 9 sp mechs locs)), c2)"
    "between coming c2 (tune # fs)" "waits c1 c2" "conn_state c2 = CONNECTION_STATE_IDLE"
    "enough c2 (coming (conn.more c2)) \<le> enough c1 (coming (conn.more c1))"
    "outgoing (conn.more c2) = outgoing (conn.more c1)"
    by blast
  have n2: "enough c2 (coming (conn.more c2)) \<le> n" using 2(5) n1 by simp
  have w2: "waits c c2" using 1(3) 2(3) by (rule waits_trans)
  have o2: "outbound_ok c2" "outbound_len c2 = outbound_len c" using waitsD [OF w2] o by simp_all
  from send_start_ok_between [OF 2(2) o2(1) f(1), of "[]"] f(2) o2(2) obtain c3 where
    3: "send_start_ok P props AMQP_SASL_METHOD_PLAIN [user, pass] c2 = (Ok (), c3)" "between coming c3 (tune # fs)"
    "waits c2 c3" "conn_state c3 = CONNECTION_STATE_IDLE" "enough c3 (coming (conn.more c3)) \<le> n"
    "outgoing (conn.more c3) = outgoing (conn.more c2) @ frame_bytes (start_ok_frame props user pass)"
    using 2(4) n2 by auto
  from release_between [OF 3(2,4)] obtain c4 where
    4: "amqp_release_buffers c3 = (Ok (), c4)" "between coming c4 (tune # fs)" "only_memory c3 c4" by blast
  have n4: "enough c4 (coming (conn.more c4)) \<le> n"
    using 3(5) only_memory_enough [OF 4(3)] only_memory_more [OF 4(3)] by simp
  from wait_method_between [OF 4(2) P is_methodD [OF tune] n4] obtain c5 where
    5: "amqp_simple_wait_method n P 0 AMQP_CONNECTION_TUNE_METHOD c4 =
        (Ok (AMQP_CONNECTION_TUNE_METHOD, Some (amqp_connection_tune_t scm sfm shb)), c5)"
    "between coming c5 fs" "waits c4 c5" "conn_state c5 = CONNECTION_STATE_IDLE"
    "enough c5 (coming (conn.more c5)) \<le> enough c4 (coming (conn.more c4))"
    "outgoing (conn.more c5) = outgoing (conn.more c4)"
    by blast
  have "enough c5 (coming (conn.more c5)) \<le> n" using 5(5) n4 by simp
  moreover have "waits c c5" using w2 3(3) only_memory_waits [OF 4(3)] 5(3) by (blast intro: waits_trans)
  moreover have "outgoing (conn.more c5) = outgoing (conn.more c) @ client_header @ frame_bytes (start_ok_frame props user pass)"
    using 1(5) 2(6) 3(6) 5(6) only_memory_more [OF 4(3)] by simp
  ultimately show ?thesis using 1(1) 2(1) 3(1) 4(1) 5(1,2,4)
    by (intro exI [of _ c5])
      (simp add: login_dialogue_def check_version_def negotiate_def AMQP_PROTOCOL_VERSION_MAJOR_def
        AMQP_PROTOCOL_VERSION_MINOR_def and_then_Ok)
qed

end

context duplex_stream
begin

lemma login_second_half:
  assumes c: "between coming c (skipped @ opened # rest)" "conn_state c = CONNECTION_STATE_IDLE" and P: "ndebug P"
    and opened: "is_method AMQP_CONNECTION_OPEN_OK_METHOD d opened"
    and skipped: "list_all (\<lambda>g. \<not> ends_call 0 [AMQP_CONNECTION_OPEN_OK_METHOD, 0] g) skipped"
    and fm: "4096 \<le> fm" "fm < 2 ^ 31" and hb: "hb \<le> 0" and v: "length (amqp_cstring_bytes vhost) < 256"
    and n: "enough c (coming (conn.more c)) < n"
  shows "\<exists>c'. and_then (amqp_tune_connection P chm fm hb) (\<lambda>_. and_then (send_tune_ok P chm fm hb) (\<lambda>_.
      and_then amqp_release_buffers (\<lambda>_. open_vhost n P vhost))) c = (Ok logged_in, c') \<and>
    awaiting c' (coming (conn.more c')) rest \<and> tuned chm fm hb c' \<and> conn_state c' = CONNECTION_STATE_IDLE \<and>
    queued_frames c' = map (received (stale_properties c)) (not_heartbeats skipped) \<and>
    outgoing (conn.more c') = outgoing (conn.more c) @ wire [tune_ok_frame chm fm hb, open_frame vhost]"
proof -
  let ?fs = "skipped @ opened # rest"
  from tune_between [OF c hb] obtain c1 where
    1: "amqp_tune_connection P chm fm hb c = (Ok (), c1)" "between coming c1 ?fs" "tuned chm fm hb c1"
    "conn_state c1 = CONNECTION_STATE_IDLE" "conn.more c1 = conn.more c" "stale_properties c1 = stale_properties c"
    "enough c1 (coming (conn.more c1)) = enough c (coming (conn.more c))" by blast
  have o1: "outbound_ok c1" "outbound_len c1 = nat fm" using tuned_outbound [OF 1(3)] fm by simp_all
  have l1: "length (frame_bytes (tune_ok_frame chm fm hb)) \<le> outbound_len c1"
    using fm by (simp add: tune_ok_frame_wf o1)
  from send_method_between [OF 1(2) o1(1) tune_ok_frame_wf(1) [unfolded tune_ok_frame_def]
      l1 [unfolded tune_ok_frame_def]] obtain c2 where
    2: "send_tune_ok P chm fm hb c1 = (Ok (), c2)" "between coming c2 ?fs" "waits c1 c2" "conn_state c2 = conn_state c1"
    "enough c2 (coming (conn.more c2)) = enough c1 (coming (conn.more c1))"
    "outgoing (conn.more c2) = outgoing (conn.more c1) @ frame_bytes (tune_ok_frame chm fm hb)"
    unfolding send_tune_ok_def tune_ok_frame_def by blast
  have "conn_state c2 = CONNECTION_STATE_IDLE" using 1(4) 2(4) by simp
  from release_between [OF 2(2) this] obtain c3 where
    3: "amqp_release_buffers c2 = (Ok (), c3)" "between coming c3 ?fs" "only_memory c2 c3" by blast
  have w3: "waits c1 c3" using 2(3) only_memory_waits [OF 3(3)] by (rule waits_trans)
  have o3: "outbound_ok c3" "outbound_len c3 = nat fm" using waitsD [OF w3] o1 by simp_all
  have l3: "length (frame_bytes (open_frame vhost)) \<le> outbound_len c3"
    using fm open_frame_wf(2) [OF v] by (simp add: o3)
  from send_method_between [OF 3(2) o3(1) open_frame_wf(1) [OF v, unfolded open_frame_def]
      l3 [unfolded open_frame_def]] obtain c4 where
    4: "amqp_send_method P 0 AMQP_CONNECTION_OPEN_METHOD (Some (amqp_connection_open_t (amqp_cstring_bytes vhost) [] True)) c3 =
        (Ok (), c4)" "between coming c4 ?fs" "waits c3 c4"
    "enough c4 (coming (conn.more c4)) = enough c3 (coming (conn.more c3))"
    "outgoing (conn.more c4) = outgoing (conn.more c3) @ frame_bytes (open_frame vhost)"
    unfolding open_frame_def by blast
  have n4: "enough c4 (coming (conn.more c4)) < n"
    using n 1(7) 2(5) 4(4) only_memory_enough [OF 3(3)] only_memory_more [OF 3(3)] by simp
  have b4: "awaiting c4 (coming (conn.more c4)) ?fs" "\<not> amqp_heartbeat_enabled c4" "0 < length (sock_inbound_buffer c4)"
    "queued_frames c4 = []" using 4(2) by (simp_all add: between_def)
  from simple_rpc_run [OF 4(1) b4(1) P b4(2,3) skipped open_ok_ends_call [OF opened] n4] obtain c5 where
    5: "amqp_simple_rpc n P 0 AMQP_CONNECTION_OPEN_METHOD [AMQP_CONNECTION_OPEN_OK_METHOD, 0]
        (Some (amqp_connection_open_t (amqp_cstring_bytes vhost) [] True)) c3 =
      (Ok (method_reply [AMQP_CONNECTION_OPEN_OK_METHOD, 0] (method_part opened)), c5)"
    "awaiting c5 (coming (conn.more c5)) rest" "waits c4 c5" "conn_state c5 = CONNECTION_STATE_IDLE"
    "queued_frames c5 = queued_frames c4 @ map (received (stale_properties c4)) (not_heartbeats skipped)"
    "outgoing (conn.more c5) = outgoing (conn.more c4)" by blast
  have "open_vhost n P vhost c3 = (Ok logged_in, c5)"
    using 5(1) is_methodD(3) [OF opened]
    by (simp add: open_vhost_def method_reply_def logged_in_def and_then_Ok AMQP_CONNECTION_OPEN_OK_METHOD_def)
  moreover have w5: "waits c1 c5" using w3 4(3) 5(3) by (blast intro: waits_trans)
  then have "tuned chm fm hb c5" using 1(3) by (simp add: tuned_def waitsD)
  moreover have "stale_properties c4 = stale_properties c"
    using waitsD(8) [OF w3] waitsD(8) [OF 4(3)] 1(6) by simp
  moreover have "outgoing (conn.more c5) = outgoing (conn.more c) @ wire [tune_ok_frame chm fm hb, open_frame vhost]"
    using 1(5) 2(6) 4(5) 5(6) only_memory_more [OF 3(3)] by simp
  ultimately show ?thesis using 1(1) 2(1) 3(1) 5 b4(4)
    by (intro exI [of _ c5]) (simp add: and_then_Ok)
qed

lemma login_run:
  assumes c: "between coming c (start # tune # skipped @ opened # rest)" and P: "ndebug P" and o: "outbound_ok c"
    and start: "is_method AMQP_CONNECTION_START_METHOD (Some (amqp_connection_start_t 0 9 sp mechs locs)) start"
    and tune: "is_method AMQP_CONNECTION_TUNE_METHOD (Some (amqp_connection_tune_t scm sfm shb)) tune"
    and opened: "is_method AMQP_CONNECTION_OPEN_OK_METHOD d opened"
    and skipped: "list_all (\<lambda>g. \<not> ends_call 0 [AMQP_CONNECTION_OPEN_OK_METHOD, 0] g) skipped"
    and f: "wf_frame (start_ok_frame props user pass)" "length (frame_bytes (start_ok_frame props user pass)) \<le> outbound_len c"
    and chm': "chm' = lower_limit (uint scm) chm"
    and fm': "fm' = lower_limit (sint sfm) fm" "4096 \<le> fm'" "fm' < 2 ^ 31"
    and hb: "hb \<le> 0" and v: "length (amqp_cstring_bytes vhost) < 256"
    and n: "enough c (coming (conn.more c)) < n"
  shows "\<exists>c'. amqp_login_inner n P vhost chm fm hb props AMQP_SASL_METHOD_PLAIN [user, pass] c = (Ok logged_in, c') \<and>
    awaiting c' (coming (conn.more c')) rest \<and> tuned chm' fm' hb c' \<and>
    queued_frames c' = map (received (stale_properties c)) (not_heartbeats skipped) \<and>
    outgoing (conn.more c') = outgoing (conn.more c) @ client_header @
      wire [start_ok_frame props user pass, tune_ok_frame chm' fm' hb, open_frame vhost]"
proof -
  have hb': "lower_limit (uint shb) hb = hb" using hb by (intro lower_limit_off) simp_all
  have n': "enough c (coming (conn.more c)) \<le> n - 1" using n by simp
  obtain k where k: "n = Suc k" using n by (cases n) auto
  have nk: "enough c (coming (conn.more c)) \<le> n" using n by simp
  from login_first_half [OF c P o start tune f nk, of vhost chm fm hb] obtain c1 where
    1: "login_dialogue n P vhost chm fm hb props AMQP_SASL_METHOD_PLAIN [user, pass] c =
      and_then (amqp_tune_connection P chm' fm' hb) (\<lambda>_. and_then (send_tune_ok P chm' fm' hb) (\<lambda>_.
        and_then amqp_release_buffers (\<lambda>_. open_vhost n P vhost))) c1"
    "between coming c1 (skipped @ opened # rest)" "waits c c1" "conn_state c1 = CONNECTION_STATE_IDLE"
    "outgoing (conn.more c1) = outgoing (conn.more c) @ client_header @ frame_bytes (start_ok_frame props user pass)"
    unfolding hb' chm' [symmetric] fm'(1) [symmetric] by blast
  have aw: "awaiting c (coming (conn.more c)) ([start] @ tune # skipped @ opened # rest)"
    "awaiting c1 (coming (conn.more c1)) (skipped @ opened # rest)"
    using c 1(2) by (simp_all add: between_def)
  have "enough c1 (coming (conn.more c1)) < n" using awaiting_less [OF aw] n by (simp add: enough_def)
  from login_second_half [OF 1(2,4) P opened skipped fm'(2,3) hb v this] obtain c2 where
    2: "and_then (amqp_tune_connection P chm' fm' hb) (\<lambda>_. and_then (send_tune_ok P chm' fm' hb) (\<lambda>_.
        and_then amqp_release_buffers (\<lambda>_. open_vhost n P vhost))) c1 = (Ok logged_in, c2)"
    "awaiting c2 (coming (conn.more c2)) rest" "tuned chm' fm' hb c2"
    "queued_frames c2 = map (received (stale_properties c1)) (not_heartbeats skipped)"
    "outgoing (conn.more c2) = outgoing (conn.more c1) @ wire [tune_ok_frame chm' fm' hb, open_frame vhost]" by blast
  have "conn_inv c2" using 2(2) by (simp add: awaiting_def)
  from maybe_release_buffers_run [OF this] obtain c3 where
    3: "amqp_maybe_release_buffers c2 = (Ok (), c3)" "conn_inv c3" "only_memory c2 c3" by blast
  have "amqp_login_inner n P vhost chm fm hb props AMQP_SASL_METHOD_PLAIN [user, pass] c = (Ok logged_in, c3)"
    using 1(1) 2(1) 3(1) by (simp add: amqp_login_inner_def catching_def and_then_Ok)
  moreover have "awaiting c3 (coming (conn.more c3)) rest"
    using awaiting_only_memory [OF 2(2) 3(3,2)] only_memory_more [OF 3(3)] by simp
  moreover have "tuned chm' fm' hb c3" using 2(3) only_memoryD [OF 3(3)] by (simp add: tuned_def)
  moreover have "outgoing (conn.more c3) = outgoing (conn.more c) @ client_header @
      wire [start_ok_frame props user pass, tune_ok_frame chm' fm' hb, open_frame vhost]"
    using 1(5) 2(5) only_memory_more [OF 3(3)] by simp
  moreover have "queued_frames c3 = map (received (stale_properties c)) (not_heartbeats skipped)"
    using 2(4) only_memoryD [OF 3(3)] waitsD(8) [OF 1(3)] by simp
  ultimately show ?thesis by blast
qed

end

section \<open>Types\<close>

text \<open>\<open>yields Q m\<close>: every value \<open>m\<close> returns satisfies \<open>Q\<close>.\<close>

definition yields :: "('b \<Rightarrow> bool) \<Rightarrow> ('s, 'b) cm \<Rightarrow> bool" where
  "yields Q m \<longleftrightarrow> (\<forall>s a s'. m s = (Ok a, s') \<longrightarrow> Q a)"

lemma yields_ret: "Q a \<Longrightarrow> yields Q (ret a)"
  by (simp add: yields_def)

lemma yields_raise: "yields Q (raise e)"
  by (simp add: yields_def)

lemma yields_and_then: "(\<And>a. yields Q (f a)) \<Longrightarrow> yields Q (and_then m f)"
  unfolding yields_def by (metis and_then_OkE)

lemma yieldsD: "yields Q m \<Longrightarrow> m s = (Ok a, s') \<Longrightarrow> Q a"
  by (auto simp: yields_def)

definition typed_method :: "u32 \<Rightarrow> amqp_method_struct option \<Rightarrow> bool" where
  "typed_method n d \<longleftrightarrow> (case d of None \<Rightarrow> n \<in> set methods_without_fields | Some m \<Rightarrow> struct_number m = n)"

lemma yields_some_struct: "yields (\<lambda>m. Q (Some m)) (d v) \<Longrightarrow> yields Q (some_struct d v)"
  unfolding yields_def some_struct_def by (auto elim!: and_then_OkE) blast

lemma yields_no_fields: "Q None \<Longrightarrow> yields Q (no_fields v)"
  by (simp add: no_fields_def yields_def)

lemma yields_decode_cases: "list_all (\<lambda>(n, dec). yields (typed_method n) (dec v)) decode_cases"
  unfolding decode_cases_def list.pred_inject prod.case
  by (intro conjI TrueI yields_some_struct yields_no_fields; (unfold decode_defs)?; (intro yields_and_then yields_ret)?)
    (simp_all add: typed_method_def methods_without_fields_def)

lemma decode_method_typed: "yields (typed_method n) (decode_method n v)"
  unfolding decode_method_def
proof (cases "map_of decode_cases n")
  case (Some dec)
  then have "(n, dec) \<in> set decode_cases" by (rule map_of_SomeD)
  with yields_decode_cases [of v] Some show "yields (typed_method n)
      (case map_of decode_cases n of None \<Rightarrow> raise AMQP_STATUS_UNKNOWN_METHOD | Some d \<Rightarrow> d v)"
    by (auto simp: list_all_iff)
qed (simp add: yields_raise)

text \<open>The type of a frame tells which member of the union is valid, the method number which struct.\<close>

definition typed_frame :: "amqp_frame \<Rightarrow> bool" where
  "typed_frame f \<longleftrightarrow> (case frame_payload f of
     Method_payload n d \<Rightarrow> frame_type f = 1 \<and> typed_method n d
   | Properties_payload _ _ _ \<Rightarrow> frame_type f = 2
   | Body_payload _ \<Rightarrow> frame_type f = 3
   | Protocol_header _ _ _ _ \<Rightarrow> frame_type f = 0x41
   | No_payload \<Rightarrow> frame_type f = 0 \<or> frame_type f = 8)"

lemma yields_then:
  assumes "yields R m" and "\<And>a. R a \<Longrightarrow> yields Q (f a)"
  shows "yields Q (and_then m f)"
  using assms unfolding yields_def by (metis and_then_OkE)

lemma yields_from_start: "yields Q m \<Longrightarrow> yields Q (from_start m)"
  unfolding yields_def from_start_def by (auto split: prod.splits)

lemma yields_on_pool: "yields Q m \<Longrightarrow> yields Q (on_pool ch m)"
  unfolding yields_def on_pool_def by (auto split: prod.splits option.splits)

lemma decode_payload_typed:
  "yields (\<lambda>(ty', payload). typed_frame \<lparr>frame_type = ty', frame_channel = ch', frame_payload = payload\<rparr>)
     (decode_payload ty ch)"
proof -
  have "yields (typed_method n) (on_pool ch (amqp_decode_method n v))" for n v
    unfolding amqp_decode_method_def by (intro yields_on_pool yields_from_start decode_method_typed)
  then have m: "yields (\<lambda>(ty', payload). typed_frame \<lparr>frame_type = ty', frame_channel = ch', frame_payload = payload\<rparr>)
      (and_then (on_pool ch (amqp_decode_method n v)) (\<lambda>decoded. ret (1, Method_payload n decoded)))" for n v
    by (rule yields_then) (simp add: yields_def typed_frame_def)
  show ?thesis
  proof (cases "ty = 1")
    case True
    then show ?thesis
      by (simp add: decode_payload_def del: run_ret) (rule yields_and_then, rule yields_and_then, rule m)
  next
    case False
    then show ?thesis unfolding decode_payload_def
      by (auto simp: typed_frame_def simp del: run_ret intro!: yields_and_then yields_ret)
  qed
qed

lemma handle_body_typed: "yields (\<lambda>(n, f). typed_frame f) (handle_body k)"
  unfolding handle_body_def
  by (auto intro!: yields_and_then yields_raise yields_ret yields_then [OF decode_payload_typed] simp del: run_ret run_raise)

lemma yields_abort: "yields Q amqp_abort"
  by (simp add: yields_def)

lemma typed_frames [simp]: "typed_frame no_frame" "typed_frame (protocol_header raw)"
  by (simp_all add: typed_frame_def no_frame_def protocol_header_def)

lemma handle_header_typed: "yields (\<lambda>(n, f). typed_frame f) (handle_header k data)"
  unfolding handle_header_def
  by (auto intro!: yields_and_then yields_raise yields_ret handle_body_typed simp del: run_ret run_raise)

lemma handle_input_typed: "yields (\<lambda>(n, f). typed_frame f) (amqp_handle_input data)"
  unfolding amqp_handle_input_def
  by (auto intro!: yields_and_then yields_ret yields_abort handle_body_typed handle_header_typed
      simp del: run_ret run_raise split: amqp_connection_state_enum.split)

section \<open>Properties\<close>

text \<open>A new connection with an outbound buffer of 256 bytes, and a server that sends the frames \<open>fs\<close>.\<close>

definition stream_of :: "amqp_frame list \<Rightarrow> stream" where
  "stream_of fs = conn.extend (initial_conn\<lparr>outbound_buffer := replicate 256 0, outbound_len := 256\<rparr>)
     \<lparr>arriving = wire fs, piece = 4, written = []\<rparr>"

lemma sample_conn_limit [simp]: "sock_inbound_limit sample_conn = 0"
  by (simp add: sample_conn_def zeroed_def heap.defs)

lemma stream_of_simps [simp]:
  "arriving (stream_of fs) = wire fs" "\<not> amqp_heartbeat_enabled (stream_of fs)" "written (stream_of fs) = []"
  "length (sock_inbound_buffer (stream_of fs)) = 64" "unread (stream_of fs) = []" "queued_frames (stream_of fs) = []"
  "granting (stream_of fs)" "buffer_ok (stream_of fs)" "stale (stream_of fs) = (\<lambda>_. 0)"
  "outbound_len (stream_of fs) = 256" "outbound_ok (stream_of fs)"
  by (simp_all add: stream_of_def conn.defs amqp_heartbeat_enabled_def unread_def slice_def granting_def buffer_ok_def
      outbound_ok_def initial_conn_def size_minus_def)

lemma stream_of_inv [simp]: "conn_inv (stream_of fs)"
proof -
  have "conn_inv initial_conn" by simp
  then show ?thesis by (simp add: conn_inv_def stream_of_def conn.defs heap_fresh_def conn_blocks_def)
qed

lemma stream_of_between:
  assumes "\<forall>g\<in>set (f # fs). wf_frame g" and "frame_bytes f ! 7 = 0"
  shows "between script_coming (stream_of (f # fs)) (f # fs)"
proof -
  have "starting (frame_bytes f) 0 (stream_of (f # fs))"
    using assms(2) by (simp add: starting_def) (simp add: stream_of_def conn.defs)
  with assms(1) have "awaiting (stream_of (f # fs)) (wire (f # fs)) (f # fs)"
    by (intro awaiting_start) (simp_all add: reader_at_def)
  then show ?thesis by (simp add: between_def)
qed

definition method_frame :: "u16 \<Rightarrow> amqp_method_struct \<Rightarrow> amqp_frame" where
  "method_frame ch m = \<lparr>frame_type = 1, frame_channel = ch, frame_payload = Method_payload (struct_number m) (Some m)\<rparr>"

lemma method_frame_eighth: "frame_bytes (method_frame ch m) ! 7 = ucast (drop_bit 24 (struct_number m))"
  by (simp add: method_frame_def frame_bytes_def frame_image_def payload_bytes_def be8_def be16_def be32_def)

lemma method_frame_wf:
  "method_wf m \<Longrightarrow> length (method_bytes m) < 2 ^ 32 - 12 \<Longrightarrow> wf_frame (method_frame ch m)"
  by (simp add: wf_frame_def method_frame_def frame_bytes_def payload_bytes_def wf_method_def method_wire_def)

lemma method_part_frame [simp]: "method_part (method_frame ch m) = (struct_number m, Some m)"
  by (simp add: method_part_def method_frame_def)

text \<open>
  Every frame that \<^verbatim>\<open>amqp_handle_input\<close> hands out is well typed, whatever the data it is made from:
  its type says which member of the union is valid, the struct of a method is the one its number
  announces, and a method has no struct only if it has no fields.  The casts of \<^verbatim>\<open>amqp_login_inner\<close> and of
  the callers of \<^verbatim>\<open>amqp_simple_rpc_decoded\<close> rest on this.
\<close>

theorem input_frames_are_typed:
  assumes "amqp_handle_input data c = (Ok (n, f), c')"
  shows "typed_frame f"
  using yieldsD [OF handle_input_typed assms] by simp

theorem input_frames_are_typed_witness:
  "\<exists>n f c'. amqp_handle_input [1] sample_conn = (Ok (n, f), c') \<and> typed_frame f"
proof -
  have "goes_on (frame_bytes sample_frame) 0 [1]"
    by (simp add: goes_on_def sample_frame_def frame_bytes_def frame_image_def payload_bytes_def be8_def)
  from handle_input_step [OF sample_conn_inv ready_midway [OF sample_conn_ready(1)] _
      heads_frame_bytes [OF sample_frame_wf] _ this refl]
  obtain n f c' where "amqp_handle_input [1] sample_conn = (Ok (n, f), c')"
    by (auto simp: sample_frame_length)
  with input_frames_are_typed [OF this] show ?thesis by blast
qed


definition purge_ok :: amqp_frame where
  "purge_ok = method_frame 1 (amqp_queue_purge_ok_t 5)"

definition purge_stream :: stream where
  "purge_stream = stream_of [sample_frame, heartbeat_frame, purge_ok]"

lemma purge_stream_between: "between script_coming purge_stream [sample_frame, heartbeat_frame, purge_ok]"
  unfolding purge_stream_def
  by (rule stream_of_between) (auto simp: purge_ok_def sample_frame_eighth intro!: method_frame_wf)



definition server_start :: amqp_frame where
  "server_start = method_frame 0 (amqp_connection_start_t 0 9 [] (ascii ''PLAIN'') (ascii ''en_US''))"

definition server_tune :: "u32 \<Rightarrow> amqp_frame" where
  "server_tune fm = method_frame 0 (amqp_connection_tune_t 0 fm 580)"

definition server_open_ok :: amqp_frame where
  "server_open_ok = method_frame 0 (amqp_connection_open_ok_t [])"

lemmas server_frame_defs = server_start_def server_tune_def server_open_ok_def

lemma server_frames_wf: "wf_frame server_start" "wf_frame (server_tune fm)" "wf_frame server_open_ok"
  by (auto simp: server_frame_defs ascii_def sized_def short_bytes_def wf_table_def intro!: method_frame_wf)

lemma server_frames_length:
  "length (wire [server_start, server_tune fm, sample_frame, server_open_ok]) \<le> 200"
  by (simp add: sample_frame_length)
    (simp add: server_frame_defs method_frame_def frame_bytes_def payload_bytes_def method_wire_def
      ascii_def sized_def short_bytes_def)

definition login_stream :: "u32 \<Rightarrow> stream" where
  "login_stream fm = stream_of [server_start, server_tune fm, sample_frame, server_open_ok]"

lemma login_stream_between:
  "between script_coming (login_stream fm) (server_start # server_tune fm # [sample_frame] @ server_open_ok # [])"
proof -
  have "frame_bytes server_start ! 7 = 0"
    unfolding server_start_def method_frame_eighth by (simp add: AMQP_CONNECTION_START_METHOD_def)
  moreover have "\<forall>g\<in>set [server_start, server_tune fm, sample_frame, server_open_ok]. wf_frame g"
    using server_frames_wf by simp
  ultimately show ?thesis unfolding login_stream_def using stream_of_between by simp
qed

lemma guest: "amqp_cstring_bytes (ascii ''guest'') = ascii ''guest''" "amqp_cstring_bytes (ascii ''/'') = ascii ''/''"
  by (simp_all add: amqp_cstring_bytes_def ascii_def)

lemma guest_start_ok:
  "wf_frame (start_ok_frame [] (ascii ''guest'') (ascii ''guest''))"
  "length (frame_bytes (start_ok_frame [] (ascii ''guest'') (ascii ''guest''))) \<le> 256"
  by (simp_all add: start_ok_frame_def client_table_def default_table_def sasl_plain_def guest wf_frame_def frame_bytes_def
      payload_bytes_def wf_method_def method_wire_def wf_table_def ascii_def sized_def short_bytes_def amqp_cstring_bytes_def)


lemma send_without_buffer: "outbound_buffer c = [] \<Longrightarrow> fst (amqp_send_frame P f c) = Undef"
  by (simp add: amqp_send_frame_def put_out_def run_and_then amqp_e8_be)

lemma login_undef:
  assumes "fst (login_dialogue n P vhost chm fm hb props m args c) = Undef"
  shows "fst (amqp_login_inner n P vhost chm fm hb props m args c) = Undef"
  using assms by (cases "login_dialogue n P vhost chm fm hb props m args c")
    (simp add: amqp_login_inner_def catching_def run_and_then)

text \<open>
  A login without a limit of the client on the frame size overruns a buffer.  The client's
  \<^verbatim>\<open>frame_max\<close> 0, which means no limit on the wire, counts as the lower of the two, the outbound buffer
  gets the size 0, and the frame tune-ok is written to it.
\<close>

theorem login_without_limit_overruns:
  assumes "duplex_stream P coming outgoing" and "between coming c (start # tune # fs)" and "ndebug P" and "outbound_ok c"
    and "is_method AMQP_CONNECTION_START_METHOD (Some (amqp_connection_start_t 0 9 sp mechs locs)) start"
    and "is_method AMQP_CONNECTION_TUNE_METHOD (Some (amqp_connection_tune_t scm sfm shb)) tune"
    and "wf_frame (start_ok_frame props user pass)" and "length (frame_bytes (start_ok_frame props user pass)) \<le> outbound_len c"
    and "0 \<le> sint sfm" and "hb \<le> 0" and "enough c (coming (conn.more c)) \<le> n"
  shows "fst (amqp_login_with_properties n P vhost chm 0 hb props AMQP_SASL_METHOD_PLAIN [user, pass] c) = Undef"
proof -
  let ?chm = "lower_limit (uint scm) chm"
  have z: "lower_limit (sint sfm) 0 = 0" "lower_limit (uint shb) hb = hb"
    using assms(9) lower_limit_off [of "uint shb" hb] assms(10) by (simp_all add: lower_limit_def)
  from duplex_stream.login_first_half [OF assms(1-8,11), of vhost chm 0 hb] obtain c1 where
    1: "login_dialogue n P vhost chm 0 hb props AMQP_SASL_METHOD_PLAIN [user, pass] c =
      and_then (amqp_tune_connection P ?chm 0 hb) (\<lambda>_. and_then (send_tune_ok P ?chm 0 hb) (\<lambda>_.
        and_then amqp_release_buffers (\<lambda>_. open_vhost n P vhost))) c1"
    "between coming c1 fs" "conn_state c1 = CONNECTION_STATE_IDLE"
    unfolding z by blast
  obtain c2 where 2: "amqp_tune_connection P ?chm 0 hb c1 = (Ok (), c2)" "tuned ?chm 0 hb c2"
    using tune_between [OF 1(2,3) assms(10)] by blast
  have "outbound_buffer c2 = []" using 2(2) by (simp add: tuned_def size_of_int_def)
  then have "fst (send_tune_ok P ?chm 0 hb c2) = Undef"
    unfolding send_tune_ok_def amqp_send_method_def by (rule send_without_buffer)
  then have "fst (login_dialogue n P vhost chm 0 hb props AMQP_SASL_METHOD_PLAIN [user, pass] c) = Undef"
    unfolding 1(1) using 2(1) by (simp add: and_then_Ok and_then_Undef)
  then show ?thesis unfolding amqp_login_with_properties_def by (rule login_undef)
qed

theorem login_without_limit_overruns_witness:
  "fst (amqp_login_with_properties 500 scripted (ascii ''/'') 0 0 0 [] AMQP_SASL_METHOD_PLAIN
      [ascii ''guest'', ascii ''guest''] (login_stream 8192)) = Undef"
proof (rule login_without_limit_overruns [where scm = 0 and sfm = 8192 and shb = 580 and sp = "[]" and mechs = "ascii ''PLAIN''" and locs = "ascii ''en_US''"])
  show "duplex_stream scripted script_coming script_written" by (rule script.duplex_stream_axioms)
  show "between script_coming (login_stream 8192) (server_start # server_tune 8192 # [sample_frame] @ server_open_ok # [])"
    by (rule login_stream_between)
  show "enough (login_stream 8192) (script_coming (conn.more (login_stream 8192))) \<le> 500"
    using server_frames_length [of 8192] by (simp add: enough_def login_stream_def)
  show "length (frame_bytes (start_ok_frame [] (ascii ''guest'') (ascii ''guest''))) \<le> outbound_len (login_stream 8192)"
    using guest_start_ok(2) by (simp add: login_stream_def)
qed (simp_all add: scripted_def guest_start_ok login_stream_def,
  simp_all add: is_method_def server_frame_defs method_frame_def method_part_def)

text \<open>
  A server limit on the frame size of \<open>2 ^ 31\<close> bytes or more becomes negative when it is stored in an
  \<^verbatim>\<open>int\<close>, is then the lower of the two whatever the client asked for, and makes \<^verbatim>\<open>amqp_tune_connection\<close>
  ask for a buffer of more than \<open>2 ^ 63\<close> bytes.
\<close>

theorem huge_server_limit_becomes_negative:
  assumes "2 ^ 31 \<le> uint sfm" and "0 \<le> fm"
  shows "\<exists>a b fm'. negotiate (Some (amqp_connection_tune_t scm sfm shb)) chm fm hb s = (Ok (a, fm', b), s) \<and>
    fm' < 0 \<and> 2 ^ 63 \<le> size_of_int fm'"
proof -
  have lt: "uint sfm < 2 ^ 32" using uint_lt2p [of sfm] by simp
  then have "uint sfm div 2 ^ 31 = 1"
    using assms(1) by (intro int_div_pos_eq [of _ _ _ "uint sfm - 2 ^ 31"]) simp_all
  then have "bit (uint sfm) 31" by (simp add: bit_iff_odd)
  moreover have "take_bit 32 (uint sfm) = uint sfm" using lt by (simp add: take_bit_int_eq_self)
  ultimately have s: "sint sfm = uint sfm - 2 ^ 32"
    by (simp add: sint_uint signed_take_bit_eq_take_bit_minus)
  then have "lower_limit (sint sfm) fm = uint sfm - 2 ^ 32" "uint sfm - 2 ^ 32 < 0"
    using assms(2) lt by (simp_all add: lower_limit_def)
  moreover have "(uint sfm - 2 ^ 32) mod 2 ^ 64 = uint sfm - 2 ^ 32 + 2 ^ 64"
    using lt assms(1) by (intro int_mod_pos_eq [of _ _ "- 1"]) simp_all
  then have "2 ^ 63 \<le> size_of_int (uint sfm - 2 ^ 32)"
    using assms(1) by (simp add: size_of_int_def)
  ultimately show ?thesis by (simp add: negotiate_def)
qed

theorem huge_server_limit_becomes_negative_witness:
  "\<exists>a b fm'. negotiate (Some (amqp_connection_tune_t 0 0xFFFFFFFF 580)) 0 131072 0 sample_conn = (Ok (a, fm', b), sample_conn) \<and>
    fm' < 0 \<and> 2 ^ 63 \<le> size_of_int fm'"
  by (rule huge_server_limit_becomes_negative) simp_all

end
