(* ===== verification/Api.thy ===== *)
theory Api
  imports Rpc
begin

text \<open>
  What applications call: \<^verbatim>\<open>amqp_api.c\<close> (error strings, publishing, closing, acknowledgements) and the
  functions at the end of \<^verbatim>\<open>amqp_framing.c\<close>, one for each synchronous method.
\<close>

unbundle bit_operations_syntax

section \<open>Error strings\<close>

primrec status_code :: "amqp_status_enum \<Rightarrow> int" where
  "status_code AMQP_STATUS_OK = 0x0"
| "status_code AMQP_STATUS_NO_MEMORY = - 0x0001"
| "status_code AMQP_STATUS_BAD_AMQP_DATA = - 0x0002"
| "status_code AMQP_STATUS_UNKNOWN_CLASS = - 0x0003"
| "status_code AMQP_STATUS_UNKNOWN_METHOD = - 0x0004"
| "status_code AMQP_STATUS_HOSTNAME_RESOLUTION_FAILED = - 0x0005"
| "status_code AMQP_STATUS_INCOMPATIBLE_AMQP_VERSION = - 0x0006"
| "status_code AMQP_STATUS_CONNECTION_CLOSED = - 0x0007"
| "status_code AMQP_STATUS_BAD_URL = - 0x0008"
| "status_code AMQP_STATUS_SOCKET_ERROR = - 0x0009"
| "status_code AMQP_STATUS_INVALID_PARAMETER = - 0x000A"
| "status_code AMQP_STATUS_TABLE_TOO_BIG = - 0x000B"
| "status_code AMQP_STATUS_WRONG_METHOD = - 0x000C"
| "status_code AMQP_STATUS_TIMEOUT = - 0x000D"
| "status_code AMQP_STATUS_TIMER_FAILURE = - 0x000E"
| "status_code AMQP_STATUS_HEARTBEAT_TIMEOUT = - 0x000F"
| "status_code AMQP_STATUS_TCP_ERROR = - 0x0100"
| "status_code AMQP_STATUS_TCP_SOCKETLIB_INIT_ERROR = - 0x0101"
| "status_code AMQP_STATUS_SSL_ERROR = - 0x0200"
| "status_code AMQP_STATUS_SSL_HOSTNAME_VERIFY_FAILED = - 0x0201"
| "status_code AMQP_STATUS_SSL_PEER_VERIFY_FAILED = - 0x0202"
| "status_code AMQP_STATUS_SSL_CONNECTION_FAILED = - 0x0203"

definition ERROR_MASK :: int where "ERROR_MASK = 0x00FF"
definition ERROR_CATEGORY_MASK :: int where "ERROR_CATEGORY_MASK = 0xFF00"

definition EC_base :: nat where "EC_base = 0"
definition EC_tcp :: nat where "EC_tcp = 1"
definition EC_ssl :: nat where "EC_ssl = 2"

definition base_error_strings :: "string list" where
  "base_error_strings =
     [''operation completed successfully'',
      ''could not allocate memory'',
      ''invalid AMQP data'',
      ''unknown AMQP class id'',
      ''unknown AMQP method id'',
      ''hostname lookup failed'',
      ''incompatible AMQP version'',
      ''connection closed unexpectedly'',
      ''could not parse AMQP URL'',
      ''a socket error occurred'',
      ''invalid parameter'',
      ''table too large for buffer'',
      ''unexpected method received'',
      ''request timed out'',
      ''system timer has failed'',
      ''heartbeat timeout, connection closed'']"

definition tcp_error_strings :: "string list" where
  "tcp_error_strings = [''a socket error occurred'', ''socket library initialization failed'']"

definition ssl_error_strings :: "string list" where
  "ssl_error_strings =
     [''a SSL error occurred'',
      ''SSL hostname verification failed'',
      ''SSL peer cert verification failed'',
      ''SSL handshake failed'']"

definition unknown_error_string :: string where
  "unknown_error_string = ''(unknown error)''"

text \<open>The entry of one of the arrays; \<open>None\<close> is a read outside it.\<close>

definition entry_of :: "string list \<Rightarrow> nat \<Rightarrow> string option" where
  "entry_of strings i = (if i < length strings then Some (strings ! i) else None)"

definition guarded_entry :: "string list \<Rightarrow> nat \<Rightarrow> string option" where
  "guarded_entry strings error_code =
     (if error_code < length strings then entry_of strings error_code else Some unknown_error_string)"

text \<open>\<open>code\<close> is an \<^verbatim>\<open>int\<close>: the negation of the least one overflows.\<close>

definition INT_MIN :: int where "INT_MIN = - (2 ^ 31)"
definition INT_MAX :: int where "INT_MAX = 2 ^ 31 - 1"

definition amqp_error_string2 :: "int \<Rightarrow> string option" where
  "amqp_error_string2 code =
     (if code = INT_MIN then None
      else let category = nat (drop_bit 8 ((- code) AND ERROR_CATEGORY_MASK));
               error_code = nat ((- code) AND ERROR_MASK)
        in if category = EC_base then guarded_entry base_error_strings error_code
           else if category = EC_tcp then guarded_entry tcp_error_strings error_code
           else if category = EC_ssl then guarded_entry ssl_error_strings error_code
           else Some unknown_error_string)"

text \<open>\<^verbatim>\<open>strdup\<close> of the string; \<open>None\<close> inside is \<^verbatim>\<open>NULL\<close>.\<close>

definition amqp_error_string :: "int \<Rightarrow> ('a heap_scheme, (nat \<times> string) option) cm" where
  "amqp_error_string code =
     (case amqp_error_string2 (if 0 < code then - code else code) of
        None \<Rightarrow> undef
      | Some s \<Rightarrow> and_then (c_malloc (length s + 1)) (\<lambda>r. ret (map_option (\<lambda>b. (b, s)) r)))"

section \<open>Publishing\<close>

text \<open>Before a message is sent, what has arrived is taken in if the server has been silent for too long.\<close>

definition check_heartbeat :: "nat \<Rightarrow> 'a conn_scheme platform \<Rightarrow> ('a conn_scheme, unit) cm" where
  "check_heartbeat n P = and_then get (\<lambda>c.
     if amqp_heartbeat_enabled c then
       and_then (timestamp_or_fail P) (\<lambda>current_timestamp.
       and_then get (\<lambda>c.
       if next_recv_heartbeat c < current_timestamp then
         and_then (attempt (amqp_try_recv n P current_timestamp)) (\<lambda>res.
         if res = AMQP_STATUS_TIMEOUT then raise AMQP_STATUS_HEARTBEAT_TIMEOUT else as_status res)
       else ret ()))
     else ret ())"

definition body_frame :: "u16 \<Rightarrow> bytes \<Rightarrow> amqp_frame" where
  "body_frame channel fragment =
     \<lparr>frame_type = AMQP_FRAME_BODY8, frame_channel = channel, frame_payload = Body_payload fragment\<rparr>"

definition header_frame :: "u16 \<Rightarrow> nat \<Rightarrow> amqp_basic_properties \<Rightarrow> amqp_frame" where
  "header_frame channel body_len properties =
     \<lparr>frame_type = AMQP_FRAME_HEADER8, frame_channel = channel,
      frame_payload = Properties_payload AMQP_BASIC_CLASS (of_nat body_len) (Basic_properties properties)\<rparr>"

text \<open>\<^verbatim>\<open>memset\<close> of the default properties.\<close>

definition no_properties :: amqp_basic_properties where
  "no_properties = \<lparr>p_flags = 0, p_content_type = [], p_content_encoding = [], p_headers = [],
     p_delivery_mode = 0, p_priority = 0, p_correlation_id = [], p_reply_to = [], p_expiration = [],
     p_message_id = [], p_timestamp = 0, p_type = [], p_user_id = [], p_app_id = [], p_cluster_id = []\<rparr>"

definition message_properties :: "amqp_basic_properties option \<Rightarrow> amqp_basic_properties" where
  "message_properties properties = (case properties of None \<Rightarrow> no_properties | Some p \<Rightarrow> p)"

primrec send_fragments ::
    "nat \<Rightarrow> 'a conn_scheme platform \<Rightarrow> u16 \<Rightarrow> nat \<Rightarrow> bytes \<Rightarrow> nat \<Rightarrow> ('a conn_scheme, unit) cm" where
  "send_fragments 0 P channel usable_body_payload_size body body_offset = out_of_fuel"
| "send_fragments (Suc n) P channel usable_body_payload_size body body_offset =
     (if body_offset < length body then
        let remaining = length body - body_offset;
            fragment_len = (if usable_body_payload_size \<le> remaining then usable_body_payload_size else remaining)
        in and_then (amqp_send_frame P (body_frame channel (slice body body_offset fragment_len))) (\<lambda>_.
           send_fragments n P channel usable_body_payload_size body (body_offset + fragment_len))
      else ret ())"

text \<open>\<^verbatim>\<open>frame_max - (HEADER_SIZE + FOOTER_SIZE)\<close> is computed as an \<^verbatim>\<open>int\<close>, then converted.\<close>

definition usable_size :: "('a conn_scheme, nat) cm" where
  "usable_size = and_then get (\<lambda>c.
     let usable = frame_max c - int (HEADER_SIZE + FOOTER_SIZE)
     in if usable < INT_MIN then undef else ret (size_of_int usable))"

definition amqp_basic_publish ::
    "nat \<Rightarrow> 'a conn_scheme platform \<Rightarrow> u16 \<Rightarrow> bytes \<Rightarrow> bytes \<Rightarrow> bool \<Rightarrow> bool \<Rightarrow> amqp_basic_properties option \<Rightarrow> bytes \<Rightarrow>
     ('a conn_scheme, unit) cm" where
  "amqp_basic_publish n P channel exchange routing_key mandatory immediate properties body =
     and_then usable_size (\<lambda>usable_body_payload_size.
     and_then (check_heartbeat n P) (\<lambda>_.
     and_then (amqp_send_method P channel AMQP_BASIC_PUBLISH_METHOD
       (Some (amqp_basic_publish_t 0 exchange routing_key mandatory immediate))) (\<lambda>_.
     and_then (amqp_send_frame P (header_frame channel (length body) (message_properties properties))) (\<lambda>_.
     send_fragments n P channel usable_body_payload_size body 0))))"

section \<open>Closing\<close>

text \<open>\<^verbatim>\<open>sprintf(buffer, "%d", i)\<close> into a buffer of \<open>room\<close> characters, the terminator included.\<close>

definition sprintf_d :: "nat \<Rightarrow> int \<Rightarrow> ('s, bytes) cm" where
  "sprintf_d room i = (if length (decimal i) < room then ret (decimal i) else undef)"

definition amqp_channel_close ::
    "nat \<Rightarrow> 'a conn_scheme platform \<Rightarrow> u16 \<Rightarrow> int \<Rightarrow> ('a conn_scheme, amqp_rpc_reply) cm" where
  "amqp_channel_close n P channel code = and_then (sprintf_d 13 code) (\<lambda>codestr.
     amqp_simple_rpc n P channel AMQP_CHANNEL_CLOSE_METHOD [AMQP_CHANNEL_CLOSE_OK_METHOD, 0]
       (Some (amqp_channel_close_t (word_of_int code) codestr 0 0)))"

text \<open>
  The C function fills an \<^verbatim>\<open>amqp_channel_close_t\<close>, which the encoder reads as an
  \<^verbatim>\<open>amqp_connection_close_t\<close>: the two structs have the same members.
\<close>

definition amqp_connection_close ::
    "nat \<Rightarrow> 'a conn_scheme platform \<Rightarrow> int \<Rightarrow> ('a conn_scheme, amqp_rpc_reply) cm" where
  "amqp_connection_close n P code = and_then (sprintf_d 13 code) (\<lambda>codestr.
     amqp_simple_rpc n P 0 AMQP_CONNECTION_CLOSE_METHOD [AMQP_CONNECTION_CLOSE_OK_METHOD, 0]
       (Some (amqp_channel_close_t (word_of_int code) codestr 0 0)))"

section \<open>Acknowledging, rejecting and fetching\<close>

definition amqp_basic_ack :: "'a conn_scheme platform \<Rightarrow> u16 \<Rightarrow> u64 \<Rightarrow> bool \<Rightarrow> ('a conn_scheme, unit) cm" where
  "amqp_basic_ack P channel delivery_tag multiple =
     amqp_send_method P channel AMQP_BASIC_ACK_METHOD (Some (amqp_basic_ack_t delivery_tag multiple))"

definition amqp_basic_get ::
    "nat \<Rightarrow> 'a conn_scheme platform \<Rightarrow> u16 \<Rightarrow> bytes \<Rightarrow> bool \<Rightarrow> ('a conn_scheme, amqp_rpc_reply) cm" where
  "amqp_basic_get n P channel queue no_ack =
     and_then (amqp_simple_rpc n P channel AMQP_BASIC_GET_METHOD
       [AMQP_BASIC_GET_OK_METHOD, AMQP_BASIC_GET_EMPTY_METHOD, 0]
       (Some (amqp_basic_get_t 0 queue no_ack))) (\<lambda>result.
     and_then (modify (\<lambda>c. c\<lparr>most_recent_api_result := result\<rparr>)) (\<lambda>_.
     ret result))"

definition amqp_basic_reject :: "'a conn_scheme platform \<Rightarrow> u16 \<Rightarrow> u64 \<Rightarrow> bool \<Rightarrow> ('a conn_scheme, unit) cm" where
  "amqp_basic_reject P channel delivery_tag requeue =
     amqp_send_method P channel AMQP_BASIC_REJECT_METHOD (Some (amqp_basic_reject_t delivery_tag requeue))"

section \<open>Synchronous methods\<close>

definition amqp_channel_open ::
    "nat \<Rightarrow> 'a conn_scheme platform \<Rightarrow> u16 \<Rightarrow>
     ('a conn_scheme, amqp_method_struct option) cm" where
  "amqp_channel_open n P channel =
     amqp_simple_rpc_decoded n P channel AMQP_CHANNEL_OPEN_METHOD AMQP_CHANNEL_OPEN_OK_METHOD
       (Some (amqp_channel_open_t []))"

definition amqp_channel_flow ::
    "nat \<Rightarrow> 'a conn_scheme platform \<Rightarrow> u16 \<Rightarrow> bool \<Rightarrow>
     ('a conn_scheme, amqp_method_struct option) cm" where
  "amqp_channel_flow n P channel active =
     amqp_simple_rpc_decoded n P channel AMQP_CHANNEL_FLOW_METHOD AMQP_CHANNEL_FLOW_OK_METHOD
       (Some (amqp_channel_flow_t active))"

definition amqp_exchange_declare ::
    "nat \<Rightarrow> 'a conn_scheme platform \<Rightarrow> u16 \<Rightarrow> bytes \<Rightarrow> bytes \<Rightarrow> bool \<Rightarrow> bool \<Rightarrow> amqp_table \<Rightarrow>
     ('a conn_scheme, amqp_method_struct option) cm" where
  "amqp_exchange_declare n P channel exchange type passive durable arguments =
     amqp_simple_rpc_decoded n P channel AMQP_EXCHANGE_DECLARE_METHOD AMQP_EXCHANGE_DECLARE_OK_METHOD
       (Some (amqp_exchange_declare_t 0 exchange type passive durable False False False arguments))"

definition amqp_exchange_delete ::
    "nat \<Rightarrow> 'a conn_scheme platform \<Rightarrow> u16 \<Rightarrow> bytes \<Rightarrow> bool \<Rightarrow>
     ('a conn_scheme, amqp_method_struct option) cm" where
  "amqp_exchange_delete n P channel exchange if_unused =
     amqp_simple_rpc_decoded n P channel AMQP_EXCHANGE_DELETE_METHOD AMQP_EXCHANGE_DELETE_OK_METHOD
       (Some (amqp_exchange_delete_t 0 exchange if_unused False))"

definition amqp_exchange_bind ::
    "nat \<Rightarrow> 'a conn_scheme platform \<Rightarrow> u16 \<Rightarrow> bytes \<Rightarrow> bytes \<Rightarrow> bytes \<Rightarrow> amqp_table \<Rightarrow>
     ('a conn_scheme, amqp_method_struct option) cm" where
  "amqp_exchange_bind n P channel destination source routing_key arguments =
     amqp_simple_rpc_decoded n P channel AMQP_EXCHANGE_BIND_METHOD AMQP_EXCHANGE_BIND_OK_METHOD
       (Some (amqp_exchange_bind_t 0 destination source routing_key False arguments))"

definition amqp_exchange_unbind ::
    "nat \<Rightarrow> 'a conn_scheme platform \<Rightarrow> u16 \<Rightarrow> bytes \<Rightarrow> bytes \<Rightarrow> bytes \<Rightarrow> amqp_table \<Rightarrow>
     ('a conn_scheme, amqp_method_struct option) cm" where
  "amqp_exchange_unbind n P channel destination source routing_key arguments =
     amqp_simple_rpc_decoded n P channel AMQP_EXCHANGE_UNBIND_METHOD AMQP_EXCHANGE_UNBIND_OK_METHOD
       (Some (amqp_exchange_unbind_t 0 destination source routing_key False arguments))"

definition amqp_queue_declare ::
    "nat \<Rightarrow> 'a conn_scheme platform \<Rightarrow> u16 \<Rightarrow> bytes \<Rightarrow> bool \<Rightarrow> bool \<Rightarrow> bool \<Rightarrow> bool \<Rightarrow> amqp_table \<Rightarrow>
     ('a conn_scheme, amqp_method_struct option) cm" where
  "amqp_queue_declare n P channel queue passive durable exclusive auto_delete arguments =
     amqp_simple_rpc_decoded n P channel AMQP_QUEUE_DECLARE_METHOD AMQP_QUEUE_DECLARE_OK_METHOD
       (Some (amqp_queue_declare_t 0 queue passive durable exclusive auto_delete False arguments))"

definition amqp_queue_bind ::
    "nat \<Rightarrow> 'a conn_scheme platform \<Rightarrow> u16 \<Rightarrow> bytes \<Rightarrow> bytes \<Rightarrow> bytes \<Rightarrow> amqp_table \<Rightarrow>
     ('a conn_scheme, amqp_method_struct option) cm" where
  "amqp_queue_bind n P channel queue exchange routing_key arguments =
     amqp_simple_rpc_decoded n P channel AMQP_QUEUE_BIND_METHOD AMQP_QUEUE_BIND_OK_METHOD
       (Some (amqp_queue_bind_t 0 queue exchange routing_key False arguments))"

definition amqp_queue_purge ::
    "nat \<Rightarrow> 'a conn_scheme platform \<Rightarrow> u16 \<Rightarrow> bytes \<Rightarrow>
     ('a conn_scheme, amqp_method_struct option) cm" where
  "amqp_queue_purge n P channel queue =
     amqp_simple_rpc_decoded n P channel AMQP_QUEUE_PURGE_METHOD AMQP_QUEUE_PURGE_OK_METHOD
       (Some (amqp_queue_purge_t 0 queue False))"

definition amqp_queue_delete ::
    "nat \<Rightarrow> 'a conn_scheme platform \<Rightarrow> u16 \<Rightarrow> bytes \<Rightarrow> bool \<Rightarrow> bool \<Rightarrow>
     ('a conn_scheme, amqp_method_struct option) cm" where
  "amqp_queue_delete n P channel queue if_unused if_empty =
     amqp_simple_rpc_decoded n P channel AMQP_QUEUE_DELETE_METHOD AMQP_QUEUE_DELETE_OK_METHOD
       (Some (amqp_queue_delete_t 0 queue if_unused if_empty False))"

definition amqp_queue_unbind ::
    "nat \<Rightarrow> 'a conn_scheme platform \<Rightarrow> u16 \<Rightarrow> bytes \<Rightarrow> bytes \<Rightarrow> bytes \<Rightarrow> amqp_table \<Rightarrow>
     ('a conn_scheme, amqp_method_struct option) cm" where
  "amqp_queue_unbind n P channel queue exchange routing_key arguments =
     amqp_simple_rpc_decoded n P channel AMQP_QUEUE_UNBIND_METHOD AMQP_QUEUE_UNBIND_OK_METHOD
       (Some (amqp_queue_unbind_t 0 queue exchange routing_key arguments))"

definition amqp_basic_qos ::
    "nat \<Rightarrow> 'a conn_scheme platform \<Rightarrow> u16 \<Rightarrow> u32 \<Rightarrow> u16 \<Rightarrow> bool \<Rightarrow>
     ('a conn_scheme, amqp_method_struct option) cm" where
  "amqp_basic_qos n P channel prefetch_size prefetch_count global =
     amqp_simple_rpc_decoded n P channel AMQP_BASIC_QOS_METHOD AMQP_BASIC_QOS_OK_METHOD
       (Some (amqp_basic_qos_t prefetch_size prefetch_count global))"

definition amqp_basic_consume ::
    "nat \<Rightarrow> 'a conn_scheme platform \<Rightarrow> u16 \<Rightarrow> bytes \<Rightarrow> bytes \<Rightarrow> bool \<Rightarrow> bool \<Rightarrow> bool \<Rightarrow> amqp_table \<Rightarrow>
     ('a conn_scheme, amqp_method_struct option) cm" where
  "amqp_basic_consume n P channel queue consumer_tag no_local no_ack exclusive arguments =
     amqp_simple_rpc_decoded n P channel AMQP_BASIC_CONSUME_METHOD AMQP_BASIC_CONSUME_OK_METHOD
       (Some (amqp_basic_consume_t 0 queue consumer_tag no_local no_ack exclusive False arguments))"

definition amqp_basic_cancel ::
    "nat \<Rightarrow> 'a conn_scheme platform \<Rightarrow> u16 \<Rightarrow> bytes \<Rightarrow>
     ('a conn_scheme, amqp_method_struct option) cm" where
  "amqp_basic_cancel n P channel consumer_tag =
     amqp_simple_rpc_decoded n P channel AMQP_BASIC_CANCEL_METHOD AMQP_BASIC_CANCEL_OK_METHOD
       (Some (amqp_basic_cancel_t consumer_tag False))"

definition amqp_basic_recover ::
    "nat \<Rightarrow> 'a conn_scheme platform \<Rightarrow> u16 \<Rightarrow> bool \<Rightarrow>
     ('a conn_scheme, amqp_method_struct option) cm" where
  "amqp_basic_recover n P channel requeue =
     amqp_simple_rpc_decoded n P channel AMQP_BASIC_RECOVER_METHOD AMQP_BASIC_RECOVER_OK_METHOD
       (Some (amqp_basic_recover_t requeue))"

definition amqp_tx_select ::
    "nat \<Rightarrow> 'a conn_scheme platform \<Rightarrow> u16 \<Rightarrow>
     ('a conn_scheme, amqp_method_struct option) cm" where
  "amqp_tx_select n P channel =
     amqp_simple_rpc_decoded n P channel AMQP_TX_SELECT_METHOD AMQP_TX_SELECT_OK_METHOD
       None"

definition amqp_tx_commit ::
    "nat \<Rightarrow> 'a conn_scheme platform \<Rightarrow> u16 \<Rightarrow>
     ('a conn_scheme, amqp_method_struct option) cm" where
  "amqp_tx_commit n P channel =
     amqp_simple_rpc_decoded n P channel AMQP_TX_COMMIT_METHOD AMQP_TX_COMMIT_OK_METHOD
       None"

definition amqp_tx_rollback ::
    "nat \<Rightarrow> 'a conn_scheme platform \<Rightarrow> u16 \<Rightarrow>
     ('a conn_scheme, amqp_method_struct option) cm" where
  "amqp_tx_rollback n P channel =
     amqp_simple_rpc_decoded n P channel AMQP_TX_ROLLBACK_METHOD AMQP_TX_ROLLBACK_OK_METHOD
       None"

definition amqp_confirm_select ::
    "nat \<Rightarrow> 'a conn_scheme platform \<Rightarrow> u16 \<Rightarrow>
     ('a conn_scheme, amqp_method_struct option) cm" where
  "amqp_confirm_select n P channel =
     amqp_simple_rpc_decoded n P channel AMQP_CONFIRM_SELECT_METHOD AMQP_CONFIRM_SELECT_OK_METHOD
       (Some (amqp_confirm_select_t False))"


section \<open>The frames of a message\<close>

text \<open>A body cut into pieces of at most \<open>k\<close> bytes.\<close>

function chunks :: "nat \<Rightarrow> bytes \<Rightarrow> bytes list" where
  "chunks k bs = (if k = 0 \<or> bs = [] then [] else take k bs # chunks k (drop k bs))"
  by pat_completeness auto

termination by (relation "measure (length o snd)") auto

declare chunks.simps [simp del]

lemma concat_chunks: "0 < k \<Longrightarrow> concat (chunks k bs) = bs"
  by (induction k bs rule: chunks.induct) (subst chunks.simps, auto)

lemma length_chunk: "frag \<in> set (chunks k bs) \<Longrightarrow> length frag \<le> k \<and> frag \<noteq> []"
  by (induction k bs rule: chunks.induct) (subst (asm) (2) chunks.simps, auto split: if_splits)

text \<open>What a message looks like on the wire: method, header, and the body in pieces.\<close>

definition publish_method :: "u16 \<Rightarrow> bytes \<Rightarrow> bytes \<Rightarrow> bool \<Rightarrow> bool \<Rightarrow> amqp_frame" where
  "publish_method channel exchange routing_key mandatory immediate =
     method_frame channel (amqp_basic_publish_t 0 exchange routing_key mandatory immediate)"

definition message_frames :: "u16 \<Rightarrow> amqp_frame \<Rightarrow> amqp_basic_properties \<Rightarrow> nat \<Rightarrow> bytes \<Rightarrow> amqp_frame list" where
  "message_frames channel m p usable body =
     m # header_frame channel (length body) p # map (body_frame channel) (chunks usable body)"

lemma body_frame_wf: "length frag < 2 ^ 32 - 8 \<Longrightarrow> wf_frame (body_frame channel frag)"
  by (simp add: wf_frame_def body_frame_def frame_bytes_def payload_bytes_def)

lemma body_frame_length: "length (frame_bytes (body_frame channel frag)) = length frag + 8"
  by (simp add: body_frame_def frame_bytes_def payload_bytes_def)

definition sent_by :: "('a \<Rightarrow> bytes) \<Rightarrow> ('a \<Rightarrow> bytes) \<Rightarrow> 'a conn_scheme \<Rightarrow> bytes \<Rightarrow> 'a conn_scheme \<Rightarrow> bool" where
  "sent_by coming outgoing c bs c' \<longleftrightarrow> (\<exists>b m. c' = c\<lparr>outbound_buffer := b, conn.more := m\<rparr> \<and>
     length b = length (outbound_buffer c) \<and> coming m = coming (conn.more c) \<and> outgoing m = outgoing (conn.more c) @ bs)"

lemma sent_by_same:
  assumes "sent_by coming outgoing c bs c'"
  shows "outbound_ok c' = outbound_ok c" "amqp_heartbeat_enabled c' = amqp_heartbeat_enabled c"
    "outbound_len c' = outbound_len c" "frame_max c' = frame_max c" "outgoing (conn.more c') = outgoing (conn.more c) @ bs"
  using assms by (auto simp: sent_by_def outbound_ok_def amqp_heartbeat_enabled_def)

lemma sent_by_trans:
  "sent_by coming outgoing c bs c1 \<Longrightarrow> sent_by coming outgoing c1 bs' c2 \<Longrightarrow> sent_by coming outgoing c (bs @ bs') c2"
  unfolding sent_by_def by (elim exE conjE) (rule exI, rule exI, auto)

lemma sent_by_nothing: "sent_by coming outgoing c [] c"
  unfolding sent_by_def by (intro exI [of _ "outbound_buffer c"] exI [of _ "conn.more c"]) simp

context duplex_stream
begin

lemma send_frame_by:
  assumes "outbound_ok c" and "\<not> amqp_heartbeat_enabled c" and "wf_frame f"
    and "frame_type f = 3 \<or> length (frame_bytes f) \<le> outbound_len c"
  shows "\<exists>c'. amqp_send_frame P f c = (Ok (), c') \<and> sent_by coming outgoing c (frame_bytes f) c'"
  using send_frame_sent [OF assms] unfolding sent_by_def by blast

lemma send_fragments_run:
  assumes "outbound_ok c" and "\<not> amqp_heartbeat_enabled c" and "0 < k" and "k < 2 ^ 32 - 8 \<or> length body < 2 ^ 32 - 8"
    and "length body - off < n"
  shows "\<exists>c'. send_fragments n P channel k body off c = (Ok (), c') \<and>
    sent_by coming outgoing c (wire (map (body_frame channel) (chunks k (drop off body)))) c'"
  using assms(1,2,5)
proof (induction n arbitrary: c off)
  case 0
  then show ?case by simp
next
  case (Suc n)
  show ?case
  proof (cases "off < length body")
    case False
    then show ?thesis by (intro exI [of _ c]) (simp add: chunks.simps sent_by_nothing)
  next
    case True
    let ?len = "if k \<le> length body - off then k else length body - off"
    let ?frag = "slice body off ?len"
    have frag: "?frag = take k (drop off body)" by (auto simp: slice_def)
    have ty: "frame_type (body_frame channel ?frag) = 3" by (simp add: body_frame_def)
    have "length ?frag \<le> k" "length ?frag \<le> length body" by (auto simp: frag)
    then have "wf_frame (body_frame channel ?frag)" using assms(4) by (intro body_frame_wf) linarith
    from send_frame_by [OF Suc.prems(1,2) this disjI1 [OF ty]] obtain c1 where
      1: "amqp_send_frame P (body_frame channel ?frag) c = (Ok (), c1)"
      "sent_by coming outgoing c (frame_bytes (body_frame channel ?frag)) c1" by blast
    note same = sent_by_same [OF 1(2)]
    have "length body - (off + ?len) < n" using Suc.prems(3) True assms(3) by (cases "k \<le> length body - off") auto
    with Suc.IH [of c1 "off + ?len"] same Suc.prems obtain c2 where
      2: "send_fragments n P channel k body (off + ?len) c1 = (Ok (), c2)"
      "sent_by coming outgoing c1 (wire (map (body_frame channel) (chunks k (drop (off + ?len) body)))) c2" by blast
    have "drop (off + ?len) body = drop k (drop off body)" by (auto simp: add.commute)
    then have "chunks k (drop off body) = ?frag # chunks k (drop (off + ?len) body)"
      using True assms(3) frag by (subst chunks.simps) simp
    moreover have "send_fragments (Suc n) P channel k body off c = (Ok (), c2)"
      using True 1(1) 2(1) by (simp add: Let_def and_then_Ok)
    ultimately show ?thesis using sent_by_trans [OF 1(2) 2(2)] by (intro exI [of _ c2]) simp
  qed
qed

lemma publish_run:
  assumes c: "outbound_ok c" "\<not> amqp_heartbeat_enabled c" "INT_MIN \<le> frame_max c - 8"
    and m: "wf_frame (publish_method channel exchange routing_key mandatory immediate)"
      "length (frame_bytes (publish_method channel exchange routing_key mandatory immediate)) \<le> outbound_len c"
    and h: "wf_frame (header_frame channel (length body) (message_properties properties))"
      "length (frame_bytes (header_frame channel (length body) (message_properties properties))) \<le> outbound_len c"
  shows "\<exists>c'. amqp_basic_publish n P channel exchange routing_key mandatory immediate properties body c =
      send_fragments n P channel (size_of_int (frame_max c - 8)) body 0 c' \<and>
    sent_by coming outgoing c (wire [publish_method channel exchange routing_key mandatory immediate,
      header_frame channel (length body) (message_properties properties)]) c'"
proof -
  let ?m = "publish_method channel exchange routing_key mandatory immediate"
  let ?h = "header_frame channel (length body) (message_properties properties)"
  from send_frame_by [OF c(1,2) m(1) disjI2 [OF m(2)]] obtain c1 where
    1: "amqp_send_frame P ?m c = (Ok (), c1)" "sent_by coming outgoing c (frame_bytes ?m) c1" by blast
  note s1 = sent_by_same [OF 1(2)]
  have "outbound_ok c1" "\<not> amqp_heartbeat_enabled c1" "length (frame_bytes ?h) \<le> outbound_len c1"
    using s1 c h by simp_all
  from send_frame_by [OF this(1,2) h(1) disjI2 [OF this(3)]] obtain c2 where
    2: "amqp_send_frame P ?h c1 = (Ok (), c2)" "sent_by coming outgoing c1 (frame_bytes ?h) c2" by blast
  have "usable_size c = (Ok (size_of_int (frame_max c - 8)), c)"
    using c(3) by (simp add: usable_size_def get_def and_then_def Let_def size_defs)
  moreover have "check_heartbeat n P c = (Ok (), c)"
    using c(2) by (simp add: check_heartbeat_def and_then_Ok)
  moreover have "amqp_send_method P channel AMQP_BASIC_PUBLISH_METHOD
      (Some (amqp_basic_publish_t 0 exchange routing_key mandatory immediate)) c = (Ok (), c1)"
    using 1(1) by (simp add: amqp_send_method_def publish_method_def method_frame_def)
  ultimately have "amqp_basic_publish n P channel exchange routing_key mandatory immediate properties body c =
      send_fragments n P channel (size_of_int (frame_max c - 8)) body 0 c2"
    unfolding amqp_basic_publish_def using 2(1) by (simp add: and_then_Ok)
  then show ?thesis using sent_by_trans [OF 1(2) 2(2)] by (intro exI [of _ c2]) simp
qed

text \<open>With no room for any of the body in a frame, empty frames are sent for ever.\<close>

lemma send_no_fragments:
  assumes "outbound_ok c" and "\<not> amqp_heartbeat_enabled c" and "off < length body"
  shows "fst (send_fragments n P channel 0 body off c) = OutOfFuel"
  using assms(1,2)
proof (induction n arbitrary: c)
  case (Suc n)
  have wf: "wf_frame (body_frame channel [])" by (simp add: body_frame_wf)
  have ty: "frame_type (body_frame channel []) = 3" by (simp add: body_frame_def)
  from send_frame_by [OF Suc.prems wf disjI1 [OF ty]] obtain c1 where
    1: "amqp_send_frame P (body_frame channel []) c = (Ok (), c1)"
    "sent_by coming outgoing c (frame_bytes (body_frame channel [])) c1" by blast
  then have "fst (send_fragments n P channel 0 body off c1) = OutOfFuel"
    using Suc sent_by_same [OF 1(2)] by simp
  with 1(1) assms(3) show ?case by (simp add: Let_def slice_def and_then_Ok)
qed simp

end

lemma idle_awaits:
  assumes "awaiting d [] []" and "\<forall>f\<in>set fs. wf_frame f"
  shows "awaiting d (wire fs) fs"
proof (cases fs)
  case (Cons f gs)
  have "ready d" "unread d = []" "conn_inv d" "granting d" "buffer_ok d" using assms(1) by (simp_all add: awaiting_def)
  then show ?thesis unfolding Cons
    using assms(2) Cons ready_midway [of d "frame_bytes f"] by (intro awaiting_start) (simp_all add: reader_at_def)
qed (use assms(1) in simp)


section \<open>The results of calls are typed\<close>

lemma yields_mono: "yields Q m \<Longrightarrow> (\<And>a. Q a \<Longrightarrow> R a) \<Longrightarrow> yields R m"
  by (auto simp: yields_def)

lemma yields_undef: "yields Q undef"
  by (simp add: yields_def)

lemma yields_out_of_fuel: "yields Q out_of_fuel"
  by (simp add: yields_def)

lemma yields_catching: "yields Q m \<Longrightarrow> yields (\<lambda>r. case r of Inl _ \<Rightarrow> True | Inr a \<Rightarrow> Q a) (catching m)"
  by (auto simp: yields_def catching_def split: prod.splits outcome.splits)

lemma consume_typed: "yields typed_frame consume_one_frame"
  unfolding consume_one_frame_def
  by (intro yields_and_then yields_then [OF handle_input_typed])
    (auto split: prod.splits intro!: yields_and_then yields_ret)

lemma read_buffered_typed: "yields (\<lambda>r. \<forall>f. r = Some f \<longrightarrow> typed_frame f) (read_buffered n P)"
proof (induction n)
  case (Suc n)
  show ?case
    unfolding read_buffered.simps
    by (intro yields_and_then)
      (auto simp del: run_ret intro!: yields_then [OF consume_typed] yields_and_then [OF Suc] Suc yields_ret yields_abort)
qed (simp add: yields_def)

lemma wait_loop_typed: "yields typed_frame (wait_loop n P t b w)"
proof (induction n arbitrary: b w)
  case (Suc n)
  have "yields (\<lambda>r. \<forall>f. r = Some f \<longrightarrow> typed_frame f) (if b then ret None else read_buffered n P)"
    by (simp add: read_buffered_typed yields_ret)
  then show ?case
    unfolding wait_loop.simps
    by (rule yields_then) (auto split: option.split intro!: yields_and_then yields_ret yields_raise yields_abort Suc)
qed (simp add: yields_def)

lemma wait_frame_inner_typed: "yields typed_frame (wait_frame_inner n P t)"
  by (simp add: wait_frame_inner_def yields_raise wait_loop_typed)

lemma frame_method_typed: "typed_frame f \<Longrightarrow> yields (\<lambda>(k, d). typed_method k d) (frame_method f)"
  by (auto simp: frame_method_def typed_frame_def yields_undef intro: yields_ret split: amqp_frame_payload.splits)

lemma await_reply_typed: "yields (\<lambda>(k, d). typed_method k d) (await_reply n P channel ids)"
proof (induction n)
  case (Suc n)
  show ?case
    unfolding await_reply.simps
    by (rule yields_then [OF wait_frame_inner_typed]) (auto intro!: frame_method_typed yields_and_then Suc)
qed (simp add: yields_def)

definition typed_reply :: "u32 list \<Rightarrow> amqp_rpc_reply \<Rightarrow> bool" where
  "typed_reply ids r \<longleftrightarrow> (reply_type r = AMQP_RESPONSE_NORMAL \<longrightarrow>
     amqp_id_in_reply_list (reply_id r) ids \<and> typed_method (reply_id r) (reply_decoded r))"

lemma simple_rpc_typed: "yields (typed_reply ids) (amqp_simple_rpc n P channel req ids m)"
  unfolding amqp_simple_rpc_def
  by (rule yields_then [OF yields_catching [OF yields_and_then [OF await_reply_typed]]])
    (auto split: sum.split intro!: yields_ret simp: typed_reply_def library_exception_def method_reply_def)

definition typed_result :: "u32 \<Rightarrow> amqp_method_struct option \<Rightarrow> bool" where
  "typed_result k r \<longleftrightarrow> (case r of None \<Rightarrow> True | Some m \<Rightarrow> struct_number m = k \<and> k \<notin> set methods_without_fields)"

lemma struct_has_fields: "struct_number m \<notin> set methods_without_fields"
  by (cases m) (simp_all add: methods_without_fields_def method_number_defs)

lemma typed_method_Some: "typed_method k (Some m) \<Longrightarrow> struct_number m = k \<and> k \<notin> set methods_without_fields"
  using struct_has_fields [of m] by (auto simp: typed_method_def)

lemma id_in_reply_list_one: "amqp_id_in_reply_list k [j, 0] \<longleftrightarrow> k = j \<and> j \<noteq> 0"
  by auto

lemma rpc_decoded_typed: "yields (typed_result k) (amqp_simple_rpc_decoded n P channel req k m)"
  unfolding amqp_simple_rpc_decoded_def
  by (rule yields_then [OF simple_rpc_typed], rule yields_and_then, rule yields_ret)
    (auto simp: typed_reply_def typed_result_def id_in_reply_list_one
      simp del: amqp_id_in_reply_list.simps dest!: typed_method_Some split: option.splits)

lemma rpc_decoded_null:
  "k \<in> set methods_without_fields \<Longrightarrow> yields (\<lambda>r. r = None) (amqp_simple_rpc_decoded n P channel req k m)"
  by (rule yields_mono [OF rpc_decoded_typed]) (auto simp: typed_result_def split: option.splits)


section \<open>Error codes and the array bounds\<close>

lemma error_masks:
  "drop_bit 8 (i AND ERROR_CATEGORY_MASK) = (i mod 0x10000) div 0x100" "i AND ERROR_MASK = (i mod 0x10000) mod 0x100"
proof -
  have "ERROR_MASK = mask 8" by (simp add: ERROR_MASK_def mask_eq_exp_minus_1)
  then have "i AND ERROR_MASK = take_bit 8 i" by (simp only: take_bit_eq_mask)
  then have "i AND ERROR_MASK = i mod 0x100" by (simp add: take_bit_eq_mod)
  moreover have "i mod 0x100 = (i mod 0x10000) mod 0x100" by (simp add: mod_mod_cancel)
  ultimately show "i AND ERROR_MASK = (i mod 0x10000) mod 0x100" by simp
  have "drop_bit 8 ERROR_CATEGORY_MASK = mask 8" by (simp add: ERROR_CATEGORY_MASK_def mask_eq_exp_minus_1 drop_bit_eq_div)
  then have "drop_bit 8 (i AND ERROR_CATEGORY_MASK) = take_bit 8 (drop_bit 8 i)"
    by (simp only: drop_bit_and take_bit_eq_mask)
  then have "drop_bit 8 (i AND ERROR_CATEGORY_MASK) = (i div 0x100) mod 0x100"
    by (simp add: drop_bit_eq_div take_bit_eq_mod)
  also have "\<dots> = (i mod 0x10000) div 0x100"
    using zmod_zmult2_eq [of "0x100" i "0x100"] by simp
  finally show "drop_bit 8 (i AND ERROR_CATEGORY_MASK) = (i mod 0x10000) div 0x100" .
qed

lemma status_codes: "range status_code = {- 0xF..0} \<union> {- 0x101..- 0x100} \<union> {- 0x203..- 0x200}"
proof -
  have "range status_code = set (map status_code
    [AMQP_STATUS_OK, AMQP_STATUS_NO_MEMORY, AMQP_STATUS_BAD_AMQP_DATA, AMQP_STATUS_UNKNOWN_CLASS,
     AMQP_STATUS_UNKNOWN_METHOD, AMQP_STATUS_HOSTNAME_RESOLUTION_FAILED, AMQP_STATUS_INCOMPATIBLE_AMQP_VERSION,
     AMQP_STATUS_CONNECTION_CLOSED, AMQP_STATUS_BAD_URL, AMQP_STATUS_SOCKET_ERROR, AMQP_STATUS_INVALID_PARAMETER,
     AMQP_STATUS_TABLE_TOO_BIG, AMQP_STATUS_WRONG_METHOD, AMQP_STATUS_TIMEOUT, AMQP_STATUS_TIMER_FAILURE,
     AMQP_STATUS_HEARTBEAT_TIMEOUT, AMQP_STATUS_TCP_ERROR, AMQP_STATUS_TCP_SOCKETLIB_INIT_ERROR,
     AMQP_STATUS_SSL_ERROR, AMQP_STATUS_SSL_HOSTNAME_VERIFY_FAILED, AMQP_STATUS_SSL_PEER_VERIFY_FAILED,
     AMQP_STATUS_SSL_CONNECTION_FAILED])"
    (is "_ = set (map _ ?es)")
  proof -
    have "e \<in> set ?es" for e by (cases e) simp_all
    then have "UNIV = set ?es" by blast
    then show ?thesis by (simp only: set_map)
  qed
  also have "\<dots> = {- 0xF..0} \<union> {- 0x101..- 0x100} \<union> {- 0x203..- 0x200}"
    by (simp add: set_eq_iff) presburger
  finally show ?thesis .
qed

lemma guarded_entry_Some:
  "unknown_error_string \<notin> set strings \<Longrightarrow>
   \<exists>s. guarded_entry strings i = Some s \<and> (s = unknown_error_string \<longleftrightarrow> \<not> i < length strings)"
  by (auto simp: guarded_entry_def entry_of_def dest: nth_mem)

lemma error_string_run:
  assumes "INT_MIN < code"
  shows "\<exists>s. amqp_error_string2 code = Some s \<and>
    (s = unknown_error_string \<longleftrightarrow> \<not> (\<exists>m \<in> range status_code. (m - code) mod 0x10000 = 0))"
proof -
  define k where "k = (- code) mod 0x10000"
  have k: "0 \<le> k" "k < 0x10000" by (simp_all add: k_def)
  have "(\<exists>m \<in> range status_code. (m - code) mod 0x10000 = 0) \<longleftrightarrow> k \<in> {0..0xF} \<union> {0x100..0x101} \<union> {0x200..0x203}"
  proof
    assume "\<exists>m \<in> range status_code. (m - code) mod 0x10000 = 0"
    then obtain m where m: "m \<in> range status_code" "(m - code) mod 0x10000 = 0" by (rule bexE)
    have eq: "(- code) - (- m) = m - code" by simp
    have "0x10000 dvd (- code) - (- m)" unfolding eq using m(2) by (rule mod_0_imp_dvd)
    then have "k = (- m) mod 0x10000" unfolding k_def by (simp only: mod_eq_dvd_iff)
    moreover have "0 \<le> - m" "- m < 0x10000" using m(1) unfolding status_codes by auto
    ultimately have "k = - m" by simp
    with m(1) show "k \<in> {0..0xF} \<union> {0x100..0x101} \<union> {0x200..0x203}" unfolding status_codes by auto
  next
    assume "k \<in> {0..0xF} \<union> {0x100..0x101} \<union> {0x200..0x203}"
    then have "- k \<in> range status_code" unfolding status_codes by auto
    moreover have "(- k - code) mod 0x10000 = 0" 
    proof -
      have "- k - code = 0x10000 * ((- code) div 0x10000)" by (simp add: k_def flip: minus_mod_eq_mult_div)
      then show ?thesis by simp
    qed
    ultimately show "\<exists>m \<in> range status_code. (m - code) mod 0x10000 = 0" by (intro bexI)
  qed
  moreover have "\<exists>s. amqp_error_string2 code = Some s \<and>
      (s = unknown_error_string \<longleftrightarrow> k \<notin> {0..0xF} \<union> {0x100..0x101} \<union> {0x200..0x203})"
  proof -
    have ne: "code \<noteq> INT_MIN" using assms by simp
    let ?e = "nat (k mod 0x100)"
    have run: "amqp_error_string2 code =
        (if k div 0x100 = 0 then guarded_entry base_error_strings ?e
         else if k div 0x100 = 1 then guarded_entry tcp_error_strings ?e
         else if k div 0x100 = 2 then guarded_entry ssl_error_strings ?e
         else Some unknown_error_string)"
      unfolding amqp_error_string2_def Let_def error_masks k_def [symmetric] EC_base_def EC_tcp_def EC_ssl_def
      using ne k by (simp add: nat_eq_iff)
    have small: "k = 0x100 * (k div 0x100) + k mod 0x100" by simp
    have b: "0 \<le> k mod 0x100" "k mod 0x100 < 0x100" by simp_all
    have u: "unknown_error_string \<notin> set base_error_strings" "unknown_error_string \<notin> set tcp_error_strings"
      "unknown_error_string \<notin> set ssl_error_strings"
      by (simp_all add: unknown_error_string_def base_error_strings_def tcp_error_strings_def ssl_error_strings_def)
    have l: "length base_error_strings = 16" "length tcp_error_strings = 2" "length ssl_error_strings = 4"
      by (simp_all add: base_error_strings_def tcp_error_strings_def ssl_error_strings_def)
    have lt: "?e < j \<longleftrightarrow> k mod 0x100 < int j" for j using b by linarith
    consider "k div 0x100 = 0" | "k div 0x100 = 1" | "k div 0x100 = 2" | "2 < k div 0x100" using k by linarith
    then show ?thesis
    proof cases
      case 1
      then have "k \<notin> {0..0xF} \<union> {0x100..0x101} \<union> {0x200..0x203} \<longleftrightarrow> \<not> ?e < 16" using small b unfolding lt by auto
      with guarded_entry_Some [OF u(1), of ?e] 1 show ?thesis unfolding run l by simp
    next
      case 2
      then have "k \<notin> {0..0xF} \<union> {0x100..0x101} \<union> {0x200..0x203} \<longleftrightarrow> \<not> ?e < 2" using small b unfolding lt by auto
      with guarded_entry_Some [OF u(2), of ?e] 2 show ?thesis unfolding run l by simp
    next
      case 3
      then have "k \<notin> {0..0xF} \<union> {0x100..0x101} \<union> {0x200..0x203} \<longleftrightarrow> \<not> ?e < 4" using small b unfolding lt by auto
      with guarded_entry_Some [OF u(3), of ?e] 3 show ?thesis unfolding run l by simp
    next
      case 4
      then have "k \<notin> {0..0xF} \<union> {0x100..0x101} \<union> {0x200..0x203}" by auto
      with 4 show ?thesis unfolding run by simp
    qed
  qed
  ultimately show ?thesis by simp
qed

section \<open>Numbers in decimal\<close>

lemma length_decimal_nat: "n < 10 ^ k \<Longrightarrow> 0 < k \<Longrightarrow> length (decimal_nat n) \<le> k"
proof (induction k arbitrary: n)
  case (Suc k)
  show ?case
  proof (cases "n < 10")
    case False
    with Suc.prems have "k \<noteq> 0" "n div 10 < 10 ^ k" by (cases k; simp add: less_mult_imp_div_less)+
    with Suc.IH [of "n div 10"] False show ?thesis by (subst decimal_nat.simps) simp
  qed (simp add: decimal_nat.simps)
qed simp

lemma length_decimal: "INT_MIN \<le> i \<Longrightarrow> i \<le> INT_MAX \<Longrightarrow> length (decimal i) < 12"
  using length_decimal_nat [of "nat (- i)" 10] length_decimal_nat [of "nat i" 10]
  by (auto simp: decimal_def INT_MIN_def INT_MAX_def) linarith+

lemma sprintf_d_run: "INT_MIN \<le> i \<Longrightarrow> i \<le> INT_MAX \<Longrightarrow> 12 \<le> room \<Longrightarrow> sprintf_d room i c = (Ok (decimal i), c)"
  using length_decimal [of i] by (simp add: sprintf_d_def)


section \<open>Properties\<close>

text \<open>The body a receiver puts together.\<close>

definition body_of :: "amqp_frame list \<Rightarrow> bytes" where
  "body_of fs = concat (map (\<lambda>f. case frame_payload f of Body_payload b \<Rightarrow> b | _ \<Rightarrow> []) fs)"

lemma body_of_message: "0 < k \<Longrightarrow> body_of (message_frames ch (publish_method ch e r m i) p k body) = body"
  by (simp add: body_of_def message_frames_def publish_method_def method_frame_def header_frame_def body_frame_def o_def
      concat_chunks)

lemma message_not_heartbeat:
  "f \<in> set (message_frames ch (publish_method ch e r m i) p k body) \<Longrightarrow> \<not> is_heartbeat f"
  by (auto simp: message_frames_def publish_method_def method_frame_def header_frame_def body_frame_def)

lemma message_frames_fit:
  assumes "wf_frame (publish_method ch e r m i)" and "wf_frame (header_frame ch (length body) p)" and "k < 2 ^ 32 - 8"
    and "f \<in> set (message_frames ch (publish_method ch e r m i) p k body)"
    and "length (frame_bytes (publish_method ch e r m i)) \<le> l" and "length (frame_bytes (header_frame ch (length body) p)) \<le> l"
    and "k + 8 \<le> l"
  shows "wf_frame f \<and> length (frame_bytes f) \<le> l"
proof -
  consider "f = publish_method ch e r m i" | "f = header_frame ch (length body) p"
    | frag where "f = body_frame ch frag" "frag \<in> set (chunks k body)"
    using assms(4) by (auto simp: message_frames_def)
  then show ?thesis
  proof cases
    case 3
    then show ?thesis
      using length_chunk [OF 3(2)] assms(3,7) body_frame_wf [of frag ch] by (simp add: body_frame_length)
  qed (use assms in simp_all)
qed

text \<open>
  C17: a published message arrives.  On a connection without heartbeats \<^verbatim>\<open>amqp_basic_publish\<close> sends the
  method, the content header and the body in frames none of which is longer than the negotiated maximum,
  and whoever receives those bytes, however they are cut on the way, gets exactly these frames from as
  many calls of \<^verbatim>\<open>amqp_simple_wait_frame\<close>, whose fragments make up the body.
\<close>

theorem published_message_arrives:
  assumes "duplex_stream P coming outgoing" and "outbound_ok c" and "\<not> amqp_heartbeat_enabled c"
    and "8 < frame_max c" and "frame_max c \<le> INT_MAX" and "outbound_len c = nat (frame_max c)" and "length body < n"
    and "m = publish_method channel exchange routing_key mandatory immediate"
    and "h = header_frame channel (length body) (message_properties properties)"
    and "wf_frame m" and "length (frame_bytes m) \<le> outbound_len c" and "wf_frame h" and "length (frame_bytes h) \<le> outbound_len c"
    and "byte_stream Q coming2 outgoing2" and "ndebug Q" and "awaiting d [] []" and "queued_frames d = []"
    and "\<not> amqp_heartbeat_enabled d" and "0 < length (sock_inbound_buffer d)" and "enough d (coming2 (conn.more d)) \<le> k"
  shows "\<exists>c' fs. amqp_basic_publish n P channel exchange routing_key mandatory immediate properties body c = (Ok (), c') \<and>
    fs = message_frames channel m (message_properties properties) (nat (frame_max c) - 8) body \<and> body_of fs = body \<and>
    outgoing (conn.more c') = outgoing (conn.more c) @ wire fs \<and> (\<forall>f \<in> set fs. length (frame_bytes f) \<le> nat (frame_max c)) \<and>
    (coming2 (conn.more d) = wire fs \<longrightarrow>
      (\<exists>d'. wait_frames (length fs) k Q d = (Ok (map (received (stale_properties d)) fs), d')))"
proof -
  let ?k = "nat (frame_max c) - 8"
  let ?fs = "message_frames channel m (message_properties properties) ?k body"
  have k: "size_of_int (frame_max c - 8) = ?k" "0 < ?k" "?k < 2 ^ 32 - 8" "?k + 8 \<le> nat (frame_max c)"
    using assms(4,5) by (simp_all add: size_of_int_def INT_MAX_def nat_diff_distrib')
  have lo: "INT_MIN \<le> frame_max c - 8" using assms(4) by (simp add: INT_MIN_def)
  from duplex_stream.publish_run [OF assms(1-3) lo assms(10,11,12,13) [unfolded assms(8,9)]] obtain c1 where
    1: "amqp_basic_publish n P channel exchange routing_key mandatory immediate properties body c =
        send_fragments n P channel ?k body 0 c1" "sent_by coming outgoing c (wire [m, h]) c1"
    unfolding k(1) assms(8,9) by blast
  have "outbound_ok c1" "\<not> amqp_heartbeat_enabled c1" "length body - 0 < n"
    using sent_by_same [OF 1(2)] assms(2,3,7) by simp_all
  from duplex_stream.send_fragments_run [OF assms(1) this(1,2) k(2) disjI1 [OF k(3)] this(3), of channel] obtain c2 where
    2: "send_fragments n P channel ?k body 0 c1 = (Ok (), c2)"
    "sent_by coming outgoing c1 (wire (map (body_frame channel) (chunks ?k body))) c2" by auto
  have out: "outgoing (conn.more c2) = outgoing (conn.more c) @ wire ?fs"
    using sent_by_same(5) [OF 1(2)] sent_by_same(5) [OF 2(2)] by (simp add: message_frames_def assms(9))
  have fit: "wf_frame f \<and> length (frame_bytes f) \<le> nat (frame_max c)" if "f \<in> set ?fs" for f
    using message_frames_fit [where l = "nat (frame_max c)", OF assms(10) [unfolded assms(8)] assms(12) [unfolded assms(9)] k(3) that [unfolded assms(8)]]
      assms(6,8,9,11,13) k(4) by simp
  have box: "mailbox d ?fs = map (received (stale_properties d)) ?fs"
    using message_not_heartbeat assms(8,17) by (auto simp: mailbox_def intro!: filter_True)
  have "\<exists>d'. wait_frames (length ?fs) k Q d = (Ok (map (received (stale_properties d)) ?fs), d')"
    if "coming2 (conn.more d) = wire ?fs"
  proof -
    have "awaiting d (coming2 (conn.more d)) ?fs" unfolding that using assms(16) fit by (intro idle_awaits) auto
    from byte_stream.wait_frames_run [OF assms(14) this assms(15,18,19) _ assms(20), of "length ?fs"] show ?thesis
      unfolding box by auto
  qed
  then show ?thesis using 1(1) 2(1) out fit body_of_message [OF k(2)] assms(8)
    by (intro exI [of _ c2] exI [of _ ?fs]) simp
qed

definition sample_sender :: stream where
  "sample_sender = (stream_of [])\<lparr>frame_max := 256\<rparr>"

definition sample_message :: "amqp_frame list" where
  "sample_message = message_frames 1 (publish_method 1 (ascii ''logs'') (ascii ''info'') False False) no_properties 248
     (replicate 300 7)"

definition sample_receiver :: stream where
  "sample_receiver = conn.extend sample_conn \<lparr>arriving = wire sample_message, piece = 4, written = []\<rparr>"

lemma sample_receiver_simps [simp]:
  "arriving sample_receiver = wire sample_message" "\<not> amqp_heartbeat_enabled sample_receiver"
  "length (sock_inbound_buffer sample_receiver) = 64" "queued_frames sample_receiver = []"
  by (simp_all add: sample_receiver_def conn.defs amqp_heartbeat_enabled_def)

lemma sample_receiver_idle: "awaiting sample_receiver [] []"
proof -
  have "conn_inv sample_conn" "ready sample_conn" "granting sample_conn" by simp_all
  then show ?thesis
    by (simp add: awaiting_def conn_inv_def ready_def granting_def sample_receiver_def conn.defs heap_fresh_def conn_blocks_def
        buffer_ok_def unread_def slice_def size_minus_def)
qed

theorem published_message_arrives_witness:
  "\<exists>c' d'. amqp_basic_publish 301 scripted 1 (ascii ''logs'') (ascii ''info'') False False None (replicate 300 7) sample_sender =
      (Ok (), c') \<and> body_of sample_message = replicate 300 7 \<and> length sample_message = 4 \<and>
    wait_frames (length sample_message) (enough sample_receiver (wire sample_message)) scripted sample_receiver =
      (Ok (map (received (stale_properties sample_receiver)) sample_message), d')"
proof -
  let ?m = "publish_method 1 (ascii ''logs'') (ascii ''info'') False False"
  let ?h = "header_frame 1 (length (replicate 300 (7::u8))) (message_properties None)"
  have m: "wf_frame ?m" "length (frame_bytes ?m) \<le> 256"
    by (simp_all add: wf_frame_def publish_method_def method_frame_def frame_bytes_def payload_bytes_def wf_method_def
        method_wire_def ascii_def short_bytes_def)
  have h: "wf_frame ?h" "length (frame_bytes ?h) \<le> 256"
    by (simp_all add: wf_frame_def header_frame_def frame_bytes_def payload_bytes_def wf_properties_def wf_basic_def
        properties_bytes_def basic_bytes_def message_properties_def no_properties_def when_set_def flag_bytes_def wf_flags_def
        wf_table_def)
  have s: "outbound_ok sample_sender" "\<not> amqp_heartbeat_enabled sample_sender" "frame_max sample_sender = 256"
    "outbound_len sample_sender = 256"
    using stream_of_simps(2,10,11) [of "[]"] by (simp_all add: sample_sender_def outbound_ok_def amqp_heartbeat_enabled_def)
  have four: "length sample_message = 4"
    by (simp add: sample_message_def message_frames_def chunks.simps)
  obtain c' fs where r: "amqp_basic_publish 301 scripted 1 (ascii ''logs'') (ascii ''info'') False False None (replicate 300 7) sample_sender =
      (Ok (), c')" "fs = message_frames 1 ?m (message_properties None) (nat (frame_max sample_sender) - 8) (replicate 300 7)"
    "body_of fs = replicate 300 7"
    "script_coming (conn.more sample_receiver) = wire fs \<longrightarrow>
      (\<exists>d'. wait_frames (length fs) (enough sample_receiver (wire sample_message)) scripted sample_receiver =
        (Ok (map (received (stale_properties sample_receiver)) fs), d'))"
    using published_message_arrives [OF script.duplex_stream_axioms s(1,2), of "replicate 300 7" 301 ?m 1 "ascii ''logs''"
      "ascii ''info''" False False ?h None scripted script_coming script_written sample_receiver
      "enough sample_receiver (wire sample_message)"]
      m h s(3,4) script.byte_stream_axioms sample_receiver_idle
    by (auto simp: INT_MAX_def scripted_def)
  have fs: "fs = sample_message" using r(2) s(3) by (simp add: sample_message_def message_properties_def)
  with r four show ?thesis by auto
qed

lemma size_of_int_0: "- (2 ^ 32) \<le> i \<Longrightarrow> i < 2 ^ 32 \<Longrightarrow> size_of_int i = 0 \<longleftrightarrow> i = 0"
proof -
  assume i: "- (2 ^ 32) \<le> i" "i < 2 ^ 32"
  then have "i mod 2 ^ 64 = (if 0 \<le> i then i else i + 2 ^ 64)"
    using mod_pos_pos_trivial [of "i + 2 ^ 64" "2 ^ 64"] by simp
  with i show ?thesis by (auto simp: size_of_int_def)
qed



text \<open>
  C19: the result of a synchronous call is of the type its signature announces, or \<^verbatim>\<open>NULL\<close>.  The calls whose
  reply has no fields return \<^verbatim>\<open>NULL\<close> always, also when they succeed, so that their result does not tell
  success from failure.
\<close>

theorem api_results_are_typed:
  "yields (typed_result AMQP_CHANNEL_OPEN_OK_METHOD) (amqp_channel_open n P ch) \<and>
     yields (typed_result AMQP_CHANNEL_FLOW_OK_METHOD) (amqp_channel_flow n P ch active) \<and>
     yields (typed_result AMQP_QUEUE_DECLARE_OK_METHOD) (amqp_queue_declare n P ch queue passive durable exclusive auto_delete arguments) \<and>
     yields (typed_result AMQP_QUEUE_PURGE_OK_METHOD) (amqp_queue_purge n P ch queue) \<and>
     yields (typed_result AMQP_QUEUE_DELETE_OK_METHOD) (amqp_queue_delete n P ch queue if_unused if_empty) \<and>
     yields (typed_result AMQP_BASIC_CONSUME_OK_METHOD) (amqp_basic_consume n P ch queue consumer_tag no_local no_ack exclusive arguments) \<and>
     yields (typed_result AMQP_BASIC_CANCEL_OK_METHOD) (amqp_basic_cancel n P ch consumer_tag) \<and>
     yields (\<lambda>r. r = None) (amqp_exchange_declare n P ch exchange type passive durable arguments) \<and>
     yields (\<lambda>r. r = None) (amqp_exchange_delete n P ch exchange if_unused) \<and>
     yields (\<lambda>r. r = None) (amqp_exchange_bind n P ch destination source routing_key arguments) \<and>
     yields (\<lambda>r. r = None) (amqp_exchange_unbind n P ch destination source routing_key arguments) \<and>
     yields (\<lambda>r. r = None) (amqp_queue_bind n P ch queue exchange routing_key arguments) \<and>
     yields (\<lambda>r. r = None) (amqp_queue_unbind n P ch queue exchange routing_key arguments) \<and>
     yields (\<lambda>r. r = None) (amqp_basic_qos n P ch prefetch_size prefetch_count global) \<and>
     yields (\<lambda>r. r = None) (amqp_basic_recover n P ch requeue) \<and>
     yields (\<lambda>r. r = None) (amqp_tx_select n P ch) \<and>
     yields (\<lambda>r. r = None) (amqp_tx_commit n P ch) \<and>
     yields (\<lambda>r. r = None) (amqp_tx_rollback n P ch) \<and>
     yields (\<lambda>r. r = None) (amqp_confirm_select n P ch)"
  unfolding amqp_channel_open_def amqp_channel_flow_def amqp_exchange_declare_def amqp_exchange_delete_def
    amqp_exchange_bind_def amqp_exchange_unbind_def amqp_queue_declare_def amqp_queue_bind_def
    amqp_queue_purge_def amqp_queue_delete_def amqp_queue_unbind_def amqp_basic_qos_def amqp_basic_consume_def
    amqp_basic_cancel_def amqp_basic_recover_def amqp_tx_select_def amqp_tx_commit_def amqp_tx_rollback_def
    amqp_confirm_select_def
  by (intro conjI rpc_decoded_typed rpc_decoded_null) (simp_all add: methods_without_fields_def)

text \<open>
  C20: looking up the text of an error reads inside the tables for every \<^verbatim>\<open>int\<close> but the least, whose
  negation overflows, and finds a message exactly for the codes that agree with a status code in their
  sixteen low bits.
\<close>

theorem error_strings_in_bounds:
  assumes "INT_MIN < code"
  shows "\<exists>s. amqp_error_string2 code = Some s \<and>
    (s = unknown_error_string \<longleftrightarrow> \<not> (\<exists>m \<in> range status_code. (m - code) mod 0x10000 = 0))"
  using assms by (rule error_string_run)

theorem error_strings_in_bounds_witness:
  "\<exists>s. amqp_error_string2 (- 13) = Some s \<and>
    (s = unknown_error_string \<longleftrightarrow> \<not> (\<exists>m \<in> range status_code. (m - (- 13)) mod 0x10000 = 0))"
  by (rule error_strings_in_bounds) (simp add: INT_MIN_def)

lemma close_struct_read: "amqp_encode_method AMQP_CONNECTION_CLOSE_METHOD (Some (amqp_channel_close_t a b c d)) =
    amqp_encode_method AMQP_CONNECTION_CLOSE_METHOD (Some (amqp_connection_close_t a b c d))"
  by (simp add: amqp_encode_method_def encode_method_def view_as_def method_number_defs)

lemma close_struct_sent: "amqp_send_method P ch AMQP_CONNECTION_CLOSE_METHOD (Some (amqp_channel_close_t a b c d)) =
    amqp_send_method P ch AMQP_CONNECTION_CLOSE_METHOD (Some (amqp_connection_close_t a b c d))"
  by (simp add: amqp_send_method_def amqp_send_frame_def send_other_def encode_payload_def close_struct_read)

text \<open>
  Closing a connection.  The struct of another method that \<^verbatim>\<open>amqp_connection_close\<close> hands to the encoder
  is as good as the right one: the call is the one with an \<^verbatim>\<open>amqp_connection_close_t\<close>, and the code in
  decimal fits its buffer, whatever the code.
\<close>

theorem connection_close_struct:
  assumes "INT_MIN \<le> code" and "code \<le> INT_MAX"
  shows "amqp_connection_close n P code c =
    amqp_simple_rpc n P 0 AMQP_CONNECTION_CLOSE_METHOD [AMQP_CONNECTION_CLOSE_OK_METHOD, 0]
      (Some (amqp_connection_close_t (word_of_int code) (decimal code) 0 0)) c"
proof -
  have "sprintf_d 13 code c = (Ok (decimal code), c)" by (rule sprintf_d_run [OF assms]) simp
  then show ?thesis by (simp add: amqp_connection_close_def amqp_simple_rpc_def close_struct_sent and_then_Ok)
qed

theorem connection_close_struct_witness:
  "amqp_connection_close 1 scripted 200 sample_stream =
    amqp_simple_rpc 1 scripted 0 AMQP_CONNECTION_CLOSE_METHOD [AMQP_CONNECTION_CLOSE_OK_METHOD, 0]
      (Some (amqp_connection_close_t (word_of_int 200) (decimal 200) 0 0)) sample_stream"
  by (rule connection_close_struct) (simp_all add: INT_MIN_def INT_MAX_def)

end
