(* ===== verification/Tcp.thy ===== *)
theory Tcp
  imports Api
begin

text \<open>
  The TCP socket of \<^verbatim>\<open>amqp_tcp_socket.c\<close>, the one implementation of the socket table that rests on the
  operating system alone, and the functions of \<^verbatim>\<open>amqp_socket.c\<close> that open a descriptor: address lookup,
  the loop over the addresses, the options set on a socket.

  The system calls are parameters (\<open>os\<close>); they work on a state of their own, and a failing call gives its
  \<^verbatim>\<open>errno\<close>.  The members of \<^verbatim>\<open>struct amqp_tcp_socket_t\<close> extend the connection.
\<close>

section \<open>The operating system\<close>

text \<open>An entry of the list that \<^verbatim>\<open>getaddrinfo\<close> returns.\<close>

record addrinfo =
  ai_family :: int
  ai_socktype :: int
  ai_protocol :: int
  ai_addr :: bytes

definition EINTR :: int where "EINTR = 4"
definition FD_CLOEXEC :: int where "FD_CLOEXEC = 1"
definition PF_UNSPEC :: int where "PF_UNSPEC = 0"
definition SOCK_STREAM :: int where "SOCK_STREAM = 1"
definition IPPROTO_TCP :: int where "IPPROTO_TCP = 6"
definition TCP_NODELAY :: int where "TCP_NODELAY = 1"
definition SOL_SOCKET :: int where "SOL_SOCKET = 1"

text \<open>
  \<open>sys_send\<close>, \<open>sys_writev\<close> and \<open>sys_recv\<close> give the number of bytes taken or the bytes received.
  \<open>msg_nosignal\<close>, \<open>msg_more\<close> and \<open>opt_nosigpipe\<close> are the constants that not every system has.
\<close>

record 'o os =
  sys_send :: "int \<Rightarrow> bytes \<Rightarrow> int \<Rightarrow> ('o, int + nat) cm"
  sys_writev :: "int \<Rightarrow> bytes list \<Rightarrow> ('o, int + nat) cm"
  sys_recv :: "int \<Rightarrow> nat \<Rightarrow> int \<Rightarrow> ('o, int + bytes) cm"
  sys_close :: "int \<Rightarrow> ('o, int + unit) cm"
  sys_socket :: "int \<Rightarrow> int \<Rightarrow> int \<Rightarrow> ('o, int + int) cm"
  sys_getfd :: "int \<Rightarrow> ('o, int + int) cm"
  sys_setfd :: "int \<Rightarrow> int \<Rightarrow> ('o, int + unit) cm"
  sys_setsockopt :: "int \<Rightarrow> int \<Rightarrow> int \<Rightarrow> ('o, int + unit) cm"
  sys_connect :: "int \<Rightarrow> bytes \<Rightarrow> ('o, int + unit) cm"
  sys_getaddrinfo :: "bytes \<Rightarrow> bytes \<Rightarrow> int \<times> int \<times> int \<Rightarrow> ('o, int + addrinfo list) cm"
  sys_freeaddrinfo :: "addrinfo list \<Rightarrow> ('o, unit) cm"
  msg_nosignal :: "int option"
  msg_more :: "int option"
  opt_nosigpipe :: "int option"

section \<open>Opening a descriptor\<close>

text \<open>A descriptor that cannot be marked close-on-exec is closed again.\<close>

definition amqp_os_socket_socket :: "'o os \<Rightarrow> int \<Rightarrow> int \<Rightarrow> int \<Rightarrow> ('o, int + int) cm" where
  "amqp_os_socket_socket S domain type protocol =
     and_then (sys_socket S domain type protocol) (\<lambda>r. case r of
       Inl e \<Rightarrow> ret (Inl e)
     | Inr s \<Rightarrow>
         and_then (and_then (sys_getfd S s) (\<lambda>r. case r of
           Inl e \<Rightarrow> ret (Inl e)
         | Inr flags \<Rightarrow> sys_setfd S s (flags OR FD_CLOEXEC))) (\<lambda>r. case r of
           Inl e \<Rightarrow> and_then (sys_close S s) (\<lambda>_. ret (Inl e))
         | Inr _ \<Rightarrow> ret (Inr s)))"

definition amqp_os_socket_close :: "'o os \<Rightarrow> int \<Rightarrow> ('o, int + unit) cm" where
  "amqp_os_socket_close S fd = sys_close S fd"

definition amqp_os_socket_setsockopt :: "'o os \<Rightarrow> int \<Rightarrow> int \<Rightarrow> int \<Rightarrow> ('o, int + unit) cm" where
  "amqp_os_socket_setsockopt S fd level optname = sys_setsockopt S fd level optname"

definition succeeded :: "int + 'b \<Rightarrow> bool" where
  "succeeded r \<longleftrightarrow> (case r of Inl _ \<Rightarrow> False | Inr _ \<Rightarrow> True)"

text \<open>The options and the connection; the tests are made in order and stop at the first failure.\<close>

definition prepare_socket :: "'o os \<Rightarrow> int \<Rightarrow> addrinfo \<Rightarrow> ('o, bool) cm" where
  "prepare_socket S fd addr =
     and_then (case opt_nosigpipe S of None \<Rightarrow> ret True
       | Some opt \<Rightarrow> and_then (amqp_os_socket_setsockopt S fd SOL_SOCKET opt) (\<lambda>r. ret (succeeded r))) (\<lambda>ok.
     if \<not> ok then ret False
     else and_then (amqp_os_socket_setsockopt S fd IPPROTO_TCP TCP_NODELAY) (\<lambda>r.
       if \<not> succeeded r then ret False
       else and_then (sys_connect S fd (ai_addr addr)) (\<lambda>r. ret (succeeded r))))"

text \<open>The loop over the addresses: the last error and the last descriptor.\<close>

fun try_addresses :: "'o os \<Rightarrow> addrinfo list \<Rightarrow> amqp_status_enum \<times> int \<Rightarrow> ('o, amqp_status_enum \<times> int) cm" where
  "try_addresses S [] result = ret result"
| "try_addresses S (addr # addrs) result =
     and_then (amqp_os_socket_socket S (ai_family addr) (ai_socktype addr) (ai_protocol addr)) (\<lambda>r. case r of
       Inl _ \<Rightarrow> try_addresses S addrs (AMQP_STATUS_SOCKET_ERROR, - 1)
     | Inr sockfd \<Rightarrow>
         and_then (prepare_socket S sockfd addr) (\<lambda>ok.
         if ok then ret (AMQP_STATUS_OK, sockfd)
         else and_then (amqp_os_socket_close S sockfd) (\<lambda>_.
           try_addresses S addrs (AMQP_STATUS_SOCKET_ERROR, sockfd))))"

text \<open>The result is an \<^verbatim>\<open>int\<close>: a descriptor, or a negative status.\<close>

definition amqp_open_socket :: "'o os \<Rightarrow> bytes \<Rightarrow> int \<Rightarrow> ('o, int) cm" where
  "amqp_open_socket S hostname portnumber =
     and_then (sprintf_d 33 portnumber) (\<lambda>portnumber_string.
     and_then (sys_getaddrinfo S hostname portnumber_string (PF_UNSPEC, SOCK_STREAM, IPPROTO_TCP)) (\<lambda>r. case r of
       Inl _ \<Rightarrow> ret (status_code AMQP_STATUS_HOSTNAME_RESOLUTION_FAILED)
     | Inr address_list \<Rightarrow>
         and_then (try_addresses S address_list (AMQP_STATUS_OK, - 1)) (\<lambda>(last_error, sockfd).
         and_then (sys_freeaddrinfo S address_list) (\<lambda>_.
         ret (if last_error \<noteq> AMQP_STATUS_OK then status_code last_error else sockfd)))))"

section \<open>The socket object\<close>

record tcp_conn = conn +
  tcp_block :: "nat option"
  sockfd :: int
  send_block :: "nat option"
  send_buffer :: bytes
  buffer_length :: nat
  internal_error :: int

text \<open>A system call on the system's part of the state.\<close>

definition on_os :: "('o, 'b) cm \<Rightarrow> ('o tcp_conn_scheme, 'b) cm" where
  "on_os m = (\<lambda>c. case m (tcp_conn.more c) of (r, o') \<Rightarrow> (r, c\<lparr>tcp_conn.more := o'\<rparr>))"

definition set_error :: "int \<Rightarrow> ('o tcp_conn_scheme, unit) cm" where
  "set_error e = modify (\<lambda>c. c\<lparr>internal_error := e\<rparr>)"

text \<open>
  After a part has been taken, \<^verbatim>\<open>buf_left\<close> and \<^verbatim>\<open>len_left\<close> are adjusted, but the next round sends \<^verbatim>\<open>buf\<close>
  and \<^verbatim>\<open>len\<close> again; \<^verbatim>\<open>len_left\<close> is only compared.
\<close>

primrec send_rounds :: "nat \<Rightarrow> 'o os \<Rightarrow> bytes \<Rightarrow> int \<Rightarrow> int \<Rightarrow> ('o tcp_conn_scheme, unit) cm" where
  "send_rounds 0 S buf flags len_left = out_of_fuel"
| "send_rounds (Suc n) S buf flags len_left = and_then get (\<lambda>self.
     and_then (on_os (sys_send S (sockfd self) buf flags)) (\<lambda>r. case r of
       Inl e \<Rightarrow> and_then (set_error e) (\<lambda>_.
         if e = EINTR then send_rounds n S buf flags len_left else raise AMQP_STATUS_SOCKET_ERROR)
     | Inr res \<Rightarrow>
         if int res = len_left then set_error 0 else send_rounds n S buf flags (len_left - int res)))"

definition amqp_tcp_socket_send_inner :: "nat \<Rightarrow> 'o os \<Rightarrow> bytes \<Rightarrow> int \<Rightarrow> ('o tcp_conn_scheme, unit) cm" where
  "amqp_tcp_socket_send_inner n S buf flags = send_rounds n S buf
     (case msg_nosignal S of None \<Rightarrow> flags | Some f \<Rightarrow> flags OR f) (int (length buf))"

definition amqp_tcp_socket_send :: "nat \<Rightarrow> 'o os \<Rightarrow> bytes \<Rightarrow> ('o tcp_conn_scheme, unit) cm" where
  "amqp_tcp_socket_send n S buf = amqp_tcp_socket_send_inner n S buf 0"

section \<open>Writing several pieces\<close>

text \<open>With \<^verbatim>\<open>MSG_MORE\<close>: one call for each piece, all but the last flagged.\<close>

fun writev_more :: "nat \<Rightarrow> 'o os \<Rightarrow> int \<Rightarrow> bytes list \<Rightarrow> ('o tcp_conn_scheme, unit) cm" where
  "writev_more n S more_flag [] = undef"
| "writev_more n S more_flag [b] = amqp_tcp_socket_send_inner n S b 0"
| "writev_more n S more_flag (b # bs) =
     and_then (amqp_tcp_socket_send_inner n S b more_flag) (\<lambda>_. writev_more n S more_flag bs)"

text \<open>
  With \<^verbatim>\<open>writev\<close>: the pieces that were taken are skipped, the first of the others is cut.  Nothing changes
  when all of them were taken.  A call may take a single byte, hence the number of rounds.
\<close>

fun skip_pieces :: "nat \<Rightarrow> bytes list \<Rightarrow> bytes list option" where
  "skip_pieces k [] = None"
| "skip_pieces k (b # bs) = (if k < length b then Some (drop k b # bs) else skip_pieces (k - length b) bs)"

primrec writev_rounds :: "nat \<Rightarrow> 'o os \<Rightarrow> bytes list \<Rightarrow> int \<Rightarrow> ('o tcp_conn_scheme, unit) cm" where
  "writev_rounds 0 S iov_left len_left = out_of_fuel"
| "writev_rounds (Suc n) S iov_left len_left = and_then get (\<lambda>self.
     and_then (on_os (sys_writev S (sockfd self) iov_left)) (\<lambda>r. case r of
       Inl e \<Rightarrow> and_then (set_error e) (\<lambda>_.
         if e = EINTR then writev_rounds n S iov_left len_left else raise AMQP_STATUS_SOCKET_ERROR)
     | Inr res \<Rightarrow>
         if int res = len_left then set_error 0
         else writev_rounds n S (case skip_pieces res iov_left of None \<Rightarrow> iov_left | Some iov \<Rightarrow> iov)
           (len_left - int res)))"

definition writev_vectored :: "nat \<Rightarrow> 'o os \<Rightarrow> bytes list \<Rightarrow> ('o tcp_conn_scheme, unit) cm" where
  "writev_vectored n S iov = writev_rounds (n * Suc (length (concat iov))) S iov (int (length (concat iov)))"

text \<open>
  Otherwise: the pieces are collected in a buffer that grows and is kept.  When it cannot grow the old
  block is lost, for the pointer is overwritten with the result of \<^verbatim>\<open>realloc\<close>.
\<close>

definition grow_buffer :: "nat \<Rightarrow> ('o tcp_conn_scheme, unit) cm" where
  "grow_buffer wanted = and_then get (\<lambda>self.
     if buffer_length self < wanted then
       and_then (c_realloc (send_block self) wanted) (\<lambda>r. case r of
         None \<Rightarrow>
           and_then (modify (\<lambda>c. c\<lparr>send_block := None, send_buffer := [], buffer_length := 0, internal_error := 0\<rparr>)) (\<lambda>_.
           raise AMQP_STATUS_NO_MEMORY)
       | Some b \<Rightarrow> modify (\<lambda>c. c\<lparr>send_block := Some b, buffer_length := wanted,
           send_buffer := resized (stale c) wanted (send_buffer c)\<rparr>))
     else ret ())"

definition writev_buffered :: "nat \<Rightarrow> 'o os \<Rightarrow> bytes list \<Rightarrow> ('o tcp_conn_scheme, unit) cm" where
  "writev_buffered n S iov =
     and_then (grow_buffer (length (concat iov))) (\<lambda>_.
     and_then get (\<lambda>self.
     if length (send_buffer self) < length (concat iov) then undef
     else
       and_then (modify (\<lambda>c. c\<lparr>send_buffer := splice (send_buffer c) 0 (concat iov)\<rparr>)) (\<lambda>_.
       and_then get (\<lambda>self.
       amqp_tcp_socket_send_inner n S (take (length (concat iov)) (send_buffer self)) 0))))"

definition amqp_tcp_socket_writev :: "nat \<Rightarrow> 'o os \<Rightarrow> bytes list \<Rightarrow> ('o tcp_conn_scheme, unit) cm" where
  "amqp_tcp_socket_writev n S iov = (case msg_more S of
     Some f \<Rightarrow> writev_more n S f iov
   | None \<Rightarrow> if opt_nosigpipe S \<noteq> None \<or> msg_nosignal S = None then writev_vectored n S iov
             else writev_buffered n S iov)"

section \<open>Receiving, opening and closing\<close>

primrec amqp_tcp_socket_recv :: "nat \<Rightarrow> 'o os \<Rightarrow> nat \<Rightarrow> ('o tcp_conn_scheme, bytes) cm" where
  "amqp_tcp_socket_recv 0 S len = out_of_fuel"
| "amqp_tcp_socket_recv (Suc n) S len = and_then get (\<lambda>self.
     and_then (on_os (sys_recv S (sockfd self) len 0)) (\<lambda>r. case r of
       Inl e \<Rightarrow> and_then (set_error e) (\<lambda>_.
         if e = EINTR then amqp_tcp_socket_recv n S len else raise AMQP_STATUS_SOCKET_ERROR)
     | Inr bs \<Rightarrow> if bs = [] then raise AMQP_STATUS_CONNECTION_CLOSED else ret bs))"

text \<open>The status that a negative result stands for.\<close>

definition negative_statuses :: "amqp_status_enum list" where
  "negative_statuses = [AMQP_STATUS_NO_MEMORY, AMQP_STATUS_HOSTNAME_RESOLUTION_FAILED, AMQP_STATUS_SOCKET_ERROR]"

definition raise_code :: "int \<Rightarrow> ('s, 'b) cm" where
  "raise_code e = (case filter (\<lambda>s. status_code s = e) negative_statuses of s # _ \<Rightarrow> raise s | [] \<Rightarrow> undef)"

definition amqp_tcp_socket_open :: "'o os \<Rightarrow> bytes \<Rightarrow> int \<Rightarrow> ('o tcp_conn_scheme, unit) cm" where
  "amqp_tcp_socket_open S hostname port =
     and_then (on_os (amqp_open_socket S hostname port)) (\<lambda>fd.
     if fd < 0 then and_then (modify (\<lambda>c. c\<lparr>sockfd := - 1\<rparr>)) (\<lambda>_. raise_code fd)
     else modify (\<lambda>c. c\<lparr>sockfd := fd\<rparr>))"

definition amqp_tcp_socket_close :: "'o os \<Rightarrow> ('o tcp_conn_scheme, unit) cm" where
  "amqp_tcp_socket_close S = and_then get (\<lambda>self.
     if sockfd self \<noteq> - 1 then
       and_then (on_os (amqp_os_socket_close S (sockfd self))) (\<lambda>r. case r of
         Inl _ \<Rightarrow> raise AMQP_STATUS_SOCKET_ERROR
       | Inr _ \<Rightarrow> modify (\<lambda>c. c\<lparr>sockfd := - 1\<rparr>))
     else ret ())"

definition amqp_tcp_socket_get_sockfd :: "('o tcp_conn_scheme, int) cm" where
  "amqp_tcp_socket_get_sockfd = and_then get (\<lambda>self. ret (sockfd self))"

definition amqp_tcp_socket_delete :: "'o os \<Rightarrow> ('o tcp_conn_scheme, unit) cm" where
  "amqp_tcp_socket_delete S =
     and_then (attempt (amqp_tcp_socket_close S)) (\<lambda>_.
     and_then get (\<lambda>self.
     and_then (c_free (send_block self)) (\<lambda>_.
     c_free (tcp_block self))))"

definition amqp_tcp_socket_class :: "nat \<Rightarrow> 'o os \<Rightarrow> 'o tcp_conn_scheme amqp_socket_class" where
  "amqp_tcp_socket_class n S =
     \<lparr>klass_writev = amqp_tcp_socket_writev n S, klass_send = amqp_tcp_socket_send n S,
      klass_recv = amqp_tcp_socket_recv n S, klass_open = (\<lambda>h port. and_then (amqp_tcp_socket_open S h port) (\<lambda>_. ret 0)),
      klass_close = amqp_tcp_socket_close S, klass_get_sockfd = amqp_tcp_socket_get_sockfd,
      klass_delete = amqp_tcp_socket_delete S\<rparr>"

text \<open>
  \<^verbatim>\<open>amqp_set_socket\<close> deletes the socket that the connection had; the result is the new table, or \<open>None\<close>
  when there is no memory for the object.
\<close>

definition sizeof_tcp_socket :: nat where "sizeof_tcp_socket = 40"

definition amqp_set_socket ::
    "'s amqp_socket_class option \<Rightarrow> 's amqp_socket_class \<Rightarrow> ('s, 's amqp_socket_class option) cm" where
  "amqp_set_socket old new = and_then (amqp_socket_delete old) (\<lambda>_. ret (Some new))"

definition amqp_tcp_socket_new ::
    "nat \<Rightarrow> 'o os \<Rightarrow> 'o tcp_conn_scheme amqp_socket_class option \<Rightarrow>
     ('o tcp_conn_scheme, 'o tcp_conn_scheme amqp_socket_class option) cm" where
  "amqp_tcp_socket_new n S old = and_then (c_malloc sizeof_tcp_socket) (\<lambda>r. case r of
     None \<Rightarrow> ret None
   | Some b \<Rightarrow>
       and_then (amqp_set_socket old (amqp_tcp_socket_class n S)) (\<lambda>k.
       and_then (modify (\<lambda>c. c\<lparr>tcp_block := Some b, sockfd := - 1, send_block := None, send_buffer := [],
         buffer_length := 0, internal_error := 0\<rparr>)) (\<lambda>_. ret k)))"

text \<open>\<open>is_tcp\<close>: the object's table is that of this file.\<close>

definition amqp_tcp_socket_set_sockfd :: "bool \<Rightarrow> int \<Rightarrow> ('o tcp_conn_scheme, unit) cm" where
  "amqp_tcp_socket_set_sockfd is_tcp fd = (if \<not> is_tcp then amqp_abort else modify (\<lambda>c. c\<lparr>sockfd := fd\<rparr>))"

definition amqp_set_sockfd ::
    "nat \<Rightarrow> 'o os \<Rightarrow> 'o tcp_conn_scheme amqp_socket_class option \<Rightarrow> int \<Rightarrow>
     ('o tcp_conn_scheme, 'o tcp_conn_scheme amqp_socket_class option) cm" where
  "amqp_set_sockfd n S old fd = and_then (amqp_tcp_socket_new n S old) (\<lambda>k.
     if k = None then amqp_abort
     else and_then (amqp_tcp_socket_set_sockfd True fd) (\<lambda>_. ret k))"

definition tcp_platform ::
    "nat \<Rightarrow> 'o os \<Rightarrow> ('o tcp_conn_scheme, (int \<times> int) option) cm \<Rightarrow>
     (int \<Rightarrow> timeval \<Rightarrow> ('o tcp_conn_scheme, int \<times> bool \<times> timeval) cm) \<Rightarrow> 'o tcp_conn_scheme platform" where
  "tcp_platform n S clock sel =
     \<lparr>socket = Some (amqp_tcp_socket_class n S), clock_gettime = clock, os_select = sel, ndebug = True\<rparr>"

section \<open>A system that carries a byte stream\<close>

text \<open>
  What POSIX promises of a connected stream socket: a call is interrupted, without effect, or makes
  progress.  \<open>coming\<close> is what is still to be received, \<open>outgoing\<close> what has been sent, and \<open>signals\<close> bounds
  the interruptions in a row by \<open>n\<close>.  \<^verbatim>\<open>send\<close> is assumed to take everything, \<^verbatim>\<open>writev\<close> any part.
\<close>

locale stream_os =
  fixes S :: "'o os" and coming :: "'o \<Rightarrow> bytes" and outgoing :: "'o \<Rightarrow> bytes" and signals :: "'o \<Rightarrow> nat" and n :: nat
  assumes few_signals: "signals u < n"
    and send_law: "\<exists>v. (sys_send S fd bs fl u = (Ok (Inl EINTR), v) \<and> outgoing v = outgoing u \<and> signals v < signals u \<or>
      sys_send S fd bs fl u = (Ok (Inr (length bs)), v) \<and> outgoing v = outgoing u @ bs) \<and> coming v = coming u"
    and writev_law: "\<exists>v. (sys_writev S fd iov u = (Ok (Inl EINTR), v) \<and> outgoing v = outgoing u \<and> signals v < signals u \<or>
      (\<exists>k. sys_writev S fd iov u = (Ok (Inr k), v) \<and> k \<le> length (concat iov) \<and> (k = 0 \<longrightarrow> concat iov = []) \<and>
        outgoing v = outgoing u @ take k (concat iov))) \<and> coming v = coming u"
    and recv_law: "0 < len \<Longrightarrow> coming u \<noteq> [] \<Longrightarrow>
      \<exists>v. (sys_recv S fd len fl u = (Ok (Inl EINTR), v) \<and> coming v = coming u \<and> signals v < signals u \<or>
      (\<exists>bs. sys_recv S fd len fl u = (Ok (Inr bs), v) \<and> bs \<noteq> [] \<and> length bs \<le> len \<and> coming u = bs @ coming v)) \<and>
        outgoing v = outgoing u"

text \<open>What the calls leave alone: everything but the error code and the system.\<close>

definition system_step :: "'o tcp_conn_scheme \<Rightarrow> 'o tcp_conn_scheme \<Rightarrow> bool" where
  "system_step c c' \<longleftrightarrow> (\<exists>e v. c' = c\<lparr>internal_error := e, tcp_conn.more := v\<rparr>)"

lemma system_step_refl: "system_step c c"
  unfolding system_step_def by (intro exI [of _ "internal_error c"] exI [of _ "tcp_conn.more c"]) simp

lemma system_step_trans: "system_step c d \<Longrightarrow> system_step d e \<Longrightarrow> system_step c e"
  unfolding system_step_def by (elim exE) (rule exI, rule exI, simp)

lemma system_step_error: "system_step c (c\<lparr>tcp_conn.more := v, internal_error := e\<rparr>)"
  unfolding system_step_def by (cases c) auto

lemma system_step_conn: "system_step c c' \<Longrightarrow> c' = c\<lparr>conn.more := conn.more c'\<rparr>"
  unfolding system_step_def by (cases c) auto

lemma system_step_same: "system_step c c' \<Longrightarrow> sockfd c' = sockfd c"
  unfolding system_step_def by auto

lemma on_os_run: "m (tcp_conn.more c) = (r, v) \<Longrightarrow> on_os m c = (r, c\<lparr>tcp_conn.more := v\<rparr>)"
  by (simp add: on_os_def)

lemma set_error_run: "set_error e c = (Ok (), c\<lparr>internal_error := e\<rparr>)"
  by (simp add: set_error_def)

lemma skip_pieces_run: "k < length (concat iov) \<Longrightarrow> \<exists>rest. skip_pieces k iov = Some rest \<and> concat rest = drop k (concat iov)"
  by (induction k iov rule: skip_pieces.induct) auto

context stream_os
begin

lemma send_rounds_run:
  assumes "signals (tcp_conn.more c) < k"
  shows "\<exists>c'. send_rounds k S buf fl (int (length buf)) c = (Ok (), c') \<and> system_step c c' \<and>
    coming (tcp_conn.more c') = coming (tcp_conn.more c) \<and> outgoing (tcp_conn.more c') = outgoing (tcp_conn.more c) @ buf"
  using assms
proof (induction k arbitrary: c)
  case (Suc k)
  let ?u = "tcp_conn.more c"
  from send_law [of "sockfd c" buf fl ?u] obtain v where
    v: "coming v = coming ?u" and cases:
    "sys_send S (sockfd c) buf fl ?u = (Ok (Inl EINTR), v) \<and> outgoing v = outgoing ?u \<and> signals v < signals ?u \<or>
     sys_send S (sockfd c) buf fl ?u = (Ok (Inr (length buf)), v) \<and> outgoing v = outgoing ?u @ buf" by blast
  from cases show ?case
  proof
    assume A: "sys_send S (sockfd c) buf fl ?u = (Ok (Inl EINTR), v) \<and> outgoing v = outgoing ?u \<and> signals v < signals ?u"
    let ?c = "c\<lparr>tcp_conn.more := v, internal_error := EINTR\<rparr>"
    have "send_rounds (Suc k) S buf fl (int (length buf)) c = send_rounds k S buf fl (int (length buf)) ?c"
      using A by (simp add: and_then_Ok on_os_run set_error_run)
    moreover have "signals (tcp_conn.more ?c) < k" using A Suc.prems by simp
    from Suc.IH [OF this] obtain c' where
      "send_rounds k S buf fl (int (length buf)) ?c = (Ok (), c')" "system_step ?c c'"
      "coming (tcp_conn.more c') = coming v" "outgoing (tcp_conn.more c') = outgoing v @ buf" by auto
    moreover have "system_step c ?c" by (rule system_step_error)
    ultimately show ?thesis using A v by (intro exI [of _ c']) (auto intro: system_step_trans)
  next
    assume A: "sys_send S (sockfd c) buf fl ?u = (Ok (Inr (length buf)), v) \<and> outgoing v = outgoing ?u @ buf"
    let ?c = "c\<lparr>internal_error := 0, tcp_conn.more := v\<rparr>"
    have "send_rounds (Suc k) S buf fl (int (length buf)) c = (Ok (), ?c)"
      using A by (simp add: and_then_Ok on_os_run set_error_run)
    then show ?thesis using A v by (intro exI [of _ ?c]) (auto simp: system_step_def)
  qed
qed simp

lemma send_inner_run:
  "\<exists>c'. amqp_tcp_socket_send_inner n S buf fl c = (Ok (), c') \<and> system_step c c' \<and>
    coming (tcp_conn.more c') = coming (tcp_conn.more c) \<and> outgoing (tcp_conn.more c') = outgoing (tcp_conn.more c) @ buf"
  unfolding amqp_tcp_socket_send_inner_def by (rule send_rounds_run) (rule few_signals)

lemma writev_more_run:
  assumes "iov \<noteq> []"
  shows "\<exists>c'. writev_more n S fl iov c = (Ok (), c') \<and> system_step c c' \<and>
    coming (tcp_conn.more c') = coming (tcp_conn.more c) \<and>
    outgoing (tcp_conn.more c') = outgoing (tcp_conn.more c) @ concat iov"
  using assms
proof (induction iov arbitrary: c rule: list_nonempty_induct)
  case (single b)
  then show ?case using send_inner_run [of b 0 c] by simp
next
  case (cons b bs)
  obtain c1 where 1: "amqp_tcp_socket_send_inner n S b fl c = (Ok (), c1)" "system_step c c1"
    "coming (tcp_conn.more c1) = coming (tcp_conn.more c)" "outgoing (tcp_conn.more c1) = outgoing (tcp_conn.more c) @ b"
    using send_inner_run by blast
  obtain c2 where 2: "writev_more n S fl bs c1 = (Ok (), c2)" "system_step c1 c2"
    "coming (tcp_conn.more c2) = coming (tcp_conn.more c1)"
    "outgoing (tcp_conn.more c2) = outgoing (tcp_conn.more c1) @ concat bs"
    using cons.IH by blast
  have "writev_more n S fl (b # bs) c = (Ok (), c2)"
    using 1(1) 2(1) cons.hyps by (cases bs) (simp_all add: and_then_Ok)
  moreover have "system_step c c2" using 1(2) 2(2) by (rule system_step_trans)
  ultimately show ?case using 1 2 by (intro exI [of _ c2]) simp
qed

text \<open>Every round of \<^verbatim>\<open>writev\<close> takes a byte or uses up a signal.\<close>

lemma writev_rounds_run:
  assumes "length (concat iov) * n + signals (tcp_conn.more c) < k"
  shows "\<exists>c'. writev_rounds k S iov (int (length (concat iov))) c = (Ok (), c') \<and> system_step c c' \<and>
    coming (tcp_conn.more c') = coming (tcp_conn.more c) \<and>
    outgoing (tcp_conn.more c') = outgoing (tcp_conn.more c) @ concat iov"
  using assms
proof (induction k arbitrary: c iov)
  case (Suc k)
  let ?u = "tcp_conn.more c" and ?len = "int (length (concat iov))"
  from writev_law [of "sockfd c" iov ?u] obtain v where v: "coming v = coming ?u" and cases:
    "sys_writev S (sockfd c) iov ?u = (Ok (Inl EINTR), v) \<and> outgoing v = outgoing ?u \<and> signals v < signals ?u \<or>
     (\<exists>j. sys_writev S (sockfd c) iov ?u = (Ok (Inr j), v) \<and> j \<le> length (concat iov) \<and> (j = 0 \<longrightarrow> concat iov = []) \<and>
        outgoing v = outgoing ?u @ take j (concat iov))" by blast
  from cases show ?case
  proof (elim disjE exE)
    assume A: "sys_writev S (sockfd c) iov ?u = (Ok (Inl EINTR), v) \<and> outgoing v = outgoing ?u \<and> signals v < signals ?u"
    let ?c = "c\<lparr>tcp_conn.more := v, internal_error := EINTR\<rparr>"
    have "writev_rounds (Suc k) S iov ?len c = writev_rounds k S iov ?len ?c"
      using A by (simp add: and_then_Ok on_os_run set_error_run)
    moreover have "length (concat iov) * n + signals (tcp_conn.more ?c) < k" using A Suc.prems by simp
    from Suc.IH [OF this] obtain c' where "writev_rounds k S iov ?len ?c = (Ok (), c')" "system_step ?c c'"
      "coming (tcp_conn.more c') = coming v" "outgoing (tcp_conn.more c') = outgoing v @ concat iov" by auto
    moreover have "system_step c ?c" by (rule system_step_error)
    ultimately show ?thesis using A v by (intro exI [of _ c']) (auto intro: system_step_trans)
  next
    fix j
    assume A: "sys_writev S (sockfd c) iov ?u = (Ok (Inr j), v) \<and> j \<le> length (concat iov) \<and> (j = 0 \<longrightarrow> concat iov = []) \<and>
        outgoing v = outgoing ?u @ take j (concat iov)"
    show ?thesis
    proof (cases "j = length (concat iov)")
      case True
      let ?c = "c\<lparr>internal_error := 0, tcp_conn.more := v\<rparr>"
      have "writev_rounds (Suc k) S iov ?len c = (Ok (), ?c)"
        using A True by (simp add: and_then_Ok on_os_run set_error_run)
      then show ?thesis using A v True by (intro exI [of _ ?c]) (auto simp: system_step_def)
    next
      case False
      let ?c = "c\<lparr>tcp_conn.more := v\<rparr>"
      have "j \<noteq> 0"
      proof
        assume "j = 0"
        with A have "concat iov = []" by blast
        with False \<open>j = 0\<close> show False by (simp only: list.size)
      qed
      then have j: "0 < j" "j < length (concat iov)" using A False by simp_all
      from skip_pieces_run [OF j(2)] obtain rest where
        rest: "skip_pieces j iov = Some rest" "concat rest = drop j (concat iov)" by blast
      have len: "length (concat rest) = length (concat iov) - j" using rest(2) by simp
      then have ilen: "int (length (concat rest)) = ?len - int j" using j(2) by (simp only: of_nat_diff less_imp_le)
      have "writev_rounds (Suc k) S iov ?len c = writev_rounds k S rest (int (length (concat rest))) ?c"
        using A False rest(1) unfolding ilen by (simp add: and_then_Ok on_os_run)
      moreover have "length (concat rest) * n + signals v < k"
      proof -
        have "Suc (length (concat rest)) \<le> length (concat iov)" using len j by simp
        then have "Suc (length (concat rest)) * n \<le> length (concat iov) * n" by (rule mult_le_mono1)
        with few_signals [of v] Suc.prems show ?thesis by simp
      qed
      then obtain c' where c': "writev_rounds k S rest (int (length (concat rest))) ?c = (Ok (), c')" "system_step ?c c'"
        "coming (tcp_conn.more c') = coming v" "outgoing (tcp_conn.more c') = outgoing v @ concat rest"
        using Suc.IH [of rest ?c] by auto
      have "?c = c\<lparr>internal_error := internal_error c, tcp_conn.more := v\<rparr>" by simp
      then have "system_step c ?c" unfolding system_step_def by blast
      then have step: "system_step c c'" using c'(2) by (rule system_step_trans)
      moreover have "outgoing v @ concat rest = outgoing ?u @ concat iov" using A rest(2) by simp
      ultimately show ?thesis using c' v by (intro exI [of _ c']) simp
    qed
  qed
qed simp

lemma writev_vectored_run:
  "\<exists>c'. writev_vectored n S iov c = (Ok (), c') \<and> system_step c c' \<and>
    coming (tcp_conn.more c') = coming (tcp_conn.more c) \<and>
    outgoing (tcp_conn.more c') = outgoing (tcp_conn.more c) @ concat iov"
proof -
  have "length (concat iov) * n + signals (tcp_conn.more c) < n * Suc (length (concat iov))"
    using few_signals [of "tcp_conn.more c"] by (simp add: mult.commute)
  then show ?thesis unfolding writev_vectored_def by (rule writev_rounds_run)
qed

lemma recv_rounds_run:
  assumes "0 < len" and "coming (tcp_conn.more c) \<noteq> []" and "signals (tcp_conn.more c) < k"
  shows "\<exists>bs c'. amqp_tcp_socket_recv k S len c = (Ok bs, c') \<and> system_step c c' \<and> bs \<noteq> [] \<and> length bs \<le> len \<and>
    coming (tcp_conn.more c) = bs @ coming (tcp_conn.more c') \<and> outgoing (tcp_conn.more c') = outgoing (tcp_conn.more c)"
  using assms(2,3)
proof (induction k arbitrary: c)
  case (Suc k)
  let ?u = "tcp_conn.more c"
  from recv_law [OF assms(1) Suc.prems(1), of "sockfd c" 0] obtain v where v: "outgoing v = outgoing ?u" and cases:
    "sys_recv S (sockfd c) len 0 ?u = (Ok (Inl EINTR), v) \<and> coming v = coming ?u \<and> signals v < signals ?u \<or>
     (\<exists>bs. sys_recv S (sockfd c) len 0 ?u = (Ok (Inr bs), v) \<and> bs \<noteq> [] \<and> length bs \<le> len \<and> coming ?u = bs @ coming v)"
    by blast
  from cases show ?case
  proof (elim disjE exE)
    assume A: "sys_recv S (sockfd c) len 0 ?u = (Ok (Inl EINTR), v) \<and> coming v = coming ?u \<and> signals v < signals ?u"
    let ?c = "c\<lparr>tcp_conn.more := v, internal_error := EINTR\<rparr>"
    have "amqp_tcp_socket_recv (Suc k) S len c = amqp_tcp_socket_recv k S len ?c"
      using A by (simp add: and_then_Ok on_os_run set_error_run)
    moreover have "coming (tcp_conn.more ?c) \<noteq> []" "signals (tcp_conn.more ?c) < k" using A Suc.prems by simp_all
    from Suc.IH [OF this] obtain bs c' where "amqp_tcp_socket_recv k S len ?c = (Ok bs, c')" "system_step ?c c'"
      "bs \<noteq> []" "length bs \<le> len" "coming v = bs @ coming (tcp_conn.more c')" "outgoing (tcp_conn.more c') = outgoing v" by auto
    moreover have "system_step c ?c" by (rule system_step_error)
    ultimately show ?thesis using A v by (intro exI [of _ bs] exI [of _ c']) (auto intro: system_step_trans)
  next
    fix bs
    assume A: "sys_recv S (sockfd c) len 0 ?u = (Ok (Inr bs), v) \<and> bs \<noteq> [] \<and> length bs \<le> len \<and> coming ?u = bs @ coming v"
    let ?c = "c\<lparr>tcp_conn.more := v\<rparr>"
    have "amqp_tcp_socket_recv (Suc k) S len c = (Ok bs, ?c)" using A by (simp add: and_then_Ok on_os_run)
    moreover have "?c = c\<lparr>internal_error := internal_error c, tcp_conn.more := v\<rparr>" by simp
    then have "system_step c ?c" unfolding system_step_def by blast
    ultimately show ?thesis using A v by (intro exI [of _ bs] exI [of _ ?c]) simp
  qed
qed simp

end

text \<open>The part of a connection's state that is the system's.\<close>

definition os_part :: "'o tcp_conn_ext \<Rightarrow> 'o" where
  "os_part m = tcp_conn.more (conn.extend sample_conn m)"

lemma os_part_more [simp]: "os_part (conn.more c) = tcp_conn.more c"
  by (cases c) (simp add: os_part_def conn.defs sample_conn_def zeroed_def heap.defs)

text \<open>A system whose socket writes directly, without collecting the pieces in a buffer.\<close>

locale direct_os = stream_os S coming outgoing signals n
  for S :: "'o os" and coming :: "'o \<Rightarrow> bytes" and outgoing :: "'o \<Rightarrow> bytes" and signals :: "'o \<Rightarrow> nat" and n :: nat +
  fixes clock :: "('o tcp_conn_scheme, (int \<times> int) option) cm"
    and sel :: "int \<Rightarrow> timeval \<Rightarrow> ('o tcp_conn_scheme, int \<times> bool \<times> timeval) cm"
  assumes direct: "msg_more S \<noteq> None \<or> opt_nosigpipe S \<noteq> None \<or> msg_nosignal S = None"
begin

lemma writev_run:
  assumes "iov \<noteq> []"
  shows "\<exists>c'. amqp_tcp_socket_writev n S iov c = (Ok (), c') \<and> system_step c c' \<and>
    coming (tcp_conn.more c') = coming (tcp_conn.more c) \<and>
    outgoing (tcp_conn.more c') = outgoing (tcp_conn.more c) @ concat iov"
  using direct writev_more_run [OF assms] writev_vectored_run
  by (auto simp: amqp_tcp_socket_writev_def split: option.split)

lemma tcp_duplex: "duplex_stream (tcp_platform n S clock sel) (coming o os_part) (outgoing o os_part)"
proof
  fix len :: nat and c
  assume "0 < len" and "(coming o os_part) (conn.more c) \<noteq> []"
  then have "coming (tcp_conn.more c) \<noteq> []" by simp
  from recv_rounds_run [OF \<open>0 < len\<close> this few_signals] obtain bs c' where
    1: "amqp_tcp_socket_recv n S len c = (Ok bs, c')" "system_step c c'" "bs \<noteq> []" "length bs \<le> len"
    "coming (tcp_conn.more c) = bs @ coming (tcp_conn.more c')" "outgoing (tcp_conn.more c') = outgoing (tcp_conn.more c)"
    by blast
  have "amqp_socket_recv (socket (tcp_platform n S clock sel)) len c = (Ok bs, c\<lparr>conn.more := conn.more c'\<rparr>)"
    using 1(1) system_step_conn [OF 1(2)]
    by (simp add: amqp_socket_recv_def tcp_platform_def amqp_tcp_socket_class_def)
  with 1 show "\<exists>bs m. amqp_socket_recv (socket (tcp_platform n S clock sel)) len c = (Ok bs, c\<lparr>conn.more := m\<rparr>) \<and> bs \<noteq> [] \<and>
      length bs \<le> len \<and> (coming o os_part) (conn.more c) = bs @ (coming o os_part) m \<and>
      (outgoing o os_part) m = (outgoing o os_part) (conn.more c)"
    by (intro exI [of _ bs] exI [of _ "conn.more c'"]) simp
next
  fix bs c
  obtain c' where 1: "amqp_tcp_socket_send_inner n S bs 0 c = (Ok (), c')" "system_step c c'"
    "coming (tcp_conn.more c') = coming (tcp_conn.more c)" "outgoing (tcp_conn.more c') = outgoing (tcp_conn.more c) @ bs"
    using send_inner_run by blast
  have "amqp_socket_send (socket (tcp_platform n S clock sel)) bs c = (Ok (), c\<lparr>conn.more := conn.more c'\<rparr>)"
    using 1(1) system_step_conn [OF 1(2)]
    by (simp add: amqp_socket_send_def tcp_platform_def amqp_tcp_socket_class_def amqp_tcp_socket_send_def)
  with 1 show "\<exists>m. amqp_socket_send (socket (tcp_platform n S clock sel)) bs c = (Ok (), c\<lparr>conn.more := m\<rparr>) \<and>
      (coming o os_part) m = (coming o os_part) (conn.more c) \<and>
      (outgoing o os_part) m = (outgoing o os_part) (conn.more c) @ bs"
    by (intro exI [of _ "conn.more c'"]) simp
next
  fix iov :: "bytes list" and c
  assume "iov \<noteq> []"
  from writev_run [OF this] obtain c' where 1: "amqp_tcp_socket_writev n S iov c = (Ok (), c')" "system_step c c'"
    "coming (tcp_conn.more c') = coming (tcp_conn.more c)"
    "outgoing (tcp_conn.more c') = outgoing (tcp_conn.more c) @ concat iov" by blast
  have "amqp_socket_writev (socket (tcp_platform n S clock sel)) iov c = (Ok (), c\<lparr>conn.more := conn.more c'\<rparr>)"
    using 1(1) system_step_conn [OF 1(2)]
    by (simp add: amqp_socket_writev_def tcp_platform_def amqp_tcp_socket_class_def)
  with 1 show "\<exists>m. amqp_socket_writev (socket (tcp_platform n S clock sel)) iov c = (Ok (), c\<lparr>conn.more := m\<rparr>) \<and>
      (coming o os_part) m = (coming o os_part) (conn.more c) \<and>
      (outgoing o os_part) m = (outgoing o os_part) (conn.more c) @ concat iov"
    by (intro exI [of _ "conn.more c'"]) simp
qed

end

sublocale direct_os \<subseteq> tcp: duplex_stream "tcp_platform n S clock sel" "coming o os_part" "outgoing o os_part"
  by (rule tcp_duplex)

section \<open>The variants of writing\<close>

definition buffer_sound :: "'o tcp_conn_scheme \<Rightarrow> bool" where
  "buffer_sound c \<longleftrightarrow> length (send_buffer c) = buffer_length c \<and> granting c \<and>
     (case send_block c of None \<Rightarrow> True | Some b \<Rightarrow> live c b \<noteq> None)"

lemma grow_buffer_run:
  assumes "buffer_sound c"
  shows "\<exists>c'. grow_buffer k c = (Ok (), c') \<and> k \<le> length (send_buffer c') \<and> tcp_conn.more c' = tcp_conn.more c"
proof (cases "buffer_length c < k")
  case True
  have "granting c" using assms by (simp add: buffer_sound_def)
  then have g: "grants c i" for i by (simp add: granting_def)
  obtain b d where 1: "c_realloc (send_block c) k c = (Ok (Some b), d)" "tcp_conn.more d = tcp_conn.more c"
    using assms g by (cases "send_block c") (auto simp: buffer_sound_def c_realloc_def c_malloc_def Let_def)
  then show ?thesis using True
    by (simp add: grow_buffer_def and_then_Ok resized_def)
qed (use assms in \<open>simp add: grow_buffer_def and_then_Ok buffer_sound_def\<close>)

context stream_os
begin

lemma writev_buffered_run:
  assumes "buffer_sound c"
  shows "\<exists>c'. writev_buffered n S iov c = (Ok (), c') \<and> coming (tcp_conn.more c') = coming (tcp_conn.more c) \<and>
    outgoing (tcp_conn.more c') = outgoing (tcp_conn.more c) @ concat iov"
proof -
  obtain d where d: "grow_buffer (length (concat iov)) c = (Ok (), d)" "length (concat iov) \<le> length (send_buffer d)"
    "tcp_conn.more d = tcp_conn.more c" using grow_buffer_run [OF assms] by blast
  let ?d = "d\<lparr>send_buffer := splice (send_buffer d) 0 (concat iov)\<rparr>"
  have "take (length (concat iov)) (splice (send_buffer d) 0 (concat iov)) = concat iov" by (simp add: splice_def)
  then have "writev_buffered n S iov c = amqp_tcp_socket_send_inner n S (concat iov) 0 ?d"
    using d(1,2) by (simp add: writev_buffered_def and_then_Ok)
  with send_inner_run [of "concat iov" 0 ?d] d(3) show ?thesis by auto
qed

lemma writev_variants:
  assumes "iov \<noteq> []" and "buffer_sound c"
  shows "\<exists>c1 c2 c3. writev_more n S fl iov c = (Ok (), c1) \<and> writev_vectored n S iov c = (Ok (), c2) \<and>
    writev_buffered n S iov c = (Ok (), c3) \<and>
    outgoing (tcp_conn.more c1) = outgoing (tcp_conn.more c) @ concat iov \<and>
    outgoing (tcp_conn.more c2) = outgoing (tcp_conn.more c1) \<and> outgoing (tcp_conn.more c3) = outgoing (tcp_conn.more c1)"
proof -
  obtain c1 where "writev_more n S fl iov c = (Ok (), c1)" "outgoing (tcp_conn.more c1) = outgoing (tcp_conn.more c) @ concat iov"
    using writev_more_run [OF assms(1)] by blast
  moreover obtain c2 where "writev_vectored n S iov c = (Ok (), c2)"
    "outgoing (tcp_conn.more c2) = outgoing (tcp_conn.more c) @ concat iov" using writev_vectored_run by blast
  moreover obtain c3 where "writev_buffered n S iov c = (Ok (), c3)"
    "outgoing (tcp_conn.more c3) = outgoing (tcp_conn.more c) @ concat iov" using writev_buffered_run [OF assms(2)] by blast
  ultimately show ?thesis by (intro exI [of _ c1] exI [of _ c2] exI [of _ c3]) simp
qed

end

section \<open>A system in miniature\<close>

text \<open>
  One connected socket and a table of descriptors.  A call is interrupted twice before it succeeds;
  \<^verbatim>\<open>writev\<close> takes five bytes at a time, \<^verbatim>\<open>recv\<close> gives four.  The addresses in \<open>refusing\<close> refuse to be
  connected to.
\<close>

record pipe =
  incoming :: bytes
  sent_bytes :: bytes
  ticks :: nat
  descriptors :: "int list"
  addresses :: "addrinfo list"
  refusing :: "bytes list"

definition interruptible :: "(pipe, 'b) cm \<Rightarrow> (pipe, int + 'b) cm" where
  "interruptible m = (\<lambda>u. if ticks u mod 3 \<noteq> 0 then (Ok (Inl EINTR), u\<lparr>ticks := ticks u - 1\<rparr>)
     else and_then m (\<lambda>b. and_then (modify (\<lambda>u. u\<lparr>ticks := ticks u + 2\<rparr>)) (\<lambda>_. ret (Inr b))) u)"

definition put_bytes_out :: "bytes \<Rightarrow> (pipe, nat) cm" where
  "put_bytes_out bs = and_then (modify (\<lambda>u. u\<lparr>sent_bytes := sent_bytes u @ bs\<rparr>)) (\<lambda>_. ret (length bs))"

definition take_bytes_in :: "nat \<Rightarrow> (pipe, bytes) cm" where
  "take_bytes_in k = and_then get (\<lambda>u.
     and_then (modify (\<lambda>u. u\<lparr>incoming := drop k (incoming u)\<rparr>)) (\<lambda>_. ret (take k (incoming u))))"

definition fresh_descriptor :: "int list \<Rightarrow> int" where
  "fresh_descriptor fds = foldr max fds (- 1) + 1"

lemma fresh_descriptor: "0 \<le> fresh_descriptor fds" "fresh_descriptor fds \<notin> set fds"
proof -
  have "- 1 \<le> foldr max fds (- 1) \<and> (\<forall>fd\<in>set fds. fd \<le> foldr max fds (- 1))"
    by (induction fds) auto
  then show "0 \<le> fresh_descriptor fds" "fresh_descriptor fds \<notin> set fds" by (auto simp: fresh_descriptor_def)
qed

definition new_descriptor :: "(pipe, int + int) cm" where
  "new_descriptor = and_then get (\<lambda>u. let fd = fresh_descriptor (descriptors u) in
     and_then (modify (\<lambda>u. u\<lparr>descriptors := fd # descriptors u\<rparr>)) (\<lambda>_. ret (Inr fd)))"

definition pipe_os :: "int option \<Rightarrow> int option \<Rightarrow> int option \<Rightarrow> pipe os" where
  "pipe_os mo nosignal nosigpipe =
     \<lparr>sys_send = (\<lambda>fd bs fl. interruptible (put_bytes_out bs)),
      sys_writev = (\<lambda>fd iov. interruptible (put_bytes_out (take 5 (concat iov)))),
      sys_recv = (\<lambda>fd len fl. interruptible (take_bytes_in (min len 4))),
      sys_close = (\<lambda>fd. and_then (modify (\<lambda>u. u\<lparr>descriptors := removeAll fd (descriptors u)\<rparr>)) (\<lambda>_. ret (Inr ()))),
      sys_socket = (\<lambda>_ _ _. new_descriptor),
      sys_getfd = (\<lambda>fd. ret (Inr 0)),
      sys_setfd = (\<lambda>fd fl. ret (Inr ())),
      sys_setsockopt = (\<lambda>fd level opt. ret (Inr ())),
      sys_connect = (\<lambda>fd addr. and_then get (\<lambda>u. ret (if addr \<in> set (refusing u) then Inl 111 else Inr ()))),
      sys_getaddrinfo = (\<lambda>_ _ _. and_then get (\<lambda>u. ret (Inr (addresses u)))),
      sys_freeaddrinfo = (\<lambda>_. ret ()),
      msg_nosignal = nosignal, msg_more = mo, opt_nosigpipe = nosigpipe\<rparr>"

lemma tick_down: "t mod 3 \<noteq> 0 \<Longrightarrow> (t - 1) mod 3 < t mod (3 :: nat)"
  by (cases t) (auto simp: mod_Suc split: if_splits)

lemma pipe_stream: "stream_os (pipe_os mo nosignal nosigpipe) incoming sent_bytes (\<lambda>u. ticks u mod 3) 3"
proof
  show "ticks u mod 3 < 3" for u :: pipe by simp
  fix fd fl :: int and bs :: bytes and u :: pipe
  show "\<exists>v. (sys_send (pipe_os mo nosignal nosigpipe) fd bs fl u = (Ok (Inl EINTR), v) \<and> sent_bytes v = sent_bytes u \<and>
        ticks v mod 3 < ticks u mod 3 \<or>
      sys_send (pipe_os mo nosignal nosigpipe) fd bs fl u = (Ok (Inr (length bs)), v) \<and> sent_bytes v = sent_bytes u @ bs) \<and>
      incoming v = incoming u"
    using tick_down [of "ticks u"] by (simp add: pipe_os_def interruptible_def put_bytes_out_def and_then_assoc and_then_Ok)
next
  fix fd :: int and iov :: "bytes list" and u :: pipe
  show "\<exists>v. (sys_writev (pipe_os mo nosignal nosigpipe) fd iov u = (Ok (Inl EINTR), v) \<and> sent_bytes v = sent_bytes u \<and>
        ticks v mod 3 < ticks u mod 3 \<or>
      (\<exists>k. sys_writev (pipe_os mo nosignal nosigpipe) fd iov u = (Ok (Inr k), v) \<and> k \<le> length (concat iov) \<and>
        (k = 0 \<longrightarrow> concat iov = []) \<and> sent_bytes v = sent_bytes u @ take k (concat iov))) \<and>
      incoming v = incoming u"
    using tick_down [of "ticks u"] by (cases "concat iov")
      (simp_all add: pipe_os_def interruptible_def put_bytes_out_def and_then_assoc and_then_Ok min_def del: concat_eq_Nil_conv)
next
  fix len :: nat and fd fl :: int and u :: pipe
  assume "0 < len" and "incoming u \<noteq> []"
  then show "\<exists>v. (sys_recv (pipe_os mo nosignal nosigpipe) fd len fl u = (Ok (Inl EINTR), v) \<and> incoming v = incoming u \<and>
        ticks v mod 3 < ticks u mod 3 \<or>
      (\<exists>bs. sys_recv (pipe_os mo nosignal nosigpipe) fd len fl u = (Ok (Inr bs), v) \<and> bs \<noteq> [] \<and> length bs \<le> len \<and>
        incoming u = bs @ incoming v)) \<and> sent_bytes v = sent_bytes u"
    using tick_down [of "ticks u"] by (cases "incoming u")
      (simp_all add: pipe_os_def interruptible_def take_bytes_in_def and_then_assoc and_then_Ok min_def)
qed

definition pipe_clock :: "(pipe tcp_conn_scheme, (int \<times> int) option) cm" where
  "pipe_clock = ret (Some (1, 0))"

definition pipe_select :: "int \<Rightarrow> timeval \<Rightarrow> (pipe tcp_conn_scheme, int \<times> bool \<times> timeval) cm" where
  "pipe_select fd tv = ret (1, False, tv)"

interpretation pipe: direct_os "pipe_os (Some 0x8000) (Some 0x4000) None" incoming sent_bytes "\<lambda>u. ticks u mod 3" 3
    pipe_clock pipe_select
  by (rule direct_os.intro [OF pipe_stream]) (simp add: direct_os_axioms_def pipe_os_def)

section \<open>Descriptors\<close>

definition keeps :: "('o \<Rightarrow> int set) \<Rightarrow> ('o, 'b) cm \<Rightarrow> bool" where
  "keeps opened m \<longleftrightarrow> (\<forall>u. \<exists>r v. m u = (Ok r, v) \<and> opened v = opened u)"

lemma keepsD: "keeps opened m \<Longrightarrow> \<exists>r v. m u = (Ok r, v) \<and> opened v = opened u"
  by (simp add: keeps_def)

lemma keeps_ret: "keeps opened (ret a)"
  by (simp add: keeps_def)

lemma keeps_and_then: "keeps opened m \<Longrightarrow> (\<And>a. keeps opened (f a)) \<Longrightarrow> keeps opened (and_then m f)"
  unfolding keeps_def by (metis and_then_Ok)

text \<open>\<open>opened\<close> are the descriptors of the process: \<^verbatim>\<open>socket\<close> gives a new one, \<^verbatim>\<open>close\<close> takes it away.\<close>

locale descriptor_os =
  fixes S :: "'o os" and opened :: "'o \<Rightarrow> int set"
  assumes socket_law: "\<exists>r v. sys_socket S d t p u = (Ok r, v) \<and> (case r of
      Inl _ \<Rightarrow> opened v = opened u
    | Inr fd \<Rightarrow> 0 \<le> fd \<and> fd \<notin> opened u \<and> opened v = insert fd (opened u))"
    and close_law: "\<exists>r v. sys_close S fd u = (Ok r, v) \<and> opened v = opened u - {fd}"
    and others_keep: "keeps opened (sys_getfd S fd)" "keeps opened (sys_setfd S fd fl)"
      "keeps opened (sys_setsockopt S fd l opt)" "keeps opened (sys_connect S fd a)"
      "keeps opened (sys_getaddrinfo S h s hint)" "keeps opened (sys_freeaddrinfo S ai)"
begin

lemma socket_run:
  "\<exists>r v. amqp_os_socket_socket S d t p u = (Ok r, v) \<and> (case r of
      Inl _ \<Rightarrow> opened v = opened u
    | Inr fd \<Rightarrow> 0 \<le> fd \<and> fd \<notin> opened u \<and> opened v = insert fd (opened u))"
proof -
  obtain r v where 1: "sys_socket S d t p u = (Ok r, v)" "case r of
      Inl _ \<Rightarrow> opened v = opened u | Inr fd \<Rightarrow> 0 \<le> fd \<and> fd \<notin> opened u \<and> opened v = insert fd (opened u)"
    using socket_law by blast
  show ?thesis
  proof (cases r)
    case (Inl e)
    then show ?thesis using 1 by (simp add: amqp_os_socket_socket_def and_then_Ok)
  next
    case (Inr fd)
    let ?m = "and_then (sys_getfd S fd) (\<lambda>r. case r of Inl e \<Rightarrow> ret (Inl e) | Inr flags \<Rightarrow> sys_setfd S fd (flags OR FD_CLOEXEC))"
    have "keeps opened ?m" by (intro keeps_and_then others_keep) (auto split: sum.split intro: keeps_ret others_keep)
    from keepsD [OF this, of v] obtain q w where 2: "?m v = (Ok q, w)" "opened w = opened v" by blast
    obtain s x where 3: "sys_close S fd w = (Ok s, x)" "opened x = opened w - {fd}" using close_law by blast
    have run: "amqp_os_socket_socket S d t p u =
        (case q of Inl e \<Rightarrow> and_then (sys_close S fd) (\<lambda>_. ret (Inl e)) | Inr _ \<Rightarrow> ret (Inr fd)) w"
      using 1(1) Inr 2(1) by (simp add: amqp_os_socket_socket_def and_then_Ok del: run_ret)
    show ?thesis
    proof (cases q)
      case (Inl e)
      with run 3 1(2) 2(2) Inr show ?thesis by (simp add: and_then_Ok)
    next
      case (Inr a)
      with run 1(2) 2(2) \<open>r = Inr fd\<close> show ?thesis by simp
    qed
  qed
qed

lemma prepare_keeps: "keeps opened (prepare_socket S fd addr)"
  unfolding prepare_socket_def amqp_os_socket_setsockopt_def
  by (intro keeps_and_then) (auto split: option.split if_splits intro!: keeps_and_then keeps_ret others_keep simp del: run_ret)

lemma try_addresses_run:
  "\<exists>e s v. try_addresses S as result u = (Ok (e, s), v) \<and>
    (opened v = opened u \<and> (e = AMQP_STATUS_SOCKET_ERROR \<or> as = [] \<and> (e, s) = result) \<or>
     e = AMQP_STATUS_OK \<and> 0 \<le> s \<and> s \<notin> opened u \<and> opened v = insert s (opened u))"
proof (induction as arbitrary: result u)
  case Nil
  then show ?case by (cases result) simp
next
  case (Cons a as)
  obtain r v where 1: "amqp_os_socket_socket S (ai_family a) (ai_socktype a) (ai_protocol a) u = (Ok r, v)" "case r of
      Inl _ \<Rightarrow> opened v = opened u | Inr fd \<Rightarrow> 0 \<le> fd \<and> fd \<notin> opened u \<and> opened v = insert fd (opened u)"
    using socket_run by blast
  show ?case
  proof (cases r)
    case (Inl e)
    with 1 have "try_addresses S (a # as) result u = try_addresses S as (AMQP_STATUS_SOCKET_ERROR, - 1) v" "opened v = opened u"
      by (simp_all add: and_then_Ok)
    with Cons.IH [of "(AMQP_STATUS_SOCKET_ERROR, - 1)" v] show ?thesis by auto
  next
    case (Inr fd)
    with 1 have fd: "0 \<le> fd" "fd \<notin> opened u" "opened v = insert fd (opened u)" by simp_all
    obtain ok w where 2: "prepare_socket S fd a v = (Ok ok, w)" "opened w = opened v"
      using keepsD [OF prepare_keeps] by blast
    obtain s x where 3: "amqp_os_socket_close S fd w = (Ok s, x)" "opened x = opened w - {fd}"
      using close_law [of fd w] unfolding amqp_os_socket_close_def by blast
    show ?thesis
    proof (cases ok)
      case True
      then show ?thesis using 1(1) Inr 2 fd by (simp add: and_then_Ok)
    next
      case False
      then have "try_addresses S (a # as) result u = try_addresses S as (AMQP_STATUS_SOCKET_ERROR, fd) x"
        using 1(1) Inr 2(1) 3(1) by (simp add: and_then_Ok)
      moreover have "opened x = opened u" using 2(2) 3(2) fd by auto
      ultimately show ?thesis using Cons.IH [of "(AMQP_STATUS_SOCKET_ERROR, fd)" x] by auto
    qed
  qed
qed

lemma open_socket_run:
  assumes "INT_MIN \<le> port" and "port \<le> INT_MAX"
  shows "\<exists>r v. amqp_open_socket S h port u = (Ok r, v) \<and>
    (0 \<le> r \<and> r \<notin> opened u \<and> opened v = insert r (opened u) \<or> r \<in> {- 1, - 5, - 9} \<and> opened v = opened u)"
proof -
  have p: "sprintf_d 33 port u = (Ok (decimal port), u)" by (rule sprintf_d_run [OF assms]) simp
  let ?hint = "(PF_UNSPEC, SOCK_STREAM, IPPROTO_TCP)"
  obtain r v where 1: "sys_getaddrinfo S h (decimal port) ?hint u = (Ok r, v)" "opened v = opened u"
    using keepsD [OF others_keep(5)] by blast
  show ?thesis
  proof (cases r)
    case (Inl e)
    then show ?thesis using p 1 by (simp add: amqp_open_socket_def and_then_Ok)
  next
    case (Inr ads)
    obtain e s w where 2: "try_addresses S ads (AMQP_STATUS_OK, - 1) v = (Ok (e, s), w)"
      "opened w = opened v \<and> (e = AMQP_STATUS_SOCKET_ERROR \<or> ads = [] \<and> (e, s) = (AMQP_STATUS_OK, - 1)) \<or>
       e = AMQP_STATUS_OK \<and> 0 \<le> s \<and> s \<notin> opened v \<and> opened w = insert s (opened v)"
      using try_addresses_run [of ads "(AMQP_STATUS_OK, - 1)" v] by blast
    obtain q x where 3: "sys_freeaddrinfo S ads w = (Ok q, x)" "opened x = opened w" using keepsD [OF others_keep(6)] by blast
    have run: "amqp_open_socket S h port u = (Ok (if e \<noteq> AMQP_STATUS_OK then status_code e else s), x)"
      using p 1(1) Inr 2(1) 3(1) by (simp add: amqp_open_socket_def and_then_Ok)
    from 2(2) have "(let r = if e \<noteq> AMQP_STATUS_OK then status_code e else s in
        0 \<le> r \<and> r \<notin> opened u \<and> opened x = insert r (opened u) \<or> r \<in> {- 1, - 5, - 9} \<and> opened x = opened u)"
      using 1(2) 3(2) by (elim disjE conjE) (simp_all add: Let_def)
    with run show ?thesis unfolding Let_def by blast
  qed
qed

lemma tcp_open_run:
  assumes "INT_MIN \<le> port" and "port \<le> INT_MAX"
  shows "\<exists>r c'. amqp_tcp_socket_open S h port c = (r, c') \<and>
    (r = Ok () \<and> 0 \<le> sockfd c' \<and> sockfd c' \<notin> opened (tcp_conn.more c) \<and>
       opened (tcp_conn.more c') = insert (sockfd c') (opened (tcp_conn.more c)) \<or>
     (\<exists>e. r = Err e) \<and> sockfd c' = - 1 \<and> opened (tcp_conn.more c') = opened (tcp_conn.more c))"
proof -
  obtain r v where 1: "amqp_open_socket S h port (tcp_conn.more c) = (Ok r, v)"
    "0 \<le> r \<and> r \<notin> opened (tcp_conn.more c) \<and> opened v = insert r (opened (tcp_conn.more c)) \<or>
     r \<in> {- 1, - 5, - 9} \<and> opened v = opened (tcp_conn.more c)" using open_socket_run [OF assms] by blast
  from 1(2) show ?thesis
  proof
    assume "0 \<le> r \<and> r \<notin> opened (tcp_conn.more c) \<and> opened v = insert r (opened (tcp_conn.more c))"
    then show ?thesis using on_os_run [of "amqp_open_socket S h port", OF 1(1)]
      by (simp add: amqp_tcp_socket_open_def and_then_Ok)
  next
    assume r: "r \<in> {- 1, - 5, - 9} \<and> opened v = opened (tcp_conn.more c)"
    then have "\<exists>e. (raise_code r :: ('o tcp_conn_scheme, unit) cm) = raise e"
      by (auto simp: raise_code_def negative_statuses_def)
    then obtain e where e: "(raise_code r :: ('o tcp_conn_scheme, unit) cm) = raise e" by blast
    have "r < 0" "opened v = opened (tcp_conn.more c)" using r by auto
    with e show ?thesis using on_os_run [of "amqp_open_socket S h port", OF 1(1)]
      by (simp add: amqp_tcp_socket_open_def and_then_Ok)
  qed
qed

end

lemma pipe_descriptors: "descriptor_os (pipe_os mo nosignal nosigpipe) (\<lambda>u. set (descriptors u))"
  by unfold_locales
    (simp_all add: pipe_os_def new_descriptor_def Let_def and_then_Ok fresh_descriptor keeps_def del: run_ret, auto simp: ret_def fresh_descriptor)

interpretation pipe_table: descriptor_os "pipe_os (Some 0x8000) (Some 0x4000) None" "\<lambda>u. set (descriptors u)"
  by (rule pipe_descriptors)

section \<open>Properties\<close>



text \<open>
  C27: the three ways to write several pieces are equivalent where \<^verbatim>\<open>send\<close> takes everything: one \<^verbatim>\<open>send\<close> for
  each piece with \<^verbatim>\<open>MSG_MORE\<close>, the loop around \<^verbatim>\<open>writev\<close> however little it takes at a time, and the copy to a
  buffer all put the same bytes on the stream, namely the pieces one after the other.
\<close>

theorem writev_variants_agree:
  assumes "stream_os S coming outgoing signals n" and "iov \<noteq> []" and "buffer_sound c"
  shows "\<exists>c1 c2 c3. writev_more n S fl iov c = (Ok (), c1) \<and> writev_vectored n S iov c = (Ok (), c2) \<and>
    writev_buffered n S iov c = (Ok (), c3) \<and>
    outgoing (tcp_conn.more c1) = outgoing (tcp_conn.more c) @ concat iov \<and>
    outgoing (tcp_conn.more c2) = outgoing (tcp_conn.more c1) \<and> outgoing (tcp_conn.more c3) = outgoing (tcp_conn.more c1)"
  using stream_os.writev_variants [OF assms] .

definition sample_pipe :: pipe where
  "sample_pipe = \<lparr>incoming = [], sent_bytes = [], ticks = 2, descriptors = [0, 1, 2],
     addresses = [\<lparr>ai_family = 10, ai_socktype = 1, ai_protocol = 6, ai_addr = [6]\<rparr>,
       \<lparr>ai_family = 2, ai_socktype = 1, ai_protocol = 6, ai_addr = [4]\<rparr>], refusing = [[6]]\<rparr>"

definition sample_tcp :: "pipe tcp_conn_scheme" where
  "sample_tcp = conn.extend sample_conn \<lparr>tcp_block = None, sockfd = - 1, send_block = None,
     send_buffer = [], buffer_length = 0, internal_error = 0, \<dots> = sample_pipe\<rparr>"

lemma sample_tcp_simps [simp]:
  "tcp_conn.more sample_tcp = sample_pipe" "sockfd sample_tcp = - 1" "buffer_sound sample_tcp"
  by (simp_all add: sample_tcp_def conn.defs buffer_sound_def granting_def)

theorem writev_variants_agree_witness:
  "\<exists>c1 c2 c3. writev_more 3 (pipe_os None None None) 0x8000 [[1, 2, 3], [], [4, 5, 6, 7, 8, 9]] sample_tcp = (Ok (), c1) \<and>
    writev_vectored 3 (pipe_os None None None) [[1, 2, 3], [], [4, 5, 6, 7, 8, 9]] sample_tcp = (Ok (), c2) \<and>
    writev_buffered 3 (pipe_os None None None) [[1, 2, 3], [], [4, 5, 6, 7, 8, 9]] sample_tcp = (Ok (), c3) \<and>
    sent_bytes (tcp_conn.more c1) = sent_bytes (tcp_conn.more sample_tcp) @ concat [[1, 2, 3], [], [4, 5, 6, 7, 8, 9]] \<and>
    sent_bytes (tcp_conn.more c2) = sent_bytes (tcp_conn.more c1) \<and> sent_bytes (tcp_conn.more c3) = sent_bytes (tcp_conn.more c1)"
  by (rule writev_variants_agree [OF pipe_stream]) simp_all

text \<open>
  C28: opening a TCP connection owns exactly one descriptor more, or none: of all the sockets made for the
  addresses of the host only the one that is connected stays open, whichever call fails, and after a
  failure the object refers to no descriptor.
\<close>

theorem tcp_open_owns_descriptor:
  assumes "descriptor_os S opened" and "INT_MIN \<le> port" and "port \<le> INT_MAX"
  shows "\<exists>r c'. amqp_tcp_socket_open S h port c = (r, c') \<and>
    (r = Ok () \<and> 0 \<le> sockfd c' \<and> sockfd c' \<notin> opened (tcp_conn.more c) \<and>
       opened (tcp_conn.more c') = insert (sockfd c') (opened (tcp_conn.more c)) \<or>
     (\<exists>e. r = Err e) \<and> sockfd c' = - 1 \<and> opened (tcp_conn.more c') = opened (tcp_conn.more c))"
  using descriptor_os.tcp_open_run [OF assms] .

theorem tcp_open_owns_descriptor_witness:
  "\<exists>r c'. amqp_tcp_socket_open (pipe_os None None None) [] 5672 sample_tcp = (r, c') \<and>
    (r = Ok () \<and> 0 \<le> sockfd c' \<and> sockfd c' \<notin> set (descriptors (tcp_conn.more sample_tcp)) \<and>
       set (descriptors (tcp_conn.more c')) = insert (sockfd c') (set (descriptors (tcp_conn.more sample_tcp))) \<or>
     (\<exists>e. r = Err e) \<and> sockfd c' = - 1 \<and> set (descriptors (tcp_conn.more c')) = set (descriptors (tcp_conn.more sample_tcp)))"
  by (rule tcp_open_owns_descriptor [OF pipe_descriptors]) (simp_all add: INT_MIN_def INT_MAX_def)

text \<open>A system that takes so many bytes at each call of \<^verbatim>\<open>send\<close>, and everything when the list is used up.\<close>

record short_pipe =
  rooms :: "nat list"
  emitted :: bytes

definition short_send :: "bytes \<Rightarrow> (short_pipe, int + nat) cm" where
  "short_send bs = (\<lambda>u. let k = (case rooms u of [] \<Rightarrow> length bs | r # _ \<Rightarrow> min r (length bs)) in
     (Ok (Inr k), u\<lparr>rooms := tl (rooms u), emitted := emitted u @ take k bs\<rparr>))"

definition short_os :: "short_pipe os" where
  "short_os =
     \<lparr>sys_send = (\<lambda>fd bs fl. short_send bs), sys_writev = (\<lambda>fd iov. short_send (concat iov)),
      sys_recv = (\<lambda>fd len fl. ret (Inr [])), sys_close = (\<lambda>fd. ret (Inr ())), sys_socket = (\<lambda>_ _ _. ret (Inr 3)),
      sys_getfd = (\<lambda>fd. ret (Inr 0)), sys_setfd = (\<lambda>fd fl. ret (Inr ())), sys_setsockopt = (\<lambda>fd level opt. ret (Inr ())),
      sys_connect = (\<lambda>fd addr. ret (Inr ())), sys_getaddrinfo = (\<lambda>_ _ _. ret (Inr [])), sys_freeaddrinfo = (\<lambda>_. ret ()),
      msg_nosignal = Some 0x4000, msg_more = Some 0x8000, opt_nosigpipe = None\<rparr>"

lemma short_round:
  assumes "k = (case rooms (tcp_conn.more c) of [] \<Rightarrow> length buf | r # _ \<Rightarrow> min r (length buf))"
  shows "send_rounds (Suc n) short_os buf fl len c =
    (let u = tcp_conn.more c; c' = c\<lparr>tcp_conn.more := u\<lparr>rooms := tl (rooms u), emitted := emitted u @ take k buf\<rparr>\<rparr>
     in if int k = len then (Ok (), c'\<lparr>internal_error := 0\<rparr>) else send_rounds n short_os buf fl (len - int k) c')"
  using assms by (simp add: and_then_def on_os_def short_os_def short_send_def Let_def set_error_def)

lemma short_forever:
  "rooms (tcp_conn.more c) = [] \<Longrightarrow> len < int (length buf) \<Longrightarrow> buf \<noteq> [] \<Longrightarrow> fst (send_rounds n short_os buf fl len c) = OutOfFuel"
proof (induction n arbitrary: len c)
  case (Suc n)
  then show ?case using short_round [where k = "length buf" and c = c and buf = buf] by (simp add: Let_def del: send_rounds.simps)
qed simp

text \<open>
  A partial send corrupts the stream.  After \<^verbatim>\<open>send\<close> has taken a part of a frame, the next round starts
  again at the beginning of the buffer: if it takes as much as was left, the call succeeds having sent the
  first part, then as many bytes from the start again; if it takes the whole buffer, the call never
  returns and repeats the frame for ever.
\<close>

theorem partial_send_corrupts_stream:
  assumes "0 < k" and "k < length buf"
  shows "(\<exists>c'. amqp_tcp_socket_send (Suc (Suc n)) short_os buf
      (c\<lparr>tcp_conn.more := \<lparr>rooms = [k, length buf - k], emitted = []\<rparr>\<rparr>) = (Ok (), c') \<and>
      emitted (tcp_conn.more c') = take k buf @ take (length buf - k) buf) \<and>
    fst (amqp_tcp_socket_send m short_os buf (c\<lparr>tcp_conn.more := \<lparr>rooms = [k], emitted = []\<rparr>\<rparr>)) = OutOfFuel"
proof -
  let ?c = "\<lambda>rs. c\<lparr>tcp_conn.more := \<lparr>rooms = rs, emitted = []\<rparr>\<rparr>"
  let ?d = "\<lambda>rs. c\<lparr>tcp_conn.more := \<lparr>rooms = rs, emitted = take k buf\<rparr>\<rparr>"
  have ne: "k \<noteq> length buf" "buf \<noteq> []" using assms by auto
  have "k = (case rooms (tcp_conn.more (?c (k # rs))) of [] \<Rightarrow> length buf | r # _ \<Rightarrow> min r (length buf))" for rs
    using assms by simp
  from short_round [OF this] have one: "send_rounds (Suc m) short_os buf fl (int (length buf)) (?c (k # rs)) =
      send_rounds m short_os buf fl (int (length buf) - int k) (?d rs)" for m fl rs
    using ne(1) by (simp add: Let_def del: send_rounds.simps)
  have "length buf - k = (case rooms (tcp_conn.more (?d [length buf - k])) of [] \<Rightarrow> length buf | r # _ \<Rightarrow> min r (length buf))"
    using assms by simp
  from short_round [OF this] have two: "send_rounds (Suc n) short_os buf fl (int (length buf) - int k) (?d [length buf - k]) =
      (Ok (), c\<lparr>tcp_conn.more := \<lparr>rooms = [], emitted = take k buf @ take (length buf - k) buf\<rparr>, internal_error := 0\<rparr>)" for fl
    using assms(2) by (simp add: Let_def of_nat_diff del: send_rounds.simps)
  have "\<exists>c'. amqp_tcp_socket_send (Suc (Suc n)) short_os buf (?c [k, length buf - k]) = (Ok (), c') \<and>
      emitted (tcp_conn.more c') = take k buf @ take (length buf - k) buf"
    unfolding amqp_tcp_socket_send_def amqp_tcp_socket_send_inner_def one two by simp
  moreover have "fst (send_rounds m short_os buf fl (int (length buf)) (?c [k])) = OutOfFuel" for fl
  proof (cases m)
    case (Suc j)
    show ?thesis unfolding Suc one by (rule short_forever) (use ne assms in simp_all)
  qed simp
  then have "fst (amqp_tcp_socket_send m short_os buf (?c [k])) = OutOfFuel"
    unfolding amqp_tcp_socket_send_def amqp_tcp_socket_send_inner_def .
  ultimately show ?thesis by blast
qed

definition sample_short :: "short_pipe tcp_conn_scheme" where
  "sample_short = conn.extend sample_conn \<lparr>tcp_block = None, sockfd = 3, send_block = None, send_buffer = [],
     buffer_length = 0, internal_error = 0, \<dots> = \<lparr>rooms = [], emitted = []\<rparr>\<rparr>"

theorem partial_send_corrupts_stream_witness:
  "(\<exists>c'. amqp_tcp_socket_send (Suc (Suc 0)) short_os [1, 2, 3]
      (sample_short\<lparr>tcp_conn.more := \<lparr>rooms = [1, length [1, 2, 3 :: u8] - 1], emitted = []\<rparr>\<rparr>) = (Ok (), c') \<and>
      emitted (tcp_conn.more c') = take 1 [1, 2, 3] @ take (length [1, 2, 3 :: u8] - 1) [1, 2, 3]) \<and>
    fst (amqp_tcp_socket_send 9 short_os [1, 2, 3] (sample_short\<lparr>tcp_conn.more := \<lparr>rooms = [1], emitted = []\<rparr>\<rparr>)) = OutOfFuel"
  by (rule partial_send_corrupts_stream) simp_all

end
