(* ===== verification/Url.thy ===== *)
theory Url
  imports Mem
begin

text \<open>
  Parsing an AMQP URL (\<^verbatim>\<open>amqp_url.c\<close>).  The parser works in place: it cuts the caller's string at the
  delimiters by overwriting them with a terminator, decodes percent escapes into the bytes it has already
  read, and stores pointers into the string.  So the model keeps the character array and lets a pointer be
  an offset into it; reading or writing outside the array is undefined.

  The library functions used are modelled from the C standard: \<^verbatim>\<open>strncmp\<close>, \<^verbatim>\<open>sscanf\<close> with the format
  \<^verbatim>\<open>"%2x%n"\<close> and \<^verbatim>\<open>strtol\<close> in base 10 with a 64-bit \<^verbatim>\<open>long\<close>, in the locale \<^verbatim>\<open>"C"\<close>.
\<close>

section \<open>Connection parameters\<close>

text \<open>A \<^verbatim>\<open>char *\<close> member is null, or points at a string of the program or into the text of the URL.\<close>

datatype char_ptr = Null | Literal bytes | At nat

record amqp_connection_info =
  ci_user :: char_ptr
  ci_password :: char_ptr
  ci_host :: char_ptr
  ci_vhost :: char_ptr
  ci_port :: int
  ci_ssl :: bool

definition amqp_default_connection_info :: amqp_connection_info where
  "amqp_default_connection_info =
     \<lparr>ci_user = Literal (ascii ''guest''), ci_password = Literal (ascii ''guest''), ci_host = Literal (ascii ''localhost''),
      ci_vhost = Literal (ascii ''/''), ci_port = 5672, ci_ssl = False\<rparr>"

section \<open>What the parser uses of the C library\<close>

text \<open>The C string at an offset: it has to end inside the array.\<close>

definition string_at :: "bytes \<Rightarrow> nat \<Rightarrow> bytes option" where
  "string_at text p = (if 0 \<in> set (drop p text) then Some (amqp_cstring_bytes (drop p text)) else None)"

definition isspace :: "u8 \<Rightarrow> bool" where
  "isspace c \<longleftrightarrow> c = 32 \<or> 9 \<le> c \<and> c \<le> 13"

definition isdigit :: "u8 \<Rightarrow> bool" where
  "isdigit c \<longleftrightarrow> 48 \<le> c \<and> c \<le> 57"

definition isxdigit :: "u8 \<Rightarrow> bool" where
  "isxdigit c \<longleftrightarrow> isdigit c \<or> 65 \<le> c \<and> c \<le> 70 \<or> 97 \<le> c \<and> c \<le> 102"

definition digit_value :: "u8 \<Rightarrow> nat" where
  "digit_value c = (if isdigit c then unat c - 48 else if c \<le> 70 then unat c - 55 else unat c - 87)"

definition number :: "nat \<Rightarrow> bytes \<Rightarrow> nat" where
  "number base = foldl (\<lambda>n c. n * base + digit_value c) 0"

definition sign :: "bytes \<Rightarrow> bytes" where
  "sign cs = (case cs of c # _ \<Rightarrow> if c = 43 \<or> c = 45 then [c] else [] | [] \<Rightarrow> [])"

text \<open>
  \<^verbatim>\<open>sscanf(cs, "%2x%n", &val, &chars)\<close>: blanks are skipped and do not count towards the width; the field of at
  most two characters may begin with a sign; a field \<^verbatim>\<open>0x\<close> without digits does not match.  \<open>None\<close> is a result
  below 1, \<^verbatim>\<open>EOF\<close> included; otherwise the value and the number of characters read.
\<close>

definition sscanf_2x :: "bytes \<Rightarrow> (u32 \<times> nat) option" where
  "sscanf_2x cs =
     (let blanks = takeWhile isspace cs;
          field = take 2 (drop (length blanks) cs);
          digits = takeWhile isxdigit (drop (length (sign field)) field);
          magnitude = word_of_nat (number 16 digits)
      in if digits = [] \<or> field = [48, 120] \<or> field = [48, 88] then None
         else Some (if sign field = [45] then - magnitude else magnitude,
                    length blanks + length (sign field) + length digits))"

text \<open>\<^verbatim>\<open>strtol(cs, &end, 10)\<close>: the value, held within the range of \<^verbatim>\<open>long\<close>, and how far \<^verbatim>\<open>end\<close> is from \<open>cs\<close>.\<close>

definition strtol :: "bytes \<Rightarrow> int \<times> nat" where
  "strtol cs =
     (let blanks = takeWhile isspace cs;
          field = drop (length blanks) cs;
          digits = takeWhile isdigit (drop (length (sign field)) field);
          magnitude = int (number 10 digits);
          v = (if sign field = [45] then - magnitude else magnitude)
      in if digits = [] then (0, 0)
         else (max LONG_MIN (min LONG_MAX v), length blanks + length (sign field) + length digits))"

section \<open>Scanning for a delimiter\<close>

abbreviation COLON :: u8 where "COLON \<equiv> 58"
abbreviation AT_SIGN :: u8 where "AT_SIGN \<equiv> 64"
abbreviation SLASH :: u8 where "SLASH \<equiv> 47"
abbreviation QUESTION_MARK :: u8 where "QUESTION_MARK \<equiv> 63"
abbreviation HASH :: u8 where "HASH \<equiv> 35"
abbreviation OPEN_BRACKET :: u8 where "OPEN_BRACKET \<equiv> 91"
abbreviation CLOSE_BRACKET :: u8 where "CLOSE_BRACKET \<equiv> 93"
abbreviation PERCENT :: u8 where "PERCENT \<equiv> 37"

definition is_delim :: "bool \<Rightarrow> u8 \<Rightarrow> bool" where
  "is_delim colon_and_at_sign_are_delims ch \<longleftrightarrow>
     ch \<in> {0, SLASH, QUESTION_MARK, HASH, OPEN_BRACKET, CLOSE_BRACKET} \<or>
     colon_and_at_sign_are_delims \<and> ch \<in> {COLON, AT_SIGN}"

text \<open>
  The loop of \<^verbatim>\<open>find_delim\<close> with its two pointers; \<open>None\<close> is an access outside the array.  The second result is
  the new value of \<^verbatim>\<open>*pp\<close>, \<open>None\<close> where the function leaves it alone.
\<close>

function scan_delim :: "bool \<Rightarrow> bytes \<Rightarrow> nat \<Rightarrow> nat \<Rightarrow> (bytes \<times> nat option \<times> u8) option" where
  "scan_delim colon_and_at_sign_are_delims text from to =
     (if \<not> (from < length text \<and> to < length text) then None
      else let ch = text ! from in
        if is_delim colon_and_at_sign_are_delims ch then Some (text[to := 0], Some (from + 1), ch)
        else if ch = PERCENT then
          (case string_at text (from + 1) of
             None \<Rightarrow> None
           | Some cs \<Rightarrow> (case sscanf_2x cs of
               None \<Rightarrow> Some (text, None, PERCENT)
             | Some (val, chars) \<Rightarrow>
                 if chars \<noteq> 2 then Some (text, None, PERCENT)
                 else scan_delim colon_and_at_sign_are_delims (text[to := ucast val]) (from + 1 + 2) (to + 1)))
        else scan_delim colon_and_at_sign_are_delims (text[to := ch]) (from + 1) (to + 1))"
  by pat_completeness auto
termination by (relation "measure (\<lambda>(_, text, from, _). length text - from)") auto

declare scan_delim.simps [simp del]

section \<open>Parsing\<close>

text \<open>The text, the result being filled in, and the local variables of \<^verbatim>\<open>amqp_parse_url\<close>.\<close>

record url_state =
  url_text :: bytes
  parsed :: amqp_connection_info

record url_locals =
  l_host :: nat
  l_start :: nat
  l_port :: "nat option"
  l_url :: nat
  l_delim :: u8

text \<open>\<^verbatim>\<open>find_delim(&url, d)\<close>, with the value of \<^verbatim>\<open>url\<close> passed and returned.\<close>

definition find_delim :: "bool \<Rightarrow> nat \<Rightarrow> (url_state, nat \<times> u8) cm" where
  "find_delim d url = and_then get (\<lambda>s. case scan_delim d (url_text s) url url of
       None \<Rightarrow> undef
     | Some (text, url', ch) \<Rightarrow>
         and_then (modify (\<lambda>s. s\<lparr>url_text := text\<rparr>)) (\<lambda>_.
         ret (case url' of None \<Rightarrow> url | Some u \<Rightarrow> u, ch)))"

definition char_at :: "nat \<Rightarrow> (url_state, u8) cm" where
  "char_at p = and_then get (\<lambda>s. if p < length (url_text s) then ret (url_text s ! p) else undef)"

definition set_parsed :: "(amqp_connection_info \<Rightarrow> amqp_connection_info) \<Rightarrow> (url_state, unit) cm" where
  "set_parsed f = modify (\<lambda>s. s\<lparr>parsed := f (parsed s)\<rparr>)"

text \<open>\<^verbatim>\<open>strncmp(url, prefix, length prefix) == 0\<close> on the text at its beginning.\<close>

definition has_prefix :: "bytes \<Rightarrow> (url_state, bool) cm" where
  "has_prefix prefix = and_then get (\<lambda>s. case string_at (url_text s) 0 of
       None \<Rightarrow> undef | Some cs \<Rightarrow> ret (take (length prefix) cs = prefix))"

definition check_scheme :: "(url_state, unit) cm" where
  "check_scheme = and_then (has_prefix (ascii ''amqp://'')) (\<lambda>plain.
     if plain then ret ()
     else and_then (has_prefix (ascii ''amqps://'')) (\<lambda>tls.
       if tls then set_parsed (\<lambda>i. i\<lparr>ci_port := 5671, ci_ssl := True\<rparr>)
       else raise AMQP_STATUS_BAD_URL))"

definition first_component :: "(url_state, url_locals) cm" where
  "first_component = and_then get (\<lambda>s.
     let start = (if ci_ssl (parsed s) then 8 else 7)
     in and_then (find_delim True start) (\<lambda>(url, delim).
        ret \<lparr>l_host = start, l_start = start, l_port = None, l_url = url, l_delim = delim\<rparr>))"

definition maybe_port :: "url_locals \<Rightarrow> (url_state, url_locals) cm" where
  "maybe_port l =
     (if l_delim l = COLON then and_then (find_delim True (l_url l)) (\<lambda>(url, delim).
        ret (l\<lparr>l_start := l_url l, l_port := Some (l_url l), l_url := url, l_delim := delim\<rparr>))
      else ret l)"

definition maybe_userinfo :: "url_locals \<Rightarrow> (url_state, url_locals) cm" where
  "maybe_userinfo l =
     (if l_delim l = AT_SIGN then
        and_then (set_parsed (\<lambda>i. i\<lparr>ci_user := At (l_host l)\<rparr>)) (\<lambda>_.
        and_then (case l_port l of None \<Rightarrow> ret () | Some p \<Rightarrow> set_parsed (\<lambda>i. i\<lparr>ci_password := At p\<rparr>)) (\<lambda>_.
        and_then (find_delim True (l_url l)) (\<lambda>(url, delim).
        ret (l\<lparr>l_host := l_url l, l_start := l_url l, l_port := None, l_url := url, l_delim := delim\<rparr>))))
      else ret l)"

definition bracketed_host :: "url_locals \<Rightarrow> (url_state, url_locals) cm" where
  "bracketed_host l =
     (if l_host l \<noteq> l_start l then raise AMQP_STATUS_BAD_URL
      else and_then (char_at (l_host l)) (\<lambda>ch.
       if ch \<noteq> 0 then raise AMQP_STATUS_BAD_URL
       else and_then (find_delim False (l_url l)) (\<lambda>(url, delim).
        if delim \<noteq> CLOSE_BRACKET then raise AMQP_STATUS_BAD_URL
        else and_then (set_parsed (\<lambda>i. i\<lparr>ci_host := At (l_url l)\<rparr>)) (\<lambda>_.
             and_then (find_delim True url) (\<lambda>(url', delim).
             and_then (char_at url) (\<lambda>ch.
             if ch \<noteq> 0 then raise AMQP_STATUS_BAD_URL
             else ret (l\<lparr>l_start := url, l_url := url', l_delim := delim\<rparr>)))))))"

definition plain_host :: "url_locals \<Rightarrow> (url_state, url_locals) cm" where
  "plain_host l = and_then (char_at (l_host l)) (\<lambda>ch.
     and_then (if ch \<noteq> 0 then set_parsed (\<lambda>i. i\<lparr>ci_host := At (l_host l)\<rparr>) else ret ()) (\<lambda>_. ret l))"

definition the_host :: "url_locals \<Rightarrow> (url_state, url_locals) cm" where
  "the_host l = (if l_delim l = OPEN_BRACKET then bracketed_host l else plain_host l)"

definition check_port :: "url_locals \<Rightarrow> (url_state, unit) cm" where
  "check_port l = (case l_port l of
       None \<Rightarrow> ret ()
     | Some p \<Rightarrow> and_then get (\<lambda>s. case string_at (url_text s) p of
         None \<Rightarrow> undef
       | Some cs \<Rightarrow> (case strtol cs of (portnum, end_offset) \<Rightarrow>
           if end_offset = 0 \<or> end_offset \<noteq> length cs \<or> portnum < 0 \<or> 65535 < portnum
           then raise AMQP_STATUS_BAD_URL
           else set_parsed (\<lambda>i. i\<lparr>ci_port := portnum\<rparr>))))"

definition the_vhost :: "url_locals \<Rightarrow> (url_state, unit) cm" where
  "the_vhost l =
     (if l_delim l = SLASH then and_then (find_delim True (l_url l)) (\<lambda>(url, delim).
        if delim \<noteq> 0 then raise AMQP_STATUS_BAD_URL else set_parsed (\<lambda>i. i\<lparr>ci_vhost := At (l_url l)\<rparr>))
      else if l_delim l = 0 then ret () else raise AMQP_STATUS_BAD_URL)"

definition amqp_parse_url :: "(url_state, unit) cm" where
  "amqp_parse_url =
     and_then check_scheme (\<lambda>_.
     and_then first_component (\<lambda>l.
     and_then (maybe_port l) (\<lambda>l.
     and_then (maybe_userinfo l) (\<lambda>l.
     and_then (the_host l) (\<lambda>l.
     and_then (maybe_port l) (\<lambda>l.
     and_then (check_port l) (\<lambda>_. the_vhost l)))))))"

section \<open>Staying inside the text\<close>

lemma string_at_Some: "k < length text \<Longrightarrow> text ! k = 0 \<Longrightarrow> p \<le> k \<Longrightarrow> string_at text p = Some (amqp_cstring_bytes (drop p text))"
  by (auto simp: string_at_def in_set_conv_nth intro!: exI [of _ "k - p"])

lemma length_cstring:
  assumes "k < length text" and "text ! k = 0" and "p \<le> k"
  shows "length (amqp_cstring_bytes (drop p text)) \<le> k - p"
proof (rule ccontr)
  assume "\<not> ?thesis"
  then have in_range: "k - p < length (takeWhile (\<lambda>c. c \<noteq> 0) (drop p text))"
    by (simp add: amqp_cstring_bytes_def)
  then have "drop p text ! (k - p) \<in> set (takeWhile (\<lambda>c. c \<noteq> 0) (drop p text))"
    by (metis nth_mem takeWhile_nth)
  then have "drop p text ! (k - p) \<noteq> 0" by (blast dest: set_takeWhileD)
  with assms show False by simp
qed

lemma length_digits: "length (sign f) + length (takeWhile P (drop (length (sign f)) f)) \<le> length f"
  using length_takeWhile_le [of P "drop (length (sign f)) f"] by (cases f) (auto simp: sign_def)

lemma sscanf_2x_length: "sscanf_2x cs = Some (val, chars) \<Longrightarrow> chars \<le> length cs"
  using length_digits [of "take 2 (drop (length (takeWhile isspace cs)) cs)" isxdigit] length_takeWhile_le [of isspace cs]
  by (auto simp: sscanf_2x_def Let_def split: if_splits)

text \<open>
  The writing pointer never overtakes the reading pointer, and the terminator at \<open>k\<close> is passed by neither:
  what lies behind it is not touched, and while the delimiter found is not the terminator the scan stops
  before it.
\<close>

definition stays :: "nat \<Rightarrow> bytes \<Rightarrow> nat \<Rightarrow> nat \<Rightarrow> (bytes \<times> nat option \<times> u8) option \<Rightarrow> bool" where
  "stays k t i j r \<longleftrightarrow> (case r of None \<Rightarrow> False | Some (t', url, ch) \<Rightarrow>
     length t' = length t \<and> t' ! k = 0 \<and> drop (Suc k) t' = drop (Suc k) t \<and> take j t' = take j t \<and>
     (case url of None \<Rightarrow> ch = PERCENT | Some u \<Rightarrow> i < u \<and> u \<le> Suc k \<and> (ch \<noteq> 0 \<longrightarrow> u \<le> k)))"

lemma stays_step:
  assumes "stays k (t[j := v]) i' (j + 1) r" and "i \<le> i'" and "j < Suc k"
  shows "stays k t i j r"
proof -
  have "take j u = take j t" if "take (Suc j) u = take (Suc j) (t[j := v])" for u
    using arg_cong [OF that, of "take j"] by simp
  moreover obtain t' url ch where "r = Some (t', url, ch)"
    using assms(1) by (auto simp: stays_def split: option.splits)
  moreover have "drop (Suc k) (t[j := v]) = drop (Suc k) t"
    using assms(3) by simp
  ultimately show ?thesis
    using assms(1,2) by (cases url) (simp_all add: stays_def)
qed

lemma scan_delim_stays:
  assumes "k < length t" and "t ! k = 0" and "i \<le> k" and "j \<le> i"
  shows "stays k t i j (scan_delim d t i j)"
  using assms
proof (induction d t i j rule: scan_delim.induct)
  case (1 d t i j)
  define ch where "ch = t ! i"
  have range: "i < length t" "j < length t" using "1.prems" by auto
  have end': "ch = 0 \<or> i < k" using "1.prems" by (cases "i = k") (auto simp: ch_def)
  consider (delim) "is_delim d ch" | (escape) "\<not> is_delim d ch" "ch = PERCENT" | (other) "\<not> is_delim d ch" "ch \<noteq> PERCENT"
    by blast
  then show ?case
  proof cases
    case delim
    then have "scan_delim d t i j = Some (t[j := 0], Some (i + 1), ch)"
      using range by (subst scan_delim.simps) (simp add: ch_def)
    then show ?thesis using "1.prems" end' by (auto simp: stays_def nth_list_update)
  next
    case other
    then have lt: "i < k" using end' by (auto simp: is_delim_def)
    have "scan_delim d t i j = scan_delim d (t[j := ch]) (i + 1) (j + 1)"
      using range other by (subst scan_delim.simps) (simp add: ch_def)
    moreover have "stays k (t[j := ch]) (i + 1) (j + 1) (scan_delim d (t[j := ch]) (i + 1) (j + 1))"
      using "1.prems" lt range other by (intro "1.IH"(2) [OF _ ch_def]) (auto simp: nth_list_update)
    ultimately show ?thesis using "1.prems" by (auto intro: stays_step)
  next
    case escape
    then have lt: "i < k" using end' by auto
    let ?cs = "amqp_cstring_bytes (drop (i + 1) t)"
    have cs: "string_at t (i + 1) = Some ?cs" using "1.prems" lt by (intro string_at_Some) auto
    show ?thesis
    proof (cases "\<exists>val. sscanf_2x ?cs = Some (val, 2)")
      case False
      then have "scan_delim d t i j = Some (t, None, PERCENT)"
        using range escape cs by (subst scan_delim.simps) (auto simp: ch_def split: option.splits)
      then show ?thesis using "1.prems" by (simp add: stays_def)
    next
      case True
      then obtain val where val: "sscanf_2x ?cs = Some (val, 2)" by blast
      then have far: "i + 1 + 2 \<le> k"
        using sscanf_2x_length [OF val] length_cstring [of k t "i + 1"] "1.prems" lt by auto
      have "scan_delim d t i j = scan_delim d (t[j := ucast val]) (i + 1 + 2) (j + 1)"
        using range escape cs val by (subst scan_delim.simps) (simp add: ch_def)
      moreover have "stays k (t[j := ucast val]) (i + 1 + 2) (j + 1) (scan_delim d (t[j := ucast val]) (i + 1 + 2) (j + 1))"
        using "1.prems" lt range escape far by (intro "1.IH"(1) [OF _ ch_def _ _ cs val refl]) (auto simp: nth_list_update)
      ultimately show ?thesis using "1.prems" by (auto intro: stays_step)
    qed
  qed
qed

fun inside :: "nat \<Rightarrow> char_ptr \<Rightarrow> bool" where
  "inside k Null \<longleftrightarrow> False"
| "inside k (Literal b) \<longleftrightarrow> True"
| "inside k (At p) \<longleftrightarrow> p \<le> k"

text \<open>
  The text ends at \<open>k\<close>, what follows it is \<open>beyond\<close>, and the pointers found so far are not behind its end.
\<close>

definition url_ok :: "nat \<Rightarrow> bytes \<Rightarrow> url_state \<Rightarrow> bool" where
  "url_ok k beyond s \<longleftrightarrow> k < length (url_text s) \<and> url_text s ! k = 0 \<and> drop (Suc k) (url_text s) = beyond \<and>
     inside k (ci_user (parsed s)) \<and> inside k (ci_password (parsed s)) \<and>
     inside k (ci_host (parsed s)) \<and> inside k (ci_vhost (parsed s))"

definition locals_ok :: "nat \<Rightarrow> url_locals \<Rightarrow> bool" where
  "locals_ok k l \<longleftrightarrow> l_host l \<le> k \<and> (\<forall>p. l_port l = Some p \<longrightarrow> p \<le> k) \<and> (l_delim l \<noteq> 0 \<longrightarrow> l_url l \<le> k)"

definition url_safe :: "nat \<Rightarrow> bytes \<Rightarrow> ('b \<Rightarrow> bool) \<Rightarrow> (url_state, 'b) cm \<Rightarrow> bool" where
  "url_safe k beyond Q m \<longleftrightarrow> (\<forall>s. url_ok k beyond s \<longrightarrow> url_ok k beyond (snd (m s)) \<and>
     (case fst (m s) of Ok a \<Rightarrow> Q a | Err e \<Rightarrow> e = AMQP_STATUS_BAD_URL | _ \<Rightarrow> False))"

named_theorems url_safe_intros

lemma url_safe_ret [url_safe_intros]: "Q a \<Longrightarrow> url_safe k beyond Q (ret a)"
  by (simp add: url_safe_def)

lemma url_safe_raise [url_safe_intros]: "url_safe k beyond Q (raise AMQP_STATUS_BAD_URL)"
  by (simp add: url_safe_def)

lemma url_safe_if [url_safe_intros]:
  "(c \<Longrightarrow> url_safe k beyond Q m) \<Longrightarrow> (\<not> c \<Longrightarrow> url_safe k beyond Q m') \<Longrightarrow> url_safe k beyond Q (if c then m else m')"
  by simp

lemma url_safe_and_then:
  assumes "url_safe k beyond P m" and "\<And>a. P a \<Longrightarrow> url_safe k beyond Q (f a)"
  shows "url_safe k beyond Q (and_then m f)"
  unfolding url_safe_def
proof (intro allI impI)
  fix s assume s: "url_ok k beyond s"
  obtain r s' where m: "m s = (r, s')" by (cases "m s")
  with assms(1) s have r: "url_ok k beyond s'" "case r of Ok a \<Rightarrow> P a | Err e \<Rightarrow> e = AMQP_STATUS_BAD_URL | _ \<Rightarrow> False"
    by (auto simp: url_safe_def dest!: spec [of _ s])
  show "url_ok k beyond (snd (and_then m f s)) \<and> (case fst (and_then m f s) of
      Ok a \<Rightarrow> Q a | Err e \<Rightarrow> e = AMQP_STATUS_BAD_URL | _ \<Rightarrow> False)"
  proof (cases r)
    case (Ok a)
    with assms(2) r have "url_safe k beyond Q (f a)" by simp
    with r m Ok show ?thesis by (simp add: url_safe_def and_then_Ok)
  qed (use r m in \<open>simp_all add: and_then_def\<close>)
qed

lemma url_safe_find_delim [url_safe_intros]:
  assumes "url \<le> k" and "\<And>u ch. (ch \<noteq> 0 \<longrightarrow> u \<le> k) \<Longrightarrow> Q (u, ch)"
  shows "url_safe k beyond Q (find_delim d url)"
  unfolding url_safe_def
proof (intro allI impI)
  fix s assume s: "url_ok k beyond s"
  then have "stays k (url_text s) url url (scan_delim d (url_text s) url url)"
    using assms(1) by (intro scan_delim_stays) (auto simp: url_ok_def)
  then obtain t u ch where "scan_delim d (url_text s) url url = Some (t, u, ch)"
    and "length t = length (url_text s)" and "t ! k = 0" and "drop (Suc k) t = drop (Suc k) (url_text s)"
    and "case u of None \<Rightarrow> ch = PERCENT | Some u \<Rightarrow> u \<le> Suc k \<and> (ch \<noteq> 0 \<longrightarrow> u \<le> k)"
    by (auto simp: stays_def split: option.splits)
  then show "url_ok k beyond (snd (find_delim d url s)) \<and> (case fst (find_delim d url s) of
      Ok a \<Rightarrow> Q a | Err e \<Rightarrow> e = AMQP_STATUS_BAD_URL | _ \<Rightarrow> False)"
    using s assms by (auto simp: find_delim_def url_ok_def split: option.splits)
qed

lemma url_safe_char_at [url_safe_intros]: "p \<le> k \<Longrightarrow> (\<And>ch. Q ch) \<Longrightarrow> url_safe k beyond Q (char_at p)"
  by (auto simp: url_safe_def url_ok_def char_at_def)

lemma url_safe_set_parsed [url_safe_intros]:
  assumes "Q ()" and "\<And>i. inside k (ci_user i) \<and> inside k (ci_password i) \<and> inside k (ci_host i) \<and> inside k (ci_vhost i) \<Longrightarrow>
    inside k (ci_user (f i)) \<and> inside k (ci_password (f i)) \<and> inside k (ci_host (f i)) \<and> inside k (ci_vhost (f i))"
  shows "url_safe k beyond Q (set_parsed f)"
  using assms by (auto simp: url_safe_def url_ok_def set_parsed_def)

lemma url_safe_maybe_port: "locals_ok k l \<Longrightarrow> url_safe k beyond (locals_ok k) (maybe_port l)"
  unfolding maybe_port_def
  by (auto simp: locals_ok_def
      intro!: url_safe_intros url_safe_and_then [where P = "\<lambda>(u, ch). ch \<noteq> 0 \<longrightarrow> u \<le> k"])

lemma url_safe_maybe_userinfo: "locals_ok k l \<Longrightarrow> url_safe k beyond (locals_ok k) (maybe_userinfo l)"
  unfolding maybe_userinfo_def
  by (auto simp: locals_ok_def split: option.splits
      intro!: url_safe_intros url_safe_and_then [where P = "\<lambda>(u, ch). ch \<noteq> 0 \<longrightarrow> u \<le> k"]
        url_safe_and_then [where P = "\<lambda>_ :: unit. True"])

lemma url_safe_the_host: "locals_ok k l \<Longrightarrow> url_safe k beyond (locals_ok k) (the_host l)"
  unfolding the_host_def bracketed_host_def plain_host_def
  by (auto simp: locals_ok_def
      intro!: url_safe_intros url_safe_and_then [where P = "\<lambda>(u, ch). ch \<noteq> 0 \<longrightarrow> u \<le> k"]
        url_safe_and_then [where P = "\<lambda>_ :: unit. True"] url_safe_and_then [where P = "\<lambda>_ :: u8. True"])

lemma url_safe_check_port: "locals_ok k l \<Longrightarrow> url_safe k beyond (\<lambda>_. True) (check_port l)"
  by (auto simp: url_safe_def url_ok_def locals_ok_def check_port_def set_parsed_def string_at_Some raise_def ret_def
      split: option.splits prod.splits)

lemma url_safe_the_vhost: "locals_ok k l \<Longrightarrow> url_safe k beyond (\<lambda>_. True) (the_vhost l)"
  unfolding the_vhost_def
  by (auto simp: locals_ok_def
      intro!: url_safe_intros url_safe_and_then [where P = "\<lambda>(u, ch). ch \<noteq> 0 \<longrightarrow> u \<le> k"])

text \<open>The offset of the first component depends on the scheme and on \<^verbatim>\<open>parsed->ssl\<close>.\<close>

lemma prefix_inside:
  assumes "url_ok k beyond s" and "take (length p) (amqp_cstring_bytes (url_text s)) = p"
  shows "length p \<le> k"
proof -
  have "length p \<le> length (amqp_cstring_bytes (url_text s))"
    using arg_cong [OF assms(2), of length] by simp
  with assms(1) length_cstring [of k "url_text s" 0] show ?thesis by (simp add: url_ok_def)
qed

definition starts_inside :: "nat \<Rightarrow> url_state \<Rightarrow> bool" where
  "starts_inside k s \<longleftrightarrow> (if ci_ssl (parsed s) then 8 else 7) \<le> k"

lemma check_scheme_safe:
  assumes s: "url_ok k beyond s" and ssl: "\<not> ci_ssl (parsed s)"
  shows "url_ok k beyond (snd (check_scheme s)) \<and>
    (fst (check_scheme s) = Ok () \<and> starts_inside k (snd (check_scheme s)) \<or> fst (check_scheme s) = Err AMQP_STATUS_BAD_URL)"
proof -
  have cs: "string_at (url_text s) 0 = Some (amqp_cstring_bytes (url_text s))"
    using s string_at_Some [of k "url_text s" 0] by (simp add: url_ok_def)
  note inside = prefix_inside [OF s, of "ascii ''amqp://''"] prefix_inside [OF s, of "ascii ''amqps://''"]
  have prefix: "has_prefix p s = (Ok (take (length p) (amqp_cstring_bytes (url_text s)) = p), s)" for p
    using cs by (simp add: has_prefix_def)
  have step: "and_then (has_prefix p) f s = f (take (length p) (amqp_cstring_bytes (url_text s)) = p) s"
    for p and f :: "bool \<Rightarrow> (url_state, unit) cm"
    by (simp add: and_then_def prefix)
  have len: "length (ascii ''amqp://'') = 7" "length (ascii ''amqps://'') = 8" by (simp_all add: ascii_def)
  show ?thesis
    using s ssl inside unfolding len
    by (auto simp: check_scheme_def step len set_parsed_def starts_inside_def url_ok_def)
qed

lemma first_component_safe:
  assumes "url_ok k beyond s" and "starts_inside k s"
  shows "url_ok k beyond (snd (first_component s)) \<and>
    (case fst (first_component s) of Ok l \<Rightarrow> locals_ok k l | Err e \<Rightarrow> e = AMQP_STATUS_BAD_URL | _ \<Rightarrow> False)"
proof -
  define start :: nat where "start = (if ci_ssl (parsed s) then 8 else 7)"
  have "url_safe k beyond (locals_ok k) (and_then (find_delim True start) (\<lambda>(url, delim).
      ret \<lparr>l_host = start, l_start = start, l_port = None, l_url = url, l_delim = delim\<rparr>))"
    using assms(2)
    by (auto simp: locals_ok_def starts_inside_def start_def [symmetric]
        intro!: url_safe_intros url_safe_and_then [where P = "\<lambda>(u, ch). ch \<noteq> 0 \<longrightarrow> u \<le> k"])
  with assms(1) show ?thesis
    unfolding first_component_def and_then_get Let_def start_def url_safe_def by blast
qed

section \<open>Percent encoding\<close>

definition hex_byte :: "u8 \<Rightarrow> u8 \<Rightarrow> u8" where
  "hex_byte h l = word_of_nat (16 * digit_value h + digit_value l)"

text \<open>
  \<open>percent_encoded d e b\<close>: the text \<open>e\<close> stands for the bytes \<open>b\<close> in a component that ends at the delimiters of
  \<open>d\<close>.  Every byte may be written as an escape, with digits of either case; a delimiter and \<^verbatim>\<open>%\<close> have to be.
\<close>

inductive percent_encoded :: "bool \<Rightarrow> bytes \<Rightarrow> bytes \<Rightarrow> bool" for d where
  Nil: "percent_encoded d [] []"
| Plain: "\<not> is_delim d c \<Longrightarrow> c \<noteq> PERCENT \<Longrightarrow> percent_encoded d e b \<Longrightarrow> percent_encoded d (c # e) (c # b)"
| Escape: "isxdigit h \<Longrightarrow> isxdigit l \<Longrightarrow> percent_encoded d e b \<Longrightarrow>
    percent_encoded d (PERCENT # h # l # e) (hex_byte h l # b)"

inductive_simps percent_encoded_simps: "percent_encoded d [] b" "percent_encoded d (c # e) b"

lemma sscanf_2x_escape:
  assumes "isxdigit h" and "isxdigit l"
  shows "\<exists>v. sscanf_2x (h # l # cs) = Some (v, 2) \<and> ucast v = hex_byte h l"
proof -
  have "\<not> isspace h" "h \<noteq> 43" "h \<noteq> 45" "l \<noteq> 120" "l \<noteq> 88"
    using assms by (auto simp: isxdigit_def isdigit_def isspace_def word_le_nat_alt unat_arith_simps)
  then have "sscanf_2x (h # l # cs) = Some (word_of_nat (16 * digit_value h + digit_value l), 2)"
    using assms by (simp add: sscanf_2x_def sign_def number_def mult.commute)
  moreover have "ucast (word_of_nat n :: u32) = (word_of_nat n :: u8)" for n
    by transfer simp
  ultimately show ?thesis unfolding hex_byte_def by blast
qed

lemma xdigit_not_0: "isxdigit c \<Longrightarrow> c \<noteq> 0"
  by (auto simp: isxdigit_def isdigit_def)

text \<open>One step of the scan overwrites the byte at the writing pointer.\<close>

lemma overwrite: "(pre @ old @ c # rest)[length pre := v] = (pre @ [v]) @ tl (old @ [c]) @ rest"
  by (cases old) (simp_all add: list_update_append)

lemma scan_encoded:
  assumes "percent_encoded d e b" and "is_delim d c" and "0 \<in> set (c # rest)"
  shows "\<exists>mid. scan_delim d (pre @ old @ e @ c # rest) (length pre + length old) (length pre) =
      Some (pre @ b @ 0 # mid @ rest, Some (length pre + length old + length e + 1), c) \<and>
    length old + length e = length b + length mid"
  using assms
proof (induction arbitrary: pre old)
  case Nil
  then have "scan_delim d (pre @ old @ c # rest) (length pre + length old) (length pre) =
      Some ((pre @ old @ c # rest)[length pre := 0], Some (length pre + length old + 1), c)"
    by (subst scan_delim.simps) (simp add: nth_append)
  then show ?case by (auto simp: overwrite intro!: exI [of _ "tl (old @ [c])"])
next
  case (Plain x e b)
  let ?t = "pre @ old @ x # e @ c # rest"
  have "scan_delim d ?t (length pre + length old) (length pre) =
      scan_delim d ((pre @ [x]) @ tl (old @ [x]) @ e @ c # rest) (length (pre @ [x]) + length (tl (old @ [x]))) (length (pre @ [x]))"
    using Plain.hyps by (subst scan_delim.simps) (simp add: nth_append overwrite [of pre old x, simplified])
  with Plain.IH [OF Plain.prems, of "pre @ [x]" "tl (old @ [x])"] show ?case by auto
next
  case (Escape h l e b)
  let ?t = "pre @ old @ PERCENT # h # l # e @ c # rest" and ?v = "hex_byte h l"
  let ?old = "tl (old @ [PERCENT]) @ [h, l]"
  define cs where "cs = amqp_cstring_bytes (e @ c # rest)"
  have at: "string_at ?t (length pre + length old + 1) = Some (h # l # cs)"
    using Escape.prems(2) xdigit_not_0 [OF Escape.hyps(1)] xdigit_not_0 [OF Escape.hyps(2)]
    by (auto simp: string_at_def amqp_cstring_bytes_def cs_def)
  obtain v where v: "sscanf_2x (h # l # cs) = Some (v, 2)" "ucast v = ?v"
    using sscanf_2x_escape [OF Escape.hyps(1,2)] by blast
  have "scan_delim d ?t (length pre + length old) (length pre) =
      scan_delim d ((pre @ [?v]) @ ?old @ e @ c # rest) (length (pre @ [?v]) + length ?old) (length (pre @ [?v]))"
    using v at by (subst scan_delim.simps) (simp add: nth_append is_delim_def overwrite [of pre old PERCENT, simplified])
  with Escape.IH [OF Escape.prems, of "pre @ [?v]" ?old] show ?case by auto
qed

section \<open>Reading back the components of a URL\<close>

datatype url_host = Plain_host bytes | Bracketed bytes

text \<open>What follows the host, and a whole URL, from components that are already encoded.\<close>

definition vhost_text :: "bytes option \<Rightarrow> bytes" where
  "vhost_text vhost = (case vhost of None \<Rightarrow> [0] | Some v \<Rightarrow> SLASH # v @ [0])"

definition port_text :: "bytes option \<Rightarrow> bytes option \<Rightarrow> bytes" where
  "port_text port vhost = (case port of None \<Rightarrow> vhost_text vhost | Some digits \<Rightarrow> COLON # digits @ vhost_text vhost)"

definition host_text :: "url_host \<Rightarrow> bytes" where
  "host_text h = (case h of Plain_host e \<Rightarrow> e | Bracketed e \<Rightarrow> OPEN_BRACKET # e @ [CLOSE_BRACKET])"

definition userinfo_text :: "(bytes \<times> bytes option) option \<Rightarrow> bytes" where
  "userinfo_text userinfo = (case userinfo of None \<Rightarrow> [] | Some (u, None) \<Rightarrow> u @ [AT_SIGN]
     | Some (u, Some p) \<Rightarrow> u @ COLON # p @ [AT_SIGN])"

definition write_url :: "bool \<Rightarrow> (bytes \<times> bytes option) option \<Rightarrow> url_host \<Rightarrow> bytes option \<Rightarrow> bytes option \<Rightarrow> bytes" where
  "write_url secure userinfo h port vhost =
     ascii (if secure then ''amqps://'' else ''amqp://'') @ userinfo_text userinfo @ host_text h @ port_text port vhost"

fun host_encoded :: "url_host \<Rightarrow> url_host \<Rightarrow> bool" where
  "host_encoded (Plain_host e) (Plain_host b) \<longleftrightarrow> percent_encoded True e b"
| "host_encoded (Bracketed e) (Bracketed b) \<longleftrightarrow> percent_encoded False e b"
| "host_encoded _ _ \<longleftrightarrow> False"

definition port_digits :: "bytes option \<Rightarrow> bool" where
  "port_digits port \<longleftrightarrow> (\<forall>ds. port = Some ds \<longrightarrow> ds \<noteq> [] \<and> (\<forall>c\<in>set ds. isdigit c) \<and> number 10 ds \<le> 65535)"

text \<open>The strings the parameters point to, with the numbers.\<close>

definition string_of :: "bytes \<Rightarrow> char_ptr \<Rightarrow> bytes option" where
  "string_of text p = (case p of Null \<Rightarrow> None | Literal b \<Rightarrow> Some b | At n \<Rightarrow> string_at text n)"

definition info_strings :: "bytes \<Rightarrow> amqp_connection_info \<Rightarrow>
    bytes option \<times> bytes option \<times> bytes option \<times> bytes option \<times> int \<times> bool" where
  "info_strings text i = (string_of text (ci_user i), string_of text (ci_password i), string_of text (ci_host i),
     string_of text (ci_vhost i), ci_port i, ci_ssl i)"

lemma string_of_simps [simp]: "string_of text Null = None" "string_of text (Literal b) = Some b" "string_of text (At n) = string_at text n"
  by (simp_all add: string_of_def)

lemma cstring_cut [simp]: "amqp_cstring_bytes (b @ 0 # r) = amqp_cstring_bytes b"
  by (simp add: amqp_cstring_bytes_def takeWhile_tail)

lemma string_at_written [simp]: "string_at (pre @ b @ 0 # r) (length pre) = Some (amqp_cstring_bytes b)"
  by (simp add: string_at_def)

lemma string_at_append: "string_at pre p = Some b \<Longrightarrow> string_at (pre @ t) p = Some b"
  by (cases "p \<le> length pre")
    (auto simp: string_at_def amqp_cstring_bytes_def takeWhile_append1 split: if_splits)

lemma string_of_append: "string_of pre p = Some b \<Longrightarrow> string_of (pre @ t) p = Some b"
  by (auto simp: string_of_def string_at_append split: char_ptr.splits)

lemma info_strings_append:
  "info_strings pre i = (Some u, Some p, Some h, Some v, n, ssl) \<Longrightarrow>
   info_strings (pre @ t) i = (Some u, Some p, Some h, Some v, n, ssl)"
  by (simp add: info_strings_def string_of_append)

lemma find_delim_encoded:
  assumes "percent_encoded d e b" and "is_delim d c" and "0 \<in> set (c # rest)" and "url_text s = pre @ e @ c # rest"
  obtains mid where "find_delim d (length pre) s =
      (Ok (length pre + length e + 1, c), s\<lparr>url_text := pre @ (b @ 0 # mid) @ rest\<rparr>)"
    and "length e = length b + length mid"
  using scan_encoded [OF assms(1-3), of pre "[]"] assms(4) by (auto simp: find_delim_def)

lemma then_find_delim: "find_delim d url s = (Ok a, s') \<Longrightarrow> and_then (find_delim d url) f s = f a s'"
  by (rule and_then_Ok)

lemma then_char_at [simp]: "p < length (url_text s) \<Longrightarrow> and_then (char_at p) f s = f (url_text s ! p) s"
  by (rule and_then_Ok) (simp add: char_at_def)

lemma then_set_parsed [simp]: "and_then (set_parsed g) f s = f () (s\<lparr>parsed := g (parsed s)\<rparr>)"
  by (simp add: set_parsed_def)

lemma zero_in_vhost_text [simp]: "0 \<in> set (vhost_text v)"
  by (simp add: vhost_text_def split: option.split)

lemma zero_in_port_text [simp]: "0 \<in> set (port_text p v)"
  by (simp add: port_text_def split: option.split)

text \<open>The virtual host.\<close>

lemma the_vhost_reads:
  assumes v: "rel_option (percent_encoded True) ve vd"
    and s: "url_text s = pre @ tl (vhost_text ve)" "info_strings pre (parsed s) = (Some u, Some p, Some h, Some w, n, ssl)"
    and l: "l_delim l = hd (vhost_text ve)" "l_url l = length pre"
  shows "\<exists>s'. the_vhost l s = (Ok (), s') \<and> info_strings (url_text s') (parsed s') =
    (Some u, Some p, Some h, Some (case vd of None \<Rightarrow> w | Some b \<Rightarrow> amqp_cstring_bytes b), n, ssl)"
proof (cases ve)
  case None
  with assms show ?thesis by (auto simp: the_vhost_def vhost_text_def)
next
  case (Some e)
  with v obtain b where b: "vd = Some b" "percent_encoded True e b" by (auto simp: option_rel_Some1)
  from Some s have "url_text s = pre @ e @ 0 # []" by (simp add: vhost_text_def)
  then obtain mid where f: "find_delim True (length pre) s = (Ok (length pre + length e + 1, 0), s\<lparr>url_text := pre @ (b @ 0 # mid) @ []\<rparr>)"
    by (rule find_delim_encoded [OF b(2), rotated 2]) (auto simp: is_delim_def)
  have "info_strings (pre @ b @ 0 # mid) (parsed s) = (Some u, Some p, Some h, Some w, n, ssl)"
    using s(2) by (rule info_strings_append)
  with Some l b f show ?thesis
    by (simp add: the_vhost_def vhost_text_def then_find_delim [OF f] set_parsed_def info_strings_def)
qed

text \<open>The port.\<close>

lemma digits_encoded: "\<forall>c\<in>set ds. isdigit c \<Longrightarrow> percent_encoded True ds ds"
proof (induction ds)
  case (Cons c ds)
  then have "isdigit c" by simp
  then have "\<not> is_delim True c" "c \<noteq> PERCENT" by (auto simp: is_delim_def isdigit_def)
  with Cons show ?case by (auto intro: percent_encoded.intros)
qed (rule percent_encoded.Nil)

lemma strtol_digits:
  assumes "ds \<noteq> []" and "\<forall>c\<in>set ds. isdigit c" and "number 10 ds \<le> 65535"
  shows "strtol ds = (int (number 10 ds), length ds)"
proof -
  obtain c cs where ds: "ds = c # cs" using assms(1) by (cases ds) auto
  have "isdigit c" using assms(2) ds by simp
  then have c: "\<not> isspace c" "c \<noteq> 43" "c \<noteq> 45"
    by (auto simp: isdigit_def isspace_def word_le_nat_alt unat_arith_simps)
  have all: "takeWhile isdigit ds = ds" using assms(2) by (simp add: takeWhile_eq_all_conv)
  have "takeWhile isspace ds = []" "sign ds = []" using c by (simp_all add: ds sign_def)
  then show ?thesis
    using assms by (simp add: all strtol_def Let_def LONG_MAX_def LONG_MIN_def)
qed

lemma port_and_vhost_text [simp]: "tl (port_text None v) = tl (vhost_text v)" "hd (port_text None v) = hd (vhost_text v)"
  "tl (port_text (Some ds) v) = ds @ vhost_text v" "hd (port_text (Some ds) v) = COLON"
  by (simp_all add: port_text_def)

lemma vhost_text_eq: "vhost_text v = hd (vhost_text v) # tl (vhost_text v)"
  by (simp add: vhost_text_def split: option.split)

lemma hd_vhost_text [simp]: "is_delim True (hd (vhost_text v))" "hd (vhost_text v) \<noteq> COLON" "hd (vhost_text v) \<noteq> AT_SIGN"
  "hd (vhost_text v) \<noteq> OPEN_BRACKET"
  by (simp_all add: vhost_text_def is_delim_def split: option.split)

lemma maybe_port_reads:
  assumes ds: "port_digits (Some ds)" and s: "url_text s = pre @ ds @ vhost_text ve"
    and l: "l_delim l = COLON" "l_url l = length pre"
  shows "maybe_port l s = (Ok (l\<lparr>l_start := length pre, l_port := Some (length pre),
      l_url := length (pre @ ds @ [0]), l_delim := hd (vhost_text ve)\<rparr>),
    s\<lparr>url_text := (pre @ ds @ [0]) @ tl (vhost_text ve)\<rparr>)"
proof -
  have "percent_encoded True ds ds" using ds by (auto simp: port_digits_def intro: digits_encoded)
  moreover have "0 \<in> set (hd (vhost_text ve) # tl (vhost_text ve))" using vhost_text_eq zero_in_vhost_text by metis
  moreover have "url_text s = pre @ ds @ hd (vhost_text ve) # tl (vhost_text ve)" using s vhost_text_eq by metis
  ultimately obtain mid where
    f: "find_delim True (length pre) s = (Ok (length pre + length ds + 1, hd (vhost_text ve)),
      s\<lparr>url_text := pre @ (ds @ 0 # mid) @ tl (vhost_text ve)\<rparr>)" and "length ds = length ds + length mid"
    by (rule find_delim_encoded [OF _ hd_vhost_text(1)])
  then show ?thesis
    using l by (simp add: maybe_port_def then_find_delim [OF f])
qed

lemma digits_cstring: "port_digits (Some ds) \<Longrightarrow> amqp_cstring_bytes ds = ds"
  by (auto simp: port_digits_def amqp_cstring_bytes_def takeWhile_eq_all_conv isdigit_def)

lemma check_port_reads:
  assumes "port_digits (Some ds)" and "l_port l = Some p" and "string_at (url_text s) p = Some ds"
  shows "check_port l s = (Ok (), s\<lparr>parsed := (parsed s)\<lparr>ci_port := int (number 10 ds)\<rparr>\<rparr>)"
  using assms strtol_digits [of ds] by (simp add: check_port_def port_digits_def set_parsed_def)

text \<open>From the port on.\<close>

definition port_number :: "bytes option \<Rightarrow> int \<Rightarrow> int" where
  "port_number port n = (case port of None \<Rightarrow> n | Some ds \<Rightarrow> int (number 10 ds))"

definition component :: "bytes option \<Rightarrow> bytes \<Rightarrow> bytes" where
  "component c initial = (case c of None \<Rightarrow> initial | Some b \<Rightarrow> amqp_cstring_bytes b)"

lemma scanned_port_reads:
  assumes v: "rel_option (percent_encoded True) ve vd" and ds: "port_digits (Some ds)"
    and s: "url_text s = (pre @ ds @ [0]) @ tl (vhost_text ve)"
      "info_strings (pre @ ds @ [0]) (parsed s) = (Some u, Some p, Some h, Some w, n, ssl)"
    and l: "l_delim l = hd (vhost_text ve)" "l_url l = length (pre @ ds @ [0])" "l_port l = Some (length pre)"
  shows "\<exists>s'. and_then (check_port l) (\<lambda>_. the_vhost l) s = (Ok (), s') \<and> info_strings (url_text s') (parsed s') =
    (Some u, Some p, Some h, Some (component vd w), int (number 10 ds), ssl)"
proof -
  let ?s = "s\<lparr>parsed := (parsed s)\<lparr>ci_port := int (number 10 ds)\<rparr>\<rparr>"
  have "check_port l s = (Ok (), ?s)"
    using s(1) digits_cstring [OF ds] by (intro check_port_reads [OF ds l(3)]) simp
  moreover have "info_strings (pre @ ds @ [0]) (parsed ?s) = (Some u, Some p, Some h, Some w, int (number 10 ds), ssl)"
    using s(2) by (simp add: info_strings_def)
  ultimately show ?thesis
    using the_vhost_reads [OF v, of ?s "pre @ ds @ [0]"] s(1) l by (simp add: and_then_def component_def)
qed

lemma port_reads:
  assumes v: "rel_option (percent_encoded True) ve vd" and port: "port_digits port"
    and s: "url_text s = pre @ tl (port_text port ve)" "info_strings pre (parsed s) = (Some u, Some p, Some h, Some w, n, ssl)"
    and l: "l_delim l = hd (port_text port ve)" "l_url l = length pre" "l_port l = None"
  shows "\<exists>s'. and_then (maybe_port l) (\<lambda>l. and_then (check_port l) (\<lambda>_. the_vhost l)) s = (Ok (), s') \<and>
    info_strings (url_text s') (parsed s') =
      (Some u, Some p, Some h, Some (component vd w), port_number port n, ssl)"
proof (cases port)
  case None
  then show ?thesis
    using the_vhost_reads [OF v _ s(2)] s(1) l by (simp add: maybe_port_def check_port_def port_number_def component_def)
next
  case (Some ds)
  with port have ds: "port_digits (Some ds)" by simp
  have m: "maybe_port l s = (Ok (l\<lparr>l_start := length pre, l_port := Some (length pre),
      l_url := length (pre @ ds @ [0]), l_delim := hd (vhost_text ve)\<rparr>),
      s\<lparr>url_text := (pre @ ds @ [0]) @ tl (vhost_text ve)\<rparr>)" (is "_ = (Ok ?l, ?s)")
    using maybe_port_reads [OF ds, of s pre ve l] s(1) l Some by auto
  have "info_strings (pre @ ds @ [0]) (parsed ?s) = (Some u, Some p, Some h, Some w, n, ssl)"
    using s(2) by (simp add: info_strings_append)
  from scanned_port_reads [OF v ds _ this] m Some show ?thesis
    by (simp add: and_then_def port_number_def)
qed

text \<open>From the host on, once its first component has been scanned.\<close>

definition host_name :: "url_host \<Rightarrow> bytes \<Rightarrow> bytes" where
  "host_name h initial = (case h of
       Plain_host b \<Rightarrow> if amqp_cstring_bytes b = [] then initial else amqp_cstring_bytes b
     | Bracketed b \<Rightarrow> amqp_cstring_bytes b)"

abbreviation after_host :: "url_locals \<Rightarrow> (url_state, unit) cm" where
  "after_host l \<equiv> and_then (maybe_port l) (\<lambda>l. and_then (check_port l) (\<lambda>_. the_vhost l))"

lemma port_text_eq: "port_text p v = hd (port_text p v) # tl (port_text p v)"
  by (simp add: port_text_def vhost_text_def split: option.split)

lemma hd_port_text [simp]: "is_delim True (hd (port_text p v))" "hd (port_text p v) \<noteq> AT_SIGN" "hd (port_text p v) \<noteq> OPEN_BRACKET"
  by (simp_all add: port_text_def vhost_text_def is_delim_def split: option.split)

lemma cstring_Nil: "amqp_cstring_bytes b = [] \<longleftrightarrow> hd (b @ 0 # r) = 0"
  by (cases b) (auto simp: amqp_cstring_bytes_def)

lemma plain_host_reads:
  assumes s: "url_text s = (pre @ b @ 0 # mid) @ rest" "info_strings pre (parsed s) = (Some u, Some p, Some h, Some w, n, ssl)"
    and l: "l_host l = length pre"
  shows "\<exists>i. plain_host l s = (Ok l, s\<lparr>parsed := i\<rparr>) \<and>
    info_strings (pre @ b @ 0 # mid) i = (Some u, Some p, Some (host_name (Plain_host b) h), Some w, n, ssl)"
proof -
  have "url_text s ! length pre = hd (b @ 0 # mid @ rest)"
    using s(1) by (simp add: nth_append hd_conv_nth)
  then have "char_at (l_host l) s = (Ok (hd (b @ 0 # mid @ rest)), s)"
    using s(1) l by (simp add: char_at_def)
  moreover have i: "info_strings (pre @ b @ 0 # mid) (parsed s) = (Some u, Some p, Some h, Some w, n, ssl)"
    using s(2) by (rule info_strings_append)
  ultimately show ?thesis
  proof (cases "amqp_cstring_bytes b = []")
    case True
    with i \<open>char_at (l_host l) s = _\<close> cstring_Nil [of b "mid @ rest"] show ?thesis
      by (intro exI [of _ "parsed s"]) (simp add: plain_host_def host_name_def and_then_def)
  next
    case False
    with i \<open>char_at (l_host l) s = _\<close> cstring_Nil [of b "mid @ rest"] l show ?thesis
      by (intro exI [of _ "(parsed s)\<lparr>ci_host := At (length pre)\<rparr>"])
        (simp add: plain_host_def host_name_def and_then_def set_parsed_def info_strings_def)
  qed
qed

lemma after_plain_host:
  assumes v: "rel_option (percent_encoded True) ve vd" and port: "port_digits port"
    and s: "url_text s = (pre @ b @ 0 # mid) @ tl (port_text port ve)"
      "info_strings pre (parsed s) = (Some u, Some p, Some h, Some w, n, ssl)"
    and l: "l_host l = length pre" "l_delim l = hd (port_text port ve)" "l_url l = length (pre @ b @ 0 # mid)" "l_port l = None"
  shows "\<exists>s'. and_then (the_host l) after_host s = (Ok (), s') \<and> info_strings (url_text s') (parsed s') =
    (Some u, Some p, Some (host_name (Plain_host b) h), Some (component vd w), port_number port n, ssl)"
proof -
  obtain i where i: "plain_host l s = (Ok l, s\<lparr>parsed := i\<rparr>)"
    "info_strings (pre @ b @ 0 # mid) i = (Some u, Some p, Some (host_name (Plain_host b) h), Some w, n, ssl)"
    using plain_host_reads [OF s l(1)] by blast
  moreover have "the_host l = plain_host l" using l(2) by (simp add: the_host_def)
  ultimately show ?thesis
    using port_reads [OF v port, of "s\<lparr>parsed := i\<rparr>" "pre @ b @ 0 # mid"] s(1) l by (simp add: and_then_def)
qed

lemma find_port_text:
  assumes "url_text s = pre @ port_text port ve"
  shows "find_delim True (length pre) s =
    (Ok (length pre + 1, hd (port_text port ve)), s\<lparr>url_text := pre @ 0 # tl (port_text port ve)\<rparr>)"
proof -
  have eq: "hd (port_text port ve) # tl (port_text port ve) = port_text port ve"
    by (rule port_text_eq [symmetric])
  have z: "0 \<in> set (hd (port_text port ve) # tl (port_text port ve))" unfolding eq by simp
  have t: "url_text s = pre @ [] @ hd (port_text port ve) # tl (port_text port ve)"
    unfolding eq using assms by simp
  obtain mid where "find_delim True (length pre) s = (Ok (length pre + length ([] :: bytes) + 1, hd (port_text port ve)),
      s\<lparr>url_text := pre @ ([] @ 0 # mid) @ tl (port_text port ve)\<rparr>)" and "length ([] :: bytes) = length ([] :: bytes) + length mid"
    by (rule find_delim_encoded [OF percent_encoded.Nil hd_port_text(1) z t])
  then show ?thesis by simp
qed

lemma after_bracketed_host:
  assumes v: "rel_option (percent_encoded True) ve vd" and port: "port_digits port" and b: "percent_encoded False e b"
    and s: "url_text s = (pre @ [0]) @ e @ CLOSE_BRACKET # port_text port ve"
      "info_strings pre (parsed s) = (Some u, Some p, Some h, Some w, n, ssl)"
    and l: "l_host l = length pre" "l_start l = length pre" "l_delim l = OPEN_BRACKET" "l_url l = length (pre @ [0])" "l_port l = None"
  shows "\<exists>s'. and_then (the_host l) after_host s = (Ok (), s') \<and> info_strings (url_text s') (parsed s') =
    (Some u, Some p, Some (host_name (Bracketed b) h), Some (component vd w), port_number port n, ssl)"
proof -
  have z: "0 \<in> set (CLOSE_BRACKET # port_text port ve)" and d: "is_delim False CLOSE_BRACKET"
    by (simp_all add: is_delim_def)
  obtain mid where f: "find_delim False (length (pre @ [0])) s = (Ok (length (pre @ [0]) + length e + 1, CLOSE_BRACKET),
      s\<lparr>url_text := (pre @ [0]) @ (b @ 0 # mid) @ port_text port ve\<rparr>)" and len: "length e = length b + length mid"
    by (rule find_delim_encoded [OF b d z s(1)])
  let ?q = "(pre @ [0]) @ (b @ 0 # mid)"
  let ?i = "(parsed s)\<lparr>ci_host := At (length (pre @ [0]))\<rparr>"
  let ?s1 = "s\<lparr>url_text := ?q @ port_text port ve, parsed := ?i\<rparr>"
  let ?s2 = "s\<lparr>url_text := (?q @ [0]) @ tl (port_text port ve), parsed := ?i\<rparr>"
  let ?l = "l\<lparr>l_start := length ?q, l_url := length (?q @ [0]), l_delim := hd (port_text port ve)\<rparr>"
  have q: "length (pre @ [0]) + length e + 1 = length ?q" using len by simp
  have g: "find_delim True (length ?q) ?s1 = (Ok (length ?q + 1, hd (port_text port ve)), ?s2)"
    using find_port_text [of ?s1 ?q] by simp
  have host: "the_host l s = (Ok ?l, ?s2)"
    using l s(1) unfolding the_host_def bracketed_host_def
    by (simp add: nth_append then_find_delim [OF f [unfolded q, simplified]] then_find_delim [OF g [simplified]])
  have "info_strings (pre @ [0] @ b @ 0 # mid @ [0]) (parsed s) = (Some u, Some p, Some h, Some w, n, ssl)"
    using s(2) by (rule info_strings_append)
  moreover have "string_at ((pre @ [0]) @ b @ 0 # mid @ [0]) (length (pre @ [0])) = Some (amqp_cstring_bytes b)"
    by (rule string_at_written)
  ultimately have "info_strings (?q @ [0]) (parsed ?s2) = (Some u, Some p, Some (amqp_cstring_bytes b), Some w, n, ssl)"
    by (simp add: info_strings_def)
  from port_reads [OF v port _ this, of ?l] host l show ?thesis
    by (simp add: and_then_def host_name_def)
qed

text \<open>The scheme.\<close>

lemma check_scheme_reads:
  assumes "url_text s = ascii (if secure then ''amqps://'' else ''amqp://'') @ rest" and "0 \<in> set rest"
  shows "check_scheme s = (Ok (), if secure then s\<lparr>parsed := (parsed s)\<lparr>ci_port := 5671, ci_ssl := True\<rparr>\<rparr> else s)"
proof -
  have prefix: "has_prefix p s = (Ok (take (length p) (amqp_cstring_bytes (url_text s)) = p), s)" for p
    using assms by (simp add: has_prefix_def string_at_def)
  have step: "and_then (has_prefix p) f s = f (take (length p) (amqp_cstring_bytes (url_text s)) = p) s"
    for p and f :: "bool \<Rightarrow> (url_state, unit) cm"
    by (simp add: and_then_def prefix)
  show ?thesis
    using assms by (cases secure) (simp_all add: check_scheme_def step ascii_def amqp_cstring_bytes_def set_parsed_def)
qed

text \<open>
  The first component up to the delimiter \<open>c\<close> is the user name, or already the host; in both cases the host's
  first component is scanned when the local variables have settled.
\<close>

abbreviation from_the_port :: "url_locals \<Rightarrow> (url_state, unit) cm" where
  "from_the_port l \<equiv> and_then (maybe_port l) (\<lambda>l. and_then (maybe_userinfo l) (\<lambda>l. and_then (the_host l) after_host))"

definition at_component :: "nat \<Rightarrow> nat \<Rightarrow> u8 \<Rightarrow> url_locals" where
  "at_component p u c = \<lparr>l_host = p, l_start = p, l_port = None, l_url = u, l_delim = c\<rparr>"

lemma at_component_simps [simp]: "l_host (at_component p u c) = p" "l_start (at_component p u c) = p"
  "l_port (at_component p u c) = None" "l_url (at_component p u c) = u" "l_delim (at_component p u c) = c"
  by (simp_all add: at_component_def)

text \<open>A host after its first component, without or with a user part before it.\<close>

definition host_scanned :: "bytes \<Rightarrow> url_host \<Rightarrow> url_host \<Rightarrow> bytes option \<Rightarrow> bytes option \<Rightarrow> url_state \<Rightarrow> url_state \<Rightarrow> url_locals \<Rightarrow> bool" where
  "host_scanned pre he h port ve s s' l \<longleftrightarrow> (case he of
      Plain_host e \<Rightarrow> (case h of Bracketed _ \<Rightarrow> False | Plain_host b \<Rightarrow>
        (\<exists>mid. s' = s\<lparr>url_text := (pre @ b @ 0 # mid) @ tl (port_text port ve)\<rparr> \<and>
          l = at_component (length pre) (length (pre @ b @ 0 # mid)) (hd (port_text port ve))))
    | Bracketed e \<Rightarrow> s' = s\<lparr>url_text := (pre @ [0]) @ e @ CLOSE_BRACKET # port_text port ve\<rparr> \<and>
        l = at_component (length pre) (length (pre @ [0])) OPEN_BRACKET)"

lemma scan_host:
  assumes "host_encoded he h" and "url_text s = pre @ host_text he @ port_text port ve"
  obtains s' u c where "find_delim True (length pre) s = (Ok (u, c), s')"
    and "host_scanned pre he h port ve s s' (at_component (length pre) u c)"
proof (cases he)
  case (Plain_host e)
  with assms(1) obtain b where b: "h = Plain_host b" "percent_encoded True e b" by (cases h) auto
  have eq: "hd (port_text port ve) # tl (port_text port ve) = port_text port ve"
    by (rule port_text_eq [symmetric])
  have z: "0 \<in> set (hd (port_text port ve) # tl (port_text port ve))" unfolding eq by simp
  have t: "url_text s = pre @ e @ hd (port_text port ve) # tl (port_text port ve)"
    unfolding eq using assms(2) Plain_host by (simp add: host_text_def)
  obtain mid where f: "find_delim True (length pre) s = (Ok (length pre + length e + 1, hd (port_text port ve)),
      s\<lparr>url_text := pre @ (b @ 0 # mid) @ tl (port_text port ve)\<rparr>)" and "length e = length b + length mid"
    by (rule find_delim_encoded [OF b(2) hd_port_text(1) z t])
  then show ?thesis using Plain_host b by (intro that [OF f]) (auto simp: host_scanned_def)
next
  case (Bracketed e)
  have z: "0 \<in> set (OPEN_BRACKET # e @ CLOSE_BRACKET # port_text port ve)" by simp
  have t: "url_text s = pre @ [] @ OPEN_BRACKET # e @ CLOSE_BRACKET # port_text port ve"
    using assms(2) Bracketed by (simp add: host_text_def)
  have d: "is_delim True OPEN_BRACKET" by (simp add: is_delim_def)
  obtain mid where f: "find_delim True (length pre) s = (Ok (length pre + length ([] :: bytes) + 1, OPEN_BRACKET),
      s\<lparr>url_text := pre @ ([] @ 0 # mid) @ e @ CLOSE_BRACKET # port_text port ve\<rparr>)" and "length ([] :: bytes) = length ([] :: bytes) + length mid"
    by (rule find_delim_encoded [OF percent_encoded.Nil d z t])
  then show ?thesis using Bracketed by (intro that [OF f]) (auto simp: host_scanned_def)
qed

lemma after_host_scanned:
  assumes "rel_option (percent_encoded True) ve vd" and "port_digits port" and "host_encoded he h"
    and "host_scanned pre he h port ve s s' l"
    and "info_strings pre (parsed s) = (Some u, Some p, Some hn, Some w, n, ssl)"
  shows "\<exists>s''. and_then (the_host l) after_host s' = (Ok (), s'') \<and> info_strings (url_text s'') (parsed s'') =
    (Some u, Some p, Some (host_name h hn), Some (component vd w), port_number port n, ssl)"
proof (cases he)
  case (Plain_host e)
  with assms(3,4) obtain b mid where "h = Plain_host b" "s' = s\<lparr>url_text := (pre @ b @ 0 # mid) @ tl (port_text port ve)\<rparr>"
    "l = at_component (length pre) (length (pre @ b @ 0 # mid)) (hd (port_text port ve))"
    by (cases h) (auto simp: host_scanned_def)
  with assms(5) show ?thesis
    using after_plain_host [OF assms(1,2), of s' pre b mid] by simp
next
  case (Bracketed e)
  with assms(3,4) obtain b where "h = Bracketed b" "percent_encoded False e b"
    "s' = s\<lparr>url_text := (pre @ [0]) @ e @ CLOSE_BRACKET # port_text port ve\<rparr>"
    "l = at_component (length pre) (length (pre @ [0])) OPEN_BRACKET"
    by (cases h) (auto simp: host_scanned_def)
  with assms(5) show ?thesis
    using after_bracketed_host [OF assms(1,2), of e b s' pre] by simp
qed

text \<open>Without a user part: a colon after the host is found before the host is known to be one.\<close>

lemma plain_host_then_port:
  assumes v: "rel_option (percent_encoded True) ve vd" and ds: "port_digits (Some ds)"
    and s: "url_text s = (pre @ b @ 0 # mid) @ ds @ vhost_text ve"
      "info_strings pre (parsed s) = (Some u, Some p, Some h, Some w, n, ssl)"
  shows "\<exists>s'. from_the_port (at_component (length pre) (length (pre @ b @ 0 # mid)) COLON) s = (Ok (), s') \<and>
    info_strings (url_text s') (parsed s') =
      (Some u, Some p, Some (host_name (Plain_host b) h), Some (component vd w), int (number 10 ds), ssl)"
proof -
  let ?q = "pre @ b @ 0 # mid"
  let ?l = "(at_component (length pre) (length ?q) COLON)\<lparr>l_start := length ?q, l_port := Some (length ?q),
      l_url := length (?q @ ds @ [0]), l_delim := hd (vhost_text ve)\<rparr>"
  let ?s = "s\<lparr>url_text := (?q @ ds @ [0]) @ tl (vhost_text ve)\<rparr>"
  have port: "maybe_port (at_component (length pre) (length ?q) COLON) s = (Ok ?l, ?s)"
    by (rule maybe_port_reads [OF ds s(1)]) simp_all
  have "url_text ?s = ?q @ ds @ [0] @ tl (vhost_text ve)" by simp
  then obtain i where i: "plain_host ?l ?s = (Ok ?l, ?s\<lparr>parsed := i\<rparr>)"
    "info_strings ?q i = (Some u, Some p, Some (host_name (Plain_host b) h), Some w, n, ssl)"
    using plain_host_reads [of ?s pre b mid "ds @ [0] @ tl (vhost_text ve)" u p h w n ssl ?l] s(2) by auto
  have rest: "maybe_userinfo ?l = ret ?l" "the_host ?l = plain_host ?l" "maybe_port ?l = ret ?l"
    by (simp_all add: maybe_userinfo_def the_host_def maybe_port_def)
  have "from_the_port (at_component (length pre) (length ?q) COLON) s =
      and_then (check_port ?l) (\<lambda>_. the_vhost ?l) (?s\<lparr>parsed := i\<rparr>)"
    using port i(1) rest by (simp add: and_then_def)
  moreover have "info_strings (?q @ ds @ [0]) (parsed (?s\<lparr>parsed := i\<rparr>)) =
      (Some u, Some p, Some (host_name (Plain_host b) h), Some w, n, ssl)"
    using info_strings_append [OF i(2)] by simp
  ultimately show ?thesis
    using scanned_port_reads [OF v ds, of "?s\<lparr>parsed := i\<rparr>" ?q] by simp
qed

lemma host_without_user:
  assumes v: "rel_option (percent_encoded True) ve vd" and port: "port_digits port" and he: "host_encoded he h"
    and s: "url_text s = pre @ host_text he @ port_text port ve"
      "info_strings pre (parsed s) = (Some u, Some p, Some hn, Some w, n, ssl)"
  shows "\<exists>s'. and_then (find_delim True (length pre)) (\<lambda>(url, delim). from_the_port (at_component (length pre) url delim)) s =
      (Ok (), s') \<and> info_strings (url_text s') (parsed s') =
    (Some u, Some p, Some (host_name h hn), Some (component vd w), port_number port n, ssl)"
proof -
  obtain s1 url c where f: "find_delim True (length pre) s = (Ok (url, c), s1)"
    and scanned: "host_scanned pre he h port ve s s1 (at_component (length pre) url c)"
    by (rule scan_host [OF he s(1)])
  let ?l = "at_component (length pre) url c"
  show ?thesis
  proof (cases "c = COLON")
    case False
    have "c \<noteq> AT_SIGN" using scanned by (auto simp: host_scanned_def at_component_def split: url_host.splits)
    then have "maybe_port ?l = ret ?l" "maybe_userinfo ?l = ret ?l" using False by (simp_all add: maybe_port_def maybe_userinfo_def)
    then show ?thesis
      using after_host_scanned [OF v port he scanned s(2)] by (simp add: then_find_delim [OF f])
  next
    case True
    then obtain e b mid where h: "he = Plain_host e" "h = Plain_host b"
      and s1: "s1 = s\<lparr>url_text := (pre @ b @ 0 # mid) @ tl (port_text port ve)\<rparr>" "url = length (pre @ b @ 0 # mid)"
      and colon: "hd (port_text port ve) = COLON"
      using scanned by (auto simp: host_scanned_def at_component_def split: url_host.splits)
    from colon obtain ds where ds: "port = Some ds" by (cases port) simp_all
    show ?thesis
      using plain_host_then_port [OF v port [unfolded ds], of s1 pre b mid u p hn w n ssl] s(2) s1 ds h True
      by (simp add: then_find_delim [OF f] port_number_def)
  qed
qed

text \<open>With a user part, after its delimiter has been found.\<close>

lemma host_after_user:
  assumes v: "rel_option (percent_encoded True) ve vd" and port: "port_digits port" and he: "host_encoded he h"
    and s: "url_text s = pre @ host_text he @ port_text port ve"
      "info_strings pre (parsed s) = (Some u, Some p, Some hn, Some w, n, ssl)"
    and l: "l_delim l = AT_SIGN" "l_url l = length pre" "string_at pre (l_host l) = Some u'"
      "case l_port l of None \<Rightarrow> p' = p | Some q \<Rightarrow> string_at pre q = Some p'"
  shows "\<exists>s'. and_then (maybe_userinfo l) (\<lambda>l. and_then (the_host l) after_host) s = (Ok (), s') \<and>
    info_strings (url_text s') (parsed s') =
    (Some u', Some p', Some (host_name h hn), Some (component vd w), port_number port n, ssl)"
proof -
  define i where "i = (case l_port l of None \<Rightarrow> (parsed s)\<lparr>ci_user := At (l_host l)\<rparr>
    | Some q \<Rightarrow> (parsed s)\<lparr>ci_user := At (l_host l), ci_password := At q\<rparr>)"
  let ?s = "s\<lparr>parsed := i\<rparr>"
  have i: "info_strings pre (parsed ?s) = (Some u', Some p', Some hn, Some w, n, ssl)"
    using s(2) l(3,4) by (auto simp: i_def info_strings_def split: option.splits)
  have t: "url_text ?s = pre @ host_text he @ port_text port ve" using s(1) by simp
  obtain s1 url c where f: "find_delim True (length pre) ?s = (Ok (url, c), s1)"
    and scanned: "host_scanned pre he h port ve ?s s1 (at_component (length pre) url c)"
    by (rule scan_host [OF he t])
  have "maybe_userinfo l s = (Ok (at_component (length pre) url c), s1)"
    using l(1,2) f by (auto simp: maybe_userinfo_def i_def at_component_def and_then_def set_parsed_def split: option.splits)
  then show ?thesis
    using after_host_scanned [OF v port he scanned i] by (simp add: and_then_def)
qed

abbreviation userinfo_encoded :: "(bytes \<times> bytes option) option \<Rightarrow> (bytes \<times> bytes option) option \<Rightarrow> bool" where
  "userinfo_encoded \<equiv> rel_option (rel_prod (percent_encoded True) (rel_option (percent_encoded True)))"

definition user_name :: "(bytes \<times> bytes option) option \<Rightarrow> bytes \<Rightarrow> bytes" where
  "user_name userinfo initial = component (map_option fst userinfo) initial"

definition user_password :: "(bytes \<times> bytes option) option \<Rightarrow> bytes \<Rightarrow> bytes" where
  "user_password userinfo initial = component (Option.bind userinfo snd) initial"

lemma authority_reads:
  assumes user: "userinfo_encoded ue ud"
    and v: "rel_option (percent_encoded True) ve vd" and port: "port_digits port" and he: "host_encoded he h"
    and s: "url_text s = pre @ userinfo_text ue @ host_text he @ port_text port ve"
      "info_strings pre (parsed s) = (Some u, Some p, Some hn, Some w, n, ssl)"
  shows "\<exists>s'. and_then (find_delim True (length pre)) (\<lambda>(url, delim). from_the_port (at_component (length pre) url delim)) s =
      (Ok (), s') \<and> info_strings (url_text s') (parsed s') =
    (Some (user_name ud u), Some (user_password ud p), Some (host_name h hn), Some (component vd w), port_number port n, ssl)"
proof -
  have d: "is_delim True AT_SIGN" "is_delim True COLON" by (simp_all add: is_delim_def)
  consider (none) "ue = None" "ud = None"
    | (name_only) e b where "ue = Some (e, None)" "ud = Some (b, None)" "percent_encoded True e b"
    | (both) e b e' b' where "ue = Some (e, Some e')" "ud = Some (b, Some b')" "percent_encoded True e b" "percent_encoded True e' b'"
    using user by (auto elim!: option.rel_cases)
  then show ?thesis
  proof cases
    case none
    then show ?thesis
      using host_without_user [OF v port he _ s(2)] s(1) by (simp add: userinfo_text_def user_name_def user_password_def component_def)
  next
    case name_only
    let ?rest = "host_text he @ port_text port ve"
    have z: "0 \<in> set (AT_SIGN # ?rest)" by simp
    have t: "url_text s = pre @ e @ AT_SIGN # ?rest" using s(1) name_only by (simp add: userinfo_text_def)
    obtain mid where f: "find_delim True (length pre) s =
        (Ok (length pre + length e + 1, AT_SIGN), s\<lparr>url_text := pre @ (b @ 0 # mid) @ ?rest\<rparr>)" and len: "length e = length b + length mid"
      by (rule find_delim_encoded [OF name_only(3) d(1) z t])
    let ?q = "pre @ b @ 0 # mid" and ?s = "s\<lparr>url_text := pre @ (b @ 0 # mid) @ ?rest\<rparr>"
    let ?l = "at_component (length pre) (length pre + length e + 1) AT_SIGN"
    have "maybe_port ?l = ret ?l" by (simp add: maybe_port_def)
    moreover have "info_strings ?q (parsed ?s) = (Some u, Some p, Some hn, Some w, n, ssl)"
      using info_strings_append [OF s(2)] by simp
    ultimately show ?thesis
      using host_after_user [OF v port he, of ?s ?q u p hn w n ssl ?l "amqp_cstring_bytes b" p] len name_only
      by (simp add: then_find_delim [OF f] user_name_def user_password_def component_def)
  next
    case both
    let ?rest = "host_text he @ port_text port ve"
    have z: "0 \<in> set (COLON # e' @ AT_SIGN # ?rest)" "0 \<in> set (AT_SIGN # ?rest)" by simp_all
    have t: "url_text s = pre @ e @ COLON # e' @ AT_SIGN # ?rest" using s(1) both by (simp add: userinfo_text_def)
    obtain mid where f: "find_delim True (length pre) s =
        (Ok (length pre + length e + 1, COLON), s\<lparr>url_text := pre @ (b @ 0 # mid) @ e' @ AT_SIGN # ?rest\<rparr>)"
      and len: "length e = length b + length mid"
      by (rule find_delim_encoded [OF both(3) d(2) z(1) t])
    let ?q = "pre @ b @ 0 # mid" and ?s = "s\<lparr>url_text := pre @ (b @ 0 # mid) @ e' @ AT_SIGN # ?rest\<rparr>"
    have t': "url_text ?s = ?q @ e' @ AT_SIGN # ?rest" by simp
    obtain mid' where g: "find_delim True (length ?q) ?s =
        (Ok (length ?q + length e' + 1, AT_SIGN), ?s\<lparr>url_text := ?q @ (b' @ 0 # mid') @ ?rest\<rparr>)"
      and len': "length e' = length b' + length mid'"
      by (rule find_delim_encoded [OF both(4) d(1) z(2) t'])
    let ?q' = "?q @ b' @ 0 # mid'" and ?s' = "s\<lparr>url_text := ?q @ (b' @ 0 # mid') @ ?rest\<rparr>"
    let ?l = "at_component (length pre) (length ?q) COLON"
    let ?l' = "?l\<lparr>l_start := length ?q, l_port := Some (length ?q), l_url := length ?q', l_delim := AT_SIGN\<rparr>"
    have q: "length pre + length e + 1 = length ?q" "length ?q + length e' + 1 = length ?q'" using len len' by simp_all
    have "maybe_port ?l ?s = (Ok ?l', ?s')"
      using g q(2) by (simp add: maybe_port_def and_then_def)
    then have step: "and_then (maybe_port ?l) f ?s = f ?l' ?s'" for f :: "url_locals \<Rightarrow> (url_state, unit) cm"
      by (rule and_then_Ok)
    have t'': "url_text ?s' = ?q' @ host_text he @ port_text port ve" by simp
    have info: "info_strings ?q' (parsed ?s') = (Some u, Some p, Some hn, Some w, n, ssl)"
      using info_strings_append [OF s(2)] by simp
    have "string_at ?q' (length pre) = Some (amqp_cstring_bytes b)" "string_at ?q' (length ?q) = Some (amqp_cstring_bytes b')"
      using string_at_written [of pre b "mid @ b' @ 0 # mid'"] string_at_written [of ?q b' mid'] by simp_all
    then have "\<exists>s'. and_then (maybe_userinfo ?l') (\<lambda>l. and_then (the_host l) after_host) ?s' = (Ok (), s') \<and>
        info_strings (url_text s') (parsed s') = (Some (amqp_cstring_bytes b), Some (amqp_cstring_bytes b'),
          Some (host_name h hn), Some (component vd w), port_number port n, ssl)"
      by (intro host_after_user [OF v port he t'' info]) simp_all
    then show ?thesis
      unfolding then_find_delim [OF f] prod.case q(1) step
      using both by (simp add: user_name_def user_password_def component_def)
  qed
qed

section \<open>Properties of the parser\<close>

text \<open>The port stays a port.\<close>

definition port_step :: "url_state \<Rightarrow> url_state \<Rightarrow> bool" where
  "port_step s s' \<longleftrightarrow> (0 \<le> ci_port (parsed s) \<longrightarrow> 0 \<le> ci_port (parsed s'))"

interpretation url_port: frame_relation port_step
  by unfold_locales (auto simp: port_step_def)

lemma parse_url_port: "steps port_step amqp_parse_url"
proof -
  have f: "steps port_step (find_delim d p)" "steps port_step (char_at p)" "steps port_step (has_prefix b)" for d p b
    by (auto simp: steps_def port_step_def find_delim_def char_at_def has_prefix_def split: option.splits)
  have g: "steps port_step (check_port l)" for l
    by (auto simp: steps_def port_step_def check_port_def set_parsed_def split: option.splits prod.splits)
  have h: "steps port_step (set_parsed u)" if "\<And>i. 0 \<le> ci_port i \<longrightarrow> 0 \<le> ci_port (u i)" for u
    using that by (auto simp: steps_def port_step_def set_parsed_def)
  have get: "steps port_step get" by (simp add: steps_def port_step_def)
  show ?thesis
    unfolding amqp_parse_url_def check_scheme_def first_component_def maybe_port_def maybe_userinfo_def the_host_def
      bracketed_host_def plain_host_def the_vhost_def Let_def
    by (intro url_port.frame_intros f g get) (auto intro!: url_port.frame_intros f g h get split: option.splits)
qed

lemma parse_url_from_the_port:
  assumes "check_scheme s = (Ok (), s')" and "(if ci_ssl (parsed s') then 8 else 7) = start"
  shows "amqp_parse_url s = and_then (find_delim True start) (\<lambda>(url, delim). from_the_port (at_component start url delim)) s'"
proof -
  have "and_then first_component f s' = and_then (find_delim True start) (\<lambda>(url, delim). f (at_component start url delim)) s'"
    for f :: "url_locals \<Rightarrow> (url_state, unit) cm"
    using assms(2) by (simp add: first_component_def at_component_def Let_def run_and_then split: prod.splits outcome.splits)
  with assms(1) show ?thesis by (simp add: amqp_parse_url_def and_then_Ok [where m = check_scheme])
qed

lemma parse_url_reads:
  assumes "userinfo_encoded ue ud" and "host_encoded he h" and "port_digits port" and "rel_option (percent_encoded True) ve vd"
  shows "\<exists>s. amqp_parse_url \<lparr>url_text = write_url secure ue he port ve, parsed = amqp_default_connection_info\<rparr> = (Ok (), s) \<and>
    info_strings (url_text s) (parsed s) =
      (Some (user_name ud (ascii ''guest'')), Some (user_password ud (ascii ''guest'')),
       Some (host_name h (ascii ''localhost'')), Some (component vd (ascii ''/'')),
       port_number port (if secure then 5671 else 5672), secure)"
proof -
  let ?scheme = "ascii (if secure then ''amqps://'' else ''amqp://'')"
  let ?s = "\<lparr>url_text = write_url secure ue he port ve, parsed = amqp_default_connection_info\<rparr>"
  let ?s' = "if secure then ?s\<lparr>parsed := (parsed ?s)\<lparr>ci_port := 5671, ci_ssl := True\<rparr>\<rparr> else ?s"
  have scheme: "check_scheme ?s = (Ok (), ?s')"
    by (rule check_scheme_reads [where rest = "userinfo_text ue @ host_text he @ port_text port ve"])
      (simp_all add: write_url_def)
  have body: "url_text ?s' = ?scheme @ userinfo_text ue @ host_text he @ port_text port ve"
    by (simp add: write_url_def)
  have info: "info_strings ?scheme (parsed ?s') = (Some (ascii ''guest''), Some (ascii ''guest''), Some (ascii ''localhost''),
      Some (ascii ''/''), if secure then 5671 else 5672, secure)"
    by (simp add: info_strings_def amqp_default_connection_info_def)
  have start: "(if ci_ssl (parsed ?s') then 8 else 7) = length ?scheme"
    by (simp add: amqp_default_connection_info_def ascii_def)
  show ?thesis
    unfolding parse_url_from_the_port [OF scheme start]
    by (rule authority_reads [OF assms(1,4,3,2) body info])
qed

text \<open>
  C22: a URL is read back to what was written.  The scheme, an optional user name with an optional password, a
  host name or an address in brackets, an optional port and an optional virtual host, each percent-encoded
  in any way, give exactly the decoded components, and the defaults for what is missing; an empty host name
  counts as missing.  A component is a C string: an escaped zero byte (\<^verbatim>\<open>%00\<close>) ends it, and what follows is
  dropped without an error.  That the components, decoded in place, do not overwrite each other is part of
  the claim.
\<close>

theorem parse_url_round_trip:
  assumes "userinfo_encoded ue ud" and "host_encoded he h" and "port_digits port" and "rel_option (percent_encoded True) ve vd"
  shows "\<exists>s. amqp_parse_url \<lparr>url_text = write_url secure ue he port ve, parsed = amqp_default_connection_info\<rparr> = (Ok (), s) \<and>
    info_strings (url_text s) (parsed s) =
      (Some (user_name ud (ascii ''guest'')), Some (user_password ud (ascii ''guest'')),
       Some (host_name h (ascii ''localhost'')), Some (component vd (ascii ''/'')),
       port_number port (if secure then 5671 else 5672), secure)"
  by (rule parse_url_reads [OF assms])

theorem parse_url_round_trip_witness:
  "\<exists>s. amqp_parse_url \<lparr>url_text = ascii ''amqp://us%65r:%2f@ho%00st:10000/v%2Fh'' @ [0], parsed = amqp_default_connection_info\<rparr> = (Ok (), s) \<and>
    info_strings (url_text s) (parsed s) =
      (Some (ascii ''user''), Some (ascii ''/''), Some (ascii ''ho''), Some (ascii ''v/h''), 10000, False)"
proof -
  have enc: "percent_encoded True (ascii ''us%65r'') (ascii ''user'')" "percent_encoded True (ascii ''%2f'') (ascii ''/'')"
    "percent_encoded True (ascii ''ho%00st'') (ascii ''ho'' @ 0 # ascii ''st'')" "percent_encoded True (ascii ''v%2Fh'') (ascii ''v/h'')"
    by (simp_all add: percent_encoded_simps ascii_def hex_byte_def digit_value_def isdigit_def isxdigit_def is_delim_def)
  show ?thesis
    using parse_url_round_trip [of "Some (ascii ''us%65r'', Some (ascii ''%2f''))" "Some (ascii ''user'', Some (ascii ''/''))"
        "Plain_host (ascii ''ho%00st'')" "Plain_host (ascii ''ho'' @ 0 # ascii ''st'')" "Some (ascii ''10000'')"
        "Some (ascii ''v%2Fh'')" "Some (ascii ''v/h'')" False] enc
    by (simp add: write_url_def userinfo_text_def host_text_def port_text_def vhost_text_def port_digits_def isdigit_def
        number_def digit_value_def user_name_def user_password_def component_def host_name_def port_number_def
        ascii_def amqp_cstring_bytes_def)
qed

lemma parse_url_inside:
  assumes "k < length t" and "t ! k = 0" and "\<not> ci_ssl i"
    and "inside k (ci_user i)" and "inside k (ci_password i)" and "inside k (ci_host i)" and "inside k (ci_vhost i)"
  shows "\<exists>r s. amqp_parse_url \<lparr>url_text = t, parsed = i\<rparr> = (r, s) \<and> (r = Ok () \<or> r = Err AMQP_STATUS_BAD_URL) \<and>
    length (url_text s) = length t \<and> url_text s ! k = 0 \<and> drop (Suc k) (url_text s) = drop (Suc k) t \<and>
    (\<forall>p\<in>{ci_user (parsed s), ci_password (parsed s), ci_host (parsed s), ci_vhost (parsed s)}.
       inside k p \<and> string_of (url_text s) p \<noteq> None)"
proof -
  let ?s = "\<lparr>url_text = t, parsed = i\<rparr>"
  let ?ok = "url_ok k (drop (Suc k) t)"
  have s: "?ok ?s" using assms by (simp add: url_ok_def)
  obtain r s where run: "amqp_parse_url ?s = (r, s)" by (cases "amqp_parse_url ?s")
  have rest: "url_safe k (drop (Suc k) t) (\<lambda>_. True) (from_the_port l)" if "locals_ok k l" for l
    by (intro url_safe_and_then [OF url_safe_maybe_port] url_safe_and_then [OF url_safe_maybe_userinfo]
        url_safe_and_then [OF url_safe_the_host] url_safe_and_then [OF url_safe_check_port] url_safe_the_vhost that)
  have "?ok s \<and> (r = Ok () \<or> r = Err AMQP_STATUS_BAD_URL)"
  proof (cases "fst (check_scheme ?s) = Ok ()")
    case False
    then show ?thesis
      using check_scheme_safe [OF s] assms(3) run
      by (cases "check_scheme ?s") (auto simp: amqp_parse_url_def and_then_def)
  next
    case True
    then obtain s1 where s1: "check_scheme ?s = (Ok (), s1)" "?ok s1" "starts_inside k s1"
      using check_scheme_safe [OF s] assms(3) by (cases "check_scheme ?s") auto
    obtain r2 s2 where s2: "first_component s1 = (r2, s2)" "?ok s2"
      "case r2 of Ok l \<Rightarrow> locals_ok k l | Err e \<Rightarrow> e = AMQP_STATUS_BAD_URL | _ \<Rightarrow> False"
      using first_component_safe [OF s1(2,3)] by (cases "first_component s1") auto
    show ?thesis
    proof (cases r2)
      case (Ok l)
      then have "from_the_port l s2 = (r, s)"
        using run s1(1) s2(1) by (simp add: amqp_parse_url_def and_then_def)
      then show ?thesis
        using rest [of l] s2 Ok by (cases r) (auto simp: url_safe_def dest!: spec [of _ s2])
    qed (use run s1 s2 in \<open>auto simp: amqp_parse_url_def and_then_def\<close>)
  qed
  then have ok: "?ok s" "r = Ok () \<or> r = Err AMQP_STATUS_BAD_URL" by auto
  moreover have "string_of (url_text s) p \<noteq> None" if "inside k p" for p
    using that ok(1) string_at_Some [of k "url_text s"] by (cases p) (auto simp: url_ok_def)
  moreover have "length (url_text s) = length t"
  proof -
    have "k < length (url_text s)" "drop (Suc k) (url_text s) = drop (Suc k) t" using ok(1) by (simp_all add: url_ok_def)
    moreover from this have "length (url_text s) - Suc k = length t - Suc k" by (metis length_drop)
    ultimately show ?thesis using assms(1) by arith
  qed
  ultimately show ?thesis using run by (auto simp: url_ok_def)
qed

text \<open>
  C23: whatever the text, parsing it is safe.  From a terminated string, and parameters that do not ask for
  TLS beforehand, \<^verbatim>\<open>amqp_parse_url\<close> returns, with success or \<^verbatim>\<open>AMQP_STATUS_BAD_URL\<close>; it writes nothing behind the
  terminator, keeps it, and every pointer it stores is to a string that ends inside the text.
\<close>

theorem parse_url_stays_inside:
  assumes "k < length t" and "t ! k = 0" and "\<not> ci_ssl i"
    and "inside k (ci_user i)" and "inside k (ci_password i)" and "inside k (ci_host i)" and "inside k (ci_vhost i)"
  shows "\<exists>r s. amqp_parse_url \<lparr>url_text = t, parsed = i\<rparr> = (r, s) \<and> (r = Ok () \<or> r = Err AMQP_STATUS_BAD_URL) \<and>
    length (url_text s) = length t \<and> url_text s ! k = 0 \<and> drop (Suc k) (url_text s) = drop (Suc k) t \<and>
    (\<forall>p\<in>{ci_user (parsed s), ci_password (parsed s), ci_host (parsed s), ci_vhost (parsed s)}.
       inside k p \<and> string_of (url_text s) p \<noteq> None)"
  by (rule parse_url_inside [OF assms])

theorem parse_url_stays_inside_witness:
  "\<exists>r s. amqp_parse_url \<lparr>url_text = ascii ''amqp://a%4'' @ [0, 1, 2], parsed = amqp_default_connection_info\<rparr> = (r, s) \<and>
    (r = Ok () \<or> r = Err AMQP_STATUS_BAD_URL) \<and> length (url_text s) = 13 \<and> drop 11 (url_text s) = [1, 2]"
  using parse_url_stays_inside [of 10 "ascii ''amqp://a%4'' @ [0, 1, 2]" amqp_default_connection_info]
  by (auto simp: ascii_def amqp_default_connection_info_def)

section \<open>Where the parser is wrong or lenient\<close>

text \<open>The parameters that the URL \<^verbatim>\<open>amqps://\<close> leaves behind.\<close>

definition after_tls :: amqp_connection_info where
  "after_tls = amqp_default_connection_info\<lparr>ci_port := 5671, ci_ssl := True\<rparr>"

text \<open>
  The offset of the first component follows the flag in the caller's parameters, not the scheme that was
  read.  Parameters that were filled in from an \<^verbatim>\<open>amqps\<close> URL before make the parser start one character late
  in an \<^verbatim>\<open>amqp\<close> URL: whatever its first character \<open>c\<close> is, the user name or the host loses it, the port and
  the flag stay those of TLS; and the URL \<^verbatim>\<open>amqp://\<close> is read behind its terminator, outside the string.
\<close>

theorem stale_tls_flag_shifts_url:
  assumes "c \<noteq> 0" and "userinfo_encoded ue ud" and "host_encoded he h" and "port_digits port" and "rel_option (percent_encoded True) ve vd"
  shows "fst (amqp_parse_url \<lparr>url_text = ascii ''amqp://'' @ [0], parsed = after_tls\<rparr>) = Undef \<and>
    (\<exists>s. amqp_parse_url \<lparr>url_text = ascii ''amqp://'' @ c # userinfo_text ue @ host_text he @ port_text port ve, parsed = after_tls\<rparr> = (Ok (), s) \<and>
      info_strings (url_text s) (parsed s) =
        (Some (user_name ud (ascii ''guest'')), Some (user_password ud (ascii ''guest'')),
         Some (host_name h (ascii ''localhost'')), Some (component vd (ascii ''/'')), port_number port 5671, True))"
proof
  let ?s = "\<lparr>url_text = ascii ''amqp://'' @ [0], parsed = after_tls\<rparr>"
  have scheme: "check_scheme ?s = (Ok (), ?s)"
    using check_scheme_reads [of ?s False "[0]"] by simp
  have "(if ci_ssl (parsed ?s) then 8 else 7) = (8 :: nat)" by (simp add: after_tls_def)
  moreover have "find_delim True 8 ?s = (Undef, ?s)"
    by (simp add: find_delim_def scan_delim.simps ascii_def)
  ultimately show "fst (amqp_parse_url ?s) = Undef"
    using parse_url_from_the_port [OF scheme] by (simp add: and_then_def)
next
  let ?s = "\<lparr>url_text = ascii ''amqp://'' @ c # userinfo_text ue @ host_text he @ port_text port ve, parsed = after_tls\<rparr>"
  let ?pre = "ascii ''amqp://'' @ [c]"
  have scheme: "check_scheme ?s = (Ok (), ?s)"
    using check_scheme_reads [of ?s False "c # userinfo_text ue @ host_text he @ port_text port ve"] by simp
  have start: "(if ci_ssl (parsed ?s) then 8 else 7) = length ?pre"
    by (simp add: after_tls_def ascii_def)
  have body: "url_text ?s = ?pre @ userinfo_text ue @ host_text he @ port_text port ve" by simp
  have info: "info_strings ?pre (parsed ?s) = (Some (ascii ''guest''), Some (ascii ''guest''), Some (ascii ''localhost''),
      Some (ascii ''/''), 5671, True)"
    by (simp add: info_strings_def amqp_default_connection_info_def after_tls_def)
  show "\<exists>s. amqp_parse_url ?s = (Ok (), s) \<and> info_strings (url_text s) (parsed s) =
        (Some (user_name ud (ascii ''guest'')), Some (user_password ud (ascii ''guest'')),
         Some (host_name h (ascii ''localhost'')), Some (component vd (ascii ''/'')), port_number port 5671, True)"
    unfolding parse_url_from_the_port [OF scheme start]
    by (rule authority_reads [OF assms(2,5,4,3) body info])
qed

theorem stale_tls_flag_shifts_url_witness:
  "\<exists>s. amqp_parse_url \<lparr>url_text = ascii ''amqp://host'' @ [0], parsed = after_tls\<rparr> = (Ok (), s) \<and>
    info_strings (url_text s) (parsed s) =
      (Some (ascii ''guest''), Some (ascii ''guest''), Some (ascii ''ost''), Some (ascii ''/''), 5671, True)"
proof -
  have "percent_encoded True (ascii ''ost'') (ascii ''ost'')"
    by (simp add: percent_encoded_simps ascii_def is_delim_def)
  then show ?thesis
    using stale_tls_flag_shifts_url [of 104 None None "Plain_host (ascii ''ost'')" "Plain_host (ascii ''ost'')" None None None]
    by (simp add: userinfo_text_def host_text_def port_text_def vhost_text_def port_digits_def
        user_name_def user_password_def component_def host_name_def port_number_def ascii_def amqp_cstring_bytes_def)
qed

text \<open>
  The escapes and the port are read by \<^verbatim>\<open>sscanf\<close> and \<^verbatim>\<open>strtol\<close>, which take more than digits: a blank or a sign may
  stand for the first digit of an escape, and before the port.
\<close>

lemma lenient_escapes:
  "sscanf_2x (ascii '' 1x'') = Some (1, 2)" "sscanf_2x (ascii ''+f'') = Some (15, 2)" "sscanf_2x (ascii ''-1'') = Some (-1, 2)"
  "strtol (ascii '' +80'') = (80, 4)"
  by (simp_all add: sscanf_2x_def strtol_def ascii_def isspace_def isxdigit_def isdigit_def sign_def number_def digit_value_def
      LONG_MAX_def LONG_MIN_def Let_def)

end
