(* ===== verification/Ssl.thy ===== *)
theory Ssl
  imports Tcp
begin

text \<open>
  The TLS socket of \<^verbatim>\<open>amqp_openssl.c\<close>, the back end the build chooses by default.  OpenSSL is not part of
  the repository: its functions are parameters (\<open>openssl\<close>), as are the system calls (\<open>os\<close>); both work on
  the same state of the outside.  A handle of OpenSSL is a number, the null pointer is \<open>None\<close>.

  The object is a value of its own in the state, next to the static variables of the file, so that the
  object under construction and the socket it replaces are told apart.
\<close>

section \<open>OpenSSL\<close>

definition SSL_ERROR_ZERO_RETURN :: int where "SSL_ERROR_ZERO_RETURN = 6"
definition X509_V_OK :: int where "X509_V_OK = 0"
definition NID_commonName :: int where "NID_commonName = 13"
definition CRYPTO_LOCK :: int where "CRYPTO_LOCK = 1"

text \<open>
  \<open>ssl_read\<close> gives the bytes read, or the result when it is not positive.  \<open>asn1_string_to_utf8\<close> gives the
  length and the buffer it has allocated, with its handle.  The mutex functions give \<open>True\<close> when they fail.
  \<open>thread_safety\<close> says whether the library is compiled with \<^verbatim>\<open>ENABLE_THREAD_SAFETY\<close>.
\<close>

record 'o openssl =
  err_clear_error :: "('o, unit) cm"
  err_peek_error :: "('o, int) cm"
  os_errno :: "('o, int) cm"
  ssl_ctx_new :: "('o, nat option) cm"
  ssl_ctx_free :: "nat option \<Rightarrow> ('o, unit) cm"
  ssl_ctx_load_verify_locations :: "nat option \<Rightarrow> bytes \<Rightarrow> ('o, int) cm"
  ssl_ctx_use_certificate_chain_file :: "nat option \<Rightarrow> bytes \<Rightarrow> ('o, int) cm"
  ssl_ctx_use_privatekey_file :: "nat option \<Rightarrow> bytes \<Rightarrow> ('o, int) cm"
  ssl_ctx_use_rsaprivatekey :: "nat option \<Rightarrow> nat \<Rightarrow> ('o, int) cm"
  bio_new_mem_buf :: "bytes \<Rightarrow> ('o, nat option) cm"
  pem_read_bio_rsaprivatekey :: "nat \<Rightarrow> ('o, int) cm \<Rightarrow> ('o, nat option) cm"
  bio_vfree :: "nat option \<Rightarrow> ('o, unit) cm"
  rsa_free :: "nat option \<Rightarrow> ('o, unit) cm"
  ssl_new :: "nat option \<Rightarrow> ('o, nat option) cm"
  ssl_set_auto_retry :: "nat \<Rightarrow> ('o, unit) cm"
  ssl_set_fd :: "nat \<Rightarrow> int \<Rightarrow> ('o, int) cm"
  ssl_connect :: "nat \<Rightarrow> ('o, int) cm"
  ssl_get_error :: "nat option \<Rightarrow> int \<Rightarrow> ('o, int) cm"
  ssl_get_verify_result :: "nat \<Rightarrow> ('o, int) cm"
  ssl_shutdown :: "nat \<Rightarrow> ('o, unit) cm"
  ssl_free :: "nat \<Rightarrow> ('o, unit) cm"
  ssl_write :: "nat option \<Rightarrow> bytes \<Rightarrow> int \<Rightarrow> ('o, int) cm"
  ssl_read :: "nat option \<Rightarrow> int \<Rightarrow> ('o, int + bytes) cm"
  ssl_get_peer_certificate :: "nat \<Rightarrow> ('o, nat option) cm"
  x509_get_subject_name :: "nat \<Rightarrow> ('o, nat option) cm"
  x509_name_get_index_by_nid :: "nat \<Rightarrow> int \<Rightarrow> ('o, int) cm"
  x509_name_get_entry :: "nat \<Rightarrow> int \<Rightarrow> ('o, nat option) cm"
  x509_name_entry_get_data :: "nat \<Rightarrow> ('o, nat option) cm"
  asn1_string_to_utf8 :: "nat \<Rightarrow> ('o, int \<times> (nat \<times> bytes) option) cm"
  openssl_free :: "nat option \<Rightarrow> ('o, unit) cm"
  openssl_config :: "('o, unit) cm"
  ssl_library_init :: "('o, unit) cm"
  ssl_load_error_strings :: "('o, unit) cm"
  thread_safety :: bool
  init_mutex_lock :: "('o, bool) cm"
  init_mutex_unlock :: "('o, unit) cm"
  crypto_num_locks :: nat
  mutex_init :: "nat \<Rightarrow> ('o, bool) cm"
  mutex_lock :: "nat \<Rightarrow> ('o, bool) cm"
  mutex_unlock :: "nat \<Rightarrow> ('o, bool) cm"
  crypto_set_id_callback :: "bool \<Rightarrow> ('o, unit) cm"
  crypto_set_locking_callback :: "bool \<Rightarrow> ('o, unit) cm"

section \<open>The socket object and the static variables\<close>

record ssl_object =
  ssl_block :: "nat option"
  tls_ctx :: "nat option"
  tls_sockfd :: int
  tls_ssl :: "nat option"
  tls_buffer_block :: "nat option"
  tls_buffer :: bytes
  tls_length :: nat
  tls_verify :: bool
  tls_error :: int

record ssl_conn = conn +
  ssl_self :: ssl_object
  open_ssl_connections :: int
  do_initialize_openssl :: bool
  openssl_initialized :: bool
  openssl_lockarray :: "nat option"

definition on_tls :: "('o, 'b) cm \<Rightarrow> ('o ssl_conn_scheme, 'b) cm" where
  "on_tls m = (\<lambda>c. case m (ssl_conn.more c) of (r, o') \<Rightarrow> (r, c\<lparr>ssl_conn.more := o'\<rparr>))"

definition self :: "('o ssl_conn_scheme, ssl_object) cm" where
  "self = and_then get (\<lambda>c. ret (ssl_self c))"

definition set_self :: "(ssl_object \<Rightarrow> ssl_object) \<Rightarrow> ('o ssl_conn_scheme, unit) cm" where
  "set_self f = modify (\<lambda>c. c\<lparr>ssl_self := f (ssl_self c)\<rparr>)"

text \<open>A method called on another object than the connection's.\<close>

definition with_self :: "ssl_object \<Rightarrow> ('o ssl_conn_scheme, 'b) cm \<Rightarrow> ('o ssl_conn_scheme, 'b) cm" where
  "with_self obj m = (\<lambda>c. case m (c\<lparr>ssl_self := obj\<rparr>) of (r, c') \<Rightarrow> (r, c'\<lparr>ssl_self := ssl_self c\<rparr>))"

text \<open>A \<^verbatim>\<open>size_t\<close> passed where OpenSSL takes an \<^verbatim>\<open>int\<close>.\<close>

definition int_of_size :: "nat \<Rightarrow> int" where
  "int_of_size n = (int n + 2 ^ 31) mod 2 ^ 32 - 2 ^ 31"

section \<open>Sending and receiving\<close>

text \<open>What a result that is not positive means: the error is kept in the object.\<close>

definition io_failed :: "'o openssl \<Rightarrow> int \<Rightarrow> ('o ssl_conn_scheme, 'b) cm" where
  "io_failed T res = and_then self (\<lambda>s.
     and_then (on_tls (ssl_get_error T (tls_ssl s) res)) (\<lambda>e.
     and_then (set_self (\<lambda>s. s\<lparr>tls_error := e\<rparr>)) (\<lambda>_.
     raise (if e = SSL_ERROR_ZERO_RETURN then AMQP_STATUS_CONNECTION_CLOSED else AMQP_STATUS_SSL_ERROR))))"

definition amqp_ssl_socket_send :: "'o openssl \<Rightarrow> bytes \<Rightarrow> ('o ssl_conn_scheme, unit) cm" where
  "amqp_ssl_socket_send T buf =
     and_then (on_tls (err_clear_error T)) (\<lambda>_.
     and_then (set_self (\<lambda>s. s\<lparr>tls_error := 0\<rparr>)) (\<lambda>_.
     and_then self (\<lambda>s.
     and_then (on_tls (ssl_write T (tls_ssl s) buf (int_of_size (length buf)))) (\<lambda>res.
     if res \<le> 0 then io_failed T res else set_self (\<lambda>s. s\<lparr>tls_error := 0\<rparr>)))))"

definition grow_tls_buffer :: "nat \<Rightarrow> ('o ssl_conn_scheme, unit) cm" where
  "grow_tls_buffer wanted = and_then self (\<lambda>s.
     if tls_length s < wanted then
       and_then (c_realloc (tls_buffer_block s) wanted) (\<lambda>r. case r of
         None \<Rightarrow>
           and_then (set_self (\<lambda>s. s\<lparr>tls_buffer_block := None, tls_buffer := [], tls_length := 0\<rparr>)) (\<lambda>_.
           raise AMQP_STATUS_NO_MEMORY)
       | Some b \<Rightarrow> modify (\<lambda>c. c\<lparr>ssl_self := (ssl_self c)\<lparr>tls_buffer_block := Some b,
           tls_buffer := resized (stale c) wanted (tls_buffer (ssl_self c)), tls_length := wanted\<rparr>\<rparr>))
     else ret ())"

definition amqp_ssl_socket_writev :: "'o openssl \<Rightarrow> bytes list \<Rightarrow> ('o ssl_conn_scheme, unit) cm" where
  "amqp_ssl_socket_writev T iov =
     and_then (grow_tls_buffer (length (concat iov))) (\<lambda>_.
     and_then self (\<lambda>s.
     if length (tls_buffer s) < length (concat iov) then undef
     else
       and_then (set_self (\<lambda>s. s\<lparr>tls_buffer := splice (tls_buffer s) 0 (concat iov)\<rparr>)) (\<lambda>_.
       and_then self (\<lambda>s. amqp_ssl_socket_send T (take (length (concat iov)) (tls_buffer s))))))"

definition amqp_ssl_socket_recv :: "'o openssl \<Rightarrow> nat \<Rightarrow> ('o ssl_conn_scheme, bytes) cm" where
  "amqp_ssl_socket_recv T len =
     and_then (on_tls (err_clear_error T)) (\<lambda>_.
     and_then (set_self (\<lambda>s. s\<lparr>tls_error := 0\<rparr>)) (\<lambda>_.
     and_then self (\<lambda>s.
     and_then (on_tls (ssl_read T (tls_ssl s) (int_of_size len))) (\<lambda>r. case r of
       Inl res \<Rightarrow> io_failed T res
     | Inr bs \<Rightarrow> if bs = [] then io_failed T 0 else ret bs))))"

section \<open>Verification of the host name\<close>

text \<open>\<^verbatim>\<open>if (!x) goto error;\<close> for the chain of pointers from the certificate to its common name.\<close>

definition unless_null :: "('o, 'b option) cm \<Rightarrow> ('b \<Rightarrow> ('o, 'c option) cm) \<Rightarrow> ('o, 'c option) cm" where
  "unless_null m f = and_then m (\<lambda>r. case r of None \<Rightarrow> ret None | Some a \<Rightarrow> f a)"

definition peer_common_name :: "'o openssl \<Rightarrow> nat \<Rightarrow> ('o, nat option) cm" where
  "peer_common_name T s =
     unless_null (ssl_get_peer_certificate T s) (\<lambda>peer.
     unless_null (x509_get_subject_name T peer) (\<lambda>name.
     and_then (x509_name_get_index_by_nid T name NID_commonName) (\<lambda>pos.
     if pos < 0 then ret None
     else unless_null (x509_name_get_entry T name pos) (x509_name_entry_get_data T))))"

text \<open>\<^verbatim>\<open>while (utf8_length > 0 && utf8_value[utf8_length - 1] == 0) --utf8_length;\<close>\<close>

primrec strip_zeros :: "nat \<Rightarrow> bytes \<Rightarrow> nat" where
  "strip_zeros 0 utf8_value = 0"
| "strip_zeros (Suc n) utf8_value = (if utf8_value ! n = 0 then strip_zeros n utf8_value else Suc n)"

definition isascii :: "u8 \<Rightarrow> bool" where
  "isascii ch \<longleftrightarrow> ch < 128"

definition isprint :: "u8 \<Rightarrow> bool" where
  "isprint ch \<longleftrightarrow> 32 \<le> ch \<and> ch \<le> 126"

definition tolower :: "u8 \<Rightarrow> u8" where
  "tolower ch = (if 65 \<le> ch \<and> ch \<le> 90 then ch + 32 else ch)"

definition strcasecmp_equal :: "bytes \<Rightarrow> bytes \<Rightarrow> bool" where
  "strcasecmp_equal a b \<longleftrightarrow> map tolower (amqp_cstring_bytes a) = map tolower (amqp_cstring_bytes b)"

text \<open>
  The tests on the name, in order; \<open>None\<close> is a read behind the buffer (a missing terminator).  An inner
  zero byte is refused, for then \<^verbatim>\<open>strlen\<close> differs from the length.
\<close>

definition name_matches :: "bytes \<Rightarrow> int \<Rightarrow> bytes \<Rightarrow> bool option" where
  "name_matches host_name utf8_length utf8_value =
     (if length utf8_value < nat utf8_length then None
      else let n = strip_zeros (nat utf8_length) utf8_value in
        if 256 \<le> n then Some False
        else if 0 \<notin> set utf8_value then None
        else Some (n = length (amqp_cstring_bytes utf8_value) \<and>
          (\<forall>ch\<in>set (amqp_cstring_bytes utf8_value). \<not> (isascii ch \<and> \<not> isprint ch)) \<and>
          strcasecmp_equal host_name utf8_value))"

definition amqp_ssl_socket_verify_hostname :: "'o openssl \<Rightarrow> nat \<Rightarrow> bytes \<Rightarrow> ('o, int) cm" where
  "amqp_ssl_socket_verify_hostname T s host_name =
     and_then (peer_common_name T s) (\<lambda>entry_string. case entry_string of
       None \<Rightarrow> and_then (openssl_free T None) (\<lambda>_. ret (- 1))
     | Some e \<Rightarrow>
         and_then (asn1_string_to_utf8 T e) (\<lambda>(utf8_length, utf8).
         if utf8_length < 0 then and_then (openssl_free T (map_option fst utf8)) (\<lambda>_. ret (- 1))
         else case utf8 of
           None \<Rightarrow> undef
         | Some (p, utf8_value) \<Rightarrow> (case name_matches host_name utf8_length utf8_value of
             None \<Rightarrow> undef
           | Some matches \<Rightarrow> and_then (openssl_free T (Some p)) (\<lambda>_. ret (if matches then 0 else - 1)))))"

section \<open>Opening and closing\<close>

text \<open>The three labels at the end of \<^verbatim>\<open>amqp_ssl_socket_open\<close>, each falling through to the next.\<close>

definition error_out1 :: "'o openssl \<Rightarrow> nat \<Rightarrow> int \<Rightarrow> ('o ssl_conn_scheme, int) cm" where
  "error_out1 T s status = and_then (on_tls (ssl_free T s)) (\<lambda>_. ret status)"

definition error_out2 :: "'o os \<Rightarrow> 'o openssl \<Rightarrow> nat \<Rightarrow> int \<Rightarrow> ('o ssl_conn_scheme, int) cm" where
  "error_out2 S T s status =
     and_then self (\<lambda>obj.
     and_then (on_tls (amqp_os_socket_close S (tls_sockfd obj))) (\<lambda>_.
     and_then (set_self (\<lambda>obj. obj\<lparr>tls_sockfd := - 1\<rparr>)) (\<lambda>_.
     error_out1 T s status)))"

definition error_out3 :: "'o os \<Rightarrow> 'o openssl \<Rightarrow> nat \<Rightarrow> int \<Rightarrow> ('o ssl_conn_scheme, int) cm" where
  "error_out3 S T s status = and_then (on_tls (ssl_shutdown T s)) (\<lambda>_. error_out2 S T s status)"

text \<open>
  The checks after the handshake.  In the last one the status is assigned to a variable of the inner block
  that hides the outer one; what is returned is the outer one, the result of \<^verbatim>\<open>SSL_connect\<close>.
\<close>

definition check_peer :: "'o os \<Rightarrow> 'o openssl \<Rightarrow> nat \<Rightarrow> bytes \<Rightarrow> int \<Rightarrow> ('o ssl_conn_scheme, int) cm" where
  "check_peer S T s host_name status =
     and_then (on_tls (ssl_get_verify_result T s)) (\<lambda>result.
     if result \<noteq> X509_V_OK then
       and_then (set_self (\<lambda>obj. obj\<lparr>tls_error := result\<rparr>)) (\<lambda>_.
       error_out3 S T s (status_code AMQP_STATUS_SSL_PEER_VERIFY_FAILED))
     else and_then self (\<lambda>obj.
       and_then (if tls_verify obj then on_tls (amqp_ssl_socket_verify_hostname T s host_name) else ret 0) (\<lambda>inner_status.
       if inner_status \<noteq> 0 then
         and_then (set_self (\<lambda>obj. obj\<lparr>tls_error := 0\<rparr>)) (\<lambda>_. error_out3 S T s status)
       else and_then (set_self (\<lambda>obj. obj\<lparr>tls_error := 0\<rparr>)) (\<lambda>_. ret (status_code AMQP_STATUS_OK)))))"

definition handshake :: "'o os \<Rightarrow> 'o openssl \<Rightarrow> nat \<Rightarrow> bytes \<Rightarrow> int \<Rightarrow> ('o ssl_conn_scheme, int) cm" where
  "handshake S T s host_name fd =
     and_then (on_tls (ssl_set_fd T s fd)) (\<lambda>status.
     if status = 0 then
       and_then (on_tls (ssl_get_error T (Some s) status)) (\<lambda>e.
       and_then (set_self (\<lambda>obj. obj\<lparr>tls_error := e\<rparr>)) (\<lambda>_.
       error_out2 S T s (status_code AMQP_STATUS_SSL_ERROR)))
     else and_then (on_tls (ssl_connect T s)) (\<lambda>status.
       if status = 0 then
         and_then (on_tls (ssl_get_error T (Some s) status)) (\<lambda>e.
         and_then (set_self (\<lambda>obj. obj\<lparr>tls_error := e\<rparr>)) (\<lambda>_.
         error_out2 S T s (status_code AMQP_STATUS_SSL_CONNECTION_FAILED)))
       else check_peer S T s host_name status))"

definition amqp_ssl_socket_open :: "'o os \<Rightarrow> 'o openssl \<Rightarrow> bytes \<Rightarrow> int \<Rightarrow> ('o ssl_conn_scheme, int) cm" where
  "amqp_ssl_socket_open S T host_name port =
     and_then (on_tls (err_clear_error T)) (\<lambda>_.
     and_then self (\<lambda>obj.
     and_then (on_tls (ssl_new T (tls_ctx obj))) (\<lambda>r.
     and_then (set_self (\<lambda>obj. obj\<lparr>tls_ssl := r\<rparr>)) (\<lambda>_.
     case r of
       None \<Rightarrow>
         and_then (on_tls (err_peek_error T)) (\<lambda>e.
         and_then (set_self (\<lambda>obj. obj\<lparr>tls_error := e\<rparr>)) (\<lambda>_.
         ret (status_code AMQP_STATUS_SSL_ERROR)))
     | Some s \<Rightarrow>
         and_then (on_tls (ssl_set_auto_retry T s)) (\<lambda>_.
         and_then (on_tls (amqp_open_socket S host_name port)) (\<lambda>fd.
         and_then (set_self (\<lambda>obj. obj\<lparr>tls_sockfd := fd\<rparr>)) (\<lambda>_.
         if fd < 0 then
           and_then (on_tls (os_errno T)) (\<lambda>e.
           and_then (set_self (\<lambda>obj. obj\<lparr>tls_error := e, tls_sockfd := - 1\<rparr>)) (\<lambda>_.
           error_out1 T s fd))
         else handshake S T s host_name fd)))))))"

definition amqp_ssl_socket_close :: "'o os \<Rightarrow> 'o openssl \<Rightarrow> ('o ssl_conn_scheme, unit) cm" where
  "amqp_ssl_socket_close S T =
     and_then self (\<lambda>obj.
     and_then (case tls_ssl obj of None \<Rightarrow> ret ()
       | Some s \<Rightarrow>
           and_then (on_tls (ssl_shutdown T s)) (\<lambda>_.
           and_then (on_tls (ssl_free T s)) (\<lambda>_.
           set_self (\<lambda>obj. obj\<lparr>tls_ssl := None\<rparr>)))) (\<lambda>_.
     and_then self (\<lambda>obj.
     if tls_sockfd obj \<noteq> - 1 then
       and_then (on_tls (amqp_os_socket_close S (tls_sockfd obj))) (\<lambda>r. case r of
         Inl _ \<Rightarrow> raise AMQP_STATUS_SOCKET_ERROR
       | Inr _ \<Rightarrow> set_self (\<lambda>obj. obj\<lparr>tls_sockfd := - 1\<rparr>))
     else ret ())))"

definition amqp_ssl_socket_get_sockfd :: "('o ssl_conn_scheme, int) cm" where
  "amqp_ssl_socket_get_sockfd = and_then self (\<lambda>obj. ret (tls_sockfd obj))"

section \<open>The library's initialisation, counted by connections\<close>

definition if_threaded :: "'o openssl \<Rightarrow> ('o ssl_conn_scheme, unit) cm \<Rightarrow> ('o ssl_conn_scheme, unit) cm" where
  "if_threaded T m = (if thread_safety T then m else ret ())"

text \<open>The result is the failure of \<^verbatim>\<open>pthread_mutex_lock\<close>.\<close>

definition lock_failed :: "'o openssl \<Rightarrow> ('o ssl_conn_scheme, bool) cm" where
  "lock_failed T = (if thread_safety T then on_tls (init_mutex_lock T) else ret False)"

primrec init_mutexes :: "'o openssl \<Rightarrow> nat list \<Rightarrow> ('o, bool) cm" where
  "init_mutexes T [] = ret True"
| "init_mutexes T (i # is) = and_then (mutex_init T i) (\<lambda>failed. if failed then ret False else init_mutexes T is)"

definition sizeof_mutex :: nat where "sizeof_mutex = 40"

text \<open>The array of locks is allocated once; \<open>False\<close> is the failure that ends \<^verbatim>\<open>initialize_openssl\<close>.\<close>

definition make_lockarray :: "'o openssl \<Rightarrow> ('o ssl_conn_scheme, bool) cm" where
  "make_lockarray T = and_then get (\<lambda>c.
     if openssl_lockarray c \<noteq> None then ret True
     else and_then (c_malloc (crypto_num_locks T * sizeof_mutex)) (\<lambda>r. case r of
       None \<Rightarrow> and_then (on_tls (init_mutex_unlock T)) (\<lambda>_. ret False)
     | Some b \<Rightarrow>
         and_then (on_tls (init_mutexes T [0..<crypto_num_locks T])) (\<lambda>ok.
         if ok then and_then (modify (\<lambda>c. c\<lparr>openssl_lockarray := Some b\<rparr>)) (\<lambda>_. ret True)
         else and_then (c_free (Some b)) (\<lambda>_. and_then (on_tls (init_mutex_unlock T)) (\<lambda>_. ret False)))))"

definition set_callbacks :: "'o openssl \<Rightarrow> ('o ssl_conn_scheme, unit) cm" where
  "set_callbacks T = and_then get (\<lambda>c.
     if open_ssl_connections c = 0 then
       and_then (on_tls (crypto_set_id_callback T True)) (\<lambda>_. on_tls (crypto_set_locking_callback T True))
     else ret ())"

definition initialize_openssl :: "'o openssl \<Rightarrow> ('o ssl_conn_scheme, int) cm" where
  "initialize_openssl T = and_then (lock_failed T) (\<lambda>failed.
     if failed then ret (- 1)
     else and_then get (\<lambda>c.
       and_then (if do_initialize_openssl c \<and> thread_safety T then make_lockarray T else ret True) (\<lambda>ok.
       if \<not> ok then ret (- 1)
       else
         and_then (if do_initialize_openssl c then
             and_then (if_threaded T (set_callbacks T)) (\<lambda>_.
             if openssl_initialized c then ret ()
             else
               and_then (on_tls (openssl_config T)) (\<lambda>_.
               and_then (on_tls (ssl_library_init T)) (\<lambda>_.
               and_then (on_tls (ssl_load_error_strings T)) (\<lambda>_.
               modify (\<lambda>c. c\<lparr>openssl_initialized := True\<rparr>)))))
           else ret ()) (\<lambda>_.
         and_then (modify (\<lambda>c. c\<lparr>open_ssl_connections := open_ssl_connections c + 1\<rparr>)) (\<lambda>_.
         and_then (if_threaded T (on_tls (init_mutex_unlock T))) (\<lambda>_. ret 0))))))"

definition destroy_openssl :: "'o openssl \<Rightarrow> ('o ssl_conn_scheme, int) cm" where
  "destroy_openssl T = and_then (lock_failed T) (\<lambda>failed.
     if failed then ret (- 1)
     else
       and_then (modify (\<lambda>c. c\<lparr>open_ssl_connections :=
           (if 0 < open_ssl_connections c then open_ssl_connections c - 1 else open_ssl_connections c)\<rparr>)) (\<lambda>_.
       and_then (if_threaded T (and_then get (\<lambda>c.
           and_then (if open_ssl_connections c = 0 \<and> do_initialize_openssl c then
               and_then (on_tls (crypto_set_locking_callback T False)) (\<lambda>_. on_tls (crypto_set_id_callback T False))
             else ret ()) (\<lambda>_.
           on_tls (init_mutex_unlock T))))) (\<lambda>_.
       ret 0)))"

definition amqp_set_initialize_ssl_library :: "bool \<Rightarrow> ('o ssl_conn_scheme, unit) cm" where
  "amqp_set_initialize_ssl_library do_initialize =
     modify (\<lambda>c. if openssl_initialized c then c else c\<lparr>do_initialize_openssl := do_initialize\<rparr>)"

text \<open>The callback that OpenSSL calls to lock or unlock its lock \<open>n\<close>.\<close>

definition amqp_ssl_locking_callback :: "'o openssl \<Rightarrow> int \<Rightarrow> nat \<Rightarrow> ('o ssl_conn_scheme, unit) cm" where
  "amqp_ssl_locking_callback T mode n = and_then get (\<lambda>c.
     if openssl_lockarray c = None \<or> crypto_num_locks T \<le> n then undef
     else and_then (on_tls (if mode AND CRYPTO_LOCK \<noteq> 0 then mutex_lock T n else mutex_unlock T n)) (\<lambda>failed.
       if failed then amqp_abort else ret ()))"

section \<open>Creation and deletion\<close>

definition amqp_ssl_socket_delete :: "'o os \<Rightarrow> 'o openssl \<Rightarrow> ('o ssl_conn_scheme, unit) cm" where
  "amqp_ssl_socket_delete S T =
     and_then (attempt (amqp_ssl_socket_close S T)) (\<lambda>_.
     and_then self (\<lambda>obj.
     and_then (on_tls (ssl_ctx_free T (tls_ctx obj))) (\<lambda>_.
     and_then (c_free (tls_buffer_block obj)) (\<lambda>_.
     and_then (c_free (ssl_block obj)) (\<lambda>_.
     and_then (destroy_openssl T) (\<lambda>_. ret ()))))))"

definition amqp_ssl_socket_class :: "'o os \<Rightarrow> 'o openssl \<Rightarrow> 'o ssl_conn_scheme amqp_socket_class" where
  "amqp_ssl_socket_class S T =
     \<lparr>klass_writev = amqp_ssl_socket_writev T, klass_send = amqp_ssl_socket_send T,
      klass_recv = amqp_ssl_socket_recv T, klass_open = amqp_ssl_socket_open S T,
      klass_close = amqp_ssl_socket_close S T, klass_get_sockfd = amqp_ssl_socket_get_sockfd,
      klass_delete = amqp_ssl_socket_delete S T\<rparr>"

definition sizeof_ssl_socket :: nat where "sizeof_ssl_socket = 64"

definition fresh_object :: "nat \<Rightarrow> nat option \<Rightarrow> ssl_object" where
  "fresh_object b context =
     \<lparr>ssl_block = Some b, tls_ctx = context, tls_sockfd = - 1, tls_ssl = None, tls_buffer_block = None,
      tls_buffer = [], tls_length = 0, tls_verify = True, tls_error = 0\<rparr>"

text \<open>The result is the new table, \<open>None\<close> is \<^verbatim>\<open>NULL\<close>.  The old socket of the connection is deleted last.\<close>

definition amqp_ssl_socket_new ::
    "'o os \<Rightarrow> 'o openssl \<Rightarrow> 'o ssl_conn_scheme amqp_socket_class option \<Rightarrow>
     ('o ssl_conn_scheme, 'o ssl_conn_scheme amqp_socket_class option) cm" where
  "amqp_ssl_socket_new S T old = and_then (c_malloc sizeof_ssl_socket) (\<lambda>r. case r of
     None \<Rightarrow> ret None
   | Some b \<Rightarrow>
       and_then (initialize_openssl T) (\<lambda>status.
       if status \<noteq> 0 then and_then (with_self (fresh_object b None) (amqp_ssl_socket_delete S T)) (\<lambda>_. ret None)
       else and_then (on_tls (ssl_ctx_new T)) (\<lambda>context.
         if context = None then and_then (with_self (fresh_object b None) (amqp_ssl_socket_delete S T)) (\<lambda>_. ret None)
         else
           and_then (amqp_set_socket old (amqp_ssl_socket_class S T)) (\<lambda>k.
           and_then (set_self (\<lambda>_. fresh_object b context)) (\<lambda>_. ret k)))))"

section \<open>Certificates and keys\<close>

text \<open>\<open>is_ssl\<close>: the object's table is that of this file.\<close>

definition checked :: "bool \<Rightarrow> ('o ssl_conn_scheme, 'b) cm \<Rightarrow> ('o ssl_conn_scheme, 'b) cm" where
  "checked is_ssl m = (if \<not> is_ssl then amqp_abort else m)"

definition ssl_status :: "('o, int) cm \<Rightarrow> ('o ssl_conn_scheme, int) cm \<Rightarrow> ('o ssl_conn_scheme, int) cm" where
  "ssl_status m continue = and_then (on_tls m) (\<lambda>status.
     if status \<noteq> 1 then ret (status_code AMQP_STATUS_SSL_ERROR) else continue)"

definition amqp_ssl_socket_set_cacert :: "bool \<Rightarrow> 'o openssl \<Rightarrow> bytes \<Rightarrow> ('o ssl_conn_scheme, int) cm" where
  "amqp_ssl_socket_set_cacert is_ssl T cacert = checked is_ssl (and_then self (\<lambda>obj.
     ssl_status (ssl_ctx_load_verify_locations T (tls_ctx obj) cacert) (ret (status_code AMQP_STATUS_OK))))"

definition amqp_ssl_socket_set_key :: "bool \<Rightarrow> 'o openssl \<Rightarrow> bytes \<Rightarrow> bytes \<Rightarrow> ('o ssl_conn_scheme, int) cm" where
  "amqp_ssl_socket_set_key is_ssl T cert key = checked is_ssl (and_then self (\<lambda>obj.
     ssl_status (ssl_ctx_use_certificate_chain_file T (tls_ctx obj) cert)
       (ssl_status (ssl_ctx_use_privatekey_file T (tls_ctx obj) key) (ret (status_code AMQP_STATUS_OK)))))"

definition password_cb :: "('o, int) cm" where
  "password_cb = amqp_abort"

text \<open>On success the status is left as OpenSSL's 1.\<close>

definition amqp_ssl_socket_set_key_buffer :: "bool \<Rightarrow> 'o openssl \<Rightarrow> bytes \<Rightarrow> bytes \<Rightarrow> ('o ssl_conn_scheme, int) cm" where
  "amqp_ssl_socket_set_key_buffer is_ssl T cert key = checked is_ssl (and_then self (\<lambda>obj.
     ssl_status (ssl_ctx_use_certificate_chain_file T (tls_ctx obj) cert)
       (and_then (on_tls (bio_new_mem_buf T key)) (\<lambda>buf.
        and_then (case buf of None \<Rightarrow> ret None
          | Some b \<Rightarrow> on_tls (pem_read_bio_rsaprivatekey T b password_cb)) (\<lambda>rsa.
        and_then (case rsa of None \<Rightarrow> ret (status_code AMQP_STATUS_SSL_ERROR)
          | Some k \<Rightarrow> and_then (on_tls (ssl_ctx_use_rsaprivatekey T (tls_ctx obj) k)) (\<lambda>status.
              ret (if status \<noteq> 1 then status_code AMQP_STATUS_SSL_ERROR else status))) (\<lambda>status.
        and_then (on_tls (bio_vfree T buf)) (\<lambda>_.
        and_then (on_tls (rsa_free T rsa)) (\<lambda>_.
        ret status))))))))"

definition amqp_ssl_socket_set_cert :: "bool \<Rightarrow> 'o openssl \<Rightarrow> bytes \<Rightarrow> ('o ssl_conn_scheme, int) cm" where
  "amqp_ssl_socket_set_cert is_ssl T cert = checked is_ssl (and_then self (\<lambda>obj.
     ssl_status (ssl_ctx_use_certificate_chain_file T (tls_ctx obj) cert) (ret (status_code AMQP_STATUS_OK))))"

definition amqp_ssl_socket_set_verify :: "bool \<Rightarrow> bool \<Rightarrow> ('o ssl_conn_scheme, unit) cm" where
  "amqp_ssl_socket_set_verify is_ssl verify = checked is_ssl (set_self (\<lambda>obj. obj\<lparr>tls_verify := verify\<rparr>))"

section \<open>Running the methods\<close>

lemma on_tls_run: "m (ssl_conn.more c) = (r, u) \<Longrightarrow> on_tls m c = (r, c\<lparr>ssl_conn.more := u\<rparr>)"
  by (simp add: on_tls_def)

lemma on_tls_OkE:
  assumes "on_tls m c = (Ok r, c')"
  obtains u where "m (ssl_conn.more c) = (Ok r, u)" and "c' = c\<lparr>ssl_conn.more := u\<rparr>"
  using assms by (auto simp: on_tls_def split: prod.splits)

lemma then_on_tls: "m (ssl_conn.more c) = (Ok a, u) \<Longrightarrow> and_then (on_tls m) f c = f a (c\<lparr>ssl_conn.more := u\<rparr>)"
  by (simp add: on_tls_def and_then_def)

lemma run_self [simp]: "self c = (Ok (ssl_self c), c)" "and_then self f c = f (ssl_self c) c"
  by (simp_all add: self_def and_then_def)

lemma run_set_self [simp]: "set_self f c = (Ok (), c\<lparr>ssl_self := f (ssl_self c)\<rparr>)"
  "and_then (set_self f) g c = g () (c\<lparr>ssl_self := f (ssl_self c)\<rparr>)"
  by (simp_all add: set_self_def)

lemma tls_codes [simp]: "status_code AMQP_STATUS_OK = 0" "status_code AMQP_STATUS_SSL_ERROR \<noteq> 0"
  "status_code AMQP_STATUS_SSL_PEER_VERIFY_FAILED \<noteq> 0" "status_code AMQP_STATUS_SSL_CONNECTION_FAILED \<noteq> 0"
  by (simp_all add: status_code_def)

section \<open>What a matching name is\<close>

lemma strip_zeros: "n \<le> length v \<Longrightarrow> strip_zeros n v \<le> n \<and>
    take n v = take (strip_zeros n v) v @ replicate (n - strip_zeros n v) 0"
proof (induction n)
  case (Suc n)
  then show ?case
    by (auto simp: take_Suc_conv_app_nth Suc_diff_le replicate_append_same)
qed simp

text \<open>
  A name that passes is the host name but for the case of letters, whole: up to zero bytes at its end it is
  the string the certificate has, so nothing can hide behind an inner zero.
\<close>

lemma name_matches_whole:
  assumes "name_matches h len v = Some True"
  shows "\<exists>cn k. take (nat len) v = cn @ replicate k 0 \<and> 0 \<notin> set cn \<and> length cn < 256 \<and>
    (\<forall>ch\<in>set cn. isascii ch \<longrightarrow> isprint ch) \<and> map tolower cn = map tolower (amqp_cstring_bytes h)"
proof -
  let ?n = "strip_zeros (nat len) v" and ?cn = "amqp_cstring_bytes v"
  have v: "nat len \<le> length v" "?n < 256" "?n = length ?cn" "\<forall>ch\<in>set ?cn. isascii ch \<longrightarrow> isprint ch"
    "map tolower ?cn = map tolower (amqp_cstring_bytes h)"
    using assms by (auto simp: name_matches_def Let_def strcasecmp_equal_def split: if_splits)
  have "take (length ?cn) v = ?cn"
    by (metis amqp_cstring_bytes_def append_eq_conv_conj takeWhile_dropWhile_id)
  moreover have "0 \<notin> set ?cn" by (auto simp: amqp_cstring_bytes_def dest: set_takeWhileD)
  ultimately show ?thesis
    using strip_zeros [OF v(1)] v(2-5) by (intro exI [of _ ?cn] exI [of _ "nat len - ?n"]) simp
qed

section \<open>The result of opening\<close>

lemma error_out_status:
  "error_out1 T s status c = (Ok r, c') \<Longrightarrow> r = status"
  "error_out2 S T s status c = (Ok r, c') \<Longrightarrow> r = status"
  "error_out3 S T s status c = (Ok r, c') \<Longrightarrow> r = status"
  by (auto simp: error_out1_def error_out2_def error_out3_def elim!: and_then_OkE)

text \<open>What success with verification rests on, as a chain of results of OpenSSL.\<close>

definition authenticated :: "'o openssl \<Rightarrow> nat \<Rightarrow> bytes \<Rightarrow> bool" where
  "authenticated T s host_name \<longleftrightarrow> (\<exists>u v w x e len p name.
     ssl_get_verify_result T s u = (Ok X509_V_OK, v) \<and> peer_common_name T s v = (Ok (Some e), w) \<and>
     asn1_string_to_utf8 T e w = (Ok (len, Some (p, name)), x) \<and> name_matches host_name len name = Some True)"

lemma authenticatedI:
  "ssl_get_verify_result T s u = (Ok X509_V_OK, v) \<Longrightarrow> peer_common_name T s v = (Ok (Some e), w) \<Longrightarrow>
   asn1_string_to_utf8 T e w = (Ok (len, Some (p, name)), x) \<Longrightarrow> name_matches h len name = Some True \<Longrightarrow>
   authenticated T s h"
  unfolding authenticated_def by blast

lemma verify_hostname_zero:
  assumes "amqp_ssl_socket_verify_hostname T s h u = (Ok 0, w)"
  shows "\<exists>v x e len p name. peer_common_name T s u = (Ok (Some e), v) \<and>
     asn1_string_to_utf8 T e v = (Ok (len, Some (p, name)), x) \<and> name_matches h len name = Some True"
  using assms unfolding amqp_ssl_socket_verify_hostname_def
  by (elim and_then_OkE) (auto elim!: and_then_OkE split: option.splits if_splits prod.splits)

lemma check_peer_zero:
  assumes "check_peer S T s h status c = (Ok 0, c')" and "status \<noteq> 0"
  shows "tls_ssl (ssl_self c') = tls_ssl (ssl_self c) \<and> (tls_verify (ssl_self c) \<longrightarrow> authenticated T s h)"
proof -
  obtain result v where v: "ssl_get_verify_result T s (ssl_conn.more c) = (Ok result, v)"
    and rest: "(if result \<noteq> X509_V_OK then
       and_then (set_self (\<lambda>obj. obj\<lparr>tls_error := result\<rparr>)) (\<lambda>_.
       error_out3 S T s (status_code AMQP_STATUS_SSL_PEER_VERIFY_FAILED))
     else and_then self (\<lambda>obj.
       and_then (if tls_verify obj then on_tls (amqp_ssl_socket_verify_hostname T s h) else ret 0) (\<lambda>inner_status.
       if inner_status \<noteq> 0 then
         and_then (set_self (\<lambda>obj. obj\<lparr>tls_error := 0\<rparr>)) (\<lambda>_. error_out3 S T s status)
       else and_then (set_self (\<lambda>obj. obj\<lparr>tls_error := 0\<rparr>)) (\<lambda>_. ret (status_code AMQP_STATUS_OK)))))
       (c\<lparr>ssl_conn.more := v\<rparr>) = (Ok 0, c')"
    using assms(1) unfolding check_peer_def by (elim and_then_OkE on_tls_OkE) auto
  have ok: "result = X509_V_OK" using rest by (auto split: if_splits dest: error_out_status(3))
  then obtain inner d where d: "(if tls_verify (ssl_self c) then on_tls (amqp_ssl_socket_verify_hostname T s h) else ret 0)
      (c\<lparr>ssl_conn.more := v\<rparr>) = (Ok inner, d)"
    and last_step: "(if inner \<noteq> 0 then error_out3 S T s status (d\<lparr>ssl_self := (ssl_self d)\<lparr>tls_error := 0\<rparr>\<rparr>)
      else (Ok 0, d\<lparr>ssl_self := (ssl_self d)\<lparr>tls_error := 0\<rparr>\<rparr>)) = (Ok 0, c')"
    using rest by (auto elim!: and_then_OkE split: if_splits)
  then have inner: "inner = 0" using assms(2) by (auto split: if_splits dest: error_out_status(3))
  show ?thesis
  proof (cases "tls_verify (ssl_self c)")
    case True
    with d inner obtain w where "amqp_ssl_socket_verify_hostname T s h v = (Ok 0, w)" "d = c\<lparr>ssl_conn.more := w\<rparr>"
      by (auto elim!: on_tls_OkE)
    with verify_hostname_zero [OF this(1)] v ok last_step inner show ?thesis
      by (auto intro: authenticatedI)
  qed (use d last_step inner in \<open>auto\<close>)
qed

lemma handshake_zero:
  assumes "handshake S T s h fd c = (Ok 0, c')"
  shows "tls_ssl (ssl_self c') = tls_ssl (ssl_self c) \<and> (tls_verify (ssl_self c) \<longrightarrow> authenticated T s h)"
  using assms unfolding handshake_def
  by (elim and_then_OkE on_tls_OkE)
    (auto split: if_splits elim!: and_then_OkE on_tls_OkE dest!: error_out_status(2) check_peer_zero)

lemma open_zero:
  assumes "amqp_ssl_socket_open S T h port c = (Ok 0, c')"
  shows "\<exists>s. tls_ssl (ssl_self c') = Some s \<and> (tls_verify (ssl_self c) \<longrightarrow> authenticated T s h)"
proof -
  obtain u r v where r: "ssl_new T (tls_ctx (ssl_self c)) u = (Ok r, v)"
    and rest: "(case r of
       None \<Rightarrow>
         and_then (on_tls (err_peek_error T)) (\<lambda>e.
         and_then (set_self (\<lambda>obj. obj\<lparr>tls_error := e\<rparr>)) (\<lambda>_.
         ret (status_code AMQP_STATUS_SSL_ERROR)))
     | Some s \<Rightarrow>
         and_then (on_tls (ssl_set_auto_retry T s)) (\<lambda>_.
         and_then (on_tls (amqp_open_socket S h port)) (\<lambda>fd.
         and_then (set_self (\<lambda>obj. obj\<lparr>tls_sockfd := fd\<rparr>)) (\<lambda>_.
         if fd < 0 then
           and_then (on_tls (os_errno T)) (\<lambda>e.
           and_then (set_self (\<lambda>obj. obj\<lparr>tls_error := e, tls_sockfd := - 1\<rparr>)) (\<lambda>_.
           error_out1 T s fd))
         else handshake S T s h fd))))
      (c\<lparr>ssl_conn.more := v, ssl_self := (ssl_self c)\<lparr>tls_ssl := r\<rparr>\<rparr>) = (Ok 0, c')"
    using assms unfolding amqp_ssl_socket_open_def
    by (elim and_then_OkE on_tls_OkE) auto
  show ?thesis
  proof (cases r)
    case None
    with rest show ?thesis by (auto elim!: and_then_OkE on_tls_OkE)
  next
    case (Some s)
    with rest obtain d fd where "handshake S T s h fd d = (Ok 0, c')"
      "tls_ssl (ssl_self d) = Some s" "tls_verify (ssl_self d) = tls_verify (ssl_self c)"
      by (auto elim!: and_then_OkE on_tls_OkE split: if_splits dest!: error_out_status(1))
    with handshake_zero [OF this(1)] show ?thesis by auto
  qed
qed

text \<open>The path to the end: every call but the last checks succeeds, as far as the code looks.\<close>

lemma open_run:
  assumes "err_clear_error T (ssl_conn.more c) = (Ok (), u0)"
    and "ssl_new T (tls_ctx (ssl_self c)) u0 = (Ok (Some s), u1)"
    and "ssl_set_auto_retry T s u1 = (Ok (), u2)"
    and "amqp_open_socket S h port u2 = (Ok fd, u3)" and "0 \<le> fd"
    and "ssl_set_fd T s fd u3 = (Ok k, u4)" and "k \<noteq> 0"
    and "ssl_connect T s u4 = (Ok r, u5)" and "r \<noteq> 0"
  shows "amqp_ssl_socket_open S T h port c = check_peer S T s h r
    (c\<lparr>ssl_self := (ssl_self c)\<lparr>tls_ssl := Some s, tls_sockfd := fd\<rparr>, ssl_conn.more := u5\<rparr>)"
  using assms by (simp add: amqp_ssl_socket_open_def handshake_def then_on_tls)

lemma error_out3_run:
  assumes "ssl_shutdown T s (ssl_conn.more c) = (Ok (), v)"
    and "amqp_os_socket_close S (tls_sockfd (ssl_self c)) v = (Ok q, w)" and "ssl_free T s w = (Ok (), x)"
  shows "error_out3 S T s status c =
    (Ok status, c\<lparr>ssl_conn.more := x, ssl_self := (ssl_self c)\<lparr>tls_sockfd := - 1\<rparr>\<rparr>)"
  using assms by (simp add: error_out3_def error_out2_def error_out1_def then_on_tls)

section \<open>Handles\<close>

definition dangling ::
    "('o \<Rightarrow> nat set) \<Rightarrow> 'o ssl_conn_scheme \<Rightarrow> bool" where
  "dangling allocated c \<longleftrightarrow> (\<exists>s. tls_ssl (ssl_self c) = Some s \<and> s \<notin> allocated (ssl_conn.more c))"

text \<open>
  The connections that OpenSSL has allocated and not freed.  \<^verbatim>\<open>SSL_free\<close> frees the handle it is given; a
  handle that is not allocated may not be used any more.
\<close>

locale tls_handles =
  fixes T :: "'o openssl" and allocated :: "'o \<Rightarrow> nat set"
  assumes freed: "s \<in> allocated u \<Longrightarrow> ssl_free T s u = (Ok (), v) \<Longrightarrow> s \<notin> allocated v"
    and dead: "s \<notin> allocated u \<Longrightarrow> fst (ssl_shutdown T s u) = Undef \<and> fst (ssl_free T s u) = Undef"
begin

lemma freed_afterwards: "ssl_free T s u = (Ok (), v) \<Longrightarrow> s \<notin> allocated v"
  using freed dead by (metis fst_conv outcome.distinct(5))

lemma error_outs_dangle:
  assumes "tls_ssl (ssl_self c) = Some s"
  shows "error_out1 T s status c = (Ok r, c') \<Longrightarrow> dangling allocated c'"
    and "error_out2 S T s status c = (Ok r, c') \<Longrightarrow> dangling allocated c'"
    and "error_out3 S T s status c = (Ok r, c') \<Longrightarrow> dangling allocated c'"
  using assms
  by (auto simp: error_out1_def error_out2_def error_out3_def dangling_def freed_afterwards
      elim!: and_then_OkE on_tls_OkE)

lemma check_peer_fails:
  assumes "tls_ssl (ssl_self c) = Some s" and "check_peer S T s h status c = (Ok r, c')" and "r \<noteq> 0"
  shows "dangling allocated c'"
  using assms unfolding check_peer_def
  by (elim and_then_OkE on_tls_OkE)
    (auto split: if_splits elim!: and_then_OkE on_tls_OkE dest!: error_outs_dangle(3) [rotated])

lemma handshake_fails:
  assumes "tls_ssl (ssl_self c) = Some s" and "handshake S T s h fd c = (Ok r, c')" and "r \<noteq> 0"
  shows "dangling allocated c'"
  using assms unfolding handshake_def
  by (elim and_then_OkE on_tls_OkE)
    (auto split: if_splits elim!: and_then_OkE on_tls_OkE dest!: error_outs_dangle(2) [rotated] check_peer_fails [rotated])

lemma open_fails:
  assumes "amqp_ssl_socket_open S T h port c = (Ok r, c')" and "r \<noteq> 0" and "tls_ssl (ssl_self c') \<noteq> None"
  shows "dangling allocated c'"
  using assms unfolding amqp_ssl_socket_open_def
  by (elim and_then_OkE on_tls_OkE)
    (auto split: if_splits option.splits elim!: and_then_OkE on_tls_OkE
      dest!: error_outs_dangle(1) [rotated] handshake_fails [rotated])

lemma dangling_close:
  assumes "dangling allocated c"
  shows "fst (amqp_ssl_socket_close S T c) = Undef" and "fst (amqp_ssl_socket_delete S T c) = Undef"
proof -
  obtain s where s: "tls_ssl (ssl_self c) = Some s" "s \<notin> allocated (ssl_conn.more c)"
    using assms by (auto simp: dangling_def)
  obtain r u where u: "ssl_shutdown T s (ssl_conn.more c) = (r, u)" by (cases "ssl_shutdown T s (ssl_conn.more c)")
  with dead [OF s(2)] have "r = Undef" by simp
  with u s have close: "amqp_ssl_socket_close S T c = (Undef, c\<lparr>ssl_conn.more := u\<rparr>)"
    by (simp add: amqp_ssl_socket_close_def and_then_def on_tls_run)
  then show "fst (amqp_ssl_socket_close S T c) = Undef" by simp
  show "fst (amqp_ssl_socket_delete S T c) = Undef"
    by (simp add: amqp_ssl_socket_delete_def and_then_def attempt_def close)
qed

end

section \<open>A library in miniature\<close>

text \<open>
  Handles are numbers in use; the peer's certificate carries the common name \<open>cn\<close>, the handshake gives \<open>r\<close>,
  and the host is found if \<open>found\<close>.
\<close>

record mini =
  handles :: "nat list"
  next_handle :: nat

definition use_handle :: "nat \<Rightarrow> (mini \<Rightarrow> mini) \<Rightarrow> (mini, unit) cm" where
  "use_handle s f = (\<lambda>u. if s \<in> set (handles u) then (Ok (), f u) else (Undef, u))"

definition mini_os :: "bool \<Rightarrow> mini os" where
  "mini_os found =
     \<lparr>sys_send = (\<lambda>_ bs _. ret (Inr (length bs))), sys_writev = (\<lambda>_ iov. ret (Inr (length (concat iov)))),
      sys_recv = (\<lambda>_ _ _. ret (Inr [])), sys_close = (\<lambda>_. ret (Inr ())), sys_socket = (\<lambda>_ _ _. ret (Inr 3)),
      sys_getfd = (\<lambda>_. ret (Inr 0)), sys_setfd = (\<lambda>_ _. ret (Inr ())), sys_setsockopt = (\<lambda>_ _ _. ret (Inr ())),
      sys_connect = (\<lambda>_ _. ret (Inr ())),
      sys_getaddrinfo = (\<lambda>_ _ _. ret (if found then
        Inr [\<lparr>ai_family = 2, ai_socktype = 1, ai_protocol = 6, ai_addr = [4]\<rparr>] else Inl (- 2))),
      sys_freeaddrinfo = (\<lambda>_. ret ()), msg_nosignal = None, msg_more = None, opt_nosigpipe = None\<rparr>"

definition mini_tls :: "bytes \<Rightarrow> int \<Rightarrow> mini openssl" where
  "mini_tls cn r =
     \<lparr>err_clear_error = ret (), err_peek_error = ret 1, os_errno = ret 2,
      ssl_ctx_new = ret (Some 1), ssl_ctx_free = (\<lambda>_. ret ()), ssl_ctx_load_verify_locations = (\<lambda>_ _. ret 1),
      ssl_ctx_use_certificate_chain_file = (\<lambda>_ _. ret 1), ssl_ctx_use_privatekey_file = (\<lambda>_ _. ret 1),
      ssl_ctx_use_rsaprivatekey = (\<lambda>_ _. ret 1), bio_new_mem_buf = (\<lambda>_. ret (Some 2)),
      pem_read_bio_rsaprivatekey = (\<lambda>_ _. ret (Some 3)), bio_vfree = (\<lambda>_. ret ()), rsa_free = (\<lambda>_. ret ()),
      ssl_new = (\<lambda>_ u. (Ok (Some (next_handle u)), \<lparr>handles = next_handle u # handles u, next_handle = next_handle u + 1\<rparr>)),
      ssl_set_auto_retry = (\<lambda>s. use_handle s (\<lambda>u. u)), ssl_set_fd = (\<lambda>_ _. ret 1), ssl_connect = (\<lambda>_. ret r),
      ssl_get_error = (\<lambda>_ _. ret 1), ssl_get_verify_result = (\<lambda>_. ret X509_V_OK),
      ssl_shutdown = (\<lambda>s. use_handle s (\<lambda>u. u)),
      ssl_free = (\<lambda>s. use_handle s (\<lambda>u. u\<lparr>handles := removeAll s (handles u)\<rparr>)),
      ssl_write = (\<lambda>_ _ n. ret n), ssl_read = (\<lambda>_ _. ret (Inl 0)),
      ssl_get_peer_certificate = (\<lambda>_. ret (Some 4)), x509_get_subject_name = (\<lambda>_. ret (Some 5)),
      x509_name_get_index_by_nid = (\<lambda>_ _. ret 0), x509_name_get_entry = (\<lambda>_ _. ret (Some 6)),
      x509_name_entry_get_data = (\<lambda>_. ret (Some 7)),
      asn1_string_to_utf8 = (\<lambda>_. ret (int (length cn), Some (8, cn @ [0]))), openssl_free = (\<lambda>_. ret ()),
      openssl_config = ret (), ssl_library_init = ret (), ssl_load_error_strings = ret (),
      thread_safety = True, init_mutex_lock = ret False, init_mutex_unlock = ret (), crypto_num_locks = 2,
      mutex_init = (\<lambda>_. ret False), mutex_lock = (\<lambda>_. ret False), mutex_unlock = (\<lambda>_. ret False),
      crypto_set_id_callback = (\<lambda>_. ret ()), crypto_set_locking_callback = (\<lambda>_. ret ())\<rparr>"

lemma mini_close [simp]: "sys_close (mini_os found) fd = ret (Inr ())"
  by (simp add: mini_os_def)

lemma mini_tls_simps:
  "err_clear_error (mini_tls cn r) = ret ()"
  "err_peek_error (mini_tls cn r) = ret 1"
  "os_errno (mini_tls cn r) = ret 2"
  "ssl_ctx_new (mini_tls cn r) = ret (Some 1)"
  "ssl_ctx_free (mini_tls cn r) = (\<lambda>_. ret ())"
  "ssl_ctx_load_verify_locations (mini_tls cn r) = (\<lambda>_ _. ret 1)"
  "ssl_ctx_use_certificate_chain_file (mini_tls cn r) = (\<lambda>_ _. ret 1)"
  "ssl_ctx_use_privatekey_file (mini_tls cn r) = (\<lambda>_ _. ret 1)"
  "ssl_ctx_use_rsaprivatekey (mini_tls cn r) = (\<lambda>_ _. ret 1)"
  "bio_new_mem_buf (mini_tls cn r) = (\<lambda>_. ret (Some 2))"
  "pem_read_bio_rsaprivatekey (mini_tls cn r) = (\<lambda>_ _. ret (Some 3))"
  "bio_vfree (mini_tls cn r) = (\<lambda>_. ret ())"
  "rsa_free (mini_tls cn r) = (\<lambda>_. ret ())"
  "ssl_new (mini_tls cn r) = (\<lambda>_ u. (Ok (Some (next_handle u)), \<lparr>handles = next_handle u # handles u, next_handle = next_handle u + 1\<rparr>))"
  "ssl_set_auto_retry (mini_tls cn r) = (\<lambda>s. use_handle s (\<lambda>u. u))"
  "ssl_set_fd (mini_tls cn r) = (\<lambda>_ _. ret 1)"
  "ssl_connect (mini_tls cn r) = (\<lambda>_. ret r)"
  "ssl_get_error (mini_tls cn r) = (\<lambda>_ _. ret 1)"
  "ssl_get_verify_result (mini_tls cn r) = (\<lambda>_. ret X509_V_OK)"
  "ssl_shutdown (mini_tls cn r) = (\<lambda>s. use_handle s (\<lambda>u. u))"
  "ssl_free (mini_tls cn r) = (\<lambda>s. use_handle s (\<lambda>u. u\<lparr>handles := removeAll s (handles u)\<rparr>))"
  "ssl_write (mini_tls cn r) = (\<lambda>_ _ n. ret n)"
  "ssl_read (mini_tls cn r) = (\<lambda>_ _. ret (Inl 0))"
  "ssl_get_peer_certificate (mini_tls cn r) = (\<lambda>_. ret (Some 4))"
  "x509_get_subject_name (mini_tls cn r) = (\<lambda>_. ret (Some 5))"
  "x509_name_get_index_by_nid (mini_tls cn r) = (\<lambda>_ _. ret 0)"
  "x509_name_get_entry (mini_tls cn r) = (\<lambda>_ _. ret (Some 6))"
  "x509_name_entry_get_data (mini_tls cn r) = (\<lambda>_. ret (Some 7))"
  "asn1_string_to_utf8 (mini_tls cn r) = (\<lambda>_. ret (int (length cn), Some (8, cn @ [0])))"
  "openssl_free (mini_tls cn r) = (\<lambda>_. ret ())"
  "openssl_config (mini_tls cn r) = ret ()"
  "ssl_library_init (mini_tls cn r) = ret ()"
  "ssl_load_error_strings (mini_tls cn r) = ret ()"
  "thread_safety (mini_tls cn r) = True"
  "init_mutex_lock (mini_tls cn r) = ret False"
  "init_mutex_unlock (mini_tls cn r) = ret ()"
  "crypto_num_locks (mini_tls cn r) = 2"
  "mutex_init (mini_tls cn r) = (\<lambda>_. ret False)"
  "mutex_lock (mini_tls cn r) = (\<lambda>_. ret False)"
  "mutex_unlock (mini_tls cn r) = (\<lambda>_. ret False)"
  "crypto_set_id_callback (mini_tls cn r) = (\<lambda>_. ret ())"
  "crypto_set_locking_callback (mini_tls cn r) = (\<lambda>_. ret ())"
  by (simp_all add: mini_tls_def)

lemma run_use_handle [simp]: "s \<in> set (handles u) \<Longrightarrow> use_handle s f u = (Ok (), f u)"
  by (simp add: use_handle_def)

lemma mini_handles: "tls_handles (mini_tls cn r) (\<lambda>u. set (handles u))"
  by unfold_locales (auto simp: mini_tls_def use_handle_def split: if_splits)

interpretation mini_lib: tls_handles "mini_tls (ascii ''localhost'') 1" "\<lambda>u. set (handles u)"
  by (rule mini_handles)

definition sample_tls :: "bool \<Rightarrow> mini ssl_conn_scheme" where
  "sample_tls verify = conn.extend sample_conn
     \<lparr>ssl_self = (fresh_object 1 (Some 1))\<lparr>tls_verify := verify\<rparr>, open_ssl_connections = 1,
      do_initialize_openssl = True, openssl_initialized = True, openssl_lockarray = Some 2,
      \<dots> = \<lparr>handles = [], next_handle = 1\<rparr>\<rparr>"

lemma sample_tls_simps [simp]:
  "ssl_self (sample_tls verify) = (fresh_object 1 (Some 1))\<lparr>tls_verify := verify\<rparr>"
  "ssl_conn.more (sample_tls verify) = \<lparr>handles = [], next_handle = 1\<rparr>"
  by (simp_all add: sample_tls_def conn.defs)

lemma mini_open_socket: "amqp_open_socket (mini_os found) h 5671 u =
    (Ok (if found then 3 else status_code AMQP_STATUS_HOSTNAME_RESOLUTION_FAILED), u)"
  by (simp add: amqp_open_socket_def sprintf_d_run and_then_Ok [OF sprintf_d_run] INT_MIN_def INT_MAX_def mini_os_def amqp_os_socket_socket_def
      prepare_socket_def amqp_os_socket_setsockopt_def succeeded_def and_then_def)

lemma mini_open:
  assumes "r \<noteq> 0"
  shows "amqp_ssl_socket_open (mini_os True) (mini_tls cn r) h 5671 (sample_tls verify) =
    check_peer (mini_os True) (mini_tls cn r) 1 h r
      ((sample_tls verify)\<lparr>ssl_self := (ssl_self (sample_tls verify))\<lparr>tls_ssl := Some 1, tls_sockfd := 3\<rparr>,
        ssl_conn.more := \<lparr>handles = [1], next_handle = 2\<rparr>\<rparr>)"
  using assms
  by (intro open_run [where ?u0.0 = "\<lparr>handles = [], next_handle = 1\<rparr>" and ?u1.0 = "\<lparr>handles = [1], next_handle = 2\<rparr>" and
      ?u2.0 = "\<lparr>handles = [1], next_handle = 2\<rparr>" and ?u3.0 = "\<lparr>handles = [1], next_handle = 2\<rparr>" and
      ?u4.0 = "\<lparr>handles = [1], next_handle = 2\<rparr>" and fd = 3 and k = 1])
    (simp_all add: mini_open_socket mini_tls_simps)

section \<open>Writing several pieces\<close>

definition tls_buffer_sound :: "'o ssl_conn_scheme \<Rightarrow> bool" where
  "tls_buffer_sound c \<longleftrightarrow> length (tls_buffer (ssl_self c)) = tls_length (ssl_self c) \<and> granting c \<and>
     (case tls_buffer_block (ssl_self c) of None \<Rightarrow> True | Some b \<Rightarrow> live c b \<noteq> None)"

lemma grow_tls_buffer_run:
  assumes "tls_buffer_sound c"
  shows "\<exists>d. grow_tls_buffer k c = (Ok (), d) \<and> k \<le> length (tls_buffer (ssl_self d)) \<and>
    ssl_conn.more d = ssl_conn.more c \<and> tls_ssl (ssl_self d) = tls_ssl (ssl_self c)"
proof (cases "tls_length (ssl_self c) < k")
  case True
  have "granting c" using assms by (simp add: tls_buffer_sound_def)
  then have g: "grants c i" for i by (simp add: granting_def)
  obtain b d where "c_realloc (tls_buffer_block (ssl_self c)) k c = (Ok (Some b), d)" "ssl_conn.more d = ssl_conn.more c"
    "ssl_self d = ssl_self c"
    using assms g by (cases "tls_buffer_block (ssl_self c)") (auto simp: tls_buffer_sound_def c_realloc_def c_malloc_def Let_def)
  then show ?thesis using True by (simp add: grow_tls_buffer_def and_then_Ok resized_def)
qed (use assms in \<open>simp add: grow_tls_buffer_def tls_buffer_sound_def\<close>)

text \<open>The pieces reach OpenSSL as one record: \<^verbatim>\<open>writev\<close> is \<^verbatim>\<open>send\<close> of their concatenation.\<close>

lemma tls_writev_is_one_send:
  assumes "tls_buffer_sound c"
  shows "\<exists>d. amqp_ssl_socket_writev T iov c = amqp_ssl_socket_send T (concat iov) d \<and>
    ssl_conn.more d = ssl_conn.more c \<and> tls_ssl (ssl_self d) = tls_ssl (ssl_self c)"
proof -
  obtain d where d: "grow_tls_buffer (length (concat iov)) c = (Ok (), d)" "length (concat iov) \<le> length (tls_buffer (ssl_self d))"
    "ssl_conn.more d = ssl_conn.more c" "tls_ssl (ssl_self d) = tls_ssl (ssl_self c)"
    using grow_tls_buffer_run [OF assms] by blast
  let ?d = "d\<lparr>ssl_self := (ssl_self d)\<lparr>tls_buffer := splice (tls_buffer (ssl_self d)) 0 (concat iov)\<rparr>\<rparr>"
  have "take (length (concat iov)) (splice (tls_buffer (ssl_self d)) 0 (concat iov)) = concat iov" by (simp add: splice_def)
  with d(1,2) have "amqp_ssl_socket_writev T iov c = amqp_ssl_socket_send T (concat iov) ?d"
    by (simp add: amqp_ssl_socket_writev_def and_then_Ok)
  with d(3,4) show ?thesis by (intro exI [of _ ?d]) simp
qed

text \<open>The tests on a name that is printable, not too long and terminated.\<close>

lemma name_matches_terminated:
  assumes "cn \<noteq> [] \<and> length cn < 256 \<and> (\<forall>ch\<in>set cn. ch \<noteq> 0 \<and> isprint ch)"
  shows "name_matches h (int (length cn)) (cn @ [0]) = Some (map tolower cn = map tolower (amqp_cstring_bytes h))"
proof -
  have "strip_zeros (length cn) (cn @ [0]) = length cn"
    using assms by (cases cn rule: rev_cases) (auto simp: nth_append)
  moreover have "amqp_cstring_bytes (cn @ [0]) = cn"
    using assms by (auto simp: amqp_cstring_bytes_def)
  ultimately show ?thesis
    using assms by (auto simp: name_matches_def strcasecmp_equal_def)
qed

lemma local_host: "ascii ''LocalHost'' \<noteq> [] \<and> length (ascii ''LocalHost'') < 256 \<and> (\<forall>ch\<in>set (ascii ''LocalHost''). ch \<noteq> 0 \<and> isprint ch)"
  by (simp add: ascii_def isprint_def)

section \<open>Properties\<close>



text \<open>
  Errors that \<^verbatim>\<open>amqp_ssl_socket_open\<close> does not report.  Once \<^verbatim>\<open>SSL_connect\<close> has given a result \<open>r\<close> other than 0
  (1 is success, a negative number a failed handshake) and the verification of the chain shows no error, a
  host name that does not match is not reported as \<^verbatim>\<open>AMQP_STATUS_SSL_HOSTNAME_VERIFY_FAILED\<close> but as \<open>r\<close>: after a
  good handshake as 1, which is no error code.  With verification off the result is \<^verbatim>\<open>AMQP_STATUS_OK\<close> whatever
  \<open>r\<close> is: a handshake that failed counts as an open connection.
\<close>

theorem tls_open_hides_errors:
  assumes "err_clear_error T (ssl_conn.more c) = (Ok (), u0)"
    and "ssl_new T (tls_ctx (ssl_self c)) u0 = (Ok (Some s), u1)"
    and "ssl_set_auto_retry T s u1 = (Ok (), u2)"
    and "amqp_open_socket S h port u2 = (Ok fd, u3)" and "0 \<le> fd"
    and "ssl_set_fd T s fd u3 = (Ok k, u4)" and "k \<noteq> 0"
    and "ssl_connect T s u4 = (Ok r, u5)" and "r \<noteq> 0"
    and "ssl_get_verify_result T s u5 = (Ok X509_V_OK, u6)"
    and "amqp_ssl_socket_verify_hostname T s h u6 = (Ok v, u7)" and "v \<noteq> 0"
    and "ssl_shutdown T s u7 = (Ok (), u8)" and "amqp_os_socket_close S fd u8 = (Ok q, u9)" and "ssl_free T s u9 = (Ok (), u10)"
  shows "\<exists>c'. amqp_ssl_socket_open S T h port c = (Ok (if tls_verify (ssl_self c) then r else 0), c')"
proof -
  have run: "amqp_ssl_socket_open S T h port c = check_peer S T s h r
      (c\<lparr>ssl_self := (ssl_self c)\<lparr>tls_ssl := Some s, tls_sockfd := fd\<rparr>, ssl_conn.more := u5\<rparr>)"
    by (rule open_run [OF assms(1-9)])
  show ?thesis
  proof (cases "tls_verify (ssl_self c)")
    case True
    then show ?thesis
      unfolding run check_peer_def
      using assms(10-15) by (simp add: then_on_tls error_out3_run)
  next
    case False
    then show ?thesis
      unfolding run check_peer_def using assms(10) by (simp add: then_on_tls)
  qed
qed

theorem tls_open_hides_errors_witness:
  "(\<exists>c'. amqp_ssl_socket_open (mini_os True) (mini_tls (ascii ''evil'') 1) (ascii ''localhost'') 5671 (sample_tls True) = (Ok 1, c')) \<and>
   (\<exists>c'. amqp_ssl_socket_open (mini_os True) (mini_tls (ascii ''evil'') (- 1)) (ascii ''localhost'') 5671 (sample_tls False) = (Ok 0, c'))"
proof -
  let ?h = "ascii ''localhost''" and ?u = "\<lparr>handles = [1], next_handle = 2\<rparr>"
  have evil: "ascii ''evil'' \<noteq> [] \<and> length (ascii ''evil'') < 256 \<and> (\<forall>ch\<in>set (ascii ''evil''). ch \<noteq> 0 \<and> isprint ch)"
    by (simp add: ascii_def isprint_def)
  have "name_matches ?h (int (length (ascii ''evil''))) (ascii ''evil'' @ [0]) = Some False"
    by (simp only: name_matches_terminated [OF evil]) (simp add: ascii_def amqp_cstring_bytes_def tolower_def)
  then have v: "amqp_ssl_socket_verify_hostname (mini_tls (ascii ''evil'') r) 1 ?h ?u = (Ok (- 1), ?u)" for r
    by (simp add: amqp_ssl_socket_verify_hostname_def peer_common_name_def unless_null_def mini_tls_simps and_then_def)
  have "\<exists>c'. amqp_ssl_socket_open (mini_os True) (mini_tls (ascii ''evil'') r) ?h 5671 (sample_tls verify) = (Ok (if verify then r else 0), c')"
    if "r \<noteq> 0" for r verify
    using tls_open_hides_errors [of "mini_tls (ascii ''evil'') r" "sample_tls verify" "\<lparr>handles = [], next_handle = 1\<rparr>" 1 ?u ?u
        "mini_os True" ?h 5671 3 ?u 1 ?u r ?u ?u "- 1" ?u ?u "Inr ()" ?u "\<lparr>handles = [], next_handle = 2\<rparr>"] that v
    by (simp add: mini_open_socket fresh_object_def mini_tls_simps amqp_os_socket_close_def)
  from this [of 1 True] this [of "- 1" False] show ?thesis by simp
qed

text \<open>
  An open that fails leaves a dangling handle.  \<^verbatim>\<open>amqp_ssl_socket_open\<close> frees the \<^verbatim>\<open>SSL\<close> object on every error
  path but keeps the pointer to it: whichever call fails after \<^verbatim>\<open>SSL_new\<close>, closing or deleting the socket then
  uses the freed object and frees it again.
\<close>

theorem failed_tls_open_frees_twice:
  assumes "tls_handles T allocated" and "amqp_ssl_socket_open S T h port c = (Ok r, c')" and "r \<noteq> 0"
    and "tls_ssl (ssl_self c') \<noteq> None"
  shows "fst (amqp_ssl_socket_close S T c') = Undef \<and> fst (amqp_ssl_socket_delete S T c') = Undef"
  using tls_handles.dangling_close [OF assms(1) tls_handles.open_fails [OF assms]] by blast

theorem failed_tls_open_frees_twice_witness:
  "\<exists>c'. amqp_ssl_socket_open (mini_os False) (mini_tls (ascii ''localhost'') 1) (ascii ''localhost'') 5671 (sample_tls True) =
      (Ok (status_code AMQP_STATUS_HOSTNAME_RESOLUTION_FAILED), c') \<and>
    fst (amqp_ssl_socket_close (mini_os False) (mini_tls (ascii ''localhost'') 1) c') = Undef"
proof -
  let ?h = "ascii ''localhost''"
  let ?T = "mini_tls ?h 1"
  have "\<exists>c'. amqp_ssl_socket_open (mini_os False) ?T ?h 5671 (sample_tls True) =
      (Ok (status_code AMQP_STATUS_HOSTNAME_RESOLUTION_FAILED), c') \<and> tls_ssl (ssl_self c') = Some 1"
    unfolding amqp_ssl_socket_open_def error_out1_def
    by (simp add: on_tls_def and_then_def mini_open_socket mini_tls_simps fresh_object_def)
  then obtain c' where run: "amqp_ssl_socket_open (mini_os False) ?T ?h 5671 (sample_tls True) =
      (Ok (status_code AMQP_STATUS_HOSTNAME_RESOLUTION_FAILED), c')" "tls_ssl (ssl_self c') = Some 1" by blast
  then show ?thesis
    using failed_tls_open_frees_twice [OF mini_handles run(1)] by (auto simp: status_code_def)
qed

text \<open>Success of \<^verbatim>\<open>amqp_ssl_socket_set_key_buffer\<close> is reported as OpenSSL's 1, not as the 0 of the header.\<close>

lemma key_buffer_success_is_one:
  "fst (amqp_ssl_socket_set_key_buffer True (mini_tls cn r) cert key (sample_tls verify)) = Ok 1"
  by (simp add: amqp_ssl_socket_set_key_buffer_def checked_def ssl_status_def on_tls_def and_then_def mini_tls_def)
end
