(* ===== verification/Tools.thy ===== *)
theory Tools
  imports Api Url
begin

text \<open>
  The command-line tools under \<^verbatim>\<open>src/native/rabbitmq-c/tools\<close>: the functions they share (\<^verbatim>\<open>common.c\<close>) and
  the work of \<^verbatim>\<open>amqp-get\<close>, \<^verbatim>\<open>amqp-publish\<close> and \<^verbatim>\<open>amqp-consume\<close>.  They sit on the library as an application does.

  A tool that cannot go on prints a message and ends the process with status 1 (\<^verbatim>\<open>die\<close>); a function that may do
  so returns \<open>Inl\<close> with the constant part of the message.  Reading and writing a descriptor, and running a
  command, are parameters.  The \<^verbatim>\<open>main\<close> functions, which parse options with popt, are not modelled.
\<close>

section \<open>Giving up\<close>

definition die :: "string \<Rightarrow> ('s, string + 'a) cm" where
  "die msg = ret (Inl msg)"

definition alive :: "'a \<Rightarrow> ('s, string + 'a) cm" where
  "alive a = ret (Inr a)"

definition while_alive :: "('s, string + 'a) cm \<Rightarrow> ('a \<Rightarrow> ('s, string + 'b) cm) \<Rightarrow> ('s, string + 'b) cm" where
  "while_alive m f = and_then m (\<lambda>r. case r of Inl msg \<Rightarrow> ret (Inl msg) | Inr a \<Rightarrow> f a)"

text \<open>\<^verbatim>\<open>die_amqp_error(res, fmt)\<close> on the status of a call of the library.\<close>

definition die_amqp_error :: "('s, 'a) cm \<Rightarrow> string \<Rightarrow> ('s, string + 'a) cm" where
  "die_amqp_error m msg = and_then (catching m) (\<lambda>r. case r of Inl e \<Rightarrow> die msg | Inr a \<Rightarrow> alive a)"

text \<open>An \<^verbatim>\<open>errno\<close> of 0 is passed over.\<close>

definition die_errno :: "int \<Rightarrow> string \<Rightarrow> ('s, string + unit) cm" where
  "die_errno err msg = (if err = 0 then alive () else die msg)"

text \<open>
  \<^verbatim>\<open>"%.*s"\<close>: up to the precision, or up to a zero byte before it; a negative precision counts as none, and
  the bytes need not end in zero.
\<close>

definition printf_bytes :: "bytes \<Rightarrow> ('s, bytes) cm" where
  "printf_bytes bs = (if length bs < 2 ^ 31 then ret (amqp_cstring_bytes bs) else undef)"

definition hex_digit :: "nat \<Rightarrow> u8" where
  "hex_digit d = word_of_nat (if d < 10 then 48 + d else 55 + d)"

text \<open>\<^verbatim>\<open>"%08X"\<close>.\<close>

definition printf_08X :: "u32 \<Rightarrow> bytes" where
  "printf_08X w = map (\<lambda>i. hex_digit (unat (drop_bit (4 * (7 - i)) w AND 15))) [0..<8]"

definition snprintf_512 :: "bytes \<Rightarrow> bytes" where
  "snprintf_512 text = take 511 text"

definition amqp_server_exception_string :: "amqp_rpc_reply \<Rightarrow> ('s, bytes) cm" where
  "amqp_server_exception_string r =
     (if reply_id r = AMQP_CONNECTION_CLOSE_METHOD then
        (case reply_decoded r of
           Some (amqp_connection_close_t reply_code reply_text _ _) \<Rightarrow>
             and_then (printf_bytes reply_text) (\<lambda>text.
             ret (snprintf_512 (ascii ''server connection error '' @ decimal (uint reply_code) @ ascii '', message: '' @ text)))
         | _ \<Rightarrow> undef)
      else if reply_id r = AMQP_CHANNEL_CLOSE_METHOD then
        (case reply_decoded r of
           Some (amqp_channel_close_t reply_code reply_text _ _) \<Rightarrow>
             and_then (printf_bytes reply_text) (\<lambda>text.
             ret (snprintf_512 (ascii ''server channel error '' @ decimal (uint reply_code) @ ascii '', message: '' @ text)))
         | _ \<Rightarrow> undef)
      else ret (snprintf_512 (ascii ''unknown server error, method id 0x'' @ printf_08X (reply_id r))))"

definition amqp_rpc_reply_string :: "amqp_rpc_reply \<Rightarrow> ('s, bytes) cm" where
  "amqp_rpc_reply_string r = (case reply_type r of
       AMQP_RESPONSE_NORMAL \<Rightarrow> ret (ascii ''normal response'')
     | AMQP_RESPONSE_NONE \<Rightarrow> ret (ascii ''missing RPC reply type'')
     | AMQP_RESPONSE_LIBRARY_EXCEPTION \<Rightarrow>
         (case amqp_error_string2 (status_code (library_error r)) of None \<Rightarrow> undef | Some s \<Rightarrow> ret (ascii s))
     | AMQP_RESPONSE_SERVER_EXCEPTION \<Rightarrow> amqp_server_exception_string r)"

definition die_rpc :: "amqp_rpc_reply \<Rightarrow> string \<Rightarrow> ('s, string + unit) cm" where
  "die_rpc r msg = (if reply_type r = AMQP_RESPONSE_NORMAL then alive ()
     else and_then (amqp_rpc_reply_string r) (\<lambda>_. die msg))"

section \<open>Connection options\<close>

text \<open>The memory for the copies of the URL and the host name is taken to be there.\<close>

record connect_options =
  opt_url :: "bytes option"
  opt_server :: "bytes option"
  opt_port :: int
  opt_vhost :: "bytes option"
  opt_username :: "bytes option"
  opt_password :: "bytes option"
  opt_ssl :: bool

definition parse_url_option :: "connect_options \<Rightarrow> (url_state, string + unit) cm" where
  "parse_url_option opts = (case opt_url opts of None \<Rightarrow> alive ()
     | Some url \<Rightarrow>
         and_then (modify (\<lambda>s. s\<lparr>url_text := amqp_cstring_bytes url @ [0]\<rparr>)) (\<lambda>_.
         die_amqp_error amqp_parse_url ''Parsing URL''))"

text \<open>The part of the server option behind a colon, a port in decimal, is stored in an \<^verbatim>\<open>int\<close> before it is tested.\<close>

definition int_of_long :: "int \<Rightarrow> int" where
  "int_of_long v = (v + 2 ^ 31) mod 2 ^ 32 - 2 ^ 31"

definition server_with_port :: "connect_options \<Rightarrow> bytes \<Rightarrow> bytes \<Rightarrow> (url_state, string + unit) cm" where
  "server_with_port opts hostname rest =
     and_then (set_parsed (\<lambda>i. i\<lparr>ci_host := Literal hostname\<rparr>)) (\<lambda>_.
     and_then get (\<lambda>s.
     if 0 \<le> ci_port (parsed s) then die ''both --server and --url options specify server port''
     else if 0 \<le> opt_port opts then die ''both --server and --port options specify server port''
     else case strtol rest of (v, port_end) \<Rightarrow>
       and_then (set_parsed (\<lambda>i. i\<lparr>ci_port := int_of_long v\<rparr>)) (\<lambda>_.
       if int_of_long v < 0 \<or> 65535 < int_of_long v \<or> port_end = 0 \<or> port_end \<noteq> length rest
       then die ''bad server port number'' else alive ())))"

definition server_option :: "bool \<Rightarrow> connect_options \<Rightarrow> (url_state, string + unit) cm" where
  "server_option with_ssl opts = (case opt_server opts of None \<Rightarrow> alive ()
     | Some server \<Rightarrow> and_then get (\<lambda>s.
         if ci_host (parsed s) \<noteq> Null then die ''both --server and --url options specify server host''
         else
           let cs = amqp_cstring_bytes server; hostname = takeWhile (\<lambda>c. c \<noteq> COLON) cs in
           while_alive (if COLON \<in> set cs then server_with_port opts hostname (drop (length hostname + 1) cs) else alive ()) (\<lambda>_.
           and_then get (\<lambda>s.
           if with_ssl \<and> opt_ssl opts \<and> \<not> ci_ssl (parsed s)
           then die ''the --ssl option specifies an SSL connection but the --server option does not''
           else alive ()))))"

definition string_option ::
    "bytes option \<Rightarrow> (amqp_connection_info \<Rightarrow> char_ptr) \<Rightarrow> (bytes \<Rightarrow> amqp_connection_info \<Rightarrow> amqp_connection_info) \<Rightarrow>
     string \<Rightarrow> (url_state, string + unit) cm" where
  "string_option opt field assign msg = (case opt of None \<Rightarrow> alive ()
     | Some v \<Rightarrow> and_then get (\<lambda>s. if field (parsed s) \<noteq> Null then die msg
         else and_then (set_parsed (assign v)) (\<lambda>_. alive ())))"

definition port_option :: "connect_options \<Rightarrow> (url_state, string + unit) cm" where
  "port_option opts = (if 0 \<le> opt_port opts then and_then get (\<lambda>s.
       if 0 \<le> ci_port (parsed s) then die ''both --port and --url options specify server port''
       else and_then (set_parsed (\<lambda>i. i\<lparr>ci_port := opt_port opts\<rparr>)) (\<lambda>_. alive ()))
     else alive ())"

definition init_connection_info :: "bool \<Rightarrow> connect_options \<Rightarrow> (url_state, string + unit) cm" where
  "init_connection_info with_ssl opts =
     and_then (set_parsed (\<lambda>i. i\<lparr>ci_user := Null, ci_password := Null, ci_host := Null, ci_port := - 1, ci_vhost := Null\<rparr>)) (\<lambda>_.
     and_then (set_parsed (\<lambda>_. amqp_default_connection_info)) (\<lambda>_.
     while_alive (parse_url_option opts) (\<lambda>_.
     while_alive (server_option with_ssl opts) (\<lambda>_.
     while_alive (port_option opts) (\<lambda>_.
     while_alive (string_option (opt_username opts) ci_user (\<lambda>v i. i\<lparr>ci_user := Literal v\<rparr>)
       ''both --username and --url options specify AMQP username'') (\<lambda>_.
     while_alive (string_option (opt_password opts) ci_password (\<lambda>v i. i\<lparr>ci_password := Literal v\<rparr>)
       ''both --password and --url options specify AMQP password'') (\<lambda>_.
     string_option (opt_vhost opts) ci_vhost (\<lambda>v i. i\<lparr>ci_vhost := Literal v\<rparr>)
       ''both --vhost and --url options specify AMQP vhost'')))))))"

section \<open>Descriptors\<close>

text \<open>
  \<open>R fd k\<close> reads at most \<open>k\<close> bytes, none at the end of the file, and \<open>W fd bs\<close> gives the number of bytes
  written; the failures carry \<^verbatim>\<open>errno\<close>.
\<close>

primrec read_rounds ::
    "nat \<Rightarrow> (int \<Rightarrow> nat \<Rightarrow> ('a heap_scheme, int + bytes) cm) \<Rightarrow> int \<Rightarrow> nat \<Rightarrow> nat option \<Rightarrow> bytes \<Rightarrow>
     ('a heap_scheme, string + (nat option \<times> bytes)) cm" where
  "read_rounds 0 R fd space block bs = out_of_fuel"
| "read_rounds (Suc n) R fd space block bs =
     (if block = None then undef
      else and_then (R fd (space - length bs)) (\<lambda>r. case r of
        Inl err \<Rightarrow>
          if err = 4 then read_rounds n R fd space block bs
          else and_then (die_errno err ''reading'') (\<lambda>d. case d of Inl msg \<Rightarrow> ret (Inl msg) | Inr _ \<Rightarrow> undef)
      | Inr more_bytes \<Rightarrow>
          if more_bytes = [] then alive (block, bs)
          else if length (bs @ more_bytes) = space then
            and_then (c_realloc block (space * 2)) (\<lambda>block'. read_rounds n R fd (space * 2) block' (bs @ more_bytes))
          else read_rounds n R fd space block (bs @ more_bytes)))"

definition read_all ::
    "nat \<Rightarrow> (int \<Rightarrow> nat \<Rightarrow> ('a heap_scheme, int + bytes) cm) \<Rightarrow> int \<Rightarrow>
     ('a heap_scheme, string + (nat option \<times> bytes)) cm" where
  "read_all n R fd = and_then (c_malloc 4096) (\<lambda>block. read_rounds n R fd 4096 block [])"

primrec write_all :: "nat \<Rightarrow> (int \<Rightarrow> bytes \<Rightarrow> ('s, int + nat) cm) \<Rightarrow> int \<Rightarrow> bytes \<Rightarrow> ('s, string + unit) cm" where
  "write_all 0 W fd bs = out_of_fuel"
| "write_all (Suc n) W fd bs =
     (if bs = [] then alive ()
      else and_then (W fd bs) (\<lambda>r. case r of
        Inl err \<Rightarrow> and_then (die_errno err ''write'') (\<lambda>d. case d of Inl msg \<Rightarrow> ret (Inl msg) | Inr _ \<Rightarrow> undef)
      | Inr k \<Rightarrow> if length bs < k then undef else write_all n W fd (drop k bs)))"

section \<open>Bodies of messages\<close>

text \<open>The rest of the body is a \<^verbatim>\<open>size_t\<close>: a fragment longer than the rest makes it wrap.\<close>

primrec copy_fragments ::
    "nat \<Rightarrow> nat \<Rightarrow> 'a conn_scheme platform \<Rightarrow> (int \<Rightarrow> bytes \<Rightarrow> ('a conn_scheme, int + nat) cm) \<Rightarrow> int \<Rightarrow> nat \<Rightarrow>
     ('a conn_scheme, string + unit) cm" where
  "copy_fragments 0 n P W fd body_remaining = out_of_fuel"
| "copy_fragments (Suc k) n P W fd body_remaining =
     (if body_remaining = 0 then alive ()
      else while_alive (die_amqp_error (amqp_simple_wait_frame n P) ''waiting for body frame'') (\<lambda>frame.
        if frame_type frame \<noteq> 3 then die ''expected body''
        else case frame_payload frame of
          Body_payload fragment \<Rightarrow>
            while_alive (write_all n W fd fragment) (\<lambda>_.
            copy_fragments k n P W fd (size_minus body_remaining (length fragment)))
        | _ \<Rightarrow> undef))"

definition copy_body ::
    "nat \<Rightarrow> nat \<Rightarrow> 'a conn_scheme platform \<Rightarrow> (int \<Rightarrow> bytes \<Rightarrow> ('a conn_scheme, int + nat) cm) \<Rightarrow> int \<Rightarrow>
     ('a conn_scheme, string + unit) cm" where
  "copy_body k n P W fd =
     while_alive (die_amqp_error (amqp_simple_wait_frame n P) ''waiting for header frame'') (\<lambda>frame.
     if frame_type frame \<noteq> 2 then die ''expected header''
     else case frame_payload frame of
       Properties_payload class_id body_size decoded \<Rightarrow> copy_fragments k n P W fd (unat body_size)
     | _ \<Rightarrow> undef)"

definition cstring_bytes :: "bytes option \<Rightarrow> bytes" where
  "cstring_bytes str = (case str of None \<Rightarrow> [] | Some s \<Rightarrow> amqp_cstring_bytes s)"


section \<open>Opening and closing a session\<close>

text \<open>\<^verbatim>\<open>if (!call) die_rpc(amqp_get_rpc_reply(conn), msg)\<close>.\<close>

definition or_die_rpc ::
    "('a conn_scheme, 'b option) cm \<Rightarrow> string \<Rightarrow> ('a conn_scheme, string + 'b option) cm" where
  "or_die_rpc m msg = and_then m (\<lambda>r.
     if r = None then while_alive (and_then amqp_get_rpc_reply (\<lambda>reply. die_rpc reply msg)) (\<lambda>_. alive r)
     else alive r)"

text \<open>The part of \<^verbatim>\<open>make_connection\<close> from \<^verbatim>\<open>amqp_socket_open\<close> on.\<close>

definition open_session ::
    "nat \<Rightarrow> 'a conn_scheme platform \<Rightarrow> bytes \<Rightarrow> int \<Rightarrow> bytes \<Rightarrow> bytes \<Rightarrow> bytes \<Rightarrow> ('a conn_scheme, string + unit) cm" where
  "open_session n P hostname port vhost user password =
     and_then (amqp_socket_open (socket P) hostname port) (\<lambda>status.
     if status \<noteq> 0 then die ''opening socket to''
     else while_alive (and_then (amqp_login n P vhost 0 131072 0 AMQP_SASL_METHOD_PLAIN [user, password])
         (\<lambda>r. die_rpc r ''logging in to AMQP server'')) (\<lambda>_.
       while_alive (or_die_rpc (amqp_channel_open n P 1) ''opening channel'') (\<lambda>_. alive ())))"

definition close_connection :: "nat \<Rightarrow> 'a conn_scheme platform \<Rightarrow> ('a conn_scheme, string + unit) cm" where
  "close_connection n P =
     while_alive (and_then (amqp_channel_close n P 1 AMQP_REPLY_SUCCESS) (\<lambda>r. die_rpc r ''closing channel'')) (\<lambda>_.
     while_alive (and_then (amqp_connection_close n P AMQP_REPLY_SUCCESS) (\<lambda>r. die_rpc r ''closing connection'')) (\<lambda>_.
     die_amqp_error (amqp_destroy_connection P) ''closing connection''))"

section \<open>Getting\<close>

definition do_get ::
    "nat \<Rightarrow> nat \<Rightarrow> 'a conn_scheme platform \<Rightarrow> (int \<Rightarrow> bytes \<Rightarrow> ('a conn_scheme, int + nat) cm) \<Rightarrow> bytes option \<Rightarrow>
     ('a conn_scheme, string + bool) cm" where
  "do_get k n P W queue =
     and_then (amqp_basic_get n P 1 (cstring_bytes queue) True) (\<lambda>r.
     while_alive (die_rpc r ''basic.get'') (\<lambda>_.
     if reply_id r = AMQP_BASIC_GET_EMPTY_METHOD then alive False
     else while_alive (copy_body k n P W 1) (\<lambda>_. alive True)))"

section \<open>Publishing\<close>

definition do_publish ::
    "nat \<Rightarrow> 'a conn_scheme platform \<Rightarrow> bytes option \<Rightarrow> bytes option \<Rightarrow> amqp_basic_properties \<Rightarrow> bytes \<Rightarrow>
     ('a conn_scheme, string + unit) cm" where
  "do_publish n P exchange routing_key props body =
     die_amqp_error (amqp_basic_publish n P 1 (cstring_bytes exchange) (cstring_bytes routing_key) False False
       (Some props) body) ''basic.publish''"

definition MAX_LINE_LENGTH :: nat where "MAX_LINE_LENGTH = 1024 * 32"

text \<open>The option for the delivery mode does not get here.\<close>

definition publish_properties ::
    "int \<Rightarrow> bytes option \<Rightarrow> bytes option \<Rightarrow> bytes option \<Rightarrow> amqp_basic_properties" where
  "publish_properties delivery content_type content_encoding reply_to =
     (let p = no_properties\<lparr>p_flags := AMQP_BASIC_DELIVERY_MODE_FLAG, p_delivery_mode := 2\<rparr>;
          p = (case content_type of None \<Rightarrow> p | Some v \<Rightarrow>
            p\<lparr>p_flags := p_flags p OR AMQP_BASIC_CONTENT_TYPE_FLAG, p_content_type := amqp_cstring_bytes v\<rparr>);
          p = (case content_encoding of None \<Rightarrow> p | Some v \<Rightarrow>
            p\<lparr>p_flags := p_flags p OR AMQP_BASIC_CONTENT_ENCODING_FLAG, p_content_encoding := amqp_cstring_bytes v\<rparr>)
      in case reply_to of None \<Rightarrow> p | Some v \<Rightarrow>
            p\<lparr>p_flags := p_flags p OR AMQP_BASIC_REPLY_TO_FLAG, p_reply_to := amqp_cstring_bytes v\<rparr>)"

text \<open>\<open>G k\<close> is \<^verbatim>\<open>fgets\<close> on the standard input with a buffer of \<open>k\<close> bytes.\<close>

primrec publish_lines ::
    "nat \<Rightarrow> nat \<Rightarrow> 'a conn_scheme platform \<Rightarrow> (nat \<Rightarrow> ('a conn_scheme, bytes option) cm) \<Rightarrow>
     (bytes \<Rightarrow> ('a conn_scheme, string + unit) cm) \<Rightarrow> ('a conn_scheme, string + unit) cm" where
  "publish_lines 0 n P G publish = out_of_fuel"
| "publish_lines (Suc k) n P G publish =
     and_then (G MAX_LINE_LENGTH) (\<lambda>r. case r of
       None \<Rightarrow> alive ()
     | Some line \<Rightarrow> while_alive (publish (amqp_cstring_bytes line)) (\<lambda>_. publish_lines k n P G publish))"

text \<open>The part of \<^verbatim>\<open>main\<close> between making and closing the connection.\<close>

definition publish_input ::
    "nat \<Rightarrow> nat \<Rightarrow> 'a conn_scheme platform \<Rightarrow> (nat \<Rightarrow> ('a conn_scheme, bytes option) cm) \<Rightarrow>
     (int \<Rightarrow> nat \<Rightarrow> ('a conn_scheme, int + bytes) cm) \<Rightarrow> bytes option \<Rightarrow> bool \<Rightarrow> bytes option \<Rightarrow> bytes option \<Rightarrow>
     amqp_basic_properties \<Rightarrow> ('a conn_scheme, string + unit) cm" where
  "publish_input k n P G R body line_buffered exchange routing_key props =
     (let publish = do_publish n P exchange routing_key props in
      case body of
        Some text \<Rightarrow> if line_buffered then alive () else publish (amqp_cstring_bytes text)
      | None \<Rightarrow>
          if line_buffered then
            and_then (c_malloc MAX_LINE_LENGTH) (\<lambda>block.
            if block = None then undef
            else while_alive (publish_lines k n P G publish) (\<lambda>_. and_then (c_free block) (\<lambda>_. alive ())))
          else
            while_alive (read_all k R 0) (\<lambda>(block, bs).
            while_alive (publish bs) (\<lambda>_. and_then (c_free block) (\<lambda>_. alive ()))))"

section \<open>Declaring and deleting a queue\<close>

text \<open>The part of the two \<^verbatim>\<open>main\<close> functions on the connection; the result is the line they print.\<close>

definition declare_queue ::
    "nat \<Rightarrow> 'a conn_scheme platform \<Rightarrow> bytes \<Rightarrow> bool \<Rightarrow> ('a conn_scheme, string + bytes) cm" where
  "declare_queue n P queue durable =
     while_alive (or_die_rpc (amqp_queue_declare n P 1 (amqp_cstring_bytes queue) False durable False False [])
       ''queue.declare'') (\<lambda>reply. case reply of
       Some (amqp_queue_declare_ok_t q _ _) \<Rightarrow> and_then (printf_bytes q) alive
     | _ \<Rightarrow> undef)"

definition delete_queue ::
    "nat \<Rightarrow> 'a conn_scheme platform \<Rightarrow> bytes \<Rightarrow> bool \<Rightarrow> bool \<Rightarrow> ('a conn_scheme, string + bytes) cm" where
  "delete_queue n P queue if_unused if_empty =
     while_alive (or_die_rpc (amqp_queue_delete n P 1 (amqp_cstring_bytes queue) if_unused if_empty)
       ''queue.delete'') (\<lambda>reply. case reply of
       Some (amqp_queue_delete_ok_t message_count) \<Rightarrow> alive (decimal (uint message_count))
     | _ \<Rightarrow> undef)"

section \<open>Consuming\<close>

text \<open>
  The block has four characters for each byte and one for the end; \<^verbatim>\<open>malloc\<close> is not checked, and the string
  is written without regard to the size.
\<close>

definition escape_byte :: "u8 \<Rightarrow> bytes" where
  "escape_byte b = (if 32 \<le> b \<and> b \<noteq> 127 then [b]
     else [92, 48 + drop_bit 6 b, 48 + (drop_bit 3 b AND 7), 48 + (b AND 7)])"

definition stringify_bytes :: "bytes \<Rightarrow> ('a heap_scheme, nat option \<times> bytes) cm" where
  "stringify_bytes bs =
     (let space = (length bs * 4 + 1) mod 2 ^ 64; res = concat (map escape_byte bs) @ [0] in
      and_then (c_malloc space) (\<lambda>block.
      if block = None \<or> space < length res then undef else ret (block, res)))"

definition MAX_LISTEN_KEYS :: int where "MAX_LISTEN_KEYS = 1024"
definition LISTEN_KEYS_DELIMITER :: u8 where "LISTEN_KEYS_DELIMITER = 44"

text \<open>\<^verbatim>\<open>strtok_r\<close> with one delimiter, on what is left of the string: the next token and what is left after it.\<close>

definition strtok :: "u8 \<Rightarrow> bytes \<Rightarrow> (bytes \<times> bytes) option" where
  "strtok d s = (let s' = dropWhile (\<lambda>c. c = d) s; token = takeWhile (\<lambda>c. c \<noteq> d) s' in
     if s' = [] then None else Some (token, drop (length token + 1) s'))"

lemma strtok_shorter: "strtok d s = Some (token, s') \<Longrightarrow> length s' < length s"
  using length_dropWhile_le [of "\<lambda>c. c = d" s]
  by (cases "dropWhile (\<lambda>c. c = d) s") (auto simp: strtok_def Let_def)

text \<open>The count of the keys is tested and never changed.\<close>

function bind_tokens ::
    "nat \<Rightarrow> 'a conn_scheme platform \<Rightarrow> bytes \<Rightarrow> bytes \<Rightarrow> int \<Rightarrow> bytes \<Rightarrow> ('a conn_scheme, string + unit) cm" where
  "bind_tokens n P queue exchange routing_key_count s = (case strtok LISTEN_KEYS_DELIMITER s of
       None \<Rightarrow> alive ()
     | Some (token, s') \<Rightarrow>
         if routing_key_count < MAX_LISTEN_KEYS - 1 then
           while_alive (or_die_rpc (amqp_queue_bind n P 1 queue exchange token []) ''queue.bind'') (\<lambda>_.
           bind_tokens n P queue exchange routing_key_count s')
         else alive ())"
  by pat_completeness auto
termination
  by (relation "measure (\<lambda>(n, P, queue, exchange, count, s). length s)") (auto simp: strtok_shorter)

declare bind_tokens.simps [simp del]

definition bind_queue ::
    "nat \<Rightarrow> 'a conn_scheme platform \<Rightarrow> bytes \<Rightarrow> bytes \<Rightarrow> bytes option \<Rightarrow> ('a conn_scheme, string + unit) cm" where
  "bind_queue n P queue_bytes eb routing_key = (case routing_key of None \<Rightarrow> undef
     | Some key \<Rightarrow>
         and_then (c_malloc (length (amqp_cstring_bytes key) + 1)) (\<lambda>routing_tmp.
         if routing_tmp = None then die ''could not allocate memory to parse routing key''
         else while_alive (bind_tokens n P queue_bytes eb 0 (amqp_cstring_bytes key)) (\<lambda>_.
           and_then (c_free routing_tmp) (\<lambda>_. alive ()))))"

definition server_named_queue :: "amqp_method_struct option \<Rightarrow> ('a heap_scheme, string + bytes) cm" where
  "server_named_queue res = (case res of
       Some (amqp_queue_declare_ok_t q _ _) \<Rightarrow>
         and_then (amqp_bytes_malloc_dup q) (\<lambda>dup.
         if mb_block dup = None \<and> q \<noteq> [] then undef
         else and_then (stringify_bytes q) (\<lambda>(sq, _). and_then (c_free sq) (\<lambda>_. alive q)))
     | _ \<Rightarrow> undef)"

definition setup_queue ::
    "nat \<Rightarrow> 'a conn_scheme platform \<Rightarrow> bytes option \<Rightarrow> bytes option \<Rightarrow> bytes option \<Rightarrow> bool \<Rightarrow>
     ('a conn_scheme, string + bytes) cm" where
  "setup_queue n P queue exchange routing_key declared =
     (if exchange = None \<and> routing_key \<noteq> None
      then die ''--routing-key option requires an exchange name to be provided with --exchange''
      else if queue = None \<or> exchange \<noteq> None \<or> declared then
        while_alive (or_die_rpc (amqp_queue_declare n P 1 (cstring_bytes queue) False False True True [])
          ''queue.declare'') (\<lambda>res.
        while_alive (if queue = None then server_named_queue res else alive (cstring_bytes queue)) (\<lambda>queue_bytes.
        while_alive (case exchange of None \<Rightarrow> alive ()
            | Some e \<Rightarrow> bind_queue n P queue_bytes (amqp_cstring_bytes e) routing_key) (\<lambda>_.
        alive queue_bytes)))
      else alive (cstring_bytes queue))"

section \<open>Running a command\<close>

text \<open>
  \<^verbatim>\<open>unix/process.c\<close>.  The system calls are parameters: \<open>sys_pipe\<close> gives the two ends of a pipe or \<^verbatim>\<open>errno\<close>,
  \<open>file_action\<close> the error number of adding an action to the list for the new process (\<open>None\<close> for starting
  the list), \<open>spawnp\<close> that of starting it, with its number, \<open>sys_close\<close> the \<^verbatim>\<open>errno\<close> of a failure, \<open>waitpid\<close>
  how the process has ended.
\<close>

datatype spawn_action = Add_dup2 int int | Add_close int

datatype wait_status = Exited int | Signalled int

record 's process_os =
  sys_pipe :: "('s, int + int \<times> int) cm"
  file_action :: "spawn_action option \<Rightarrow> ('s, int) cm"
  spawnp :: "spawn_action list \<Rightarrow> bytes list \<Rightarrow> ('s, int \<times> int) cm"
  file_actions_destroy :: "('s, int) cm"
  close_fd :: "int \<Rightarrow> ('s, int option) cm"
  sys_waitpid :: "int \<Rightarrow> ('s, int + wait_status) cm"

record pipeline_t =
  pl_pid :: int
  pl_infd :: int

definition no_errno :: "('s, int) cm \<Rightarrow> string \<Rightarrow> ('s, string + unit) cm" where
  "no_errno m msg = and_then m (\<lambda>err. die_errno err msg)"

definition close_or_die :: "'s process_os \<Rightarrow> int \<Rightarrow> ('s, string + unit) cm" where
  "close_or_die Q fd = and_then (close_fd Q fd) (\<lambda>r. case r of None \<Rightarrow> alive () | Some err \<Rightarrow> die_errno err ''close'')"

definition pipeline :: "'s process_os \<Rightarrow> bytes list \<Rightarrow> ('s, string + pipeline_t) cm" where
  "pipeline Q argv = and_then (sys_pipe Q) (\<lambda>r. case r of
       Inl err \<Rightarrow> while_alive (die_errno err ''pipe'') (\<lambda>_. undef)
     | Inr (outfd, infd) \<Rightarrow>
         while_alive (no_errno (file_action Q None) ''posix_spawn_file_actions_init'') (\<lambda>_.
         while_alive (no_errno (file_action Q (Some (Add_dup2 outfd 0))) ''posix_spawn_file_actions_adddup2'') (\<lambda>_.
         while_alive (no_errno (file_action Q (Some (Add_close outfd))) ''posix_spawn_file_actions_addclose'') (\<lambda>_.
         while_alive (no_errno (file_action Q (Some (Add_close infd))) ''posix_spawn_file_actions_addclose'') (\<lambda>_.
         and_then (spawnp Q [Add_dup2 outfd 0, Add_close outfd, Add_close infd] argv) (\<lambda>(err, pid).
         while_alive (die_errno err ''posix_spawnp'') (\<lambda>_.
         while_alive (no_errno (file_actions_destroy Q) ''posix_spawn_file_actions_destroy'') (\<lambda>_.
         while_alive (close_or_die Q outfd) (\<lambda>_.
         alive \<lparr>pl_pid = pid, pl_infd = infd\<rparr>)))))))))"

definition finish_pipeline :: "'s process_os \<Rightarrow> pipeline_t \<Rightarrow> ('s, string + bool) cm" where
  "finish_pipeline Q pl =
     while_alive (close_or_die Q (pl_infd pl)) (\<lambda>_.
     and_then (sys_waitpid Q (pl_pid pl)) (\<lambda>r. case r of
       Inl err \<Rightarrow> while_alive (die_errno err ''waitpid'') (\<lambda>_. undef)
     | Inr status \<Rightarrow> alive (status = Exited 0)))"

text \<open>A message that has been delivered.\<close>

definition pipe_message ::
    "nat \<Rightarrow> nat \<Rightarrow> 'a conn_scheme platform \<Rightarrow> (int \<Rightarrow> bytes \<Rightarrow> ('a conn_scheme, int + nat) cm) \<Rightarrow>
     'a conn_scheme process_os \<Rightarrow> bytes list \<Rightarrow> bool \<Rightarrow> u64 \<Rightarrow> ('a conn_scheme, string + unit) cm" where
  "pipe_message k n P W Q argv no_ack delivery_tag =
     while_alive (pipeline Q argv) (\<lambda>pl.
     while_alive (copy_body k n P W (pl_infd pl)) (\<lambda>_.
     while_alive (finish_pipeline Q pl) (\<lambda>ok.
     while_alive (if ok \<and> \<not> no_ack then die_amqp_error (amqp_basic_ack P 1 delivery_tag False) ''basic.ack'' else alive ()) (\<lambda>_.
     and_then amqp_maybe_release_buffers alive))))"

text \<open>Every frame counts, a delivery or not; without a limit the counter ends at the largest \<^verbatim>\<open>int\<close>.\<close>

primrec consume_rounds ::
    "nat \<Rightarrow> nat \<Rightarrow> 'a conn_scheme platform \<Rightarrow> (int \<Rightarrow> bytes \<Rightarrow> ('a conn_scheme, int + nat) cm) \<Rightarrow>
     'a conn_scheme process_os \<Rightarrow> bytes list \<Rightarrow> bool \<Rightarrow> int \<Rightarrow> int \<Rightarrow> ('a conn_scheme, string + unit) cm" where
  "consume_rounds 0 n P W Q argv no_ack count i = out_of_fuel"
| "consume_rounds (Suc k) n P W Q argv no_ack count i =
     (if \<not> (count < 0 \<or> i < count) then alive ()
      else while_alive (die_amqp_error (amqp_simple_wait_frame n P) ''waiting for header frame'') (\<lambda>frame.
        while_alive (case frame_payload frame of
            Method_payload method_id decoded \<Rightarrow>
              if frame_type frame = 1 \<and> method_id = AMQP_BASIC_DELIVER_METHOD then
                (case decoded of Some (amqp_basic_deliver_t _ tag _ _ _) \<Rightarrow> pipe_message k n P W Q argv no_ack tag
                 | _ \<Rightarrow> undef)
              else alive ()
          | _ \<Rightarrow> if frame_type frame = 1 then undef else alive ()) (\<lambda>_.
        if i = INT_MAX then undef else consume_rounds k n P W Q argv no_ack count (i + 1))))"

definition do_consume ::
    "nat \<Rightarrow> nat \<Rightarrow> 'a conn_scheme platform \<Rightarrow> (int \<Rightarrow> bytes \<Rightarrow> ('a conn_scheme, int + nat) cm) \<Rightarrow>
     'a conn_scheme process_os \<Rightarrow> bytes list \<Rightarrow> bytes \<Rightarrow> bool \<Rightarrow> int \<Rightarrow> ('a conn_scheme, string + unit) cm" where
  "do_consume k n P W Q argv queue no_ack count =
     while_alive (if 0 < count \<and> count \<le> 65535
       then or_die_rpc (amqp_basic_qos n P 1 0 (word_of_int count) False) ''basic.qos'' else alive None) (\<lambda>_.
     while_alive (or_die_rpc (amqp_basic_consume n P 1 queue [] False no_ack False []) ''basic.consume'') (\<lambda>_.
     consume_rounds k n P W Q argv no_ack count 0))"

section \<open>Running\<close>

lemma run_alive [simp]: "alive a s = (Ok (Inr a), s)"
  by (simp add: alive_def)

lemma run_die [simp]: "die msg s = (Ok (Inl msg), s)"
  by (simp add: die_def)

lemma while_alive_Inr: "m s = (Ok (Inr a), s') \<Longrightarrow> while_alive m f s = f a s'"
  by (simp add: while_alive_def and_then_Ok)

lemma while_alive_Inl: "m s = (Ok (Inl msg), s') \<Longrightarrow> while_alive m f s = (Ok (Inl msg), s')"
  by (simp add: while_alive_def and_then_Ok)

lemma while_alive_alive [simp]: "while_alive (alive a) f = f a"
  by (rule ext) (simp add: while_alive_Inr)

lemma while_alive_die [simp]: "while_alive (die msg) f = die msg"
  by (rule ext) (simp add: while_alive_Inl)

lemma die_amqp_error_Ok: "m s = (Ok a, s') \<Longrightarrow> die_amqp_error m msg s = (Ok (Inr a), s')"
  by (simp add: die_amqp_error_def and_then_Ok run_catching)

lemma die_amqp_error_Err: "m s = (Err e, s') \<Longrightarrow> die_amqp_error m msg s = (Ok (Inl msg), s')"
  by (simp add: die_amqp_error_def and_then_Ok run_catching)

lemma then_frame:
  "amqp_simple_wait_frame n P c = (Ok f, c') \<Longrightarrow> while_alive (die_amqp_error (amqp_simple_wait_frame n P) msg) g c = g f c'"
  by (rule while_alive_Inr) (rule die_amqp_error_Ok)

section \<open>A descriptor that takes what is written\<close>

text \<open>
  \<open>W fd\<close> takes some of what it is given, at least a byte, and adds it to \<open>sunk\<close>; the bytes still to come
  from the server are another part of the world.
\<close>

locale body_sink = byte_stream P coming sunk
  for P :: "'a conn_scheme platform" and coming :: "'a \<Rightarrow> bytes" and sunk :: "'a \<Rightarrow> bytes" +
  fixes W :: "int \<Rightarrow> bytes \<Rightarrow> ('a conn_scheme, int + nat) cm" and fd :: int
  assumes takes: "bs \<noteq> [] \<Longrightarrow> \<exists>k m. W fd bs c = (Ok (Inr k), c\<lparr>conn.more := m\<rparr>) \<and> 0 < k \<and> k \<le> length bs \<and>
    coming m = coming (conn.more c) \<and> sunk m = sunk (conn.more c) @ take k bs"
begin

lemma write_all_run:
  assumes "length bs < n"
  shows "\<exists>m. write_all n W fd bs c = (Ok (Inr ()), c\<lparr>conn.more := m\<rparr>) \<and> coming m = coming (conn.more c) \<and>
    sunk m = sunk (conn.more c) @ bs"
  using assms
proof (induction n arbitrary: bs c)
  case 0
  then show ?case by simp
next
  case (Suc n)
  show ?case
  proof (cases "bs = []")
    case True
    then show ?thesis by (intro exI [of _ "conn.more c"]) simp
  next
    case False
    from takes [OF this, of c] obtain k m where m: "W fd bs c = (Ok (Inr k), c\<lparr>conn.more := m\<rparr>)" "0 < k" "k \<le> length bs"
      "coming m = coming (conn.more c)" "sunk m = sunk (conn.more c) @ take k bs" by blast
    have "length (drop k bs) < n" using m(2,3) Suc.prems by simp
    from Suc.IH [OF this, of "c\<lparr>conn.more := m\<rparr>"] m False show ?thesis by (auto simp: and_then_Ok)
  qed
qed

end

lemma awaiting_more: "awaiting c bs fs \<Longrightarrow> awaiting (c\<lparr>conn.more := m\<rparr>) bs fs"
proof (rule awaiting_same)
  assume "awaiting c bs fs"
  then have "conn_inv c" by (simp add: awaiting_def)
  then show "conn_inv (c\<lparr>conn.more := m\<rparr>)" by (rule conn_inv_same) (simp_all add: conn_blocks_def)
qed (simp_all add: same_reader_def)

lemma body_frame_simps [simp]:
  "frame_type (body_frame ch frag) = 3" "frame_payload (body_frame ch frag) = Body_payload frag"
  by (simp_all add: body_frame_def)

lemma concat_last: "concat (frag # frags) \<noteq> [] \<longleftrightarrow> True" if "last (frag # frags) \<noteq> []"
  using that by (induction frags arbitrary: frag) (auto split: if_splits)

context body_sink
begin

lemma copy_fragments_run:
  assumes "awaiting c (coming (conn.more c)) fs" and "ndebug P" and "\<not> amqp_heartbeat_enabled c"
    and "0 < length (sock_inbound_buffer c)" and "mailbox c fs = map (body_frame ch) frags @ rest"
    and "enough c (coming (conn.more c)) \<le> n" and "\<forall>frag \<in> set frags. length frag < n"
    and "frags = [] \<or> last frags \<noteq> []" and "length frags < k"
  shows "\<exists>c' fs'. copy_fragments k n P W fd (length (concat frags)) c = (Ok (Inr ()), c') \<and>
    awaiting c' (coming (conn.more c')) fs' \<and> mailbox c' fs' = rest \<and> waits c c' \<and>
    sunk (conn.more c') = sunk (conn.more c) @ concat frags"
  using assms
proof (induction frags arbitrary: c fs k)
  case Nil
  then show ?case by (cases k) (auto intro!: exI [of _ c] exI [of _ fs])
next
  case (Cons frag frags)
  obtain j where k: "k = Suc j" "length frags < j" using Cons.prems(9) by (cases k) auto
  have ne: "length (concat (frag # frags)) \<noteq> 0" using concat_last Cons.prems(8) by blast
  have m: "mailbox c fs = body_frame ch frag # (map (body_frame ch) frags @ rest)" using Cons.prems(5) by simp
  from simple_wait_frame_run [OF Cons.prems(1-4) m Cons.prems(6)] obtain c1 fs1 where
    1: "amqp_simple_wait_frame n P c = (Ok (body_frame ch frag), c1)" "awaiting c1 (coming (conn.more c1)) fs1"
    "mailbox c1 fs1 = map (body_frame ch) frags @ rest" "waits c c1"
    "enough c1 (coming (conn.more c1)) \<le> enough c (coming (conn.more c))"
    "sunk (conn.more c1) = sunk (conn.more c)" by blast
  have "length frag < n" using Cons.prems(7) by simp
  from write_all_run [OF this, of c1] obtain m where
    2: "write_all n W fd frag c1 = (Ok (Inr ()), c1\<lparr>conn.more := m\<rparr>)" "coming m = coming (conn.more c1)"
    "sunk m = sunk (conn.more c1) @ frag" by blast
  let ?c = "c1\<lparr>conn.more := m\<rparr>"
  have w: "waits c ?c"
  proof (rule waits_trans [OF 1(4)])
    show "waits c1 ?c" by (simp add: waits_def conn_blocks_def)
  qed
  have "awaiting ?c (coming (conn.more ?c)) fs1" using awaiting_more [OF 1(2)] 2(2) by simp
  moreover have "mailbox ?c fs1 = map (body_frame ch) frags @ rest" using 1(3) by (simp add: mailbox_def)
  moreover have "enough ?c (coming (conn.more ?c)) \<le> n" using 1(5) 2(2) Cons.prems(6) by (simp add: enough_def unread_def)
  moreover have "\<not> amqp_heartbeat_enabled ?c" "0 < length (sock_inbound_buffer ?c)"
    using Cons.prems(3,4) waitsD [OF w] by simp_all
  moreover have "frags = [] \<or> last frags \<noteq> []" "\<forall>frag \<in> set frags. length frag < n"
    using Cons.prems(7,8) by (auto split: if_splits)
  ultimately obtain c2 fs2 where
    3: "copy_fragments j n P W fd (length (concat frags)) ?c = (Ok (Inr ()), c2)" "awaiting c2 (coming (conn.more c2)) fs2"
    "mailbox c2 fs2 = rest" "waits ?c c2" "sunk (conn.more c2) = sunk (conn.more ?c) @ concat frags"
    using Cons.IH [OF _ Cons.prems(2) _ _ _ _ _ _ k(2)] by blast
  have "copy_fragments k n P W fd (length (concat (frag # frags))) c =
      copy_fragments j n P W fd (length (concat frags)) ?c"
    unfolding k(1) copy_fragments.simps if_not_P [OF ne] then_frame [OF 1(1)]
    by (simp add: while_alive_Inr [where m = "write_all n W fd frag", OF 2(1)] size_minus_def)
  moreover have "waits c c2" using w 3(4) by (rule waits_trans)
  ultimately show ?case using 1(6) 2(3) 3 by (intro exI [of _ c2] exI [of _ fs2]) simp
qed

lemma copy_body_run:
  assumes "awaiting c (coming (conn.more c)) fs" and "ndebug P" and "\<not> amqp_heartbeat_enabled c"
    and "0 < length (sock_inbound_buffer c)" and "mailbox c fs = header # map (body_frame ch) frags @ rest"
    and "frame_type header = 2" and "frame_payload header = Properties_payload cls (of_nat (length (concat frags))) decoded"
    and "length (concat frags) < 2 ^ 64" and "enough c (coming (conn.more c)) \<le> n"
    and "\<forall>frag \<in> set frags. length frag < n" and "frags = [] \<or> last frags \<noteq> []" and "length frags < k"
  shows "\<exists>c' fs'. copy_body k n P W fd c = (Ok (Inr ()), c') \<and>
    awaiting c' (coming (conn.more c')) fs' \<and> mailbox c' fs' = rest \<and> waits c c' \<and>
    sunk (conn.more c') = sunk (conn.more c) @ concat frags"
proof -
  from simple_wait_frame_run [OF assms(1-5,9)] obtain c1 fs1 where
    1: "amqp_simple_wait_frame n P c = (Ok header, c1)" "awaiting c1 (coming (conn.more c1)) fs1"
    "mailbox c1 fs1 = map (body_frame ch) frags @ rest" "waits c c1"
    "enough c1 (coming (conn.more c1)) \<le> enough c (coming (conn.more c))"
    "sunk (conn.more c1) = sunk (conn.more c)" by blast
  have size: "unat (of_nat (length (concat frags)) :: u64) = length (concat frags)"
    using assms(8) by (simp add: unat_of_nat take_bit_nat_eq_self)
  have "copy_body k n P W fd c = copy_fragments k n P W fd (length (concat frags)) c1"
    using assms(6,7) size by (simp add: copy_body_def then_frame [OF 1(1)])
  moreover have "\<not> amqp_heartbeat_enabled c1" "0 < length (sock_inbound_buffer c1)" "enough c1 (coming (conn.more c1)) \<le> n"
    using assms(3,4,9) waitsD [OF 1(4)] 1(5) by simp_all
  ultimately show ?thesis
    using copy_fragments_run [OF 1(2) assms(2) _ _ 1(3) _ assms(10-12)] 1(4,6) by (metis waits_trans)
qed

end

lemma mailbox_message:
  assumes "queued_frames c = []"
  shows "mailbox c (header_frame ch len props # map (body_frame ch) frags @ rest) =
    received (stale_properties c) (header_frame ch len props) # map (body_frame ch) frags @
    map (received (stale_properties c)) (not_heartbeats rest)"
proof -
  have "received block (body_frame ch frag) = body_frame ch frag" for block frag
    by (simp add: received_def body_frame_def)
  moreover have "\<not> is_heartbeat (header_frame ch len props)" by (simp add: header_frame_def)
  moreover have "filter (\<lambda>f. \<not> is_heartbeat f) (map (body_frame ch) frags) = map (body_frame ch) frags" by (induction frags) simp_all
  ultimately show ?thesis using assms by (simp add: mailbox_def not_heartbeats_def comp_def)
qed

lemma awaiting_result: "awaiting c bs fs \<Longrightarrow> awaiting (c\<lparr>most_recent_api_result := r\<rparr>) bs fs"
proof (rule awaiting_same)
  assume "awaiting c bs fs"
  then have "conn_inv c" by (simp add: awaiting_def)
  then show "conn_inv (c\<lparr>most_recent_api_result := r\<rparr>)" by (rule conn_inv_same) (simp_all add: conn_blocks_def)
qed (simp_all add: same_reader_def)

lemma fragment_shorter: "frag \<in> set frags \<Longrightarrow> length frag \<le> length (wire (map (body_frame ch) frags))"
  by (induction frags) (auto simp: frame_bytes_def payload_bytes_def)

lemma list_all_not_heartbeats: "list_all is_heartbeat fs \<Longrightarrow> not_heartbeats fs = []"
  by (induction fs) (simp_all add: not_heartbeats_def)

lemma heartbeat_goes_on: "is_heartbeat g \<Longrightarrow> \<not> ends_call ch ids g"
  by (simp add: ends_call_def)

lemma while_normal: "reply_type r = AMQP_RESPONSE_NORMAL \<Longrightarrow> while_alive (die_rpc r msg) f = f ()"
  by (simp add: die_rpc_def)

context body_sink
begin

lemma do_get_run:
  assumes fd: "fd = 1"
    and send: "amqp_send_method P 1 AMQP_BASIC_GET_METHOD (Some (amqp_basic_get_t 0 (cstring_bytes queue) True)) c = (Ok (), d)"
    and d: "awaiting d (coming (conn.more d)) (hs @ method_frame 1 (amqp_basic_get_ok_t tag re ex rk cnt) #
        header_frame 1 (length (concat frags)) props # map (body_frame 1) frags @ rest)"
      "ndebug P" "\<not> amqp_heartbeat_enabled d" "0 < length (sock_inbound_buffer d)"
    and hs: "list_all is_heartbeat hs" "queued_frames d = []"
    and frags: "length (concat frags) < 2 ^ 64" "frags = [] \<or> last frags \<noteq> []" "length frags < k"
    and n: "enough d (coming (conn.more d)) < n"
  shows "\<exists>c' fs'. do_get k n P W queue c = (Ok (Inr True), c') \<and> awaiting c' (coming (conn.more c')) fs' \<and>
    mailbox c' fs' = map (received (stale_properties d)) (not_heartbeats rest) \<and>
    sunk (conn.more c') = sunk (conn.more d) @ concat frags"
proof -
  let ?ids = "[AMQP_BASIC_GET_OK_METHOD, AMQP_BASIC_GET_EMPTY_METHOD, 0]"
  let ?ok = "method_frame 1 (amqp_basic_get_ok_t tag re ex rk cnt)"
  let ?header = "header_frame 1 (length (concat frags)) props"
  let ?rest = "?header # map (body_frame 1) frags @ rest"
  have e: "ends_call 1 ?ids ?ok" by (simp add: ends_call_def method_frame_def AMQP_BASIC_GET_OK_METHOD_def)
  have s: "list_all (\<lambda>g. \<not> ends_call 1 ?ids g) hs" using hs(1) by (induction hs) (simp_all add: heartbeat_goes_on)
  from simple_rpc_run [OF send d s e n] obtain c1 where
    1: "amqp_simple_rpc n P 1 AMQP_BASIC_GET_METHOD ?ids (Some (amqp_basic_get_t 0 (cstring_bytes queue) True)) c =
        (Ok (method_reply ?ids (method_part ?ok)), c1)" "awaiting c1 (coming (conn.more c1)) ?rest" "waits d c1"
    "queued_frames c1 = queued_frames d @ map (received (stale_properties d)) (not_heartbeats hs)"
    "sunk (conn.more c1) = sunk (conn.more d)" by blast
  let ?reply = "method_reply ?ids (method_part ?ok)"
  let ?c = "c1\<lparr>most_recent_api_result := ?reply\<rparr>"
  have get: "amqp_basic_get n P 1 (cstring_bytes queue) True c = (Ok ?reply, ?c)"
    using 1(1) by (simp add: amqp_basic_get_def and_then_Ok)
  have normal: "reply_type ?reply = AMQP_RESPONSE_NORMAL" "reply_id ?reply \<noteq> AMQP_BASIC_GET_EMPTY_METHOD"
    by (simp_all add: method_reply_def AMQP_BASIC_GET_OK_METHOD_def AMQP_BASIC_GET_EMPTY_METHOD_def)
  have run: "do_get k n P W queue c = while_alive (copy_body k n P W fd) (\<lambda>_. alive True) ?c"
    using normal by (simp add: do_get_def and_then_Ok [where m = "amqp_basic_get n P 1 (cstring_bytes queue) True", OF get] while_normal fd)
  have aw: "awaiting ?c (coming (conn.more ?c)) ?rest"
    using awaiting_result [OF 1(2)] by simp
  have "queued_frames ?c = []" using 1(4) hs by (simp add: list_all_not_heartbeats)
  from mailbox_message [OF this] have box: "mailbox ?c ?rest = received (stale_properties ?c) ?header #
      map (body_frame 1) frags @ map (received (stale_properties d)) (not_heartbeats rest)"
    using waitsD [OF 1(3)] by simp
  have len: "length (unread ?c) + length (coming (conn.more ?c)) < length (unread d) + length (coming (conn.more d))"
    using awaiting_less [OF d(1) 1(2)] by (simp add: unread_def)
  have short: "\<forall>frag \<in> set frags. length frag < n"
  proof
    fix frag
    assume "frag \<in> set frags"
    then have "length frag \<le> length (wire (map (body_frame 1) frags))" by (rule fragment_shorter)
    also have "\<dots> \<le> length (wire (map (body_frame 1) frags @ rest))" by simp
    also have "\<dots> < length (unread ?c) + length (coming (conn.more ?c))" by (rule awaiting_total(2) [OF aw refl])
    also have "\<dots> < n" using len n by (simp add: enough_def)
    finally show "length frag < n" .
  qed
  have "\<not> amqp_heartbeat_enabled ?c" "0 < length (sock_inbound_buffer ?c)" "enough ?c (coming (conn.more ?c)) \<le> n"
    using d(3,4) n waitsD [OF 1(3)] len by (simp_all add: enough_def amqp_heartbeat_enabled_def)
  from copy_body_run [OF aw d(2) this(1,2) box _ _ frags(1) this(3) short frags(2,3)] obtain c' fs' where
    2: "copy_body k n P W fd ?c = (Ok (Inr ()), c')" "awaiting c' (coming (conn.more c')) fs'"
    "mailbox c' fs' = map (received (stale_properties d)) (not_heartbeats rest)"
    "sunk (conn.more c') = sunk (conn.more ?c) @ concat frags"
    by (auto simp: received_def header_frame_def)
  have "do_get k n P W queue c = (Ok (Inr True), c')"
    unfolding run while_alive_Inr [where m = "copy_body k n P W fd", OF 2(1)] by simp
  with 2 1(5) show ?thesis by (intro exI [of _ c'] exI [of _ fs']) simp
qed

end

section \<open>The options of a connection\<close>

text \<open>The defaults and the URL leave nothing unset.\<close>

definition all_set :: "amqp_connection_info \<Rightarrow> bool" where
  "all_set i \<longleftrightarrow> ci_user i \<noteq> Null \<and> ci_password i \<noteq> Null \<and> ci_host i \<noteq> Null \<and> ci_vhost i \<noteq> Null \<and> 0 \<le> ci_port i"

lemma url_leaves_all_set:
  assumes "parsed s = amqp_default_connection_info"
  shows "\<exists>r s'. parse_url_option opts s = (Ok r, s') \<and> all_set (parsed s') \<and> (opt_url opts = None \<longrightarrow> r = Inr () \<and> s' = s)"
proof (cases "opt_url opts")
  case None
  then show ?thesis using assms by (simp add: parse_url_option_def all_set_def amqp_default_connection_info_def)
next
  case (Some url)
  let ?cs = "amqp_cstring_bytes url" and ?i = "amqp_default_connection_info"
  let ?s = "\<lparr>url_text = ?cs @ [0], parsed = ?i\<rparr>"
  have "\<exists>r s'. amqp_parse_url ?s = (r, s') \<and> (r = Ok () \<or> r = Err AMQP_STATUS_BAD_URL) \<and>
    length (url_text s') = length (?cs @ [0]) \<and> url_text s' ! length ?cs = 0 \<and>
    drop (Suc (length ?cs)) (url_text s') = drop (Suc (length ?cs)) (?cs @ [0]) \<and>
    (\<forall>p\<in>{ci_user (parsed s'), ci_password (parsed s'), ci_host (parsed s'), ci_vhost (parsed s')}.
       inside (length ?cs) p \<and> string_of (url_text s') p \<noteq> None)"
    by (rule parse_url_inside) (simp_all add: amqp_default_connection_info_def)
  then obtain r s' where r: "amqp_parse_url ?s = (r, s')" "r = Ok () \<or> r = Err AMQP_STATUS_BAD_URL"
    "\<forall>p\<in>{ci_user (parsed s'), ci_password (parsed s'), ci_host (parsed s'), ci_vhost (parsed s')}. inside (length ?cs) p"
    by blast
  have "port_step ?s s'" by (rule stepsD [OF parse_url_port r(1)])
  then have "all_set (parsed s')"
    using r(3) by (auto simp: all_set_def port_step_def amqp_default_connection_info_def)
  moreover have "parse_url_option opts s = die_amqp_error amqp_parse_url ''Parsing URL'' ?s"
    using Some assms by (cases s) (simp add: parse_url_option_def)
  ultimately show ?thesis using Some r(1,2) by (auto simp: die_amqp_error_Ok die_amqp_error_Err)
qed

definition any_option :: "connect_options \<Rightarrow> bool" where
  "any_option opts \<longleftrightarrow> opt_server opts \<noteq> None \<or> 0 \<le> opt_port opts \<or> opt_username opts \<noteq> None \<or> opt_password opts \<noteq> None \<or>
     opt_vhost opts \<noteq> None"

lemma string_option_all_set:
  assumes "field (parsed s) \<noteq> Null"
  shows "string_option opt field assign msg s = (Ok (if opt = None then Inr () else Inl msg), s)"
  using assms by (cases opt) (simp_all add: string_option_def)

lemma port_option_all_set:
  assumes "0 \<le> ci_port (parsed s)"
  shows "port_option opts s = (Ok (if 0 \<le> opt_port opts
    then Inl ''both --port and --url options specify server port'' else Inr ()), s)"
  using assms by (simp add: port_option_def)

lemma server_option_all_set:
  assumes "ci_host (parsed s) \<noteq> Null"
  shows "server_option with_ssl opts s = (Ok (if opt_server opts = None then Inr ()
    else Inl ''both --server and --url options specify server host''), s)"
  using assms by (cases "opt_server opts") (simp_all add: server_option_def)

lemma run_while_alive:
  "while_alive m f s = (case m s of (Ok (Inl msg), s') \<Rightarrow> (Ok (Inl msg), s') | (Ok (Inr a), s') \<Rightarrow> f a s' | (r, s') \<Rightarrow> (pass_error r, s'))"
  by (cases "m s") (auto simp: while_alive_def run_and_then split: outcome.splits sum.splits)

lemma connection_info_refuses:
  "\<exists>r s'. init_connection_info with_ssl opts s = (Ok r, s') \<and> (any_option opts \<longrightarrow> (\<exists>msg. r = Inl msg)) \<and>
    (\<not> any_option opts \<and> opt_url opts = None \<longrightarrow> r = Inr () \<and> parsed s' = amqp_default_connection_info)"
proof -
  let ?s = "s\<lparr>parsed := amqp_default_connection_info\<rparr>"
  obtain r s' where r: "parse_url_option opts ?s = (Ok r, s')" "all_set (parsed s')"
    "opt_url opts = None \<longrightarrow> r = Inr () \<and> s' = ?s"
    using url_leaves_all_set [of ?s opts] by auto
  have set: "ci_user (parsed s') \<noteq> Null" "ci_password (parsed s') \<noteq> Null" "ci_host (parsed s') \<noteq> Null"
    "ci_vhost (parsed s') \<noteq> Null" "0 \<le> ci_port (parsed s')" using r(2) by (simp_all add: all_set_def)
  note options = server_option_all_set [OF set(3)] port_option_all_set [OF set(5)]
    string_option_all_set [where field = ci_user, OF set(1)] string_option_all_set [where field = ci_password, OF set(2)]
    string_option_all_set [where field = ci_vhost, OF set(4)]
  show ?thesis
    using r(1,3) by (cases r) (simp_all add: init_connection_info_def set_parsed_def run_while_alive options any_option_def)
qed

section \<open>Keys to listen to\<close>

primrec split_on :: "u8 \<Rightarrow> bytes \<Rightarrow> bytes list" where
  "split_on d [] = [[]]"
| "split_on d (c # cs) = (if c = d then [] # split_on d cs else (c # hd (split_on d cs)) # tl (split_on d cs))"

definition listen_keys :: "bytes \<Rightarrow> bytes list" where
  "listen_keys s = filter (\<lambda>key. key \<noteq> []) (split_on LISTEN_KEYS_DELIMITER s)"

primrec bind_each :: "nat \<Rightarrow> 'a conn_scheme platform \<Rightarrow> bytes \<Rightarrow> bytes \<Rightarrow> bytes list \<Rightarrow> ('a conn_scheme, string + unit) cm" where
  "bind_each n P queue exchange [] = alive ()"
| "bind_each n P queue exchange (key # keys) =
     while_alive (or_die_rpc (amqp_queue_bind n P 1 queue exchange key []) ''queue.bind'') (\<lambda>_.
     bind_each n P queue exchange keys)"

lemma split_on_not_Nil [simp]: "split_on d s \<noteq> []"
  by (cases s) simp_all

lemma split_on_takeWhile:
  "split_on d s = takeWhile (\<lambda>c. c \<noteq> d) s # (case dropWhile (\<lambda>c. c \<noteq> d) s of [] \<Rightarrow> [] | _ # s' \<Rightarrow> split_on d s')"
  by (induction s) auto

lemma drop_token: "drop (length (takeWhile P s) + 1) s = tl (dropWhile P s)"
  by (induction s) auto

lemma keys_strtok:
  "filter (\<lambda>key. key \<noteq> []) (split_on d s) = (case strtok d s of None \<Rightarrow> []
     | Some (token, s') \<Rightarrow> token # filter (\<lambda>key. key \<noteq> []) (split_on d s'))"
proof (induction s)
  case (Cons c cs)
  show ?case
  proof (cases "c = d")
    case True
    then show ?thesis using Cons by (simp add: strtok_def)
  next
    case False
    have "strtok d (c # cs) = Some (c # takeWhile (\<lambda>c. c \<noteq> d) cs, tl (dropWhile (\<lambda>c. c \<noteq> d) cs))"
      using False drop_token [of "\<lambda>c. c \<noteq> d" "c # cs"] by (simp add: strtok_def)
    moreover have "split_on d (c # cs) = (c # takeWhile (\<lambda>c. c \<noteq> d) cs) #
        (case dropWhile (\<lambda>c. c \<noteq> d) cs of [] \<Rightarrow> [] | _ # s' \<Rightarrow> split_on d s')"
      using False split_on_takeWhile [of d "c # cs"] by simp
    ultimately show ?thesis by (cases "dropWhile (\<lambda>c. c \<noteq> d) cs") (simp_all del: split_on.simps(2) dropWhile_eq_Nil_conv)
  qed
qed (simp add: strtok_def)

lemma bind_tokens_each: "routing_key_count < 1023 \<Longrightarrow>
  bind_tokens n P queue exchange routing_key_count s = bind_each n P queue exchange (listen_keys s)"
proof (induction n P queue exchange routing_key_count s rule: bind_tokens.induct)
  case (1 n P queue exchange count s)
  show ?case
  proof (cases "strtok LISTEN_KEYS_DELIMITER s")
    case None
    then show ?thesis by (simp add: bind_tokens.simps listen_keys_def keys_strtok)
  next
    case (Some p)
    obtain token s' where p: "p = (token, s')" by (cases p)
    have "listen_keys s = token # listen_keys s'"
      using Some keys_strtok [of LISTEN_KEYS_DELIMITER s] by (simp add: p listen_keys_def)
    moreover have "count < MAX_LISTEN_KEYS - 1" using 1(2) by (simp add: MAX_LISTEN_KEYS_def)
    ultimately show ?thesis using 1(1) [OF Some p [symmetric]] 1(2) Some
      by (subst bind_tokens.simps) (simp add: p)
  qed
qed

section \<open>Printing bytes\<close>

lemma length_escape: "length (concat (map escape_byte bs)) \<le> 4 * length bs"
  by (induction bs) (auto simp: escape_byte_def)

text \<open>The string fits into its block; a backslash is not escaped, so different bytes may print alike.\<close>

lemma stringify_fits:
  assumes "length bs < 2 ^ 62" and "grants s (next_id s)"
  shows "\<exists>block s'. stringify_bytes bs s = (Ok (Some block, concat (map escape_byte bs) @ [0]), s') \<and>
    live s' block = Some (length bs * 4 + 1)"
  using assms length_escape [of bs] by (simp add: stringify_bytes_def Let_def c_malloc_def run_and_then)

lemma stringify_ambiguous: "concat (map escape_byte [92, 48, 48, 49]) = concat (map escape_byte [1])"
  by (simp add: escape_byte_def word_le_nat_alt)

section \<open>Descriptors of commands\<close>

text \<open>The tool ends with a message, or goes on with a result and a state that satisfy \<open>R\<close>.\<close>

definition survives :: "('s, string + 'b) cm \<Rightarrow> 's \<Rightarrow> ('b \<Rightarrow> 's \<Rightarrow> bool) \<Rightarrow> bool" where
  "survives m s R \<longleftrightarrow> (\<exists>r s'. m s = (Ok r, s') \<and> (\<forall>a. r = Inr a \<longrightarrow> R a s'))"

lemma survives_while:
  assumes "survives m s R" and "\<And>a s'. R a s' \<Longrightarrow> survives (f a) s' R'"
  shows "survives (while_alive m f) s R'"
proof -
  obtain r s' where r: "m s = (Ok r, s')" "\<forall>a. r = Inr a \<longrightarrow> R a s'" using assms(1) by (auto simp: survives_def)
  show ?thesis
  proof (cases r)
    case (Inl msg)
    with r(1) show ?thesis by (simp add: survives_def run_while_alive)
  next
    case (Inr a)
    with r assms(2) [of a s'] show ?thesis by (simp add: survives_def run_while_alive)
  qed
qed

text \<open>What POSIX says of the descriptors that are open: only \<^verbatim>\<open>pipe\<close> opens some and only \<^verbatim>\<open>close\<close> closes one.\<close>

locale pipe_os =
  fixes Q :: "'s process_os" and opened :: "'s \<Rightarrow> int set"
  assumes pipe_law: "\<exists>r s'. sys_pipe Q s = (Ok r, s') \<and> (case r of
      Inl err \<Rightarrow> err \<noteq> 0 \<and> opened s' = opened s
    | Inr (a, b) \<Rightarrow> a \<noteq> b \<and> a \<notin> opened s \<and> b \<notin> opened s \<and> opened s' = insert a (insert b (opened s)))"
    and action_law: "\<exists>err s'. file_action Q a s = (Ok err, s') \<and> opened s' = opened s"
    and spawn_law: "\<exists>r s'. spawnp Q acts argv s = (Ok r, s') \<and> opened s' = opened s"
    and destroy_law: "\<exists>err s'. file_actions_destroy Q s = (Ok err, s') \<and> opened s' = opened s"
    and close_law: "fd \<in> opened s \<Longrightarrow> \<exists>s'. close_fd Q fd s = (Ok None, s') \<and> opened s' = opened s - {fd}"
    and wait_law: "\<exists>r s'. sys_waitpid Q pid s = (Ok r, s') \<and> (\<forall>err. r = Inl err \<longrightarrow> err \<noteq> 0) \<and> opened s' = opened s"
begin

lemma survives_no_errno:
  assumes "\<exists>err s'. m s = (Ok err, s') \<and> opened s' = T"
  shows "survives (no_errno m msg) s (\<lambda>_ s'. opened s' = T)"
  using assms by (auto simp: survives_def no_errno_def die_errno_def and_then_Ok)

lemma survives_close:
  assumes "fd \<in> opened s"
  shows "survives (close_or_die Q fd) s (\<lambda>_ s'. opened s' = opened s - {fd})"
  using close_law [OF assms] by (auto simp: survives_def close_or_die_def and_then_Ok)

lemma pipeline_opens_one:
  "survives (pipeline Q argv) s (\<lambda>pl s'. pl_infd pl \<notin> opened s \<and> opened s' = insert (pl_infd pl) (opened s))"
proof -
  obtain r s1 where r: "sys_pipe Q s = (Ok r, s1)" "case r of
      Inl err \<Rightarrow> err \<noteq> 0 \<and> opened s1 = opened s
    | Inr (a, b) \<Rightarrow> a \<noteq> b \<and> a \<notin> opened s \<and> b \<notin> opened s \<and> opened s1 = insert a (insert b (opened s))"
    using pipe_law [of s] by blast
  show ?thesis
  proof (cases r)
    case (Inl err)
    with r show ?thesis by (simp add: survives_def pipeline_def and_then_Ok die_errno_def run_while_alive)
  next
    case (Inr p)
    obtain a b where p: "p = (a, b)" by (cases p)
    let ?T = "insert a (insert b (opened s))"
    let ?open = "\<lambda>_ s'. opened s' = ?T"
    have ab: "a \<noteq> b" "a \<notin> opened s" "b \<notin> opened s" "opened s1 = ?T" using r(2) Inr p by auto
    have act: "survives (no_errno (file_action Q act) msg) s' ?open" if "opened s' = ?T" for act msg s'
      using that action_law [of act s'] by (intro survives_no_errno) simp
    have rest: "survives (while_alive (no_errno (file_actions_destroy Q) msg) (\<lambda>_. while_alive (close_or_die Q a) (\<lambda>_.
        alive \<lparr>pl_pid = pid, pl_infd = b\<rparr>))) s' (\<lambda>pl s'. pl_infd pl \<notin> opened s \<and> opened s' = insert (pl_infd pl) (opened s))"
      if "opened s' = ?T" for msg pid s'
    proof (rule survives_while [where R = ?open])
      show "survives (no_errno (file_actions_destroy Q) msg) s' ?open"
        using that destroy_law [of s'] by (intro survives_no_errno) simp
    next
      fix u s2
      assume "?open u s2"
      then show "survives (while_alive (close_or_die Q a) (\<lambda>_. alive \<lparr>pl_pid = pid, pl_infd = b\<rparr>)) s2
          (\<lambda>pl s'. pl_infd pl \<notin> opened s \<and> opened s' = insert (pl_infd pl) (opened s))"
        using ab by (intro survives_while [OF survives_close]) (auto simp: survives_def)
    qed
    have spawn: "survives (and_then (spawnp Q acts argv) (\<lambda>(err, pid). while_alive (die_errno err m1)
        (\<lambda>_. while_alive (no_errno (file_actions_destroy Q) msg) (\<lambda>_. while_alive (close_or_die Q a) (\<lambda>_.
        alive \<lparr>pl_pid = pid, pl_infd = b\<rparr>))))) s' (\<lambda>pl s'. pl_infd pl \<notin> opened s \<and> opened s' = insert (pl_infd pl) (opened s))"
      if start: "opened s' = ?T" for acts m1 msg s'
    proof -
      obtain q s2 where q: "spawnp Q acts argv s' = (Ok q, s2)" "opened s2 = ?T"
        using spawn_law [of acts argv s'] unfolding start by blast
      obtain err pid where "q = (err, pid)" by (cases q)
      with q rest [of s2 msg pid] show ?thesis
        by (cases "err = 0") (simp_all add: survives_def and_then_Ok die_errno_def run_while_alive)
    qed
    let ?m = "while_alive (no_errno (file_action Q None) ''posix_spawn_file_actions_init'') (\<lambda>_.
         while_alive (no_errno (file_action Q (Some (Add_dup2 a 0))) ''posix_spawn_file_actions_adddup2'') (\<lambda>_.
         while_alive (no_errno (file_action Q (Some (Add_close a))) ''posix_spawn_file_actions_addclose'') (\<lambda>_.
         while_alive (no_errno (file_action Q (Some (Add_close b))) ''posix_spawn_file_actions_addclose'') (\<lambda>_.
         and_then (spawnp Q [Add_dup2 a 0, Add_close a, Add_close b] argv) (\<lambda>(err, pid).
         while_alive (die_errno err ''posix_spawnp'') (\<lambda>_.
         while_alive (no_errno (file_actions_destroy Q) ''posix_spawn_file_actions_destroy'') (\<lambda>_.
         while_alive (close_or_die Q a) (\<lambda>_.
         alive \<lparr>pl_pid = pid, pl_infd = b\<rparr>))))))))"
    have "pipeline Q argv s = ?m s1"
      using r(1) Inr p by (simp add: pipeline_def and_then_Ok)
    moreover have "survives ?m s1 (\<lambda>pl s'. pl_infd pl \<notin> opened s \<and> opened s' = insert (pl_infd pl) (opened s))"
      by (intro survives_while [OF act] spawn ab(4))
    ultimately show ?thesis by (simp only: survives_def)
  qed
qed

lemma finish_closes:
  assumes "pl_infd pl \<in> opened s"
  shows "survives (finish_pipeline Q pl) s (\<lambda>_ s'. opened s' = opened s - {pl_infd pl})"
  unfolding finish_pipeline_def
proof (rule survives_while [OF survives_close [OF assms]])
  fix u s'
  assume s': "opened s' = opened s - {pl_infd pl}"
  obtain r s2 where "sys_waitpid Q (pl_pid pl) s' = (Ok r, s2)" "\<forall>err. r = Inl err \<longrightarrow> err \<noteq> 0" "opened s2 = opened s'"
    using wait_law [of "pl_pid pl" s'] by blast
  with s' show "survives (and_then (sys_waitpid Q (pl_pid pl)) (\<lambda>r. case r of
       Inl err \<Rightarrow> while_alive (die_errno err ''waitpid'') (\<lambda>_. undef)
     | Inr status \<Rightarrow> alive (status = Exited 0))) s' (\<lambda>_ s'. opened s' = opened s - {pl_infd pl})"
    by (cases r) (simp_all add: survives_def and_then_Ok die_errno_def run_while_alive)
qed

end

text \<open>A process table in miniature: its state is the set of open descriptors, and a pipe is 3 and 4.\<close>

definition small_processes :: "int set process_os" where
  "small_processes = \<lparr>sys_pipe = (\<lambda>S. if 3 \<in> S \<or> 4 \<in> S then (Ok (Inl 24), S) else (Ok (Inr (3, 4)), insert 3 (insert 4 S))),
     file_action = (\<lambda>_. ret 0), spawnp = (\<lambda>_ _. ret (0, 100)), file_actions_destroy = ret 0,
     close_fd = (\<lambda>fd S. if fd \<in> S then (Ok None, S - {fd}) else (Ok (Some 9), S)),
     sys_waitpid = (\<lambda>_. ret (Inr (Exited 0)))\<rparr>"

interpretation small: pipe_os small_processes "\<lambda>S. S"
  by unfold_locales (auto simp: small_processes_def)

lemma command_leaks_nothing:
  assumes "pipe_os Q opened"
  shows "survives (while_alive (pipeline Q argv) (finish_pipeline Q)) s (\<lambda>_ s'. opened s' = opened s)"
proof (rule survives_while [OF pipe_os.pipeline_opens_one [OF assms]])
  fix pl :: pipeline_t and s'
  assume pl: "pl_infd pl \<notin> opened s \<and> opened s' = insert (pl_infd pl) (opened s)"
  then have "opened s' - {pl_infd pl} = opened s" by blast
  with pipe_os.finish_closes [OF assms, of pl s'] pl show "survives (finish_pipeline Q pl) s' (\<lambda>_ s'. opened s' = opened s)"
    by simp
qed

lemma small_command_runs:
  "while_alive (pipeline small_processes [ascii ''cat'']) (finish_pipeline small_processes) {0, 1, 2} = (Ok (Inr True), {0, 1, 2})"
  by (simp add: run_while_alive pipeline_def finish_pipeline_def small_processes_def and_then_Ok no_errno_def close_or_die_def
      die_errno_def)

section \<open>A scripted descriptor\<close>

text \<open>On the scripted stream a write takes some of the bytes and puts them to what has been written.\<close>

definition script_output :: "int \<Rightarrow> bytes \<Rightarrow> (stream, int + nat) cm" where
  "script_output fd bs = (\<lambda>s. let k = min (length bs) (Suc (piece s)) in
     (Ok (Inr k), s\<lparr>written := written s @ take k bs\<rparr>))"

interpretation script_pipe: body_sink scripted script_coming script_written script_output 1
proof (intro body_sink.intro script.byte_stream_axioms body_sink_axioms.intro)
  fix bs :: bytes and c :: stream
  assume "bs \<noteq> []"
  let ?k = "min (length bs) (Suc (piece c))"
  let ?d = "c\<lparr>written := written c @ take ?k bs\<rparr>"
  have "c\<lparr>conn.more := conn.more ?d\<rparr> = ?d" by (cases c) simp
  then have "script_output 1 bs c = (Ok (Inr ?k), c\<lparr>conn.more := conn.more ?d\<rparr>)"
    by (simp only: script_output_def Let_def)
  moreover have "0 < ?k" "?k \<le> length bs" "script_coming (conn.more ?d) = script_coming (conn.more c)"
    "script_written (conn.more ?d) = script_written (conn.more c) @ take ?k bs"
    using \<open>bs \<noteq> []\<close> by simp_all
  ultimately show "\<exists>k m. script_output 1 bs c = (Ok (Inr k), c\<lparr>conn.more := m\<rparr>) \<and> 0 < k \<and> k \<le> length bs \<and>
      script_coming m = script_coming (conn.more c) \<and> script_written m = script_written (conn.more c) @ take k bs"
    by blast
qed

section \<open>What the tools do besides\<close>

text \<open>A fragment that is longer than the rest makes the rest wrap, and the tool goes on waiting for nearly \<open>2 ^ 64\<close> bytes.\<close>

lemma long_fragment_wraps:
  assumes "amqp_simple_wait_frame n P c = (Ok (body_frame ch frag), c1)" and "write_all n W fd frag c1 = (Ok (Inr ()), c2)"
    and "0 < body_remaining" and "body_remaining < length frag"
  shows "copy_fragments (Suc k) n P W fd body_remaining c =
    copy_fragments k n P W fd (body_remaining + 2 ^ 64 - length frag) c2"
proof -
  have ne: "body_remaining \<noteq> 0" using assms(3) by simp
  show ?thesis
    unfolding copy_fragments.simps if_not_P [OF ne] then_frame [OF assms(1)]
    using assms(4) by (simp add: while_alive_Inr [where m = "write_all n W fd frag", OF assms(2)] size_minus_def)
qed

lemma publish_mode_ignored:
  "publish_properties delivery = publish_properties delivery'"
  "p_delivery_mode (publish_properties delivery content_type content_encoding reply_to) = 2"
  by (intro ext, simp add: publish_properties_def)
    (simp add: publish_properties_def Let_def split: option.split)

lemma line_buffered_body_not_sent:
  "publish_input k n P G R (Some text) True exchange routing_key props s = (Ok (Inr ()), s)"
  by (simp add: publish_input_def)

lemma exchange_without_key_crashes:
  assumes "amqp_queue_declare n P 1 (cstring_bytes (Some queue)) False False True True [] c = (Ok (Some r), d)"
  shows "setup_queue n P (Some queue) (Some exchange) None declared c = (Undef, d)"
  using assms
  by (simp add: setup_queue_def or_die_rpc_def bind_queue_def run_while_alive run_and_then alive_def)

lemma other_frames_count:
  assumes "amqp_simple_wait_frame n P c = (Ok frame, d)" and "frame_type frame \<noteq> 1"
  shows "consume_rounds (Suc (Suc k)) n P W Q argv no_ack 1 0 c = (Ok (Inr ()), d)"
proof -
  have "consume_rounds (Suc (Suc k)) n P W Q argv no_ack 1 0 c = consume_rounds (Suc k) n P W Q argv no_ack 1 1 d"
    using assms(2) by (cases "frame_payload frame") (simp_all add: then_frame [OF assms(1)] INT_MAX_def)
  then show ?thesis by simp
qed

lemma exception_string_short:
  assumes "amqp_server_exception_string r s = (Ok text, s')"
  shows "length text < 512"
  using assms
  by (auto simp: amqp_server_exception_string_def snprintf_512_def run_and_then printf_bytes_def
      split: if_splits option.splits amqp_method_struct.splits outcome.splits prod.splits)

section \<open>Properties\<close>

text \<open>
  C24: \<^verbatim>\<open>amqp-get\<close> writes out the message.  When the server answers with a message, its header and a body in
  any fragments, the last of them not empty, then however these bytes are cut on the way, heartbeats
  before them or not, and however little each \<^verbatim>\<open>write\<close> takes, \<^verbatim>\<open>do_get\<close> succeeds, has written exactly the
  body, and has left the frames that follow.
\<close>

theorem amqp_get_writes_body:
  assumes "body_sink P coming sunk W 1"
    and "amqp_send_method P 1 AMQP_BASIC_GET_METHOD (Some (amqp_basic_get_t 0 (cstring_bytes queue) True)) c = (Ok (), d)"
    and "awaiting d (coming (conn.more d)) (hs @ method_frame 1 (amqp_basic_get_ok_t tag re ex rk cnt) #
        header_frame 1 (length (concat frags)) props # map (body_frame 1) frags @ rest)"
    and "ndebug P" and "\<not> amqp_heartbeat_enabled d" and "0 < length (sock_inbound_buffer d)"
    and "list_all is_heartbeat hs" and "queued_frames d = []"
    and "length (concat frags) < 2 ^ 64" and "frags = [] \<or> last frags \<noteq> []" and "length frags < k"
    and "enough d (coming (conn.more d)) < n"
  shows "\<exists>c' fs'. do_get k n P W queue c = (Ok (Inr True), c') \<and> awaiting c' (coming (conn.more c')) fs' \<and>
    mailbox c' fs' = map (received (stale_properties d)) (not_heartbeats rest) \<and>
    sunk (conn.more c') = sunk (conn.more d) @ concat frags"
  by (rule body_sink.do_get_run [OF assms(1) refl assms(2-12)])

definition get_answer :: "amqp_frame list" where
  "get_answer = [method_frame 1 (amqp_basic_get_ok_t 7 False [] [] 0), header_frame 1 (length (concat [[1, 2], [3, 4, 5 :: u8]])) no_properties,
     body_frame 1 [1, 2], body_frame 1 [3, 4, 5]]"

lemma get_answer_wf: "\<forall>g \<in> set get_answer. wf_frame g"
proof -
  have "wf_frame (method_frame 1 (amqp_basic_get_ok_t 7 False [] [] 0))"
    by (rule method_frame_wf) (simp_all add: short_bytes_def)
  moreover have "wf_frame (header_frame 1 len no_properties)" for len
    by (simp add: wf_frame_def header_frame_def frame_bytes_def payload_bytes_def wf_properties_def wf_basic_def
        properties_bytes_def basic_bytes_def no_properties_def when_set_def flag_bytes_def wf_flags_def wf_table_def)
  ultimately show ?thesis by (simp add: get_answer_def body_frame_wf)
qed

lemma get_answer_between: "between script_coming (stream_of get_answer) get_answer"
  unfolding get_answer_def
  by (rule stream_of_between) (use get_answer_wf in \<open>simp_all add: get_answer_def method_frame_eighth AMQP_BASIC_GET_OK_METHOD_def\<close>)

lemma get_answer_length: "length (wire get_answer) < 200"
  by (simp add: get_answer_def header_frame_def body_frame_def method_frame_def frame_bytes_def payload_bytes_def method_wire_def
      properties_bytes_def basic_bytes_def no_properties_def when_set_def flag_bytes_def short_bytes_def)

theorem amqp_get_writes_body_witness:
  "\<exists>(d :: stream) c'. amqp_send_method scripted 1 AMQP_BASIC_GET_METHOD (Some (amqp_basic_get_t 0 (cstring_bytes None) True))
      (stream_of get_answer) = (Ok (), d) \<and>
    do_get 3 500 scripted script_output None (stream_of get_answer) = (Ok (Inr True), c') \<and>
    written c' = written d @ [1, 2, 3, 4, 5]"
proof -
  let ?get = "amqp_basic_get_t 0 (cstring_bytes None) True" and ?s = "stream_of get_answer"
  have f: "wf_frame (method_frame 1 ?get)" "length (frame_bytes (method_frame 1 ?get)) = 16"
    by (auto intro!: method_frame_wf simp: short_bytes_def cstring_bytes_def)
      (simp add: method_frame_def frame_bytes_def payload_bytes_def method_wire_def short_bytes_def cstring_bytes_def)
  have l: "length (frame_bytes (method_frame 1 ?get)) \<le> outbound_len ?s" using f(2) by simp
  from script.send_method_between [OF get_answer_between _ f(1) [unfolded method_frame_def] l [unfolded method_frame_def]]
  obtain d where d: "amqp_send_method scripted 1 AMQP_BASIC_GET_METHOD (Some ?get) ?s = (Ok (), d)"
    "between script_coming d get_answer"
    "enough d (script_coming (conn.more d)) = enough ?s (script_coming (conn.more ?s))" by auto
  have n: "enough d (script_coming (conn.more d)) < 500" unfolding d(3) using get_answer_length by (simp add: enough_def)
  have b: "awaiting d (script_coming (conn.more d)) ([] @ method_frame 1 (amqp_basic_get_ok_t 7 False [] [] 0) #
      header_frame 1 (length (concat [[1, 2], [3, 4, 5 :: u8]])) no_properties # map (body_frame 1) [[1, 2], [3, 4, 5]] @ [])"
    "\<not> amqp_heartbeat_enabled d" "0 < length (sock_inbound_buffer d)" "queued_frames d = []"
    using d(2) by (simp_all add: between_def get_answer_def)
  have nd: "ndebug scripted" by (simp add: scripted_def)
  from amqp_get_writes_body [where k = 3, OF script_pipe.body_sink_axioms d(1) b(1) nd b(2,3) _ b(4) _ _ _ n]
  show ?thesis using d(1) by auto
qed

text \<open>
  C25: the options for server, port, user name, password and virtual host do not work.  The connection
  info is filled with the defaults before the URL and the options are looked at, and each option is taken
  to clash with what is there already: with any of them every tool ends with an error, with or without a
  URL.  Without options and URL it takes the defaults.
\<close>

theorem tools_refuse_connection_options:
  "\<exists>r s'. init_connection_info with_ssl opts s = (Ok r, s') \<and> (any_option opts \<longrightarrow> (\<exists>msg. r = Inl msg)) \<and>
    (\<not> any_option opts \<and> opt_url opts = None \<longrightarrow> r = Inr () \<and> parsed s' = amqp_default_connection_info)"
  by (rule connection_info_refuses)

theorem tools_refuse_connection_options_witness:
  "(\<exists>msg s'. init_connection_info False \<lparr>opt_url = None, opt_server = None, opt_port = - 1, opt_vhost = None,
      opt_username = Some (ascii ''me''), opt_password = None, opt_ssl = False\<rparr>
      \<lparr>url_text = [], parsed = amqp_default_connection_info\<rparr> = (Ok (Inl msg), s')) \<and>
   (\<exists>s'. init_connection_info False \<lparr>opt_url = None, opt_server = None, opt_port = - 1, opt_vhost = None,
      opt_username = None, opt_password = None, opt_ssl = False\<rparr>
      \<lparr>url_text = [], parsed = amqp_default_connection_info\<rparr> = (Ok (Inr ()), s'))"
  (is "(\<exists>msg s'. init_connection_info False ?me ?s = _) \<and> (\<exists>s'. init_connection_info False ?plain ?s = _)")
  using tools_refuse_connection_options [of False ?me ?s] tools_refuse_connection_options [of False ?plain ?s]
  by (auto simp: any_option_def)

text \<open>
  \<^verbatim>\<open>amqp-consume\<close> binds the queue to each key.  Cutting up the routing key with \<^verbatim>\<open>strtok_r\<close> gives the parts
  between commas that are not empty, and each of them is bound, in order, however many there are: the
  limit of 1023 does not apply, for the keys are not counted.
\<close>

theorem every_key_is_bound:
  "bind_tokens n P queue exchange 0 s = bind_each n P queue exchange
     (filter (\<lambda>key. key \<noteq> []) (split_on LISTEN_KEYS_DELIMITER s))"
  using bind_tokens_each [of 0] by (simp add: listen_keys_def)

end
