(* ===== verification/Jzon.thy ===== *)
theory Jzon
  imports Prelude
begin

text \<open>
  The JSON library of the recognition server, \<^verbatim>\<open>src/native/jzon.cpp\<close> and \<^verbatim>\<open>jzon.h\<close>: the tree of nodes, the
  writer and the parser.

  The classes \<^verbatim>\<open>Object\<close>, \<^verbatim>\<open>Array\<close> and \<^verbatim>\<open>Value\<close> are the constructors of \<open>node\<close>; nodes are copied when they are
  added, so a tree is a value.  A method that may throw returns \<open>Inl\<close> with the exception.  Characters are
  bytes.  Reading and printing of floating-point numbers and the iterators, which are those of lists, are left
  out.
\<close>

section \<open>Nodes\<close>

datatype value_type = VT_NULL | VT_STRING | VT_NUMBER | VT_BOOL

datatype node = Object "(bytes \<times> node) list" | Array "node list" | Value value_type bytes

datatype jzon_exception = TypeException | ValueException | NotFoundException | Out_of_range

fun IsObject :: "node \<Rightarrow> bool" where
  "IsObject (Object _) = True" | "IsObject _ = False"

fun IsArray :: "node \<Rightarrow> bool" where
  "IsArray (Array _) = True" | "IsArray _ = False"

fun IsValue :: "node \<Rightarrow> bool" where
  "IsValue (Value _ _) = True" | "IsValue _ = False"

fun AsObject :: "node \<Rightarrow> jzon_exception + (bytes \<times> node) list" where
  "AsObject (Object children) = Inr children" | "AsObject _ = Inl TypeException"

fun AsArray :: "node \<Rightarrow> jzon_exception + node list" where
  "AsArray (Array children) = Inr children" | "AsArray _ = Inl TypeException"

fun AsValue :: "node \<Rightarrow> jzon_exception + (value_type \<times> bytes)" where
  "AsValue (Value type valueStr) = Inr (type, valueStr)" | "AsValue _ = Inl TypeException"

fun IsString :: "node \<Rightarrow> bool" where
  "IsString (Value type _) = (type = VT_STRING)" | "IsString _ = False"

fun ToString :: "node \<Rightarrow> jzon_exception + bytes" where
  "ToString (Value type valueStr) = Inr (if type = VT_NULL then ascii ''null'' else valueStr)"
| "ToString _ = Inl TypeException"

text \<open>
  \<^verbatim>\<open>sstr >> val\<close>: a sign and digits; no digits give 0, and what is out of range the nearest \<^verbatim>\<open>int\<close>.  From an
  empty text nothing is read, and \<^verbatim>\<open>val\<close> is left without a value (\<open>None\<close>).  The text of a number has no blanks.
\<close>

definition digit :: "u8 \<Rightarrow> bool" where
  "digit c \<longleftrightarrow> 48 \<le> c \<and> c \<le> 57"

definition digits_value :: "bytes \<Rightarrow> nat" where
  "digits_value cs = foldl (\<lambda>n c. 10 * n + (unat c - 48)) 0 cs"

definition clamp_int :: "int \<Rightarrow> int" where
  "clamp_int i = max (- (2 ^ 31)) (min (2 ^ 31 - 1) i)"

definition read_int :: "bytes \<Rightarrow> int option" where
  "read_int s = (case s of
       c # cs \<Rightarrow> Some (clamp_int (if c = 45 then - int (digits_value (takeWhile digit cs))
         else if c = 43 then int (digits_value (takeWhile digit cs)) else int (digits_value (takeWhile digit s))))
     | [] \<Rightarrow> None)"

fun ToInt :: "node \<Rightarrow> (jzon_exception + int) option" where
  "ToInt (Value VT_NULL _) = Some (Inr 0)"
| "ToInt (Value VT_NUMBER valueStr) = map_option Inr (read_int valueStr)"
| "ToInt (Value _ _) = Some (Inl ValueException)"
| "ToInt _ = Some (Inl TypeException)"

fun ToBool :: "node \<Rightarrow> jzon_exception + bool" where
  "ToBool (Value VT_NULL _) = Inr False"
| "ToBool (Value VT_BOOL valueStr) = Inr (valueStr = ascii ''true'')"
| "ToBool (Value _ _) = Inl ValueException"
| "ToBool _ = Inl TypeException"

fun GetCount :: "node \<Rightarrow> nat" where
  "GetCount (Object children) = length children"
| "GetCount (Array children) = length children"
| "GetCount (Value _ _) = 0"

fun Has :: "bytes \<Rightarrow> node \<Rightarrow> jzon_exception + bool" where
  "Has name (Object children) = Inr (name \<in> fst ` set children)"
| "Has name _ = Inl TypeException"

fun Get_name :: "bytes \<Rightarrow> node \<Rightarrow> jzon_exception + node" where
  "Get_name name (Object children) = (case find (\<lambda>c. fst c = name) children of
     Some c \<Rightarrow> Inr (snd c) | None \<Rightarrow> Inl NotFoundException)"
| "Get_name name _ = Inl TypeException"

fun Get_index :: "nat \<Rightarrow> node \<Rightarrow> jzon_exception + node" where
  "Get_index i (Array children) = (if i < length children then Inr (children ! i) else Inl NotFoundException)"
| "Get_index i _ = Inl TypeException"

text \<open>\<^verbatim>\<open>Add\<close> and \<^verbatim>\<open>Remove\<close> are members of the classes; on a node of another class they do not exist.\<close>

fun Object_Add :: "bytes \<Rightarrow> node \<Rightarrow> node \<Rightarrow> node" where
  "Object_Add name child (Object children) = Object (children @ [(name, child)])"
| "Object_Add name child other = other"

fun Array_Add :: "node \<Rightarrow> node \<Rightarrow> node" where
  "Array_Add child (Array children) = Array (children @ [child])"
| "Array_Add child other = other"

primrec remove_first :: "bytes \<Rightarrow> (bytes \<times> node) list \<Rightarrow> (bytes \<times> node) list" where
  "remove_first name [] = []"
| "remove_first name (c # cs) = (if fst c = name then cs else c # remove_first name cs)"

fun Object_Remove :: "bytes \<Rightarrow> node \<Rightarrow> node" where
  "Object_Remove name (Object children) = Object (remove_first name children)"
| "Object_Remove name other = other"

fun Array_Remove :: "nat \<Rightarrow> node \<Rightarrow> node" where
  "Array_Remove i (Array children) = Array (if i < length children then take i children @ drop (Suc i) children else children)"
| "Array_Remove i other = other"

fun Clear :: "node \<Rightarrow> node" where
  "Clear (Object children) = Object []"
| "Clear (Array children) = Array []"
| "Clear (Value type valueStr) = Value type valueStr"

text \<open>The constructors and assignments of \<^verbatim>\<open>Value\<close> that take a node: only a value is taken.\<close>

fun Set_node :: "node \<Rightarrow> node \<Rightarrow> jzon_exception + node" where
  "Set_node rhs (Value type valueStr) =
     (case AsValue rhs of Inl e \<Rightarrow> Inl e | Inr (type', valueStr') \<Rightarrow> Inr (Value type' valueStr'))"
| "Set_node rhs other = Inl TypeException"

section \<open>Escapes\<close>

definition escapes :: "(u8 \<times> u8) list" where
  "escapes = [(92, 92), (34, 34), (10, 110), (9, 116), (8, 98), (12, 102), (13, 114)]"

text \<open>The second character of the escape; \<open>None\<close> is the null character that stands for no escape.\<close>

definition getEscaped :: "u8 \<Rightarrow> u8 option" where
  "getEscaped c = map_of escapes c"

definition getUnescaped :: "u8 \<Rightarrow> u8 \<Rightarrow> u8 option" where
  "getUnescaped c1 c2 = (if c1 = 92 then map_option fst (find (\<lambda>e. snd e = c2) escapes) else None)"

primrec EscapeString :: "bytes \<Rightarrow> bytes" where
  "EscapeString [] = []"
| "EscapeString (c # cs) = (case getEscaped c of Some e \<Rightarrow> [92, e] | None \<Rightarrow> [c]) @ EscapeString cs"

fun UnescapeString :: "bytes \<Rightarrow> bytes" where
  "UnescapeString [] = []"
| "UnescapeString [c] = [c]"
| "UnescapeString (c # c2 # cs) = (case getUnescaped c c2 of Some a \<Rightarrow> a # UnescapeString cs
     | None \<Rightarrow> c # UnescapeString (c2 # cs))"

text \<open>\<^verbatim>\<open>Value::Set\<close> for a string, null, an \<^verbatim>\<open>int\<close> and a \<^verbatim>\<open>bool\<close>; a string is unescaped.\<close>

definition Value_string :: "bytes \<Rightarrow> node" where
  "Value_string s = Value VT_STRING (UnescapeString s)"

definition SetNull :: node where
  "SetNull = Value VT_NULL []"

definition Value_int :: "int \<Rightarrow> node" where
  "Value_int i = Value VT_NUMBER (decimal i)"

definition Value_bool :: "bool \<Rightarrow> node" where
  "Value_bool b = Value VT_BOOL (if b then ascii ''true'' else ascii ''false'')"

section \<open>Writing\<close>

record format =
  f_newline :: bool
  f_spacing :: bool
  f_useTabs :: bool
  f_indentSize :: u32

definition StandardFormat :: format where
  "StandardFormat = \<lparr>f_newline = True, f_spacing = True, f_useTabs = True, f_indentSize = 1\<rparr>"

definition NoFormat :: format where
  "NoFormat = \<lparr>f_newline = False, f_spacing = False, f_useTabs = False, f_indentSize = 0\<rparr>"

definition GetSpacing :: "format \<Rightarrow> bytes" where
  "GetSpacing f = (if f_spacing f then [32] else [])"

definition GetNewline :: "format \<Rightarrow> bytes" where
  "GetNewline f = (if f_newline f then [10] else GetSpacing f)"

definition GetIndentation :: "format \<Rightarrow> u32 \<Rightarrow> bytes" where
  "GetIndentation f level = (if \<not> f_newline f then []
     else replicate (unat (f_indentSize f * level)) (if f_useTabs f then 9 else 32))"

definition writeValue :: "value_type \<Rightarrow> bytes \<Rightarrow> bytes" where
  "writeValue type valueStr = (if type = VT_STRING then [34] @ EscapeString valueStr @ [34]
     else if type = VT_NULL then ascii ''null'' else valueStr)"

text \<open>\<open>first\<close> is \<^verbatim>\<open>it == node.begin()\<close>; names are written as they are.\<close>

fun writeNode :: "format \<Rightarrow> u32 \<Rightarrow> node \<Rightarrow> bytes"
and writeMembers :: "format \<Rightarrow> u32 \<Rightarrow> bool \<Rightarrow> (bytes \<times> node) list \<Rightarrow> bytes"
and writeElements :: "format \<Rightarrow> u32 \<Rightarrow> bool \<Rightarrow> node list \<Rightarrow> bytes" where
  "writeNode f level (Object children) = [123] @ GetNewline f @ writeMembers f level True children @
     GetNewline f @ GetIndentation f level @ [125]"
| "writeNode f level (Array children) = [91] @ GetNewline f @ writeElements f level True children @
     GetNewline f @ GetIndentation f level @ [93]"
| "writeNode f level (Value type valueStr) = writeValue type valueStr"
| "writeMembers f level first [] = []"
| "writeMembers f level first ((name, child) # children) =
     (if first then [] else [44] @ GetNewline f) @ GetIndentation f (level + 1) @ [34] @ name @ [34] @ [58] @ GetSpacing f @
     writeNode f (level + 1) child @ writeMembers f level False children"
| "writeElements f level first [] = []"
| "writeElements f level first (child # children) =
     (if first then [] else [44] @ GetNewline f) @ GetIndentation f (level + 1) @
     writeNode f (level + 1) child @ writeElements f level False children"

definition Write :: "format \<Rightarrow> node \<Rightarrow> bytes" where
  "Write f root = writeNode f 0 root"

section \<open>Blanks and comments\<close>

text \<open>
  \<open>c0\<close> is the character before, null at the beginning.  An opening or closing of a comment takes both its
  characters.  The depth of comments goes below zero where one is closed that was not opened.
\<close>

definition blank :: "u8 \<Rightarrow> bool" where
  "blank c \<longleftrightarrow> c \<in> {10, 32, 9, 13, 12}"

fun removeWs :: "u8 \<Rightarrow> bool \<Rightarrow> int \<Rightarrow> bool \<Rightarrow> bytes \<Rightarrow> bytes" where
  "removeWs c0 line depth inString [] = []"
| "removeWs c0 line depth inString (c1 # rest) =
     (let inString = (if c0 \<noteq> 92 \<and> c1 = 34 then \<not> inString else inString);
          c2 = (case rest of [] \<Rightarrow> 0 | c # _ \<Rightarrow> c)
      in if \<not> inString \<and> c1 = 47 \<and> c2 = 42 then
           (case rest of [] \<Rightarrow> [] | c # cs \<Rightarrow> removeWs c line (depth + 1) inString cs)
         else if \<not> inString \<and> c1 = 42 \<and> c2 = 47 then
           (case rest of [] \<Rightarrow> [] | c # cs \<Rightarrow> removeWs c line (depth - 1) inString cs)
         else if \<not> inString \<and> c1 = 47 \<and> c2 = 47 then
           (case rest of [] \<Rightarrow> [] | c # cs \<Rightarrow> removeWs c True depth inString cs)
         else
           let line = (if \<not> inString \<and> c1 = 10 then False else line)
           in (if line \<or> 0 < depth then [] else if inString \<or> \<not> blank c1 then [c1] else []) @
              removeWs c1 line depth inString rest)"

definition RemoveWhitespace :: "bytes \<Rightarrow> bytes" where
  "RemoveWhitespace json = removeWs 0 False 0 False json"

datatype node_type = Object_type | Array_type | Value_type

definition DetermineType :: "bytes \<Rightarrow> jzon_exception + node_type" where
  "DetermineType json = (case RemoveWhitespace json of [] \<Rightarrow> Inl Out_of_range
     | c # _ \<Rightarrow> Inr (if c = 123 then Object_type else if c = 91 then Array_type else Value_type))"

section \<open>Tokens\<close>

datatype token = T_UNKNOWN | T_OBJ_BEGIN | T_OBJ_END | T_ARRAY_BEGIN | T_ARRAY_END | T_SEPARATOR_NODE |
  T_SEPARATOR_NAME | T_VALUE

type_synonym datum = "value_type \<times> bytes"

definition structural :: "u8 \<Rightarrow> token option" where
  "structural c = (if c = 123 then Some T_OBJ_BEGIN else if c = 125 then Some T_OBJ_END
     else if c = 91 then Some T_ARRAY_BEGIN else if c = 93 then Some T_ARRAY_END
     else if c = 44 then Some T_SEPARATOR_NODE else if c = 58 then Some T_SEPARATOR_NAME else None)"

text \<open>The string behind an opening quotation mark, and what is left behind the closing one; \<open>c1\<close> is the character before.\<close>

fun readString :: "u8 \<Rightarrow> bytes \<Rightarrow> bytes \<times> bytes" where
  "readString c1 [] = ([], [])"
| "readString c1 (c2 # rest) = (if c1 \<noteq> 92 \<and> c2 = 34 then ([], rest)
     else case readString c2 rest of (str, left) \<Rightarrow> (c2 # str, left))"

definition isNumber :: "u8 \<Rightarrow> bool" where
  "isNumber c \<longleftrightarrow> digit c \<or> c = 46 \<or> c = 45"

text \<open>\<^verbatim>\<open>toupper\<close> in the C locale; a character from 128 on, a negative argument, is taken to stay what it is.\<close>

definition upper :: "u8 \<Rightarrow> u8" where
  "upper c = (if 97 \<le> c \<and> c \<le> 122 then c - 32 else c)"

definition interpretValue :: "bytes \<Rightarrow> datum option" where
  "interpretValue s =
     (if map upper s = ascii ''NULL'' then Some (VT_NULL, [])
      else if map upper s = ascii ''TRUE'' then Some (VT_BOOL, ascii ''true'')
      else if map upper s = ascii ''FALSE'' then Some (VT_BOOL, ascii ''false'')
      else if list_all isNumber s then Some (VT_NUMBER, s) else None)"

text \<open>Saving the buffer: the tokens and the data it gives.\<close>

definition save_buffer :: "bytes \<Rightarrow> token list \<times> datum list" where
  "save_buffer buf = (if buf = [] then ([], []) else case interpretValue buf of
     Some d \<Rightarrow> ([T_VALUE], [d]) | None \<Rightarrow> ([T_UNKNOWN], [(VT_STRING, buf)]))"

lemma readString_shorter: "length (snd (readString c s)) \<le> length s"
  by (induction c s rule: readString.induct) (auto split: prod.splits)

text \<open>
  The loop of \<^verbatim>\<open>tokenize\<close> from the cursor on, with what is in the buffer: the tokens and data it adds to the
  queues.  A string is read, and its datum put away, before the buffer is saved.
\<close>

function tokenize_from :: "bytes \<Rightarrow> bytes \<Rightarrow> token list \<times> datum list" where
  "tokenize_from buf [] = ([], [])"
| "tokenize_from buf (c # rest) =
     (if c = 34 then
        (case readString 0 rest of (str, left) \<Rightarrow>
         case save_buffer buf of (ts, ds) \<Rightarrow>
         case tokenize_from [] left of (ts', ds') \<Rightarrow> (ts @ [T_VALUE] @ ts', [(VT_STRING, str)] @ ds @ ds'))
      else case structural c of
        Some t \<Rightarrow>
          (case save_buffer buf of (ts, ds) \<Rightarrow>
           case tokenize_from [] rest of (ts', ds') \<Rightarrow> (ts @ [t] @ ts', ds @ ds'))
      | None \<Rightarrow> if rest = [] then save_buffer (buf @ [c]) else tokenize_from (buf @ [c]) rest)"
  by pat_completeness auto
termination
proof (relation "measure (\<lambda>(buf, s). length s)")
  fix buf :: bytes and c rest str left
  assume "(str, left) = readString 0 rest"
  then have "length left \<le> length rest" using readString_shorter [of 0 rest] by (metis snd_conv)
  then show "(([], left), buf, c # rest) \<in> measure (\<lambda>(buf, s). length s)" by simp
qed auto

section \<open>The parser\<close>

text \<open>
  \<open>root\<close> is the node the parser is to fill; \<open>temporary\<close> counts the nodes made with \<^verbatim>\<open>new\<close> and not deleted.
  The queues are members, and what a failed parse leaves in them is there for the next.
\<close>

record parser =
  json :: bytes
  tokens :: "token list"
  data :: "datum list"
  root :: node
  error :: bytes
  temporary :: nat

definition new_parser :: "node \<Rightarrow> bytes \<Rightarrow> parser" where
  "new_parser rt text = \<lparr>json = RemoveWhitespace text, tokens = [], data = [], root = rt, error = [], temporary = 0\<rparr>"

definition SetJson :: "bytes \<Rightarrow> parser \<Rightarrow> parser" where
  "SetJson text p = p\<lparr>json := RemoveWhitespace text\<rparr>"

definition tokenize :: "parser \<Rightarrow> parser" where
  "tokenize p = (case tokenize_from [] (json p) of (ts, ds) \<Rightarrow> p\<lparr>tokens := tokens p @ ts, data := data p @ ds\<rparr>)"

text \<open>The stack holds pointers: to the root, which is at the bottom, or to a node of its own.\<close>

datatype pointer = To_root | To_node node

type_synonym stack = "(bytes \<times> pointer) list"

definition pointee :: "parser \<Rightarrow> pointer \<Rightarrow> node" where
  "pointee p q = (case q of To_root \<Rightarrow> root p | To_node n \<Rightarrow> n)"

text \<open>Changing the node at the top.\<close>

definition change_top :: "(node \<Rightarrow> node) \<Rightarrow> parser \<times> stack \<Rightarrow> parser \<times> stack" where
  "change_top f ps = (case ps of
       (p, (nm, To_root) # st) \<Rightarrow> (p\<lparr>root := f (root p)\<rparr>, (nm, To_root) # st)
     | (p, (nm, To_node n) # st) \<Rightarrow> (p, (nm, To_node (f n)) # st)
     | (p, []) \<Rightarrow> (p, []))"

datatype verdict = Go_on parser stack bytes | Return bool parser | Undefined

definition fail_with :: "string \<Rightarrow> parser \<Rightarrow> verdict" where
  "fail_with msg p = Return False (p\<lparr>error := ascii msg\<rparr>)"

definition begin_node :: "node \<Rightarrow> (node \<Rightarrow> bool) \<Rightarrow> string \<Rightarrow> parser \<Rightarrow> stack \<Rightarrow> bytes \<Rightarrow> verdict" where
  "begin_node fresh is_kind msg p st name =
     (if st = [] then if \<not> is_kind (root p) then fail_with msg p else Go_on p [(name, To_root)] []
      else Go_on (p\<lparr>temporary := temporary p + 1\<rparr>) ((name, To_node fresh) # st) [])"

definition end_node :: "token \<Rightarrow> parser \<Rightarrow> stack \<Rightarrow> bytes \<Rightarrow> verdict" where
  "end_node t p st outer_name = (case st of
       [] \<Rightarrow> fail_with ''Found end of object or array without beginning'' p
     | (name, q) # st' \<Rightarrow>
         if t = T_OBJ_END \<and> \<not> IsObject (pointee p q) then fail_with ''Mismatched end and beginning of object'' p
         else if t = T_ARRAY_END \<and> \<not> IsArray (pointee p q) then fail_with ''Mismatched end and beginning of array'' p
         else if st' = [] then Go_on p [] outer_name
         else
           let top = pointee p (snd (hd st')) in
           if IsObject top \<or> IsArray top then
             (case change_top (if IsObject top then Object_Add name (pointee p q) else Array_Add (pointee p q)) (p, st') of
                (p', st'') \<Rightarrow> if q = To_root then Undefined else Go_on (p'\<lparr>temporary := temporary p' - 1\<rparr>) st'' outer_name)
           else fail_with ''Can only add elements to objects and arrays'' p)"

definition datum_value :: "datum \<Rightarrow> node" where
  "datum_value d = (if fst d = VT_STRING then Value_string (snd d) else Value (fst d) (snd d))"

text \<open>A value is made with \<^verbatim>\<open>new\<close> and deleted again, unless it is the root.\<close>

definition take_value :: "parser \<Rightarrow> stack \<Rightarrow> bytes \<Rightarrow> verdict" where
  "take_value p st name =
     (if st = [] \<and> \<not> IsValue (root p) then fail_with ''The given root node is not a value'' p
      else case data p of
        [] \<Rightarrow> Undefined
      | d # ds \<Rightarrow>
          if st = [] then Go_on (p\<lparr>root := datum_value d, data := ds\<rparr>) [(name, To_root)] []
          else
            let top = pointee p (snd (hd st)) in
            case change_top (if IsObject top then Object_Add name (datum_value d)
                else if IsArray top then Array_Add (datum_value d) else (\<lambda>n. n)) (p\<lparr>data := ds\<rparr>, st) of
              (p', st') \<Rightarrow> Go_on p' st' [])"

definition take_name :: "parser \<Rightarrow> stack \<Rightarrow> verdict" where
  "take_name p st = (case data p of
       [] \<Rightarrow> Undefined
     | d # ds \<Rightarrow> if fst d \<noteq> VT_STRING then fail_with ''A name has to be a string'' p
         else Go_on (p\<lparr>data := ds\<rparr>) st (snd d))"

text \<open>The body of the loop of \<^verbatim>\<open>assemble\<close>, after the token has been taken off the queue.\<close>

definition assemble_token :: "token \<Rightarrow> parser \<Rightarrow> stack \<Rightarrow> bytes \<Rightarrow> verdict" where
  "assemble_token t p st name = (case t of
       T_UNKNOWN \<Rightarrow> (case data p of [] \<Rightarrow> Undefined
         | d # ds \<Rightarrow> Return False (p\<lparr>error := ascii ''Unknown token: '' @ snd d, data := ds\<rparr>))
     | T_OBJ_BEGIN \<Rightarrow> begin_node (Object []) IsObject ''The given root node is not an object'' p st name
     | T_ARRAY_BEGIN \<Rightarrow> begin_node (Array []) IsArray ''The given root node is not an array'' p st name
     | T_OBJ_END \<Rightarrow> end_node t p st name
     | T_ARRAY_END \<Rightarrow> end_node t p st name
     | T_VALUE \<Rightarrow>
         if tokens p \<noteq> [] \<and> hd (tokens p) = T_SEPARATOR_NAME then take_name (p\<lparr>tokens := tl (tokens p)\<rparr>) st
         else take_value p st name
     | _ \<Rightarrow> Go_on p st name)"

lemma change_top_tokens: "change_top f (p, st) = (p', st') \<Longrightarrow> tokens p' = tokens p"
  by (auto simp: change_top_def split: list.splits pointer.splits)

lemma assemble_token_tokens:
  "assemble_token t p st name = Go_on p' st' name' \<Longrightarrow> length (tokens p') \<le> length (tokens p)"
  by (cases t)
    (auto simp: assemble_token_def begin_node_def end_node_def take_value_def take_name_def fail_with_def Let_def
      dest: change_top_tokens split: list.splits if_splits prod.splits)

function assemble :: "parser \<Rightarrow> stack \<Rightarrow> bytes \<Rightarrow> verdict" where
  "assemble p st name = (case tokens p of
       [] \<Rightarrow> Return True p
     | t # ts \<Rightarrow> (case assemble_token t (p\<lparr>tokens := ts\<rparr>) st name of
           Go_on p' st' name' \<Rightarrow> assemble p' st' name'
         | v \<Rightarrow> v))"
  by pat_completeness auto
termination
proof (relation "measure (\<lambda>(p, st, name). length (tokens p))")
  fix p :: parser and st name t ts p' st' name'
  assume "tokens p = t # ts" and "assemble_token t (p\<lparr>tokens := ts\<rparr>) st name = Go_on p' st' name'"
  then show "((p', st', name'), p, st, name) \<in> measure (\<lambda>(p, st, name). length (tokens p))"
    using assemble_token_tokens [of t "p\<lparr>tokens := ts\<rparr>" st name p' st' name'] by simp
qed simp

declare assemble.simps [simp del]

definition Parse :: "parser \<Rightarrow> verdict" where
  "Parse p = assemble (tokenize p) [] []"

section \<open>Files\<close>

text \<open>
  The files are a map, and \<open>writable\<close> says which names can be opened for writing; that opening failed is not
  noticed.  For a file that cannot be opened \<^verbatim>\<open>tellg\<close> is -1, and a string is made as long as that: the exception
  is \<^verbatim>\<open>length_error\<close> of the library.
\<close>

type_synonym files = "bytes \<rightharpoonup> bytes"

definition FileWriter_Write :: "(bytes \<Rightarrow> bool) \<Rightarrow> bytes \<Rightarrow> node \<Rightarrow> format \<Rightarrow> files \<Rightarrow> files" where
  "FileWriter_Write writable filename rt f fs = (if writable filename then fs(filename \<mapsto> Write f rt) else fs)"

datatype file_exception = Length_error

definition FileReader :: "files \<Rightarrow> bytes \<Rightarrow> file_exception + bytes" where
  "FileReader fs filename = (case fs filename of None \<Rightarrow> Inl Length_error | Some contents \<Rightarrow> Inr contents)"

text \<open>The result, the node as it was filled, and the error of the reader, which was \<open>err\<close>.\<close>

definition FileReader_Read :: "bytes \<Rightarrow> bytes \<Rightarrow> node \<Rightarrow> (bool \<times> node \<times> bytes) option" where
  "FileReader_Read contents err rt = (case Parse (new_parser rt contents) of
       Return False p \<Rightarrow> Some (False, root p, error p)
     | Return True p \<Rightarrow> Some (True, root p, err)
     | _ \<Rightarrow> None)"

definition ReadFile :: "files \<Rightarrow> bytes \<Rightarrow> node \<Rightarrow> file_exception + (bool \<times> node \<times> bytes) option" where
  "ReadFile fs filename rt = (case FileReader fs filename of Inl e \<Rightarrow> Inl e | Inr contents \<Rightarrow> Inr (FileReader_Read contents [] rt))"

section \<open>No access to an empty queue\<close>

definition takes_datum :: "token \<Rightarrow> bool" where
  "takes_datum t \<longleftrightarrow> t = T_VALUE \<or> t = T_UNKNOWN"

lemma takes_datum_simps [simp]:
  "takes_datum T_VALUE" "takes_datum T_UNKNOWN" "\<not> takes_datum T_SEPARATOR_NAME" "\<not> takes_datum T_SEPARATOR_NODE"
  "\<not> takes_datum T_OBJ_BEGIN" "\<not> takes_datum T_OBJ_END" "\<not> takes_datum T_ARRAY_BEGIN" "\<not> takes_datum T_ARRAY_END"
  by (simp_all add: takes_datum_def)

text \<open>There is a datum for each token that takes one; a failure may leave some data too many.\<close>

definition supplied :: "parser \<Rightarrow> bool" where
  "supplied p \<longleftrightarrow> length (filter takes_datum (tokens p)) \<le> length (data p)"

definition root_below :: "stack \<Rightarrow> bool" where
  "root_below st \<longleftrightarrow> To_root \<notin> set (butlast (map snd st))"

lemma root_below_Nil [simp]: "root_below []" "root_below [x]"
  by (simp_all add: root_below_def)

lemma root_below_Cons: "st \<noteq> [] \<Longrightarrow> root_below (x # st) \<longleftrightarrow> snd x \<noteq> To_root \<and> root_below st"
  by (auto simp: root_below_def)

lemma structural_takes: "structural c = Some t \<Longrightarrow> \<not> takes_datum t"
  by (auto simp: structural_def takes_datum_def split: if_splits)

lemma save_buffer_supplied: "save_buffer buf = (ts, ds) \<Longrightarrow> length (filter takes_datum ts) = length ds"
  by (auto simp: save_buffer_def takes_datum_def split: if_splits option.splits)

lemma tokenize_from_supplied: "tokenize_from buf s = (ts, ds) \<Longrightarrow> length (filter takes_datum ts) = length ds"
proof (induction buf s arbitrary: ts ds rule: tokenize_from.induct)
  case (2 buf c rest)
  show ?case
  proof (cases "c = 34")
    case True
    obtain str left where r: "readString 0 rest = (str, left)" by fastforce
    obtain us es where b: "save_buffer buf = (us, es)" by fastforce
    obtain ts' ds' where l: "tokenize_from [] left = (ts', ds')" by fastforce
    from 2(1) [OF True r [symmetric] b [symmetric] l] save_buffer_supplied [OF b] show ?thesis
      using 2(4) True r b l by auto
  next
    case False
    show ?thesis
    proof (cases "structural c")
      case None
      then show ?thesis using 2(2) [OF False None] 2(4) False save_buffer_supplied by (auto split: if_splits)
    next
      case (Some t)
      obtain us es where b: "save_buffer buf = (us, es)" by fastforce
      obtain ts' ds' where l: "tokenize_from [] rest = (ts', ds')" by fastforce
      from 2(3) [OF False Some b [symmetric] l] save_buffer_supplied [OF b] structural_takes [OF Some] show ?thesis
        using 2(4) False Some b l by auto
    qed
  qed
qed simp

lemma tokenize_supplied: "supplied p \<Longrightarrow> supplied (tokenize p)"
  using tokenize_from_supplied [of "[]" "json p"] by (auto simp: tokenize_def supplied_def split: prod.splits)

lemma change_top_same:
  "change_top f (p, st) = (p', st') \<Longrightarrow> tokens p' = tokens p \<and> data p' = data p \<and> temporary p' = temporary p \<and>
    (st' = [] \<longleftrightarrow> st = []) \<and> root_below st' = root_below st"
  by (auto simp: change_top_def root_below_def split: list.splits pointer.splits)

text \<open>What a step leaves: the queues in step, and the root at the bottom of the stack.\<close>

definition good :: "verdict \<Rightarrow> bool" where
  "good v \<longleftrightarrow> (case v of Go_on p st name \<Rightarrow> supplied p \<and> root_below st | Return b p \<Rightarrow> supplied p | Undefined \<Rightarrow> False)"

lemma good_simps [simp]:
  "good (Go_on p st name) = (supplied p \<and> root_below st)" "good (Return b p) = supplied p" "\<not> good Undefined"
  by (simp_all add: good_def)

lemma end_node_good:
  assumes "supplied p" and "root_below st"
  shows "good (end_node t p st name)"
proof (cases st)
  case Nil
  then show ?thesis using assms by (simp add: end_node_def fail_with_def supplied_def)
next
  case (Cons x st')
  show ?thesis
  proof (cases "st' = []")
    case True
    then show ?thesis using assms Cons by (auto simp: end_node_def fail_with_def supplied_def split: prod.splits)
  next
    case False
    then have "snd x \<noteq> To_root" "root_below st'" using assms(2) Cons root_below_Cons by auto
    then show ?thesis using assms(1) Cons False
      by (auto simp: end_node_def fail_with_def supplied_def Let_def dest: change_top_same split: prod.splits)
  qed
qed

lemma assemble_token_good:
  assumes "supplied p" and "tokens p = t # ts" and "root_below st"
  shows "good (assemble_token t (p\<lparr>tokens := ts\<rparr>) st name)"
proof -
  have s: "length (filter takes_datum (t # ts)) \<le> length (data p)" using assms by (simp add: supplied_def)
  have v: "good (take_value (p\<lparr>tokens := ts\<rparr>) st name)" if t: "t = T_VALUE"
  proof -
    obtain d ds where "data p = d # ds" using s t by (cases "data p") auto
    then show ?thesis using s t assms(3)
      by (auto simp: take_value_def fail_with_def supplied_def Let_def dest!: change_top_same split: prod.splits)
  qed
  have n: "good (take_name (p\<lparr>tokens := tl ts\<rparr>) st)" if t: "t = T_VALUE" "ts \<noteq> []" "hd ts = T_SEPARATOR_NAME"
  proof -
    obtain us where "ts = T_SEPARATOR_NAME # us" using t by (cases ts) auto
    moreover obtain d ds where "data p = d # ds" using s t by (cases "data p") auto
    ultimately show ?thesis using s t assms(3)
      by (auto simp: take_name_def fail_with_def supplied_def)
  qed
  have e: "good (end_node t (p\<lparr>tokens := ts\<rparr>) st name)"
    using s assms(3) by (intro end_node_good) (auto simp: supplied_def split: if_splits)
  show ?thesis
  proof (cases t)
    case T_UNKNOWN
    obtain d ds where "data p = d # ds" using s unfolding T_UNKNOWN by (cases "data p") auto
    then show ?thesis using T_UNKNOWN s by (simp add: assemble_token_def supplied_def)
  qed (use s v n e assms(3) in \<open>auto simp: assemble_token_def begin_node_def fail_with_def supplied_def root_below_Cons\<close>)
qed

lemma assemble_good: "supplied p \<Longrightarrow> root_below st \<Longrightarrow> \<exists>b p'. assemble p st name = Return b p' \<and> supplied p'"
proof (induction p st name rule: assemble.induct)
  case (1 p st name)
  show ?case
  proof (cases "tokens p")
    case Nil
    then have "assemble p st name = Return True p" by (subst assemble.simps) simp
    with 1(2) show ?thesis by blast
  next
    case (Cons t ts)
    from assemble_token_good [OF 1(2) Cons 1(3), of name] show ?thesis
      using 1(1) [OF Cons] Cons
      by (subst assemble.simps) (cases "assemble_token t (p\<lparr>tokens := ts\<rparr>) st name"; simp)
  qed
qed

section \<open>Strings\<close>

lemma escape_chars: "getEscaped c = Some e \<Longrightarrow> getUnescaped 92 e = Some c \<and> e \<noteq> 0"
  by (auto simp: getEscaped_def getUnescaped_def escapes_def split: if_splits)

lemma no_escape_chars: "getEscaped c = None \<Longrightarrow> c \<noteq> 92 \<and> c \<noteq> 34"
  by (auto simp: getEscaped_def escapes_def split: if_splits)

lemma unescape_other: "c \<noteq> 92 \<Longrightarrow> UnescapeString (c # cs) = c # UnescapeString cs"
  by (cases cs) (simp_all add: getUnescaped_def)

lemma unescape_escape [simp]: "UnescapeString (EscapeString s) = s"
proof (induction s)
  case (Cons c cs)
  show ?case
  proof (cases "getEscaped c")
    case None
    then show ?thesis using Cons no_escape_chars [OF None] by (simp add: unescape_other)
  next
    case (Some e)
    then show ?thesis using Cons escape_chars [OF Some] by simp
  qed
qed simp

text \<open>
  What can stand between quotation marks, \<open>c0\<close> being the character before: a quotation mark only behind a
  backslash, and no backslash at the end.
\<close>

fun quotable :: "u8 \<Rightarrow> bytes \<Rightarrow> bool" where
  "quotable c0 [] = (c0 \<noteq> 92)"
| "quotable c0 (c # cs) = ((c = 34 \<longrightarrow> c0 = 92) \<and> quotable c cs)"

lemma quotable_start: "c0 \<noteq> 92 \<Longrightarrow> c0' \<noteq> 92 \<Longrightarrow> quotable c0 s = quotable c0' s"
  by (cases s) auto

lemma quotable_escape: "s \<noteq> [] \<or> c0 \<noteq> 92 \<Longrightarrow> quotable c0 (EscapeString s) \<longleftrightarrow> s = [] \<or> last s \<noteq> 92"
proof (induction s arbitrary: c0)
  case (Cons c cs)
  show ?case
  proof (cases "getEscaped c")
    case None
    then show ?thesis using Cons.IH [of c] no_escape_chars [OF None] by (cases cs) auto
  next
    case (Some e)
    have "e = 92 \<longleftrightarrow> c = 92" using Some by (auto simp: getEscaped_def escapes_def split: if_splits)
    then show ?thesis using Cons.IH [of e] Some by (cases cs) auto
  qed
qed simp

lemma readString_quotable: "quotable c0 s \<Longrightarrow> readString c0 (s @ 34 # r) = (s, r)"
  by (induction c0 s rule: quotable.induct) auto

section \<open>What is left of a text\<close>

text \<open>Outside strings and comments the text \<open>w\<close> leaves \<open>v\<close>, whatever follows.\<close>

definition leaves :: "bytes \<Rightarrow> bytes \<Rightarrow> bool" where
  "leaves w v \<longleftrightarrow> (\<forall>c0. c0 \<noteq> 92 \<longrightarrow>
     (\<exists>c1. c1 \<noteq> 92 \<and> (\<forall>r. removeWs c0 False 0 False (w @ r) = v @ removeWs c1 False 0 False r)))"

lemma leaves_Nil: "leaves [] []"
  by (auto simp: leaves_def)

lemma leaves_append:
  assumes "leaves w v" and "leaves w' v'"
  shows "leaves (w @ w') (v @ v')"
  unfolding leaves_def
proof (intro allI impI)
  fix c0 :: u8
  assume "c0 \<noteq> 92"
  then obtain c1 where c1: "c1 \<noteq> 92" "\<And>r. removeWs c0 False 0 False (w @ r) = v @ removeWs c1 False 0 False r"
    using assms(1) unfolding leaves_def by blast
  then obtain c2 where "c2 \<noteq> 92" "\<And>r. removeWs c1 False 0 False (w' @ r) = v' @ removeWs c2 False 0 False r"
    using assms(2) unfolding leaves_def by blast
  with c1 show "\<exists>c1. c1 \<noteq> 92 \<and> (\<forall>r. removeWs c0 False 0 False ((w @ w') @ r) = (v @ v') @ removeWs c1 False 0 False r)"
    by (intro exI [of _ c2]) simp
qed

definition plain :: "u8 \<Rightarrow> bool" where
  "plain c \<longleftrightarrow> c \<notin> {92, 34, 47, 42}"

lemma removeWs_in_string:
  "\<not> (c0 \<noteq> 92 \<and> c = 34) \<Longrightarrow> removeWs c0 False 0 True (c # r) = c # removeWs c False 0 True r"
  "c0 \<noteq> 92 \<Longrightarrow> removeWs c0 False 0 True (34 # r) = 34 # removeWs 34 False 0 False r"
  "c0 \<noteq> 92 \<Longrightarrow> removeWs c0 False 0 False (34 # r) = 34 # removeWs 34 False 0 True r"
  by (simp_all only: removeWs.simps Let_def) (simp_all add: blank_def)

lemma removeWs_plain:
  "plain c \<Longrightarrow> removeWs c0 False 0 False (c # r) = (if blank c then [] else [c]) @ removeWs c False 0 False r"
  by (simp only: removeWs.simps Let_def) (simp add: plain_def)

declare removeWs.simps(2) [simp del]

lemma leaves_plain1: "plain c \<Longrightarrow> leaves [c] (if blank c then [] else [c])"
  by (auto simp: leaves_def removeWs_plain) (auto simp: plain_def)

lemma leaves_plain: "list_all plain w \<Longrightarrow> leaves w (filter (\<lambda>c. \<not> blank c) w)"
proof (induction w)
  case (Cons c w)
  then have "leaves ([c] @ w) ((if blank c then [] else [c]) @ filter (\<lambda>c. \<not> blank c) w)"
    by (intro leaves_append leaves_plain1) simp_all
  then show ?case by (simp split: if_splits)
qed (simp add: leaves_Nil)

lemma removeWs_quotable:
  "quotable c0 s \<Longrightarrow> removeWs c0 False 0 True (s @ 34 # r) = s @ 34 # removeWs 34 False 0 False r"
  by (induction c0 s rule: quotable.induct) (auto simp: removeWs_in_string)

lemma leaves_quoted:
  assumes "quotable 0 s"
  shows "leaves (34 # s @ [34]) (34 # s @ [34])"
  unfolding leaves_def
proof (intro allI impI exI conjI)
  fix c0 :: u8 and r
  assume "c0 \<noteq> 92"
  moreover have "quotable 34 s" using assms quotable_start [of 0 34 s] by simp
  ultimately show "removeWs c0 False 0 False ((34 # s @ [34]) @ r) = (34 # s @ [34]) @ removeWs 34 False 0 False r"
    by (simp add: removeWs_in_string removeWs_quotable)
qed simp

lemma leaves_result:
  assumes "leaves w v"
  shows "RemoveWhitespace w = v"
proof -
  have "(0 :: u8) \<noteq> 92" by simp
  then obtain c1 where "removeWs 0 False 0 False (w @ []) = v @ removeWs c1 False 0 False []"
    using assms unfolding leaves_def by blast
  then show ?thesis by (simp add: RemoveWhitespace_def)
qed

section \<open>Trees that can be sent\<close>

text \<open>
  The names can stand between quotation marks as they are, no string ends in a backslash, a number is written
  with digits, points and signs, and the text of the others is what the parser stores.
\<close>

definition sendable_value :: "value_type \<Rightarrow> bytes \<Rightarrow> bool" where
  "sendable_value type s = (case type of VT_NULL \<Rightarrow> s = []
     | VT_STRING \<Rightarrow> s = [] \<or> last s \<noteq> 92
     | VT_NUMBER \<Rightarrow> s \<noteq> [] \<and> list_all isNumber s
     | VT_BOOL \<Rightarrow> s = ascii ''true'' \<or> s = ascii ''false'')"

fun sendable :: "node \<Rightarrow> bool"
  and sendable_members :: "(bytes \<times> node) list \<Rightarrow> bool"
  and sendable_elements :: "node list \<Rightarrow> bool" where
  "sendable (Object cs) = sendable_members cs"
| "sendable (Array cs) = sendable_elements cs"
| "sendable (Value type s) = sendable_value type s"
| "sendable_members [] = True"
| "sendable_members ((name, c) # cs) = (quotable 0 name \<and> sendable c \<and> sendable_members cs)"
| "sendable_elements [] = True"
| "sendable_elements (c # cs) = (sendable c \<and> sendable_elements cs)"

text \<open>The text without blanks, the tokens and the data of a tree.\<close>

fun compact :: "node \<Rightarrow> bytes"
  and compact_members :: "bool \<Rightarrow> (bytes \<times> node) list \<Rightarrow> bytes"
  and compact_elements :: "bool \<Rightarrow> node list \<Rightarrow> bytes" where
  "compact (Object cs) = [123] @ compact_members True cs @ [125]"
| "compact (Array cs) = [91] @ compact_elements True cs @ [93]"
| "compact (Value type s) = writeValue type s"
| "compact_members first [] = []"
| "compact_members first ((name, c) # cs) =
     (if first then [] else [44]) @ (34 # name @ [34]) @ [58] @ compact c @ compact_members False cs"
| "compact_elements first [] = []"
| "compact_elements first (c # cs) = (if first then [] else [44]) @ compact c @ compact_elements False cs"

fun toks :: "node \<Rightarrow> token list"
  and toks_members :: "bool \<Rightarrow> (bytes \<times> node) list \<Rightarrow> token list"
  and toks_elements :: "bool \<Rightarrow> node list \<Rightarrow> token list" where
  "toks (Object cs) = T_OBJ_BEGIN # toks_members True cs @ [T_OBJ_END]"
| "toks (Array cs) = T_ARRAY_BEGIN # toks_elements True cs @ [T_ARRAY_END]"
| "toks (Value type s) = [T_VALUE]"
| "toks_members first [] = []"
| "toks_members first ((name, c) # cs) =
     (if first then [] else [T_SEPARATOR_NODE]) @ T_VALUE # T_SEPARATOR_NAME # toks c @ toks_members False cs"
| "toks_elements first [] = []"
| "toks_elements first (c # cs) = (if first then [] else [T_SEPARATOR_NODE]) @ toks c @ toks_elements False cs"

fun dats :: "node \<Rightarrow> datum list"
  and dats_members :: "(bytes \<times> node) list \<Rightarrow> datum list"
  and dats_elements :: "node list \<Rightarrow> datum list" where
  "dats (Object cs) = dats_members cs"
| "dats (Array cs) = dats_elements cs"
| "dats (Value type s) = [(type, if type = VT_STRING then EscapeString s else s)]"
| "dats_members [] = []"
| "dats_members ((name, c) # cs) = (VT_STRING, name) # dats c @ dats_members cs"
| "dats_elements [] = []"
| "dats_elements (c # cs) = dats c @ dats_elements cs"

section \<open>The text of a tree without its blanks\<close>

lemma ascii_literals:
  "ascii ''null'' = [110, 117, 108, 108]" "ascii ''true'' = [116, 114, 117, 101]" "ascii ''false'' = [102, 97, 108, 115, 101]"
  "ascii ''NULL'' = [78, 85, 76, 76]" "ascii ''TRUE'' = [84, 82, 85, 69]" "ascii ''FALSE'' = [70, 65, 76, 83, 69]"
  by (simp_all add: ascii_def)

lemma isNumber_chars: "isNumber c \<Longrightarrow> plain c \<and> \<not> blank c \<and> c \<noteq> 34 \<and> structural c = None \<and> upper c = c \<and> c < 65"
  by (auto simp: isNumber_def digit_def plain_def blank_def structural_def upper_def word_le_nat_alt word_less_nat_alt split: if_splits)

text \<open>Characters of \<open>null\<close>, \<open>true\<close>, \<open>false\<close> and numbers.\<close>

definition word_char :: "u8 \<Rightarrow> bool" where
  "word_char c \<longleftrightarrow> plain c \<and> \<not> blank c \<and> structural c = None"

lemma sendable_word:
  "sendable_value type s \<Longrightarrow> type \<noteq> VT_STRING \<Longrightarrow> writeValue type s \<noteq> [] \<and> list_all word_char (writeValue type s)"
proof (cases type)
  case VT_NUMBER
  assume s: "sendable_value type s"
  have "list_all word_char s" if "list_all isNumber s"
    using that by (rule list.pred_mono_strong) (simp add: word_char_def isNumber_chars)
  with s VT_NUMBER show ?thesis by (simp add: sendable_value_def writeValue_def)
qed (auto simp: sendable_value_def writeValue_def ascii_literals word_char_def plain_def blank_def structural_def)

lemma leaves_word:
  assumes "list_all word_char w"
  shows "leaves w w"
proof -
  have "list_all plain w" "filter (\<lambda>c. \<not> blank c) w = w"
    using assms by (induction w) (auto simp: word_char_def)
  with leaves_plain [of w] show ?thesis by simp
qed

lemma leaves_value:
  assumes "sendable_value type s"
  shows "leaves (writeValue type s) (writeValue type s)"
proof (cases "type = VT_STRING")
  case True
  then have "quotable 0 (EscapeString s)" using assms quotable_escape [of s 0] by (simp add: sendable_value_def)
  from leaves_quoted [OF this] True show ?thesis by (simp add: writeValue_def)
next
  case False
  with sendable_word [OF assms] show ?thesis by (simp add: leaves_word)
qed

lemma leaves_blanks: "leaves (GetSpacing f) []" "leaves (GetNewline f) []" "leaves (GetIndentation f l) []"
proof -
  have r: "leaves (replicate n c) []" if "plain c" "blank c" for n c
    using leaves_plain [of "replicate n c"] that by (simp add: list_all_iff)
  have "plain 32" "blank 32" "plain 9" "blank 9" "plain 10" "blank 10" by (simp_all add: plain_def blank_def)
  then show "leaves (GetSpacing f) []" "leaves (GetNewline f) []" "leaves (GetIndentation f l) []"
    using r [of _ 1] by (auto simp: GetSpacing_def GetNewline_def GetIndentation_def leaves_Nil r)
qed

lemma leaves_mark: "c \<in> {123, 125, 91, 93, 44, 58} \<Longrightarrow> leaves [c] [c]"
  using leaves_plain1 [of c] by (auto simp: plain_def blank_def)

lemma leaves_separator: "leaves (if first then [] else [44] @ GetNewline f) (if first then [] else [44])"
  using leaves_append [OF leaves_mark [of 44] leaves_blanks(2) [of f]] by (simp add: leaves_Nil)

lemma written_leaves:
  "sendable n \<Longrightarrow> leaves (writeNode f level n) (compact n)"
  "sendable_members cs \<Longrightarrow> leaves (writeMembers f level first cs) (compact_members first cs)"
  "sendable_elements es \<Longrightarrow> leaves (writeElements f level first es) (compact_elements first es)"
proof (induction n and first cs and first es arbitrary: level and level and level
    rule: compact_compact_members_compact_elements.induct)
  case (1 cs)
  then have "leaves ([123] @ GetNewline f @ writeMembers f level True cs @ GetNewline f @ GetIndentation f level @ [125])
      ([123] @ [] @ compact_members True cs @ [] @ [] @ [125])"
    by (intro leaves_append leaves_mark leaves_blanks) simp_all
  then show ?case by simp
next
  case (2 cs)
  then have "leaves ([91] @ GetNewline f @ writeElements f level True cs @ GetNewline f @ GetIndentation f level @ [93])
      ([91] @ [] @ compact_elements True cs @ [] @ [] @ [93])"
    by (intro leaves_append leaves_mark leaves_blanks) simp_all
  then show ?case by simp
next
  case (5 first name c cs)
  then have "leaves ((if first then [] else [44] @ GetNewline f) @ GetIndentation f (level + 1) @ (34 # name @ [34]) @ [58] @
      GetSpacing f @ writeNode f (level + 1) c @ writeMembers f level False cs)
      ((if first then [] else [44]) @ [] @ (34 # name @ [34]) @ [58] @ [] @ compact c @ compact_members False cs)"
    by (intro leaves_append leaves_separator leaves_mark leaves_blanks leaves_quoted) simp_all
  then show ?case by simp
next
  case (7 first c cs)
  then have "leaves ((if first then [] else [44] @ GetNewline f) @ GetIndentation f (level + 1) @
      writeNode f (level + 1) c @ writeElements f level False cs)
      ((if first then [] else [44]) @ [] @ compact c @ compact_elements False cs)"
    by (intro leaves_append leaves_separator leaves_blanks) simp_all
  then show ?case by simp
qed (simp_all add: leaves_Nil leaves_value)

section \<open>The tokens of a tree\<close>

text \<open>The result of a piece of text put before that of the rest.\<close>

definition before :: "token list \<times> datum list \<Rightarrow> token list \<times> datum list \<Rightarrow> token list \<times> datum list" where
  "before x y = (fst x @ fst y, snd x @ snd y)"

lemma before_simps [simp]:
  "before ([], []) x = x" "before x ([], []) = x" "before (before x y) z = before x (before y z)"
  "before (ts, ds) (before (ts', ds') z) = before (ts @ ts', ds @ ds') z"
  by (simp_all add: before_def)

text \<open>A value ends before a mark or at the end of the text.\<close>

definition ends_value :: "bytes \<Rightarrow> bool" where
  "ends_value r \<longleftrightarrow> r = [] \<or> structural (hd r) \<noteq> None"

lemma tokenize_mark: "structural c = Some t \<Longrightarrow> tokenize_from buf (c # r) = before (save_buffer buf) (before ([t], []) (tokenize_from [] r))"
  by (auto simp: structural_def before_def split: prod.splits if_splits)

lemma structural_marks [simp]:
  "structural 123 = Some T_OBJ_BEGIN" "structural 125 = Some T_OBJ_END" "structural 91 = Some T_ARRAY_BEGIN"
  "structural 93 = Some T_ARRAY_END" "structural 44 = Some T_SEPARATOR_NODE" "structural 58 = Some T_SEPARATOR_NAME"
  by (simp_all add: structural_def)

lemma save_nothing [simp]: "save_buffer [] = ([], [])"
  by (simp add: save_buffer_def)

lemma tokenize_string: "quotable 0 s \<Longrightarrow> tokenize_from [] (34 # s @ 34 # r) = before ([T_VALUE], [(VT_STRING, s)]) (tokenize_from [] r)"
  by (simp add: readString_quotable before_def split: prod.split)

lemma tokenize_word:
  "list_all word_char w \<Longrightarrow> w \<noteq> [] \<Longrightarrow> ends_value r \<Longrightarrow>
    tokenize_from buf (w @ r) = before (save_buffer (buf @ w)) (tokenize_from [] r)"
proof (induction w arbitrary: buf)
  case (Cons c w)
  then have c: "c \<noteq> 34" "structural c = None" by (auto simp: word_char_def plain_def)
  show ?case
  proof (cases "w = []")
    case False
    with Cons c show ?thesis by simp
  next
    case True
    show ?thesis
    proof (cases r)
      case Nil
      with True c show ?thesis by simp
    next
      case (Cons d r')
      with \<open>ends_value r\<close> obtain t where "structural d = Some t" by (auto simp: ends_value_def)
      with True c Cons show ?thesis using tokenize_mark [of d t "buf @ [c]" r'] tokenize_mark [of d t "[]" r'] by simp
    qed
  qed
qed simp

lemma interpret_word:
  assumes "sendable_value type s" and "type \<noteq> VT_STRING"
  shows "interpretValue (writeValue type s) = Some (type, s)"
proof (cases type)
  case VT_NUMBER
  have n: "s \<noteq> []" "list_all isNumber s" using assms VT_NUMBER by (simp_all add: sendable_value_def)
  have "hd s \<in> set s" using n(1) by simp
  with n(2) have h: "isNumber (hd s)" by (simp add: list_all_iff)
  have "map upper s = s" using n(2) by (induction s) (simp_all add: isNumber_chars)
  moreover have "s \<noteq> c # cs" if "\<not> isNumber c" for c cs using h that by auto
  moreover have "\<not> isNumber 78" "\<not> isNumber 84" "\<not> isNumber 70" by (simp_all add: isNumber_def digit_def word_le_nat_alt)
  ultimately show ?thesis using n VT_NUMBER by (simp add: interpretValue_def writeValue_def ascii_literals)
qed (use assms in \<open>auto simp: sendable_value_def interpretValue_def writeValue_def ascii_literals upper_def word_le_nat_alt\<close>)

lemma tokenize_value:
  assumes "sendable_value type s" and "ends_value r"
  shows "tokenize_from [] (writeValue type s @ r) = before ([T_VALUE], dats (Value type s)) (tokenize_from [] r)"
proof (cases "type = VT_STRING")
  case True
  then have "quotable 0 (EscapeString s)" using assms(1) quotable_escape [of s 0] by (simp add: sendable_value_def)
  from tokenize_string [OF this] True show ?thesis by (simp add: writeValue_def)
next
  case False
  from sendable_word [OF assms(1) False] have w: "writeValue type s \<noteq> []" "list_all word_char (writeValue type s)" by simp_all
  from tokenize_word [OF w(2,1) assms(2), of "[]"] w(1) interpret_word [OF assms(1) False] False show ?thesis
    by (simp add: save_buffer_def)
qed

declare tokenize_from.simps(2) [simp del]

lemma ends_value_simps [simp]:
  "ends_value (125 # r)" "ends_value (93 # r)" "ends_value (44 # r)" "ends_value []"
  by (simp_all add: ends_value_def)

lemma ends_value_rest: "ends_value r \<Longrightarrow> ends_value (compact_members False cs @ r)" "ends_value r \<Longrightarrow> ends_value (compact_elements False es @ r)"
  by (cases cs; auto) (cases es; auto)

lemma tokenize_compact:
  "sendable n \<Longrightarrow> ends_value r \<Longrightarrow> tokenize_from [] (compact n @ r) = before (toks n, dats n) (tokenize_from [] r)"
  "sendable_members cs \<Longrightarrow> ends_value r \<Longrightarrow>
     tokenize_from [] (compact_members first cs @ r) = before (toks_members first cs, dats_members cs) (tokenize_from [] r)"
  "sendable_elements es \<Longrightarrow> ends_value r \<Longrightarrow>
     tokenize_from [] (compact_elements first es @ r) = before (toks_elements first es, dats_elements es) (tokenize_from [] r)"
proof (induction n and first cs and first es arbitrary: r and r and r
    rule: compact_compact_members_compact_elements.induct)
  case (5 first name c cs)
  then show ?case by (auto simp: tokenize_mark tokenize_string ends_value_rest)
next
  case (7 first c cs)
  then show ?case by (auto simp: tokenize_mark ends_value_rest)
qed (simp_all add: tokenize_mark tokenize_value)

lemma tokenize_written:
  assumes "sendable n"
  shows "tokenize_from [] (RemoveWhitespace (Write f n)) = (toks n, dats n)"
  using tokenize_compact(1) [OF assms, of "[]"] leaves_result [OF written_leaves(1) [OF assms]] by (simp add: Write_def)

section \<open>Putting a tree together\<close>

definition refill :: "token list \<Rightarrow> datum list \<Rightarrow> parser \<Rightarrow> parser" where
  "refill ts ds p = p\<lparr>tokens := ts, data := ds\<rparr>"

lemma refill_simps [simp]:
  "tokens (refill ts ds p) = ts" "data (refill ts ds p) = ds" "root (refill ts ds p) = root p" "temporary (refill ts ds p) = temporary p"
  "(refill ts ds p)\<lparr>tokens := ts'\<rparr> = refill ts' ds p" "(refill ts ds p)\<lparr>data := ds'\<rparr> = refill ts ds' p"
  "(refill ts ds p)\<lparr>root := n\<rparr> = refill ts ds (p\<lparr>root := n\<rparr>)" "(refill ts ds p)\<lparr>temporary := k\<rparr> = refill ts ds (p\<lparr>temporary := k\<rparr>)"
  "pointee (refill ts ds p) q = pointee p q"
  by (simp_all add: refill_def pointee_def split: pointer.split)

text \<open>The text of a datum that came from a tree gives the value back.\<close>

lemma datum_value_dats: "dats (Value type s) = [d] \<Longrightarrow> datum_value d = Value type s"
  by (auto simp: datum_value_def Value_string_def)

text \<open>What the code adds to the node at the top.\<close>

definition add_child :: "bytes \<Rightarrow> node \<Rightarrow> node \<Rightarrow> node" where
  "add_child name n parent = (if IsObject parent then Object_Add name n parent else if IsArray parent then Array_Add n parent else parent)"

text \<open>The state after the node at the top of the stack has become \<open>n\<close>.\<close>

definition with_top :: "node \<Rightarrow> parser \<Rightarrow> bytes \<Rightarrow> pointer \<Rightarrow> stack \<Rightarrow> verdict" where
  "with_top n p nm q st = (case q of To_root \<Rightarrow> assemble (p\<lparr>root := n\<rparr>) ((nm, To_root) # st) []
     | To_node m \<Rightarrow> assemble p ((nm, To_node n) # st) [])"

lemma with_top_same: "with_top (pointee p q) p nm q st = assemble p ((nm, q) # st) []"
  by (cases q) (simp_all add: with_top_def pointee_def)

lemma change_top_with:
  "change_top f (p, (nm, q) # st) = (p', st') \<Longrightarrow> assemble p' st' [] = with_top (f (pointee p q)) p nm q st"
  by (auto simp: change_top_def with_top_def pointee_def split: pointer.splits)

lemma assemble_step:
  "assemble (refill (t # ts) ds p) st name = (case assemble_token t (refill ts ds p) st name of
     Go_on p' st' name' \<Rightarrow> assemble p' st' name' | v \<Rightarrow> v)"
  by (subst assemble.simps) simp

lemma assemble_name:
  "assemble (refill (T_VALUE # T_SEPARATOR_NAME # ts) ((VT_STRING, s) # ds) p) st name = assemble (refill ts ds p) st s"
  by (simp add: assemble_step assemble_token_def take_name_def)

lemma assemble_separator: "assemble (refill (T_SEPARATOR_NODE # ts) ds p) st name = assemble (refill ts ds p) st name"
  by (simp add: assemble_step assemble_token_def)

definition no_name :: "token list \<Rightarrow> bool" where
  "no_name ts \<longleftrightarrow> ts = [] \<or> hd ts \<noteq> T_SEPARATOR_NAME"

lemma no_name_simps [simp]:
  "no_name []" "no_name (T_OBJ_END # ts)" "no_name (T_ARRAY_END # ts)" "no_name (T_SEPARATOR_NODE # ts)"
  by (simp_all add: no_name_def)

lemma no_name_rest: "no_name ts \<Longrightarrow> no_name (toks_members False cs @ ts)" "no_name ts \<Longrightarrow> no_name (toks_elements False es @ ts)"
  by (cases cs; auto) (cases es; auto)

lemma assemble_value:
  assumes "no_name ts"
  shows "assemble (refill (T_VALUE # ts) (dats (Value type s) @ ds) p) ((nm, q) # st) name =
    with_top (add_child name (Value type s) (pointee p q)) (refill ts ds p) nm q st"
proof -
  obtain d where d: "dats (Value type s) = [d]" by simp
  let ?f = "if IsObject (pointee p q) then Object_Add name (Value type s) else if IsArray (pointee p q) then Array_Add (Value type s)
    else (\<lambda>n. n)"
  obtain p' st' where c: "change_top ?f (refill ts ds p, (nm, q) # st) = (p', st')" by fastforce
  have "assemble_token T_VALUE (refill ts (d # ds) p) ((nm, q) # st) name = Go_on p' st' []"
    using assms c datum_value_dats [OF d] by (auto simp: assemble_token_def take_value_def no_name_def Let_def)
  then show ?thesis using d change_top_with [OF c] by (simp add: assemble_step add_child_def)
qed

lemma with_top_node: "with_top n p nm (To_node m) st = assemble p ((nm, To_node n) # st) []"
  by (simp add: with_top_def)

text \<open>The end of a node that is not the root.\<close>

lemma assemble_end:
  assumes "t = T_OBJ_END \<and> IsObject n \<or> t = T_ARRAY_END \<and> IsArray n" and "IsObject (pointee p q) \<or> IsArray (pointee p q)"
  shows "assemble (refill (t # ts) ds (p\<lparr>temporary := temporary p + 1\<rparr>)) ((name, To_node n) # (nm, q) # st) [] =
    with_top (add_child name n (pointee p q)) (refill ts ds p) nm q st"
proof -
  let ?p = "refill ts ds (p\<lparr>temporary := temporary p + 1\<rparr>)"
  let ?f = "if IsObject (pointee p q) then Object_Add name n else Array_Add n"
  have same: "pointee ?p q = pointee p q" by (cases q) (simp_all add: pointee_def)
  have "assemble_token t ?p ((name, To_node n) # (nm, q) # st) [] = end_node t ?p ((name, To_node n) # (nm, q) # st) []"
    using assms(1) by (auto simp: assemble_token_def)
  also have "\<dots> = (case change_top ?f (?p, (nm, q) # st) of (p', st') \<Rightarrow> Go_on (p'\<lparr>temporary := temporary p' - 1\<rparr>) st' [])"
    using assms same by (auto simp: end_node_def pointee_def [of _ "To_node n"] Let_def)
  finally show ?thesis
    unfolding assemble_step using assms(2)
    by (cases q) (auto simp: change_top_def with_top_def add_child_def pointee_def refill_def)
qed

lemma assemble_begin:
  "assemble (refill (T_OBJ_BEGIN # ts) ds p) (x # st) name =
     assemble (refill ts ds (p\<lparr>temporary := temporary p + 1\<rparr>)) ((name, To_node (Object [])) # x # st) []"
  "assemble (refill (T_ARRAY_BEGIN # ts) ds p) (x # st) name =
     assemble (refill ts ds (p\<lparr>temporary := temporary p + 1\<rparr>)) ((name, To_node (Array [])) # x # st) []"
  by (simp_all add: assemble_step assemble_token_def begin_node_def)

lemma with_top_step:
  "\<exists>p' q'. pointee p' q' = n \<and> (\<forall>ts ds. with_top n (refill ts ds p) nm q st = assemble (refill ts ds p') ((nm, q') # st) []) \<and>
    (\<forall>m ts ds. with_top m (refill ts ds p') nm q' st = with_top m (refill ts ds p) nm q st)"
proof (cases q)
  case To_root
  then show ?thesis by (intro exI [of _ "p\<lparr>root := n\<rparr>"] exI [of _ To_root]) (simp add: with_top_def pointee_def)
next
  case (To_node m)
  then show ?thesis by (intro exI [of _ p] exI [of _ "To_node n"]) (simp add: with_top_def pointee_def)
qed

lemma assemble_tree:
  "sendable n \<Longrightarrow> no_name ts \<Longrightarrow> IsObject (pointee p q) \<or> IsArray (pointee p q) \<Longrightarrow>
    assemble (refill (toks n @ ts) (dats n @ ds) p) ((nm, q) # st) name =
    with_top (add_child name n (pointee p q)) (refill ts ds p) nm q st"
  "sendable_members cs \<Longrightarrow> no_name ts \<Longrightarrow> pointee p q = Object mems \<Longrightarrow>
    assemble (refill (toks_members first cs @ ts) (dats_members cs @ ds) p) ((nm, q) # st) [] =
    with_top (Object (mems @ cs)) (refill ts ds p) nm q st"
  "sendable_elements es \<Longrightarrow> no_name ts \<Longrightarrow> pointee p q = Array elems \<Longrightarrow>
    assemble (refill (toks_elements first es @ ts) (dats_elements es @ ds) p) ((nm, q) # st) [] =
    with_top (Array (elems @ es)) (refill ts ds p) nm q st"
proof (induction n and first cs and first es
    arbitrary: ts ds p q nm st name and ts ds p q nm st mems and ts ds p q nm st elems
    rule: compact_compact_members_compact_elements.induct)
  case (1 cs)
  let ?p = "p\<lparr>temporary := temporary p + 1\<rparr>"
  have "assemble (refill (toks (Object cs) @ ts) (dats (Object cs) @ ds) p) ((nm, q) # st) name =
      assemble (refill (toks_members True cs @ T_OBJ_END # ts) (dats_members cs @ ds) ?p) ((name, To_node (Object [])) # (nm, q) # st) []"
    by (simp add: assemble_begin)
  also have "\<dots> = with_top (Object cs) (refill (T_OBJ_END # ts) ds ?p) name (To_node (Object [])) ((nm, q) # st)"
    using 1 by (simp add: pointee_def)
  also have "\<dots> = with_top (add_child name (Object cs) (pointee p q)) (refill ts ds p) nm q st"
    unfolding with_top_node by (rule assemble_end) (use 1(4) in simp_all)
  finally show ?case .
next
  case (2 cs)
  let ?p = "p\<lparr>temporary := temporary p + 1\<rparr>"
  have "assemble (refill (toks (Array cs) @ ts) (dats (Array cs) @ ds) p) ((nm, q) # st) name =
      assemble (refill (toks_elements True cs @ T_ARRAY_END # ts) (dats_elements cs @ ds) ?p) ((name, To_node (Array [])) # (nm, q) # st) []"
    by (simp add: assemble_begin)
  also have "\<dots> = with_top (Array cs) (refill (T_ARRAY_END # ts) ds ?p) name (To_node (Array [])) ((nm, q) # st)"
    using 2 by (simp add: pointee_def)
  also have "\<dots> = with_top (add_child name (Array cs) (pointee p q)) (refill ts ds p) nm q st"
    unfolding with_top_node by (rule assemble_end) (use 2(4) in simp_all)
  finally show ?case .
next
  case (3 type s)
  then show ?case using assemble_value [of ts type s ds p nm q st name] by simp
next
  case (4 first)
  then show ?case using with_top_same [of "refill ts ds p" q nm st] by simp
next
  case (5 first name c cs)
  let ?ts = "toks_members False cs @ ts" and ?ds = "dats_members cs @ ds"
  obtain p' q' where n: "pointee p' q' = Object (mems @ [(name, c)])"
    "\<And>ts ds. with_top (Object (mems @ [(name, c)])) (refill ts ds p) nm q st = assemble (refill ts ds p') ((nm, q') # st) []"
    "\<And>m ts ds. with_top m (refill ts ds p') nm q' st = with_top m (refill ts ds p) nm q st" 
    using with_top_step [of "Object (mems @ [(name, c)])" p nm q st] by blast
  have s: "sendable c" "sendable_members cs" using 5(3) by simp_all
  have "assemble (refill (toks_members first ((name, c) # cs) @ ts) (dats_members ((name, c) # cs) @ ds) p) ((nm, q) # st) [] =
      assemble (refill (toks c @ ?ts) (dats c @ ?ds) p) ((nm, q) # st) name"
    by (simp add: assemble_separator assemble_name)
  also have "\<dots> = with_top (add_child name c (pointee p q)) (refill ?ts ?ds p) nm q st"
    using 5(4,5) s(1) by (intro 5(1)) (simp_all add: no_name_rest)
  also have "\<dots> = assemble (refill ?ts ?ds p') ((nm, q') # st) []" using 5(5) n(2) by (simp add: add_child_def)
  also have "\<dots> = with_top (Object ((mems @ [(name, c)]) @ cs)) (refill ts ds p') nm q' st"
    by (rule 5(2) [OF s(2) 5(4) n(1)])
  finally show ?case using n(3) by simp
next
  case (6 first)
  then show ?case using with_top_same [of "refill ts ds p" q nm st] by simp
next
  case (7 first c cs)
  let ?ts = "toks_elements False cs @ ts" and ?ds = "dats_elements cs @ ds"
  obtain p' q' where n: "pointee p' q' = Array (elems @ [c])"
    "\<And>ts ds. with_top (Array (elems @ [c])) (refill ts ds p) nm q st = assemble (refill ts ds p') ((nm, q') # st) []"
    "\<And>m ts ds. with_top m (refill ts ds p') nm q' st = with_top m (refill ts ds p) nm q st" 
    using with_top_step [of "Array (elems @ [c])" p nm q st] by blast
  have s: "sendable c" "sendable_elements cs" using 7(3) by simp_all
  have "assemble (refill (toks_elements first (c # cs) @ ts) (dats_elements (c # cs) @ ds) p) ((nm, q) # st) [] =
      assemble (refill (toks c @ ?ts) (dats c @ ?ds) p) ((nm, q) # st) []"
    by (simp add: assemble_separator)
  also have "\<dots> = with_top (add_child [] c (pointee p q)) (refill ?ts ?ds p) nm q st"
    using 7(4,5) s(1) by (intro 7(1)) (simp_all add: no_name_rest)
  also have "\<dots> = assemble (refill ?ts ?ds p') ((nm, q') # st) []" using 7(5) n(2) by (simp add: add_child_def)
  also have "\<dots> = with_top (Array ((elems @ [c]) @ cs)) (refill ts ds p') nm q' st"
    by (rule 7(2) [OF s(2) 7(4) n(1)])
  finally show ?case using n(3) by simp
qed

text \<open>The root the parser has to be given for a tree: of its class, and empty if it can have children.\<close>

definition root_for :: "node \<Rightarrow> node \<Rightarrow> bool" where
  "root_for n rt \<longleftrightarrow> (case n of Object _ \<Rightarrow> rt = Object [] | Array _ \<Rightarrow> rt = Array [] | Value _ _ \<Rightarrow> IsValue rt)"

lemma parse_written:
  assumes "sendable n" and "root_for n rt"
  shows "Parse (new_parser rt (Write f n)) = Return True ((new_parser rt (Write f n))\<lparr>root := n\<rparr>)"
proof -
  let ?p = "new_parser rt (Write f n)"
  have k: "tokenize ?p = refill (toks n) (dats n) ?p" "refill [] [] ?p = ?p" "root ?p = rt"
    using tokenize_written [OF assms(1), of f] by (simp_all add: tokenize_def new_parser_def refill_def)
  have closing: "assemble (refill [t] [] (?p\<lparr>root := n\<rparr>)) [([], To_root)] [] = Return True (?p\<lparr>root := n\<rparr>)"
    if "t = T_OBJ_END \<and> IsObject n \<or> t = T_ARRAY_END \<and> IsArray n" for t
    using that k(2) by (auto simp: assemble_step assemble_token_def end_node_def pointee_def assemble.simps [of "refill [] [] p" for p])
      (simp_all add: refill_def new_parser_def)
  show ?thesis
  proof (cases n)
    case (Object cs)
    then have "Parse ?p = assemble (refill (toks_members True cs @ [T_OBJ_END]) (dats_members cs @ []) ?p) [([], To_root)] []"
      using assms(2) k by (simp add: Parse_def assemble_step assemble_token_def begin_node_def root_for_def)
    also have "\<dots> = with_top (Object ([] @ cs)) (refill [T_OBJ_END] [] ?p) [] To_root []"
      using assms Object k(3) by (intro assemble_tree(2)) (simp_all add: pointee_def root_for_def)
    finally show ?thesis using closing [of T_OBJ_END] Object by (simp add: with_top_def)
  next
    case (Array cs)
    then have "Parse ?p = assemble (refill (toks_elements True cs @ [T_ARRAY_END]) (dats_elements cs @ []) ?p) [([], To_root)] []"
      using assms(2) k by (simp add: Parse_def assemble_step assemble_token_def begin_node_def root_for_def)
    also have "\<dots> = with_top (Array ([] @ cs)) (refill [T_ARRAY_END] [] ?p) [] To_root []"
      using assms Array k(3) by (intro assemble_tree(3)) (simp_all add: pointee_def root_for_def)
    finally show ?thesis using closing [of T_ARRAY_END] Array by (simp add: with_top_def)
  next
    case (Value type s)
    obtain d where d: "dats n = [d]" using Value by simp
    then have v: "datum_value d = n" using datum_value_dats [of type s d] Value by (simp only:)
    have "assemble_token T_VALUE (refill [] [d] ?p) [] [] = Go_on (refill [] [] (?p\<lparr>root := n\<rparr>)) [([], To_root)] []"
      using d v Value assms(2) k(3) by (simp add: assemble_token_def take_value_def root_for_def)
    then show ?thesis using d Value k
      by (simp add: Parse_def assemble_step assemble.simps [of "refill [] [] p" for p]) (simp add: refill_def new_parser_def)
  qed
qed

lemma written_file_reads_back:
  assumes "sendable n" and "root_for n rt" and "writable filename"
  shows "ReadFile (FileWriter_Write writable filename n f fs) filename rt = Inr (Some (True, n, []))"
  using parse_written [OF assms(1,2), of f] assms(3)
  by (simp add: ReadFile_def FileReader_def FileWriter_Write_def FileReader_Read_def new_parser_def)

text \<open>A reader of a file that is not there does not come to be.\<close>

lemma missing_file: "fs filename = None \<Longrightarrow> ReadFile fs filename rt = Inl Length_error"
  by (simp add: ReadFile_def FileReader_def)

section \<open>What the parser lets pass\<close>

definition parse_text :: "node \<Rightarrow> string \<Rightarrow> verdict" where
  "parse_text rt text = Parse (new_parser rt (ascii text))"

definition parse_result :: "verdict \<Rightarrow> (bool \<times> node \<times> nat) option" where
  "parse_result v = (case v of Return b p \<Rightarrow> Some (b, root p, temporary p) | _ \<Rightarrow> None)"

lemma missing_separator: "parse_result (parse_text (Array []) ''[1 2]'') = Some (True, Array [Value VT_NUMBER (ascii ''12'')], 0)"
  by code_simp

lemma value_before_string: "parse_result (parse_text (Array []) ''[1\"a\"]'') = Some (True, Array [Value VT_STRING (ascii ''a''), Value VT_NUMBER (ascii ''1'')], 0)"
  by code_simp

text \<open>A text that stops early is taken; what is not closed is lost, and its node is never deleted.\<close>

lemma early_end: "parse_result (parse_text (Array []) ''[1,[2'') = Some (True, Array [Value VT_NUMBER (ascii ''1'')], 1)"
  by code_simp

lemma second_document: "parse_result (parse_text (Array []) ''[1][2]'') = Some (True, Array [Value VT_NUMBER (ascii ''1''), Value VT_NUMBER (ascii ''2'')], 0)"
  by code_simp

text \<open>A comment closed twice opens none the next time; a quotation mark in a comment begins a string.\<close>

lemma comment_depth_negative: "RemoveWhitespace (ascii ''*/[/*1*/]'') = ascii ''[1]''"
  by code_simp

lemma quote_in_comment: "RemoveWhitespace (ascii ''[/* \" */ 1]'') = ascii ''[''"
  by code_simp

text \<open>What a failed parse leaves in the queues spoils the next one.\<close>

lemma stale_tokens:
  "(case parse_text (Array []) ''[x,1]'' of Return b p \<Rightarrow> b = False \<and> parse_result (Parse (SetJson (ascii ''[2]'') p)) = Some (False, Array [], 0)
    | _ \<Rightarrow> False)"
  by code_simp

text \<open>An exponent, as the writer prints one, is not read; nor is an unquoted name told from a number.\<close>

lemma exponent_unknown: "interpretValue (ascii ''1e+10'') = None"
  by code_simp

lemma signs_are_a_number: "interpretValue (ascii ''-.-'') = Some (VT_NUMBER, ascii ''-.-'')"
  by code_simp

section \<open>Numbers\<close>

lemma digit_of_nat: "n < 10 \<Longrightarrow> digit (of_nat (48 + n)) \<and> unat (of_nat (48 + n) :: u8) = 48 + n"
  by (simp add: digit_def word_le_nat_alt unat_of_nat take_bit_nat_eq_self del: of_nat_add)

lemma decimal_nat_digits: "list_all digit (decimal_nat n) \<and> digits_value (decimal_nat n) = n \<and> decimal_nat n \<noteq> []"
proof (induction n rule: decimal_nat.induct)
  case (1 n)
  show ?case
  proof (cases "n < 10")
    case True
    then show ?thesis using digit_of_nat [OF True] by (subst (1 2 3) decimal_nat.simps) (simp add: digits_value_def del: of_nat_add)
  next
    case False
    have "n mod 10 < 10" by simp
    with 1 [OF False] digit_of_nat [OF this] False show ?thesis
      by (subst (1 2 3) decimal_nat.simps) (simp add: digits_value_def del: of_nat_add)
  qed
qed

lemma digit_number: "digit c \<Longrightarrow> isNumber c \<and> c \<noteq> 45 \<and> c \<noteq> 43"
  by (auto simp: isNumber_def digit_def word_le_nat_alt)

lemma takeWhile_digits [simp]: "takeWhile digit (decimal_nat n) = decimal_nat n"
  using decimal_nat_digits [of n] by (simp add: list_all_iff)

lemma ToInt_Value_int:
  assumes "- (2 ^ 31) \<le> i" and "i < 2 ^ 31"
  shows "ToInt (Value_int i) = Some (Inr i)"
proof (cases "i < 0")
  case True
  then show ?thesis using assms decimal_nat_digits [of "nat (- i)"]
    by (simp add: Value_int_def decimal_def read_int_def clamp_int_def)
next
  case False
  obtain c cs where d: "decimal_nat (nat i) = c # cs" using decimal_nat_digits [of "nat i"] by (cases "decimal_nat (nat i)") auto
  then have "c \<noteq> 45" "c \<noteq> 43" using decimal_nat_digits [of "nat i"] digit_number [of c] by auto
  moreover have tw: "takeWhile digit cs = cs" using decimal_nat_digits [of "nat i"] d by (simp add: list_all_iff)
  ultimately show ?thesis using False d assms decimal_nat_digits [of "nat i"]
    by (simp add: Value_int_def decimal_def read_int_def clamp_int_def tw)
qed

lemma sendable_Value_int: "sendable (Value_int i)"
proof -
  have "list_all isNumber (decimal_nat n)" for n
    using decimal_nat_digits [of n] by (auto intro: list.pred_mono_strong dest: digit_number)
  then show ?thesis using decimal_nat_digits by (simp add: Value_int_def sendable_value_def decimal_def isNumber_def)
qed

section \<open>Properties\<close>

text \<open>
  C29: what the writer writes the parser reads.  For every tree and format, written and parsed into an empty
  root of the class of the tree, \<^verbatim>\<open>Parse\<close> returns true with the root equal to the tree, no node left over and
  both queues empty; the names must be such as can stand between quotation marks, the numbers made of
  digits, points and signs, and no string may end in a backslash.
\<close>

theorem json_round_trip:
  assumes "sendable n" and "root_for n rt"
  shows "\<exists>p. Parse (new_parser rt (Write f n)) = Return True p \<and> root p = n \<and> temporary p = 0 \<and> tokens p = [] \<and> data p = []"
  using parse_written [OF assms, of f] by (simp add: new_parser_def)

definition sample_tree :: node where
  "sample_tree = Object [(ascii ''coins'', Array [Value_int 7, Value VT_STRING [34, 92, 10, 47, 47]]), (ascii ''ok'', Value_bool True),
     (ascii ''none'', Value VT_NULL [])]"

theorem json_round_trip_witness:
  "\<exists>p. Parse (new_parser (Object []) (Write StandardFormat sample_tree)) = Return True p \<and> root p = sample_tree \<and> temporary p = 0 \<and>
    tokens p = [] \<and> data p = []"
  by (rule json_round_trip)
    (simp_all add: sample_tree_def Value_bool_def sendable_value_def sendable_Value_int ascii_def root_for_def)



text \<open>
  A string that ends in a backslash does not come back.  The writer escapes the backslash, but the parser
  takes the quotation mark behind it for an escaped one whatever comes before, reads on to the end of the
  text and returns true with another string.
\<close>

theorem final_backslash_is_misread:
  "Write NoFormat (Array [Value VT_STRING [92], Value_int 1]) = ascii ''[\"'' @ [92, 92] @ ascii ''\",1]'' \<and>
   parse_result (Parse (new_parser (Array []) (Write NoFormat (Array [Value VT_STRING [92], Value_int 1])))) =
     Some (True, Array [Value VT_STRING ([92, 34] @ ascii '',1]'')], 0)"
  by code_simp

end
