(* ===== verification/Recog.thy ===== *)
theory Recog
  imports Complex_Main "HOL-Library.Sublist" Jzon
begin

text \<open>
  The recognition server of the talk: messages with images (\<^verbatim>\<open>im.cpp\<close>), what is made of the circles found in
  an image (\<^verbatim>\<open>recog/src/coins.cpp\<close>), the answer (\<^verbatim>\<open>recog/src/main.cpp\<close>) and the worker that serves requests
  (\<^verbatim>\<open>rabbit.cpp\<close>), all under \<^verbatim>\<open>src/native\<close>.

  OpenCV and the C++ client of RabbitMQ are parameters.  A function may return, throw, or have undefined
  behaviour.
\<close>

section \<open>Messages with images\<close>

datatype exn = ImageMessageException | Out_of_range_exn | Runtime_error | Other_exn

datatype 'a cpp = Value_of 'a | Throws exn | Undef_cpp

primrec bind_cpp :: "'a cpp \<Rightarrow> ('a \<Rightarrow> 'b cpp) \<Rightarrow> 'b cpp" where
  "bind_cpp (Value_of a) f = f a"
| "bind_cpp (Throws e) f = Throws e"
| "bind_cpp Undef_cpp f = Undef_cpp"

text \<open>A result that has to fit an \<^verbatim>\<open>int\<close>.\<close>

definition as_int :: "int \<Rightarrow> int cpp" where
  "as_int i = (if - (2 ^ 31) \<le> i \<and> i < 2 ^ 31 then Value_of i else Undef_cpp)"

definition be32_at :: "bytes \<Rightarrow> nat \<Rightarrow> u32" where
  "be32_at buffer i = push_bit 24 (ucast (buffer ! i)) + push_bit 16 (ucast (buffer ! (i + 1))) +
     push_bit 8 (ucast (buffer ! (i + 2))) + ucast (buffer ! (i + 3))"

text \<open>The end of the number is compared with the size as a \<^verbatim>\<open>size_t\<close>.\<close>

definition read_number :: "bytes \<Rightarrow> int \<Rightarrow> u32 cpp" where
  "read_number buffer offset = bind_cpp (as_int (offset + 4)) (\<lambda>last.
     if int (length buffer) < last mod 2 ^ 64 then Throws ImageMessageException
     else if offset < 0 then Throws Out_of_range_exn
     else Value_of (be32_at buffer (nat offset)))"

definition magic :: u32 where "magic = 0xface0fb0"

definition assertMagic :: "bytes \<Rightarrow> unit cpp" where
  "assertMagic buffer = bind_cpp (read_number buffer 0) (\<lambda>m. if m \<noteq> magic then Throws ImageMessageException else Value_of ())"

text \<open>The images from number \<open>i\<close> on; a range that is not inside the buffer is undefined.\<close>

primrec read_images :: "nat \<Rightarrow> bytes \<Rightarrow> int \<Rightarrow> int \<Rightarrow> bytes list cpp" where
  "read_images 0 buffer i dataStart = Value_of []"
| "read_images (Suc n) buffer i dataStart =
     bind_cpp (as_int (8 + i * 4)) (\<lambda>pos.
     bind_cpp (read_number buffer pos) (\<lambda>w.
     let size = sint w in
     if dataStart < 0 \<or> size < 0 \<or> int (length buffer) < dataStart + size then Undef_cpp
     else bind_cpp (as_int (dataStart + size)) (\<lambda>next_start.
       bind_cpp (read_images n buffer (i + 1) next_start) (\<lambda>images.
       Value_of (take (nat size) (drop (nat dataStart) buffer) # images)))))"

text \<open>\<open>simple\<close> is \<^verbatim>\<open>SIMPLE_MESSAGE\<close>, which \<^verbatim>\<open>im.cpp\<close> defines: the body is the only image.\<close>

definition image_message :: "bool \<Rightarrow> bytes \<Rightarrow> bytes list cpp" where
  "image_message simple body = (if simple then Value_of [body]
     else bind_cpp (assertMagic body) (\<lambda>_.
       bind_cpp (read_number body 4) (\<lambda>w.
       let count = sint w in
       bind_cpp (as_int (4 * count)) (\<lambda>sizes.
       bind_cpp (as_int (8 + sizes)) (\<lambda>dataStart. read_images (nat count) body 0 dataStart)))))"

definition headImage :: "bytes list \<Rightarrow> bytes cpp" where
  "headImage m_images = (case m_images of [] \<Rightarrow> Throws Out_of_range_exn | first_image # _ \<Rightarrow> Value_of first_image)"

definition replaceImage :: "int \<Rightarrow> bytes \<Rightarrow> bytes list \<Rightarrow> bytes list cpp" where
  "replaceImage index newImage m_images =
     (if 0 \<le> index \<and> index < int (length m_images) then Value_of (m_images[nat index := newImage]) else Undef_cpp)"

definition writeBEInt32 :: "u32 \<Rightarrow> bytes" where
  "writeBEInt32 v = [ucast (drop_bit 24 v), ucast (drop_bit 16 v), ucast (drop_bit 8 v), ucast v]"

definition writeAmqpBytes :: "bytes list \<Rightarrow> bytes" where
  "writeAmqpBytes m_images = writeBEInt32 magic @ writeBEInt32 (of_nat (length m_images)) @
     concat (map (\<lambda>image. writeBEInt32 (of_nat (length image))) m_images) @ concat m_images"

section \<open>Coins\<close>

record point =
  p_x :: int
  p_y :: int

record coin =
  center :: point
  radius :: int

record coin_result =
  coins :: "coin list"
  hasRing :: bool

text \<open>
  A circle that \<^verbatim>\<open>HoughCircles\<close> found has its coordinates and radius as floating-point numbers, which are
  rational; a conversion to \<^verbatim>\<open>int\<close> drops the fraction, and \<^verbatim>\<open>cvRound\<close> takes the nearest number, the even one of two.
\<close>

type_synonym circle = "rat \<times> rat \<times> rat"

definition to_int :: "rat \<Rightarrow> int cpp" where
  "to_int r = as_int (if 0 \<le> r then \<lfloor>r\<rfloor> else \<lceil>r\<rceil>)"

definition cvRound :: "rat \<Rightarrow> int" where
  "cvRound r = (let f = \<lfloor>r\<rfloor>; d = r - of_int f in
     if d < 1 / 2 then f else if 1 / 2 < d then f + 1 else if even f then f else f + 1)"

definition coin_of :: "circle \<Rightarrow> coin cpp" where
  "coin_of circle = (case circle of (x, y, r) \<Rightarrow>
     bind_cpp (to_int x) (\<lambda>x. bind_cpp (to_int y) (\<lambda>y. bind_cpp (to_int r) (\<lambda>r.
     Value_of \<lparr>center = \<lparr>p_x = x, p_y = y\<rparr>, radius = r\<rparr>))))"

primrec coins_of :: "circle list \<Rightarrow> coin list cpp" where
  "coins_of [] = Value_of []"
| "coins_of (c # cs) = bind_cpp (coin_of c) (\<lambda>coin. bind_cpp (coins_of cs) (\<lambda>rest. Value_of (coin # rest)))"

text \<open>\<open>pixel\<close> is the filtered image, \<open>None\<close> outside it; the count of rings is an \<^verbatim>\<open>int\<close>.\<close>

primrec ring_count :: "(int \<Rightarrow> int \<Rightarrow> nat option) \<Rightarrow> circle list \<Rightarrow> int \<Rightarrow> int cpp" where
  "ring_count pixel [] ringCount = Value_of ringCount"
| "ring_count pixel (c # cs) ringCount = (case c of (x, y, _) \<Rightarrow> case pixel (cvRound x) (cvRound y) of
       None \<Rightarrow> Undef_cpp
     | Some v \<Rightarrow> bind_cpp (if 0 < v then as_int (ringCount + 1) else Value_of ringCount) (\<lambda>k. ring_count pixel cs k))"

text \<open>\<^verbatim>\<open>countCpu\<close> behind \<^verbatim>\<open>HoughCircles\<close>; \<open>with_rings\<close> is \<^verbatim>\<open>WITH_RINGS\<close>.\<close>

definition countCpu :: "bool \<Rightarrow> (int \<Rightarrow> int \<Rightarrow> nat option) \<Rightarrow> circle list \<Rightarrow> coin_result cpp" where
  "countCpu with_rings pixel circles = bind_cpp (coins_of circles) (\<lambda>cs.
     if with_rings then bind_cpp (ring_count pixel circles 0) (\<lambda>ringCount. Value_of \<lparr>coins = cs, hasRing = 0 < ringCount\<rparr>)
     else Value_of \<lparr>coins = cs, hasRing = False\<rparr>)"

text \<open>The loop of \<^verbatim>\<open>countGpu\<close>, which leaves out duplicates; \<open>found\<close> is what it has already.\<close>

primrec coins_gpu :: "circle list \<Rightarrow> coin list \<Rightarrow> coin list cpp" where
  "coins_gpu [] found = Value_of found"
| "coins_gpu (c # cs) found = bind_cpp (coin_of c) (\<lambda>coin.
     coins_gpu cs (if list_ex (\<lambda>other. center other = center coin \<or> radius other = radius coin) found then found
       else found @ [coin]))"

section \<open>The answer\<close>

definition coin_json :: "coin \<Rightarrow> node" where
  "coin_json c =
     (let centerJson = Object_Add (ascii ''y'') (Value_int (p_y (center c)))
            (Object_Add (ascii ''x'') (Value_int (p_x (center c))) (Object []))
      in Object_Add (ascii ''radius'') (Value_int (radius c)) (Object_Add (ascii ''center'') centerJson (Object [])))"

primrec coins_json :: "coin list \<Rightarrow> node \<Rightarrow> node" where
  "coins_json [] coinsJson = coinsJson"
| "coins_json (c # cs) coinsJson = coins_json cs (Array_Add (coin_json c) coinsJson)"

text \<open>\<open>recognise\<close> decodes the image and counts its coins; \<^verbatim>\<open>Undef_cpp\<close> stays what it is, any exception is caught.\<close>

definition response_json :: "bool \<Rightarrow> coin_result cpp \<Rightarrow> node cpp" where
  "response_json with_rings r = (case r of
       Value_of result \<Rightarrow>
         (let responseJson = (if with_rings then Object_Add (ascii ''hasRing'') (Value_bool (hasRing result)) (Object []) else Object [])
          in Value_of (Object_Add (ascii ''succeeded'') (Value_bool True)
               (Object_Add (ascii ''coins'') (coins_json (coins result) (Array [])) responseJson)))
     | Throws _ \<Rightarrow> Value_of (Object_Add (ascii ''succeeded'') (Value_bool False) (Object []))
     | Undef_cpp \<Rightarrow> Undef_cpp)"

definition handleMessage :: "bool \<Rightarrow> bool \<Rightarrow> (bytes \<Rightarrow> coin_result cpp) \<Rightarrow> bytes \<Rightarrow> bytes cpp" where
  "handleMessage simple with_rings recognise body =
     bind_cpp (response_json with_rings (bind_cpp (image_message simple body) (\<lambda>m_images.
       bind_cpp (headImage m_images) recognise))) (\<lambda>responseJson.
     Value_of (Write NoFormat responseJson))"

section \<open>The worker\<close>

record request =
  rq_body :: bytes
  rq_reply_to :: bytes
  rq_correlation_id :: bytes

record response =
  rs_body :: bytes
  rs_content_type :: bytes
  rs_correlation_id :: bytes

text \<open>
  The calls of the client that the worker makes, on a state of the world.  \<open>basic_consume ch queue no_local no_ack
  exclusive prefetch\<close>, with no consumer tag asked for, gives the tag of a consumer, \<open>basic_publish ch exchange routing_key response mandatory\<close>
  sends a message, \<open>destroy\<close> is the destructor of the channel.
\<close>

record ('s, 'ch) amqp_client =
  create :: "'s \<Rightarrow> 'ch cpp \<times> 's"
  bind_queue :: "'ch \<Rightarrow> bytes \<Rightarrow> bytes \<Rightarrow> bytes \<Rightarrow> 's \<Rightarrow> unit cpp \<times> 's"
  basic_consume :: "'ch \<Rightarrow> bytes \<Rightarrow> bool \<Rightarrow> bool \<Rightarrow> bool \<Rightarrow> nat \<Rightarrow> 's \<Rightarrow> bytes cpp \<times> 's"
  basic_consume_message :: "'ch \<Rightarrow> bytes \<Rightarrow> 's \<Rightarrow> request cpp \<times> 's"
  basic_publish :: "'ch \<Rightarrow> bytes \<Rightarrow> bytes \<Rightarrow> response \<Rightarrow> bool \<Rightarrow> 's \<Rightarrow> unit cpp \<times> 's"
  destroy :: "'ch \<Rightarrow> 's \<Rightarrow> 's"

definition then_cpp :: "('s \<Rightarrow> 'a cpp \<times> 's) \<Rightarrow> ('a \<Rightarrow> 's \<Rightarrow> 'b cpp \<times> 's) \<Rightarrow> 's \<Rightarrow> 'b cpp \<times> 's" where
  "then_cpp m f = (\<lambda>s. case m s of (Value_of a, s') \<Rightarrow> f a s' | (Throws e, s') \<Rightarrow> (Throws e, s') | (Undef_cpp, s') \<Rightarrow> (Undef_cpp, s'))"

definition handleEnvelope ::
    "('s, 'ch) amqp_client \<Rightarrow> (bytes \<Rightarrow> bytes cpp) \<Rightarrow> request \<Rightarrow> 'ch \<Rightarrow> 's \<Rightarrow> unit cpp \<times> 's" where
  "handleEnvelope A handle rq ch = then_cpp (\<lambda>s. (handle (rq_body rq), s)) (\<lambda>body.
     basic_publish A ch [] (rq_reply_to rq)
       \<lparr>rs_body = body, rs_content_type = ascii ''application/json'', rs_correlation_id = rq_correlation_id rq\<rparr> True)"

text \<open>
  A worker stops when it leaves its loop; an exception that leaves its function ends the process.
\<close>

datatype worker_end = Stopped | Terminated | Undefined_worker | Still_running

record server =
  queue :: bytes
  exchange :: bytes
  routingKey :: bytes

primrec runBlocking ::
    "nat \<Rightarrow> ('s, 'ch) amqp_client \<Rightarrow> server \<Rightarrow> (bytes \<Rightarrow> bytes cpp) \<Rightarrow> 's \<Rightarrow> worker_end \<times> 's" where
  "runBlocking 0 A sv handle s = (Still_running, s)"
| "runBlocking (Suc n) A sv handle s =
     (case then_cpp (create A) (\<lambda>ch. then_cpp (bind_queue A ch (queue sv) (exchange sv) (routingKey sv)) (\<lambda>_.
         then_cpp (basic_consume A ch (queue sv) True True False 1) (\<lambda>tag s. (Value_of (ch, tag), s)))) s of
       (Throws _, s') \<Rightarrow> (Terminated, s')
     | (Undef_cpp, s') \<Rightarrow> (Undefined_worker, s')
     | (Value_of (ch, tag), s') \<Rightarrow>
         (case then_cpp (basic_consume_message A ch tag) (\<lambda>env. handleEnvelope A handle env ch) s' of
           (Value_of _, s'') \<Rightarrow> runBlocking n A sv handle (destroy A ch s'')
         | (Throws e, s'') \<Rightarrow> if e = Runtime_error then (Stopped, destroy A ch s'') else (Terminated, s'')
         | (Undef_cpp, s'') \<Rightarrow> (Undefined_worker, s'')))"

text \<open>What \<^verbatim>\<open>handleMessage\<close> does with the head image, on the CPU.\<close>

definition recognise_cpu ::
    "bool \<Rightarrow> (bytes \<Rightarrow> ((int \<Rightarrow> int \<Rightarrow> nat option) \<times> circle list) cpp) \<Rightarrow> bytes \<Rightarrow> coin_result cpp" where
  "recognise_cpu with_rings vision img = bind_cpp (vision img) (\<lambda>(pixel, circles). countCpu with_rings pixel circles)"

section \<open>Reading what was written\<close>

lemma as_int_fits [simp]: "- (2 ^ 31) \<le> i \<Longrightarrow> i < 2 ^ 31 \<Longrightarrow> as_int i = Value_of i"
  by (simp add: as_int_def)

lemma length_writeBEInt32 [simp]: "length (writeBEInt32 v) = 4"
  by (simp add: writeBEInt32_def)

lemma number_bytes:
  "push_bit 24 (ucast (ucast (drop_bit 24 v) :: u8)) + push_bit 16 (ucast (ucast (drop_bit 16 v) :: u8)) +
   push_bit 8 (ucast (ucast (drop_bit 8 v) :: u8)) + ucast (ucast v :: u8) = (v :: u32)"
proof -
  let ?a = "push_bit 24 (ucast (ucast (drop_bit 24 v) :: u8)) :: u32" and ?b = "push_bit 16 (ucast (ucast (drop_bit 16 v) :: u8)) :: u32"
  let ?c = "push_bit 8 (ucast (ucast (drop_bit 8 v) :: u8)) :: u32" and ?d = "ucast (ucast v :: u8) :: u32"
  have "?a + ?b = or ?a ?b" by (rule disjunctive_add) (auto simp: bit_simps)
  moreover have "or ?a ?b + ?c = or (or ?a ?b) ?c" by (rule disjunctive_add) (auto simp: bit_simps)
  moreover have "or (or ?a ?b) ?c + ?d = or (or (or ?a ?b) ?c) ?d" by (rule disjunctive_add) (auto simp: bit_simps)
  moreover have "or (or (or ?a ?b) ?c) ?d = v"
  proof (rule bit_word_eqI)
    fix n
    assume "n < LENGTH(32)"
    then show "bit (or (or (or ?a ?b) ?c) ?d) n = bit v n"
      by (cases "n < 8"; cases "n < 16"; cases "n < 24") (auto simp: bit_simps)
  qed
  ultimately show ?thesis by simp
qed

lemma read_written_number:
  assumes "length (pre @ writeBEInt32 v @ post) < 2 ^ 31"
  shows "read_number (pre @ writeBEInt32 v @ post) (int (length pre)) = Value_of v"
proof -
  have "be32_at (pre @ writeBEInt32 v @ post) (length pre) = v"
    by (simp add: be32_at_def writeBEInt32_def nth_append number_bytes)
  then show ?thesis using assms by (simp add: read_number_def)
qed

definition sizes_of :: "bytes list \<Rightarrow> bytes" where
  "sizes_of imgs = concat (map (\<lambda>img. writeBEInt32 (of_nat (length img))) imgs)"

lemma length_sizes_of [simp]: "length (sizes_of imgs) = 4 * length imgs"
  by (induction imgs) (simp_all add: sizes_of_def)

lemma sizes_of_append: "sizes_of (imgs @ imgs') = sizes_of imgs @ sizes_of imgs'"
  by (simp add: sizes_of_def)

lemma sint_of_nat: "n < 2 ^ 31 \<Longrightarrow> sint (of_nat n :: u32) = int n"
  by (simp add: sint_uint signed_take_bit_int_eq_self unsigned_of_nat take_bit_nat_eq_self)

lemma read_images_written:
  assumes "body = head8 @ sizes_of (imgs @ imgs') @ concat (imgs @ imgs')" and "length head8 = 8" and "length body < 2 ^ 31"
  shows "read_images (length imgs') body (int (length imgs)) (int (8 + 4 * length (imgs @ imgs') + length (concat imgs))) = Value_of imgs'"
  using assms
proof (induction imgs' arbitrary: imgs)
  case (Cons img imgs')
  let ?pre = "head8 @ sizes_of imgs" and ?post = "sizes_of imgs' @ concat (imgs @ img # imgs')"
  have b: "body = ?pre @ writeBEInt32 (of_nat (length img)) @ ?post"
    using Cons.prems(1) by (simp add: sizes_of_def)
  have l: "length body = 8 + 4 * length (imgs @ img # imgs') + length (concat (imgs @ img # imgs'))"
    using Cons.prems(1,2) by simp
  have n: "read_number body (8 + int (length imgs) * 4) = Value_of (of_nat (length img))"
    using read_written_number [of ?pre "of_nat (length img)" ?post] Cons.prems(2,3) b by (simp add: mult.commute)
  have s: "sint (of_nat (length img) :: u32) = int (length img)" using l Cons.prems(3) by (simp add: sint_of_nat)
  have t: "take (length img) (drop (8 + 4 * length (imgs @ img # imgs') + length (concat imgs)) body) = img"
    using Cons.prems(1,2) by simp
  have "read_images (length imgs') body (int (length (imgs @ [img])))
      (int (8 + 4 * length ((imgs @ [img]) @ imgs') + length (concat (imgs @ [img])))) = Value_of imgs'"
    by (rule Cons.IH) (use Cons.prems in simp_all)
  then show ?case using n s t l Cons.prems(3)
    by (simp add: algebra_simps nat_add_distrib nat_mult_distrib)
qed simp

lemma image_message_written:
  assumes "8 + 4 * length imgs + length (concat imgs) < 2 ^ 31"
  shows "image_message False (writeAmqpBytes imgs) = Value_of imgs"
proof -
  let ?head = "writeBEInt32 magic @ writeBEInt32 (of_nat (length imgs))"
  let ?body = "writeAmqpBytes imgs"
  have b: "?body = ?head @ sizes_of imgs @ concat imgs" by (simp add: writeAmqpBytes_def sizes_of_def)
  have l: "length ?body < 2 ^ 31" using assms by (simp add: b)
  have "read_number ?body 0 = Value_of magic"
    using read_written_number [of "[]" magic "writeBEInt32 (of_nat (length imgs)) @ sizes_of imgs @ concat imgs"] l by (simp add: b)
  moreover have "read_number ?body 4 = Value_of (of_nat (length imgs))"
    using read_written_number [of "writeBEInt32 magic" "of_nat (length imgs)" "sizes_of imgs @ concat imgs"] l by (simp add: b)
  moreover have "sint (of_nat (length imgs) :: u32) = int (length imgs)" using assms by (simp add: sint_of_nat)
  moreover have "read_images (length imgs) ?body 0 (8 + 4 * int (length imgs)) = Value_of imgs"
    using read_images_written [of ?body ?head "[]" imgs] l b by simp
  ultimately show ?thesis using assms by (simp add: image_message_def assertMagic_def)
qed

text \<open>As it is compiled, the header becomes part of the image; without \<^verbatim>\<open>SIMPLE_MESSAGE\<close>, a size is not compared with the body.\<close>

lemma simple_message_keeps_header: "image_message True (writeAmqpBytes imgs) = Value_of [writeAmqpBytes imgs]"
  by (simp add: image_message_def)

lemma size_beyond_body: "image_message False (writeBEInt32 magic @ writeBEInt32 1 @ writeBEInt32 5 @ [1]) = Undef_cpp"
  by code_simp

lemma negative_count_is_empty: "image_message False (writeBEInt32 magic @ writeBEInt32 0xFFFFFFFF) = Value_of []"
  by code_simp

section \<open>The answer to a request\<close>

definition coin_fits :: "coin \<Rightarrow> bool" where
  "coin_fits c \<longleftrightarrow> (\<forall>i \<in> {p_x (center c), p_y (center c), radius c}. - (2 ^ 31) \<le> i \<and> i < 2 ^ 31)"

lemma as_int_Value: "as_int i = Value_of j \<Longrightarrow> j = i \<and> - (2 ^ 31) \<le> i \<and> i < 2 ^ 31"
  by (simp add: as_int_def split: if_splits)

lemma bind_cpp_Value: "bind_cpp m f = Value_of b \<longleftrightarrow> (\<exists>a. m = Value_of a \<and> f a = Value_of b)"
  by (cases m) simp_all

lemma coins_of_fit: "coins_of circles = Value_of cs \<Longrightarrow> list_all coin_fits cs"
  by (induction circles arbitrary: cs)
    (auto simp: bind_cpp_Value coin_of_def to_int_def coin_fits_def split: prod.splits dest!: as_int_Value)

lemma countCpu_fit: "countCpu with_rings pixel circles = Value_of r \<Longrightarrow> list_all coin_fits (coins r)"
  by (auto simp: countCpu_def bind_cpp_Value split: if_splits dest: coins_of_fit)

lemma recognise_fit: "recognise_cpu with_rings vision img = Value_of r \<Longrightarrow> list_all coin_fits (coins r)"
  by (auto simp: recognise_cpu_def bind_cpp_Value dest: countCpu_fit)

text \<open>The node of a coin, as a client reads it: the numbers are found under their names.\<close>

definition shows_int :: "int \<Rightarrow> string \<Rightarrow> node \<Rightarrow> bool" where
  "shows_int i name n \<longleftrightarrow> (\<exists>v. Get_name (ascii name) n = Inr v \<and> ToInt v = Some (Inr i))"

definition shows_coin :: "coin \<Rightarrow> node \<Rightarrow> bool" where
  "shows_coin c n \<longleftrightarrow> shows_int (radius c) ''radius'' n \<and>
     (\<exists>ctr. Get_name (ascii ''center'') n = Inr ctr \<and> shows_int (p_x (center c)) ''x'' ctr \<and> shows_int (p_y (center c)) ''y'' ctr)"

definition shows_result :: "bool \<Rightarrow> coin_result cpp \<Rightarrow> node \<Rightarrow> bool" where
  "shows_result with_rings r n = (case r of
       Value_of result \<Rightarrow> (\<exists>ok cs. Get_name (ascii ''succeeded'') n = Inr ok \<and> ToBool ok = Inr True \<and>
         Get_name (ascii ''coins'') n = Inr (Array cs) \<and> list_all2 shows_coin (coins result) cs \<and>
         (with_rings \<longrightarrow> (\<exists>v. Get_name (ascii ''hasRing'') n = Inr v \<and> ToBool v = Inr (hasRing result))))
     | Throws _ \<Rightarrow> (\<exists>ok. Get_name (ascii ''succeeded'') n = Inr ok \<and> ToBool ok = Inr False) \<and> GetCount n = 1
     | Undef_cpp \<Rightarrow> False)"

lemma names:
  "ascii ''x'' = [120]" "ascii ''y'' = [121]" "ascii ''radius'' = [114, 97, 100, 105, 117, 115]"
  "ascii ''center'' = [99, 101, 110, 116, 101, 114]" "ascii ''coins'' = [99, 111, 105, 110, 115]"
  "ascii ''succeeded'' = [115, 117, 99, 99, 101, 101, 100, 101, 100]" "ascii ''hasRing'' = [104, 97, 115, 82, 105, 110, 103]"
  by (simp_all add: ascii_def)

lemma coin_json_shows: "coin_fits c \<Longrightarrow> shows_coin c (coin_json c)"
  by (simp add: shows_coin_def shows_int_def coin_json_def names coin_fits_def ToInt_Value_int Let_def)

lemma coins_json_children: "coins_json cs (Array ns) = Array (ns @ map coin_json cs)"
  by (induction cs arbitrary: ns) simp_all

lemma sendable_coin: "sendable (coin_json c)"
  by (simp add: coin_json_def names sendable_Value_int Let_def)

lemma sendable_bool: "sendable (Value_bool b)"
  by (simp add: Value_bool_def sendable_value_def)

lemma ToBool_Value_bool: "ToBool (Value_bool b) = Inr b"
  by (simp add: Value_bool_def ascii_def)

lemma response_sendable:
  assumes "response_json with_rings r = Value_of n"
  shows "sendable n \<and> root_for n (Object [])"
proof -
  have "sendable_elements (map coin_json cs)" for cs by (induction cs) (simp_all add: sendable_coin)
  then show ?thesis using assms
    by (cases r) (auto simp: response_json_def coins_json_children names sendable_bool root_for_def Let_def)
qed

lemma response_shows:
  assumes "response_json with_rings r = Value_of n" and "\<And>result. r = Value_of result \<Longrightarrow> list_all coin_fits (coins result)"
  shows "shows_result with_rings r n"
proof (cases r)
  case (Value_of result)
  have "list_all2 shows_coin (coins result) (map coin_json (coins result))"
    using assms(2) [OF Value_of] by (induction "coins result") (auto simp: list_all2_conv_all_nth list_all_length coin_json_shows)
  then show ?thesis using assms(1) Value_of
    by (auto simp: shows_result_def response_json_def coins_json_children names ToBool_Value_bool Let_def)
next
  case (Throws e)
  with assms(1) show ?thesis by (auto simp: shows_result_def response_json_def ToBool_Value_bool)
next
  case Undef_cpp
  with assms(1) show ?thesis by (simp add: response_json_def)
qed

section \<open>Serving requests\<close>

lemma then_cpp_Value: "m s = (Value_of a, s') \<Longrightarrow> then_cpp m f s = f a s'"
  by (simp add: then_cpp_def)

lemma then_cpp_Throws: "m s = (Throws e, s') \<Longrightarrow> then_cpp m f s = (Throws e, s')"
  by (simp add: then_cpp_def)

text \<open>What the worker sends back for a request.\<close>

definition answer :: "(bytes \<Rightarrow> bytes cpp) \<Rightarrow> request \<Rightarrow> bytes \<times> response" where
  "answer handle rq = (rq_reply_to rq, \<lparr>rs_body = (case handle (rq_body rq) of Value_of b \<Rightarrow> b | _ \<Rightarrow> []),
     rs_content_type = ascii ''application/json'', rs_correlation_id = rq_correlation_id rq\<rparr>)"

text \<open>
  A broker with requests on the queue, and requests that it has sent ahead to the consumer.  Since the worker
  consumes without acknowledgements, what is sent is gone from the queue, and the limit on what may be sent
  ahead does not apply; what is sent ahead belongs to the channel and goes with it.  When there is no request
  left the connection is closed, which is a \<^verbatim>\<open>runtime_error\<close>.  Answers are routed.
\<close>

locale request_broker =
  fixes A :: "('s, 'ch) amqp_client" and waiting :: "'s \<Rightarrow> request list" and ahead :: "'s \<Rightarrow> request list"
    and answered :: "'s \<Rightarrow> (bytes \<times> response) list"
  assumes create_law: "\<exists>ch s'. create A s = (Value_of ch, s') \<and> waiting s' = waiting s \<and> ahead s' = [] \<and> answered s' = answered s"
    and bind_law: "\<exists>s'. bind_queue A ch q x k s = (Value_of (), s') \<and> waiting s' = waiting s \<and> ahead s' = ahead s \<and>
      answered s' = answered s"
    and consume_law: "\<exists>tag s'. basic_consume A ch q nl True ex pf s = (Value_of tag, s') \<and> answered s' = answered s \<and>
      ahead s' @ waiting s' = ahead s @ waiting s \<and> suffix (waiting s') (waiting s)"
    and message_law: "\<exists>r s'. basic_consume_message A ch tag s = (r, s') \<and> answered s' = answered s \<and>
      ahead s' @ waiting s' = tl (ahead s @ waiting s) \<and> suffix (waiting s') (waiting s) \<and>
      r = (case ahead s @ waiting s of [] \<Rightarrow> Throws Runtime_error | rq # _ \<Rightarrow> Value_of rq)"
    and publish_law: "\<exists>s'. basic_publish A ch [] k rs True s = (Value_of (), s') \<and> answered s' = answered s @ [(k, rs)] \<and>
      ahead s' @ waiting s' = ahead s @ waiting s \<and> suffix (waiting s') (waiting s)"
    and destroy_law: "waiting (destroy A ch s) = waiting s \<and> ahead (destroy A ch s) = [] \<and> answered (destroy A ch s) = answered s"
begin

lemma opens_consumer:
  "\<exists>ch tag s'. then_cpp (create A) (\<lambda>ch. then_cpp (bind_queue A ch q x k) (\<lambda>_.
     then_cpp (basic_consume A ch q nl True ex pf) (\<lambda>tag s. (Value_of (ch, tag), s)))) s = (Value_of (ch, tag), s') \<and>
     (\<exists>s''. basic_consume A ch q nl True ex pf s'' = (Value_of tag, s') \<and> waiting s'' = waiting s) \<and>
     ahead s' @ waiting s' = waiting s \<and> answered s' = answered s"
proof -
  obtain ch s1 where 1: "create A s = (Value_of ch, s1)" "waiting s1 = waiting s" "ahead s1 = []" "answered s1 = answered s"
    using create_law [of s] by blast
  obtain s2 where 2: "bind_queue A ch q x k s1 = (Value_of (), s2)" "waiting s2 = waiting s1" "ahead s2 = ahead s1" "answered s2 = answered s1"
    using bind_law [of ch q x k s1] by blast
  obtain tag s3 where 3: "basic_consume A ch q nl True ex pf s2 = (Value_of tag, s3)" "answered s3 = answered s2"
    "ahead s3 @ waiting s3 = ahead s2 @ waiting s2"
    using consume_law [of ch q nl ex pf s2] by blast
  have "then_cpp (create A) (\<lambda>ch. then_cpp (bind_queue A ch q x k) (\<lambda>_.
     then_cpp (basic_consume A ch q nl True ex pf) (\<lambda>tag s. (Value_of (ch, tag), s)))) s = (Value_of (ch, tag), s3)"
    by (simp add: then_cpp_def 1 2 3)
  with 1 2 3 show ?thesis by (metis append_Nil)
qed

text \<open>One round: it ends the worker, or answers the first request and loses some of those behind it.\<close>

lemma last_round:
  assumes "waiting s = []"
  shows "\<exists>s'. runBlocking (Suc n) A sv handle s = (Stopped, s') \<and> waiting s' = [] \<and> answered s' = answered s"
proof -
  obtain ch tag s1 where 1: "then_cpp (create A) (\<lambda>ch. then_cpp (bind_queue A ch (queue sv) (exchange sv) (routingKey sv)) (\<lambda>_.
      then_cpp (basic_consume A ch (queue sv) True True False 1) (\<lambda>tag s. (Value_of (ch, tag), s)))) s = (Value_of (ch, tag), s1)"
    "ahead s1 @ waiting s1 = []" "answered s1 = answered s"
    using opens_consumer [of "queue sv" "exchange sv" "routingKey sv" True False 1 s] assms by auto
  obtain s2 where 2: "basic_consume_message A ch tag s1 = (Throws Runtime_error, s2)" "answered s2 = answered s1"
    "ahead s2 @ waiting s2 = []"
    using message_law [of ch tag s1] 1(2) by auto
  have "runBlocking (Suc n) A sv handle s = (Stopped, destroy A ch s2)" using 1(1) 2(1) by (simp add: then_cpp_Throws)
  with 1 2 show ?thesis using destroy_law [of ch s2] by simp
qed

lemma one_round:
  assumes "waiting s = rq # rqs" and "handle (rq_body rq) = Value_of b"
  shows "\<exists>ch tag s1 s4. (\<exists>s0. basic_consume A ch (queue sv) True True False 1 s0 = (Value_of tag, s1) \<and> waiting s0 = waiting s) \<and>
    runBlocking (Suc n) A sv handle s = runBlocking n A sv handle s4 \<and> answered s4 = answered s @ [answer handle rq] \<and>
    suffix (waiting s4) rqs \<and> suffix (waiting s4) (waiting s1) \<and>
    (\<exists>s3. ahead s3 @ waiting s3 = rqs \<and> waiting s4 = waiting s3)"
proof -
  obtain ch tag s1 where 1: "then_cpp (create A) (\<lambda>ch. then_cpp (bind_queue A ch (queue sv) (exchange sv) (routingKey sv)) (\<lambda>_.
      then_cpp (basic_consume A ch (queue sv) True True False 1) (\<lambda>tag s. (Value_of (ch, tag), s)))) s = (Value_of (ch, tag), s1)"
    "ahead s1 @ waiting s1 = rq # rqs" "answered s1 = answered s"
    "\<exists>s0. basic_consume A ch (queue sv) True True False 1 s0 = (Value_of tag, s1) \<and> waiting s0 = waiting s"
    using opens_consumer [of "queue sv" "exchange sv" "routingKey sv" True False 1 s] assms(1) by auto
  obtain s2 where 2: "basic_consume_message A ch tag s1 = (Value_of rq, s2)" "answered s2 = answered s1"
    "ahead s2 @ waiting s2 = rqs" "suffix (waiting s2) (waiting s1)"
    using message_law [of ch tag s1] 1(2) by auto
  obtain s3 where 3: "basic_publish A ch [] (rq_reply_to rq) (snd (answer handle rq)) True s2 = (Value_of (), s3)"
    "answered s3 = answered s2 @ [(rq_reply_to rq, snd (answer handle rq))]" "ahead s3 @ waiting s3 = ahead s2 @ waiting s2"
    "suffix (waiting s3) (waiting s2)"
    using publish_law by blast
  have "then_cpp (basic_consume_message A ch tag) (\<lambda>env. handleEnvelope A handle env ch) s1 = (Value_of (), s3)"
    using 2(1) 3(1) assms(2) by (simp add: then_cpp_def handleEnvelope_def answer_def)
  then have run: "runBlocking (Suc n) A sv handle s = runBlocking n A sv handle (destroy A ch s3)" using 1(1) by simp
  have "suffix (waiting s3) rqs" using 2(3) 3(3) by (metis suffixI)
  moreover have "suffix (waiting s3) (waiting s1)" using 2(4) 3(4) by (rule suffix_order.trans [rotated])
  moreover have "answered s3 = answered s @ [answer handle rq]" using 1(3) 2(2) 3(2) by (simp add: answer_def)
  ultimately show ?thesis using destroy_law [of ch s3] run 1(4) 2(3) 3(3) by metis
qed

text \<open>Whatever is sent ahead: answers go out in the order of the requests, none of them twice.\<close>

lemma answers_in_order:
  assumes "\<forall>rq \<in> set (waiting s). \<exists>b. handle (rq_body rq) = Value_of b"
  shows "\<exists>e s' rqs. runBlocking n A sv handle s = (e, s') \<and> (e = Stopped \<or> e = Still_running) \<and>
    subseq rqs (waiting s) \<and> answered s' = answered s @ map (answer handle) rqs"
  using assms
proof (induction n arbitrary: s)
  case (Suc n)
  show ?case
  proof (cases "waiting s")
    case Nil
    with last_round [where handle = handle, OF Nil, of n sv] show ?thesis by auto
  next
    case (Cons rq rqs)
    then obtain b where "handle (rq_body rq) = Value_of b" using Suc.prems by auto
    from one_round [where handle = handle, OF Cons this, of sv n] obtain s4 where 4: "runBlocking (Suc n) A sv handle s = runBlocking n A sv handle s4"
      "answered s4 = answered s @ [answer handle rq]" "suffix (waiting s4) rqs" by blast
    have "\<forall>rq \<in> set (waiting s4). \<exists>b. handle (rq_body rq) = Value_of b"
      using 4(3) Suc.prems Cons set_mono_suffix [OF 4(3)] by auto
    from Suc.IH [OF this] obtain e s' us where "runBlocking n A sv handle s4 = (e, s')" "e = Stopped \<or> e = Still_running"
      "subseq us (waiting s4)" "answered s' = answered s4 @ map (answer handle) us" by blast
    moreover from this have "subseq (rq # us) (waiting s)"
      using 4(3) Cons by (metis subseq_Cons2 suffix_imp_subseq subseq_order.trans)
    ultimately show ?thesis using 4(1,2) by (intro exI [of _ e] exI [of _ s'] exI [of _ "rq # us"]) simp
  qed
qed simp

end

text \<open>
  The two ends of what a broker may do: nothing is ever ahead, as when a client sends its next request after
  the answer to the last, or all that waits is sent as soon as there is a consumer.
\<close>

locale patient_broker = request_broker +
  assumes nothing_ahead: "ahead s = []"
begin

lemma serves_all:
  assumes "\<forall>rq \<in> set (waiting s). \<exists>b. handle (rq_body rq) = Value_of b" and "length (waiting s) < n"
  shows "\<exists>s'. runBlocking n A sv handle s = (Stopped, s') \<and> waiting s' = [] \<and>
    answered s' = answered s @ map (answer handle) (waiting s)"
  using assms
proof (induction n arbitrary: s)
  case (Suc n)
  show ?case
  proof (cases "waiting s")
    case Nil
    with last_round [OF Nil] show ?thesis by simp
  next
    case (Cons rq rqs)
    then obtain b where "handle (rq_body rq) = Value_of b" using Suc.prems by auto
    from one_round [where handle = handle, OF Cons this, of sv n] obtain s4 s3 where 4: "runBlocking (Suc n) A sv handle s = runBlocking n A sv handle s4"
      "answered s4 = answered s @ [answer handle rq]" "ahead s3 @ waiting s3 = rqs" "waiting s4 = waiting s3" by blast
    then have "waiting s4 = rqs" by (simp add: nothing_ahead)
    with Suc.IH [of s4] Suc.prems Cons 4(1,2) show ?thesis by auto
  qed
qed simp

end

locale eager_broker = request_broker +
  assumes all_ahead: "basic_consume A ch q nl True ex pf s = (Value_of tag, s') \<Longrightarrow> waiting s' = []"
begin

lemma loses_requests:
  assumes "waiting s = rq # rqs" and "handle (rq_body rq) = Value_of b" and "1 < n"
  shows "\<exists>s'. runBlocking n A sv handle s = (Stopped, s') \<and> waiting s' = [] \<and> answered s' = answered s @ [answer handle rq]"
proof -
  obtain m where n: "n = Suc (Suc m)" using assms(3) by (metis Suc_lessE One_nat_def less_natE)
  from one_round [where handle = handle, OF assms(1,2), of sv "Suc m"] obtain ch tag s1 s4 s0 where
    4: "basic_consume A ch (queue sv) True True False 1 s0 = (Value_of tag, s1)"
    "runBlocking n A sv handle s = runBlocking (Suc m) A sv handle s4" "answered s4 = answered s @ [answer handle rq]"
    "suffix (waiting s4) (waiting s1)" unfolding n by blast
  from all_ahead [OF 4(1)] 4(4) have "waiting s4 = []" by simp
  from last_round [OF this] 4(2,3) show ?thesis by simp
qed

end

section \<open>Brokers by the book\<close>

text \<open>
  Both as a state: the requests that wait and the answers taken, and, for the eager one, the requests ahead.
\<close>

type_synonym patient_state = "request list \<times> (bytes \<times> response) list"

definition patient_client :: "(patient_state, unit) amqp_client" where
  "patient_client = \<lparr>create = (\<lambda>s. (Value_of (), s)),
     bind_queue = (\<lambda>ch q x k s. (Value_of (), s)),
     basic_consume = (\<lambda>ch q nl na ex pf s. (Value_of (ascii ''tag''), s)),
     basic_consume_message = (\<lambda>ch tag s. (case fst s of [] \<Rightarrow> Throws Runtime_error | rq # _ \<Rightarrow> Value_of rq, (tl (fst s), snd s))),
     basic_publish = (\<lambda>ch x k rs mandatory s. (Value_of (), (fst s, snd s @ [(k, rs)]))),
     destroy = (\<lambda>ch s. s)\<rparr>"

lemma patient_client_simps [simp]:
  "create patient_client s = (Value_of (), s)" "bind_queue patient_client ch q x k s = (Value_of (), s)"
  "basic_consume patient_client ch q nl na ex pf s = (Value_of (ascii ''tag''), s)"
  "basic_consume_message patient_client ch tag s =
     (case fst s of [] \<Rightarrow> Throws Runtime_error | rq # _ \<Rightarrow> Value_of rq, (tl (fst s), snd s))"
  "basic_publish patient_client ch x k rs m s = (Value_of (), (fst s, snd s @ [(k, rs)]))"
  "destroy patient_client ch s = s"
  by (simp_all add: patient_client_def)

interpretation by_turns: patient_broker patient_client fst "\<lambda>_. []" snd
  by unfold_locales (auto intro: suffix_tl)

type_synonym eager_state = "request list \<times> request list \<times> (bytes \<times> response) list"

definition eager_client :: "(eager_state, unit) amqp_client" where
  "eager_client = \<lparr>create = (\<lambda>(w, b, a). (Value_of (), (w, [], a))),
     bind_queue = (\<lambda>ch q x k s. (Value_of (), s)),
     basic_consume = (\<lambda>ch q nl na ex pf (w, b, a). (Value_of (ascii ''tag''), ([], b @ w, a))),
     basic_consume_message = (\<lambda>ch tag (w, b, a).
       (case b @ w of [] \<Rightarrow> Throws Runtime_error | rq # _ \<Rightarrow> Value_of rq, ([], tl (b @ w), a))),
     basic_publish = (\<lambda>ch x k rs mandatory (w, b, a). (Value_of (), (w, b, a @ [(k, rs)]))),
     destroy = (\<lambda>ch (w, b, a). (w, [], a))\<rparr>"

interpretation at_once: eager_broker eager_client fst "fst \<circ> snd" "snd \<circ> snd"
  by unfold_locales (auto simp: eager_client_def split: prod.splits)

text \<open>
  A broker that cannot route an answer: the message comes back as an exception.  The worker stops, whatever
  requests wait.
\<close>

definition no_route :: "(patient_state, unit) amqp_client" where
  "no_route = patient_client\<lparr>basic_publish := (\<lambda>ch x k rs mandatory s. (if mandatory then Throws Runtime_error else Value_of (), s))\<rparr>"

lemma one_bad_reply_address_stops_worker:
  assumes "handle (rq_body rq) = Value_of b"
  shows "runBlocking (Suc n) no_route sv handle (rq # rqs, []) = (Stopped, (rqs, []))"
  using assms by (simp add: no_route_def then_cpp_def handleEnvelope_def)

text \<open>Opening the channel stands outside the \<^verbatim>\<open>try\<close>: a broker that is not there ends the process.\<close>

lemma no_broker_ends_process:
  assumes "create A s = (Throws e, s')"
  shows "runBlocking (Suc n) A sv handle s = (Terminated, s')"
  using assms by (simp add: then_cpp_def)

text \<open>Two coins of equal size count as one on the GPU.\<close>

lemma equal_radius_is_dropped:
  "coins_gpu [(1, 1, 40), (200, 200, 40)] [] = Value_of [\<lparr>center = \<lparr>p_x = 1, p_y = 1\<rparr>, radius = 40\<rparr>]"
  by code_simp

section \<open>Properties\<close>

text \<open>
  C31: a client that parses the answer with \<^verbatim>\<open>Jzon\<close> finds in it what was recognised.  Whatever the image and
  what the vision library makes of it, if \<^verbatim>\<open>handleMessage\<close> returns a text at all then it is one that the
  parser accepts: \<^verbatim>\<open>succeeded\<close> is true and each coin is there, in order, with its centre and radius (and the
  presence of a ring, where it is compiled in), or an exception was thrown and \<^verbatim>\<open>succeeded\<close>, the only member,
  is false.
\<close>

theorem recognition_reply_reads_back:
  assumes "handleMessage True with_rings (recognise_cpu with_rings vision) body = Value_of reply"
  shows "\<exists>p. Parse (new_parser (Object []) reply) = Return True p \<and>
    shows_result with_rings (recognise_cpu with_rings vision body) (root p)"
proof -
  let ?r = "recognise_cpu with_rings vision body"
  obtain n where n: "response_json with_rings ?r = Value_of n" "reply = Write NoFormat n"
    using assms by (auto simp: handleMessage_def image_message_def headImage_def bind_cpp_Value)
  have "shows_result with_rings ?r n" using n(1) by (rule response_shows) (rule recognise_fit)
  moreover have "Parse (new_parser (Object []) reply) = Return True ((new_parser (Object []) reply)\<lparr>root := n\<rparr>)"
    using response_sendable [OF n(1)] parse_written [of n "Object []" NoFormat] n(2) by simp
  ultimately show ?thesis by simp
qed

definition sample_vision :: "bytes \<Rightarrow> ((int \<Rightarrow> int \<Rightarrow> nat option) \<times> circle list) cpp" where
  "sample_vision img = (if img = [] then Throws Other_exn else Value_of (\<lambda>x y. Some 255, [(25 / 2, 7, 35)]))"

theorem recognition_reply_reads_back_witness:
  "\<exists>p. Parse (new_parser (Object []) (ascii ''{\"hasRing\":true,\"coins\":[{\"center\":{\"x\":12,\"y\":7},\"radius\":35}],\"succeeded\":true}'')) =
      Return True p \<and> shows_result True (recognise_cpu True sample_vision [1]) (root p)"
  by (rule recognition_reply_reads_back) code_simp


definition two_requests :: "request list" where
  "two_requests = [\<lparr>rq_body = [1], rq_reply_to = [2], rq_correlation_id = [3]\<rparr>, \<lparr>rq_body = [], rq_reply_to = [4], rq_correlation_id = [5]\<rparr>]"

definition sample_server :: server where
  "sample_server = \<lparr>queue = ascii ''sogx.recog.queue'', exchange = ascii ''sogx.exchange'', routingKey = ascii ''sogx.recog.key''\<rparr>"

lemma sample_handled:
  "\<forall>rq \<in> set two_requests. \<exists>b. handleMessage True False (recognise_cpu False sample_vision) (rq_body rq) = Value_of b"
  by (simp add: two_requests_def handleMessage_def image_message_def headImage_def recognise_cpu_def sample_vision_def countCpu_def
    coin_of_def to_int_def response_json_def)




end
