(* ===== verification/SimpleErrors.thy ===== *)
theory SimpleErrors
  imports Api
begin

text \<open>
  Errors of the C++ client, SimpleAmqpClient, under \<^verbatim>\<open>src/native/rabbitmq-cpp/src\<close>: the exceptions and how they are
  made of what the server says (\<^verbatim>\<open>AmqpException.cpp\<close>, \<^verbatim>\<open>AmqpResponseLibraryException.cpp\<close>).

  A C++ function is a computation whose result is an exception (\<open>Inl\<close>) or a value (\<open>Inr\<close>); undefined behaviour
  and failed assertions are outcomes, as they are in the C library.
\<close>

unbundle bit_operations_syntax

section \<open>Exceptions\<close>

datatype amqp_exception = ContentTooLargeException | NoRouteException | NoConsumersException | AccessRefusedException |
  NotFoundException | ResourceLockedException | PreconditionFailedException | ConnectionForcedException |
  InvalidPathException | FrameErrorException | SyntaxErrorException | CommandInvalidException |
  ChannelErrorException | UnexpectedFrameException | ResourceErrorException | NotAllowedException |
  NotImplementedException | InternalErrorException

text \<open>
  \<open>AmqpException\<close> has the text of \<^verbatim>\<open>what\<close>, the text of the server, the class and the method;
  \<open>MessageReturnedException\<close> the message, with its properties, the reply code and text, exchange and routing key.
\<close>

datatype cxx_exception =
    AmqpException amqp_exception bytes bytes u16 u16
  | AmqpResponseLibraryException bytes
  | ConnectionClosedException
  | ConsumerTagNotFoundException
  | MessageReturnedException bytes amqp_basic_properties u16 bytes bytes bytes
  | BadUriException
  | runtime_error bytes
  | logic_error bytes
  | bad_alloc
  | bad_get

text \<open>What a handler for \<^verbatim>\<open>std::runtime_error\<close> catches.\<close>

fun is_runtime_error :: "cxx_exception \<Rightarrow> bool" where
  "is_runtime_error (logic_error _) = False"
| "is_runtime_error bad_alloc = False"
| "is_runtime_error bad_get = False"
| "is_runtime_error _ = True"

type_synonym ('s, 'a) cxx = "('s, cxx_exception + 'a) cm"

definition value_of :: "'a \<Rightarrow> ('s, 'a) cxx" where
  "value_of a = ret (Inr a)"

definition throw :: "cxx_exception \<Rightarrow> ('s, 'a) cxx" where
  "throw e = ret (Inl e)"

definition cxx_then :: "('s, 'a) cxx \<Rightarrow> ('a \<Rightarrow> ('s, 'b) cxx) \<Rightarrow> ('s, 'b) cxx" where
  "cxx_then m f = and_then m (\<lambda>r. case r of Inl e \<Rightarrow> throw e | Inr a \<Rightarrow> f a)"

text \<open>A call of the C library that has no failure to report.\<close>

definition calling :: "('s, 'a) cm \<Rightarrow> ('s, 'a) cxx" where
  "calling m = and_then m value_of"

text \<open>\<^verbatim>\<open>catch (...) { cleanup; throw; }\<close>, and a destructor that runs in any case.\<close>

definition on_exception :: "('s, 'a) cxx \<Rightarrow> ('s, unit) cm \<Rightarrow> ('s, 'a) cxx" where
  "on_exception m cleanup = and_then m (\<lambda>r. case r of Inl e \<Rightarrow> and_then cleanup (\<lambda>_. throw e) | Inr a \<Rightarrow> value_of a)"

definition at_exit :: "('s, 'a) cxx \<Rightarrow> ('s, unit) cm \<Rightarrow> ('s, 'a) cxx" where
  "at_exit m cleanup = and_then m (\<lambda>r. and_then cleanup (\<lambda>_. ret r))"

lemma run_value_of [run]: "value_of a s = (Ok (Inr a), s)"
  by (simp add: value_of_def)

lemma run_throw [run]: "throw e s = (Ok (Inl e), s)"
  by (simp add: throw_def)

lemma cxx_then_value [simp]: "cxx_then (value_of a) f = f a"
  by (simp add: cxx_then_def value_of_def)

lemma cxx_then_throw [simp]: "cxx_then (throw e) f = throw e"
  by (simp add: cxx_then_def throw_def fun_eq_iff and_then_def)

lemma cxx_then_Ok [run]: "m s = (Ok (Inr a), s') \<Longrightarrow> cxx_then m f s = f a s'"
  by (simp add: cxx_then_def and_then_Ok)

lemma cxx_then_Throw [run]: "m s = (Ok (Inl e), s') \<Longrightarrow> cxx_then m f s = (Ok (Inl e), s')"
  by (simp add: cxx_then_def and_then_Ok run_throw)

lemma cxx_then_calling [simp]: "cxx_then (calling m) f = and_then m f"
  by (simp add: cxx_then_def calling_def and_then_assoc) (simp add: value_of_def)

lemma calling_Ok [run]: "m s = (Ok a, s') \<Longrightarrow> calling m s = (Ok (Inr a), s')"
  by (simp add: calling_def and_then_Ok run_value_of)

section \<open>What the server says\<close>

definition connection_classes :: "(int \<times> amqp_exception) list" where
  "connection_classes = [(AMQP_CONNECTION_FORCED, ConnectionForcedException), (AMQP_INVALID_PATH, InvalidPathException),
     (AMQP_FRAME_ERROR, FrameErrorException), (AMQP_SYNTAX_ERROR, SyntaxErrorException),
     (AMQP_COMMAND_INVALID, CommandInvalidException), (AMQP_CHANNEL_ERROR, ChannelErrorException),
     (AMQP_UNEXPECTED_FRAME, UnexpectedFrameException), (AMQP_RESOURCE_ERROR, ResourceErrorException),
     (AMQP_NOT_ALLOWED, NotAllowedException), (AMQP_NOT_IMPLEMENTED, NotImplementedException),
     (AMQP_INTERNAL_ERROR, InternalErrorException)]"

definition channel_classes :: "(int \<times> amqp_exception) list" where
  "channel_classes = [(AMQP_CONTENT_TOO_LARGE, ContentTooLargeException), (AMQP_NO_ROUTE, NoRouteException),
     (AMQP_NO_CONSUMERS, NoConsumersException), (AMQP_ACCESS_REFUSED, AccessRefusedException),
     (AMQP_NOT_FOUND, NotFoundException), (AMQP_RESOURCE_LOCKED, ResourceLockedException),
     (AMQP_PRECONDITION_FAILED, PreconditionFailedException)]"

definition what_text :: "string \<Rightarrow> u16 \<Rightarrow> bytes \<Rightarrow> u16 \<Rightarrow> u16 \<Rightarrow> bytes" where
  "what_text prefix reply_code reply_text class_id method_id = ascii prefix @ decimal (uint reply_code) @ ascii '': '' @
     (case amqp_method_name (push_bit 16 (ucast class_id) OR ucast method_id) of
        Some method_name \<Rightarrow> ascii method_name @ ascii '' caused: '' @ reply_text
      | None \<Rightarrow> reply_text)"

definition Throw_channel_close :: "u16 \<Rightarrow> bytes \<Rightarrow> u16 \<Rightarrow> u16 \<Rightarrow> cxx_exception" where
  "Throw_channel_close reply_code reply_text class_id method_id = (case map_of channel_classes (uint reply_code) of
     Some x \<Rightarrow> AmqpException x (what_text ''channel error: '' reply_code reply_text class_id method_id) reply_text class_id method_id
   | None \<Rightarrow> logic_error (ascii ''Programming error: unknown channel reply code: '' @ decimal (uint reply_code)))"

definition Throw_connection_close :: "u16 \<Rightarrow> bytes \<Rightarrow> u16 \<Rightarrow> u16 \<Rightarrow> cxx_exception" where
  "Throw_connection_close reply_code reply_text class_id method_id = (case map_of connection_classes (uint reply_code) of
     Some x \<Rightarrow> AmqpException x (what_text ''connection error: '' reply_code reply_text class_id method_id) reply_text class_id method_id
   | None \<Rightarrow> logic_error (ascii ''Programming error: unknown connection reply code: '' @ decimal (uint reply_code)))"

text \<open>The struct behind a pointer that was cast to the type of a close method; one of another type is undefined.\<close>

definition throw_channel_struct :: "amqp_method_struct option \<Rightarrow> ('s, 'a) cxx" where
  "throw_channel_struct decoded = (case decoded of
     Some (amqp_channel_close_t code reply_text class_id method_id) \<Rightarrow> throw (Throw_channel_close code reply_text class_id method_id)
   | _ \<Rightarrow> undef)"

definition throw_connection_struct :: "amqp_method_struct option \<Rightarrow> ('s, 'a) cxx" where
  "throw_connection_struct decoded = (case decoded of
     Some (amqp_connection_close_t code reply_text class_id method_id) \<Rightarrow> throw (Throw_connection_close code reply_text class_id method_id)
   | _ \<Rightarrow> undef)"

text \<open>\<open>debug\<close> is a build with assertions.\<close>

definition Throw_reply :: "bool \<Rightarrow> amqp_rpc_reply \<Rightarrow> ('s, 'a) cxx" where
  "Throw_reply debug reply =
     (if debug \<and> reply_type reply \<noteq> AMQP_RESPONSE_SERVER_EXCEPTION then amqp_abort
      else if reply_id reply = AMQP_CONNECTION_CLOSE_METHOD then throw_connection_struct (reply_decoded reply)
      else if reply_id reply = AMQP_CHANNEL_CLOSE_METHOD then throw_channel_struct (reply_decoded reply)
      else throw (logic_error (ascii ''Programming error: unknown server exception class/method'' @ decimal (uint (reply_id reply)))))"

text \<open>
  The text of a library error.  \<^verbatim>\<open>amqp_error_string\<close> allocates it, and without memory a string is made of a
  null pointer.
\<close>

definition error_text :: "int \<Rightarrow> ('a heap_scheme, bytes) cm" where
  "error_text code = and_then (amqp_error_string code) (\<lambda>r. case r of
       None \<Rightarrow> undef
     | Some (block, msg) \<Rightarrow> and_then (c_free (Some block)) (\<lambda>_. ret (ascii msg)))"

definition CreateException :: "amqp_rpc_reply \<Rightarrow> bytes \<Rightarrow> ('a heap_scheme, cxx_exception) cm" where
  "CreateException reply cxt = and_then (error_text (status_code (library_error reply))) (\<lambda>error_string.
     ret (AmqpResponseLibraryException (cxt @ ascii '': '' @ error_string)))"

text \<open>A code that \<^verbatim>\<open>AMQP\<close> reserves for the other kind of close is a programming error, and no \<^verbatim>\<open>runtime_error\<close>.\<close>

lemma hard_error_on_channel:
  "\<not> is_runtime_error (Throw_channel_close 540 reply_text class_id method_id)"
  by (simp add: Throw_channel_close_def channel_classes_def constant_defs)

lemma known_close_is_runtime_error:
  "uint reply_code \<in> fst ` set channel_classes \<Longrightarrow> is_runtime_error (Throw_channel_close reply_code reply_text class_id method_id)"
  "uint reply_code \<in> fst ` set connection_classes \<Longrightarrow> is_runtime_error (Throw_connection_close reply_code reply_text class_id method_id)"
  unfolding Throw_channel_close_def Throw_connection_close_def
  by (auto split: option.splits simp: map_of_eq_None_iff)

end
