(* ===== verification/SimpleTable.thy ===== *)
theory SimpleTable
  imports SimpleErrors "HOL-Library.List_Lexorder"
begin

text \<open>
  Tables of the C++ client (\<^verbatim>\<open>Table.cpp\<close>, \<^verbatim>\<open>TableImpl.cpp\<close>): values of eleven types, and their way to and from the
  tables of the C library, which are made in a memory pool.

  \<^verbatim>\<open>Table\<close> is a \<^verbatim>\<open>std::map\<close>, here the list of its entries in the order of the keys, which are compared like
  \<^verbatim>\<open>std::string\<close> does, byte by byte.  Floating-point numbers are their bits.  Sizes are assumed to fit an \<^verbatim>\<open>int\<close>.
\<close>

section \<open>Values\<close>

datatype table_value = VT_void | VT_bool bool | VT_int8 u8 | VT_int16 u16 | VT_int32 u32 | VT_int64 u64 |
  VT_float u32 | VT_double u64 | VT_string bytes | VT_array "table_value list" | VT_table "(bytes \<times> table_value) list"

type_synonym table = "(bytes \<times> table_value) list"

text \<open>\<^verbatim>\<open>std::map::insert\<close>: an entry whose key is there stays as it is.\<close>

fun map_insert :: "bytes \<Rightarrow> 'v \<Rightarrow> (bytes \<times> 'v) list \<Rightarrow> (bytes \<times> 'v) list" where
  "map_insert key v [] = [(key, v)]"
| "map_insert key v ((key', v') # entries) =
     (if key < key' then (key, v) # (key', v') # entries
      else if key = key' then (key', v') # entries
      else (key', v') # map_insert key v entries)"

text \<open>The accessors of \<^verbatim>\<open>TableValue\<close>; for another type \<^verbatim>\<open>boost::get\<close> throws.  Integers are sign-extended.\<close>

fun GetType :: "table_value \<Rightarrow> nat" where
  "GetType VT_void = 0" | "GetType (VT_bool _) = 1" | "GetType (VT_int8 _) = 2" | "GetType (VT_int16 _) = 3"
| "GetType (VT_int32 _) = 4" | "GetType (VT_int64 _) = 5" | "GetType (VT_float _) = 6" | "GetType (VT_double _) = 7"
| "GetType (VT_string _) = 8" | "GetType (VT_array _) = 9" | "GetType (VT_table _) = 10"

fun GetBool :: "table_value \<Rightarrow> cxx_exception + bool" where
  "GetBool (VT_bool b) = Inr b" | "GetBool _ = Inl bad_get"

fun GetInt8 :: "table_value \<Rightarrow> cxx_exception + u8" where
  "GetInt8 (VT_int8 x) = Inr x" | "GetInt8 _ = Inl bad_get"

fun GetInt16 :: "table_value \<Rightarrow> cxx_exception + u16" where
  "GetInt16 (VT_int16 x) = Inr x" | "GetInt16 _ = Inl bad_get"

fun GetInt32 :: "table_value \<Rightarrow> cxx_exception + u32" where
  "GetInt32 (VT_int32 x) = Inr x" | "GetInt32 _ = Inl bad_get"

fun GetInt64 :: "table_value \<Rightarrow> cxx_exception + u64" where
  "GetInt64 (VT_int64 x) = Inr x" | "GetInt64 _ = Inl bad_get"

fun GetFloat :: "table_value \<Rightarrow> cxx_exception + u32" where
  "GetFloat (VT_float x) = Inr x" | "GetFloat _ = Inl bad_get"

fun GetDouble :: "table_value \<Rightarrow> cxx_exception + u64" where
  "GetDouble (VT_double x) = Inr x" | "GetDouble _ = Inl bad_get"

fun GetInteger :: "table_value \<Rightarrow> cxx_exception + int" where
  "GetInteger (VT_int8 x) = Inr (sint x)"
| "GetInteger (VT_int16 x) = Inr (sint x)"
| "GetInteger (VT_int32 x) = Inr (sint x)"
| "GetInteger (VT_int64 x) = Inr (sint x)"
| "GetInteger _ = Inl bad_get"

fun GetString :: "table_value \<Rightarrow> cxx_exception + bytes" where
  "GetString (VT_string s) = Inr s" | "GetString _ = Inl bad_get"

fun GetArray :: "table_value \<Rightarrow> cxx_exception + table_value list" where
  "GetArray (VT_array vs) = Inr vs" | "GetArray _ = Inl bad_get"

fun GetTable :: "table_value \<Rightarrow> cxx_exception + table" where
  "GetTable (VT_table t) = Inr t" | "GetTable _ = Inl bad_get"

section \<open>To the C library\<close>

text \<open>
  Memory from the pool, \<^verbatim>\<open>NULL\<close> for no bytes at all; a string is copied without a look at what was allocated,
  which for an empty string copies nothing.
\<close>

definition pool_block :: "nat \<Rightarrow> (pool_state, unit) cxx" where
  "pool_block amount = and_then (amqp_pool_alloc amount) (\<lambda>r. if r = None then throw bad_alloc else value_of ())"

definition pool_string :: "bytes \<Rightarrow> (pool_state, bytes) cxx" where
  "pool_string s = and_then (amqp_pool_alloc_bytes (length s)) (\<lambda>(len, block).
     if block = None \<and> s \<noteq> [] then undef else value_of s)"

definition pool_key :: "bytes \<Rightarrow> (pool_state, bytes) cxx" where
  "pool_key key = and_then (amqp_pool_alloc_bytes (length key)) (\<lambda>(len, block).
     if block = None then throw bad_alloc else value_of key)"

fun generate_field_value :: "table_value \<Rightarrow> (pool_state, amqp_field_value) cxx"
and generate_fields :: "table_value list \<Rightarrow> (pool_state, amqp_field_value list) cxx"
and generate_entries :: "table \<Rightarrow> (pool_state, amqp_table) cxx" where
  "generate_field_value VT_void = value_of Field_void"
| "generate_field_value (VT_bool x) = value_of (Field_boolean x)"
| "generate_field_value (VT_int8 x) = value_of (Field_i8 x)"
| "generate_field_value (VT_int16 x) = value_of (Field_i16 x)"
| "generate_field_value (VT_int32 x) = value_of (Field_i32 x)"
| "generate_field_value (VT_int64 x) = value_of (Field_i64 x)"
| "generate_field_value (VT_float x) = value_of (Field_f32 x)"
| "generate_field_value (VT_double x) = value_of (Field_f64 x)"
| "generate_field_value (VT_string s) = cxx_then (pool_string s) (\<lambda>b. value_of (Field_utf8 b))"
| "generate_field_value (VT_array vs) = cxx_then (pool_block (sizeof_field_value * length vs)) (\<lambda>_.
     cxx_then (generate_fields vs) (\<lambda>fs. value_of (Field_array fs)))"
| "generate_field_value (VT_table t) = cxx_then (pool_block (sizeof_table_entry * length t)) (\<lambda>_.
     cxx_then (generate_entries t) (\<lambda>es. value_of (Field_table es)))"
| "generate_fields [] = value_of []"
| "generate_fields (v # vs) = cxx_then (generate_field_value v) (\<lambda>f. cxx_then (generate_fields vs) (\<lambda>fs. value_of (f # fs)))"
| "generate_entries [] = value_of []"
| "generate_entries ((key, v) # t) = cxx_then (pool_key key) (\<lambda>key. cxx_then (generate_field_value v) (\<lambda>f.
     cxx_then (generate_entries t) (\<lambda>es. value_of (Entry key f # es))))"

definition CreateAmqpTableInner :: "table \<Rightarrow> (pool_state, amqp_table) cxx" where
  "CreateAmqpTableInner t = cxx_then (pool_block (sizeof_table_entry * length t)) (\<lambda>_. generate_entries t)"

text \<open>
  A computation on a pool of its own, and the pool it leaves; \<^verbatim>\<open>free_pool\<close>, the deleter of the shared pointer,
  is called when the last owner is gone.
\<close>

definition on_own_pool :: "amqp_pool \<Rightarrow> (pool_state, 'b) cm \<Rightarrow> ('a heap_scheme, 'b \<times> amqp_pool) cm" where
  "on_own_pool p m = (\<lambda>h. case m (pool_view h p) of (r, s) \<Rightarrow>
     ((case r of Ok b \<Rightarrow> Ok (b, the_pool s) | _ \<Rightarrow> pass_error r), h\<lparr>next_id := next_id s, live := live s\<rparr>))"

definition free_pool :: "amqp_pool \<Rightarrow> ('a heap_scheme, unit) cm" where
  "free_pool p = and_then (on_own_pool p empty_amqp_pool) (\<lambda>_. ret ())"

text \<open>The pool is stored before it is filled, so that it is there to be freed when filling it throws.\<close>

definition CreateAmqpTable :: "table \<Rightarrow> ('a heap_scheme, (cxx_exception + amqp_table) \<times> amqp_pool option) cm" where
  "CreateAmqpTable t = (if t = [] then ret (Inr [], None)
     else and_then (on_own_pool (init_amqp_pool 1024) (CreateAmqpTableInner t)) (\<lambda>(r, p). ret (r, Some p)))"

text \<open>A table as an argument of a method: its pool lives as long as the variable \<^verbatim>\<open>table_pool\<close> of the caller.\<close>

definition drop_pool :: "amqp_pool option \<Rightarrow> ('a heap_scheme, unit) cm" where
  "drop_pool pool = (case pool of None \<Rightarrow> ret () | Some p \<Rightarrow> free_pool p)"

definition with_arguments :: "table \<Rightarrow> (amqp_table \<Rightarrow> ('a heap_scheme, 'b) cxx) \<Rightarrow> ('a heap_scheme, 'b) cxx" where
  "with_arguments t body = and_then (CreateAmqpTable t) (\<lambda>(r, pool).
     at_exit (case r of Inl e \<Rightarrow> throw e | Inr es \<Rightarrow> body es) (drop_pool pool))"

section \<open>From the C library\<close>

fun CreateTableValue :: "amqp_field_value \<Rightarrow> table_value"
and CreateTable_from :: "table \<Rightarrow> amqp_table \<Rightarrow> table" where
  "CreateTableValue (Field_boolean b) = VT_bool b"
| "CreateTableValue (Field_i8 x) = VT_int8 x"
| "CreateTableValue (Field_i16 x) = VT_int16 x"
| "CreateTableValue (Field_i32 x) = VT_int32 x"
| "CreateTableValue (Field_i64 x) = VT_int64 x"
| "CreateTableValue (Field_timestamp x) = VT_int64 x"
| "CreateTableValue (Field_f32 x) = VT_float x"
| "CreateTableValue (Field_f64 x) = VT_double x"
| "CreateTableValue (Field_utf8 b) = VT_string b"
| "CreateTableValue (Field_bytes b) = VT_string b"
| "CreateTableValue (Field_array fs) = VT_array (map CreateTableValue fs)"
| "CreateTableValue (Field_table es) = VT_table (CreateTable_from [] es)"
| "CreateTableValue _ = VT_void"
| "CreateTable_from new_table [] = new_table"
| "CreateTable_from new_table (Entry key v # es) = CreateTable_from (map_insert key (CreateTableValue v) new_table) es"

definition CreateTable :: "amqp_table \<Rightarrow> table" where
  "CreateTable es = CreateTable_from [] es"

section \<open>Copies\<close>

text \<open>An array is filled without a look at what was allocated.\<close>

fun CopyValue :: "amqp_field_value \<Rightarrow> (pool_state, amqp_field_value) cxx"
and CopyValues :: "amqp_field_value list \<Rightarrow> (pool_state, amqp_field_value list) cxx"
and CopyEntries :: "amqp_table \<Rightarrow> (pool_state, amqp_table) cxx" where
  "CopyValue (Field_utf8 b) = cxx_then (pool_string b) (\<lambda>b. value_of (Field_utf8 b))"
| "CopyValue (Field_bytes b) = cxx_then (pool_string b) (\<lambda>b. value_of (Field_bytes b))"
| "CopyValue (Field_array fs) = and_then (amqp_pool_alloc (sizeof_field_value * length fs)) (\<lambda>r.
     if r = None \<and> fs \<noteq> [] then undef
     else cxx_then (CopyValues fs) (\<lambda>fs. value_of (Field_array fs)))"
| "CopyValue (Field_table es) = cxx_then (pool_block (sizeof_table_entry * length es)) (\<lambda>_.
     cxx_then (CopyEntries es) (\<lambda>es. value_of (Field_table es)))"
| "CopyValue v = value_of v"
| "CopyValues [] = value_of []"
| "CopyValues (f # fs) = cxx_then (CopyValue f) (\<lambda>f. cxx_then (CopyValues fs) (\<lambda>fs. value_of (f # fs)))"
| "CopyEntries [] = value_of []"
| "CopyEntries (Entry key v # es) = cxx_then (pool_key key) (\<lambda>key. cxx_then (CopyValue v) (\<lambda>v.
     cxx_then (CopyEntries es) (\<lambda>es. value_of (Entry key v # es))))"

definition CopyTableInner :: "amqp_table \<Rightarrow> (pool_state, amqp_table) cxx" where
  "CopyTableInner es = cxx_then (pool_block (sizeof_table_entry * length es)) (\<lambda>_. CopyEntries es)"

definition CopyTable :: "amqp_table \<Rightarrow> ('a heap_scheme, (cxx_exception + amqp_table) \<times> amqp_pool option) cm" where
  "CopyTable es = (if es = [] then ret (Inr [], None)
     else and_then (on_own_pool (init_amqp_pool 1024) (CopyTableInner es)) (\<lambda>(r, p). ret (r, Some p)))"

section \<open>What becomes of a table\<close>

text \<open>The value as the library has it, and the values that can be stored: an array or table with something in it, no empty key.\<close>

fun field_of :: "table_value \<Rightarrow> amqp_field_value"
and entries_of :: "table \<Rightarrow> amqp_table" where
  "field_of VT_void = Field_void"
| "field_of (VT_bool x) = Field_boolean x"
| "field_of (VT_int8 x) = Field_i8 x"
| "field_of (VT_int16 x) = Field_i16 x"
| "field_of (VT_int32 x) = Field_i32 x"
| "field_of (VT_int64 x) = Field_i64 x"
| "field_of (VT_float x) = Field_f32 x"
| "field_of (VT_double x) = Field_f64 x"
| "field_of (VT_string s) = Field_utf8 s"
| "field_of (VT_array vs) = Field_array (map field_of vs)"
| "field_of (VT_table t) = Field_table (entries_of t)"
| "entries_of [] = []"
| "entries_of ((key, v) # t) = Entry key (field_of v) # entries_of t"

fun storable :: "table_value \<Rightarrow> bool"
and storable_list :: "table_value list \<Rightarrow> bool"
and storable_entries :: "table \<Rightarrow> bool" where
  "storable (VT_array vs) = (vs \<noteq> [] \<and> storable_list vs)"
| "storable (VT_table t) = (t \<noteq> [] \<and> storable_entries t)"
| "storable _ = True"
| "storable_list [] = True"
| "storable_list (v # vs) = (storable v \<and> storable_list vs)"
| "storable_entries [] = True"
| "storable_entries ((key, v) # t) = (key \<noteq> [] \<and> storable v \<and> storable_entries t)"

lemma entries_of_empty [simp]: "entries_of t = [] \<longleftrightarrow> t = []"
  by (cases t) auto

text \<open>A computation that stays in its pool, and its result where memory is granted.\<close>

definition gives :: "(pool_state, 'b) cxx \<Rightarrow> cxx_exception + 'b \<Rightarrow> bool" where
  "gives m r \<longleftrightarrow> (\<forall>s. pool_inv s \<longrightarrow> (\<forall>i. grants s i) \<longrightarrow> (\<exists>s'. m s = (Ok r, s') \<and> mem_step s s'))"

lemma gives_value: "gives (value_of a) (Inr a)"
  by (simp add: gives_def run)

lemma gives_throw: "gives (throw e) (Inl e)"
  by (simp add: gives_def run)

lemma gives_then:
  assumes "gives m (Inr a)" and "gives (f a) r"
  shows "gives (cxx_then m f) r"
  unfolding gives_def
proof (intro allI impI)
  fix s :: pool_state
  assume s: "pool_inv s" "\<forall>i. grants s i"
  with assms(1) obtain s1 where 1: "m s = (Ok (Inr a), s1)" "mem_step s s1" unfolding gives_def by blast
  from assms(2) mem_step_inv [OF 1(2) s(1)] mem_step_granting [unfolded granting_def, OF 1(2) s(2)] obtain s2 where
    "f a s1 = (Ok r, s2)" "mem_step s1 s2" unfolding gives_def by blast
  with 1 show "\<exists>s'. cxx_then m f s = (Ok r, s') \<and> mem_step s s'"
    by (intro exI [of _ s2]) (auto simp: cxx_then_Ok intro: mem_step_trans)
qed

lemma gives_then_throw: "gives m (Inl e) \<Longrightarrow> gives (cxx_then m f) (Inl e)"
  unfolding gives_def by (metis cxx_then_Throw)

lemma gives_map:
  "gives m (if c then Inr b else Inl e) \<Longrightarrow> gives (cxx_then m (\<lambda>x. value_of (g x))) (if c then Inr (g b) else Inl e)"
  by (cases c) (auto intro: gives_then gives_then_throw gives_value)

lemma alloc_gives:
  assumes "pool_inv s" and "\<forall>i. grants s i"
  shows "\<exists>r s'. amqp_pool_alloc n s = (Ok r, s') \<and> (r = None \<longleftrightarrow> n = 0) \<and> mem_step s s'"
proof (cases "n = 0")
  case True
  then show ?thesis by (simp add: amqp_pool_alloc_def)
next
  case False
  then obtain a s' where a: "amqp_pool_alloc n s = (Ok (Some a), s')" using pool_alloc_granting [OF assms] by blast
  with safeD [OF safe_amqp_pool_alloc assms(1)] False show ?thesis by blast
qed

lemma gives_pool_block: "gives (pool_block n) (if n = 0 then Inl bad_alloc else Inr ())"
  unfolding gives_def pool_block_def using alloc_gives [of _ n] by (fastforce simp: and_then_Ok run)

lemma gives_pool_key: "gives (pool_key key) (if key = [] then Inl bad_alloc else Inr key)"
  unfolding gives_def pool_key_def amqp_pool_alloc_bytes_def using alloc_gives [of _ "length key"]
  by (fastforce simp: and_then_Ok run)

lemma gives_pool_string: "gives (pool_string s) (Inr s)"
  unfolding gives_def pool_string_def amqp_pool_alloc_bytes_def using alloc_gives [of _ "length s"]
  by (fastforce simp: and_then_Ok run)

lemma generate_gives:
  "gives (generate_field_value v) (if storable v then Inr (field_of v) else Inl bad_alloc)"
  "gives (generate_fields vs) (if storable_list vs then Inr (map field_of vs) else Inl bad_alloc)"
  "gives (generate_entries t) (if storable_entries t then Inr (entries_of t) else Inl bad_alloc)"
proof (induction v and vs and t rule: generate_field_value_generate_fields_generate_entries.induct)
  case (9 s)
  then show ?case by (auto intro: gives_then [OF gives_pool_string] gives_value)
next
  case (10 vs)
  show ?case
  proof (cases "vs = []")
    case True
    then show ?thesis using gives_pool_block [of 0] by (simp add: gives_then_throw)
  next
    case False
    then have b: "gives (pool_block (sizeof_field_value * length vs)) (Inr ())"
      using gives_pool_block [of "sizeof_field_value * length vs"] by (simp add: sizeof_field_value_def)
    show ?thesis using gives_then [OF b gives_map [OF 10, of Field_array]] False by (simp split del: if_split cong: if_cong)
  qed
next
  case (11 t)
  show ?case
  proof (cases "t = []")
    case True
    then show ?thesis using gives_pool_block [of 0] by (simp add: gives_then_throw)
  next
    case False
    then have b: "gives (pool_block (sizeof_table_entry * length t)) (Inr ())"
      using gives_pool_block [of "sizeof_table_entry * length t"] by (simp add: sizeof_table_entry_def)
    show ?thesis using gives_then [OF b gives_map [OF 11, of Field_table]] False by (simp split del: if_split cong: if_cong)
  qed
next
  case (13 v vs)
  then show ?case by (cases "storable v"; cases "storable_list vs") (auto intro: gives_then gives_then_throw gives_value)
next
  case (15 key v t)
  show ?case
  proof (cases "key = []")
    case True
    then show ?thesis using gives_pool_key [of key] by (simp add: gives_then_throw)
  next
    case False
    then have k: "gives (pool_key key) (Inr key)" using gives_pool_key [of key] by simp
    show ?thesis using 15 False
      by (cases "storable v"; cases "storable_entries t")
        (auto intro!: gives_then [OF k] intro: gives_then gives_then_throw gives_value)
  qed
qed (simp_all add: gives_value)

lemma create_inner_gives:
  "t \<noteq> [] \<Longrightarrow> gives (CreateAmqpTableInner t) (if storable_entries t then Inr (entries_of t) else Inl bad_alloc)"
proof -
  assume "t \<noteq> []"
  then have b: "gives (pool_block (sizeof_table_entry * length t)) (Inr ())"
    using gives_pool_block [of "sizeof_table_entry * length t"] by (simp add: sizeof_table_entry_def)
  then show ?thesis unfolding CreateAmqpTableInner_def by (rule gives_then) (rule generate_gives)
qed

text \<open>The heap with a pool of one's own in it.\<close>

definition clean :: "'a heap_scheme \<Rightarrow> bool" where
  "clean h \<longleftrightarrow> heap_fresh h \<and> (\<forall>i. grants h i)"

lemma heap_fresh_view [simp]: "heap_fresh (pool_view h p) = heap_fresh h"
  by (simp add: heap_fresh_def pool_view_def)

lemma own_pool_gives:
  assumes "clean h" and "gives m r"
  shows "\<exists>p h1. on_own_pool (init_amqp_pool n) m h = (Ok (r, p), h1) \<and> clean h1 \<and> heap.more h1 = heap.more h \<and>
    (\<exists>h2. free_pool p h1 = (Ok (), h2) \<and> live h2 = live h \<and> clean h2 \<and> heap.more h2 = heap.more h)"
proof -
  let ?s = "pool_view h (init_amqp_pool n)"
  have i: "pool_inv ?s" using assms(1) by (intro pool_inv_init) (simp_all add: clean_def, simp add: pool_view_def)
  have g: "\<forall>i. grants ?s i" using assms(1) by (simp add: clean_def pool_view_def)
  from assms(2) i g obtain s1 where 1: "m ?s = (Ok r, s1)" "mem_step ?s s1" unfolding gives_def by blast
  have i1: "pool_inv s1" and g1: "\<forall>i. grants s1 i" using mem_step_inv [OF 1(2) i] mem_step_granting [unfolded granting_def, OF 1(2) g] by auto
  let ?h1 = "h\<lparr>next_id := next_id s1, live := live s1\<rparr>"
  have own: "on_own_pool (init_amqp_pool n) m h = (Ok (r, the_pool s1), ?h1)" using 1(1) by (simp add: on_own_pool_def)
  have gr: "grants s1 = grants h" using 1(2) by (simp add: mem_step_def mem_step_minus_def pool_view_def)
  have f1: "heap_fresh s1" using i1 by (simp add: pool_inv_def)
  then have c1: "clean ?h1" using g1 gr by (simp add: clean_def heap_fresh_def)
  have v: "pool_view ?h1 (the_pool s1) = s1" by (simp add: pool_view_def gr)
  let ?B = "set (owned (pages (the_pool s1)) (large_blocks (the_pool s1)))"
  let ?h2 = "?h1\<lparr>live := live (release ?B s1)\<rparr>"
  have free: "free_pool (the_pool s1) ?h1 = (Ok (), ?h2)"
    using empty_amqp_pool_run [OF i1] by (simp add: free_pool_def on_own_pool_def v and_then_def release_simps)
  have "live ?h2 b = live h b" for b
  proof (cases "b \<in> ?B")
    case True
    have "live h b = None"
    proof (rule ccontr)
      assume "live h b \<noteq> None"
      then have "foreign ?s b"
        by (simp add: foreign_def pool_view_def owned_def init_amqp_pool_def empty_blocklist_value_def array_blocks_def num_blocks_def)
      with mem_step_foreign [OF 1(2) i] True show False by (auto simp: foreign_def)
    qed
    with True show ?thesis by simp
  next
    case False
    have "live s1 b = live h b"
    proof (cases "live h b")
      case None
      have "live s1 b = None"
      proof (rule ccontr)
        assume "live s1 b \<noteq> None"
        then have "unowned s1 b" using False by (simp add: unowned_def)
        then have "unowned ?s b" using 1(2) i g by (auto simp: mem_step_def mem_step_minus_def)
        then show False using None by (simp add: unowned_def pool_view_def)
      qed
      with None show ?thesis by simp
    next
      case (Some k)
      then have "foreign ?s b"
        by (simp add: foreign_def pool_view_def owned_def init_amqp_pool_def empty_blocklist_value_def array_blocks_def num_blocks_def)
      then have "live s1 b = live ?s b" using 1(2) i by (auto simp: mem_step_def mem_step_minus_def)
      then show ?thesis by (simp add: pool_view_def)
    qed
    with False show ?thesis by simp
  qed
  then have l: "live ?h2 = live h" by (rule ext)
  have "clean ?h2" using c1 f1 by (auto simp: clean_def heap_fresh_def)
  then show ?thesis using own c1 free l by (intro exI [of _ "the_pool s1"] exI [of _ ?h1] conjI exI [of _ ?h2]) simp_all
qed

lemma create_gives:
  assumes "clean h"
  shows "\<exists>p h1 h2. CreateAmqpTable t h = (Ok (if storable_entries t then Inr (entries_of t) else Inl bad_alloc, p), h1) \<and>
    clean h1 \<and> heap.more h1 = heap.more h \<and>
    drop_pool p h1 = (Ok (), h2) \<and> live h2 = live h \<and> clean h2 \<and> heap.more h2 = heap.more h"
proof (cases "t = []")
  case True
  then show ?thesis using assms by (simp add: CreateAmqpTable_def drop_pool_def)
next
  case False
  from own_pool_gives [OF assms create_inner_gives [OF False], of 1024] obtain p h1 h2 where
    "on_own_pool (init_amqp_pool 1024) (CreateAmqpTableInner t) h =
       (Ok (if storable_entries t then Inr (entries_of t) else Inl bad_alloc, p), h1)"
    "clean h1" "heap.more h1 = heap.more h" "free_pool p h1 = (Ok (), h2)" "live h2 = live h" "clean h2" "heap.more h2 = heap.more h"
    by blast
  then show ?thesis using False
    by (intro exI [of _ "Some p"] exI [of _ h1] exI [of _ h2]) (simp add: CreateAmqpTable_def drop_pool_def and_then_Ok)
qed

section \<open>And back\<close>

text \<open>The keys are in order, in nested tables too.\<close>

fun ordered :: "table_value \<Rightarrow> bool"
and ordered_entries :: "table \<Rightarrow> bool" where
  "ordered (VT_array vs) = list_all ordered vs"
| "ordered (VT_table t) = (sorted_wrt (<) (map fst t) \<and> ordered_entries t)"
| "ordered _ = True"
| "ordered_entries [] = True"
| "ordered_entries ((key, v) # t) = (ordered v \<and> ordered_entries t)"

lemma map_insert_last: "\<forall>k \<in> set (map fst t). k < key \<Longrightarrow> map_insert key v t = t @ [(key, v)]"
  by (induction t) (auto simp: less_not_sym order.strict_implies_not_eq)

lemma create_back:
  "ordered v \<Longrightarrow> CreateTableValue (field_of v) = v"
  "ordered_entries t \<Longrightarrow> sorted_wrt (<) (map fst (acc @ t)) \<Longrightarrow> CreateTable_from acc (entries_of t) = acc @ t"
proof (induction v and t arbitrary: and acc rule: field_of_entries_of.induct)
  case (10 vs)
  then show ?case by (induction vs) auto
next
  case (11 t)
  then show ?case by simp
next
  case (13 key v t)
  then have "\<forall>k \<in> set (map fst acc). k < key" by (auto simp: sorted_wrt_append)
  then show ?case using 13 by (simp add: map_insert_last)
qed simp_all

text \<open>What the library has in other types does not come back: unsigned numbers and decimals become \<^verbatim>\<open>void\<close>.\<close>

lemma unsigned_is_lost: "CreateTableValue (Field_u32 x) = VT_void" "CreateTableValue (Field_decimal d x) = VT_void"
  by simp_all

text \<open>An accessor throws on another type, although \<^verbatim>\<open>Table.h\<close> promises false, 0 or the empty string.\<close>

lemma other_type_throws: "GetBool (VT_string s) = Inl bad_get" "GetInteger (VT_bool b) = Inl bad_get"
  by simp_all

section \<open>Properties\<close>

text \<open>
  C34: a table that a C++ client passes to a method arrives.  With keys in order, no empty key, and no empty
  array or table inside, \<^verbatim>\<open>CreateAmqpTable\<close> makes a table in a pool of its own; what the C library encodes of it
  the C library at the other end decodes, and \<^verbatim>\<open>CreateTable\<close> makes of that the table that was passed.
\<close>

theorem client_table_arrives:
  assumes "clean h" and "storable_entries t" and "sorted_wrt (<) (map fst t)" and "ordered_entries t"
    and "wf_table (entries_of t)" and "wr_at s" and "wr_off s + (4 + length (table_bytes (entries_of t))) \<le> wr_len s"
    and "pool_inv u" and "granting u" and "rd_off u = wr_off s"
  shows "\<exists>es p h' s' u' es'. CreateAmqpTable t h = (Ok (Inr es, p), h') \<and> amqp_encode_table es s = (Ok (), s') \<and>
    amqp_decode_table \<lparr>view_len = wr_len s', view_mem = wr_buf s'\<rparr> u = (Ok es', u') \<and> CreateTable es' = t"
proof -
  obtain p h' where 1: "CreateAmqpTable t h = (Ok (Inr (entries_of t), p), h')"
    using create_gives [OF assms(1), of t] assms(2) by auto
  obtain s' u' where 2: "amqp_encode_table (entries_of t) s = (Ok (), s')"
    "amqp_decode_table \<lparr>view_len = wr_len s', view_mem = wr_buf s'\<rparr> u = (Ok (entries_of t), u')"
    using table_codec.round_trip [OF assms(5,6) _ assms(8-10)] assms(7) by (auto simp: sized_def)
  have "CreateTable (entries_of t) = t"
    using create_back(2) [OF assms(4), of "[]"] assms(3) by (simp add: CreateTable_def)
  with 1 2 show ?thesis by blast
qed

definition small_table :: table where
  "small_table = [(ascii ''a'', VT_int32 7), (ascii ''list'', VT_array [VT_string [], VT_bool True]), (ascii ''t'', VT_table [([0], VT_void)])]"

definition new_heap :: heap where
  "new_heap = \<lparr>next_id = 0, grants = (\<lambda>_. True), live = (\<lambda>_. None)\<rparr>"

lemma new_heap_clean: "clean new_heap"
  by (simp add: clean_def heap_fresh_def) (simp add: new_heap_def)

theorem client_table_arrives_witness:
  "\<exists>es p h' s' u' es'. CreateAmqpTable small_table new_heap = (Ok (Inr es, p), h') \<and> amqp_encode_table es sample_wr = (Ok (), s') \<and>
    amqp_decode_table \<lparr>view_len = wr_len s', view_mem = wr_buf s'\<rparr> (start_rd\<lparr>rd_off := 3\<rparr>) = (Ok es', u') \<and> CreateTable es' = small_table"
  by (rule client_table_arrives [OF new_heap_clean])
    (simp_all add: small_table_def wf_table_def sample_wr_def wr_at_def wr_ok_def sized_def granting_def ascii_def
      start_rd_def [THEN arg_cong, of grants])

text \<open>
  A table with an empty part cannot be sent.  If a key is empty, or an array or table inside is, every
  method that takes arguments throws \<^verbatim>\<open>std::bad_alloc\<close> before it sends the method, although memory is there: the
  pool answers a request for no bytes with \<^verbatim>\<open>NULL\<close>.  Nothing stays allocated.
\<close>

lemma empty_parts_cannot_be_sent:
  assumes "clean h" and "\<not> storable_entries t"
  shows "\<exists>h'. with_arguments t body h = (Ok (Inl bad_alloc), h') \<and> live h' = live h \<and> heap.more h' = heap.more h"
  using create_gives [OF assms(1), of t] assms(2)
  by (auto simp: with_arguments_def at_exit_def and_then_Ok run_throw)

end
