(* ===== verification/SimpleMessage.thy ===== *)
theory SimpleMessage
  imports SimpleTable
begin

text \<open>
  Messages of the C++ client (\<^verbatim>\<open>BasicMessage.cpp\<close>): a body and properties in memory of the C library, which the
  message owns and has to free.

  The ten string properties are set, read and cleared by methods that differ in the field and the flag, so
  the name of the property is an argument; the methods that do not follow the pattern are on their own.  A field
  whose flag is not set holds whatever was there before, a null pointer or the address of freed memory.
\<close>

unbundle bit_operations_syntax

section \<open>State\<close>

datatype string_property = ContentType | ContentEncoding | CorrelationId | ReplyTo | Expiration | MessageId |
  MessageType | UserId | AppId | ClusterId

fun flag_of :: "string_property \<Rightarrow> amqp_flags" where
  "flag_of ContentType = AMQP_BASIC_CONTENT_TYPE_FLAG"
| "flag_of ContentEncoding = AMQP_BASIC_CONTENT_ENCODING_FLAG"
| "flag_of CorrelationId = AMQP_BASIC_CORRELATION_ID_FLAG"
| "flag_of ReplyTo = AMQP_BASIC_REPLY_TO_FLAG"
| "flag_of Expiration = AMQP_BASIC_EXPIRATION_FLAG"
| "flag_of MessageId = AMQP_BASIC_MESSAGE_ID_FLAG"
| "flag_of MessageType = AMQP_BASIC_TYPE_FLAG"
| "flag_of UserId = AMQP_BASIC_USER_ID_FLAG"
| "flag_of AppId = AMQP_BASIC_APP_ID_FLAG"
| "flag_of ClusterId = AMQP_BASIC_CLUSTER_ID_FLAG"

text \<open>The message and the heap it lives on; headers that were freed under the hands of the message are \<open>None\<close>.\<close>

record message = heap +
  m_flags :: amqp_flags
  m_strings :: "string_property \<Rightarrow> malloced_bytes"
  m_delivery_mode :: u8
  m_priority :: u8
  m_timestamp :: u64
  m_headers :: "amqp_table option"
  m_table_pool :: "amqp_pool option"
  m_body :: malloced_bytes

definition null_bytes :: malloced_bytes where
  "null_bytes = \<lparr>mb_len = 0, mb_block = None, mb_bytes = []\<rparr>"

definition is_set :: "amqp_flags \<Rightarrow> 'a message_scheme \<Rightarrow> bool" where
  "is_set flag m \<longleftrightarrow> flag = m_flags m AND flag"

definition free_if :: "bool \<Rightarrow> malloced_bytes \<Rightarrow> ('a heap_scheme, unit) cm" where
  "free_if b x = (if b then amqp_bytes_free x else ret ())"

text \<open>A \<^verbatim>\<open>std::string\<close> of bytes: freed memory must not be read, nor a null pointer with a length.\<close>

definition std_string :: "malloced_bytes \<Rightarrow> ('a heap_scheme, bytes) cm" where
  "std_string x = (case mb_block x of
       None \<Rightarrow> if mb_len x = 0 then ret [] else undef
     | Some b \<Rightarrow> and_then get (\<lambda>m. if live m b = None then undef else ret (mb_bytes x)))"

section \<open>String properties\<close>

text \<open>The setters and the clearing methods; \<open>tested\<close> is the flag on which the old value is freed.\<close>

definition set_field :: "amqp_flags \<Rightarrow> string_property \<Rightarrow> bytes \<Rightarrow> ('a message_scheme, unit) cm" where
  "set_field tested p s = and_then get (\<lambda>m.
     and_then (free_if (is_set tested m) (m_strings m p)) (\<lambda>_.
     and_then (amqp_bytes_malloc_dup (amqp_cstring_bytes s)) (\<lambda>x.
     modify (\<lambda>m. m\<lparr>m_strings := (m_strings m)(p := x), m_flags := m_flags m OR flag_of p\<rparr>))))"

definition clear_field :: "amqp_flags \<Rightarrow> string_property \<Rightarrow> ('a message_scheme, unit) cm" where
  "clear_field tested p = and_then get (\<lambda>m.
     and_then (free_if (is_set tested m) (m_strings m p)) (\<lambda>_.
     modify (\<lambda>m. m\<lparr>m_flags := m_flags m AND NOT (flag_of p)\<rparr>)))"

definition GetProperty :: "string_property \<Rightarrow> ('a message_scheme, bytes) cm" where
  "GetProperty p = and_then get (\<lambda>m. if is_set (flag_of p) m then std_string (m_strings m p) else ret [])"

definition PropertyIsSet :: "string_property \<Rightarrow> 'a message_scheme \<Rightarrow> bool" where
  "PropertyIsSet p m = is_set (flag_of p) m"

text \<open>All setters but that of the cluster id test the flag of their property; that one tests the flag of the application id.\<close>

definition SetProperty :: "string_property \<Rightarrow> bytes \<Rightarrow> ('a message_scheme, unit) cm" where
  "SetProperty p s = set_field (flag_of p) p s"

definition ClearProperty :: "string_property \<Rightarrow> ('a message_scheme, unit) cm" where
  "ClearProperty p = clear_field (flag_of p) p"

definition SetClusterId :: "bytes \<Rightarrow> ('a message_scheme, unit) cm" where
  "SetClusterId s = set_field AMQP_BASIC_APP_ID_FLAG ClusterId s"

section \<open>Numbers, body and headers\<close>

definition DeliveryMode :: "'a message_scheme \<Rightarrow> u8" where
  "DeliveryMode m = (if is_set AMQP_BASIC_DELIVERY_MODE_FLAG m then m_delivery_mode m else 0)"

definition SetDeliveryMode :: "u8 \<Rightarrow> 'a message_scheme \<Rightarrow> 'a message_scheme" where
  "SetDeliveryMode x m = m\<lparr>m_delivery_mode := x, m_flags := m_flags m OR AMQP_BASIC_DELIVERY_MODE_FLAG\<rparr>"

definition Priority :: "'a message_scheme \<Rightarrow> u8" where
  "Priority m = (if is_set AMQP_BASIC_PRIORITY_FLAG m then m_priority m else 0)"

definition SetPriority :: "u8 \<Rightarrow> 'a message_scheme \<Rightarrow> 'a message_scheme" where
  "SetPriority x m = m\<lparr>m_priority := x, m_flags := m_flags m OR AMQP_BASIC_PRIORITY_FLAG\<rparr>"

text \<open>Reading the time stamp tests the flag of the reply address.\<close>

definition Timestamp :: "'a message_scheme \<Rightarrow> u64" where
  "Timestamp m = (if PropertyIsSet ReplyTo m then m_timestamp m else 0)"

definition SetTimestamp :: "u64 \<Rightarrow> 'a message_scheme \<Rightarrow> 'a message_scheme" where
  "SetTimestamp x m = m\<lparr>m_timestamp := x, m_flags := m_flags m OR AMQP_BASIC_TIMESTAMP_FLAG\<rparr>"

definition ClearNumber :: "amqp_flags \<Rightarrow> 'a message_scheme \<Rightarrow> 'a message_scheme" where
  "ClearNumber flag m = m\<lparr>m_flags := m_flags m AND NOT flag\<rparr>"

definition Body :: "('a message_scheme, bytes) cm" where
  "Body = and_then get (\<lambda>m. if mb_block (m_body m) = None then ret [] else std_string (m_body m))"

definition SetBody :: "bytes \<Rightarrow> ('a message_scheme, unit) cm" where
  "SetBody s = and_then get (\<lambda>m.
     and_then (free_if (mb_block (m_body m) \<noteq> None) (m_body m)) (\<lambda>_.
     and_then (amqp_bytes_malloc_dup s) (\<lambda>x. modify (\<lambda>m. m\<lparr>m_body := x\<rparr>))))"

definition HeaderTable :: "('a message_scheme, table) cm" where
  "HeaderTable = and_then get (\<lambda>m. if is_set AMQP_BASIC_HEADERS_FLAG m then
       (case m_headers m of None \<Rightarrow> undef | Some es \<Rightarrow> ret (CreateTable es)) else ret [])"

text \<open>
  A table with entries gets a new pool, and the old one goes before the new one is filled; when that throws, the
  headers are still those of the old pool.
\<close>

definition SetHeaderTable :: "table \<Rightarrow> ('a message_scheme, unit) cxx" where
  "SetHeaderTable t =
     and_then (if t = [] then ret () else and_then get (\<lambda>m.
       and_then (drop_pool (m_table_pool m)) (\<lambda>_.
       modify (\<lambda>m. m\<lparr>m_table_pool := None, m_headers := (if m_headers m = Some [] then Some [] else None)\<rparr>)))) (\<lambda>_.
     and_then (CreateAmqpTable t) (\<lambda>(r, pool).
     and_then (modify (\<lambda>m. if pool = None then m else m\<lparr>m_table_pool := pool\<rparr>)) (\<lambda>_.
     case r of Inl e \<Rightarrow> throw e
     | Inr es \<Rightarrow> calling (modify (\<lambda>m. m\<lparr>m_headers := Some es, m_flags := m_flags m OR AMQP_BASIC_HEADERS_FLAG\<rparr>)))))"

definition HeaderTableClear :: "('a message_scheme, unit) cm" where
  "HeaderTableClear = and_then get (\<lambda>m.
     and_then (if is_set AMQP_BASIC_HEADERS_FLAG m then
         and_then (drop_pool (m_table_pool m)) (\<lambda>_. modify (\<lambda>m. m\<lparr>m_table_pool := None, m_headers := Some []\<rparr>))
       else ret ()) (\<lambda>_.
     modify (\<lambda>m. m\<lparr>m_flags := m_flags m AND NOT AMQP_BASIC_HEADERS_FLAG\<rparr>)))"

section \<open>Life and death\<close>

definition string_properties :: "string_property list" where
  "string_properties = [ContentType, ContentEncoding, CorrelationId, ReplyTo, Expiration, MessageId, MessageType,
     UserId, AppId, ClusterId]"

definition new_message :: "'a heap_scheme \<Rightarrow> message" where
  "new_message h = \<lparr>next_id = next_id h, grants = grants h, live = live h, m_flags = 0, m_strings = (\<lambda>_. null_bytes),
     m_delivery_mode = 0, m_priority = 0, m_timestamp = 0, m_headers = Some [], m_table_pool = None, m_body = null_bytes\<rparr>"

text \<open>
  A message of a body and the properties that were received: \<open>m\<close> has the struct as it was copied, with the
  pointers of the decoder, and each string that is set is duplicated, as the headers are.
\<close>

primrec duplicate :: "string_property list \<Rightarrow> ('a message_scheme, unit) cm" where
  "duplicate [] = ret ()"
| "duplicate (p # ps) = and_then get (\<lambda>m.
     and_then (if is_set (flag_of p) m then
         and_then (amqp_bytes_malloc_dup (mb_bytes (m_strings m p))) (\<lambda>x.
         modify (\<lambda>m. m\<lparr>m_strings := (m_strings m)(p := x)\<rparr>))
       else ret ()) (\<lambda>_.
     duplicate ps))"

definition BasicMessage_copy :: "('a message_scheme, unit) cxx" where
  "BasicMessage_copy = and_then (duplicate string_properties) (\<lambda>_. and_then get (\<lambda>m.
     if is_set AMQP_BASIC_HEADERS_FLAG m then
       (case m_headers m of None \<Rightarrow> undef
        | Some headers \<Rightarrow> and_then (CopyTable headers) (\<lambda>(r, pool).
          and_then (modify (\<lambda>m. m\<lparr>m_table_pool := pool\<rparr>)) (\<lambda>_.
          case r of Inl e \<Rightarrow> throw e | Inr es \<Rightarrow> calling (modify (\<lambda>m. m\<lparr>m_headers := Some es\<rparr>)))))
     else value_of ()))"

primrec free_properties :: "string_property list \<Rightarrow> ('a message_scheme, unit) cm" where
  "free_properties [] = ret ()"
| "free_properties (p # ps) = and_then get (\<lambda>m.
     and_then (free_if (is_set (flag_of p) m) (m_strings m p)) (\<lambda>_. free_properties ps))"

definition BasicMessage_destroy :: "('a message_scheme, unit) cm" where
  "BasicMessage_destroy = and_then get (\<lambda>m.
     and_then (amqp_bytes_free (m_body m)) (\<lambda>_.
     and_then (free_properties string_properties) (\<lambda>_.
     drop_pool (m_table_pool m))))"

section \<open>Flags\<close>

fun bit_of :: "string_property \<Rightarrow> nat" where
  "bit_of ContentType = 15" | "bit_of ContentEncoding = 14" | "bit_of CorrelationId = 10" | "bit_of ReplyTo = 9"
| "bit_of Expiration = 8" | "bit_of MessageId = 7" | "bit_of MessageType = 5" | "bit_of UserId = 4"
| "bit_of AppId = 3" | "bit_of ClusterId = 2"

lemma flag_of_bit: "flag_of p = push_bit (bit_of p) 1"
  by (cases p) (simp_all add: flag_defs)

lemma bit_of_eq [simp]: "bit_of p = bit_of q \<longleftrightarrow> p = q"
  by (cases p; cases q; simp)

lemma bit_of_less: "bit_of p < 16"
  by (cases p) simp_all

lemma single_bit:
  assumes "k < 32"
  shows "push_bit k 1 = w AND push_bit k 1 \<longleftrightarrow> bit (w :: amqp_flags) k"
proof
  assume "push_bit k 1 = w AND push_bit k 1"
  then have "bit (push_bit k 1 :: amqp_flags) k = bit (w AND push_bit k 1) k" by simp
  then show "bit w k" using assms by (simp add: bit_simps)
next
  assume w: "bit w k"
  show "push_bit k 1 = w AND push_bit k 1"
  proof (rule bit_word_eqI)
    fix n
    show "bit (push_bit k 1 :: amqp_flags) n = bit (w AND push_bit k 1) n"
      using w by (cases "n = k") (auto simp: bit_simps)
  qed
qed

lemma is_set_bit: "is_set (flag_of p) m \<longleftrightarrow> bit (m_flags m) (bit_of p)"
  using bit_of_less [of p] single_bit [of "bit_of p" "m_flags m"] by (simp add: is_set_def flag_of_bit)

lemma PropertyIsSet_bit: "PropertyIsSet p m \<longleftrightarrow> bit (m_flags m) (bit_of p)"
  by (simp add: PropertyIsSet_def is_set_bit)

lemma bit_set: "bit (w OR flag_of p) (bit_of q) \<longleftrightarrow> bit w (bit_of q) \<or> p = q"
  using bit_of_less [of q] by (auto simp: flag_of_bit bit_simps)

lemma bit_clear: "bit (w AND NOT (flag_of p)) (bit_of q) \<longleftrightarrow> bit w (bit_of q) \<and> p \<noteq> q"
  using bit_of_less [of q] by (auto simp: flag_of_bit bit_simps)

section \<open>What a message owns\<close>

text \<open>The block of the body (\<open>None\<close>) and of each property that is set.\<close>

definition owner :: "'a message_scheme \<Rightarrow> string_property option \<Rightarrow> nat option" where
  "owner m x = (case x of None \<Rightarrow> mb_block (m_body m)
     | Some p \<Rightarrow> if PropertyIsSet p m then mb_block (m_strings m p) else None)"

definition msg_inv :: "'a message_scheme \<Rightarrow> bool" where
  "msg_inv m \<longleftrightarrow> heap_fresh m \<and> m_table_pool m = None \<and> (\<forall>x b. owner m x = Some b \<longrightarrow> live m b \<noteq> None) \<and>
     (\<forall>x y b. owner m x = Some b \<longrightarrow> owner m y = Some b \<longrightarrow> x = y)"

lemma new_message_inv: "heap_fresh h \<Longrightarrow> msg_inv (new_message h)"
  by (auto simp: msg_inv_def new_message_def owner_def PropertyIsSet_bit null_bytes_def heap_fresh_def split: option.splits)

text \<open>The state after a field was set, the new string being in block \<open>b\<close> if there was memory.\<close>

lemma dup_run:
  "amqp_bytes_malloc_dup s m = (Ok \<lparr>mb_len = length s, mb_block = (if grants m (next_id m) then Some (next_id m) else None),
      mb_bytes = (if grants m (next_id m) then s else [])\<rparr>,
    m\<lparr>next_id := Suc (next_id m), live := (if grants m (next_id m) then (live m)(next_id m \<mapsto> length s) else live m)\<rparr>)"
  by (simp add: amqp_bytes_malloc_dup_def c_malloc_def and_then_def Let_def)

definition without :: "nat option \<Rightarrow> 'a message_scheme \<Rightarrow> 'a message_scheme" where
  "without b m = (case b of None \<Rightarrow> m | Some b \<Rightarrow> m\<lparr>live := (live m)(b := None)\<rparr>)"

lemma without_same [simp]:
  "next_id (without b m) = next_id m" "grants (without b m) = grants m" "m_flags (without b m) = m_flags m"
  "m_strings (without b m) = m_strings m" "m_body (without b m) = m_body m" "m_table_pool (without b m) = m_table_pool m"
  "live (without b m) = (\<lambda>i. if b = Some i then None else live m i)"
  by (auto simp: without_def fun_eq_iff split: option.splits)

lemma free_run:
  "\<forall>b. mb_block x = Some b \<longrightarrow> live m b \<noteq> None \<Longrightarrow> amqp_bytes_free x m = (Ok (), without (mb_block x) m)"
  by (auto simp: amqp_bytes_free_def c_free_def without_def split: option.splits)

lemma set_run:
  assumes "msg_inv m"
  shows "\<exists>m'. SetProperty p s m = (Ok (), m') \<and> msg_inv m' \<and> m_flags m' = m_flags m OR flag_of p \<and>
    (\<forall>q. q \<noteq> p \<longrightarrow> m_strings m' q = m_strings m q) \<and> m_body m' = m_body m \<and>
    m_strings m' p = \<lparr>mb_len = length (amqp_cstring_bytes s), mb_block = (if grants m (next_id m) then Some (next_id m) else None),
      mb_bytes = (if grants m (next_id m) then amqp_cstring_bytes s else [])\<rparr> \<and> grants m' = grants m \<and>
    live m' = (if grants m (next_id m) then (live (without (owner m (Some p)) m))(next_id m \<mapsto> length (amqp_cstring_bytes s))
      else live (without (owner m (Some p)) m))"
proof -
  let ?old = "owner m (Some p)"
  let ?m1 = "without ?old m" and ?s = "amqp_cstring_bytes s"
  let ?x = "\<lparr>mb_len = length ?s, mb_block = (if grants m (next_id m) then Some (next_id m) else None),
      mb_bytes = (if grants m (next_id m) then ?s else [])\<rparr>"
  let ?m2 = "?m1\<lparr>next_id := Suc (next_id m), live := (if grants m (next_id m) then (live ?m1)(next_id m \<mapsto> length ?s) else live ?m1)\<rparr>"
  let ?m3 = "?m2\<lparr>m_strings := (m_strings m)(p := ?x), m_flags := m_flags m OR flag_of p\<rparr>"
  have inv: "heap_fresh m" "m_table_pool m = None" "\<And>x b. owner m x = Some b \<Longrightarrow> live m b \<noteq> None"
    "\<And>x y b. owner m x = Some b \<Longrightarrow> owner m y = Some b \<Longrightarrow> x = y"
    using assms by (auto simp: msg_inv_def)
  have "free_if (is_set (flag_of p) m) (m_strings m p) m = (Ok (), ?m1)"
    using inv(3) [of "Some p"] free_run [of "m_strings m p" m]
    by (auto simp: free_if_def owner_def PropertyIsSet_def without_def)
  then have run: "SetProperty p s m = (Ok (), ?m3)"
    using dup_run [of ?s ?m1] by (simp add: SetProperty_def set_field_def and_then_Ok)
  have fr: "live m (next_id m) = None" "\<And>i. next_id m \<le> i \<Longrightarrow> live m i = None" using inv(1) by (auto simp: heap_fresh_def)
  have ow: "owner ?m3 x = (if x = Some p then mb_block ?x else owner m x)" for x
    by (auto simp: owner_def PropertyIsSet_bit bit_set split: option.splits)
  have "heap_fresh ?m3" using inv(1) by (auto simp: heap_fresh_def less_Suc_eq)
  moreover have "live ?m3 b \<noteq> None" if "owner ?m3 x = Some b" for x b
    using that inv(3) [of x b] inv(4) [of x b "Some p"] by (auto simp: ow split: if_splits)
  moreover have "x = y" if "owner ?m3 x = Some b" "owner ?m3 y = Some b" for x y b
    using that inv(4) [of x b y] inv(3) [of x b] inv(3) [of y b] fr(1) by (auto simp: ow split: if_splits)
  ultimately have "msg_inv ?m3" unfolding msg_inv_def using inv(2) by auto
  then show ?thesis using run by (intro exI [of _ ?m3]) simp
qed

lemma clear_run:
  assumes "msg_inv m"
  shows "\<exists>m'. ClearProperty p m = (Ok (), m') \<and> msg_inv m' \<and> m_flags m' = m_flags m AND NOT (flag_of p) \<and>
    m_strings m' = m_strings m \<and> m_body m' = m_body m \<and> live m' = live (without (owner m (Some p)) m)"
proof -
  let ?m1 = "without (owner m (Some p)) m"
  let ?m2 = "?m1\<lparr>m_flags := m_flags m AND NOT (flag_of p)\<rparr>"
  have inv: "heap_fresh m" "m_table_pool m = None" "\<And>x b. owner m x = Some b \<Longrightarrow> live m b \<noteq> None"
    "\<And>x y b. owner m x = Some b \<Longrightarrow> owner m y = Some b \<Longrightarrow> x = y"
    using assms by (auto simp: msg_inv_def)
  have "free_if (is_set (flag_of p) m) (m_strings m p) m = (Ok (), ?m1)"
    using inv(3) [of "Some p"] free_run [of "m_strings m p" m]
    by (auto simp: free_if_def owner_def PropertyIsSet_def without_def)
  then have run: "ClearProperty p m = (Ok (), ?m2)" by (simp add: ClearProperty_def clear_field_def and_then_Ok)
  have ow: "owner ?m2 x = (if x = Some p then None else owner m x)" for x
    by (auto simp: owner_def PropertyIsSet_bit bit_clear split: option.splits)
  have "heap_fresh ?m2" using inv(1) by (auto simp: heap_fresh_def)
  moreover have "live ?m2 b \<noteq> None" if "owner ?m2 x = Some b" for x b
    using that inv(3) [of x b] inv(4) [of x b "Some p"] by (auto simp: ow split: if_splits)
  moreover have "x = y" if "owner ?m2 x = Some b" "owner ?m2 y = Some b" for x y b
    using that inv(4) [of x b y] by (auto simp: ow split: if_splits)
  ultimately have "msg_inv ?m2" unfolding msg_inv_def using inv(2) by auto
  with run show ?thesis by (intro exI [of _ ?m2]) simp
qed

section \<open>The contract of a property\<close>

text \<open>
  What a client expects of a string property: what was set is read, up to a zero byte, a property that was
  cleared reads as empty, and setting keeps what makes all this true.
\<close>

locale string_slot =
  fixes slot_set :: "bytes \<Rightarrow> ('s, unit) cm" and slot_clear :: "('s, unit) cm" and slot_get :: "('s, bytes) cm"
    and sound :: "'s \<Rightarrow> bool" and room :: "'s \<Rightarrow> bool"
  assumes set_law: "sound m \<Longrightarrow> \<exists>m'. slot_set s m = (Ok (), m') \<and> sound m' \<and> (room m \<longrightarrow> room m' \<and> slot_get m' = (Ok (amqp_cstring_bytes s), m'))"
    and clear_law: "sound m \<Longrightarrow> \<exists>m'. slot_clear m = (Ok (), m') \<and> sound m' \<and> slot_get m' = (Ok [], m')"
begin

text \<open>However often it is set, nothing goes wrong, and the last value counts.\<close>

primrec set_all :: "bytes list \<Rightarrow> ('s, unit) cm" where
  "set_all [] = ret ()"
| "set_all (s # ss) = and_then (slot_set s) (\<lambda>_. set_all ss)"

lemma last_value_counts:
  assumes "sound m" and "room m" and "ss \<noteq> []"
  shows "\<exists>m'. set_all ss m = (Ok (), m') \<and> sound m' \<and> slot_get m' = (Ok (amqp_cstring_bytes (last ss)), m')"
  using assms
proof (induction ss arbitrary: m)
  case (Cons s ss)
  then obtain m1 where 1: "slot_set s m = (Ok (), m1)" "sound m1" "room m1" "slot_get m1 = (Ok (amqp_cstring_bytes s), m1)"
    using set_law [of m s] by blast
  show ?case
  proof (cases "ss = []")
    case True
    with 1 show ?thesis by (simp add: and_then_Ok)
  next
    case False
    with Cons.IH [of m1] 1 show ?thesis by (simp add: and_then_Ok)
  qed
qed simp

end

definition granting_heap :: "'a heap_scheme \<Rightarrow> bool" where
  "granting_heap m \<longleftrightarrow> (\<forall>i. grants m i)"

interpretation property_slot: string_slot "SetProperty p" "ClearProperty p" "GetProperty p" msg_inv granting_heap
proof
  fix m :: "'a message_scheme" and s
  assume inv: "msg_inv m"
  from set_run [OF inv, of p s] obtain m' where m': "SetProperty p s m = (Ok (), m')" "msg_inv m'"
    "m_flags m' = m_flags m OR flag_of p" "grants m' = grants m"
    "m_strings m' p = \<lparr>mb_len = length (amqp_cstring_bytes s), mb_block = (if grants m (next_id m) then Some (next_id m) else None),
      mb_bytes = (if grants m (next_id m) then amqp_cstring_bytes s else [])\<rparr>" by blast
  have st: "PropertyIsSet p m'" by (simp add: PropertyIsSet_bit m'(3) bit_set)
  have "GetProperty p m' = (Ok (amqp_cstring_bytes s), m')" if "granting_heap m"
  proof -
    have "owner m' (Some p) = Some (next_id m)" using st m'(5) that by (simp add: owner_def granting_heap_def)
    then have "live m' (next_id m) \<noteq> None" using m'(2) by (simp add: msg_inv_def)
    with st m'(5) that show ?thesis by (simp add: GetProperty_def PropertyIsSet_def std_string_def granting_heap_def)
  qed
  with m' show "\<exists>m'. SetProperty p s m = (Ok (), m') \<and> msg_inv m' \<and>
      (granting_heap m \<longrightarrow> granting_heap m' \<and> GetProperty p m' = (Ok (amqp_cstring_bytes s), m'))"
    by (auto simp: granting_heap_def)
next
  fix m :: "'a message_scheme"
  assume "msg_inv m"
  from clear_run [OF this, of p] show "\<exists>m'. ClearProperty p m = (Ok (), m') \<and> msg_inv m' \<and> GetProperty p m' = (Ok [], m')"
    by (auto simp: GetProperty_def is_set_bit bit_clear)
qed

section \<open>Destruction\<close>

lemma free_properties_run:
  assumes "\<And>p b. p \<in> set ps \<Longrightarrow> owner m (Some p) = Some b \<Longrightarrow> live m b \<noteq> None" and "distinct ps"
    and "\<And>p q b. owner m (Some p) = Some b \<Longrightarrow> owner m (Some q) = Some b \<Longrightarrow> p = q"
  shows "\<exists>m'. free_properties ps m = (Ok (), m') \<and> m_table_pool m' = m_table_pool m \<and>
    live m' = (\<lambda>b. if \<exists>p \<in> set ps. owner m (Some p) = Some b then None else live m b)"
  using assms
proof (induction ps arbitrary: m)
  case (Cons p ps)
  let ?m = "without (owner m (Some p)) m"
  have "free_if (is_set (flag_of p) m) (m_strings m p) m = (Ok (), ?m)"
    using Cons.prems(1) [of p] free_run [of "m_strings m p" m]
    by (auto simp: free_if_def owner_def PropertyIsSet_def without_def)
  then have run: "free_properties (p # ps) m = free_properties ps ?m" by (simp add: and_then_Ok)
  have ow: "owner ?m x = owner m x" for x by (auto simp: owner_def PropertyIsSet_def is_set_def split: option.splits)
  have "\<exists>m'. free_properties ps ?m = (Ok (), m') \<and> m_table_pool m' = m_table_pool ?m \<and>
      live m' = (\<lambda>b. if \<exists>p \<in> set ps. owner ?m (Some p) = Some b then None else live ?m b)"
  proof (rule Cons.IH)
    show "live ?m b \<noteq> None" if "q \<in> set ps" "owner ?m (Some q) = Some b" for q b
      using that Cons.prems(1) [of q b] Cons.prems(2) Cons.prems(3) [of p b q] by (auto simp: ow)
    show "distinct ps" using Cons.prems(2) by simp
    show "q = r" if "owner ?m (Some q) = Some b" "owner ?m (Some r) = Some b" for q r b
      using that Cons.prems(3) [of q b r] by (simp add: ow)
  qed
  with run show ?case by (auto simp: ow fun_eq_iff)
qed simp

lemma destroy_run:
  assumes "msg_inv m"
  shows "\<exists>m'. BasicMessage_destroy m = (Ok (), m') \<and> live m' = (\<lambda>b. if \<exists>x. owner m x = Some b then None else live m b)"
proof -
  let ?m = "without (mb_block (m_body m)) m"
  have inv: "m_table_pool m = None" "\<And>x b. owner m x = Some b \<Longrightarrow> live m b \<noteq> None"
    "\<And>x y b. owner m x = Some b \<Longrightarrow> owner m y = Some b \<Longrightarrow> x = y" using assms by (auto simp: msg_inv_def)
  have body: "owner m None = mb_block (m_body m)" by (simp add: owner_def)
  have 1: "amqp_bytes_free (m_body m) m = (Ok (), ?m)" using inv(2) [of None] body by (intro free_run) auto
  have ow: "owner ?m x = owner m x" for x by (auto simp: owner_def PropertyIsSet_def is_set_def split: option.splits)
  have "\<exists>m'. free_properties string_properties ?m = (Ok (), m') \<and> m_table_pool m' = m_table_pool ?m \<and>
      live m' = (\<lambda>b. if \<exists>p \<in> set string_properties. owner ?m (Some p) = Some b then None else live ?m b)"
  proof (rule free_properties_run)
    show "live ?m b \<noteq> None" if "p \<in> set string_properties" "owner ?m (Some p) = Some b" for p b
      using that inv(2) [of "Some p" b] inv(3) [of "Some p" b None] body by (auto simp: ow)
    show "distinct string_properties" by (simp add: string_properties_def)
    show "p = q" if "owner ?m (Some p) = Some b" "owner ?m (Some q) = Some b" for p q b
      using that inv(3) [of "Some p" b "Some q"] by (simp add: ow)
  qed
  then obtain m' where 2: "free_properties string_properties ?m = (Ok (), m')" "m_table_pool m' = None"
    "live m' = (\<lambda>b. if \<exists>p \<in> set string_properties. owner m (Some p) = Some b then None else live ?m b)"
    using inv(1) by (auto simp: ow)
  have all: "p \<in> set string_properties" for p by (cases p) (simp_all add: string_properties_def)
  have ex: "(\<exists>x. owner m x = Some b) \<longleftrightarrow> owner m None = Some b \<or> (\<exists>p. owner m (Some p) = Some b)" for b
    by (metis option.exhaust)
  have "BasicMessage_destroy m = (Ok (), m')"
    using 1 2(1) inv(1) by (simp add: BasicMessage_destroy_def and_then_Ok drop_pool_def)
  moreover have "live m' = (\<lambda>b. if \<exists>x. owner m x = Some b then None else live m b)"
    using 2(3) body all by (auto simp: fun_eq_iff ex)
  ultimately show ?thesis by blast
qed

text \<open>Setting (\<open>Some\<close>) or clearing a property, by the method of its name.\<close>

definition assign :: "string_property \<times> bytes option \<Rightarrow> ('a message_scheme, unit) cm" where
  "assign e = (case e of
       (ClusterId, Some s) \<Rightarrow> SetClusterId s
     | (p, Some s) \<Rightarrow> SetProperty p s
     | (p, None) \<Rightarrow> ClearProperty p)"

primrec assign_all :: "(string_property \<times> bytes option) list \<Rightarrow> ('a message_scheme, unit) cm" where
  "assign_all [] = ret ()"
| "assign_all (e # es) = and_then (assign e) (\<lambda>_. assign_all es)"

lemma assign_other: "p \<noteq> ClusterId \<Longrightarrow> assign (p, x) = (case x of Some s \<Rightarrow> SetProperty p s | None \<Rightarrow> ClearProperty p)"
  by (cases p) (simp_all add: assign_def split: option.splits)

text \<open>All that is allocated beyond \<open>L\<close> is owned.\<close>

definition accounts :: "(nat \<Rightarrow> nat option) \<Rightarrow> 'a message_scheme \<Rightarrow> bool" where
  "accounts L m \<longleftrightarrow> msg_inv m \<and> (\<forall>b. if \<exists>x. owner m x = Some b then L b = None else live m b = L b)"

lemma owner_upd:
  assumes "m_flags m' = m_flags m OR flag_of p" and "\<forall>q. q \<noteq> p \<longrightarrow> m_strings m' q = m_strings m q" and "m_body m' = m_body m"
  shows "owner m' x = (if x = Some p then mb_block (m_strings m' p) else owner m x)"
  using assms by (auto simp: owner_def PropertyIsSet_bit bit_set split: option.splits)

lemma accounts_set:
  assumes "accounts L m"
  shows "\<exists>m'. SetProperty p s m = (Ok (), m') \<and> accounts L m'"
proof -
  have inv: "msg_inv m" using assms by (simp add: accounts_def)
  from set_run [OF inv, of p s] obtain m' where m': "SetProperty p s m = (Ok (), m')" "msg_inv m'"
    "m_flags m' = m_flags m OR flag_of p" "\<forall>q. q \<noteq> p \<longrightarrow> m_strings m' q = m_strings m q" "m_body m' = m_body m"
    "mb_block (m_strings m' p) = (if grants m (next_id m) then Some (next_id m) else None)"
    "live m' = (if grants m (next_id m) then (live (without (owner m (Some p)) m))(next_id m \<mapsto> length (amqp_cstring_bytes s))
      else live (without (owner m (Some p)) m))" by auto
  have ow: "owner m' x = (if x = Some p then mb_block (m_strings m' p) else owner m x)" for x
    by (rule owner_upd [OF m'(3-5)])
  have fresh: "live m (next_id m) = None" using inv by (auto simp: msg_inv_def heap_fresh_def)
  have un: "\<nexists>x. owner m x = Some (next_id m)" using inv fresh unfolding msg_inv_def by metis
  have L0: "L b = None" if "owner m x = Some b" for x b using assms that by (auto simp: accounts_def split: if_splits)
  have L1: "live m b = L b" if "\<nexists>x. owner m x = Some b" for b using assms that by (auto simp: accounts_def split: if_splits)
  have "if \<exists>x. owner m' x = Some b then L b = None else live m' b = L b" for b
  proof (cases "\<exists>x. owner m' x = Some b")
    case True
    then show ?thesis using L0 L1 [OF un] fresh by (auto simp: ow m'(6) split: if_splits)
  next
    case False
    then have other: "owner m x \<noteq> Some b" if "x \<noteq> Some p" for x using that by (metis ow)
    show ?thesis
    proof (cases "owner m (Some p) = Some b")
      case True
      moreover have "b \<noteq> next_id m" using True un by auto
      ultimately show ?thesis using False L0 [OF True] by (auto simp: m'(7))
    next
      case no: False
      then have "\<nexists>x. owner m x = Some b" using other by (metis)
      moreover have "grants m (next_id m) \<Longrightarrow> b \<noteq> next_id m" using False ow [of "Some p"] m'(6) by auto
      ultimately show ?thesis using False L1 [of b] no by (auto simp: m'(7))
    qed
  qed
  with m'(1,2) show ?thesis by (auto simp: accounts_def)
qed

lemma accounts_clear:
  assumes "accounts L m"
  shows "\<exists>m'. ClearProperty p m = (Ok (), m') \<and> accounts L m'"
proof -
  have inv: "msg_inv m" using assms by (simp add: accounts_def)
  from clear_run [OF inv, of p] obtain m' where m': "ClearProperty p m = (Ok (), m')" "msg_inv m'"
    "m_flags m' = m_flags m AND NOT (flag_of p)" "m_strings m' = m_strings m" "m_body m' = m_body m"
    "live m' = live (without (owner m (Some p)) m)" by auto
  have ow: "owner m' x = (if x = Some p then None else owner m x)" for x
    using m'(3-5) by (auto simp: owner_def PropertyIsSet_bit bit_clear split: option.splits)
  have L0: "L b = None" if "owner m x = Some b" for x b using assms that by (auto simp: accounts_def split: if_splits)
  have L1: "live m b = L b" if "\<nexists>x. owner m x = Some b" for b using assms that by (auto simp: accounts_def split: if_splits)
  have one: "x = y" if "owner m x = Some b" "owner m y = Some b" for x y b using inv that by (auto simp: msg_inv_def)
  have "if \<exists>x. owner m' x = Some b then L b = None else live m' b = L b" for b
  proof (cases "owner m (Some p) = Some b")
    case True
    then have "\<nexists>x. owner m' x = Some b" using one by (metis ow option.distinct(1))
    moreover have "live m' b = L b" using True L0 [OF True] by (simp add: m'(6))
    ultimately show ?thesis by simp
  next
    case False
    then have "(\<exists>x. owner m' x = Some b) \<longleftrightarrow> (\<exists>x. owner m x = Some b)" by (metis ow option.distinct(1))
    moreover have "live m' b = live m b" using False by (simp add: m'(6))
    ultimately show ?thesis using L0 [of _ b] L1 [of b] by (cases "\<exists>x. owner m x = Some b") auto
  qed
  with m'(1,2) show ?thesis by (auto simp: accounts_def)
qed

lemma accounts_all:
  "accounts L m \<Longrightarrow> \<forall>e \<in> set es. fst e \<noteq> ClusterId \<Longrightarrow> \<exists>m'. assign_all es m = (Ok (), m') \<and> accounts L m'"
proof (induction es arbitrary: m)
  case (Cons e es)
  obtain p x where e: "e = (p, x)" by fastforce
  then have "p \<noteq> ClusterId" using Cons.prems(2) by simp
  with accounts_set [OF Cons.prems(1)] accounts_clear [OF Cons.prems(1)]
  obtain m1 where "assign e m = (Ok (), m1)" "accounts L m1" unfolding e assign_other [OF \<open>p \<noteq> ClusterId\<close>]
    by (cases x) (simp, blast, simp, blast)
  with Cons.IH [of m1] Cons.prems(2) show ?case by (simp add: and_then_Ok)
qed simp

lemma accounts_new: "heap_fresh h \<Longrightarrow> accounts (live h) (new_message h)"
  using new_message_inv [of h]
  by (auto simp: accounts_def new_message_def owner_def PropertyIsSet_bit null_bytes_def split: option.splits)

section \<open>Mistaken tests\<close>

lemma timestamp_needs_reply_to: "\<not> PropertyIsSet ReplyTo m \<Longrightarrow> Timestamp (SetTimestamp t m) = 0"
  using bit_of_less [of ReplyTo] 
  by (simp add: Timestamp_def SetTimestamp_def PropertyIsSet_bit flag_defs bit_simps)

text \<open>Set twice without an application id, the first cluster id is never freed.\<close>

lemma cluster_id_leaks:
  "(case and_then (SetClusterId [1]) (\<lambda>_. and_then (SetClusterId [2]) (\<lambda>_. BasicMessage_destroy)) (new_message new_heap) of
      (r, m) \<Rightarrow> r = Ok () \<and> live m 0 = Some 1)"
  by code_simp

section \<open>Properties\<close>

text \<open>
  C35: a message frees what it owns, once.  Whatever string properties but the cluster id are set and cleared on
  a new message, in any order and with any pattern of failing allocations, no call frees memory that is not
  allocated, and when the message is destroyed the heap is what it was before the message.
\<close>

theorem message_frees_what_it_owns:
  assumes "heap_fresh h" and "\<forall>e \<in> set es. fst e \<noteq> ClusterId"
  shows "\<exists>m. and_then (assign_all es) (\<lambda>_. BasicMessage_destroy) (new_message h) = (Ok (), m) \<and> live m = live h"
proof -
  obtain m where m: "assign_all es (new_message h) = (Ok (), m)" "accounts (live h) m"
    using accounts_all [OF accounts_new [OF assms(1)] assms(2)] by blast
  then have "msg_inv m" "\<And>b. if \<exists>x. owner m x = Some b then live h b = None else live m b = live h b"
    by (simp_all add: accounts_def)
  moreover from destroy_run [OF this(1)] obtain m' where "BasicMessage_destroy m = (Ok (), m')"
    "live m' = (\<lambda>b. if \<exists>x. owner m x = Some b then None else live m b)" by blast
  ultimately have "BasicMessage_destroy m = (Ok (), m')" "live m' b = live h b" for b
    by (auto split: if_splits)
  with m(1) show ?thesis by (auto simp: and_then_Ok fun_eq_iff)
qed

theorem message_frees_what_it_owns_witness:
  "\<exists>m. and_then (assign_all [(ReplyTo, Some [1]), (AppId, Some [2]), (ReplyTo, Some [3]), (AppId, None)]) (\<lambda>_. BasicMessage_destroy)
     (new_message new_heap) = (Ok (), m) \<and> live m = live new_heap"
  by (rule message_frees_what_it_owns) (use new_heap_clean in \<open>simp_all add: clean_def\<close>)

text \<open>
  The cluster id is freed twice.  Its setter tests the flag of the application id: where that is set, a cluster
  id that was cleared is freed again by the next call of the setter, whatever the values.
\<close>

lemma cluster_id_is_freed_twice:
  assumes "clean h"
  shows "\<exists>m. and_then (assign_all [(AppId, Some a), (ClusterId, Some c), (ClusterId, None)]) (\<lambda>_. SetClusterId x) (new_message h) = (Undef, m)"
proof -
  have g: "grants h i" for i using assms by (simp add: clean_def)
  have f: "live h i = None" if "next_id h \<le> i" for i using assms that unfolding clean_def heap_fresh_def by (meson leD)
  show ?thesis
    by (simp add: assign_def SetProperty_def ClearProperty_def SetClusterId_def set_field_def clear_field_def free_if_def
        amqp_bytes_free_def dup_run c_free_def new_message_def is_set_def and_then_def null_bytes_def flag_defs g f)
qed

end
