(* ===== verification/SimpleChannel.thy ===== *)
theory SimpleChannel
  imports SimpleMessage "HOL-Library.AList"
begin

text \<open>
  Channels of the C++ client (\<^verbatim>\<open>ChannelImpl.cpp\<close>, \<^verbatim>\<open>ChannelImpl.h\<close>): one connection of the C library, and on top of it
  a queue of frames for each open channel, into which frames are put that arrive while another channel waits.

  The maps of the class are association lists without duplicates.  A result of \<^verbatim>\<open>bool\<close> with a frame as output
  parameter is an optional frame, and a timeout of \<open>None\<close> is \<^verbatim>\<open>microseconds::max()\<close>.
\<close>

unbundle bit_operations_syntax

section \<open>State\<close>

record 'c channel_impl =
  m_connection :: 'c
  m_consumer_channel_map :: "(bytes \<times> u16) list"
  m_open_channels :: "(u16 \<times> amqp_frame list) list"
  m_free_channels :: "u16 list"
  m_is_connected :: bool
  m_next_channel_id :: u16

text \<open>
  Beside the platform of the C library: \<^verbatim>\<open>steady_clock\<close> in nanoseconds, the text of \<^verbatim>\<open>errno\<close>, and whether the C++
  code is compiled with its assertions.
\<close>

record 's client_platform =
  lib :: "'s platform"
  steady_clock :: "('s, int) cm"
  errno_text :: "('s, bytes) cm"
  asserting :: bool

definition on_connection :: "('c, 'b) cm \<Rightarrow> ('c channel_impl, 'b) cm" where
  "on_connection m = (\<lambda>s. case m (m_connection s) of (r, c) \<Rightarrow> (r, s\<lparr>m_connection := c\<rparr>))"

definition new_impl :: "'c \<Rightarrow> 'c channel_impl" where
  "new_impl c = \<lparr>m_connection = c, m_consumer_channel_map = [], m_open_channels = [(0, [])], m_free_channels = [],
     m_is_connected = False, m_next_channel_id = 1\<rparr>"

text \<open>A negative result is thrown as an exception with the library's text; and a call of the library that is so checked.\<close>

definition CheckForCode :: "int \<Rightarrow> ('a conn_scheme channel_impl, unit) cxx" where
  "CheckForCode code = (if code < 0
     then and_then (on_connection (error_text (- code))) (\<lambda>errstr. throw (runtime_error errstr)) else value_of ())"

definition CheckForError :: "('a conn_scheme, 'b) cm \<Rightarrow> ('a conn_scheme channel_impl, 'b) cxx" where
  "CheckForError m = and_then (on_connection (catching m)) (\<lambda>r. case r of
       Inr a \<Rightarrow> value_of a
     | Inl status \<Rightarrow> cxx_then (CheckForCode (status_code status)) (\<lambda>_. undef))"

section \<open>Frames\<close>

text \<open>A method frame with one of the numbers, and what a method frame carries.\<close>

definition is_expected_method :: "u32 list \<Rightarrow> amqp_frame \<Rightarrow> bool" where
  "is_expected_method ids frame \<longleftrightarrow> frame_type frame = AMQP_FRAME_METHOD8 \<and>
     (case frame_payload frame of Method_payload method_id _ \<Rightarrow> method_id \<in> set ids | _ \<Rightarrow> False)"

fun decoded_of :: "amqp_frame_payload \<Rightarrow> amqp_method_struct option" where
  "decoded_of (Method_payload _ decoded) = decoded"
| "decoded_of _ = None"

definition method_id_of :: "amqp_frame \<Rightarrow> u32" where
  "method_id_of frame = (case frame_payload frame of Method_payload method_id _ \<Rightarrow> method_id | _ \<Rightarrow> 0)"

section \<open>Channels\<close>

definition IsChannelOpen :: "u16 \<Rightarrow> 'c channel_impl \<Rightarrow> bool" where
  "IsChannelOpen channel s \<longleftrightarrow> channel \<in> fst ` set (m_open_channels s)"

definition GetChannelQueueOrThrow :: "u16 \<Rightarrow> ('c channel_impl, amqp_frame list) cxx" where
  "GetChannelQueueOrThrow channel = and_then get (\<lambda>s. case map_of (m_open_channels s) channel of
       None \<Rightarrow> throw (runtime_error (ascii ''Channel not found''))
     | Some queue \<Rightarrow> value_of queue)"

definition set_queue :: "u16 \<Rightarrow> amqp_frame list \<Rightarrow> ('c channel_impl, unit) cm" where
  "set_queue channel queue = modify (\<lambda>s. s\<lparr>m_open_channels := AList.update channel queue (m_open_channels s)\<rparr>)"

definition push_frame :: "amqp_frame \<Rightarrow> ('c channel_impl, unit) cxx" where
  "push_frame frame = cxx_then (GetChannelQueueOrThrow (frame_channel frame)) (\<lambda>queue.
     calling (set_queue (frame_channel frame) (queue @ [frame])))"

definition ReturnChannel :: "u16 \<Rightarrow> ('c channel_impl, unit) cm" where
  "ReturnChannel channel = modify (\<lambda>s. s\<lparr>m_free_channels := m_free_channels s @ [channel]\<rparr>)"

definition CheckIsConnected :: "('c channel_impl, unit) cxx" where
  "CheckIsConnected = and_then get (\<lambda>s. if m_is_connected s then value_of () else throw ConnectionClosedException)"

definition SetIsConnected :: "bool \<Rightarrow> ('c channel_impl, unit) cm" where
  "SetIsConnected state = modify (\<lambda>s. s\<lparr>m_is_connected := state\<rparr>)"

definition FinishCloseChannel :: "'a conn_scheme client_platform \<Rightarrow> u16 \<Rightarrow> ('a conn_scheme channel_impl, unit) cxx" where
  "FinishCloseChannel R channel =
     and_then (modify (\<lambda>s. s\<lparr>m_open_channels := AList.delete channel (m_open_channels s)\<rparr>)) (\<lambda>_.
     CheckForError (amqp_send_method (lib R) channel AMQP_CHANNEL_CLOSE_OK_METHOD None))"

definition FinishCloseConnection :: "'a conn_scheme client_platform \<Rightarrow> ('a conn_scheme channel_impl, unit) cm" where
  "FinishCloseConnection R = and_then (SetIsConnected False) (\<lambda>_.
     and_then (on_connection (catching (amqp_send_method (lib R) 0 AMQP_CONNECTION_CLOSE_OK_METHOD None))) (\<lambda>_. ret ()))"

definition CheckRpcReply :: "'a conn_scheme client_platform \<Rightarrow> u16 \<Rightarrow> amqp_rpc_reply \<Rightarrow> ('a conn_scheme channel_impl, unit) cxx" where
  "CheckRpcReply R channel reply = (case reply_type reply of
       AMQP_RESPONSE_NORMAL \<Rightarrow> value_of ()
     | AMQP_RESPONSE_LIBRARY_EXCEPTION \<Rightarrow> and_then (on_connection (CreateException reply [])) throw
     | AMQP_RESPONSE_SERVER_EXCEPTION \<Rightarrow>
         cxx_then (if reply_id reply = AMQP_CHANNEL_CLOSE_METHOD then FinishCloseChannel R channel
           else if reply_id reply = AMQP_CONNECTION_CLOSE_METHOD then calling (FinishCloseConnection R)
           else value_of ()) (\<lambda>_. Throw_reply (asserting R) reply)
     | _ \<Rightarrow> Throw_reply (asserting R) reply)"

definition CheckFrameForClose :: "'a conn_scheme client_platform \<Rightarrow> amqp_frame \<Rightarrow> u16 \<Rightarrow> ('a conn_scheme channel_impl, unit) cxx" where
  "CheckFrameForClose R frame channel =
     (if is_expected_method [AMQP_CHANNEL_CLOSE_METHOD] frame
      then cxx_then (FinishCloseChannel R channel) (\<lambda>_. throw_channel_struct (decoded_of (frame_payload frame)))
      else if is_expected_method [AMQP_CONNECTION_CLOSE_METHOD] frame
      then and_then (FinishCloseConnection R) (\<lambda>_. throw_connection_struct (decoded_of (frame_payload frame)))
      else value_of ())"

text \<open>Consumers; \<^verbatim>\<open>insert\<close> leaves an entry that is there as it is.\<close>

definition AddConsumer :: "bytes \<Rightarrow> u16 \<Rightarrow> ('c channel_impl, unit) cm" where
  "AddConsumer consumer_tag channel = modify (\<lambda>s. s\<lparr>m_consumer_channel_map :=
     (if consumer_tag \<in> fst ` set (m_consumer_channel_map s) then m_consumer_channel_map s
      else m_consumer_channel_map s @ [(consumer_tag, channel)])\<rparr>)"

definition GetConsumerChannel :: "bytes \<Rightarrow> ('c channel_impl, u16) cxx" where
  "GetConsumerChannel consumer_tag = and_then get (\<lambda>s. case map_of (m_consumer_channel_map s) consumer_tag of
       None \<Rightarrow> throw ConsumerTagNotFoundException
     | Some channel \<Rightarrow> value_of channel)"

definition RemoveConsumer :: "bytes \<Rightarrow> ('c channel_impl, u16) cxx" where
  "RemoveConsumer consumer_tag = cxx_then (GetConsumerChannel consumer_tag) (\<lambda>channel.
     and_then (modify (\<lambda>s. s\<lparr>m_consumer_channel_map := AList.delete consumer_tag (m_consumer_channel_map s)\<rparr>)) (\<lambda>_.
     value_of channel))"

section \<open>Frames from the broker\<close>

text \<open>
  The rounds from the label \<^verbatim>\<open>start\<close>: whether there is something to read before the time is over, or the text of an
  error.  An interrupted \<^verbatim>\<open>select\<close> starts over with the whole time.
\<close>

primrec select_rounds :: "nat \<Rightarrow> 'a conn_scheme client_platform \<Rightarrow> int \<Rightarrow> int \<Rightarrow> ('a conn_scheme, bytes + bool) cm" where
  "select_rounds 0 R socketno timeout = out_of_fuel"
| "select_rounds (Suc n) R socketno timeout = and_then get (\<lambda>c.
     if amqp_frames_enqueued c \<or> amqp_data_in_buffer c then ret (Inr True)
     else if asserting R \<and> LONG_MAX \<le> timeout div 10 ^ 6 then amqp_abort
     else if socketno < 0 \<or> FD_SETSIZE \<le> socketno then undef
     else and_then (os_select (lib R) socketno \<lparr>tv_sec = timeout div 10 ^ 6, tv_usec = timeout mod 10 ^ 6\<rparr>) (\<lambda>(select_return, interrupted, _).
       if select_return = 0 then ret (Inr False)
       else if select_return = - 1 then
         (if interrupted then select_rounds n R socketno timeout
          else and_then (errno_text R) (\<lambda>err. ret (Inl (ascii ''error calling select on socket: '' @ err))))
       else ret (Inr True)))"

definition GetNextFrameFromBroker ::
    "nat \<Rightarrow> 'a conn_scheme client_platform \<Rightarrow> int option \<Rightarrow> ('a conn_scheme channel_impl, amqp_frame option) cxx" where
  "GetNextFrameFromBroker n R timeout =
     and_then (on_connection (amqp_get_sockfd (lib R))) (\<lambda>socketno.
     and_then (case timeout of None \<Rightarrow> ret (Inr True) | Some t \<Rightarrow> on_connection (select_rounds n R socketno t)) (\<lambda>r. case r of
       Inl err \<Rightarrow> throw (runtime_error err)
     | Inr False \<Rightarrow> value_of None
     | Inr True \<Rightarrow> cxx_then (CheckForError (amqp_simple_wait_frame n (lib R))) (\<lambda>frame. value_of (Some frame))))"

definition deadline :: "'a conn_scheme client_platform \<Rightarrow> int option \<Rightarrow> ('a conn_scheme channel_impl, int option) cm" where
  "deadline R timeout = (case timeout of None \<Rightarrow> ret None
     | Some t \<Rightarrow> and_then (on_connection (steady_clock R)) (\<lambda>now. ret (Some (now + 1000 * t))))"

text \<open>The end of a round: \<open>None\<close> when the time is over, else what is left of it.\<close>

definition time_left :: "'a conn_scheme client_platform \<Rightarrow> int option \<Rightarrow> ('a conn_scheme channel_impl, int option option) cm" where
  "time_left R end_point = (case end_point of None \<Rightarrow> ret (Some None)
     | Some e \<Rightarrow> and_then (on_connection (steady_clock R)) (\<lambda>now.
         ret (if e \<le> now then None else Some (Some ((e - now) div 1000)))))"

definition put_aside :: "'a conn_scheme client_platform \<Rightarrow> amqp_frame \<Rightarrow> ('a conn_scheme channel_impl, unit) cxx" where
  "put_aside R frame =
     (if frame_channel frame = 0 then
        (if is_expected_method [AMQP_CONNECTION_CLOSE_METHOD] frame
         then and_then (FinishCloseConnection R) (\<lambda>_. throw_connection_struct (decoded_of (frame_payload frame)))
         else value_of ())
      else push_frame frame)"

primrec channel_rounds ::
    "nat \<Rightarrow> nat \<Rightarrow> 'a conn_scheme client_platform \<Rightarrow> u16 \<Rightarrow> int option \<Rightarrow> int option \<Rightarrow>
     ('a conn_scheme channel_impl, amqp_frame option) cxx" where
  "channel_rounds 0 n R channel end_point timeout_left = out_of_fuel"
| "channel_rounds (Suc k) n R channel end_point timeout_left =
     cxx_then (GetNextFrameFromBroker n R timeout_left) (\<lambda>r. case r of
       None \<Rightarrow> value_of None
     | Some frame \<Rightarrow>
         if frame_channel frame = channel then value_of (Some frame)
         else cxx_then (put_aside R frame) (\<lambda>_.
           and_then (time_left R end_point) (\<lambda>left. case left of
             None \<Rightarrow> value_of None
           | Some timeout_left \<Rightarrow> channel_rounds k n R channel end_point timeout_left)))"

definition GetNextFrameFromBrokerOnChannel ::
    "nat \<Rightarrow> 'a conn_scheme client_platform \<Rightarrow> u16 \<Rightarrow> int option \<Rightarrow> ('a conn_scheme channel_impl, amqp_frame option) cxx" where
  "GetNextFrameFromBrokerOnChannel n R channel timeout =
     and_then (deadline R timeout) (\<lambda>end_point. channel_rounds n n R channel end_point timeout)"

definition GetNextFrameOnChannel ::
    "nat \<Rightarrow> 'a conn_scheme client_platform \<Rightarrow> u16 \<Rightarrow> int option \<Rightarrow> ('a conn_scheme channel_impl, amqp_frame option) cxx" where
  "GetNextFrameOnChannel n R channel timeout = cxx_then (GetChannelQueueOrThrow channel) (\<lambda>channel_queue. case channel_queue of
       frame # frames \<Rightarrow>
         and_then (set_queue channel frames) (\<lambda>_.
         if is_expected_method [AMQP_CHANNEL_CLOSE_METHOD] frame
         then cxx_then (FinishCloseChannel R channel) (\<lambda>_. throw_channel_struct (decoded_of (frame_payload frame)))
         else value_of (Some frame))
     | [] \<Rightarrow> GetNextFrameFromBrokerOnChannel n R channel timeout)"

definition MaybeReleaseBuffers :: "('a conn_scheme channel_impl, unit) cm" where
  "MaybeReleaseBuffers = and_then get (\<lambda>s.
     if list_all (\<lambda>(_, queue). queue = []) (m_open_channels s) then on_connection amqp_maybe_release_buffers else ret ())"

section \<open>Methods\<close>

text \<open>The first method of the given numbers in a queue, and the queue without it.\<close>

fun take_method :: "u32 list \<Rightarrow> amqp_frame list \<Rightarrow> (amqp_frame \<times> amqp_frame list) option" where
  "take_method ids [] = None"
| "take_method ids (frame # frames) =
     (if is_expected_method ids frame then Some (frame, frames) else map_option (map_prod id ((#) frame)) (take_method ids frames))"

primrec method_rounds ::
    "nat \<Rightarrow> nat \<Rightarrow> 'a conn_scheme client_platform \<Rightarrow> u16 \<Rightarrow> u32 list \<Rightarrow> int option \<Rightarrow> int option \<Rightarrow>
     ('a conn_scheme channel_impl, amqp_frame option) cxx" where
  "method_rounds 0 n R channel ids end_point timeout_left = out_of_fuel"
| "method_rounds (Suc k) n R channel ids end_point timeout_left =
     cxx_then (GetNextFrameFromBrokerOnChannel n R channel timeout_left) (\<lambda>r. case r of
       None \<Rightarrow> value_of None
     | Some incoming_frame \<Rightarrow>
         if is_expected_method ids incoming_frame then value_of (Some incoming_frame)
         else if is_expected_method [AMQP_CHANNEL_CLOSE_METHOD] incoming_frame then
           cxx_then (FinishCloseChannel R channel) (\<lambda>_.
           and_then (throw_channel_struct (decoded_of (frame_payload incoming_frame)) :: ('a conn_scheme channel_impl, unit) cxx) (\<lambda>r. case r of
             Inl (AmqpException x text' reply_text class_id method_id) \<Rightarrow>
               and_then MaybeReleaseBuffers (\<lambda>_. throw (AmqpException x text' reply_text class_id method_id))
           | Inl e \<Rightarrow> throw e
           | Inr _ \<Rightarrow> undef))
         else cxx_then (cxx_then (GetChannelQueueOrThrow channel) (\<lambda>queue. calling (set_queue channel (queue @ [incoming_frame])))) (\<lambda>_.
           and_then (time_left R end_point) (\<lambda>left. case left of
             None \<Rightarrow> value_of None
           | Some timeout_left \<Rightarrow> method_rounds k n R channel ids end_point timeout_left)))"

definition GetMethodOnChannel ::
    "nat \<Rightarrow> 'a conn_scheme client_platform \<Rightarrow> u16 \<Rightarrow> u32 list \<Rightarrow> int option \<Rightarrow> ('a conn_scheme channel_impl, amqp_frame option) cxx" where
  "GetMethodOnChannel n R channel expected_responses timeout = cxx_then (GetChannelQueueOrThrow channel) (\<lambda>channel_queue.
     case take_method expected_responses channel_queue of
       Some (frame, frames) \<Rightarrow> and_then (set_queue channel frames) (\<lambda>_. value_of (Some frame))
     | None \<Rightarrow> and_then (deadline R timeout) (\<lambda>end_point. method_rounds n n R channel expected_responses end_point timeout))"

text \<open>Without a timeout there is a frame; the variable would not be initialised otherwise.\<close>

definition DoRpcOnChannel ::
    "nat \<Rightarrow> 'a conn_scheme client_platform \<Rightarrow> u16 \<Rightarrow> u32 \<Rightarrow> amqp_method_struct option \<Rightarrow> u32 list \<Rightarrow>
     ('a conn_scheme channel_impl, amqp_frame) cxx" where
  "DoRpcOnChannel n R channel method_id decoded expected_responses =
     cxx_then (CheckForError (amqp_send_method (lib R) channel method_id decoded)) (\<lambda>_.
     cxx_then (GetMethodOnChannel n R channel expected_responses None) (\<lambda>response. case response of
       None \<Rightarrow> undef
     | Some frame \<Rightarrow> value_of frame))"

section \<open>Opening channels\<close>

primrec next_id_after :: "nat \<Rightarrow> u16 set \<Rightarrow> u16 \<Rightarrow> u16 option" where
  "next_id_after 0 used channel = None"
| "next_id_after (Suc n) used channel = (if channel + 1 \<in> used then next_id_after n used (channel + 1) else Some (channel + 1))"

definition GetNextChannelId :: "nat \<Rightarrow> ('a conn_scheme channel_impl, u16) cxx" where
  "GetNextChannelId n = and_then (on_connection amqp_get_channel_max) (\<lambda>max_channels.
     and_then get (\<lambda>s.
     let channel_count = int (length (m_open_channels s)) in
     if (if max_channels = 0 then 65535 else max_channels) \<le> channel_count
     then throw (runtime_error (ascii ''Too many channels open''))
     else case next_id_after n (fst ` set (m_open_channels s)) (m_next_channel_id s) of
       None \<Rightarrow> out_of_fuel
     | Some channel \<Rightarrow>
         and_then (modify (\<lambda>s. s\<lparr>m_next_channel_id := channel, m_open_channels := AList.update channel [] (m_open_channels s)\<rparr>)) (\<lambda>_.
         value_of channel)))"

definition CreateNewChannel :: "nat \<Rightarrow> 'a conn_scheme client_platform \<Rightarrow> ('a conn_scheme channel_impl, u16) cxx" where
  "CreateNewChannel n R = cxx_then (GetNextChannelId n) (\<lambda>new_channel.
     cxx_then (DoRpcOnChannel n R new_channel AMQP_CHANNEL_OPEN_METHOD (Some (amqp_channel_open_t [])) [AMQP_CHANNEL_OPEN_OK_METHOD]) (\<lambda>_.
     cxx_then (DoRpcOnChannel n R new_channel AMQP_CONFIRM_SELECT_METHOD (Some (amqp_confirm_select_t False)) [AMQP_CONFIRM_SELECT_OK_METHOD]) (\<lambda>_.
     value_of new_channel)))"

definition GetChannel :: "nat \<Rightarrow> 'a conn_scheme client_platform \<Rightarrow> ('a conn_scheme channel_impl, u16) cxx" where
  "GetChannel n R = and_then get (\<lambda>s. case m_free_channels s of
       [] \<Rightarrow> CreateNewChannel n R
     | channel # channels \<Rightarrow> and_then (modify (\<lambda>s. s\<lparr>m_free_channels := channels\<rparr>)) (\<lambda>_. value_of channel))"

definition DoRpc ::
    "nat \<Rightarrow> 'a conn_scheme client_platform \<Rightarrow> u32 \<Rightarrow> amqp_method_struct option \<Rightarrow> u32 list \<Rightarrow> ('a conn_scheme channel_impl, amqp_frame) cxx" where
  "DoRpc n R method_id decoded expected_responses = cxx_then (GetChannel n R) (\<lambda>channel.
     cxx_then (DoRpcOnChannel n R channel method_id decoded expected_responses) (\<lambda>frame.
     and_then (ReturnChannel channel) (\<lambda>_. value_of frame)))"

section \<open>Contents\<close>

text \<open>A message on the heap of the connection.\<close>

definition in_heap :: "'a heap_scheme \<Rightarrow> message \<Rightarrow> message" where
  "in_heap h m = m\<lparr>next_id := next_id h, grants := grants h, live := live h\<rparr>"

definition on_message :: "message \<Rightarrow> (message, 'b) cm \<Rightarrow> ('a heap_scheme, 'b \<times> message) cm" where
  "on_message m x = (\<lambda>h. case x (in_heap h m) of
     (r, m') \<Rightarrow> (map_outcome (\<lambda>b. (b, m')) r, h\<lparr>next_id := next_id m', grants := grants m', live := live m'\<rparr>))"

primrec string_field :: "string_property \<Rightarrow> amqp_basic_properties \<Rightarrow> bytes" where
  "string_field ContentType p = p_content_type p"
| "string_field ContentEncoding p = p_content_encoding p"
| "string_field CorrelationId p = p_correlation_id p"
| "string_field ReplyTo p = p_reply_to p"
| "string_field Expiration p = p_expiration p"
| "string_field MessageId p = p_message_id p"
| "string_field MessageType p = p_type p"
| "string_field UserId p = p_user_id p"
| "string_field AppId p = p_app_id p"
| "string_field ClusterId p = p_cluster_id p"

text \<open>The message as \<^verbatim>\<open>*properties\<close> and the body are copied into it, before anything is duplicated.\<close>

definition copied_message :: "malloced_bytes \<Rightarrow> amqp_basic_properties \<Rightarrow> message" where
  "copied_message body p = \<lparr>next_id = 0, grants = (\<lambda>_. False), live = Map.empty, m_flags = p_flags p,
     m_strings = (\<lambda>q. \<lparr>mb_len = length (string_field q p), mb_block = None, mb_bytes = string_field q p\<rparr>),
     m_delivery_mode = p_delivery_mode p, m_priority = p_priority p, m_timestamp = p_timestamp p,
     m_headers = Some (p_headers p), m_table_pool = None, m_body = body\<rparr>"

definition BasicMessage_Create :: "malloced_bytes \<Rightarrow> amqp_basic_properties \<Rightarrow> ('a heap_scheme, message) cxx" where
  "BasicMessage_Create body p = and_then (on_message (copied_message body p) BasicMessage_copy) (\<lambda>(r, m). case r of
       Inl e \<Rightarrow> throw e | Inr _ \<Rightarrow> value_of m)"

text \<open>What the accessors give of a message; the client of the C library gets the same struct.\<close>

definition properties_of :: "message \<Rightarrow> amqp_basic_properties" where
  "properties_of m = (let s = (\<lambda>q. mb_bytes (m_strings m q)) in
     \<lparr>p_flags = m_flags m, p_content_type = s ContentType, p_content_encoding = s ContentEncoding,
      p_headers = (case m_headers m of None \<Rightarrow> [] | Some es \<Rightarrow> es), p_delivery_mode = m_delivery_mode m, p_priority = m_priority m,
      p_correlation_id = s CorrelationId, p_reply_to = s ReplyTo, p_expiration = s Expiration, p_message_id = s MessageId,
      p_timestamp = m_timestamp m, p_type = s MessageType, p_user_id = s UserId, p_app_id = s AppId, p_cluster_id = s ClusterId\<rparr>)"

text \<open>\<open>received_size\<close> bytes of the body are there.  \<^verbatim>\<open>memcpy\<close> does not look at the size of the buffer.\<close>

primrec read_fragments ::
    "nat \<Rightarrow> nat \<Rightarrow> 'a conn_scheme client_platform \<Rightarrow> u16 \<Rightarrow> nat \<Rightarrow> nat option \<Rightarrow> bytes \<Rightarrow> ('a conn_scheme channel_impl, bytes) cxx" where
  "read_fragments 0 n R channel body_size block body = out_of_fuel"
| "read_fragments (Suc k) n R channel body_size block body =
     (if length body < body_size then
        cxx_then (GetNextFrameOnChannel n R channel None) (\<lambda>r. case r of
          None \<Rightarrow> undef
        | Some frame \<Rightarrow>
            if frame_type frame \<noteq> AMQP_FRAME_BODY8
            then throw (runtime_error (ascii ''Channel::BasicConsumeMessge: received unexpected frame type (was expecting AMQP_FRAME_BODY)''))
            else case frame_payload frame of
              Body_payload fragment \<Rightarrow>
                if block = None \<or> body_size < length (body @ fragment) then undef
                else read_fragments k n R channel body_size block (body @ fragment)
            | _ \<Rightarrow> undef)
      else value_of body)"

definition ReadContent :: "nat \<Rightarrow> 'a conn_scheme client_platform \<Rightarrow> u16 \<Rightarrow> ('a conn_scheme channel_impl, message) cxx" where
  "ReadContent n R channel = cxx_then (GetNextFrameOnChannel n R channel None) (\<lambda>r. case r of
       None \<Rightarrow> undef
     | Some frame \<Rightarrow>
         if frame_type frame \<noteq> AMQP_FRAME_HEADER8
         then throw (runtime_error (ascii ''Channel::BasicConsumeMessage: receieved unexpected frame type (was expected AMQP_FRAME_HEADER)''))
         else case frame_payload frame of
           Properties_payload _ body_size (Basic_properties properties) \<Rightarrow>
             if asserting R \<and> unat body_size = 2 ^ 64 - 1 then amqp_abort
             else and_then (on_connection (amqp_bytes_malloc (unat body_size))) (\<lambda>(len, block).
               cxx_then (read_fragments n n R channel len block []) (\<lambda>body.
               on_connection (BasicMessage_Create \<lparr>mb_len = len, mb_block = block, mb_bytes = body\<rparr> properties)))
         | _ \<Rightarrow> undef)"

definition CreateMessageReturnedException ::
    "nat \<Rightarrow> 'a conn_scheme client_platform \<Rightarrow> amqp_method_struct option \<Rightarrow> u16 \<Rightarrow> ('a conn_scheme channel_impl, cxx_exception) cxx" where
  "CreateMessageReturnedException n R return_method channel = (case return_method of
       Some (amqp_basic_return_t reply_code reply_text exchange routing_key) \<Rightarrow>
         cxx_then (ReadContent n R channel) (\<lambda>content.
         value_of (MessageReturnedException (mb_bytes (m_body content)) (properties_of content) reply_code reply_text exchange routing_key))
     | _ \<Rightarrow> undef)"

section \<open>Numbers of channels\<close>

text \<open>As many steps as there are numbers in use, and one more, are enough to find one that is not.\<close>

lemma next_id_found:
  assumes "card used < n" and "n \<le> 2 ^ 16"
  shows "\<exists>k. next_id_after n used channel = Some k \<and> k \<notin> used"
proof (rule ccontr)
  assume none: "\<not> ?thesis"
  have result: "next_id_after m used ch = Some k \<Longrightarrow> k \<notin> used" for m ch k
    by (induction m arbitrary: ch) (auto split: if_splits)
  have all: "next_id_after m used ch = None \<Longrightarrow> i < m \<Longrightarrow> ch + 1 + of_nat i \<in> used" for m ch i
  proof (induction m arbitrary: ch i)
    case (Suc m)
    then have c: "ch + 1 \<in> used" "next_id_after m used (ch + 1) = None" by (auto split: if_splits)
    show ?case
    proof (cases i)
      case 0
      then show ?thesis using c(1) by simp
    next
      case (Suc j)
      with Suc.IH [OF c(2), of j] Suc.prems(2) show ?thesis by (simp add: add.assoc)
    qed
  qed simp
  have "next_id_after n used channel = None" using none result by (cases "next_id_after n used channel") auto
  then have "(\<lambda>i. channel + 1 + of_nat i) ` {..<n} \<subseteq> used" using all by blast
  moreover have "inj_on (\<lambda>i. channel + 1 + of_nat i :: u16) {..<n}"
  proof (rule inj_onI)
    fix i j assume "i \<in> {..<n}" "j \<in> {..<n}" "channel + 1 + of_nat i = channel + 1 + (of_nat j :: u16)"
    then have "i < 2 ^ 16" "j < 2 ^ 16" "(of_nat i :: u16) = of_nat j" using assms(2) by auto
    then show "i = j" by (simp add: word_of_nat_eq_iff take_bit_nat_eq_self)
  qed
  moreover have "finite used" by simp
  ultimately have "n \<le> card used" by (metis card_image card_lessThan card_mono)
  with assms(1) show False by simp
qed

text \<open>
  C36: opening a channel finds a number.  As long as there are fewer open channels, channel 0 among them, than the
  server allows, the search for the next number ends, after at most one round for each number of 16 bits, at a
  number that is not 0 and not in use; the channel is then open with an empty queue, and no other queue changes.
  Beyond that the method throws and changes nothing.
\<close>

theorem next_channel_is_fresh:
  assumes "IsChannelOpen 0 s" and "distinct (map fst (m_open_channels s))" and "channel_max (m_connection s) \<le> 65535"
    and "bound = (if channel_max (m_connection s) = 0 then 65535 else channel_max (m_connection s))"
  shows "if bound \<le> int (length (m_open_channels s))
    then GetNextChannelId 65536 s = (Ok (Inl (runtime_error (ascii ''Too many channels open''))), s)
    else \<exists>channel s'. GetNextChannelId 65536 s = (Ok (Inr channel), s') \<and> channel \<noteq> 0 \<and> \<not> IsChannelOpen channel s \<and>
      map_of (m_open_channels s') = (map_of (m_open_channels s))(channel \<mapsto> []) \<and> distinct (map fst (m_open_channels s')) \<and>
      m_connection s' = m_connection s"
proof (cases "bound \<le> int (length (m_open_channels s))")
  case True
  then show ?thesis using assms(4)
    by (auto simp: GetNextChannelId_def and_then_Ok on_connection_def amqp_get_channel_max_def run_throw)
next
  case False
  let ?used = "fst ` set (m_open_channels s)"
  have "card ?used \<le> length (m_open_channels s)" by (metis card_length length_map list.set_map)
  then have "card ?used < 65536" using False assms(3,4) by (auto split: if_splits)
  from next_id_found [OF this, of "m_next_channel_id s"] obtain k where
    k: "next_id_after 65536 ?used (m_next_channel_id s) = Some k" "k \<notin> ?used" by auto
  then have "k \<noteq> 0" using assms(1) by (auto simp: IsChannelOpen_def)
  with k False assms(2,4) show ?thesis
    by (auto simp: GetNextChannelId_def and_then_Ok on_connection_def amqp_get_channel_max_def run_value_of Let_def
        IsChannelOpen_def update_conv' distinct_update)
qed

theorem next_channel_is_fresh_witness:
  "\<exists>channel s'. GetNextChannelId 65536 (new_impl sample_conn) = (Ok (Inr channel), s') \<and> channel \<noteq> 0 \<and>
      \<not> IsChannelOpen channel (new_impl sample_conn) \<and>
      map_of (m_open_channels s') = (map_of (m_open_channels (new_impl sample_conn)))(channel \<mapsto> []) \<and>
      distinct (map fst (m_open_channels s')) \<and> m_connection s' = m_connection (new_impl sample_conn)"
proof -
  have "channel_max sample_conn = 0" by (simp add: sample_conn_def zeroed_def heap.defs)
  with next_channel_is_fresh [of "new_impl sample_conn" 65535] show ?thesis by (simp add: new_impl_def IsChannelOpen_def)
qed

text \<open>
  The numbers go up until they wrap.  When channels have been closed, there may be one that is higher than the
  maximum the two sides agreed on.
\<close>

lemma number_beyond_maximum:
  assumes "m_next_channel_id s = of_int (channel_max (m_connection s))" and "0 < channel_max (m_connection s)"
    and "channel_max (m_connection s) < 65535" and "int (length (m_open_channels s)) < channel_max (m_connection s)"
    and "\<not> IsChannelOpen (of_int (channel_max (m_connection s) + 1)) s"
  shows "\<exists>channel s'. GetNextChannelId (Suc n) s = (Ok (Inr channel), s') \<and> channel_max (m_connection s) < uint channel"
  using assms
  by (simp add: GetNextChannelId_def and_then_Ok on_connection_def amqp_get_channel_max_def run_value_of Let_def
      IsChannelOpen_def uint_word_ariths uint_word_of_int)

end
