(* ===== verification/SimpleInbox.thy ===== *)
theory SimpleInbox
  imports SimpleChannel
begin

text \<open>
  What the channels of the C++ client are for: each has an inbox of its own.  The inbox of a channel is its queue
  and, behind that, its frames among those that the C library is still to deliver.
\<close>

section \<open>Inboxes\<close>

definition on_channel :: "u16 \<Rightarrow> amqp_frame list \<Rightarrow> amqp_frame list" where
  "on_channel channel frames = filter (\<lambda>f. frame_channel f = channel) frames"

definition inbox :: "'a conn_scheme channel_impl \<Rightarrow> amqp_frame list \<Rightarrow> u16 \<Rightarrow> amqp_frame list" where
  "inbox s fs channel = (if channel = 0 then [] else case map_of (m_open_channels s) channel of
       None \<Rightarrow> []
     | Some queue \<Rightarrow> queue @ on_channel channel (mailbox (m_connection s) fs))"

text \<open>A frame on an open channel, or on channel 0, that closes nothing.\<close>

definition ordinary :: "'c channel_impl \<Rightarrow> amqp_frame \<Rightarrow> bool" where
  "ordinary s f \<longleftrightarrow> (frame_channel f \<noteq> 0 \<longrightarrow> IsChannelOpen (frame_channel f) s) \<and>
     \<not> is_expected_method [AMQP_CHANNEL_CLOSE_METHOD, AMQP_CONNECTION_CLOSE_METHOD] f"

text \<open>
  A client whose connection has the frames \<open>fs\<close> before it, all of them ordinary; \<open>n\<close> is fuel for all that is
  to come.
\<close>

definition client :: "('a \<Rightarrow> bytes) \<Rightarrow> nat \<Rightarrow> 'a conn_scheme channel_impl \<Rightarrow> amqp_frame list \<Rightarrow> bool" where
  "client coming n s fs \<longleftrightarrow>
     awaiting (m_connection s) (coming (conn.more (m_connection s))) fs \<and>
     \<not> amqp_heartbeat_enabled (m_connection s) \<and> 0 < length (sock_inbound_buffer (m_connection s)) \<and>
     enough (m_connection s) (coming (conn.more (m_connection s))) \<le> n \<and>
     length (mailbox (m_connection s) fs) < n \<and>
     distinct (map fst (m_open_channels s)) \<and> list_all (ordinary s) (mailbox (m_connection s) fs)"

text \<open>Beside the queues, only the connection changes, by receiving.\<close>

definition receives :: "('a \<Rightarrow> bytes) \<Rightarrow> 'a conn_scheme channel_impl \<Rightarrow> 'a conn_scheme channel_impl \<Rightarrow> bool" where
  "receives outgoing s s' \<longleftrightarrow> waits (m_connection s) (m_connection s') \<and>
     outgoing (conn.more (m_connection s')) = outgoing (conn.more (m_connection s)) \<and>
     m_consumer_channel_map s' = m_consumer_channel_map s \<and> map fst (m_open_channels s') = map fst (m_open_channels s) \<and>
     m_free_channels s' = m_free_channels s \<and> m_is_connected s' = m_is_connected s \<and> m_next_channel_id s' = m_next_channel_id s"

lemma receives_refl [simp]: "receives outgoing s s"
  by (simp add: receives_def)

lemma receives_trans: "receives outgoing s t \<Longrightarrow> receives outgoing t u \<Longrightarrow> receives outgoing s u"
  by (auto simp: receives_def intro: waits_trans)

lemma open_keys: "IsChannelOpen channel s \<longleftrightarrow> channel \<in> set (map fst (m_open_channels s))"
  by (simp add: IsChannelOpen_def)

lemma ordinary_keys: "map fst (m_open_channels s') = map fst (m_open_channels s) \<Longrightarrow> ordinary s' = ordinary s"
  by (simp add: ordinary_def open_keys fun_eq_iff)

lemma open_queue: "IsChannelOpen channel s \<longleftrightarrow> (\<exists>queue. map_of (m_open_channels s) channel = Some queue)"
  unfolding IsChannelOpen_def by (metis map_of_eq_None_iff option.exhaust option.distinct(1))

lemma is_expected_more: "is_expected_method ids f \<Longrightarrow> set ids \<subseteq> set ids' \<Longrightarrow> is_expected_method ids' f"
  by (auto simp: is_expected_method_def split: amqp_frame_payload.splits)

lemma ordinary_no_close:
  "ordinary s f \<Longrightarrow> \<not> is_expected_method [AMQP_CHANNEL_CLOSE_METHOD] f" "ordinary s f \<Longrightarrow> \<not> is_expected_method [AMQP_CONNECTION_CLOSE_METHOD] f"
  by (auto simp: ordinary_def is_expected_method_def split: amqp_frame_payload.splits)

lemma on_channel_simps [simp]:
  "on_channel ch [] = []"
  "on_channel ch (f # fs) = (if frame_channel f = ch then f # on_channel ch fs else on_channel ch fs)"
  "on_channel ch (fs @ gs) = on_channel ch fs @ on_channel ch gs"
  by (simp_all add: on_channel_def)

lemma run_on_connection [run]: "m (m_connection s) = (r, c) \<Longrightarrow> on_connection m s = (r, s\<lparr>m_connection := c\<rparr>)"
  by (simp add: on_connection_def)

lemma CheckForError_Ok [run]: "m (m_connection s) = (Ok a, c) \<Longrightarrow> CheckForError m s = (Ok (Inr a), s\<lparr>m_connection := c\<rparr>)"
  by (simp add: CheckForError_def and_then_Ok run_on_connection run_catching run_value_of)

lemma run_set_queue [run]: "set_queue ch q s = (Ok (), s\<lparr>m_open_channels := AList.update ch q (m_open_channels s)\<rparr>)"
  by (simp add: set_queue_def)

lemma run_queue [run]: "map_of (m_open_channels s) ch = Some q \<Longrightarrow> GetChannelQueueOrThrow ch s = (Ok (Inr q), s)"
  by (simp add: GetChannelQueueOrThrow_def run_value_of)

text \<open>The queue of an open channel is replaced.\<close>

definition with_queue :: "u16 \<Rightarrow> amqp_frame list \<Rightarrow> 'c channel_impl \<Rightarrow> 'c channel_impl" where
  "with_queue ch q s = s\<lparr>m_open_channels := AList.update ch q (m_open_channels s)\<rparr>"

lemma with_queue_simps [simp]:
  "m_connection (with_queue ch q s) = m_connection s" "m_consumer_channel_map (with_queue ch q s) = m_consumer_channel_map s"
  "m_free_channels (with_queue ch q s) = m_free_channels s" "m_is_connected (with_queue ch q s) = m_is_connected s"
  "m_next_channel_id (with_queue ch q s) = m_next_channel_id s"
  "map_of (m_open_channels (with_queue ch q s)) = (map_of (m_open_channels s))(ch \<mapsto> q)"
  by (simp_all add: with_queue_def update_conv')

lemma connection_update_simps [simp]: "m_connection (s\<lparr>m_connection := c\<rparr>) = c"
  "m_open_channels (s\<lparr>m_connection := c\<rparr>) = m_open_channels s"
  by simp_all

lemma with_queue_keys: "IsChannelOpen ch s \<Longrightarrow> map fst (m_open_channels (with_queue ch q s)) = map fst (m_open_channels s)"
  by (simp add: with_queue_def open_keys update_keys)

lemma with_queue_client: "IsChannelOpen ch s \<Longrightarrow> client coming n (with_queue ch q s) fs = client coming n s fs"
  unfolding client_def by (simp add: with_queue_keys ordinary_keys [OF with_queue_keys])

lemma with_queue_receives: "IsChannelOpen ch s \<Longrightarrow> receives outgoing s (with_queue ch q s)"
  by (simp add: receives_def with_queue_keys)

section \<open>The contract\<close>

text \<open>
  Beside a stream in both directions, that the descriptor of the socket can be asked for.
\<close>

locale client_stream = duplex_stream "lib R" coming outgoing
  for R :: "'a conn_scheme client_platform" and coming :: "'a \<Rightarrow> bytes" and outgoing :: "'a \<Rightarrow> bytes" +
  assumes descriptor: "\<exists>fd. amqp_get_sockfd (lib R) c = (Ok fd, c)" and release_build: "ndebug (lib R)"
begin

lemma from_broker:
  assumes "client coming n s fs" and "mailbox (m_connection s) fs = f # rest"
  shows "\<exists>c fs'. GetNextFrameFromBroker n R None s = (Ok (Inr (Some f)), s\<lparr>m_connection := c\<rparr>) \<and>
    client coming n (s\<lparr>m_connection := c\<rparr>) fs' \<and> mailbox c fs' = rest \<and> receives outgoing s (s\<lparr>m_connection := c\<rparr>)"
proof -
  note c = assms(1) [unfolded client_def]
  obtain fd where fd: "amqp_get_sockfd (lib R) (m_connection s) = (Ok fd, m_connection s)" using descriptor by blast
  from simple_wait_frame_run [where fs = fs and f = f and rest = rest and n = n and c = "m_connection s"] c release_build assms(2)
  obtain c' fs' where 1: "amqp_simple_wait_frame n (lib R) (m_connection s) = (Ok f, c')" "awaiting c' (coming (conn.more c')) fs'"
    "mailbox c' fs' = rest" "waits (m_connection s) c'"
    "enough c' (coming (conn.more c')) \<le> enough (m_connection s) (coming (conn.more (m_connection s)))"
    "outgoing (conn.more c') = outgoing (conn.more (m_connection s))" by blast
  have "GetNextFrameFromBroker n R None s = (Ok (Inr (Some f)), s\<lparr>m_connection := c'\<rparr>)"
    using fd 1(1) by (simp add: GetNextFrameFromBroker_def and_then_Ok run_on_connection cxx_then_Ok CheckForError_Ok run_value_of)
  moreover have "client coming n (s\<lparr>m_connection := c'\<rparr>) fs'"
    using c 1 waitsD [OF 1(4)] assms(2) by (simp add: client_def ordinary_keys [of "s\<lparr>m_connection := c'\<rparr>" s])
  ultimately show ?thesis using 1 by (intro exI [of _ c'] exI [of _ fs']) (simp add: receives_def)
qed

lemma put_aside_run:
  assumes "ordinary s f" and "distinct (map fst (m_open_channels s))"
  shows "\<exists>s'. put_aside R f s = (Ok (Inr ()), s') \<and> m_connection s' = m_connection s \<and> receives outgoing s s' \<and>
    map_of (m_open_channels s') = (\<lambda>ch. if frame_channel f \<noteq> 0 \<and> ch = frame_channel f
      then map_option (\<lambda>q. q @ [f]) (map_of (m_open_channels s) ch) else map_of (m_open_channels s) ch)"
proof (cases "frame_channel f = 0")
  case True
  then show ?thesis using ordinary_no_close(2) [OF assms(1)] by (simp add: put_aside_def run_value_of)
next
  case False
  then have op: "IsChannelOpen (frame_channel f) s" using assms(1) by (simp add: ordinary_def)
  then obtain q where q: "map_of (m_open_channels s) (frame_channel f) = Some q" by (auto simp: open_queue)
  have "put_aside R f s = (Ok (Inr ()), with_queue (frame_channel f) (q @ [f]) s)"
    using False q by (simp add: put_aside_def push_frame_def cxx_then_Ok run_queue calling_Ok run_set_queue with_queue_def)
  then show ?thesis using False q with_queue_receives [OF op]
    by (intro exI [of _ "with_queue (frame_channel f) (q @ [f]) s"]) (auto simp: fun_eq_iff)
qed

lemma channel_rounds_run:
  assumes "client coming n s fs" and "IsChannelOpen channel s" and "channel \<noteq> 0"
    and "on_channel channel (mailbox (m_connection s) fs) = f # rest" and "length (mailbox (m_connection s) fs) < k"
  shows "\<exists>s' fs'. channel_rounds k n R channel None None s = (Ok (Inr (Some f)), s') \<and> client coming n s' fs' \<and>
    on_channel channel (mailbox (m_connection s') fs') = rest \<and> receives outgoing s s' \<and>
    map_of (m_open_channels s') channel = map_of (m_open_channels s) channel \<and>
    (\<forall>ch. ch \<noteq> channel \<longrightarrow> inbox s' fs' ch = inbox s fs ch) \<and>
    length (mailbox (m_connection s') fs') < length (mailbox (m_connection s) fs)"
  using assms
proof (induction k arbitrary: s fs)
  case 0
  then show ?case by simp
next
  case (Suc k)
  then obtain g gs where m: "mailbox (m_connection s) fs = g # gs" by (cases "mailbox (m_connection s) fs") auto
  from from_broker [OF Suc.prems(1) m] obtain c fs1 where
    1: "GetNextFrameFromBroker n R None s = (Ok (Inr (Some g)), s\<lparr>m_connection := c\<rparr>)"
    "client coming n (s\<lparr>m_connection := c\<rparr>) fs1" "mailbox c fs1 = gs" "receives outgoing s (s\<lparr>m_connection := c\<rparr>)" by blast
  let ?s = "s\<lparr>m_connection := c\<rparr>"
  show ?case
  proof (cases "frame_channel g = channel")
    case True
    then have "channel_rounds (Suc k) n R channel None None s = (Ok (Inr (Some f)), ?s)" "rest = on_channel channel gs"
      using 1(1) m Suc.prems(4) by (simp_all add: cxx_then_Ok run_value_of)
    moreover have "inbox ?s fs1 ch = inbox s fs ch" if "ch \<noteq> channel" for ch
      using that True m 1(3) by (simp add: inbox_def cong: option.case_cong)
    ultimately show ?thesis using 1 m by (intro exI [of _ ?s] exI [of _ fs1]) simp
  next
    case False
    have "ordinary s g" using Suc.prems(1) m by (simp add: client_def)
    then have g: "ordinary ?s g" by (simp add: ordinary_def IsChannelOpen_def)
    have "distinct (map fst (m_open_channels ?s))" using 1(2) by (simp add: client_def)
    from put_aside_run [OF g this] obtain s2 where
      2: "put_aside R g ?s = (Ok (Inr ()), s2)" "m_connection s2 = m_connection ?s" "receives outgoing ?s s2"
      "map_of (m_open_channels s2) = (\<lambda>ch. if frame_channel g \<noteq> 0 \<and> ch = frame_channel g
         then map_option (\<lambda>q. q @ [g]) (map_of (m_open_channels ?s) ch) else map_of (m_open_channels ?s) ch)"
      by blast
    have keys: "map fst (m_open_channels s2) = map fst (m_open_channels s)" using 2(3) by (simp add: receives_def)
    have cl: "client coming n s2 fs1"
      using 1(2) 2(2) keys ordinary_keys [of s2 ?s] by (simp add: client_def)
    have op: "IsChannelOpen channel s2" using Suc.prems(2) keys by (simp add: open_keys)
    have on: "on_channel channel (mailbox (m_connection s2) fs1) = f # rest" using Suc.prems(4) m False 2(2) 1(3) by simp
    have len: "length (mailbox (m_connection s2) fs1) < k" using Suc.prems(5) m 2(2) 1(3) by simp
    from Suc.IH [OF cl op Suc.prems(3) on len] obtain s' fs' where
      3: "channel_rounds k n R channel None None s2 = (Ok (Inr (Some f)), s')" "client coming n s' fs'"
      "on_channel channel (mailbox (m_connection s') fs') = rest" "receives outgoing s2 s'"
      "map_of (m_open_channels s') channel = map_of (m_open_channels s2) channel"
      "\<forall>ch. ch \<noteq> channel \<longrightarrow> inbox s' fs' ch = inbox s2 fs1 ch"
      "length (mailbox (m_connection s') fs') < length (mailbox (m_connection s2) fs1)" by blast
    have "channel_rounds (Suc k) n R channel None None s = channel_rounds k n R channel None None s2"
      using 1(1) 2(1) False by (simp add: cxx_then_Ok and_then_Ok time_left_def)
    moreover have "inbox s2 fs1 ch = inbox s fs ch" if "ch \<noteq> channel" for ch
      using that m 1(3) 2(2) by (auto simp: inbox_def 2(4) split: option.splits)
    moreover have "receives outgoing s s'" using 1(4) 2(3) 3(4) by (blast intro: receives_trans)
    moreover have "map_of (m_open_channels s') channel = map_of (m_open_channels s) channel" using 3(5) False by (simp add: 2(4))
    ultimately show ?thesis using 3 2(2) 1(3) m by (intro exI [of _ s'] exI [of _ fs']) simp
  qed
qed

text \<open>The first law: the next frame of a channel is the head of its inbox, and nothing else changes.\<close>

lemma next_frame_run:
  assumes "client coming n s fs" and "IsChannelOpen channel s" and "channel \<noteq> 0" and "inbox s fs channel = f # rest"
    and "\<not> is_expected_method [AMQP_CHANNEL_CLOSE_METHOD] f"
  shows "\<exists>s' fs'. GetNextFrameOnChannel n R channel None s = (Ok (Inr (Some f)), s') \<and> client coming n s' fs' \<and>
    inbox s' fs' = (inbox s fs)(channel := rest) \<and> receives outgoing s s'"
proof -
  obtain q where q: "map_of (m_open_channels s) channel = Some q" using assms(2) by (auto simp: open_queue)
  then have ib: "q @ on_channel channel (mailbox (m_connection s) fs) = f # rest" using assms(3,4) by (simp add: inbox_def)
  show ?thesis
  proof (cases q)
    case (Cons g gs)
    let ?s = "with_queue channel gs s"
    have "GetNextFrameOnChannel n R channel None s = (Ok (Inr (Some f)), ?s)"
      using Cons q ib assms(5) by (simp add: GetNextFrameOnChannel_def cxx_then_Ok run_queue and_then_Ok run_set_queue run_value_of with_queue_def)
    moreover have "inbox ?s fs = (inbox s fs)(channel := rest)"
      using Cons q ib assms(3) by (auto simp: inbox_def fun_eq_iff cong: option.case_cong)
    ultimately show ?thesis using assms(1) with_queue_client [OF assms(2)] with_queue_receives [OF assms(2)]
      by (intro exI [of _ ?s] exI [of _ fs]) simp
  next
    case Nil
    with ib have on: "on_channel channel (mailbox (m_connection s) fs) = f # rest" by simp
    have "length (mailbox (m_connection s) fs) < n" using assms(1) by (simp add: client_def)
    from channel_rounds_run [OF assms(1-3) on this] obtain s' fs' where
      1: "channel_rounds n n R channel None None s = (Ok (Inr (Some f)), s')" "client coming n s' fs'"
      "on_channel channel (mailbox (m_connection s') fs') = rest" "receives outgoing s s'"
      "map_of (m_open_channels s') channel = map_of (m_open_channels s) channel"
      "\<forall>ch. ch \<noteq> channel \<longrightarrow> inbox s' fs' ch = inbox s fs ch" by blast
    have "GetNextFrameOnChannel n R channel None s = (Ok (Inr (Some f)), s')"
      using Nil q 1(1) by (simp add: GetNextFrameOnChannel_def cxx_then_Ok run_queue GetNextFrameFromBrokerOnChannel_def deadline_def)
    moreover have "inbox s' fs' = (inbox s fs)(channel := rest)"
      using 1(3,5,6) Nil q assms(3) by (auto simp: inbox_def fun_eq_iff)
    ultimately show ?thesis using 1 by (intro exI [of _ s'] exI [of _ fs']) simp
  qed
qed

text \<open>The second law: the first method of the numbers is taken out of the inbox.\<close>

lemma take_method_append:
  "take_method ids (xs @ ys) = (case take_method ids xs of Some (f, zs) \<Rightarrow> Some (f, zs @ ys)
     | None \<Rightarrow> map_option (map_prod id ((@) xs)) (take_method ids ys))"
proof (induction xs)
  case Nil
  then show ?case by (cases "take_method ids ys") auto
next
  case (Cons x xs)
  then show ?case by (cases "take_method ids ys") (auto split: option.splits)
qed

lemma method_rounds_run:
  assumes "client coming n s fs" and "channel \<noteq> 0" and "map_of (m_open_channels s) channel = Some q"
    and "take_method ids (on_channel channel (mailbox (m_connection s) fs)) = Some (f, rest)"
    and "length (mailbox (m_connection s) fs) < k"
  shows "\<exists>s' fs'. method_rounds k n R channel ids None None s = (Ok (Inr (Some f)), s') \<and> client coming n s' fs' \<and>
    inbox s' fs' = (inbox s fs)(channel := q @ rest) \<and> receives outgoing s s'"
  using assms
proof (induction k arbitrary: s fs q rest)
  case 0
  then show ?case by simp
next
  case (Suc k)
  have op: "IsChannelOpen channel s" using Suc.prems(3) by (auto simp: open_queue)
  obtain g gs where on: "on_channel channel (mailbox (m_connection s) fs) = g # gs"
    using Suc.prems(4) by (cases "on_channel channel (mailbox (m_connection s) fs)") auto
  have "length (mailbox (m_connection s) fs) < n" using Suc.prems(1) by (simp add: client_def)
  from channel_rounds_run [OF Suc.prems(1) op Suc.prems(2) on this] obtain s1 fs1 where
    1: "channel_rounds n n R channel None None s = (Ok (Inr (Some g)), s1)" "client coming n s1 fs1"
    "on_channel channel (mailbox (m_connection s1) fs1) = gs" "receives outgoing s s1"
    "map_of (m_open_channels s1) channel = map_of (m_open_channels s) channel"
    "\<forall>ch. ch \<noteq> channel \<longrightarrow> inbox s1 fs1 ch = inbox s fs ch"
    "length (mailbox (m_connection s1) fs1) < length (mailbox (m_connection s) fs)" by blast
  have q1: "map_of (m_open_channels s1) channel = Some q" using 1(5) Suc.prems(3) by simp
  have br: "GetNextFrameFromBrokerOnChannel n R channel None s = (Ok (Inr (Some g)), s1)"
    using 1(1) by (simp add: GetNextFrameFromBrokerOnChannel_def deadline_def)
  show ?case
  proof (cases "is_expected_method ids g")
    case True
    then have "f = g" "rest = gs" using Suc.prems(4) on by simp_all
    moreover have "inbox s1 fs1 = (inbox s fs)(channel := q @ gs)"
      using 1(3,6) q1 Suc.prems(2) by (auto simp: inbox_def fun_eq_iff)
    moreover have "method_rounds (Suc k) n R channel ids None None s = (Ok (Inr (Some g)), s1)"
      using br True by (simp add: cxx_then_Ok run_value_of)
    ultimately show ?thesis using 1(2,4) by (intro exI [of _ s1] exI [of _ fs1]) simp
  next
    case False
    then obtain rest' where r: "take_method ids gs = Some (f, rest')" "rest = g # rest'"
      using Suc.prems(4) on by auto
    have "g \<in> set (mailbox (m_connection s) fs)" 
      using on by (metis filter_is_subset in_mono list.set_intros(1) on_channel_def)
    then have "ordinary s g" using Suc.prems(1) by (simp add: client_def list_all_iff)
    then have nc: "\<not> is_expected_method [AMQP_CHANNEL_CLOSE_METHOD] g" by (rule ordinary_no_close)
    let ?s = "with_queue channel (q @ [g]) s1"
    have op1: "IsChannelOpen channel s1" using q1 by (auto simp: open_queue)
    have "client coming n ?s fs1" using 1(2) op1 by (simp add: with_queue_client)
    moreover have "map_of (m_open_channels ?s) channel = Some (q @ [g])" by simp
    moreover have "take_method ids (on_channel channel (mailbox (m_connection ?s) fs1)) = Some (f, rest')" using r(1) 1(3) by simp
    moreover have "length (mailbox (m_connection ?s) fs1) < k" using 1(7) Suc.prems(5) by simp
    ultimately obtain s' fs' where
      2: "method_rounds k n R channel ids None None ?s = (Ok (Inr (Some f)), s')" "client coming n s' fs'"
      "inbox s' fs' = (inbox ?s fs1)(channel := (q @ [g]) @ rest')" "receives outgoing ?s s'"
      using Suc.IH [of ?s fs1 "q @ [g]" rest'] Suc.prems(2) by blast
    have "method_rounds (Suc k) n R channel ids None None s = method_rounds k n R channel ids None None ?s"
      using br False nc q1
      by (simp add: cxx_then_Ok and_then_Ok run_queue calling_Ok run_set_queue time_left_def with_queue_def)
    moreover have "inbox ?s fs1 ch = inbox s fs ch" if "ch \<noteq> channel" for ch
    proof -
      have "inbox ?s fs1 ch = inbox s1 fs1 ch" using that by (simp add: inbox_def cong: option.case_cong)
      with that 1(6) show ?thesis by simp
    qed
    then have "inbox s' fs' = (inbox s fs)(channel := q @ rest)" using 2(3) r(2) by (auto simp: fun_eq_iff)
    moreover have "receives outgoing s s'" using 1(4) with_queue_receives [OF op1] 2(4) by (blast intro: receives_trans)
    ultimately show ?thesis using 2 by (intro exI [of _ s'] exI [of _ fs']) simp
  qed
qed

lemma method_run:
  assumes "client coming n s fs" and "IsChannelOpen channel s" and "channel \<noteq> 0"
    and "take_method ids (inbox s fs channel) = Some (f, rest)"
  shows "\<exists>s' fs'. GetMethodOnChannel n R channel ids None s = (Ok (Inr (Some f)), s') \<and> client coming n s' fs' \<and>
    inbox s' fs' = (inbox s fs)(channel := rest) \<and> receives outgoing s s'"
proof -
  obtain q where q: "map_of (m_open_channels s) channel = Some q" using assms(2) by (auto simp: open_queue)
  then have ib: "take_method ids (q @ on_channel channel (mailbox (m_connection s) fs)) = Some (f, rest)"
    using assms(3,4) by (simp add: inbox_def)
  show ?thesis
  proof (cases "take_method ids q")
    case (Some fq)
    then obtain q' where s: "take_method ids q = Some (f, q')" "rest = q' @ on_channel channel (mailbox (m_connection s) fs)"
      using ib by (cases fq) (simp add: take_method_append)
    let ?s = "with_queue channel q' s"
    have "GetMethodOnChannel n R channel ids None s = (Ok (Inr (Some f)), ?s)"
      using q s(1) by (simp add: GetMethodOnChannel_def cxx_then_Ok run_queue and_then_Ok run_set_queue run_value_of with_queue_def)
    moreover have "inbox ?s fs = (inbox s fs)(channel := rest)"
      using s(2) assms(3) by (auto simp: inbox_def fun_eq_iff cong: option.case_cong)
    ultimately show ?thesis using assms(1) with_queue_client [OF assms(2)] with_queue_receives [OF assms(2)]
      by (intro exI [of _ ?s] exI [of _ fs]) simp
  next
    case None
    then obtain m where m: "take_method ids (on_channel channel (mailbox (m_connection s) fs)) = Some (f, m)" "rest = q @ m"
      using ib by (auto simp: take_method_append)
    have "length (mailbox (m_connection s) fs) < n" using assms(1) by (simp add: client_def)
    from method_rounds_run [OF assms(1,3) q m(1) this] None q m(2) show ?thesis
      by (auto simp: GetMethodOnChannel_def cxx_then_Ok run_queue deadline_def)
  qed
qed

end

section \<open>Memory of the connection\<close>

lemma client_memory:
  assumes "client coming n s fs" and "only_memory (m_connection s) c" and "conn_inv c"
  shows "client coming n (s\<lparr>m_connection := c\<rparr>) fs" "inbox (s\<lparr>m_connection := c\<rparr>) fs = inbox s fs"
    "receives outgoing s (s\<lparr>m_connection := c\<rparr>)"
proof -
  note om = only_memoryD [OF assms(2)] only_memory_more [OF assms(2)]
  have mb: "mailbox c fs = mailbox (m_connection s) fs" by (simp add: mailbox_def om)
  have "enough c bs = enough (m_connection s) bs" for bs by (simp add: enough_def unread_def om)
  then show "client coming n (s\<lparr>m_connection := c\<rparr>) fs"
    using assms(1) awaiting_only_memory [OF _ assms(2,3)] ordinary_keys [of "s\<lparr>m_connection := c\<rparr>" s]
    by (simp add: client_def mb om amqp_heartbeat_enabled_def)
  show "inbox (s\<lparr>m_connection := c\<rparr>) fs = inbox s fs" by (simp add: inbox_def fun_eq_iff mb cong: option.case_cong)
  show "receives outgoing s (s\<lparr>m_connection := c\<rparr>)" using only_memory_waits [OF assms(2)] by (simp add: receives_def om)
qed

lemma clientD:
  assumes "client coming n s fs"
  shows "conn_inv (m_connection s)" "granting (m_connection s)"
  using assms by (simp_all add: client_def awaiting_def)

lemma release_run:
  assumes "client coming n s fs"
  shows "\<exists>s'. MaybeReleaseBuffers s = (Ok (), s') \<and> client coming n s' fs \<and> inbox s' fs = inbox s fs \<and> receives outgoing s s' \<and>
    m_open_channels s' = m_open_channels s"
proof (cases "list_all (\<lambda>(_, queue). queue = []) (m_open_channels s)")
  case True
  from maybe_release_buffers_run [OF clientD(1) [OF assms]] obtain c where
    "amqp_maybe_release_buffers (m_connection s) = (Ok (), c)" "conn_inv c" "only_memory (m_connection s) c" by blast
  with client_memory [OF assms] True show ?thesis
    by (intro exI [of _ "s\<lparr>m_connection := c\<rparr>"]) (simp add: MaybeReleaseBuffers_def run_on_connection)
next
  case False
  then have "MaybeReleaseBuffers s = (Ok (), s)" by (simp add: MaybeReleaseBuffers_def)
  with assms show ?thesis by (intro exI [of _ s]) simp
qed

section \<open>The message of a content\<close>

lemma malloc_in_heap:
  assumes "c_malloc k c = (r, c')"
  shows "c_malloc k (in_heap c m) = (r, in_heap c' m)" "c' = c\<lparr>next_id := next_id c', live := live c'\<rparr>"
  using assms by (auto simp: c_malloc_def in_heap_def Let_def split: if_splits)

lemma dup_in_heap:
  assumes "conn_inv c" and "granting c"
  shows "\<exists>c' x. amqp_bytes_malloc_dup bs (in_heap c m) = (Ok x, in_heap c' m) \<and> mb_bytes x = bs \<and> conn_inv c' \<and>
    only_memory c c' \<and> c' = c\<lparr>next_id := next_id c', live := live c'\<rparr>"
proof -
  obtain r c' where r: "c_malloc (length bs) c = (r, c')" by fastforce
  note i = conn_inv_malloc [OF assms(1) r] and h = malloc_in_heap [OF r]
  have "r = Ok (Some (next_id c))" using i(4) assms(2) by (simp add: granting_def)
  with i h show ?thesis by (intro exI [of _ c']) (simp add: amqp_bytes_malloc_dup_def and_then_Ok)
qed

definition same_content :: "message \<Rightarrow> message \<Rightarrow> bool" where
  "same_content m m' \<longleftrightarrow> m_flags m' = m_flags m \<and> (\<forall>q. mb_bytes (m_strings m' q) = mb_bytes (m_strings m q)) \<and>
     m_delivery_mode m' = m_delivery_mode m \<and> m_priority m' = m_priority m \<and> m_timestamp m' = m_timestamp m \<and>
     m_headers m' = m_headers m \<and> m_table_pool m' = m_table_pool m \<and> m_body m' = m_body m"

lemma in_heap_simps [simp]:
  "m_flags (in_heap c m) = m_flags m" "m_strings (in_heap c m) = m_strings m" "m_headers (in_heap c m) = m_headers m"
  "next_id (in_heap c m) = next_id c" "grants (in_heap c m) = grants c" "live (in_heap c m) = live c"
  by (simp_all add: in_heap_def)

lemma in_heap_strings [simp]: "(in_heap c m)\<lparr>m_strings := f\<rparr> = in_heap c (m\<lparr>m_strings := f\<rparr>)"
  by (cases m) (simp add: in_heap_def)

lemma only_heap_trans:
  "d = c\<lparr>next_id := next_id d, live := live d\<rparr> \<Longrightarrow> e = d\<lparr>next_id := next_id e, live := live e\<rparr> \<Longrightarrow>
   e = (c :: 'a conn_scheme)\<lparr>next_id := next_id e, live := live e\<rparr>"
  by (cases c; cases d; cases e) simp

lemma duplicate_run:
  assumes "conn_inv c" and "granting c"
  shows "\<exists>c' m'. duplicate ps (in_heap c m) = (Ok (), in_heap c' m') \<and> same_content m m' \<and> conn_inv c' \<and>
    only_memory c c' \<and> c' = c\<lparr>next_id := next_id c', live := live c'\<rparr>"
  using assms
proof (induction ps arbitrary: c m)
  case Nil
  then show ?case by (intro exI [of _ c] exI [of _ m]) (simp add: same_content_def)
next
  case (Cons p ps)
  show ?case
  proof (cases "is_set (flag_of p) m")
    case True
    from dup_in_heap [OF Cons.prems, of "mb_bytes (m_strings m p)" m] obtain c1 x where
      1: "amqp_bytes_malloc_dup (mb_bytes (m_strings m p)) (in_heap c m) = (Ok x, in_heap c1 m)"
      "mb_bytes x = mb_bytes (m_strings m p)" "conn_inv c1" "only_memory c c1" "c1 = c\<lparr>next_id := next_id c1, live := live c1\<rparr>" by blast
    let ?m = "m\<lparr>m_strings := (m_strings m)(p := x)\<rparr>"
    have "granting c1" using Cons.prems(2) only_memoryD(1) [OF 1(4)] by (simp add: granting_def)
    from Cons.IH [OF 1(3) this, of ?m] obtain c' m' where
      2: "duplicate ps (in_heap c1 ?m) = (Ok (), in_heap c' m')" "same_content ?m m'" "conn_inv c'" "only_memory c1 c'"
      "c' = c1\<lparr>next_id := next_id c', live := live c'\<rparr>" by blast
    have "duplicate (p # ps) (in_heap c m) = duplicate ps (in_heap c1 ?m)"
      using True 1(1) by (simp add: and_then_Ok is_set_def)
    moreover have "same_content m m'" using 2(2) 1(2) by (auto simp: same_content_def)
    ultimately show ?thesis using 1 2 only_heap_trans [OF 1(5) 2(5)]
      by (intro exI [of _ c'] exI [of _ m']) (auto intro: only_memory_trans)
  next
    case False
    then have "duplicate (p # ps) (in_heap c m) = duplicate ps (in_heap c m)" by (simp add: and_then_Ok is_set_def)
    with Cons.IH [OF Cons.prems, of m] show ?thesis by simp
  qed
qed

lemma create_run:
  assumes "conn_inv c" and "granting c" and "p_flags p AND AMQP_BASIC_HEADERS_FLAG \<noteq> AMQP_BASIC_HEADERS_FLAG"
  shows "\<exists>c' m. BasicMessage_Create body p c = (Ok (Inr m), c') \<and> properties_of m = p \<and> m_body m = body \<and>
    conn_inv c' \<and> only_memory c c'"
proof -
  let ?m = "copied_message body p"
  from duplicate_run [OF assms(1,2), of string_properties ?m] obtain c' m' where
    1: "duplicate string_properties (in_heap c ?m) = (Ok (), in_heap c' m')" "same_content ?m m'" "conn_inv c'"
    "only_memory c c'" "c' = c\<lparr>next_id := next_id c', live := live c'\<rparr>" by blast
  have "\<not> is_set AMQP_BASIC_HEADERS_FLAG (in_heap c' m')"
    using assms(3) 1(2) by (auto simp: is_set_def same_content_def copied_message_def)
  then have "BasicMessage_copy (in_heap c ?m) = (Ok (Inr ()), in_heap c' m')"
    using 1(1) by (simp add: BasicMessage_copy_def and_then_Ok run_value_of)
  moreover have "c\<lparr>next_id := next_id c', grants := grants c', live := live c'\<rparr> = c'"
    using 1(5) only_memoryD(1) [OF 1(4)] by (cases c; cases c') simp
  ultimately have "BasicMessage_Create body p c = (Ok (Inr (in_heap c' m')), c')"
    by (simp add: BasicMessage_Create_def on_message_def run_and_then run_value_of)
  moreover have "properties_of (in_heap c' m') = p" "m_body (in_heap c' m') = body"
    using 1(2) by (simp_all add: properties_of_def in_heap_def same_content_def copied_message_def)
  ultimately show ?thesis using 1 by blast
qed

context client_stream
begin

lemma fragments_run:
  assumes "client coming n s fs" and "IsChannelOpen channel s" and "channel \<noteq> 0"
    and "inbox s fs channel = map (body_frame channel) frags @ rest" and "frags = [] \<or> last frags \<noteq> []" and "length frags < k"
  shows "\<exists>s' fs'. read_fragments k n R channel (length (body @ concat frags)) (Some b) body s = (Ok (Inr (body @ concat frags)), s') \<and>
    client coming n s' fs' \<and> inbox s' fs' = (inbox s fs)(channel := rest) \<and> receives outgoing s s'"
  using assms
proof (induction frags arbitrary: s fs k body)
  case Nil
  then obtain j where "k = Suc j" by (cases k) auto
  then show ?case using Nil.prems by (intro exI [of _ s] exI [of _ fs]) (auto simp: run_value_of fun_eq_iff)
next
  case (Cons frag frags)
  obtain j where k: "k = Suc j" "length frags < j" using Cons.prems(6) by (cases k) auto
  have ne: "length body < length (body @ concat (frag # frags))"
    using Cons.prems(5) by (induction frags) (auto split: if_splits)
  let ?f = "body_frame channel frag"
  have ib: "inbox s fs channel = ?f # (map (body_frame channel) frags @ rest)" using Cons.prems(4) by simp
  have "\<not> is_expected_method [AMQP_CHANNEL_CLOSE_METHOD] ?f" by (simp add: is_expected_method_def body_frame_def)
  from next_frame_run [OF Cons.prems(1-3) ib this] obtain s1 fs1 where
    1: "GetNextFrameOnChannel n R channel None s = (Ok (Inr (Some ?f)), s1)" "client coming n s1 fs1"
    "inbox s1 fs1 = (inbox s fs)(channel := map (body_frame channel) frags @ rest)" "receives outgoing s s1" by blast
  have "map fst (m_open_channels s1) = map fst (m_open_channels s)" using 1(4) by (simp add: receives_def)
  then have op: "IsChannelOpen channel s1" using Cons.prems(2) by (simp add: open_keys)
  have "inbox s1 fs1 channel = map (body_frame channel) frags @ rest" using 1(3) by simp
  moreover have "frags = [] \<or> last frags \<noteq> []" using Cons.prems(5) by (auto split: if_splits)
  ultimately obtain s' fs' where
    2: "read_fragments j n R channel (length ((body @ frag) @ concat frags)) (Some b) (body @ frag) s1 =
        (Ok (Inr ((body @ frag) @ concat frags)), s')"
    "client coming n s' fs'" "inbox s' fs' = (inbox s1 fs1)(channel := rest)" "receives outgoing s1 s'"
    using Cons.IH [OF 1(2) op Cons.prems(3) _ _ k(2)] by blast
  have "read_fragments k n R channel (length (body @ concat (frag # frags))) (Some b) body s =
      read_fragments j n R channel (length ((body @ frag) @ concat frags)) (Some b) (body @ frag) s1"
    using ne 1(1) unfolding k(1) by (simp add: cxx_then_Ok body_frame_def AMQP_FRAME_BODY8_def)
  with 2 1(3,4) show ?case by (intro exI [of _ s'] exI [of _ fs']) (auto intro: receives_trans)
qed

lemma content_run:
  assumes "client coming n s fs" and "IsChannelOpen channel s" and "channel \<noteq> 0"
    and "inbox s fs channel = header # map (body_frame channel) frags @ rest" and "frame_type header = 2"
    and "frame_payload header = Properties_payload cls (of_nat (length (concat frags))) (Basic_properties p)"
    and "p_flags p AND AMQP_BASIC_HEADERS_FLAG \<noteq> AMQP_BASIC_HEADERS_FLAG" and "length (concat frags) < 2 ^ 64 - 1"
    and "frags = [] \<or> last frags \<noteq> []" and "length frags < n"
  shows "\<exists>s' fs' m. ReadContent n R channel s = (Ok (Inr m), s') \<and> client coming n s' fs' \<and>
    inbox s' fs' = (inbox s fs)(channel := rest) \<and> receives outgoing s s' \<and> properties_of m = p \<and> mb_bytes (m_body m) = concat frags"
proof -
  have "\<not> is_expected_method [AMQP_CHANNEL_CLOSE_METHOD] header" using assms(5) by (simp add: is_expected_method_def AMQP_FRAME_METHOD8_def constant_defs)
  from next_frame_run [OF assms(1-4) this] obtain s1 fs1 where
    1: "GetNextFrameOnChannel n R channel None s = (Ok (Inr (Some header)), s1)" "client coming n s1 fs1"
    "inbox s1 fs1 = (inbox s fs)(channel := map (body_frame channel) frags @ rest)" "receives outgoing s s1" by blast
  let ?len = "length (concat frags)"
  have size: "unat (of_nat ?len :: u64) = ?len" using assms(8) by (simp add: unat_of_nat take_bit_nat_eq_self)
  obtain r c2 where m: "c_malloc ?len (m_connection s1) = (r, c2)" by fastforce
  note i = conn_inv_malloc [OF clientD(1) [OF 1(2)] m]
  obtain b where b: "r = Ok (Some b)" using i(4) clientD(2) [OF 1(2)] by (simp add: granting_def)
  let ?s2 = "s1\<lparr>m_connection := c2\<rparr>"
  note 2 = client_memory [OF 1(2) i(2,1)]
  have "map fst (m_open_channels ?s2) = map fst (m_open_channels s)" using 1(4) by (simp add: receives_def)
  then have op: "IsChannelOpen channel ?s2" using assms(2) by (simp add: open_keys)
  have "inbox ?s2 fs1 channel = map (body_frame channel) frags @ rest" using 2(2) 1(3) by simp
  from fragments_run [OF 2(1) op assms(3) this assms(9,10), of "[]" b] obtain s3 fs3 where
    3: "read_fragments n n R channel ?len (Some b) [] ?s2 = (Ok (Inr (concat frags)), s3)" "client coming n s3 fs3"
    "inbox s3 fs3 = (inbox ?s2 fs1)(channel := rest)" "receives outgoing ?s2 s3" by auto
  let ?body = "\<lparr>mb_len = ?len, mb_block = Some b, mb_bytes = concat frags\<rparr>"
  from create_run [OF clientD [OF 3(2)] assms(7), of ?body] obtain c4 msg where
    4: "BasicMessage_Create ?body p (m_connection s3) = (Ok (Inr msg), c4)" "properties_of msg = p" "m_body msg = ?body"
    "conn_inv c4" "only_memory (m_connection s3) c4" by blast
  let ?s4 = "s3\<lparr>m_connection := c4\<rparr>"
  have "amqp_bytes_malloc ?len (m_connection s1) = (Ok (?len, Some b), c2)"
    using m b by (simp add: amqp_bytes_malloc_def and_then_Ok)
  then have "ReadContent n R channel s = (Ok (Inr msg), ?s4)"
    using assms(5,6,8) 1(1) size 3(1) 4(1)
    by (simp add: ReadContent_def cxx_then_Ok and_then_Ok run_on_connection AMQP_FRAME_HEADER8_def constant_defs)
  moreover note client_memory [OF 3(2) 4(5,4)]
  moreover have "inbox s3 fs3 = (inbox s fs)(channel := rest)" using 3(3) 2(2) 1(3) by simp
  moreover have "receives outgoing s s3" using 1(4) 2(3) 3(4) by (blast intro: receives_trans)
  ultimately show ?thesis using 4(2,3)
    by (intro exI [of _ ?s4] exI [of _ fs3] exI [of _ msg]) (auto intro: receives_trans)
qed

text \<open>A request is sent as one frame, and its answer taken out of the inbox.\<close>

lemma send_run:
  assumes "client coming n s fs" and "outbound_ok (m_connection s)" and "request = \<lparr>frame_type = 1, frame_channel = channel, frame_payload = Method_payload k d\<rparr>"
    and "wf_frame request" and "length (frame_bytes request) \<le> outbound_len (m_connection s)"
  shows "\<exists>s'. CheckForError (amqp_send_method (lib R) channel k d) s = (Ok (Inr ()), s') \<and> client coming n s' fs \<and>
    inbox s' fs = inbox s fs \<and> receives (\<lambda>_. []) s s' \<and>
    outgoing (conn.more (m_connection s')) = outgoing (conn.more (m_connection s)) @ frame_bytes request"
proof -
  note c = assms(1) [unfolded client_def]
  from send_frame_sent [of "m_connection s" request] c assms(2-5) obtain b m where
    1: "amqp_send_method (lib R) channel k d (m_connection s) = (Ok (), (m_connection s)\<lparr>outbound_buffer := b, conn.more := m\<rparr>)"
    "length b = length (outbound_buffer (m_connection s))" "coming m = coming (conn.more (m_connection s))"
    "outgoing m = outgoing (conn.more (m_connection s)) @ frame_bytes request"
    by (auto simp: amqp_send_method_def AMQP_FRAME_METHOD8_def constant_defs)
  let ?c = "(m_connection s)\<lparr>outbound_buffer := b, conn.more := m\<rparr>"
  let ?s = "s\<lparr>m_connection := ?c\<rparr>"
  have mb: "mailbox ?c fs = mailbox (m_connection s) fs" by (simp add: mailbox_def)
  have "unread ?c = unread (m_connection s)" by (simp add: unread_def)
  then have "client coming n ?s fs"
    using c 1(3) awaiting_sent [where c = "m_connection s" and b = b and m = m] ordinary_keys [of ?s s]
    by (simp add: client_def mb amqp_heartbeat_enabled_def enough_def)
  moreover have "inbox ?s fs = inbox s fs" by (simp add: inbox_def fun_eq_iff mb cong: option.case_cong)
  moreover have "receives (\<lambda>_. []) s ?s" using 1(2) by (simp add: receives_def waits_def conn_blocks_def)
  ultimately show ?thesis using 1(1,4) by (intro exI [of _ ?s]) (simp add: CheckForError_Ok)
qed

lemma rpc_run:
  assumes "client coming n s fs" and "outbound_ok (m_connection s)" and "request = \<lparr>frame_type = 1, frame_channel = channel, frame_payload = Method_payload k d\<rparr>"
    and "wf_frame request" and "length (frame_bytes request) \<le> outbound_len (m_connection s)"
    and "IsChannelOpen channel s" and "channel \<noteq> 0" and "take_method ids (inbox s fs channel) = Some (f, rest)"
  shows "\<exists>s' fs'. DoRpcOnChannel n R channel k d ids s = (Ok (Inr f), s') \<and> client coming n s' fs' \<and>
    inbox s' fs' = (inbox s fs)(channel := rest) \<and> receives (\<lambda>_. []) s s' \<and>
    outgoing (conn.more (m_connection s')) = outgoing (conn.more (m_connection s)) @ frame_bytes request"
proof -
  from send_run [OF assms(1-5)] obtain s1 where
    1: "CheckForError (amqp_send_method (lib R) channel k d) s = (Ok (Inr ()), s1)" "client coming n s1 fs"
    "inbox s1 fs = inbox s fs" "receives (\<lambda>_. []) s s1"
    "outgoing (conn.more (m_connection s1)) = outgoing (conn.more (m_connection s)) @ frame_bytes request" by blast
  have "IsChannelOpen channel s1" using 1(4) assms(6) by (simp add: receives_def open_keys)
  from method_run [OF 1(2) this assms(7), of ids f rest] 1(3) assms(8) obtain s' fs' where
    2: "GetMethodOnChannel n R channel ids None s1 = (Ok (Inr (Some f)), s')" "client coming n s' fs'"
    "inbox s' fs' = (inbox s1 fs)(channel := rest)" "receives outgoing s1 s'" by auto
  have "receives (\<lambda>_. []) s1 s'" "outgoing (conn.more (m_connection s')) = outgoing (conn.more (m_connection s1))"
    using 2(4) by (simp_all add: receives_def)
  with 1 2 show ?thesis
    by (intro exI [of _ s'] exI [of _ fs']) (auto simp: DoRpcOnChannel_def cxx_then_Ok run_value_of intro: receives_trans)
qed

end

section \<open>On the model's streams\<close>

text \<open>
  The contract on the scripted stream and on the TCP socket of this library, whatever the clock and \<^verbatim>\<open>select\<close> do.
\<close>

definition script_client :: "stream client_platform" where
  "script_client = \<lparr>lib = scripted, steady_clock = ret 0, errno_text = ret [], asserting = False\<rparr>"

interpretation script_client: client_stream script_client script_coming script_written
proof (rule client_stream.intro)
  show "duplex_stream (lib script_client) script_coming script_written"
    using script.duplex_stream_axioms by (simp add: script_client_def)
  show "client_stream_axioms script_client"
    by (simp add: client_stream_axioms_def script_client_def scripted_def amqp_get_sockfd_def amqp_socket_get_sockfd_def)
qed

end
