(* ===== verification/SimpleClient.thy ===== *)
theory SimpleClient
  imports SimpleInbox Tcp Url
begin

text \<open>
  The methods of the C++ client (\<^verbatim>\<open>Channel.cpp\<close>, \<^verbatim>\<open>Envelope.cpp\<close>): opening and closing a connection, declaring and
  binding, publishing, fetching and consuming.

  A \<^verbatim>\<open>const std::string&\<close> that is passed on with \<^verbatim>\<open>c_str()\<close> ends at its first zero byte.  The overloads without a
  table call the others with an empty one.
\<close>

unbundle bit_operations_syntax

section \<open>Connections\<close>

text \<open>The struct of a new connection, without a socket, and the system it runs on.\<close>

definition with_tcp :: "conn \<Rightarrow> 'o \<Rightarrow> 'o tcp_conn_scheme" where
  "with_tcp c u = conn.extend c \<lparr>tcp_block = None, sockfd = - 1, send_block = None, send_buffer = [], buffer_length = 0,
     internal_error = 0, \<dots> = u\<rparr>"

definition on_socket :: "'s client_platform \<Rightarrow> 's amqp_socket_class option \<Rightarrow> 's client_platform" where
  "on_socket R k = R\<lparr>lib := (lib R)\<lparr>socket := k\<rparr>\<rparr>"

text \<open>The body of the constructor; the result is the platform with the socket in place.\<close>

definition Channel_connect ::
    "nat \<Rightarrow> 'o os \<Rightarrow> 'o tcp_conn_scheme client_platform \<Rightarrow> bytes \<Rightarrow> int \<Rightarrow> bytes \<Rightarrow> bytes \<Rightarrow> bytes \<Rightarrow> int \<Rightarrow>
     ('o tcp_conn_scheme channel_impl, 'o tcp_conn_scheme client_platform) cxx" where
  "Channel_connect n S R hostname port username password vhost frame_max0 =
     cxx_then (on_exception
       (cxx_then (calling (on_connection (on_os (amqp_open_socket S (amqp_cstring_bytes hostname) port)))) (\<lambda>sock.
        cxx_then (CheckForCode sock) (\<lambda>_. value_of sock)))
       (on_connection (amqp_destroy_connection (lib (on_socket R None))))) (\<lambda>sock.
     and_then (on_connection (amqp_set_sockfd n S None sock)) (\<lambda>k. let R = on_socket R k in
     cxx_then (on_exception
       (and_then (on_connection (amqp_login n (lib R) (amqp_cstring_bytes vhost) 0 frame_max0 0 AMQP_SASL_METHOD_PLAIN
          [amqp_cstring_bytes username, amqp_cstring_bytes password])) (CheckRpcReply R 0))
       (on_connection (amqp_destroy_connection (lib R)))) (\<lambda>_.
     and_then (SetIsConnected True) (\<lambda>_. value_of R))))"

text \<open>Heap and system outside; a connected object has both inside.\<close>

definition Channel_new ::
    "nat \<Rightarrow> 'o os \<Rightarrow> 'o tcp_conn_scheme client_platform \<Rightarrow> (nat \<Rightarrow> u8) \<Rightarrow> amqp_basic_properties \<Rightarrow>
     bytes \<Rightarrow> int \<Rightarrow> bytes \<Rightarrow> bytes \<Rightarrow> bytes \<Rightarrow> int \<Rightarrow>
     (heap \<times> 'o, 'o tcp_conn_scheme channel_impl \<times> 'o tcp_conn_scheme client_platform) cxx" where
  "Channel_new n S R st sp hostname port username password vhost frame_max0 = (\<lambda>(h, u).
     case amqp_new_connection st sp h of
       (Ok (Some c), h1) \<Rightarrow>
         (case Channel_connect n S R hostname port username password vhost frame_max0 (new_impl (with_tcp c u)) of
            (r, s) \<Rightarrow> (map_outcome (map_sum id (\<lambda>R. (s, R))) r,
              (heap.truncate (m_connection s), tcp_conn.more (m_connection s))))
     | (Ok None, h1) \<Rightarrow> (Ok (Inl bad_alloc), (h1, u))
     | (r, h1) \<Rightarrow> (pass_error r, (h1, u)))"

definition Channel_destroy :: "nat \<Rightarrow> 'a conn_scheme client_platform \<Rightarrow> ('a conn_scheme channel_impl, unit) cm" where
  "Channel_destroy n R =
     and_then (on_connection (amqp_connection_close n (lib R) AMQP_REPLY_SUCCESS)) (\<lambda>_.
     on_connection (amqp_destroy_connection (lib R)))"

text \<open>
  A URI is copied and parsed; \<open>create\<close> is the constructor.  Whether it asked for TLS is not looked at.
\<close>

definition CreateFromUri ::
    "(bytes \<Rightarrow> int \<Rightarrow> bytes \<Rightarrow> bytes \<Rightarrow> bytes \<Rightarrow> int \<Rightarrow> ('s, 'c) cxx) \<Rightarrow> bytes \<Rightarrow> int \<Rightarrow> ('s, 'c) cxx" where
  "CreateFromUri create uri frame_max0 =
     (case amqp_parse_url \<lparr>url_text = amqp_cstring_bytes uri @ [0], parsed = amqp_default_connection_info\<rparr> of
        (Ok _, s) \<Rightarrow>
          (case info_strings (url_text s) (parsed s) of
             (Some user, Some password, Some hostname, Some vhost, port, ssl) \<Rightarrow>
               create hostname port user password vhost frame_max0
           | _ \<Rightarrow> undef)
      | (Err _, _) \<Rightarrow> throw BadUriException
      | (r, _) \<Rightarrow> (\<lambda>t. (pass_error r, t)))"

section \<open>Exchanges and queues\<close>

text \<open>\<^verbatim>\<open>CreateAmqpTable\<close> on the heap of the connection; its pool lives until the method is left.\<close>

definition with_table ::
    "table \<Rightarrow> (amqp_table \<Rightarrow> ('a conn_scheme channel_impl, 'b) cxx) \<Rightarrow> ('a conn_scheme channel_impl, 'b) cxx" where
  "with_table arguments body = and_then (on_connection (CreateAmqpTable arguments)) (\<lambda>(r, table_pool).
     at_exit (case r of Inl e \<Rightarrow> throw e | Inr es \<Rightarrow> body es) (on_connection (drop_pool table_pool)))"

definition DeclareExchange ::
    "nat \<Rightarrow> 'a conn_scheme client_platform \<Rightarrow> bytes \<Rightarrow> bytes \<Rightarrow> bool \<Rightarrow> bool \<Rightarrow> bool \<Rightarrow> table \<Rightarrow> ('a conn_scheme channel_impl, unit) cxx" where
  "DeclareExchange n R exchange_name exchange_type passive durable auto_delete arguments = cxx_then CheckIsConnected (\<lambda>_.
     with_table arguments (\<lambda>es.
     cxx_then (DoRpc n R AMQP_EXCHANGE_DECLARE_METHOD (Some (amqp_exchange_declare_t 0 (amqp_cstring_bytes exchange_name)
       (amqp_cstring_bytes exchange_type) passive durable auto_delete False False es)) [AMQP_EXCHANGE_DECLARE_OK_METHOD]) (\<lambda>_.
     calling MaybeReleaseBuffers)))"

definition DeleteExchange :: "nat \<Rightarrow> 'a conn_scheme client_platform \<Rightarrow> bytes \<Rightarrow> bool \<Rightarrow> ('a conn_scheme channel_impl, unit) cxx" where
  "DeleteExchange n R exchange_name if_unused = cxx_then CheckIsConnected (\<lambda>_.
     cxx_then (DoRpc n R AMQP_EXCHANGE_DELETE_METHOD (Some (amqp_exchange_delete_t 0 (amqp_cstring_bytes exchange_name) if_unused False))
       [AMQP_EXCHANGE_DELETE_OK_METHOD]) (\<lambda>_.
     calling MaybeReleaseBuffers))"

definition BindExchange ::
    "nat \<Rightarrow> 'a conn_scheme client_platform \<Rightarrow> bytes \<Rightarrow> bytes \<Rightarrow> bytes \<Rightarrow> table \<Rightarrow> ('a conn_scheme channel_impl, unit) cxx" where
  "BindExchange n R destination source routing_key arguments = cxx_then CheckIsConnected (\<lambda>_.
     with_table arguments (\<lambda>es.
     cxx_then (DoRpc n R AMQP_EXCHANGE_BIND_METHOD (Some (amqp_exchange_bind_t 0 (amqp_cstring_bytes destination)
       (amqp_cstring_bytes source) (amqp_cstring_bytes routing_key) False es)) [AMQP_EXCHANGE_BIND_OK_METHOD]) (\<lambda>_.
     calling MaybeReleaseBuffers)))"

definition UnbindExchange ::
    "nat \<Rightarrow> 'a conn_scheme client_platform \<Rightarrow> bytes \<Rightarrow> bytes \<Rightarrow> bytes \<Rightarrow> table \<Rightarrow> ('a conn_scheme channel_impl, unit) cxx" where
  "UnbindExchange n R destination source routing_key arguments = cxx_then CheckIsConnected (\<lambda>_.
     with_table arguments (\<lambda>es.
     cxx_then (DoRpc n R AMQP_EXCHANGE_UNBIND_METHOD (Some (amqp_exchange_unbind_t 0 (amqp_cstring_bytes destination)
       (amqp_cstring_bytes source) (amqp_cstring_bytes routing_key) False es)) [AMQP_EXCHANGE_UNBIND_OK_METHOD]) (\<lambda>_.
     calling MaybeReleaseBuffers)))"

definition DeclareQueue ::
    "nat \<Rightarrow> 'a conn_scheme client_platform \<Rightarrow> bytes \<Rightarrow> bool \<Rightarrow> bool \<Rightarrow> bool \<Rightarrow> bool \<Rightarrow> table \<Rightarrow> ('a conn_scheme channel_impl, bytes) cxx" where
  "DeclareQueue n R queue_name passive durable exclusive auto_delete arguments = cxx_then CheckIsConnected (\<lambda>_.
     with_table arguments (\<lambda>es.
     cxx_then (DoRpc n R AMQP_QUEUE_DECLARE_METHOD (Some (amqp_queue_declare_t 0 (amqp_cstring_bytes queue_name)
       passive durable exclusive auto_delete False es)) [AMQP_QUEUE_DECLARE_OK_METHOD]) (\<lambda>response.
     case decoded_of (frame_payload response) of
       Some (amqp_queue_declare_ok_t queue _ _) \<Rightarrow> and_then MaybeReleaseBuffers (\<lambda>_. value_of queue)
     | _ \<Rightarrow> undef)))"

definition DeleteQueue :: "nat \<Rightarrow> 'a conn_scheme client_platform \<Rightarrow> bytes \<Rightarrow> bool \<Rightarrow> bool \<Rightarrow> ('a conn_scheme channel_impl, unit) cxx" where
  "DeleteQueue n R queue_name if_unused if_empty = cxx_then CheckIsConnected (\<lambda>_.
     cxx_then (DoRpc n R AMQP_QUEUE_DELETE_METHOD (Some (amqp_queue_delete_t 0 (amqp_cstring_bytes queue_name) if_unused if_empty False))
       [AMQP_QUEUE_DELETE_OK_METHOD]) (\<lambda>_.
     calling MaybeReleaseBuffers))"

definition BindQueue ::
    "nat \<Rightarrow> 'a conn_scheme client_platform \<Rightarrow> bytes \<Rightarrow> bytes \<Rightarrow> bytes \<Rightarrow> table \<Rightarrow> ('a conn_scheme channel_impl, unit) cxx" where
  "BindQueue n R queue_name exchange_name routing_key arguments = cxx_then CheckIsConnected (\<lambda>_.
     with_table arguments (\<lambda>es.
     cxx_then (DoRpc n R AMQP_QUEUE_BIND_METHOD (Some (amqp_queue_bind_t 0 (amqp_cstring_bytes queue_name)
       (amqp_cstring_bytes exchange_name) (amqp_cstring_bytes routing_key) False es)) [AMQP_QUEUE_BIND_OK_METHOD]) (\<lambda>_.
     calling MaybeReleaseBuffers)))"

definition UnbindQueue ::
    "nat \<Rightarrow> 'a conn_scheme client_platform \<Rightarrow> bytes \<Rightarrow> bytes \<Rightarrow> bytes \<Rightarrow> table \<Rightarrow> ('a conn_scheme channel_impl, unit) cxx" where
  "UnbindQueue n R queue_name exchange_name routing_key arguments = cxx_then CheckIsConnected (\<lambda>_.
     with_table arguments (\<lambda>es.
     cxx_then (DoRpc n R AMQP_QUEUE_UNBIND_METHOD (Some (amqp_queue_unbind_t 0 (amqp_cstring_bytes queue_name)
       (amqp_cstring_bytes exchange_name) (amqp_cstring_bytes routing_key) es)) [AMQP_QUEUE_UNBIND_OK_METHOD]) (\<lambda>_.
     calling MaybeReleaseBuffers)))"

definition PurgeQueue :: "nat \<Rightarrow> 'a conn_scheme client_platform \<Rightarrow> bytes \<Rightarrow> ('a conn_scheme channel_impl, unit) cxx" where
  "PurgeQueue n R queue_name = cxx_then CheckIsConnected (\<lambda>_.
     cxx_then (DoRpc n R AMQP_QUEUE_PURGE_METHOD (Some (amqp_queue_purge_t 0 (amqp_cstring_bytes queue_name) False))
       [AMQP_QUEUE_PURGE_OK_METHOD]) (\<lambda>_.
     calling MaybeReleaseBuffers))"

section \<open>Messages\<close>

record envelope =
  e_message :: message
  e_consumer_tag :: bytes
  e_delivery_tag :: u64
  e_exchange :: bytes
  e_redelivered :: bool
  e_routing_key :: bytes
  e_delivery_channel :: u16

definition BasicAck :: "'a conn_scheme client_platform \<Rightarrow> u16 \<Rightarrow> u64 \<Rightarrow> ('a conn_scheme channel_impl, unit) cxx" where
  "BasicAck R channel delivery_tag = cxx_then CheckIsConnected (\<lambda>_.
     and_then get (\<lambda>s.
     if \<not> IsChannelOpen channel s
     then throw (runtime_error (ascii ''The channel that the message was delivered on has been closed''))
     else CheckForError (amqp_basic_ack (lib R) channel delivery_tag False)))"

text \<open>
  The properties are used as they are in the message: what is freed must not be read, nor a null pointer with a
  length.
\<close>

definition can_be_read :: "'a heap_scheme \<Rightarrow> malloced_bytes \<Rightarrow> bool" where
  "can_be_read h x = (case mb_block x of None \<Rightarrow> mb_len x = 0 | Some b \<Rightarrow> live h b \<noteq> None)"

definition intact :: "'a heap_scheme \<Rightarrow> message \<Rightarrow> bool" where
  "intact h m \<longleftrightarrow> can_be_read h (m_body m) \<and>
     list_all (\<lambda>p. PropertyIsSet p m \<longrightarrow> can_be_read h (m_strings m p)) string_properties \<and>
     (is_set AMQP_BASIC_HEADERS_FLAG m \<longrightarrow> m_headers m \<noteq> None)"

definition BasicPublish ::
    "nat \<Rightarrow> 'a conn_scheme client_platform \<Rightarrow> bytes \<Rightarrow> bytes \<Rightarrow> message \<Rightarrow> bool \<Rightarrow> bool \<Rightarrow> ('a conn_scheme channel_impl, unit) cxx" where
  "BasicPublish n R exchange_name routing_key message mandatory immediate = cxx_then CheckIsConnected (\<lambda>_.
     cxx_then (GetChannel n R) (\<lambda>channel.
     cxx_then (and_then get (\<lambda>s. if \<not> intact (m_connection s) message then undef
       else CheckForError (amqp_basic_publish n (lib R) channel (amqp_cstring_bytes exchange_name) (amqp_cstring_bytes routing_key)
         mandatory immediate (Some (properties_of message)) (mb_bytes (m_body message))))) (\<lambda>_.
     cxx_then (GetMethodOnChannel n R channel [AMQP_BASIC_ACK_METHOD, AMQP_BASIC_RETURN_METHOD] None) (\<lambda>r. case r of
       None \<Rightarrow> undef
     | Some response \<Rightarrow>
         if method_id_of response = AMQP_BASIC_RETURN_METHOD then
           cxx_then (CreateMessageReturnedException n R (decoded_of (frame_payload response)) channel) (\<lambda>message_returned.
           cxx_then (GetMethodOnChannel n R channel [AMQP_BASIC_ACK_METHOD] None) (\<lambda>_.
           and_then (ReturnChannel channel) (\<lambda>_.
           and_then MaybeReleaseBuffers (\<lambda>_.
           throw message_returned))))
         else
           and_then (ReturnChannel channel) (\<lambda>_.
           calling MaybeReleaseBuffers)))))"

definition BasicGet ::
    "nat \<Rightarrow> 'a conn_scheme client_platform \<Rightarrow> bytes \<Rightarrow> bool \<Rightarrow> ('a conn_scheme channel_impl, envelope option) cxx" where
  "BasicGet n R queue no_ack = cxx_then CheckIsConnected (\<lambda>_.
     cxx_then (GetChannel n R) (\<lambda>channel.
     cxx_then (DoRpcOnChannel n R channel AMQP_BASIC_GET_METHOD (Some (amqp_basic_get_t 0 (amqp_cstring_bytes queue) no_ack))
       [AMQP_BASIC_GET_OK_METHOD, AMQP_BASIC_GET_EMPTY_METHOD]) (\<lambda>response.
     if method_id_of response = AMQP_BASIC_GET_EMPTY_METHOD then
       and_then (ReturnChannel channel) (\<lambda>_.
       and_then MaybeReleaseBuffers (\<lambda>_. value_of None))
     else case decoded_of (frame_payload response) of
       Some (amqp_basic_get_ok_t delivery_tag redelivered exchange routing_key _) \<Rightarrow>
         cxx_then (ReadContent n R channel) (\<lambda>message.
         and_then (ReturnChannel channel) (\<lambda>_.
         and_then MaybeReleaseBuffers (\<lambda>_.
         value_of (Some \<lparr>e_message = message, e_consumer_tag = [], e_delivery_tag = delivery_tag, e_exchange = exchange,
           e_redelivered = redelivered, e_routing_key = routing_key, e_delivery_channel = channel\<rparr>))))
     | _ \<Rightarrow> undef)))"

section \<open>Consumers\<close>

definition BasicRecover :: "nat \<Rightarrow> 'a conn_scheme client_platform \<Rightarrow> bytes \<Rightarrow> ('a conn_scheme channel_impl, unit) cxx" where
  "BasicRecover n R consumer = cxx_then CheckIsConnected (\<lambda>_.
     cxx_then (GetConsumerChannel consumer) (\<lambda>channel.
     cxx_then (DoRpcOnChannel n R channel AMQP_BASIC_RECOVER_METHOD (Some (amqp_basic_recover_t True)) [AMQP_BASIC_RECOVER_OK_METHOD]) (\<lambda>_.
     calling MaybeReleaseBuffers)))"

definition BasicConsume ::
    "nat \<Rightarrow> 'a conn_scheme client_platform \<Rightarrow> bytes \<Rightarrow> bytes \<Rightarrow> bool \<Rightarrow> bool \<Rightarrow> bool \<Rightarrow> u16 \<Rightarrow> table \<Rightarrow>
     ('a conn_scheme channel_impl, bytes) cxx" where
  "BasicConsume n R queue consumer_tag no_local no_ack exclusive message_prefetch_count arguments = cxx_then CheckIsConnected (\<lambda>_.
     cxx_then (GetChannel n R) (\<lambda>channel.
     cxx_then (DoRpcOnChannel n R channel AMQP_BASIC_QOS_METHOD (Some (amqp_basic_qos_t 0 message_prefetch_count False)) [AMQP_BASIC_QOS_OK_METHOD]) (\<lambda>_.
     and_then MaybeReleaseBuffers (\<lambda>_.
     with_table arguments (\<lambda>es.
     cxx_then (DoRpcOnChannel n R channel AMQP_BASIC_CONSUME_METHOD (Some (amqp_basic_consume_t 0 (amqp_cstring_bytes queue)
       (amqp_cstring_bytes consumer_tag) no_local no_ack exclusive False es)) [AMQP_BASIC_CONSUME_OK_METHOD]) (\<lambda>response.
     case decoded_of (frame_payload response) of
       Some (amqp_basic_consume_ok_t tag) \<Rightarrow>
         and_then MaybeReleaseBuffers (\<lambda>_.
         and_then (AddConsumer tag channel) (\<lambda>_. value_of tag))
     | _ \<Rightarrow> undef))))))"

definition BasicQos :: "nat \<Rightarrow> 'a conn_scheme client_platform \<Rightarrow> bytes \<Rightarrow> u16 \<Rightarrow> ('a conn_scheme channel_impl, unit) cxx" where
  "BasicQos n R consumer_tag message_prefetch_count = cxx_then CheckIsConnected (\<lambda>_.
     cxx_then (GetConsumerChannel consumer_tag) (\<lambda>channel.
     cxx_then (DoRpcOnChannel n R channel AMQP_BASIC_QOS_METHOD (Some (amqp_basic_qos_t 0 message_prefetch_count False)) [AMQP_BASIC_QOS_OK_METHOD]) (\<lambda>_.
     calling MaybeReleaseBuffers)))"

definition BasicCancel :: "nat \<Rightarrow> 'a conn_scheme client_platform \<Rightarrow> bytes \<Rightarrow> ('a conn_scheme channel_impl, unit) cxx" where
  "BasicCancel n R consumer_tag = cxx_then CheckIsConnected (\<lambda>_.
     cxx_then (GetConsumerChannel consumer_tag) (\<lambda>channel.
     cxx_then (DoRpcOnChannel n R channel AMQP_BASIC_CANCEL_METHOD (Some (amqp_basic_cancel_t (amqp_cstring_bytes consumer_tag) False))
       [AMQP_BASIC_CANCEL_OK_METHOD]) (\<lambda>_.
     cxx_then (RemoveConsumer consumer_tag) (\<lambda>_.
     and_then (ReturnChannel channel) (\<lambda>_.
     calling MaybeReleaseBuffers)))))"

text \<open>The timeout is in milliseconds, or negative for none.\<close>

definition BasicConsumeMessage ::
    "nat \<Rightarrow> 'a conn_scheme client_platform \<Rightarrow> bytes \<Rightarrow> int \<Rightarrow> ('a conn_scheme channel_impl, envelope option) cxx" where
  "BasicConsumeMessage n R consumer_tag timeout = cxx_then CheckIsConnected (\<lambda>_.
     cxx_then (GetConsumerChannel consumer_tag) (\<lambda>channel.
     cxx_then (GetMethodOnChannel n R channel [AMQP_BASIC_DELIVER_METHOD] (if 0 \<le> timeout then Some (1000 * timeout) else None)) (\<lambda>r. case r of
       None \<Rightarrow> value_of None
     | Some deliver \<Rightarrow>
         (case decoded_of (frame_payload deliver) of
            Some (amqp_basic_deliver_t in_consumer_tag delivery_tag redelivered exchange routing_key) \<Rightarrow>
              and_then MaybeReleaseBuffers (\<lambda>_.
              cxx_then (ReadContent n R channel) (\<lambda>content.
              and_then MaybeReleaseBuffers (\<lambda>_.
              value_of (Some \<lparr>e_message = content, e_consumer_tag = in_consumer_tag, e_delivery_tag = delivery_tag, e_exchange = exchange,
                e_redelivered = redelivered, e_routing_key = routing_key, e_delivery_channel = channel\<rparr>))))
          | _ \<Rightarrow> undef))))"

section \<open>Fetching a message\<close>

lemma run_CheckIsConnected [run]: "m_is_connected s \<Longrightarrow> CheckIsConnected s = (Ok (Inr ()), s)"
  by (simp add: CheckIsConnected_def run_value_of)

lemma run_GetChannel [run]: "m_free_channels s = channel # channels \<Longrightarrow> GetChannel n R s = (Ok (Inr channel), s\<lparr>m_free_channels := channels\<rparr>)"
  by (simp add: GetChannel_def run_value_of)

text \<open>The lists of consumers and of free channels have nothing to do with what is received.\<close>

lemma client_same:
  assumes "m_connection s' = m_connection s" and "m_open_channels s' = m_open_channels s"
  shows "client coming n s' fs = client coming n s fs" "inbox s' fs = inbox s fs" "IsChannelOpen channel s' = IsChannelOpen channel s"
proof -
  have "ordinary s' = ordinary s" by (rule ordinary_keys) (simp add: assms(2))
  then show "client coming n s' fs = client coming n s fs" by (simp add: client_def assms)
qed (simp_all add: inbox_def fun_eq_iff IsChannelOpen_def assms cong: option.case_cong)

lemma free_channels_client [simp]:
  "client coming n (s\<lparr>m_free_channels := channels\<rparr>) fs = client coming n s fs"
  "inbox (s\<lparr>m_free_channels := channels\<rparr>) fs = inbox s fs"
  "IsChannelOpen channel (s\<lparr>m_free_channels := channels\<rparr>) = IsChannelOpen channel s"
  by (rule client_same; simp)+

lemma receives_weaken: "receives outgoing s s' \<Longrightarrow> receives (\<lambda>_. []) s s'"
  by (simp add: receives_def)

definition get_request :: "u16 \<Rightarrow> bytes \<Rightarrow> bool \<Rightarrow> amqp_frame" where
  "get_request channel queue no_ack = method_frame channel (amqp_basic_get_t 0 (amqp_cstring_bytes queue) no_ack)"

definition get_ok_frame :: "u16 \<Rightarrow> u64 \<Rightarrow> bool \<Rightarrow> bytes \<Rightarrow> bytes \<Rightarrow> u32 \<Rightarrow> amqp_frame" where
  "get_ok_frame channel delivery_tag redelivered exchange routing_key message_count =
     method_frame channel (amqp_basic_get_ok_t delivery_tag redelivered exchange routing_key message_count)"

lemma is_expected_frame [simp]: "is_expected_method ids (method_frame channel m) \<longleftrightarrow> struct_number m \<in> set ids"
  by (simp add: is_expected_method_def method_frame_def AMQP_FRAME_METHOD8_def constant_defs)

lemma method_frame_simps [simp]:
  "frame_payload (method_frame channel m) = Method_payload (struct_number m) (Some m)" "frame_channel (method_frame channel m) = channel"
  "frame_type (method_frame channel m) = 1"
  by (simp_all add: method_frame_def)

context client_stream
begin

text \<open>A call on a free channel, up to its answer.\<close>

lemma free_channel_rpc:
  assumes "client coming n s fs" and "m_is_connected s" and "m_free_channels s = channel # channels"
    and "IsChannelOpen channel s" and "channel \<noteq> 0" and "outbound_ok (m_connection s)"
    and "wf_frame (method_frame channel m)" and "length (frame_bytes (method_frame channel m)) \<le> outbound_len (m_connection s)"
    and "take_method ids (inbox s fs channel) = Some (f, rest)"
  shows "\<exists>s' fs'. cxx_then CheckIsConnected (\<lambda>_. cxx_then (GetChannel n R) (\<lambda>channel.
       cxx_then (DoRpcOnChannel n R channel (struct_number m) (Some m) ids) (g channel))) s = g channel f s' \<and>
    client coming n s' fs' \<and> inbox s' fs' = (inbox s fs)(channel := rest) \<and> IsChannelOpen channel s' \<and>
    m_free_channels s' = channels \<and> m_is_connected s' \<and> waits (m_connection s) (m_connection s') \<and>
    outgoing (conn.more (m_connection s')) = outgoing (conn.more (m_connection s)) @ frame_bytes (method_frame channel m)"
proof -
  let ?s = "s\<lparr>m_free_channels := channels\<rparr>"
  from rpc_run [of n ?s fs "method_frame channel m" channel "struct_number m" "Some m" ids f rest] assms
  obtain s' fs' where 1: "DoRpcOnChannel n R channel (struct_number m) (Some m) ids ?s = (Ok (Inr f), s')"
    "client coming n s' fs'" "inbox s' fs' = (inbox ?s fs)(channel := rest)" "receives (\<lambda>_. []) ?s s'"
    "outgoing (conn.more (m_connection s')) = outgoing (conn.more (m_connection ?s)) @ frame_bytes (method_frame channel m)"
    by (auto simp: method_frame_def)
  from 1(4) have 2: "map fst (m_open_channels s') = map fst (m_open_channels s)" "m_free_channels s' = channels"
    "m_is_connected s' = m_is_connected s" "waits (m_connection s) (m_connection s')" by (simp_all add: receives_def)
  then have "IsChannelOpen channel s'" using assms(4) by (simp add: open_keys)
  with 1 2 assms(2,3) show ?thesis
    by (intro exI [of _ s'] exI [of _ fs']) (simp add: cxx_then_Ok run_CheckIsConnected run_GetChannel)
qed

lemma get_run:
  assumes "client coming n s fs" and "m_is_connected s" and "m_free_channels s = channel # channels"
    and "IsChannelOpen channel s" and "channel \<noteq> 0" and "outbound_ok (m_connection s)"
    and "wf_frame (get_request channel queue no_ack)" and "length (frame_bytes (get_request channel queue no_ack)) \<le> outbound_len (m_connection s)"
    and "inbox s fs channel = get_ok_frame channel delivery_tag redelivered exchange routing_key count # header # map (body_frame channel) frags @ rest"
    and "frame_type header = 2"
    and "frame_payload header = Properties_payload cls (of_nat (length (concat frags))) (Basic_properties p)"
    and "p_flags p AND AMQP_BASIC_HEADERS_FLAG \<noteq> AMQP_BASIC_HEADERS_FLAG" and "length (concat frags) < 2 ^ 64 - 1"
    and "frags = [] \<or> last frags \<noteq> []" and "length frags < n"
  shows "\<exists>s' fs' m. BasicGet n R queue no_ack s = (Ok (Inr (Some \<lparr>e_message = m, e_consumer_tag = [], e_delivery_tag = delivery_tag,
      e_exchange = exchange, e_redelivered = redelivered, e_routing_key = routing_key, e_delivery_channel = channel\<rparr>)), s') \<and>
    properties_of m = p \<and> mb_bytes (m_body m) = concat frags \<and> client coming n s' fs' \<and>
    inbox s' fs' = (inbox s fs)(channel := rest) \<and> m_free_channels s' = channels @ [channel] \<and>
    outgoing (conn.more (m_connection s')) = outgoing (conn.more (m_connection s)) @ frame_bytes (get_request channel queue no_ack)"
proof -
  let ?ids = "[AMQP_BASIC_GET_OK_METHOD, AMQP_BASIC_GET_EMPTY_METHOD]"
  let ?ok = "get_ok_frame channel delivery_tag redelivered exchange routing_key count"
  let ?tail = "\<lambda>channel response. if method_id_of response = AMQP_BASIC_GET_EMPTY_METHOD then
       and_then (ReturnChannel channel) (\<lambda>_. and_then MaybeReleaseBuffers (\<lambda>_. value_of None))
     else case decoded_of (frame_payload response) of
       Some (amqp_basic_get_ok_t delivery_tag redelivered exchange routing_key _) \<Rightarrow>
         cxx_then (ReadContent n R channel) (\<lambda>message.
         and_then (ReturnChannel channel) (\<lambda>_.
         and_then MaybeReleaseBuffers (\<lambda>_.
         value_of (Some \<lparr>e_message = message, e_consumer_tag = [], e_delivery_tag = delivery_tag, e_exchange = exchange,
           e_redelivered = redelivered, e_routing_key = routing_key, e_delivery_channel = channel\<rparr>))))
     | _ \<Rightarrow> undef"
  have take: "take_method ?ids (inbox s fs channel) = Some (?ok, header # map (body_frame channel) frags @ rest)"
    unfolding assms(9) by (simp add: get_ok_frame_def)
  from free_channel_rpc [where g = ?tail, OF assms(1-6) assms(7,8) [unfolded get_request_def] take] obtain s1 fs1 where
    1: "BasicGet n R queue no_ack s = ?tail channel ?ok s1" "client coming n s1 fs1"
    "inbox s1 fs1 = (inbox s fs)(channel := header # map (body_frame channel) frags @ rest)" "IsChannelOpen channel s1"
    "m_free_channels s1 = channels"
    "outgoing (conn.more (m_connection s1)) = outgoing (conn.more (m_connection s)) @ frame_bytes (get_request channel queue no_ack)"
    unfolding BasicGet_def get_request_def by auto
  have "inbox s1 fs1 channel = header # map (body_frame channel) frags @ rest" using 1(3) by simp
  from content_run [OF 1(2,4) assms(5) this assms(10-15)] obtain s2 fs2 m where
    2: "ReadContent n R channel s1 = (Ok (Inr m), s2)" "client coming n s2 fs2" "inbox s2 fs2 = (inbox s1 fs1)(channel := rest)"
    "receives outgoing s1 s2" "properties_of m = p" "mb_bytes (m_body m) = concat frags" by blast
  let ?s = "s2\<lparr>m_free_channels := m_free_channels s2 @ [channel]\<rparr>"
  have "client coming n ?s fs2" using 2(2) by simp
  from release_run [OF this, of outgoing] obtain s' where
    3: "MaybeReleaseBuffers ?s = (Ok (), s')" "client coming n s' fs2" "inbox s' fs2 = inbox ?s fs2" "receives outgoing ?s s'" by blast
  have "?tail channel ?ok s1 = (Ok (Inr (Some \<lparr>e_message = m, e_consumer_tag = [], e_delivery_tag = delivery_tag,
      e_exchange = exchange, e_redelivered = redelivered, e_routing_key = routing_key, e_delivery_channel = channel\<rparr>)), s')"
    using 2(1) 3(1) by (simp add: get_ok_frame_def method_id_of_def cxx_then_Ok and_then_Ok ReturnChannel_def run_value_of
        AMQP_BASIC_GET_OK_METHOD_def AMQP_BASIC_GET_EMPTY_METHOD_def)
  moreover have "m_free_channels s' = channels @ [channel]" using 3(4) 2(4) 1(5) by (simp add: receives_def)
  moreover have "outgoing (conn.more (m_connection s')) = outgoing (conn.more (m_connection s1))"
    using 3(4) 2(4) by (simp add: receives_def)
  ultimately show ?thesis using 1 2 3 by (intro exI [of _ s'] exI [of _ fs2] exI [of _ m]) simp
qed

text \<open>A consumer is cancelled: its channel is free again, whatever else is in the inbox.\<close>

lemma cancel_run:
  assumes "client coming n s fs" and "m_is_connected s" and "map_of (m_consumer_channel_map s) tag = Some channel"
    and "IsChannelOpen channel s" and "channel \<noteq> 0" and "outbound_ok (m_connection s)"
    and "wf_frame (method_frame channel (amqp_basic_cancel_t (amqp_cstring_bytes tag) False))"
    and "length (frame_bytes (method_frame channel (amqp_basic_cancel_t (amqp_cstring_bytes tag) False))) \<le> outbound_len (m_connection s)"
    and "take_method [AMQP_BASIC_CANCEL_OK_METHOD] (inbox s fs channel) = Some (f, rest)"
  shows "\<exists>s' fs'. BasicCancel n R tag s = (Ok (Inr ()), s') \<and> client coming n s' fs' \<and>
    inbox s' fs' = (inbox s fs)(channel := rest) \<and> IsChannelOpen channel s' \<and> m_is_connected s' \<and>
    m_free_channels s' = m_free_channels s @ [channel] \<and> waits (m_connection s) (m_connection s')"
proof -
  let ?m = "amqp_basic_cancel_t (amqp_cstring_bytes tag) False"
  from rpc_run [of n s fs "method_frame channel ?m" channel "struct_number ?m" "Some ?m", OF assms(1,6) _ assms(7,8,4,5,9)]
  obtain s1 fs1 where 1: "DoRpcOnChannel n R channel AMQP_BASIC_CANCEL_METHOD (Some ?m) [AMQP_BASIC_CANCEL_OK_METHOD] s = (Ok (Inr f), s1)"
    "client coming n s1 fs1" "inbox s1 fs1 = (inbox s fs)(channel := rest)" "receives (\<lambda>_. []) s s1"
    by (auto simp: method_frame_def)
  have get: "GetConsumerChannel tag s = (Ok (Inr channel), s)" "GetConsumerChannel tag s1 = (Ok (Inr channel), s1)"
    using assms(3) 1(4) by (simp_all add: GetConsumerChannel_def receives_def run_value_of)
  let ?s2 = "s1\<lparr>m_consumer_channel_map := AList.delete tag (m_consumer_channel_map s1), m_free_channels := m_free_channels s1 @ [channel]\<rparr>"
  have 2: "client coming n ?s2 fs1" "inbox ?s2 fs1 = inbox s1 fs1" 
    using 1(2) client_same [of "s1\<lparr>m_consumer_channel_map := AList.delete tag (m_consumer_channel_map s1)\<rparr>" s1] by simp_all
  from release_run [OF 2(1), of "\<lambda>_. []"] obtain s' where
    3: "MaybeReleaseBuffers ?s2 = (Ok (), s')" "client coming n s' fs1" "inbox s' fs1 = inbox ?s2 fs1" "receives (\<lambda>_. []) ?s2 s'"
    "m_open_channels s' = m_open_channels ?s2" by blast
  have "BasicCancel n R tag s = (Ok (Inr ()), s')"
    using 1(1) get assms(2) 3(1)
    by (simp add: BasicCancel_def cxx_then_Ok run_CheckIsConnected RemoveConsumer_def ReturnChannel_def and_then_Ok run_value_of calling_Ok)
  moreover have "IsChannelOpen channel s'" using 3(5) 1(4) assms(4) by (simp add: open_keys receives_def)
  moreover have "waits (m_connection s) (m_connection s')" using 1(4) 3(4) by (auto simp: receives_def intro: waits_trans)
  moreover have "m_is_connected s'" "m_free_channels s' = m_free_channels s @ [channel]"
    using 1(4) 3(4) assms(2) by (simp_all add: receives_def)
  ultimately show ?thesis using 1(3) 2(2) 3 by (intro exI [of _ s'] exI [of _ fs1]) simp
qed

text \<open>What is left in the inbox of a free channel is taken for the message that was asked for.\<close>

lemma get_leftover:
  assumes "client coming n s fs" and "m_is_connected s" and "m_free_channels s = channel # channels"
    and "IsChannelOpen channel s" and "channel \<noteq> 0" and "outbound_ok (m_connection s)"
    and "wf_frame (get_request channel queue no_ack)" and "length (frame_bytes (get_request channel queue no_ack)) \<le> outbound_len (m_connection s)"
    and "inbox s fs channel = left # behind" and "frame_type left \<noteq> 2"
    and "\<not> is_expected_method [AMQP_CHANNEL_CLOSE_METHOD, AMQP_BASIC_GET_OK_METHOD, AMQP_BASIC_GET_EMPTY_METHOD] left"
    and "take_method [AMQP_BASIC_GET_OK_METHOD, AMQP_BASIC_GET_EMPTY_METHOD] behind =
      Some (get_ok_frame channel delivery_tag redelivered exchange routing_key count, rest)"
  shows "\<exists>s' fs'. BasicGet n R queue no_ack s = (Ok (Inl (runtime_error
       (ascii ''Channel::BasicConsumeMessage: receieved unexpected frame type (was expected AMQP_FRAME_HEADER)''))), s') \<and>
    client coming n s' fs' \<and> IsChannelOpen channel s' \<and> m_free_channels s' = channels"
proof -
  let ?ids = "[AMQP_BASIC_GET_OK_METHOD, AMQP_BASIC_GET_EMPTY_METHOD]"
  let ?ok = "get_ok_frame channel delivery_tag redelivered exchange routing_key count"
  let ?msg = "runtime_error (ascii ''Channel::BasicConsumeMessage: receieved unexpected frame type (was expected AMQP_FRAME_HEADER)'')"
  let ?tail = "\<lambda>channel response. if method_id_of response = AMQP_BASIC_GET_EMPTY_METHOD then
       and_then (ReturnChannel channel) (\<lambda>_. and_then MaybeReleaseBuffers (\<lambda>_. value_of None))
     else case decoded_of (frame_payload response) of
       Some (amqp_basic_get_ok_t delivery_tag redelivered exchange routing_key _) \<Rightarrow>
         cxx_then (ReadContent n R channel) (\<lambda>message.
         and_then (ReturnChannel channel) (\<lambda>_.
         and_then MaybeReleaseBuffers (\<lambda>_.
         value_of (Some \<lparr>e_message = message, e_consumer_tag = [], e_delivery_tag = delivery_tag, e_exchange = exchange,
           e_redelivered = redelivered, e_routing_key = routing_key, e_delivery_channel = channel\<rparr>))))
     | _ \<Rightarrow> undef"
  have no: "\<not> is_expected_method ?ids left" "\<not> is_expected_method [AMQP_CHANNEL_CLOSE_METHOD] left"
    using assms(11) by (auto dest: is_expected_more [where ids' = "[AMQP_CHANNEL_CLOSE_METHOD, AMQP_BASIC_GET_OK_METHOD, AMQP_BASIC_GET_EMPTY_METHOD]"])
  have take: "take_method ?ids (inbox s fs channel) = Some (?ok, left # rest)" unfolding assms(9) using no(1) assms(12) by simp
  from free_channel_rpc [where g = ?tail, OF assms(1-6) assms(7,8) [unfolded get_request_def] take] obtain s1 fs1 where
    1: "BasicGet n R queue no_ack s = ?tail channel ?ok s1" "client coming n s1 fs1"
    "inbox s1 fs1 = (inbox s fs)(channel := left # rest)" "IsChannelOpen channel s1" "m_free_channels s1 = channels"
    unfolding BasicGet_def by auto
  have "inbox s1 fs1 channel = left # rest" using 1(3) by simp
  from next_frame_run [OF 1(2,4) assms(5) this no(2)] obtain s2 fs2 where
    2: "GetNextFrameOnChannel n R channel None s1 = (Ok (Inr (Some left)), s2)" "client coming n s2 fs2"
    "inbox s2 fs2 = (inbox s1 fs1)(channel := rest)" "receives outgoing s1 s2" by blast
  have "ReadContent n R channel s1 = (Ok (Inl ?msg), s2)"
    using 2(1) assms(10) by (simp add: ReadContent_def cxx_then_Ok run_throw AMQP_FRAME_HEADER8_def constant_defs)
  then have "?tail channel ?ok s1 = (Ok (Inl ?msg), s2)"
    by (simp add: get_ok_frame_def method_id_of_def cxx_then_Throw AMQP_BASIC_GET_OK_METHOD_def AMQP_BASIC_GET_EMPTY_METHOD_def)
  moreover have "m_free_channels s2 = channels" "IsChannelOpen channel s2" using 2(4) 1(4,5) by (simp_all add: receives_def open_keys)
  ultimately show ?thesis using 1 2 by (intro exI [of _ s2] exI [of _ fs2]) simp
qed

end

section \<open>On a TCP socket\<close>

definition tcp_client :: "nat \<Rightarrow> 'o os \<Rightarrow> ('o tcp_conn_scheme, (int \<times> int) option) cm \<Rightarrow>
    (int \<Rightarrow> timeval \<Rightarrow> ('o tcp_conn_scheme, int \<times> bool \<times> timeval) cm) \<Rightarrow> ('o tcp_conn_scheme, int) cm \<Rightarrow> 'o tcp_conn_scheme client_platform" where
  "tcp_client n S clock sel steady = \<lparr>lib = tcp_platform n S clock sel, steady_clock = steady, errno_text = ret [], asserting = False\<rparr>"

lemma tcp_client_stream:
  assumes "direct_os S coming outgoing signals n"
  shows "client_stream (tcp_client n S clock sel steady) (coming o os_part) (outgoing o os_part)"
proof (rule client_stream.intro)
  show "duplex_stream (lib (tcp_client n S clock sel steady)) (coming o os_part) (outgoing o os_part)"
    using direct_os.tcp_duplex [OF assms] by (simp add: tcp_client_def)
  show "client_stream_axioms (tcp_client n S clock sel steady)"
    by (simp add: client_stream_axioms_def tcp_client_def tcp_platform_def amqp_get_sockfd_def amqp_socket_get_sockfd_def
        amqp_tcp_socket_class_def amqp_tcp_socket_get_sockfd_def)
qed

interpretation pipe_client: client_stream "tcp_client 3 (pipe_os (Some 0x8000) (Some 0x4000) None) pipe_clock pipe_select (ret 0)"
    "incoming o os_part" "sent_bytes o os_part"
  by (rule tcp_client_stream [OF pipe.direct_os_axioms])

section \<open>What goes unnoticed\<close>

text \<open>A close of the channel that was put aside is overlooked by every method that waits for an answer.\<close>

lemma queued_close_is_overlooked:
  assumes "map_of (m_open_channels s) channel = Some [close, wanted]" and "is_expected_method ids wanted"
    and "is_expected_method [AMQP_CHANNEL_CLOSE_METHOD] close" and "AMQP_CHANNEL_CLOSE_METHOD \<notin> set ids"
  shows "GetMethodOnChannel n R channel ids timeout s = (Ok (Inr (Some wanted)), with_queue channel [close] s)"
proof -
  have "\<not> is_expected_method ids close"
    using assms(3,4) by (auto simp: is_expected_method_def split: amqp_frame_payload.splits)
  with assms(1,2) show ?thesis
    by (simp add: GetMethodOnChannel_def cxx_then_Ok run_queue and_then_Ok run_set_queue run_value_of with_queue_def)
qed

text \<open>A fragment longer than what is left of the body is copied past the end of the buffer.\<close>

lemma long_fragment_overruns:
  assumes "GetNextFrameOnChannel n R channel None s = (Ok (Inr (Some (body_frame channel fragment))), s')"
    and "length body < body_size" and "body_size < length (body @ fragment)"
  shows "read_fragments (Suc k) n R channel body_size block body s = (Undef, s')"
  using assms by (simp add: cxx_then_Ok body_frame_def AMQP_FRAME_BODY8_def constant_defs)

section \<open>A conversation\<close>

text \<open>A client with two open channels on the scripted stream, on which some frames are to arrive.\<close>

definition conversing :: "u16 list \<Rightarrow> (bytes \<times> u16) list \<Rightarrow> amqp_frame list \<Rightarrow> stream channel_impl" where
  "conversing channels consumers frames = \<lparr>m_connection = stream_of frames, m_consumer_channel_map = consumers,
     m_open_channels = [(0, []), (1, []), (2, [])], m_free_channels = channels, m_is_connected = True, m_next_channel_id = 2\<rparr>"

lemma expected_received [simp]: "is_expected_method ids (received block f) = is_expected_method ids f"
  by (auto simp: is_expected_method_def received_def split: amqp_frame_payload.splits)

lemma conversing_simps [simp]:
  "m_connection (conversing channels consumers frames) = stream_of frames" "m_free_channels (conversing channels consumers frames) = channels"
  "m_consumer_channel_map (conversing channels consumers frames) = consumers" "m_is_connected (conversing channels consumers frames)"
  "m_open_channels (conversing channels consumers frames) = [(0, []), (1, []), (2, [])]"
  by (simp_all add: conversing_def)

lemma stale_stream_of [simp]: "stale_properties (stream_of frames) = sample_properties"
  by (simp add: stream_of_def conn.defs initial_conn_def sample_conn_def zeroed_def heap.defs)

lemma conversing_client:
  assumes "\<forall>g \<in> set (f # fs). wf_frame g" and "frame_bytes f ! 7 = 0" and "length (wire (f # fs)) < 240" and "length (f # fs) < 500"
    and "\<forall>g \<in> set (f # fs). frame_channel g \<in> {0, 1, 2} \<and> \<not> is_expected_method [AMQP_CHANNEL_CLOSE_METHOD, AMQP_CONNECTION_CLOSE_METHOD] g"
  shows "client script_coming 500 (conversing channels consumers (f # fs)) (f # fs)"
proof -
  let ?s = "conversing channels consumers (f # fs)"
  have b: "between script_coming (stream_of (f # fs)) (f # fs)" by (rule stream_of_between [OF assms(1,2)])
  have "length (mailbox (stream_of (f # fs)) (f # fs)) \<le> length (f # fs)"
    unfolding mailbox_def using length_filter_le [of "\<lambda>f. \<not> is_heartbeat f" "f # fs"] by simp
  moreover have "list_all (ordinary ?s) (mailbox (stream_of (f # fs)) (f # fs))"
    using assms(5) by (auto simp: list_all_iff mailbox_def ordinary_def IsChannelOpen_def)
  moreover have "enough (stream_of (f # fs)) (script_coming (conn.more (stream_of (f # fs)))) \<le> 500"
    using assms(3) by (simp add: enough_def)
  ultimately show ?thesis using b assms(4) by (simp add: client_def between_def)
qed

definition an_answer :: "amqp_frame list" where
  "an_answer = [body_frame 2 [0], get_ok_frame 1 7 False [] [] 0, header_frame 1 5 sample_properties,
     body_frame 1 [1, 2], body_frame 2 [8], body_frame 1 [3, 4, 5]]"

lemma get_ok_wf: "wf_frame (get_ok_frame 1 7 False [] [] 0)"
  unfolding get_ok_frame_def by (rule method_frame_wf) (simp_all add: short_bytes_def)

lemma sample_header_wf: "wf_frame (header_frame 1 k sample_properties)"
  using sample_properties_wf sample_properties_length by (simp add: wf_frame_def header_frame_def frame_bytes_def payload_bytes_def)

lemma an_answer_client: "client script_coming 500 (conversing channels consumers an_answer) an_answer"
  unfolding an_answer_def
proof (rule conversing_client)
  show "length (wire [body_frame 2 [0], get_ok_frame 1 7 False [] [] 0, header_frame 1 5 sample_properties,
     body_frame 1 [1, 2], body_frame 2 [8], body_frame 1 [3, 4, 5]]) < 240"
    using sample_properties_length
    by (simp add: get_ok_frame_def header_frame_def body_frame_def method_frame_def frame_bytes_def payload_bytes_def method_wire_def short_bytes_def)
  show "\<forall>g \<in> set [body_frame 2 [0], get_ok_frame 1 7 False [] [] 0, header_frame 1 5 sample_properties,
      body_frame 1 [1, 2], body_frame 2 [8], body_frame 1 [3, 4, 5]]. wf_frame g"
    by (simp add: body_frame_wf get_ok_wf sample_header_wf)
  show "\<forall>g \<in> set [body_frame 2 [0], get_ok_frame 1 7 False [] [] 0, header_frame 1 5 sample_properties,
      body_frame 1 [1, 2], body_frame 2 [8], body_frame 1 [3, 4, 5]].
    frame_channel g \<in> {0, 1, 2} \<and> \<not> is_expected_method [AMQP_CHANNEL_CLOSE_METHOD, AMQP_CONNECTION_CLOSE_METHOD] g"
    by (simp add: get_ok_frame_def method_number_defs) (simp add: is_expected_method_def body_frame_def header_frame_def)
  show "frame_bytes (body_frame 2 [0]) ! 7 = 0"
    by (simp add: body_frame_def frame_bytes_def frame_image_def payload_bytes_def be8_def be16_def be32_def)
qed simp

lemma set_if_same: "upd (\<lambda>_. v) p = p \<Longrightarrow> set_if f flag upd v p = p"
  by (simp add: set_if_def)

lemma overlay_same [simp]: "overlay p p = p"
  by (simp add: overlay_def set_if_same)

lemma received_answer:
  "received sample_properties (body_frame channel bs) = body_frame channel bs"
  "received sample_properties (header_frame channel k sample_properties) = header_frame channel k sample_properties"
  "received sample_properties (method_frame channel m) = method_frame channel m"
  by (simp_all add: received_def body_frame_def header_frame_def method_frame_def)

lemma inbox_answer:
  "inbox (conversing channels consumers an_answer) an_answer 1 =
    [get_ok_frame 1 7 False [] [] 0, header_frame 1 5 sample_properties, body_frame 1 [1, 2], body_frame 1 [3, 4, 5]]"
  by (simp add: inbox_def mailbox_def an_answer_def received_answer get_ok_frame_def)
    (simp add: body_frame_def header_frame_def)

section \<open>Properties\<close>

text \<open>
  C37: each channel of a connection has an inbox of its own.  From a connection that receives any frames for its
  open channels but no close, a call that waits for one of some methods on a channel returns the first of them in
  the inbox of this channel, and takes just that one out: what came before it on the channel, and all frames of
  the other channels, whether they were queued or arrived while the call waited, stay, in their order.
\<close>

theorem channels_have_inboxes:
  assumes "client_stream R coming outgoing" and "client coming n s fs" and "IsChannelOpen channel s" and "channel \<noteq> 0"
    and "take_method ids (inbox s fs channel) = Some (f, rest)"
  shows "\<exists>s' fs'. GetMethodOnChannel n R channel ids None s = (Ok (Inr (Some f)), s') \<and> client coming n s' fs' \<and>
    inbox s' fs' = (inbox s fs)(channel := rest) \<and> receives outgoing s s'"
  by (rule client_stream.method_run [OF assms])

theorem channels_have_inboxes_witness:
  "\<exists>s' fs'. GetMethodOnChannel 500 script_client 1 [AMQP_BASIC_GET_OK_METHOD] None (conversing [1] [] an_answer) =
      (Ok (Inr (Some (get_ok_frame 1 7 False [] [] 0))), s') \<and> client script_coming 500 s' fs' \<and>
    inbox s' fs' = (inbox (conversing [1] [] an_answer) an_answer)
      (1 := [header_frame 1 5 sample_properties, body_frame 1 [1, 2], body_frame 1 [3, 4, 5]]) \<and>
    receives script_written (conversing [1] [] an_answer) s'"
  by (rule channels_have_inboxes [OF script_client.client_stream_axioms an_answer_client])
    (simp_all only: inbox_answer, simp_all add: IsChannelOpen_def get_ok_frame_def)


lemma small_request: "wf_frame (get_request 1 [] True)" "length (frame_bytes (get_request 1 [] True)) = 16"
  unfolding get_request_def
  by (rule method_frame_wf) (simp_all add: short_bytes_def amqp_cstring_bytes_def method_frame_def frame_bytes_def payload_bytes_def method_wire_def)



text \<open>A delivery, and behind it the answers to the two requests.\<close>

definition late_delivery :: "amqp_frame list" where
  "late_delivery = [method_frame 1 (amqp_basic_deliver_t [99] 3 False [] []), body_frame 1 [1],
     method_frame 1 (amqp_basic_cancel_ok_t [99]), get_ok_frame 1 7 False [] [] 0]"

lemma late_delivery_client: "client script_coming 500 (conversing channels consumers late_delivery) late_delivery"
  unfolding late_delivery_def
proof (rule conversing_client)
  have "wf_frame (method_frame 1 (amqp_basic_deliver_t [99] 3 False [] []))" "wf_frame (method_frame 1 (amqp_basic_cancel_ok_t [99]))"
    by (rule method_frame_wf; simp add: short_bytes_def)+
  then show "\<forall>g \<in> set [method_frame 1 (amqp_basic_deliver_t [99] 3 False [] []), body_frame 1 [1],
      method_frame 1 (amqp_basic_cancel_ok_t [99]), get_ok_frame 1 7 False [] [] 0]. wf_frame g"
    by (simp add: body_frame_wf get_ok_wf)
  show "\<forall>g \<in> set [method_frame 1 (amqp_basic_deliver_t [99] 3 False [] []), body_frame 1 [1],
      method_frame 1 (amqp_basic_cancel_ok_t [99]), get_ok_frame 1 7 False [] [] 0].
    frame_channel g \<in> {0, 1, 2} \<and> \<not> is_expected_method [AMQP_CHANNEL_CLOSE_METHOD, AMQP_CONNECTION_CLOSE_METHOD] g"
    by (simp add: get_ok_frame_def method_number_defs) (simp add: is_expected_method_def body_frame_def)
  show "length (wire [method_frame 1 (amqp_basic_deliver_t [99] 3 False [] []), body_frame 1 [1],
      method_frame 1 (amqp_basic_cancel_ok_t [99]), get_ok_frame 1 7 False [] [] 0]) < 240"
    by (simp add: get_ok_frame_def body_frame_def method_frame_def frame_bytes_def payload_bytes_def method_wire_def short_bytes_def)
qed (simp_all add: method_frame_eighth method_number_defs)

lemma inbox_late_delivery:
  "inbox (conversing channels consumers late_delivery) late_delivery 1 = late_delivery"
  by (simp add: inbox_def mailbox_def late_delivery_def received_answer get_ok_frame_def) (simp add: body_frame_def)




end
