(* ===== verification/Spec2Isabelle.thy ===== *)
theory Spec2Isabelle
  imports Mem Codec Table Framing Content Connection Frames Wait Rpc Api Tcp Url Ssl Tools Jzon Recog SimpleErrors SimpleTable SimpleMessage SimpleChannel SimpleInbox SimpleClient
begin

text \<open>
  A model of librabbitmq, the AMQP 0-9-1 client library in C under
  \<^verbatim>\<open>src/native/rabbitmq-c/librabbitmq\<close>, of its command-line tools, of SimpleAmqpClient, the C++ client on top
  of it, and of the recognition server of the talk, which answers requests that come over AMQP with JSON.  File names below are relative to that directory.

  \<^bold>\<open>The program and the theories.\<close>  An application calls \<^verbatim>\<open>amqp_api.c\<close> and the functions at the end of
  \<^verbatim>\<open>amqp_framing.c\<close>; these send methods and wait for replies (\<^verbatim>\<open>amqp_socket.c\<close>), which turns them into frames
  (\<^verbatim>\<open>amqp_connection.c\<close>) whose contents are encoded by \<^verbatim>\<open>amqp_framing.c\<close> and \<^verbatim>\<open>amqp_table.c\<close>; bytes go through a
  socket table (\<^verbatim>\<open>amqp_socket.h\<close>) implemented by \<^verbatim>\<open>amqp_tcp_socket.c\<close> or \<^verbatim>\<open>amqp_openssl.c\<close>; memory comes from
  pools, one for each channel (\<^verbatim>\<open>amqp_mem.c\<close>).  The theories follow these layers from the bottom up.

  \<^item> \<open>Prelude\<close>: machine integers, the status codes, and the calculus in which the C functions are written.
    A computation maps a state to an outcome and a state; \<open>Ok\<close> is a return, \<open>Err\<close> an early return with a
    negative status, \<open>Undef\<close> undefined behaviour, \<open>Abort\<close> a call of \<^verbatim>\<open>amqp_abort\<close>, a failed \<^verbatim>\<open>assert\<close> or the
    end of the process, \<open>OutOfFuel\<close> the end of a bound on loops.
  \<^item> \<open>Mem\<close>: \<^verbatim>\<open>amqp_mem.c\<close>.  The C heap is the set of allocated blocks with their sizes and the pattern of
    requests that are granted; pools, block lists, byte-string helpers.
  \<^item> \<open>Codec\<close>: the accessors and the bounds-checked readers and writers of \<^verbatim>\<open>amqp_private.h\<close>, for both byte
    orders.  A reader works on a view with an offset, a writer on a buffer with an offset.
  \<^item> \<open>Table\<close>: \<^verbatim>\<open>amqp_table.c\<close>, field values, arrays and tables.
  \<^item> \<open>Framing\<close>, \<open>Content\<close>: \<^verbatim>\<open>amqp_framing.c\<close> and \<^verbatim>\<open>amqp_framing.h\<close>, the structs, decoders and encoders of the
    62 methods and the property lists of content headers.
  \<^item> \<open>Connection\<close>: the record \<open>conn\<close> is \<^verbatim>\<open>struct amqp_connection_state_t_\<close> together with the heap; the table
    of channel pools, tuning, creation, release and destruction (\<^verbatim>\<open>amqp_connection.c\<close>, \<^verbatim>\<open>amqp_timer.c\<close>), and the
    socket table as a record of functions.
  \<^item> \<open>Frames\<close>: \<^verbatim>\<open>amqp_handle_input\<close>, the state machine that assembles frames, and \<^verbatim>\<open>amqp_send_frame\<close>.
  \<^item> \<open>Wait\<close>, \<open>Rpc\<close>: \<^verbatim>\<open>amqp_socket.c\<close>.  Waiting with timeouts and heartbeats, the frame queue, remote calls,
    login.
  \<^item> \<open>Api\<close>: publishing, closing, acknowledging, error texts, and the synchronous methods.
  \<^item> \<open>Tcp\<close>: \<^verbatim>\<open>amqp_tcp_socket.c\<close> and the opening of descriptors; \<open>Ssl\<close>: \<^verbatim>\<open>amqp_openssl.c\<close>.
  \<^item> \<open>Url\<close>: \<^verbatim>\<open>amqp_url.c\<close>, the parser that works in place.
  \<^item> \<open>Tools\<close>: the command-line tools under \<^verbatim>\<open>../tools\<close>, which are applications of the library
    (\<^verbatim>\<open>common.c\<close>, \<^verbatim>\<open>get.c\<close>, \<^verbatim>\<open>publish.c\<close>, \<^verbatim>\<open>consume.c\<close>, \<^verbatim>\<open>declare_queue.c\<close>, \<^verbatim>\<open>delete_queue.c\<close>, \<^verbatim>\<open>unix/process.c\<close>).
  \<^item> \<open>Jzon\<close>: \<^verbatim>\<open>../../jzon.cpp\<close>, the JSON tree, its writer and its parser.
  \<^item> \<open>SimpleErrors\<close>, \<open>SimpleTable\<close>, \<open>SimpleMessage\<close>, \<open>SimpleChannel\<close>, \<open>SimpleInbox\<close>, \<open>SimpleClient\<close>: the C++ client
    under \<^verbatim>\<open>../../rabbitmq-cpp/src\<close>.  Its exceptions (\<^verbatim>\<open>AmqpException.cpp\<close>); its tables, built in pools of the C
    library (\<^verbatim>\<open>TableImpl.cpp\<close>); messages and the memory they own (\<^verbatim>\<open>BasicMessage.cpp\<close>); the frame queues that let
    many channels share a connection (\<^verbatim>\<open>ChannelImpl.cpp\<close>), with the abstract inboxes that they implement; and the
    methods an application calls (\<^verbatim>\<open>Channel.cpp\<close>).  The C library under it is the model of the theories above, not
    an abstraction of it.  A C++ function gives an exception (\<open>Inl\<close>) or a value (\<open>Inr\<close>) where it returns.
  \<^item> \<open>Recog\<close>: the recognition server, a worker that takes requests from a queue (\<^verbatim>\<open>../../rabbit.cpp\<close>), reads the
    image in them (\<^verbatim>\<open>../../im.cpp\<close>), makes coins of the circles in it (\<^verbatim>\<open>../../recog/src/coins.cpp\<close>) and answers
    with \<open>Jzon\<close> (\<^verbatim>\<open>../../recog/src/main.cpp\<close>).

  A pointer to a decoded struct or byte string is modelled by the value it points to: the library never
  changes decoded data, so aliasing does not show.  Where it does show, in the buffers of the connection,
  the pools and the text of a URL, memory is explicit.  Records and enumerations are declared with the
  members of the C types; a \<^verbatim>\<open>void *\<close> that holds one of many structs is \<open>amqp_method_struct option\<close>, \<open>None\<close>
  being \<^verbatim>\<open>NULL\<close>.

  \<^bold>\<open>Interfaces.\<close>  The laws one layer promises to the next are locales, interpreted on the code's definitions.
  \<open>frame_relation\<close> and \<open>safety\<close> (\<open>Prelude\<close>) carry what every computation of a component leaves alone and
  what it guarantees; they are interpreted for the heap, the writers, the frame reader, the connection and
  the waiting functions.  \<open>region_allocator\<close> (\<open>Mem\<close>) says that regions handed out are disjoint;
  \<open>wire_codec\<close> (\<open>Codec\<close>) is the round trip of an encoder and a decoder, interpreted for integers, tables,
  field values, methods and property lists; \<open>channel_directory\<close> (\<open>Connection\<close>) is the table of pools.
  \<open>byte_stream\<close> and \<open>duplex_stream\<close> (\<open>Wait\<close>) are what waiting, remote calls, login and publishing need of a
  socket; they are interpreted on a scripted stream and, through \<open>stream_os\<close> and \<open>direct_os\<close> (\<open>Tcp\<close>), hold
  for the TCP socket on any system that carries a byte stream.  \<open>descriptor_os\<close> (\<open>Tcp\<close>) and \<open>tls_handles\<close>
  (\<open>Ssl\<close>) say when a descriptor or a handle is in use; \<open>body_sink\<close> and \<open>pipe_os\<close> (\<open>Tools\<close>) are the descriptor
  that takes a message and the descriptors of a command.  \<open>string_slot\<close> (\<open>SimpleMessage\<close>) is a property that is set,
  read and cleared, interpreted for each string property of a message; \<open>client_stream\<close> (\<open>SimpleInbox\<close>) extends
  \<open>duplex_stream\<close> by what the C++ client asks of the connection, interpreted on the scripted stream and on the TCP
  socket.  \<open>request_broker\<close> (\<open>Recog\<close>) is what the worker sees of
  the queue, with two extensions: \<open>patient_broker\<close> sends no request before the last is answered, \<open>eager_broker\<close>
  sends all at once.

  \<^bold>\<open>What the lemmas show.\<close>
  \<^item> Codecs: each decoder undoes its encoder, on any buffer and pool with room; decoding arbitrary bytes
    returns, with data or with an error, and reads inside the frame.
  \<^item> Memory: allocations are disjoint and stay so, recycling and destruction free every block exactly once,
    for every pattern of allocation failures; the invariant \<open>conn_inv\<close> of the connection is kept.
  \<^item> Frames: however the bytes are cut up, the frames are delivered in order and unchanged; what is sent is
    exactly the wire format.
  \<^item> Waiting and calls refine an abstract mailbox, the queue of frames not yet delivered; a call returns the
    first reply; login negotiates the limits; a published message arrives whole, and \<^verbatim>\<open>amqp-get\<close> writes it out.
  \<^item> The C++ client: tables arrive as they were passed; a message frees what it owns, once; the search for a
    channel number ends at a free one; the queues of frames refine one inbox for each channel, so that calls on one
    channel do not disturb another; \<^verbatim>\<open>BasicGet\<close> gives the message that the broker sent.
  \<^item> The server: what the JSON writer writes the parser reads, and the parser never runs out of its queues
    whatever the text; the answer to a request shows what was recognised, and each request is answered, once.
  \<^item> The exceptions to all this, where the code is wrong, are theorems too: a header whose announced size
    wraps, a frame too short for its fixed part, a message sent with a frame size of 8, a partial \<^verbatim>\<open>send\<close>,
    an interrupted wait, a stale TLS flag in a URL, errors hidden by the TLS socket, options that the tools
    always refuse, strings that end in a backslash, requests that are sent ahead, deliveries that come after their
    consumer was cancelled, secure URIs that the C++ client opens in the clear, and others.

  \<^bold>\<open>Bounds and fuel.\<close>  The platform is LP64: \<^verbatim>\<open>size_t\<close> is 64 bits, \<^verbatim>\<open>int\<close> 32; sizes computed in narrower types
  wrap as written.  Loops that end for every input are structural or have a termination proof.  The
  decoders take one more than the length of the view as fuel, for nesting and for rounds: every value
  takes a byte.  A wait may last for ever, so the fuel \<open>n\<close> counts rounds; \<open>enough\<close>, twice the bytes unread
  and to come plus two, is shown to suffice on streams.  Publishing takes one more than the length of
  the body, and is shown not to end for any fuel where the usable size is 0.  The loops around \<^verbatim>\<open>send\<close> and
  \<^verbatim>\<open>writev\<close> have \<open>n\<close> rounds for each byte, where fewer than \<open>n\<close> signals arrive in a row.
  The C++ client takes the same fuel, and 65,536 rounds for a channel number; its inner loops have more rounds
  than there are frames to come.
  An assertion aborts unless \<open>ndebug\<close> is set.

  \<^bold>\<open>Parameters.\<close>  What is not in the repository is an argument of the model: the allocator's decisions, the
  clock and \<^verbatim>\<open>select\<close> (\<open>platform\<close>), the system calls (\<open>os\<close>), OpenSSL and the thread functions (\<open>openssl\<close>), OpenCV (a function from
  an image to circles); the worker of the server uses the C++ client through an interface of its own (\<open>amqp_client\<close>), and
  the C++ client has the steady clock and the text of \<^verbatim>\<open>errno\<close> in \<open>client_platform\<close>.
  Hypotheses on them are documented behaviour, and each theorem that has one comes with a witness on
  a system or library in miniature.

  \<^bold>\<open>Not modelled.\<close>  The WIN32 variants (the POSIX ones are modelled).  \<^verbatim>\<open>amqp_gnutls.c\<close>, \<^verbatim>\<open>amqp_polarssl.c\<close> and
  \<^verbatim>\<open>amqp_cyassl.c\<close> are shut off by an \<^verbatim>\<open>#error\<close> as untested, and do not fit the present socket table: their
  tables still have a member for errors and none for deletion.  \<^verbatim>\<open>amqp_version\<close> returns a constant;
  \<open>properties.raw\<close>, a copy of the encoded property list, is left out.  \<^verbatim>\<open>codegen.py\<close> generates
  \<^verbatim>\<open>amqp_framing.c\<close>, which is modelled as generated.  Of the tools, the option tables
  and their parsing with popt and the choice of a socket in \<^verbatim>\<open>make_connection\<close>; the examples and tests.
  Of the JSON library, the reading and printing of floating-point numbers.  Of the C++ client, the printing and
  comparison of tables and the widening of floats; allocations of the C++ runtime are taken to succeed, and the
  frames in its queues are values, so that a queued frame whose pool was recycled does not show.
  The test framework, the iOS and JVM clients and the slides of the talk.
\<close>

end
